(* ===== verification/Prelude.thy ===== *)
theory Prelude
  imports Complex_Main "HOL-Library.Multiset" "HOL-Library.Char_ord" "HOL-Library.List_Lexorder"
begin

text \<open>
  What the components share: the Go standard library functions they call on strings and
  slices, the model of \<open>sort.Slice\<close> with the theory of its comparison functions, and the
  generic lemmas on lists and maps.

  Go strings are byte strings, so \<^typ>\<open>string\<close> (a list of 8-bit characters) is their type,
  and \<open><\<close> on them is the bytewise lexicographic order of \<open>List_Lexorder\<close> and \<open>Char_ord\<close>.
  Instants and durations (\<open>time.Time\<close>, \<open>time.Duration\<close>) are integers: nanoseconds since
  Go's zero time, so that the zero \<open>time.Time\<close> is \<open>0\<close> and \<open>IsZero\<close> is a test for it.
\<close>

named_theorems model_simps \<open>equations that unfold the code's small accessor functions\<close>

type_synonym go_time = int
type_synonym go_duration = int

definition second :: go_duration where
  "second = 1000000000"

definition minute :: go_duration where
  "minute = 60 * second"

definition hour :: go_duration where
  "hour = 60 * minute"

definition is_zero_time :: "go_time \<Rightarrow> bool" where
  "is_zero_time t \<longleftrightarrow> t = 0"

section \<open>Package strings\<close>

fun has_prefix :: "string \<Rightarrow> string \<Rightarrow> bool" where
  "has_prefix s [] = True"
| "has_prefix [] (c # p) = False"
| "has_prefix (d # s) (c # p) = (d = c \<and> has_prefix s p)"

definition has_suffix :: "string \<Rightarrow> string \<Rightarrow> bool" where
  "has_suffix s p = has_prefix (rev s) (rev p)"

fun str_contains :: "string \<Rightarrow> string \<Rightarrow> bool" where
  "str_contains [] n = (n = [])"
| "str_contains (c # s) n = (has_prefix (c # s) n \<or> str_contains s n)"

definition is_space :: "char \<Rightarrow> bool" where
  "is_space c \<longleftrightarrow> c \<in> {CHR '' '', CHR 0x09, CHR 0x0A, CHR 0x0B, CHR 0x0C, CHR 0x0D}"

definition trim_space :: "string \<Rightarrow> string" where
  "trim_space s = rev (dropWhile is_space (rev (dropWhile is_space s)))"

definition ascii_lower :: "char \<Rightarrow> char" where
  "ascii_lower c =
     (let n = (of_char c :: nat) in if 65 \<le> n \<and> n \<le> 90 then char_of (n + 32) else c)"

definition to_lower :: "string \<Rightarrow> string" where
  "to_lower s = map ascii_lower s"

lemma has_prefix_append [simp]: "has_prefix (p @ s) p"
  by (induction p) auto

lemma has_prefix_iff: "has_prefix s p \<longleftrightarrow> (\<exists>t. s = p @ t)"
  by (induction s p rule: has_prefix.induct) auto

lemma str_contains_iff: "str_contains s n \<longleftrightarrow> (\<exists>a b. s = a @ n @ b)"
proof (induction s)
  case Nil
  then show ?case by auto
next
  case (Cons c s)
  show ?case
  proof
    assume "str_contains (c # s) n"
    then show "\<exists>a b. c # s = a @ n @ b"
      unfolding str_contains.simps Cons.IH has_prefix_iff
      by (metis append_Cons append_Nil)
  next
    assume "\<exists>a b. c # s = a @ n @ b"
    then obtain a b where ab: "c # s = a @ n @ b" by blast
    show "str_contains (c # s) n"
    proof (cases a)
      case Nil
      with ab have "has_prefix (c # s) n" by (simp add: has_prefix_iff)
      then show ?thesis by simp
    next
      case (Cons d a')
      with ab have "s = a' @ n @ b" by simp
      then show ?thesis using Cons.IH by auto
    qed
  qed
qed

lemma str_contains_Nil [simp]: "str_contains s []"
  by (cases s) auto

lemma trim_space_Nil [simp]: "trim_space [] = []"
  by (simp add: trim_space_def)

lemma dropWhile_fix: "(xs = [] \<or> \<not> P (hd xs)) \<Longrightarrow> dropWhile P xs = xs"
  by (cases xs) auto

lemma dropWhile_hd: "dropWhile P xs = [] \<or> \<not> P (hd (dropWhile P xs))"
  by (induction xs) auto

lemma last_dropWhile: "dropWhile P xs \<noteq> [] \<Longrightarrow> last (dropWhile P xs) = last xs"
  by (induction xs) (auto split: if_splits)

text \<open>Trimming is idempotent: what a marker stores trimmed compares equal when trimmed again.\<close>

lemma trim_space_idem [simp]: "trim_space (trim_space s) = trim_space s"
proof -
  let ?a = "dropWhile is_space s"
  let ?b = "dropWhile is_space (rev ?a)"
  have b: "?b = [] \<or> \<not> is_space (hd ?b)" by (rule dropWhile_hd)
  have "rev ?b = [] \<or> \<not> is_space (hd (rev ?b))"
  proof (cases "?b = []")
    case False
    then have "last ?b = last (rev ?a)" by (rule last_dropWhile)
    moreover have "?a \<noteq> []" using False by (cases ?a) auto
    moreover have "hd (rev ?b) = last ?b" using False by (simp add: hd_rev)
    ultimately have "hd (rev ?b) = hd ?a" by (simp add: last_rev)
    then show ?thesis using dropWhile_hd [of is_space s] \<open>?a \<noteq> []\<close> by metis
  qed simp
  then have "dropWhile is_space (rev ?b) = rev ?b" by (rule dropWhile_fix)
  then show ?thesis using b by (simp add: trim_space_def dropWhile_fix)
qed

section \<open>Package sort\<close>

text \<open>
  \<open>sort.Slice\<close> and \<open>sort.SliceStable\<close> run \<open>insertionSort\<close> on slices of at most 12 and 20
  elements: each element moves left past its neighbour while \<open>lt x neighbour\<close> holds. The
  model is that algorithm; the sorted prefix is kept reversed, so the element to move is
  compared with the head. On a strict weak order the locale below shows that the result is
  the one every correct sorting algorithm gives, up to the order of equivalent elements.
\<close>

fun go_ins :: "('a \<Rightarrow> 'a \<Rightarrow> bool) \<Rightarrow> 'a \<Rightarrow> 'a list \<Rightarrow> 'a list" where
  "go_ins lt x [] = [x]"
| "go_ins lt x (y # ys) = (if lt x y then y # go_ins lt x ys else x # y # ys)"

definition sort_slice :: "('a \<Rightarrow> 'a \<Rightarrow> bool) \<Rightarrow> 'a list \<Rightarrow> 'a list" where
  "sort_slice lt xs = rev (fold (go_ins lt) xs [])"

lemma mset_go_ins [simp]: "mset (go_ins lt x ys) = add_mset x (mset ys)"
  by (induction ys) auto

lemma mset_fold_go_ins: "mset (fold (go_ins lt) xs acc) = mset xs + mset acc"
  by (induction xs arbitrary: acc) auto

lemma mset_sort_slice [simp]: "mset (sort_slice lt xs) = mset xs"
  by (simp add: sort_slice_def mset_fold_go_ins)

lemma set_sort_slice [simp]: "set (sort_slice lt xs) = set xs"
  by (metis mset_sort_slice set_mset_mset)

lemma length_sort_slice [simp]: "length (sort_slice lt xs) = length xs"
  by (metis mset_sort_slice size_mset)

lemma sort_slice_Nil [simp]: "sort_slice lt xs = [] \<longleftrightarrow> xs = []"
  by (metis length_0_conv length_sort_slice)

lemma distinct_sort_slice [simp]: "distinct (sort_slice lt xs) = distinct xs"
  by (metis mset_sort_slice mset_eq_imp_distinct_iff)

lemma distinct_map_sort_slice [simp]: "distinct (map f (sort_slice lt xs)) = distinct (map f xs)"
  by (metis mset_map mset_sort_slice mset_eq_imp_distinct_iff)

lemma sum_list_sort_slice: "sum_list (map f (sort_slice lt xs)) = sum_list (map f xs)"
  for f :: "'a \<Rightarrow> 'b::comm_monoid_add"
  by (metis mset_map mset_sort_slice sum_mset_sum_list)

text \<open>Sorting commutes with a map that the comparison does not see.\<close>

lemma go_ins_map: "(\<And>a b. lt (f a) (f b) = lt' a b) \<Longrightarrow> go_ins lt (f x) (map f ys) = map f (go_ins lt' x ys)"
  by (induction ys) auto

lemma sort_slice_map:
  assumes "\<And>a b. lt (f a) (f b) = lt' a b"
  shows "sort_slice lt (map f xs) = map f (sort_slice lt' xs)"
proof -
  have "fold (go_ins lt) (map f xs) (map f acc) = map f (fold (go_ins lt') xs acc)" for acc
    by (induction xs arbitrary: acc) (auto simp: go_ins_map [of lt f lt', OF assms])
  from this [of "[]"] show ?thesis by (simp add: sort_slice_def rev_map)
qed

text \<open>The contract of a comparison function: a strict weak order.\<close>

locale go_order =
  fixes lt :: "'a \<Rightarrow> 'a \<Rightarrow> bool"
  assumes less_irrefl: "\<not> lt x x"
    and less_trans: "lt x y \<Longrightarrow> lt y z \<Longrightarrow> lt x z"
    and incomparable_trans: "\<not> lt x y \<Longrightarrow> \<not> lt y z \<Longrightarrow> \<not> lt x z"
begin

lemma less_asym: "lt x y \<Longrightarrow> \<not> lt y x"
  using less_irrefl less_trans by blast

lemma sorted_go_ins:
  assumes "sorted_wrt (\<lambda>x y. \<not> lt x y) ys"
  shows "sorted_wrt (\<lambda>x y. \<not> lt x y) (go_ins lt x ys)"
  using assms
proof (induction ys)
  case Nil
  then show ?case by simp
next
  case (Cons y ys)
  have eq: "set (go_ins lt x ys) = insert x (set ys)"
    by (metis mset_go_ins set_mset_add_mset_insert set_mset_mset)
  show ?case
  proof (cases "lt x y")
    case True
    with Cons eq show ?thesis by (auto dest: less_asym)
  next
    case False
    with Cons show ?thesis by (auto dest: incomparable_trans)
  qed
qed

lemma sorted_fold_go_ins:
  "sorted_wrt (\<lambda>x y. \<not> lt x y) acc \<Longrightarrow>
   sorted_wrt (\<lambda>x y. \<not> lt x y) (fold (go_ins lt) xs acc)"
  by (induction xs arbitrary: acc) (auto intro: sorted_go_ins)

lemma sorted_sort_slice: "sorted_wrt (\<lambda>x y. \<not> lt y x) (sort_slice lt xs)"
  using sorted_fold_go_ins [of "[]" xs] by (simp add: sort_slice_def sorted_wrt_rev)

text \<open>
  Where every two different elements are comparable the sorted list is unique, so the
  algorithm behind \<open>sort.Slice\<close> does not matter.
\<close>

lemma sorted_unique:
  assumes "sorted_wrt (\<lambda>x y. \<not> lt y x) xs" and "sorted_wrt (\<lambda>x y. \<not> lt y x) ys"
    and "mset xs = mset ys"
    and total: "\<And>x y. x \<in> set xs \<Longrightarrow> y \<in> set xs \<Longrightarrow> x \<noteq> y \<Longrightarrow> lt x y \<or> lt y x"
  shows "xs = ys"
  using assms
proof (induction xs arbitrary: ys)
  case Nil
  then show ?case by simp
next
  case (Cons x xs)
  then obtain y ys' where ys: "ys = y # ys'" by (cases ys) auto
  have sets: "set (x # xs) = set ys" using Cons.prems(3) by (metis set_mset_mset)
  have "x = y"
  proof (rule ccontr)
    assume "x \<noteq> y"
    moreover have "y \<in> set (x # xs)" and "x \<in> set ys" using sets ys by auto
    ultimately have "y \<in> set xs" and "x \<in> set ys'" using ys by auto
    then have "\<not> lt y x" and "\<not> lt x y" using Cons.prems(1,2) ys by auto
    with Cons.prems(4) [of x y] \<open>y \<in> set xs\<close> \<open>x \<noteq> y\<close> show False by auto
  qed
  moreover have "xs = ys'"
    using Cons.prems ys \<open>x = y\<close> by (intro Cons.IH) auto
  ultimately show ?case using ys by simp
qed

lemma sort_slice_unique:
  assumes "sorted_wrt (\<lambda>x y. \<not> lt y x) ys" and "mset ys = mset xs"
    and "\<And>x y. x \<in> set xs \<Longrightarrow> y \<in> set xs \<Longrightarrow> x \<noteq> y \<Longrightarrow> lt x y \<or> lt y x"
  shows "sort_slice lt xs = ys"
  using sorted_unique [OF sorted_sort_slice assms(1), of xs] assms(2,3) by simp

text \<open>Sorting by a total order gives the same list for every order of the elements.\<close>

lemma sort_slice_mset:
  assumes "mset xs = mset ys" and "\<And>x y. x \<noteq> y \<Longrightarrow> lt x y \<or> lt y x"
  shows "sort_slice lt xs = sort_slice lt ys"
  by (rule sort_slice_unique [OF sorted_sort_slice]) (use assms in simp_all)

end

text \<open>Sorting strings (\<open>sort.Strings\<close>) is the instance on the bytewise order.\<close>

interpretation string_order: go_order "(<) :: string \<Rightarrow> string \<Rightarrow> bool"
  by unfold_locales auto

section \<open>Lists and maps\<close>

lemma sum_list_take_mono:
  fixes xs :: "real list"
  assumes "\<forall>x \<in> set xs. 0 \<le> x" and "m \<le> n"
  shows "sum_list (take m xs) \<le> sum_list (take n xs)"
proof -
  have "take n xs = take m xs @ take (n - m) (drop m xs)"
    using assms(2) by (metis le_add_diff_inverse take_add)
  moreover have "0 \<le> sum_list (take (n - m) (drop m xs))"
    using assms(1) by (intro sum_list_nonneg) (meson in_set_dropD in_set_takeD)
  ultimately show ?thesis by simp
qed

lemma filter_by_index: "filter P xs = map ((!) xs) (filter (\<lambda>j. P (xs ! j)) [0..<length xs])"
proof -
  have "filter P (map ((!) xs) [0..<length xs]) = map ((!) xs) (filter (P \<circ> (!) xs) [0..<length xs])"
    by (rule filter_map)
  then show ?thesis by (simp only: map_nth o_def)
qed

lemma map_of_upd_other: "k \<noteq> k' \<Longrightarrow> (m(k \<mapsto> v)) k' = m k'"
  by simp

lemma find_mem: "find P xs = Some x \<Longrightarrow> x \<in> set xs \<and> P x"
  by (induction xs) (auto split: if_splits)

end
