(* ===== verification/Positions.thy ===== *)
theory Positions
  imports Prelude
begin

text \<open>
  Fantrax positions and slots: package \<open>internal/positions\<close> and the two eligibility
  predicates, the record types \<open>Player\<close>, \<open>Slot\<close> and \<open>PlayerSlot\<close> of
  \<open>internal/fantrax/client.go\<close>, and the two SP predicates of
  \<open>internal/optimizer/pitcher_lineup.go\<close>. The position identifiers that the code takes
  from \<open>auth_client\<close> have the values its comments give.
\<close>

record player =
  p_ID :: string
  p_Name :: string
  p_MLBTeam :: string
  p_Positions :: "string list"
  p_PosShortNames :: string
  p_RosterPosition :: string
  p_Status :: string
  p_NextGameDate :: string
  p_InMinors :: bool
  p_IsInjured :: bool
  p_Locked :: bool

record slot =
  sl_PosID :: string
  sl_PosName :: string

record player_slot =
  ps_PlayerID :: string
  ps_PosID :: string

abbreviation pos_C :: string where "pos_C \<equiv> ''001''"
abbreviation pos_1B :: string where "pos_1B \<equiv> ''002''"
abbreviation pos_2B :: string where "pos_2B \<equiv> ''003''"
abbreviation pos_3B :: string where "pos_3B \<equiv> ''004''"
abbreviation pos_SS :: string where "pos_SS \<equiv> ''005''"
abbreviation pos_INF :: string where "pos_INF \<equiv> ''008''"
abbreviation pos_OF :: string where "pos_OF \<equiv> ''012''"
abbreviation pos_UT :: string where "pos_UT \<equiv> ''014''"
abbreviation pos_SP :: string where "pos_SP \<equiv> ''015''"
abbreviation pos_RP :: string where "pos_RP \<equiv> ''016''"
abbreviation pos_P :: string where "pos_P \<equiv> ''017''"
abbreviation pos_RP2 :: string where "pos_RP2 \<equiv> ''043''"
abbreviation pos_RP3 :: string where "pos_RP3 \<equiv> ''044''"

definition slot_name :: "string \<Rightarrow> string" where
  "slot_name posID =
     (if posID = pos_C then ''C'' else if posID = pos_1B then ''1B''
      else if posID = pos_2B then ''2B'' else if posID = pos_3B then ''3B''
      else if posID = pos_SS then ''SS'' else if posID = pos_INF then ''INF''
      else if posID = pos_OF then ''OF'' else if posID = pos_UT then ''UT''
      else if posID = pos_SP then ''SP''
      else if posID = pos_RP \<or> posID = pos_RP2 \<or> posID = pos_RP3 then ''RP''
      else if posID = pos_P then ''P'' else '''')"

definition accepts_INF :: "string \<Rightarrow> bool" where
  "accepts_INF posID \<longleftrightarrow> posID \<in> {pos_1B, pos_2B, pos_3B, pos_SS}"

definition is_pitcher_slot :: "string \<Rightarrow> bool" where
  "is_pitcher_slot posID \<longleftrightarrow> posID \<in> {pos_SP, pos_RP, pos_P, pos_RP2, pos_RP3}"

definition hitter_bucket :: "string list \<Rightarrow> string" where
  "hitter_bucket eligibility =
     (let has = (\<lambda>i. i \<in> set eligibility) in
      if has pos_C then ''C''
      else if has pos_1B \<or> has pos_2B \<or> has pos_3B \<or> has pos_SS \<or> has pos_INF then ''INF''
      else if has pos_OF then ''OF''
      else ''UT'')"

definition eligible_for_slot :: "string list \<Rightarrow> slot \<Rightarrow> bool" where
  "eligible_for_slot ps s =
     (if sl_PosID s = pos_UT then True
      else if sl_PosID s = pos_INF then list_ex accepts_INF ps
      else list_ex (\<lambda>p. p = sl_PosID s) ps)"

definition eligible_for_pitcher_slot :: "string list \<Rightarrow> slot \<Rightarrow> bool" where
  "eligible_for_pitcher_slot ps s =
     (if sl_PosID s = pos_P then list_ex is_pitcher_slot ps
      else if sl_PosID s = pos_RP \<or> sl_PosID s = pos_RP2 \<or> sl_PosID s = pos_RP3
        then list_ex (\<lambda>p. p = pos_RP) ps
      else if sl_PosID s = pos_SP then list_ex (\<lambda>p. p = pos_SP) ps
      else False)"

definition is_SP_eligible :: "string list \<Rightarrow> bool" where
  "is_SP_eligible ps = list_ex (\<lambda>p. p = pos_SP) ps"

definition SP_eligible_player :: "player \<Rightarrow> bool" where
  "SP_eligible_player p \<longleftrightarrow> is_SP_eligible (p_Positions p) \<or> str_contains (p_PosShortNames p) ''SP''"

text \<open>Everything the code names a slot for is named, and only the pitcher slots are pitcher slots.\<close>

lemma slot_name_pitcher: "is_pitcher_slot posID \<longleftrightarrow> slot_name posID \<in> {''SP'', ''RP'', ''P''}"
  by (auto simp: is_pitcher_slot_def slot_name_def)

lemma slot_name_of_INF: "accepts_INF posID \<Longrightarrow> slot_name posID \<in> {''1B'', ''2B'', ''3B'', ''SS''}"
  by (auto simp: accepts_INF_def slot_name_def)

lemma pitcher_slot_narrow:
  assumes "eligible_for_pitcher_slot ps s"
  shows "is_pitcher_slot (sl_PosID s) \<and> (\<exists>p \<in> set ps. is_pitcher_slot p)"
  using assms
  by (auto simp: eligible_for_pitcher_slot_def is_pitcher_slot_def list_ex_iff split: if_splits)

lemma hitter_bucket_slot:
  "hitter_bucket ps = ''OF'' \<Longrightarrow> sl_PosID s = pos_OF \<Longrightarrow> eligible_for_slot ps s"
  by (auto simp: hitter_bucket_def eligible_for_slot_def list_ex_iff Let_def split: if_splits)

end
