(* ===== verification/Scoring.thy ===== *)
theory Scoring
  imports Positions
begin

text \<open>
  Pricing a player: the linear scoring of a stat line (\<open>internal/scoring/hitter.go\<close>,
  \<open>pitcher.go\<close>, \<open>bonus.go\<close>), and the projection sources of
  \<open>internal/projections\<close> that turn a player into expected fantasy points per game
  (\<open>pts_per_game.go\<close>, \<open>blended.go\<close>, \<open>pitcher_blended.go\<close>, \<open>blend_core.go\<close>).

  A \<open>float64\<close> is an exact real here: rounding, infinities and NaN are not modelled. A Go
  map is a partial function; the code sums over its map of stats in random order, which is
  the order of the list below up to the commutativity of the sum.
\<close>

type_synonym weights = "string \<rightharpoonup> real"

record hitter_line =
  hl_H :: real
  hl_Doubles :: real
  hl_Triples :: real
  hl_HR :: real
  hl_RBI :: real
  hl_R :: real
  hl_BB :: real
  hl_SB :: real
  hl_CS :: real
  hl_HBP :: real
  hl_SO :: real
  hl_GIDP :: real

record pitcher_line =
  pl_IP :: real
  pl_K :: real
  pl_BB :: real
  pl_H :: real
  pl_ER :: real
  pl_HR :: real
  pl_W :: real
  pl_L :: real
  pl_QS :: real
  pl_SV :: real
  pl_HLD :: real
  pl_BS :: real
  pl_HBP :: real
  pl_WP :: real
  pl_BK :: real
  pl_CG :: real
  pl_SHO :: real
  pl_PKO :: real

definition score_stats :: "weights \<Rightarrow> (string \<times> real) list \<Rightarrow> real" where
  "score_stats w stats =
     sum_list (map (\<lambda>(stat, v). case w stat of None \<Rightarrow> 0 | Some pts \<Rightarrow> v * pts) stats)"

definition line_singles :: "hitter_line \<Rightarrow> real" where
  "line_singles l =
     (let s = hl_H l - hl_Doubles l - hl_Triples l - hl_HR l in if s < 0 then 0 else s)"

definition hitter_stats :: "hitter_line \<Rightarrow> (string \<times> real) list" where
  "hitter_stats l =
     (let singles = line_singles l;
          xbh = hl_Doubles l + hl_Triples l + hl_HR l;
          tb = singles + 2 * hl_Doubles l + 3 * hl_Triples l + 4 * hl_HR l
      in [(''1B'', singles), (''2B'', hl_Doubles l), (''3B'', hl_Triples l),
          (''HR'', hl_HR l), (''RBI'', hl_RBI l), (''R'', hl_R l),
          (''BB'', hl_BB l), (''SB'', hl_SB l), (''CS'', hl_CS l),
          (''HBP'', hl_HBP l), (''SO'', hl_SO l), (''GIDP'', hl_GIDP l),
          (''XBH'', xbh), (''TB'', tb)])"

definition apply_hitter :: "hitter_line \<Rightarrow> weights \<Rightarrow> real" where
  "apply_hitter l w = score_stats w (hitter_stats l)"

definition apply_pitcher :: "pitcher_line \<Rightarrow> weights \<Rightarrow> real" where
  "apply_pitcher l w = score_stats w
     [(''IP'', pl_IP l), (''K'', pl_K l), (''BB'', pl_BB l), (''H'', pl_H l),
      (''ER'', pl_ER l), (''HR'', pl_HR l), (''W'', pl_W l), (''L'', pl_L l),
      (''QS'', pl_QS l), (''SV'', pl_SV l), (''HLD'', pl_HLD l), (''BS'', pl_BS l),
      (''HBP'', pl_HBP l), (''WP'', pl_WP l), (''BK'', pl_BK l),
      (''CG'', pl_CG l), (''SHO'', pl_SHO l), (''PKO'', pl_PKO l)]"

text \<open>\<open>bonus.go\<close>: the single-game events.\<close>

definition is_cycle :: "hitter_line \<Rightarrow> bool" where
  "is_cycle l \<longleftrightarrow>
     line_singles l \<ge> 1 \<and> hl_Doubles l \<ge> 1 \<and> hl_Triples l \<ge> 1 \<and> hl_HR l \<ge> 1"

record pitcher_game_line =
  pg_Outs :: int
  pg_Hits :: int
  pg_Walks :: int
  pg_HitBatsmen :: int
  pg_BattersFaced :: int
  pg_BatterOuts :: int

definition is_no_hitter :: "pitcher_game_line \<Rightarrow> bool" where
  "is_no_hitter l \<longleftrightarrow> pg_Outs l \<ge> 27 \<and> pg_Hits l = 0"

definition is_perfect_game :: "pitcher_game_line \<Rightarrow> bool" where
  "is_perfect_game l \<longleftrightarrow>
     pg_Outs l \<ge> 27 \<and>
     pg_BattersFaced l > 0 \<and> pg_BattersFaced l = pg_Outs l \<and>
     pg_BatterOuts l > 0 \<and> pg_BatterOuts l = pg_Outs l \<and>
     pg_Hits l = 0 \<and> pg_Walks l = 0 \<and> pg_HitBatsmen l = 0"

lemma perfect_game_no_hitter: "is_perfect_game l \<Longrightarrow> is_no_hitter l"
  by (simp add: is_perfect_game_def is_no_hitter_def)

section \<open>Projections\<close>

record projection =
  pj_G :: real
  pj_PA :: real
  pj_H :: real
  pj_Singles :: real
  pj_Doubles :: real
  pj_Triples :: real
  pj_HR :: real
  pj_RBI :: real
  pj_R :: real
  pj_BB :: real
  pj_SB :: real
  pj_CS :: real
  pj_HBP :: real
  pj_SO :: real
  pj_GIDP :: real

record pitcher_projection =
  pp_G :: real
  pp_GS :: real
  pp_IP :: real
  pp_K :: real
  pp_BBA :: real
  pp_HA :: real
  pp_ER :: real
  pp_HRA :: real
  pp_W :: real
  pp_L :: real
  pp_QS :: real
  pp_SV :: real
  pp_HLD :: real
  pp_BS :: real
  pp_HBP :: real
  pp_WP :: real
  pp_BK :: real
  pp_CG :: real
  pp_SHO :: real
  pp_PKO :: real
  pp_FIP :: real

definition projection_line :: "projection \<Rightarrow> hitter_line" where
  "projection_line p = \<lparr>hl_H = pj_H p, hl_Doubles = pj_Doubles p, hl_Triples = pj_Triples p,
     hl_HR = pj_HR p, hl_RBI = pj_RBI p, hl_R = pj_R p, hl_BB = pj_BB p, hl_SB = pj_SB p,
     hl_CS = pj_CS p, hl_HBP = pj_HBP p, hl_SO = pj_SO p, hl_GIDP = pj_GIDP p\<rparr>"

definition expected_pts_from_proj :: "projection \<Rightarrow> weights \<Rightarrow> real" where
  "expected_pts_from_proj p w =
     (if pj_G p \<le> 0 then 0 else apply_hitter (projection_line p) w / pj_G p)"

definition pitcher_projection_line :: "pitcher_projection \<Rightarrow> pitcher_line" where
  "pitcher_projection_line p = \<lparr>pl_IP = pp_IP p, pl_K = pp_K p, pl_BB = pp_BBA p,
     pl_H = pp_HA p, pl_ER = pp_ER p, pl_HR = pp_HRA p, pl_W = pp_W p, pl_L = pp_L p,
     pl_QS = pp_QS p, pl_SV = pp_SV p, pl_HLD = pp_HLD p, pl_BS = pp_BS p, pl_HBP = pp_HBP p,
     pl_WP = pp_WP p, pl_BK = pp_BK p, pl_CG = pp_CG p, pl_SHO = pp_SHO p, pl_PKO = pp_PKO p\<rparr>"

definition pitcher_expected_pts_from_proj :: "pitcher_projection \<Rightarrow> weights \<Rightarrow> real" where
  "pitcher_expected_pts_from_proj p w =
     (if pp_G p \<le> 0 then 0 else apply_pitcher (pitcher_projection_line p) w / pp_G p)"

text \<open>
  The \<open>Source\<close> interfaces. A source may also implement the optional
  \<open>PtsPerGameSource\<close>, which the code discovers with a type assertion: the second field is
  \<open>None\<close> when it does not.
\<close>

record 'p source =
  src_projection :: "string \<Rightarrow> string \<Rightarrow> 'p option"
  src_pts_per_game :: "(string \<Rightarrow> string \<Rightarrow> weights \<Rightarrow> real option) option"

definition optional_pts :: "'p source \<Rightarrow> string \<Rightarrow> string \<Rightarrow> weights \<Rightarrow> real option" where
  "optional_pts src name team w =
     (case src_pts_per_game src of None \<Rightarrow> None | Some f \<Rightarrow> f name team w)"

definition points_per_game ::
  "projection source \<Rightarrow> string \<Rightarrow> string \<Rightarrow> weights \<Rightarrow> real \<times> bool" where
  "points_per_game src name team w =
     (case optional_pts src name team w of
        Some pts \<Rightarrow> (pts, True)
      | None \<Rightarrow>
         (case src_projection src name team of
            None \<Rightarrow> (0, False)
          | Some p \<Rightarrow> if pj_G p \<le> 0 then (0, False) else (expected_pts_from_proj p w, True)))"

definition pitcher_points_per_game ::
  "pitcher_projection source \<Rightarrow> string \<Rightarrow> string \<Rightarrow> weights \<Rightarrow> real \<times> bool" where
  "pitcher_points_per_game src name team w =
     (case optional_pts src name team w of
        Some pts \<Rightarrow> (pts, True)
      | None \<Rightarrow>
         (case src_projection src name team of
            None \<Rightarrow> (0, False)
          | Some p \<Rightarrow>
             if pp_G p \<le> 0 then (0, False) else (pitcher_expected_pts_from_proj p w, True)))"

section \<open>Blending with recent scoring\<close>

record recent_stat =
  rs_GamesPlayed :: int
  rs_FPtsPerGame :: real

definition hitter_blend_weights :: "int \<Rightarrow> real \<times> real" where
  "hitter_blend_weights games =
     (let approxPA = real_of_int games * 3.8;
          seasonWeight = approxPA / (approxPA + 250);
          base = max (1 - seasonWeight) 0.30
      in (base, 1 - base))"

definition pitcher_blend_weights :: "int \<Rightarrow> bool \<Rightarrow> real \<times> real" where
  "pitcher_blend_weights games isSP =
     (let stabilization = (if isSP then 15 else 25);
          gp = real_of_int games;
          seasonWeight = gp / (gp + stabilization);
          base = max (1 - seasonWeight) 0.35
      in (base, 1 - base))"

definition blend_result ::
  "bool \<Rightarrow> real \<Rightarrow> bool \<Rightarrow> real \<Rightarrow> real \<Rightarrow> (real \<times> real) \<Rightarrow> real option" where
  "blend_result hasProj basePts hasRecent recentFPG baselineFPG weightFn =
     (let (sw, rw) = weightFn in
      if \<not> hasProj then
        (if hasRecent then Some (sw * baselineFPG + rw * recentFPG) else None)
      else if \<not> hasRecent then Some basePts
      else Some (sw * basePts + rw * recentFPG))"

record 'p blended_source =
  bs_inner :: "'p source"
  bs_recent :: "string \<rightharpoonup> recent_stat"
  bs_nameToID :: "string \<rightharpoonup> string"
  bs_playerPos :: "string \<rightharpoonup> string list"
  bs_minGP :: int
  bs_baselineFPG :: real

definition recent_of :: "'p blended_source \<Rightarrow> string \<Rightarrow> recent_stat option" where
  "recent_of b nname =
     (case bs_nameToID b nname of
        None \<Rightarrow> None
      | Some i \<Rightarrow>
         (case bs_recent b i of
            None \<Rightarrow> None
          | Some r \<Rightarrow> if rs_GamesPlayed r \<ge> bs_minGP b then Some r else None))"

text \<open>\<open>nrm\<close> stands for \<open>NormalizeName\<close>, which keys \<open>nameToID\<close>.\<close>

definition get_pts_per_game ::
  "(string \<Rightarrow> string) \<Rightarrow> projection blended_source \<Rightarrow> string \<Rightarrow> string \<Rightarrow> weights \<Rightarrow> real option"
where
  "get_pts_per_game nrm b name team w =
     (let proj = (case src_projection (bs_inner b) name team of
                    None \<Rightarrow> None | Some p \<Rightarrow> if pj_G p > 0 then Some p else None);
          recent = recent_of b (nrm name);
          basePts = (case proj of None \<Rightarrow> 0 | Some p \<Rightarrow> expected_pts_from_proj p w);
          r = (case recent of None \<Rightarrow> \<lparr>rs_GamesPlayed = 0, rs_FPtsPerGame = 0\<rparr> | Some r \<Rightarrow> r)
      in blend_result (proj \<noteq> None) basePts (recent \<noteq> None) (rs_FPtsPerGame r)
           (bs_baselineFPG b) (hitter_blend_weights (rs_GamesPlayed r)))"

definition get_pitcher_pts_per_game ::
  "(string \<Rightarrow> string) \<Rightarrow> pitcher_projection blended_source \<Rightarrow> string \<Rightarrow> string \<Rightarrow> weights \<Rightarrow> real option"
where
  "get_pitcher_pts_per_game nrm b name team w =
     (let proj = (case src_projection (bs_inner b) name team of
                    None \<Rightarrow> None | Some p \<Rightarrow> if pp_G p > 0 then Some p else None);
          recent = recent_of b (nrm name);
          basePts = (case proj of None \<Rightarrow> 0 | Some p \<Rightarrow> pitcher_expected_pts_from_proj p w);
          r = (case recent of None \<Rightarrow> \<lparr>rs_GamesPlayed = 0, rs_FPtsPerGame = 0\<rparr> | Some r \<Rightarrow> r);
          playerID = (case bs_nameToID b (nrm name) of None \<Rightarrow> '''' | Some i \<Rightarrow> i);
          isSP = is_SP_eligible (case bs_playerPos b playerID of None \<Rightarrow> [] | Some ps \<Rightarrow> ps)
      in blend_result (proj \<noteq> None) basePts (recent \<noteq> None) (rs_FPtsPerGame r)
           (bs_baselineFPG b) (pitcher_blend_weights (rs_GamesPlayed r) isSP))"

text \<open>A blended source as a \<open>Source\<close> with the optional capability, the way the run wires it.\<close>

definition hitter_blended_as_source ::
  "(string \<Rightarrow> string) \<Rightarrow> projection blended_source \<Rightarrow> projection source" where
  "hitter_blended_as_source nrm b =
     \<lparr>src_projection = src_projection (bs_inner b),
      src_pts_per_game = Some (get_pts_per_game nrm b)\<rparr>"

section \<open>Properties\<close>

definition scale_hitter_line :: "real \<Rightarrow> hitter_line \<Rightarrow> hitter_line" where
  "scale_hitter_line k l = \<lparr>hl_H = k * hl_H l, hl_Doubles = k * hl_Doubles l,
     hl_Triples = k * hl_Triples l, hl_HR = k * hl_HR l, hl_RBI = k * hl_RBI l, hl_R = k * hl_R l,
     hl_BB = k * hl_BB l, hl_SB = k * hl_SB l, hl_CS = k * hl_CS l, hl_HBP = k * hl_HBP l,
     hl_SO = k * hl_SO l, hl_GIDP = k * hl_GIDP l\<rparr>"

lemma score_stats_scale:
  "score_stats w (map (\<lambda>(s, v). (s, k * v)) stats) = k * score_stats w stats"
  by (induction stats) (auto simp: score_stats_def algebra_simps split: option.splits)

lemma line_singles_scale: "0 \<le> k \<Longrightarrow> line_singles (scale_hitter_line k l) = k * line_singles l"
proof -
  assume k: "0 \<le> k"
  let ?d = "hl_H l - hl_Doubles l - hl_Triples l - hl_HR l"
  have "k * hl_H l - k * hl_Doubles l - k * hl_Triples l - k * hl_HR l = k * ?d"
    by (simp add: algebra_simps)
  moreover have "k * ?d < 0 \<Longrightarrow> ?d < 0" using k by (simp add: mult_less_0_iff)
  moreover have "?d < 0 \<Longrightarrow> k * ?d < 0 \<or> k = 0" using k by (auto simp: mult_less_0_iff)
  ultimately show ?thesis
    by (auto simp: line_singles_def scale_hitter_line_def Let_def)
qed

lemma hitter_stats_scale:
  assumes "0 \<le> k"
  shows "hitter_stats (scale_hitter_line k l) = map (\<lambda>(s, v). (s, k * v)) (hitter_stats l)"
  using line_singles_scale [OF assms, of l]
  by (simp add: hitter_stats_def Let_def algebra_simps scale_hitter_line_def)

lemma line_singles_nonneg: "0 \<le> line_singles l"
  by (simp add: line_singles_def Let_def)

lemma hitter_blend_weights_bounds:
  assumes "0 \<le> games" and "hitter_blend_weights games = (b, s)"
  shows "0.30 \<le> b" and "b \<le> 1" and "b + s = 1" and "0 \<le> s"
  using assms by (auto simp: hitter_blend_weights_def Let_def max_def divide_simps)

lemma pitcher_blend_weights_bounds:
  assumes "0 \<le> games" and "pitcher_blend_weights games isSP = (b, s)"
  shows "0.35 \<le> b" and "b \<le> 1" and "b + s = 1" and "0 \<le> s"
  using assms by (auto simp: pitcher_blend_weights_def Let_def max_def divide_simps)

lemma convex_between:
  fixes x y :: real
  assumes "0 \<le> b" "0 \<le> s" "b + s = 1"
  shows "min x y \<le> b * x + s * y" and "b * x + s * y \<le> max x y"
proof -
  have s: "s = 1 - b" using assms by simp
  have "b * x + s * y - min x y = b * (x - min x y) + s * (y - min x y)"
    by (simp add: s algebra_simps)
  moreover have "0 \<le> b * (x - min x y) + s * (y - min x y)"
    using assms by (intro add_nonneg_nonneg mult_nonneg_nonneg) auto
  ultimately show "min x y \<le> b * x + s * y" by simp
  have "max x y - (b * x + s * y) = b * (max x y - x) + s * (max x y - y)"
    by (simp add: s algebra_simps)
  moreover have "0 \<le> b * (max x y - x) + s * (max x y - y)"
    using assms by (intro add_nonneg_nonneg mult_nonneg_nonneg) auto
  ultimately show "b * x + s * y \<le> max x y" by simp
qed

text \<open>Scoring is linear in the counting stats: multiplying every count of a hitter's line by
  a non-negative factor multiplies the points by it, although singles are derived with a floor at
  zero. This is why the code may score a season line and divide by games.\<close>

theorem apply_hitter_homogeneous:
  assumes "0 \<le> k"
  shows "apply_hitter (scale_hitter_line k l) w = k * apply_hitter l w"
  by (simp add: apply_hitter_def hitter_stats_scale [OF assms] score_stats_scale)

definition sample_line :: hitter_line where
  "sample_line = \<lparr>hl_H = 2, hl_Doubles = 1, hl_Triples = 0, hl_HR = 1, hl_RBI = 3, hl_R = 1,
     hl_BB = 1, hl_SB = 0, hl_CS = 0, hl_HBP = 0, hl_SO = 1, hl_GIDP = 0\<rparr>"

theorem apply_hitter_homogeneous_witness:
  "apply_hitter (scale_hitter_line (1/2) sample_line) [''TB'' \<mapsto> 1, ''SO'' \<mapsto> -1] =
   1/2 * apply_hitter sample_line [''TB'' \<mapsto> 1, ''SO'' \<mapsto> -1]"
  by (rule apply_hitter_homogeneous) simp

text \<open>A blended hitter price lies between the season projection (or, without one, the league
  baseline) and the recent rate, never outside them, and the season side always keeps at least 30%
  of the weight however many games the player has.\<close>

theorem blended_price_between:
  assumes "get_pts_per_game nrm b name team w = Some v"
    and "recent_of b (nrm name) = Some r" and "0 \<le> rs_GamesPlayed r"
    and "base = (case src_projection (bs_inner b) name team of
                   None \<Rightarrow> bs_baselineFPG b
                 | Some p \<Rightarrow> if pj_G p > 0 then expected_pts_from_proj p w else bs_baselineFPG b)"
  shows "min base (rs_FPtsPerGame r) \<le> v \<and> v \<le> max base (rs_FPtsPerGame r) \<and>
         (\<exists>sw. 0.30 \<le> sw \<and> sw \<le> 1 \<and> v = sw * base + (1 - sw) * rs_FPtsPerGame r)"
proof -
  obtain sw rw where wt: "hitter_blend_weights (rs_GamesPlayed r) = (sw, rw)" by fastforce
  note bnd = hitter_blend_weights_bounds [OF assms(3) wt]
  have v: "v = sw * base + rw * rs_FPtsPerGame r"
    using assms(1,2) wt unfolding assms(4)
    by (auto simp: get_pts_per_game_def blend_result_def Let_def split: option.splits if_splits)
  have rw: "rw = 1 - sw" using bnd(3) by simp
  have "0 \<le> sw" using bnd(1) by simp
  note cv = convex_between [OF this bnd(4) bnd(3), of base "rs_FPtsPerGame r"]
  have "0.30 \<le> sw \<and> sw \<le> 1 \<and> v = sw * base + (1 - sw) * rs_FPtsPerGame r"
    using bnd(1,2) v rw by blast
  then show ?thesis using cv unfolding v by blast
qed

definition sample_blend :: "projection blended_source" where
  "sample_blend = \<lparr>bs_inner = \<lparr>src_projection = (\<lambda>_ _. None), src_pts_per_game = None\<rparr>,
     bs_recent = [''p1'' \<mapsto> \<lparr>rs_GamesPlayed = 10, rs_FPtsPerGame = 6\<rparr>],
     bs_nameToID = [''a'' \<mapsto> ''p1''], bs_playerPos = Map.empty, bs_minGP = 5,
     bs_baselineFPG = 2\<rparr>"

theorem blended_price_between_witness:
  "\<exists>v. get_pts_per_game id sample_blend ''a'' ''NYY'' Map.empty = Some v \<and> 2 \<le> v \<and> v \<le> 6"
proof -
  have "get_pts_per_game id sample_blend ''a'' ''NYY'' Map.empty \<noteq> None"
    by (simp add: get_pts_per_game_def sample_blend_def recent_of_def blend_result_def Let_def
        hitter_blend_weights_def)
  then obtain v where v: "get_pts_per_game id sample_blend ''a'' ''NYY'' Map.empty = Some v"
    by blast
  have r: "recent_of sample_blend (id ''a'') = Some \<lparr>rs_GamesPlayed = 10, rs_FPtsPerGame = 6\<rparr>"
    by (simp add: recent_of_def sample_blend_def)
  have "min 2 6 \<le> v \<and> v \<le> max 2 6"
    using blended_price_between [OF v r, of 2] by (simp add: sample_blend_def)
  with v show ?thesis by simp
qed

end
