(* ===== verification/Lineup_Search.thy ===== *)
theory Lineup_Search
  imports Scoring
begin

text \<open>
  The backtracking slot assignment of \<open>internal/optimizer/lineup.go\<close>
  (\<open>optimalAssignment\<close>), shared by the hitter and the pitcher optimizer, and its
  correctness: the two pruning tests never cut off an assignment that would have been taken,
  and the result is a best one over every way to fill the slots.

  \<open>bestTotal\<close>, \<open>bestChanges\<close> and \<open>bestAssign\<close> are set together, so the three are an
  option: \<open>None\<close> stands for the initial \<open>-Inf\<close>, \<open>MaxInt\<close>, \<open>nil\<close>. The
  set \<open>used\<close> of indices into \<open>scored\<close> is a list; the code undoes its update after each
  recursive call, so passing the extended list down is the same.
\<close>

record scored_player =
  sp_Player :: player
  sp_ExpectedPts :: real
  sp_HasGame :: bool

definition effective_pts :: "scored_player \<Rightarrow> real" where
  "effective_pts sp = (if \<not> sp_HasGame sp then 0 else sp_ExpectedPts sp)"

definition eps :: real where
  "eps = 1 / 1000000000"

type_synonym assign = "string \<rightharpoonup> string"

text \<open>Indexing a \<open>map[string]string\<close>: a missing key reads as the empty string.\<close>

definition lookup_str :: "assign \<Rightarrow> string \<Rightarrow> string" where
  "lookup_str m k = (case m k of None \<Rightarrow> '''' | Some v \<Rightarrow> v)"

type_synonym indexed = "(nat \<times> scored_player) list"
type_synonym best = "(real \<times> nat \<times> player_slot list) option"

definition empty_player_slot :: player_slot where
  "empty_player_slot = \<lparr>ps_PlayerID = '''', ps_PosID = ''''\<rparr>"

definition unused :: "indexed \<Rightarrow> nat list \<Rightarrow> indexed" where
  "unused sc used = filter (\<lambda>(i, _). i \<notin> set used) sc"

definition upper_bound :: "indexed \<Rightarrow> nat list \<Rightarrow> nat \<Rightarrow> real \<Rightarrow> real" where
  "upper_bound sc used remaining tot =
     foldl (+) tot (take remaining (map (\<lambda>(_, sp). effective_pts sp) (unused sc used)))"

definition record_leaf :: "real \<Rightarrow> nat \<Rightarrow> player_slot list \<Rightarrow> best \<Rightarrow> best" where
  "record_leaf tot changes candidate best =
     (case best of
        None \<Rightarrow> Some (tot, changes, candidate)
      | Some (bestTotal, bestChanges, _) \<Rightarrow>
         if tot > bestTotal + eps
            \<or> (\<bar>tot - bestTotal\<bar> \<le> eps \<and> changes < bestChanges)
         then Some (tot, changes, candidate) else best)"

definition prune :: "real \<Rightarrow> nat \<Rightarrow> best \<Rightarrow> bool" where
  "prune ub changes best =
     (case best of
        None \<Rightarrow> False
      | Some (bestTotal, bestChanges, _) \<Rightarrow>
         ub < bestTotal - eps \<or> (\<bar>ub - bestTotal\<bar> \<le> eps \<and> changes \<ge> bestChanges))"

definition candidates ::
  "indexed \<Rightarrow> (string list \<Rightarrow> slot \<Rightarrow> bool) \<Rightarrow> nat list \<Rightarrow> slot \<Rightarrow> indexed" where
  "candidates sc elig used s =
     filter (\<lambda>(_, sp). elig (p_Positions (sp_Player sp)) s) (unused sc used)"

definition place :: "scored_player \<Rightarrow> slot \<Rightarrow> player_slot" where
  "place sp s = \<lparr>ps_PlayerID = p_ID (sp_Player sp), ps_PosID = sl_PosID s\<rparr>"

definition is_change :: "assign \<Rightarrow> scored_player \<Rightarrow> slot \<Rightarrow> nat" where
  "is_change cur sp s = (if lookup_str cur (p_ID (sp_Player sp)) \<noteq> sl_PosID s then 1 else 0)"

fun search ::
  "indexed \<Rightarrow> assign \<Rightarrow> (string list \<Rightarrow> slot \<Rightarrow> bool) \<Rightarrow> slot list \<Rightarrow> player_slot list \<Rightarrow>
   nat list \<Rightarrow> real \<Rightarrow> nat \<Rightarrow> best \<Rightarrow> best" where
  "search sc cur elig [] cand used tot changes best =
     record_leaf tot changes (rev cand) best"
| "search sc cur elig (s # slots) cand used tot changes best =
     (if prune (upper_bound sc used (Suc (length slots)) tot) changes best then best
      else if candidates sc elig used s = [] then
        search sc cur elig slots (empty_player_slot # cand) used tot changes best
      else fold (\<lambda>(i, sp) b.
             search sc cur elig slots (place sp s # cand) (i # used)
               (tot + effective_pts sp) (changes + is_change cur sp s) b)
             (candidates sc elig used s) best)"

definition optimal_assignment ::
  "scored_player list \<Rightarrow> slot list \<Rightarrow> assign \<Rightarrow> (string list \<Rightarrow> slot \<Rightarrow> bool) \<Rightarrow>
   player_slot list" where
  "optimal_assignment scored slots cur elig =
     filter (\<lambda>ps. ps_PlayerID ps \<noteq> '''')
       (case search (enumerate 0 scored) cur elig slots [] [] 0 0 None of
          None \<Rightarrow> [] | Some (_, _, a) \<Rightarrow> a)"

section \<open>The assignments the search ranges over\<close>

text \<open>Every assignment the search without pruning reaches, with its total and change count.\<close>

fun leaves ::
  "indexed \<Rightarrow> assign \<Rightarrow> (string list \<Rightarrow> slot \<Rightarrow> bool) \<Rightarrow> slot list \<Rightarrow> player_slot list \<Rightarrow>
   nat list \<Rightarrow> real \<Rightarrow> nat \<Rightarrow> (real \<times> nat \<times> player_slot list) list" where
  "leaves sc cur elig [] cand used tot changes = [(tot, changes, rev cand)]"
| "leaves sc cur elig (s # slots) cand used tot changes =
     (if candidates sc elig used s = [] then
        leaves sc cur elig slots (empty_player_slot # cand) used tot changes
      else concat (map (\<lambda>(i, sp).
             leaves sc cur elig slots (place sp s # cand) (i # used)
               (tot + effective_pts sp) (changes + is_change cur sp s))
             (candidates sc elig used s)))"

definition record_all :: "(real \<times> nat \<times> player_slot list) list \<Rightarrow> best \<Rightarrow> best" where
  "record_all ls best = fold (\<lambda>(t, c, a). record_leaf t c a) ls best"

lemma record_all_Nil [simp]: "record_all [] b = b"
  by (simp add: record_all_def)

lemma record_all_Cons [simp]: "record_all ((t, c, a) # ls) b = record_all ls (record_leaf t c a b)"
  by (simp add: record_all_def)

lemma record_all_append [simp]: "record_all (xs @ ys) b = record_all ys (record_all xs b)"
  by (simp add: record_all_def)

lemma record_all_concat:
  "record_all (concat (map f xs)) b = fold (\<lambda>x. record_all (f x)) xs b"
  by (induction xs arbitrary: b) auto

section \<open>The upper bound\<close>

definition pts_of :: "indexed \<Rightarrow> real list" where
  "pts_of sc = map (\<lambda>(_, sp). effective_pts sp) sc"

text \<open>What \<open>upperBound\<close>'s comment relies on: descending, and no negative value.\<close>

definition well_sorted :: "indexed \<Rightarrow> bool" where
  "well_sorted sc \<longleftrightarrow> sorted_wrt (\<ge>) (pts_of sc) \<and> (\<forall>x \<in> set (pts_of sc). 0 \<le> x)
     \<and> distinct (map fst sc)"

lemma foldl_plus: "foldl (+) (t::real) xs = t + sum_list xs"
  by (induction xs arbitrary: t) auto

lemma upper_bound_eq:
  "upper_bound sc used n tot = tot + sum_list (take n (pts_of (unused sc used)))"
  by (simp add: upper_bound_def foldl_plus pts_of_def)

lemma sorted_wrt_map_filter: "sorted_wrt R (map f xs) \<Longrightarrow> sorted_wrt R (map f (filter P xs))"
  by (induction xs) auto

lemma well_sorted_filter: "well_sorted sc \<Longrightarrow> well_sorted (filter P sc)"
  by (auto simp: well_sorted_def pts_of_def sorted_wrt_map_filter distinct_map_filter)

lemma well_sorted_unused: "well_sorted sc \<Longrightarrow> well_sorted (unused sc used)"
  unfolding unused_def by (rule well_sorted_filter)

lemma unused_Cons: "unused sc (i # used) = filter (\<lambda>(j, _). j \<noteq> i) (unused sc used)"
  by (auto simp: unused_def intro!: filter_cong)

text \<open>Taking one player out of a descending list costs at least what the player brings.\<close>

lemma take_remove_bound:
  fixes xs :: "real list"
  assumes "sorted_wrt (\<ge>) (xs @ x # ys)"
  shows "x + sum_list (take n (xs @ ys)) \<le> sum_list (take (Suc n) (xs @ x # ys))"
  using assms
proof (induction xs arbitrary: n)
  case Nil
  then show ?case by simp
next
  case (Cons a xs)
  show ?case
  proof (cases n)
    case 0
    with Cons.prems show ?thesis by auto
  next
    case (Suc m)
    with Cons show ?thesis by (auto simp: add.left_commute)
  qed
qed

lemma filter_other_key: "i \<notin> fst ` set xs \<Longrightarrow> filter (\<lambda>(j, _). j \<noteq> i) xs = xs"
  by (rule filter_True, clarify) (metis fst_conv image_eqI)

lemma upper_bound_step:
  assumes "well_sorted sc" and "(i, sp) \<in> set (unused sc used)"
  shows "upper_bound sc (i # used) n (tot + effective_pts sp)
           \<le> upper_bound sc used (Suc n) tot"
proof -
  let ?u = "unused sc used"
  have ws: "well_sorted ?u" by (rule well_sorted_unused [OF assms(1)])
  obtain as bs where u: "?u = as @ (i, sp) # bs" using assms(2) by (meson split_list)
  have "i \<notin> fst ` set as" and "i \<notin> fst ` set bs"
    using ws unfolding u well_sorted_def by auto
  then have "filter (\<lambda>(j, _). j \<noteq> i) ?u = as @ bs"
    unfolding u by (simp add: filter_other_key)
  then have "pts_of (unused sc (i # used)) = pts_of as @ pts_of bs"
    by (simp add: unused_Cons pts_of_def)
  moreover have "pts_of ?u = pts_of as @ effective_pts sp # pts_of bs"
    by (simp add: u pts_of_def)
  ultimately show ?thesis
    using take_remove_bound [of "pts_of as" "effective_pts sp" "pts_of bs" n] ws
    by (simp add: upper_bound_eq well_sorted_def)
qed

lemma upper_bound_skip:
  assumes "well_sorted sc"
  shows "upper_bound sc used n tot \<le> upper_bound sc used (Suc n) tot"
  using well_sorted_unused [OF assms, of used]
  by (auto simp: upper_bound_eq well_sorted_def intro!: sum_list_take_mono)

lemma upper_bound_ge:
  assumes "well_sorted sc"
  shows "tot \<le> upper_bound sc used n tot"
proof -
  have "0 \<le> sum_list (take n (pts_of (unused sc used)))"
    using well_sorted_unused [OF assms, of used]
    by (intro sum_list_nonneg) (auto simp: well_sorted_def dest: in_set_takeD)
  then show ?thesis by (simp add: upper_bound_eq)
qed

lemma candidates_subset: "set (candidates sc elig used s) \<subseteq> set (unused sc used)"
  by (auto simp: candidates_def)

text \<open>No leaf below a node exceeds the node's upper bound, and changes only accumulate.\<close>

lemma leaf_below_bound:
  assumes "well_sorted sc" and "(t, c, a) \<in> set (leaves sc cur elig slots cand used tot changes)"
  shows "t \<le> upper_bound sc used (length slots) tot \<and> changes \<le> c"
  using assms(2)
proof (induction slots arbitrary: cand used tot changes)
  case Nil
  then show ?case using upper_bound_ge [OF assms(1)] by auto
next
  case (Cons s slots)
  show ?case
  proof (cases "candidates sc elig used s = []")
    case True
    with Cons have "t \<le> upper_bound sc used (length slots) tot \<and> changes \<le> c" by simp
    then show ?thesis using upper_bound_skip [OF assms(1), of used "length slots" tot] by simp
  next
    case False
    with Cons.prems obtain i sp where isp: "(i, sp) \<in> set (candidates sc elig used s)"
      and leaf: "(t, c, a) \<in> set (leaves sc cur elig slots (place sp s # cand) (i # used)
                   (tot + effective_pts sp) (changes + is_change cur sp s))"
      by auto
    have "(i, sp) \<in> set (unused sc used)" using isp candidates_subset by blast
    from upper_bound_step [OF assms(1) this, of "length slots" tot] Cons.IH [OF leaf]
    show ?thesis by simp
  qed
qed

section \<open>Pruning is transparent\<close>

lemma eps_pos: "0 < eps"
  by (simp add: eps_def)

lemma record_leaf_pruned:
  assumes "prune ub changes best" and "t \<le> ub" and "changes \<le> c"
  shows "record_leaf t c a best = best"
  using assms eps_pos by (auto simp: prune_def record_leaf_def abs_if split: option.splits)

lemma record_all_pruned:
  assumes "prune ub changes best" and "\<forall>(t, c, a) \<in> set ls. t \<le> ub \<and> changes \<le> c"
  shows "record_all ls best = best"
  using assms(2)
proof (induction ls)
  case (Cons l ls)
  then show ?case using record_leaf_pruned [OF assms(1)] by (cases l) auto
qed simp

lemma search_exhaustive_aux:
  assumes "well_sorted sc"
  shows "search sc cur elig slots cand used tot changes best =
         record_all (leaves sc cur elig slots cand used tot changes) best"
proof (induction slots arbitrary: cand used tot changes best)
  case Nil
  then show ?case by simp
next
  case (Cons s slots)
  let ?ub = "upper_bound sc used (Suc (length slots)) tot"
  let ?ls = "leaves sc cur elig (s # slots) cand used tot changes"
  show ?case
  proof (cases "prune ?ub changes best")
    case True
    have "\<forall>(t, c, a) \<in> set ?ls. t \<le> ?ub \<and> changes \<le> c"
      using leaf_below_bound [OF assms] by (metis (no_types, lifting) case_prodI2 length_Cons)
    with True have "record_all ?ls best = best" by (rule record_all_pruned)
    then show ?thesis using True by simp
  next
    case False
    have IH: "search sc cur elig slots c u t ch = record_all (leaves sc cur elig slots c u t ch)"
      for c u t ch by (rule ext) (rule Cons.IH)
    from False show ?thesis by (simp add: IH record_all_concat case_prod_beta')
  qed
qed

text \<open>C21. The pruned search returns exactly what trying every assignment would return: on a list
  in descending order of non-negative effective points, both pruning tests of
  \<open>optimalAssignment\<close> only cut off branches none of whose assignments would have replaced
  the best one, at every node and whatever was found before.\<close>

theorem search_exhaustive:
  assumes "well_sorted sc"
  shows "search sc cur elig slots cand used tot changes best =
         record_all (leaves sc cur elig slots cand used tot changes) best"
  using search_exhaustive_aux [OF assms] .

section \<open>Fillings: the specification of a lineup\<close>

text \<open>
  A filling chooses for each slot nobody or one of the players. It is feasible when nobody is
  chosen twice and everyone chosen is eligible for the slot.
\<close>

fun feasible ::
  "indexed \<Rightarrow> (string list \<Rightarrow> slot \<Rightarrow> bool) \<Rightarrow> nat list \<Rightarrow> slot list \<Rightarrow> nat option list \<Rightarrow> bool"
where
  "feasible sc elig used [] [] = True"
| "feasible sc elig used (s # slots) (None # cs) = feasible sc elig used slots cs"
| "feasible sc elig used (s # slots) (Some i # cs) =
     (i \<in> fst ` set (candidates sc elig used s) \<and> feasible sc elig (i # used) slots cs)"
| "feasible sc elig used _ _ = False"

definition idx_pts :: "indexed \<Rightarrow> nat \<Rightarrow> real" where
  "idx_pts sc i = (case map_of sc i of None \<Rightarrow> 0 | Some sp \<Rightarrow> effective_pts sp)"

definition value_of :: "indexed \<Rightarrow> nat option list \<Rightarrow> real" where
  "value_of sc cs = sum_list (map (\<lambda>x. case x of None \<Rightarrow> 0 | Some i \<Rightarrow> idx_pts sc i) cs)"

definition placed :: "indexed \<Rightarrow> slot \<Rightarrow> nat option \<Rightarrow> player_slot" where
  "placed sc s x = (case x of None \<Rightarrow> empty_player_slot
     | Some i \<Rightarrow> (case map_of sc i of None \<Rightarrow> empty_player_slot | Some sp \<Rightarrow> place sp s))"

definition change_count :: "indexed \<Rightarrow> assign \<Rightarrow> slot \<Rightarrow> nat option \<Rightarrow> nat" where
  "change_count sc cur s x = (case x of None \<Rightarrow> 0
     | Some i \<Rightarrow> (case map_of sc i of None \<Rightarrow> 0 | Some sp \<Rightarrow> is_change cur sp s))"

lemma value_of_simps [simp]:
  "value_of sc [] = 0"
  "value_of sc (None # cs) = value_of sc cs"
  "value_of sc (Some i # cs) = idx_pts sc i + value_of sc cs"
  by (simp_all add: value_of_def)

lemma map_of_candidate:
  assumes "distinct (map fst sc)" and "(i, sp) \<in> set (candidates sc elig used s)"
  shows "map_of sc i = Some sp"
  using assms by (auto simp: candidates_def unused_def intro: map_of_is_SomeI)

lemma idx_pts_nonneg: "well_sorted sc \<Longrightarrow> 0 \<le> idx_pts sc i"
  by (auto simp: idx_pts_def well_sorted_def pts_of_def split: option.split dest!: map_of_SomeD)

lemma feasible_used: "feasible sc elig used slots cs \<Longrightarrow> Some i \<in> set cs \<Longrightarrow> i \<notin> set used"
  by (induction sc elig used slots cs rule: feasible.induct)
     (auto simp: candidates_def unused_def)

definition vacate :: "nat \<Rightarrow> nat option list \<Rightarrow> nat option list" where
  "vacate i cs = map (\<lambda>x. if x = Some i then None else x) cs"

lemma vacate_simps [simp]:
  "vacate i [] = []"
  "vacate i (None # cs) = None # vacate i cs"
  "vacate i (Some j # cs) = (if j = i then None else Some j) # vacate i cs"
  by (simp_all add: vacate_def)

lemma vacate_absent: "Some i \<notin> set cs \<Longrightarrow> vacate i cs = cs"
  by (induction cs) (auto simp: vacate_def)

lemma candidates_swap: "set (candidates sc elig (i # j # used) s) = set (candidates sc elig (j # i # used) s)"
  by (auto simp: candidates_def unused_def)

lemma feasible_cong_used:
  "set used = set used' \<Longrightarrow> feasible sc elig used slots cs = feasible sc elig used' slots cs"
proof (induction sc elig used slots cs arbitrary: used' rule: feasible.induct)
  case (3 sc elig used s slots i cs)
  have "candidates sc elig used s = candidates sc elig used' s"
    using "3.prems" by (simp add: candidates_def unused_def)
  moreover have "feasible sc elig (i # used) slots cs = feasible sc elig (i # used') slots cs"
    if "i \<in> fst ` set (candidates sc elig used s)"
    using that "3.IH" "3.prems" by simp
  ultimately show ?case by auto
qed auto

lemma feasible_vacate:
  "feasible sc elig used slots cs \<Longrightarrow> feasible sc elig (i # used) slots (vacate i cs)"
proof (induction sc elig used slots cs rule: feasible.induct)
  case (3 sc elig used s slots j cs)
  then have IH: "feasible sc elig (i # j # used) slots (vacate i cs)" by simp
  show ?case
  proof (cases "j = i")
    case True
    have "feasible sc elig (i # used) slots (vacate i cs)"
      using IH True feasible_cong_used [of "i # i # used" "i # used"] by simp
    with True show ?thesis by simp
  next
    case False
    have "feasible sc elig (j # i # used) slots (vacate i cs)"
      using IH feasible_cong_used [of "i # j # used" "j # i # used"] by (simp add: insert_commute)
    moreover have "j \<in> fst ` set (candidates sc elig (i # used) s)"
      using "3.prems" False by (auto simp: candidates_def unused_def image_iff)
    ultimately show ?thesis using False by simp
  qed
qed auto

lemma value_vacate:
  "feasible sc elig used slots cs \<Longrightarrow> well_sorted sc \<Longrightarrow>
   value_of sc cs \<le> idx_pts sc i + value_of sc (vacate i cs)"
proof (induction sc elig used slots cs rule: feasible.induct)
  case (3 sc elig used s slots j cs)
  show ?case
  proof (cases "j = i")
    case True
    have "Some i \<notin> set cs" using "3.prems" True feasible_used by fastforce
    then show ?thesis using True by (simp add: vacate_absent)
  next
    case False
    then show ?thesis using 3 by simp
  qed
qed (auto simp: idx_pts_nonneg)

text \<open>
  The search never leaves a slot empty while somebody could fill it. That loses nothing: a
  player who could fill the slot either is not used later, or can be moved to it.
\<close>

lemma leaf_at_least:
  assumes ws: "well_sorted sc"
  shows "feasible sc elig used slots cs \<Longrightarrow>
    \<exists>t c a. (t, c, a) \<in> set (leaves sc cur elig slots cand used tot changes) \<and>
      tot + value_of sc cs \<le> t"
proof (induction slots arbitrary: cs cand used tot changes)
  case Nil
  then show ?case by (cases cs) auto
next
  case (Cons s slots)
  have di: "distinct (map fst sc)" using ws by (simp add: well_sorted_def)
  have go: ?case if i: "(i, sp) \<in> set (candidates sc elig used s)"
    and f: "feasible sc elig (i # used) slots cs'"
    and v: "value_of sc cs \<le> idx_pts sc i + value_of sc cs'" for i sp cs'
  proof -
    have "idx_pts sc i = effective_pts sp"
      using map_of_candidate [OF di i] by (simp add: idx_pts_def)
    with Cons.IH [OF f, of "place sp s # cand" "tot + effective_pts sp" "changes + is_change cur sp s"] v
    obtain t c a where "(t, c, a) \<in> set (leaves sc cur elig slots (place sp s # cand) (i # used)
        (tot + effective_pts sp) (changes + is_change cur sp s))" and t: "tot + value_of sc cs \<le> t"
      by fastforce
    then have "(t, c, a) \<in> set (leaves sc cur elig (s # slots) cand used tot changes)"
      using i by auto
    with t show ?thesis by blast
  qed
  show ?case
  proof (cases cs)
    case Nil
    with Cons.prems show ?thesis by simp
  next
    case csC: (Cons x cs')
    show ?thesis
    proof (cases x)
      case None
      then have f: "feasible sc elig used slots cs'" using Cons.prems csC by simp
      show ?thesis
      proof (cases "candidates sc elig used s")
        case Nil
        with Cons.IH [OF f] None csC show ?thesis by simp
      next
        case (Cons y ys)
        obtain i sp where y: "y = (i, sp)" by (cases y)
        show ?thesis
          by (rule go [of i sp "vacate i cs'"])
             (use Cons y csC None f feasible_vacate value_vacate [OF f ws] in auto)
      qed
    next
      case (Some i)
      then obtain sp where "(i, sp) \<in> set (candidates sc elig used s)"
        and "feasible sc elig (i # used) slots cs'"
        using Cons.prems csC by auto
      then show ?thesis by (rule go) (simp add: csC Some)
    qed
  qed
qed

text \<open>Every leaf is itself a feasible filling, with its value, its changes and its placements.\<close>

lemma leaf_is_filling:
  assumes di: "distinct (map fst sc)"
  shows "(t, c, a) \<in> set (leaves sc cur elig slots cand used tot changes) \<Longrightarrow>
    \<exists>cs. feasible sc elig used slots cs \<and> t = tot + value_of sc cs \<and>
      c = changes + sum_list (map2 (change_count sc cur) slots cs) \<and>
      a = rev cand @ map2 (placed sc) slots cs"
proof (induction slots arbitrary: cand used tot changes)
  case Nil
  then show ?case by (auto intro!: exI [of _ "[]"])
next
  case (Cons s slots)
  show ?case
  proof (cases "candidates sc elig used s = []")
    case True
    with Cons.prems have "(t, c, a) \<in> set (leaves sc cur elig slots (empty_player_slot # cand) used tot changes)"
      by simp
    from Cons.IH [OF this] obtain cs where "feasible sc elig used slots cs"
      "t = tot + value_of sc cs" "c = changes + sum_list (map2 (change_count sc cur) slots cs)"
      "a = rev (empty_player_slot # cand) @ map2 (placed sc) slots cs" by blast
    then show ?thesis
      by (intro exI [of _ "None # cs"]) (simp add: change_count_def placed_def)
  next
    case False
    with Cons.prems obtain i sp where i: "(i, sp) \<in> set (candidates sc elig used s)"
      and l: "(t, c, a) \<in> set (leaves sc cur elig slots (place sp s # cand) (i # used)
                   (tot + effective_pts sp) (changes + is_change cur sp s))"
      by auto
    have m: "map_of sc i = Some sp" by (rule map_of_candidate [OF di i])
    from Cons.IH [OF l] obtain cs where "feasible sc elig (i # used) slots cs"
      "t = tot + effective_pts sp + value_of sc cs"
      "c = changes + is_change cur sp s + sum_list (map2 (change_count sc cur) slots cs)"
      "a = rev (place sp s # cand) @ map2 (placed sc) slots cs" by blast
    then show ?thesis using i m
      by (intro exI [of _ "Some i # cs"]) (force simp: change_count_def placed_def idx_pts_def)
  qed
qed

section \<open>The best assignment\<close>

text \<open>
  The code compares totals up to \<open>eps\<close>. Where all points are multiples of a quantum larger
  than \<open>eps\<close> (points are published in hundredths) two totals are equal or further than
  \<open>eps\<close> apart, and the comparison is exact.
\<close>

definition on_grid :: "real \<Rightarrow> real \<Rightarrow> bool" where
  "on_grid q x \<longleftrightarrow> (\<exists>k::int. x = of_int k * q)"

lemma on_grid_0 [simp]: "on_grid q 0"
  by (auto simp: on_grid_def intro: exI [of _ 0])

lemma on_grid_add: "on_grid q x \<Longrightarrow> on_grid q y \<Longrightarrow> on_grid q (x + y)"
  unfolding on_grid_def by (metis of_int_add ring_class.ring_distribs(2))

lemma on_grid_apart:
  assumes "eps < q" "on_grid q x" "on_grid q y" "x < y"
  shows "x + eps < y"
proof -
  obtain k l :: int where kl: "x = of_int k * q" "y = of_int l * q"
    using assms(2,3) by (auto simp: on_grid_def)
  have q: "0 < q" using assms(1) eps_pos by simp
  with assms(4) kl have "k + 1 \<le> l" by simp
  then have "of_int (k + 1) * q \<le> of_int l * q" using q by (intro mult_right_mono) auto
  then have "x + q \<le> y" using kl by (simp add: algebra_simps)
  with assms(1) show ?thesis by simp
qed

lemma record_leaf_exact:
  assumes "eps < q" "on_grid q t" "on_grid q bt"
  shows "record_leaf t c a (Some (bt, bc, ba)) =
         (if bt < t \<or> t = bt \<and> c < bc then Some (t, c, a) else Some (bt, bc, ba))"
proof -
  have "t > bt + eps \<longleftrightarrow> bt < t"
    using on_grid_apart [OF assms(1,3,2)] eps_pos by auto
  moreover have "\<bar>t - bt\<bar> \<le> eps \<longleftrightarrow> t = bt"
    using on_grid_apart [OF assms(1,3,2)] on_grid_apart [OF assms(1,2,3)] eps_pos
    by (cases "t < bt"; cases "bt < t") auto
  ultimately show ?thesis by (auto simp: record_leaf_def)
qed

definition at_least_as_good :: "real \<times> nat \<times> player_slot list \<Rightarrow> real \<times> nat \<times> player_slot list \<Rightarrow> bool" where
  "at_least_as_good x y \<longleftrightarrow>
     fst y < fst x \<or> fst y = fst x \<and> fst (snd x) \<le> fst (snd y)"

lemma at_least_as_good_trans:
  "at_least_as_good x y \<Longrightarrow> at_least_as_good y z \<Longrightarrow> at_least_as_good x z"
  by (auto simp: at_least_as_good_def)

lemma record_all_from:
  assumes "eps < q" and "\<forall>(t, c, a) \<in> insert b (set ls). on_grid q t"
  shows "\<exists>r. record_all ls (Some b) = Some r \<and> r \<in> insert b (set ls) \<and>
             (\<forall>x \<in> insert b (set ls). at_least_as_good r x)"
  using assms(2)
proof (induction ls arbitrary: b)
  case Nil
  then show ?case by (auto simp: at_least_as_good_def)
next
  case (Cons l ls)
  obtain t c a where l: "l = (t, c, a)" by (cases l)
  obtain bt bc ba where b: "b = (bt, bc, ba)" by (cases b)
  let ?b' = "if bt < t \<or> t = bt \<and> c < bc then l else b"
  have step: "record_leaf t c a (Some b) = Some ?b'"
    using record_leaf_exact [OF assms(1), of t bt c a bc ba] Cons.prems by (simp add: l b)
  have "\<forall>(t, c, a) \<in> insert ?b' (set ls). on_grid q t" using Cons.prems by auto
  from Cons.IH [OF this] obtain r where r: "record_all ls (Some ?b') = Some r"
    "r \<in> insert ?b' (set ls)" "\<forall>x \<in> insert ?b' (set ls). at_least_as_good r x" by blast
  have "at_least_as_good ?b' l" and "at_least_as_good ?b' b"
    by (auto simp: at_least_as_good_def l b)
  then have "\<forall>x \<in> insert b (set (l # ls)). at_least_as_good r x"
    using r(3) at_least_as_good_trans [of r ?b' l] at_least_as_good_trans [of r ?b' b] by simp
  moreover have "record_all (l # ls) (Some b) = Some r" using step r(1) by (simp add: l)
  moreover have "r \<in> insert b (set (l # ls))" using r(2) by (auto split: if_splits)
  ultimately show ?case by blast
qed

lemma record_all_best:
  assumes "eps < q" and "\<forall>(t, c, a) \<in> set ls. on_grid q t" and "ls \<noteq> []"
  shows "\<exists>r \<in> set ls. record_all ls None = Some r \<and> (\<forall>x \<in> set ls. at_least_as_good r x)"
proof -
  obtain t c a ls' where ls: "ls = (t, c, a) # ls'" using assms(3) by (cases ls) auto
  have "record_all ls None = record_all ls' (Some (t, c, a))"
    by (simp add: ls record_leaf_def)
  then show ?thesis using record_all_from [OF assms(1), of "(t, c, a)" ls'] assms(2)
    by (auto simp: ls)
qed

lemma leaves_nonempty: "leaves sc cur elig slots cand used tot changes \<noteq> []"
proof (induction slots arbitrary: cand used tot changes)
  case (Cons s slots)
  then show ?case by (cases "candidates sc elig used s") auto
qed simp

lemma value_on_grid: "\<forall>(i, sp) \<in> set sc. on_grid q (effective_pts sp) \<Longrightarrow> on_grid q (value_of sc cs)"
proof (induction cs)
  case (Cons x cs)
  then show ?case
    by (cases x) (auto intro!: on_grid_add simp: idx_pts_def split: option.split dest!: map_of_SomeD)
qed simp

text \<open>
  The input \<open>optimalAssignment\<close> is given: descending effective points, none negative, all
  on a grid coarser than \<open>eps\<close>.
\<close>

definition good_input :: "real \<Rightarrow> scored_player list \<Rightarrow> bool" where
  "good_input q scored \<longleftrightarrow> eps < q \<and> sorted_wrt (\<ge>) (map effective_pts scored) \<and>
     (\<forall>sp \<in> set scored. 0 \<le> effective_pts sp \<and> on_grid q (effective_pts sp))"

lemma well_sorted_enumerate:
  "sorted_wrt (\<ge>) (map effective_pts scored) \<Longrightarrow> \<forall>sp \<in> set scored. 0 \<le> effective_pts sp \<Longrightarrow>
   well_sorted (enumerate 0 scored)"
proof -
  assume a: "sorted_wrt (\<ge>) (map effective_pts scored)" "\<forall>sp \<in> set scored. 0 \<le> effective_pts sp"
  have "pts_of (enumerate 0 scored) = map effective_pts scored"
    by (simp add: pts_of_def case_prod_beta' map_map [symmetric, unfolded o_def] del: map_map)
  then show ?thesis using a by (auto simp: well_sorted_def)
qed

lemma search_best:
  assumes "good_input q scored"
  shows "\<exists>r \<in> set (leaves (enumerate 0 scored) cur elig slots [] [] 0 0).
    search (enumerate 0 scored) cur elig slots [] [] 0 0 None = Some r \<and>
    (\<forall>x \<in> set (leaves (enumerate 0 scored) cur elig slots [] [] 0 0). at_least_as_good r x)"
proof -
  let ?sc = "enumerate 0 scored"
  have ws: "well_sorted ?sc" using assms well_sorted_enumerate by (auto simp: good_input_def)
  have grid: "\<forall>(i, sp) \<in> set ?sc. on_grid q (effective_pts sp)"
    using assms by (auto simp: good_input_def enumerate_eq_zip dest: set_zip_rightD)
  have "\<forall>(t, c, a) \<in> set (leaves ?sc cur elig slots [] [] 0 0). on_grid q t"
  proof (clarify)
    fix t c a assume "(t, c, a) \<in> set (leaves ?sc cur elig slots [] [] 0 0)"
    with leaf_is_filling [OF _ this] ws obtain cs where "t = value_of ?sc cs"
      by (auto simp: well_sorted_def)
    then show "on_grid q t" using value_on_grid [OF grid] by simp
  qed
  then show ?thesis
    unfolding search_exhaustive_aux [OF ws]
    using record_all_best [OF _ _ leaves_nonempty] assms by (auto simp: good_input_def)
qed

section \<open>What the caller gets\<close>

text \<open>
  The same specification over the caller's slice: a filling names indices of \<open>scored\<close>.
\<close>

definition may_fill ::
  "scored_player list \<Rightarrow> (string list \<Rightarrow> slot \<Rightarrow> bool) \<Rightarrow> slot \<Rightarrow> nat option \<Rightarrow> bool" where
  "may_fill scored elig s x = (case x of None \<Rightarrow> True
     | Some i \<Rightarrow> i < length scored \<and> elig (p_Positions (sp_Player (scored ! i))) s)"

definition valid_filling ::
  "scored_player list \<Rightarrow> (string list \<Rightarrow> slot \<Rightarrow> bool) \<Rightarrow> slot list \<Rightarrow> nat option list \<Rightarrow> bool" where
  "valid_filling scored elig slots cs \<longleftrightarrow>
     list_all2 (may_fill scored elig) slots cs \<and> distinct (filter (\<lambda>x. x \<noteq> None) cs)"

definition filling_value :: "scored_player list \<Rightarrow> nat option list \<Rightarrow> real" where
  "filling_value scored cs = sum_list (map (\<lambda>x. case x of None \<Rightarrow> 0
     | Some i \<Rightarrow> effective_pts (scored ! i)) cs)"

definition filled :: "scored_player list \<Rightarrow> slot list \<Rightarrow> nat option list \<Rightarrow> player_slot list" where
  "filled scored slots cs = filter (\<lambda>ps. ps_PlayerID ps \<noteq> [])
     (map2 (\<lambda>s x. case x of None \<Rightarrow> empty_player_slot | Some i \<Rightarrow> place (scored ! i) s) slots cs)"

lemma map_of_enumerate:
  "map_of (enumerate 0 xs) i = (if i < length xs then Some (xs ! i) else None)"
proof -
  have "(i, x) \<in> set (enumerate 0 xs) \<longleftrightarrow> i < length xs \<and> x = xs ! i" for x
    by (auto simp: in_set_enumerate_eq)
  moreover have "distinct (map fst (enumerate 0 xs))" by simp
  ultimately show ?thesis
    by (auto simp: map_of_eq_Some_iff map_of_eq_None_iff in_set_enumerate_eq image_iff)
qed

lemma candidate_enumerate:
  "i \<in> fst ` set (candidates (enumerate 0 scored) elig used s) \<longleftrightarrow>
   may_fill scored elig s (Some i) \<and> i \<notin> set used"
  by (force simp: candidates_def unused_def may_fill_def in_set_enumerate_eq)

lemma feasible_enumerate:
  "feasible (enumerate 0 scored) elig used slots cs \<longleftrightarrow>
   valid_filling scored elig slots cs \<and> (\<forall>i \<in> set used. Some i \<notin> set cs)"
proof (induction "enumerate 0 scored" elig used slots cs rule: feasible.induct)
  case (3 elig used s slots i cs)
  then show ?case
    by (cases "i \<in> fst ` set (candidates (enumerate 0 scored) elig used s)")
       (auto simp: valid_filling_def candidate_enumerate)
qed (auto simp: valid_filling_def may_fill_def)

lemma valid_filling_lengths: "valid_filling scored elig slots cs \<Longrightarrow> length cs = length slots"
  by (auto simp: valid_filling_def dest: list_all2_lengthD)

lemma valid_filling_bound:
  "valid_filling scored elig slots cs \<Longrightarrow> Some i \<in> set cs \<Longrightarrow> i < length scored"
  unfolding valid_filling_def
  by (auto simp: list_all2_conv_all_nth in_set_conv_nth may_fill_def split: option.splits)

lemma value_of_enumerate:
  assumes "\<And>i. Some i \<in> set cs \<Longrightarrow> i < length scored"
  shows "value_of (enumerate 0 scored) cs = filling_value scored cs"
  using assms unfolding value_of_def filling_value_def
  by (intro arg_cong [where f = sum_list] map_cong)
     (auto simp: idx_pts_def map_of_enumerate split: option.split)

lemma placed_enumerate:
  assumes "\<And>i. Some i \<in> set cs \<Longrightarrow> i < length scored"
  shows "map2 (placed (enumerate 0 scored)) slots cs =
    map2 (\<lambda>s x. case x of None \<Rightarrow> empty_player_slot | Some i \<Rightarrow> place (scored ! i) s) slots cs"
  using assms
  by (intro map_cong) (auto simp: placed_def map_of_enumerate split: option.split dest!: set_zip_rightD)

text \<open>The search on \<open>good_input\<close>: the filling it settles on, its change count, and why.\<close>

lemma search_spec:
  assumes "good_input q scored"
  obtains t c cs where
    "search (enumerate 0 scored) cur elig slots [] [] 0 0 None =
       Some (t, c, map2 (placed (enumerate 0 scored)) slots cs)"
    "valid_filling scored elig slots cs" "t = filling_value scored cs"
    "c = sum_list (map2 (change_count (enumerate 0 scored) cur) slots cs)"
    "(t, c, map2 (placed (enumerate 0 scored)) slots cs)
       \<in> set (leaves (enumerate 0 scored) cur elig slots [] [] 0 0)"
    "\<forall>x \<in> set (leaves (enumerate 0 scored) cur elig slots [] [] 0 0).
       at_least_as_good (t, c, map2 (placed (enumerate 0 scored)) slots cs) x"
proof -
  let ?sc = "enumerate 0 scored"
  obtain r where r: "r \<in> set (leaves ?sc cur elig slots [] [] 0 0)"
    "search ?sc cur elig slots [] [] 0 0 None = Some r"
    "\<forall>x \<in> set (leaves ?sc cur elig slots [] [] 0 0). at_least_as_good r x"
    using search_best [OF assms] by blast
  obtain t c a where rt: "r = (t, c, a)" by (cases r)
  have "distinct (map fst ?sc)" by simp
  from leaf_is_filling [OF this r(1) [unfolded rt]] obtain cs where
    cs: "feasible ?sc elig [] slots cs" "t = value_of ?sc cs"
    "c = sum_list (map2 (change_count ?sc cur) slots cs)" "a = map2 (placed ?sc) slots cs"
    by auto
  have v: "valid_filling scored elig slots cs" using cs(1) feasible_enumerate by blast
  have "t = filling_value scored cs"
    using cs(2) value_of_enumerate valid_filling_bound [OF v] by metis
  then show thesis
    using that [of t c cs] r rt cs v by simp
qed

lemma optimal_assignment_optimal_aux:
  assumes "good_input q scored"
  shows "\<exists>cs. valid_filling scored elig slots cs \<and>
    optimal_assignment scored slots cur elig = filled scored slots cs \<and>
    (\<forall>cs'. valid_filling scored elig slots cs' \<longrightarrow> filling_value scored cs' \<le> filling_value scored cs)"
proof -
  let ?sc = "enumerate 0 scored"
  obtain t c cs where r: "search ?sc cur elig slots [] [] 0 0 None = Some (t, c, map2 (placed ?sc) slots cs)"
    and v: "valid_filling scored elig slots cs" and t: "t = filling_value scored cs"
    and best: "\<forall>x \<in> set (leaves ?sc cur elig slots [] [] 0 0).
       at_least_as_good (t, c, map2 (placed ?sc) slots cs) x"
    using search_spec [OF assms] by metis
  have ws: "well_sorted ?sc" using assms well_sorted_enumerate by (auto simp: good_input_def)
  have "filling_value scored cs' \<le> t" if v': "valid_filling scored elig slots cs'" for cs'
  proof -
    have "feasible ?sc elig [] slots cs'" using v' by (simp add: feasible_enumerate)
    from leaf_at_least [OF ws this, of cur "[]" 0 0] obtain t' c' a' where
      "(t', c', a') \<in> set (leaves ?sc cur elig slots [] [] 0 0)" "value_of ?sc cs' \<le> t'"
      by auto
    moreover have "value_of ?sc cs' = filling_value scored cs'"
      using value_of_enumerate valid_filling_bound [OF v'] by metis
    ultimately show ?thesis using best by (fastforce simp: at_least_as_good_def)
  qed
  moreover have "optimal_assignment scored slots cur elig = filled scored slots cs"
    using placed_enumerate [OF valid_filling_bound [OF v]]
    by (simp only: optimal_assignment_def r filled_def option.case prod.case)
  ultimately show ?thesis using v t by blast
qed

text \<open>The lineup is optimal. Given players in descending order of points, none negative,
  whose points lie on a grid coarser than the code's tolerance, \<open>optimalAssignment\<close> returns
  a filling of the slots that uses nobody twice and nobody in a slot he is not eligible for,
  and no such filling has a higher total of effective points.\<close>

theorem optimal_assignment_optimal:
  assumes "good_input q scored"
  shows "\<exists>cs. valid_filling scored elig slots cs \<and>
    optimal_assignment scored slots cur elig = filled scored slots cs \<and>
    (\<forall>cs'. valid_filling scored elig slots cs' \<longrightarrow> filling_value scored cs' \<le> filling_value scored cs)"
  using optimal_assignment_optimal_aux [OF assms] .

section \<open>Running again\<close>

text \<open>\<open>currentAssign\<close> decides only how the changes are counted.\<close>

lemma leaves_cur:
  "map (\<lambda>(t, c, a). (t, a)) (leaves sc cur elig slots cand used tot changes) =
   map (\<lambda>(t, c, a). (t, a)) (leaves sc cur' elig slots cand used tot changes')"
proof (induction slots arbitrary: cand used tot changes changes')
  case (Cons s slots)
  show ?case
  proof (cases "candidates sc elig used s = []")
    case True
    with Cons show ?thesis by simp
  next
    case False
    have "map (\<lambda>(t, c, a). (t, a)) (leaves sc cur elig slots (place sp s # cand) (i # used)
               (tot + effective_pts sp) (changes + is_change cur sp s)) =
          map (\<lambda>(t, c, a). (t, a)) (leaves sc cur' elig slots (place sp s # cand) (i # used)
               (tot + effective_pts sp) (changes' + is_change cur' sp s))" for i sp
      by (rule Cons.IH)
    with False show ?thesis
      by (simp add: map_concat o_def case_prod_beta')
  qed
qed simp

lemma change_count_0_iff:
  assumes "\<And>i. Some i \<in> set cs \<Longrightarrow> i < length scored" and "length cs = length slots"
  shows "sum_list (map2 (change_count (enumerate 0 scored) cur) slots cs) = 0 \<longleftrightarrow>
    (\<forall>k < length slots. \<forall>i. cs ! k = Some i \<longrightarrow>
       lookup_str cur (p_ID (sp_Player (scored ! i))) = sl_PosID (slots ! k))"
  using assms
  by (auto simp: sum_list_eq_0_iff set_zip change_count_def map_of_enumerate is_change_def
        split: option.splits if_splits) (metis nth_mem)+

lemma filled_mem:
  assumes "length cs = length slots"
  shows "ps \<in> set (filled scored slots cs) \<longleftrightarrow>
    (\<exists>k < length slots. \<exists>i. cs ! k = Some i \<and> ps = place (scored ! i) (slots ! k) \<and> ps_PlayerID ps \<noteq> [])"
proof
  assume "ps \<in> set (filled scored slots cs)"
  then show "\<exists>k < length slots. \<exists>i. cs ! k = Some i \<and> ps = place (scored ! i) (slots ! k) \<and> ps_PlayerID ps \<noteq> []"
    by (auto simp: filled_def set_zip empty_player_slot_def split: option.splits)
next
  assume "\<exists>k < length slots. \<exists>i. cs ! k = Some i \<and> ps = place (scored ! i) (slots ! k) \<and> ps_PlayerID ps \<noteq> []"
  then obtain k i where k: "k < length slots" "cs ! k = Some i" "ps = place (scored ! i) (slots ! k)"
    "ps_PlayerID ps \<noteq> []" by blast
  then have "(slots ! k, Some i) \<in> set (zip slots cs)" using assms by (auto simp: set_zip)
  then show "ps \<in> set (filled scored slots cs)" using k(3,4) by (force simp: filled_def)
qed

lemma leaves_cur_mem:
  assumes "(t, c, a) \<in> set (leaves sc cur elig slots cand used tot changes)"
  shows "\<exists>c'. (t, c', a) \<in> set (leaves sc cur' elig slots cand used tot changes')"
proof -
  have "(t, a) \<in> set (map (\<lambda>(t, c, a). (t, a)) (leaves sc cur elig slots cand used tot changes))"
    using assms by force
  then have "(t, a) \<in> set (map (\<lambda>(t, c, a). (t, a)) (leaves sc cur' elig slots cand used tot changes'))"
    by (simp only: leaves_cur [of sc cur elig slots cand used tot changes cur' changes'])
  then show ?thesis by auto
qed

lemma optimal_assignment_mem:
  assumes "search (enumerate 0 scored) cur elig slots [] [] 0 0 None =
      Some (t, c, map2 (placed (enumerate 0 scored)) slots cs)"
    and "valid_filling scored elig slots cs"
  shows "optimal_assignment scored slots cur elig = filled scored slots cs"
  using placed_enumerate [OF valid_filling_bound [OF assms(2)]]
  by (simp only: optimal_assignment_def assms(1) filled_def option.case prod.case)

text \<open>A leaf whose placements all agree with \<open>cur\<close> counts no change.\<close>

lemma unchanged_leaf:
  assumes "(t, c, map2 (placed (enumerate 0 scored)) slots cs)
      \<in> set (leaves (enumerate 0 scored) cur elig slots [] [] 0 0)"
    and v: "valid_filling scored elig slots cs"
    and ids: "\<forall>sp \<in> set scored. p_ID (sp_Player sp) \<noteq> []"
    and agree: "\<forall>ps \<in> set (filled scored slots cs). lookup_str cur (ps_PlayerID ps) = ps_PosID ps"
  shows "c = 0"
proof -
  let ?sc = "enumerate 0 scored"
  have "distinct (map fst ?sc)" by simp
  from leaf_is_filling [OF this assms(1)] obtain cs2 where
    cs2: "feasible ?sc elig [] slots cs2" "c = sum_list (map2 (change_count ?sc cur) slots cs2)"
    "map2 (placed ?sc) slots cs = map2 (placed ?sc) slots cs2" by auto
  have v2: "valid_filling scored elig slots cs2" using cs2(1) by (simp add: feasible_enumerate)
  have same: "filled scored slots cs2 = filled scored slots cs"
    unfolding filled_def
    using cs2(3) placed_enumerate [OF valid_filling_bound [OF v]]
      placed_enumerate [OF valid_filling_bound [OF v2]] by metis
  have "lookup_str cur (p_ID (sp_Player (scored ! i))) = sl_PosID (slots ! k)"
    if k: "k < length slots" and i: "cs2 ! k = Some i" for k i
  proof -
    have "i < length scored" using valid_filling_bound [OF v2] k i valid_filling_lengths [OF v2]
      by (metis nth_mem)
    then have "ps_PlayerID (place (scored ! i) (slots ! k)) \<noteq> []" using ids by (simp add: place_def)
    then have "place (scored ! i) (slots ! k) \<in> set (filled scored slots cs)"
      unfolding same [symmetric] using filled_mem [OF valid_filling_lengths [OF v2]] k i by blast
    then show ?thesis using agree by (fastforce simp: place_def)
  qed
  then show ?thesis
    unfolding cs2(2)
    using change_count_0_iff [OF valid_filling_bound [OF v2] valid_filling_lengths [OF v2]] by blast
qed

lemma optimal_assignment_stable_aux:
  assumes good: "good_input q scored"
    and ids: "\<forall>sp \<in> set scored. p_ID (sp_Player sp) \<noteq> []"
    and applied: "\<forall>ps \<in> set (optimal_assignment scored slots cur elig).
       lookup_str cur' (ps_PlayerID ps) = ps_PosID ps"
  shows "\<forall>ps \<in> set (optimal_assignment scored slots cur' elig).
    lookup_str cur' (ps_PlayerID ps) = ps_PosID ps"
proof -
  let ?sc = "enumerate 0 scored"
  obtain t c cs where 1: "search ?sc cur elig slots [] [] 0 0 None = Some (t, c, map2 (placed ?sc) slots cs)"
    and v: "valid_filling scored elig slots cs"
    and l: "(t, c, map2 (placed ?sc) slots cs) \<in> set (leaves ?sc cur elig slots [] [] 0 0)"
    and best: "\<forall>x \<in> set (leaves ?sc cur elig slots [] [] 0 0).
       at_least_as_good (t, c, map2 (placed ?sc) slots cs) x"
    using search_spec [OF good] by metis
  obtain t' c' cs' where 2: "search ?sc cur' elig slots [] [] 0 0 None = Some (t', c', map2 (placed ?sc) slots cs')"
    and v': "valid_filling scored elig slots cs'"
    and c': "c' = sum_list (map2 (change_count ?sc cur') slots cs')"
    and l': "(t', c', map2 (placed ?sc) slots cs') \<in> set (leaves ?sc cur' elig slots [] [] 0 0)"
    and best': "\<forall>x \<in> set (leaves ?sc cur' elig slots [] [] 0 0).
       at_least_as_good (t', c', map2 (placed ?sc) slots cs') x"
    using search_spec [OF good] by metis
  obtain c2 where c2: "(t, c2, map2 (placed ?sc) slots cs) \<in> set (leaves ?sc cur' elig slots [] [] 0 0)"
    using leaves_cur_mem [OF l] by blast
  have "c2 = 0"
    by (rule unchanged_leaf [OF c2 v ids]) (use applied optimal_assignment_mem [OF 1 v] in simp)
  moreover obtain c3 where "(t', c3, map2 (placed ?sc) slots cs') \<in> set (leaves ?sc cur elig slots [] [] 0 0)"
    using leaves_cur_mem [OF l'] by blast
  then have "t' \<le> t" using best by (auto simp: at_least_as_good_def)
  ultimately have "c' = 0" using best' c2 by (fastforce simp: at_least_as_good_def)
  then have "\<forall>k < length slots. \<forall>i. cs' ! k = Some i \<longrightarrow>
       lookup_str cur' (p_ID (sp_Player (scored ! i))) = sl_PosID (slots ! k)"
    using change_count_0_iff [OF valid_filling_bound [OF v'] valid_filling_lengths [OF v']] c' by metis
  then show ?thesis
    unfolding optimal_assignment_mem [OF 2 v']
    using filled_mem [OF valid_filling_lengths [OF v']] by (auto simp: place_def)
qed

text \<open>The assignment is stable. Once the players stand where \<open>optimalAssignment\<close> put
  them, a second call on the same players and slots moves nobody: every placement it returns
  is the one the player already has, so the caller emits no change.\<close>

theorem optimal_assignment_stable:
  assumes good: "good_input q scored"
    and ids: "\<forall>sp \<in> set scored. p_ID (sp_Player sp) \<noteq> []"
    and applied: "\<forall>ps \<in> set (optimal_assignment scored slots cur elig).
       lookup_str cur' (ps_PlayerID ps) = ps_PosID ps"
  shows "\<forall>ps \<in> set (optimal_assignment scored slots cur' elig).
    lookup_str cur' (ps_PlayerID ps) = ps_PosID ps"
  using optimal_assignment_stable_aux [OF assms] .

section \<open>Validity without any assumption on the points\<close>

text \<open>Whatever the points, what the search returns is one of the leaves.\<close>

lemma record_leaf_cases: "record_leaf t c a best = best \<or> record_leaf t c a best = Some (t, c, a)"
  by (auto simp: record_leaf_def split: option.splits)

lemma fold_search_leaf:
  assumes "\<And>x b. x \<in> set xs \<Longrightarrow> f x b = b \<or> (\<exists>r \<in> L. f x b = Some r)"
  shows "fold f xs b = b \<or> (\<exists>r \<in> L. fold f xs b = Some r)"
  using assms by (induction xs arbitrary: b) (auto, metis)

lemma search_leaf:
  "search sc cur elig slots cand used tot changes best = best \<or>
   (\<exists>r \<in> set (leaves sc cur elig slots cand used tot changes).
      search sc cur elig slots cand used tot changes best = Some r)"
proof (induction slots arbitrary: cand used tot changes best)
  case Nil
  then show ?case using record_leaf_cases [of tot changes "rev cand" best] by auto
next
  case (Cons s slots)
  let ?L = "set (leaves sc cur elig (s # slots) cand used tot changes)"
  let ?f = "\<lambda>(i, sp) b. search sc cur elig slots (place sp s # cand) (i # used)
               (tot + effective_pts sp) (changes + is_change cur sp s) b"
  have "?f x b = b \<or> (\<exists>r \<in> ?L. ?f x b = Some r)" if x: "x \<in> set (candidates sc elig used s)" for x b
  proof -
    obtain i sp where isp: "x = (i, sp)" by (cases x)
    from Cons.IH [of "place sp s # cand" "i # used" "tot + effective_pts sp"
        "changes + is_change cur sp s" b] x
    show ?thesis unfolding isp by (cases "candidates sc elig used s = []") fastforce+
  qed
  from fold_search_leaf [of "candidates sc elig used s" ?f ?L best] this
  have "fold ?f (candidates sc elig used s) best = best \<or>
     (\<exists>r \<in> ?L. fold ?f (candidates sc elig used s) best = Some r)" by blast
  then show ?case using Cons.IH [of "empty_player_slot # cand" used tot changes best]
    by (cases "candidates sc elig used s = []") auto
qed

lemma search_Some:
  "best \<noteq> None \<Longrightarrow> search sc cur elig slots cand used tot changes best \<noteq> None"
  using search_leaf [of sc cur elig slots cand used tot changes best] by auto

lemma fold_Some_nonempty:
  assumes "\<And>x b. x \<in> set xs \<Longrightarrow> f x b \<noteq> None" and "xs \<noteq> []"
  shows "fold f xs b \<noteq> None"
  using assms by (induction xs arbitrary: b rule: rev_induct) auto

lemma search_from_None: "search sc cur elig slots cand used tot changes best \<noteq> None"
proof (induction slots arbitrary: cand used tot changes best)
  case Nil
  then show ?case by (auto simp: record_leaf_def split: option.splits)
next
  case (Cons s slots)
  have "fold (\<lambda>(i, sp) b. search sc cur elig slots (place sp s # cand) (i # used)
      (tot + effective_pts sp) (changes + is_change cur sp s) b) xs best \<noteq> None" if "xs \<noteq> []" for xs
    using that by (intro fold_Some_nonempty) (simp_all only: split_beta Cons.IH not_False_eq_True)
  then show ?case using Cons.IH by (auto simp: prune_def split: option.splits)
qed

lemma optimal_assignment_valid_aux:
  "\<exists>cs. valid_filling scored elig slots cs \<and>
     optimal_assignment scored slots cur elig = filled scored slots cs"
proof -
  let ?sc = "enumerate 0 scored"
  obtain t c a where r: "search ?sc cur elig slots [] [] 0 0 None = Some (t, c, a)"
    using search_from_None by (metis option.exhaust prod_cases3)
  then have "(t, c, a) \<in> set (leaves ?sc cur elig slots [] [] 0 0)"
    using search_leaf [of ?sc cur elig slots "[]" "[]" 0 0 None] by auto
  from leaf_is_filling [OF _ this] obtain cs where
    cs: "feasible ?sc elig [] slots cs" "a = map2 (placed ?sc) slots cs" by auto
  have v: "valid_filling scored elig slots cs" using cs(1) by (simp add: feasible_enumerate)
  have "optimal_assignment scored slots cur elig = filled scored slots cs"
    by (rule optimal_assignment_mem [OF _ v]) (simp add: r cs(2))
  with v show ?thesis by blast
qed

text \<open>Every result is legal. Whatever the points, the current assignment and the slots,
  \<open>optimalAssignment\<close> returns the placements of a filling that uses no player twice, puts
  everyone in a slot he is eligible for and fills each slot at most once.\<close>

theorem optimal_assignment_valid:
  "\<exists>cs. valid_filling scored elig slots cs \<and>
     optimal_assignment scored slots cur elig = filled scored slots cs"
  by (rule optimal_assignment_valid_aux)

section \<open>Witnesses\<close>

definition demo_player :: "string \<Rightarrow> string list \<Rightarrow> player" where
  "demo_player i ps = \<lparr>p_ID = i, p_Name = i, p_MLBTeam = ''BOS'', p_Positions = ps,
     p_PosShortNames = [], p_RosterPosition = [], p_Status = ''Reserve'', p_NextGameDate = [],
     p_InMinors = False, p_IsInjured = False, p_Locked = False\<rparr>"

definition demo_scored :: "scored_player list" where
  "demo_scored =
     [\<lparr>sp_Player = demo_player ''a'' [pos_SS, pos_OF], sp_ExpectedPts = 4, sp_HasGame = True\<rparr>,
      \<lparr>sp_Player = demo_player ''b'' [pos_SS], sp_ExpectedPts = 3, sp_HasGame = True\<rparr>,
      \<lparr>sp_Player = demo_player ''c'' [pos_C], sp_ExpectedPts = 2, sp_HasGame = False\<rparr>]"

definition demo_slots :: "slot list" where
  "demo_slots = [\<lparr>sl_PosID = pos_SS, sl_PosName = ''SS''\<rparr>, \<lparr>sl_PosID = pos_OF, sl_PosName = ''OF''\<rparr>]"

lemma demo_good: "good_input 1 demo_scored"
  by (auto simp: good_input_def eps_def demo_scored_def effective_pts_def on_grid_def
        intro: exI [of _ 4] exI [of _ 3])

lemma demo_result:
  "optimal_assignment demo_scored demo_slots Map.empty eligible_for_slot =
     [\<lparr>ps_PlayerID = ''b'', ps_PosID = pos_SS\<rparr>, \<lparr>ps_PlayerID = ''a'', ps_PosID = pos_OF\<rparr>]"
  by code_simp

theorem search_exhaustive_witness:
  "well_sorted (enumerate 0 demo_scored) \<and>
   search (enumerate 0 demo_scored) Map.empty eligible_for_slot demo_slots [] [] 0 0 None =
     record_all (leaves (enumerate 0 demo_scored) Map.empty eligible_for_slot demo_slots [] [] 0 0) None \<and>
   length (leaves (enumerate 0 demo_scored) Map.empty eligible_for_slot demo_slots [] [] 0 0) = 2"
proof -
  have ws: "well_sorted (enumerate 0 demo_scored)"
    using demo_good well_sorted_enumerate by (auto simp: good_input_def)
  have "length (leaves (enumerate 0 demo_scored) Map.empty eligible_for_slot demo_slots [] [] 0 0) = 2"
    by code_simp
  with ws search_exhaustive [OF ws] show ?thesis by blast
qed

theorem optimal_assignment_optimal_witness:
  "\<exists>cs. valid_filling demo_scored eligible_for_slot demo_slots cs \<and>
    filled demo_scored demo_slots cs =
      [\<lparr>ps_PlayerID = ''b'', ps_PosID = pos_SS\<rparr>, \<lparr>ps_PlayerID = ''a'', ps_PosID = pos_OF\<rparr>] \<and>
    (\<forall>cs'. valid_filling demo_scored eligible_for_slot demo_slots cs' \<longrightarrow>
       filling_value demo_scored cs' \<le> filling_value demo_scored cs)"
  using optimal_assignment_optimal [OF demo_good, of eligible_for_slot demo_slots Map.empty] demo_result
  by metis

theorem optimal_assignment_stable_witness:
  "\<forall>ps \<in> set (optimal_assignment demo_scored demo_slots [''b'' \<mapsto> pos_SS, ''a'' \<mapsto> pos_OF] eligible_for_slot).
     lookup_str [''b'' \<mapsto> pos_SS, ''a'' \<mapsto> pos_OF] (ps_PlayerID ps) = ps_PosID ps"
proof (rule optimal_assignment_stable [OF demo_good])
  show "\<forall>sp \<in> set demo_scored. p_ID (sp_Player sp) \<noteq> []"
    by (simp add: demo_scored_def demo_player_def)
  show "\<forall>ps \<in> set (optimal_assignment demo_scored demo_slots Map.empty eligible_for_slot).
     lookup_str [''b'' \<mapsto> pos_SS, ''a'' \<mapsto> pos_OF] (ps_PlayerID ps) = ps_PosID ps"
    by (simp add: demo_result lookup_str_def)
qed

section \<open>Fillings as placements\<close>

lemma filled_player:
  assumes "valid_filling scored elig slots cs" and "ps \<in> set (filled scored slots cs)"
  shows "\<exists>sp \<in> set scored. \<exists>s \<in> set slots. ps = place sp s \<and> elig (p_Positions (sp_Player sp)) s"
proof -
  have l: "length cs = length slots" by (rule valid_filling_lengths [OF assms(1)])
  obtain k i where k: "k < length slots" "cs ! k = Some i" "ps = place (scored ! i) (slots ! k)"
    using assms(2) filled_mem [OF l] by blast
  have "may_fill scored elig (slots ! k) (cs ! k)"
    using assms(1) k(1) l by (auto simp: valid_filling_def list_all2_conv_all_nth)
  then show ?thesis using k by (auto simp: may_fill_def intro!: bexI [of _ "scored ! i"] bexI [of _ "slots ! k"])
qed

lemma filled_capacity:
  assumes "length cs = length slots"
  shows "length (filter (\<lambda>ps. ps_PosID ps = s) (filled scored slots cs))
           \<le> length (filter (\<lambda>sl. sl_PosID sl = s) slots)"
  using assms unfolding filled_def
proof (induction cs slots rule: list_induct2)
  case (Cons x cs y slots)
  then show ?case
    by (auto simp: empty_player_slot_def place_def split: option.splits if_splits)
qed simp

lemma filled_ids_distinct:
  assumes "valid_filling scored elig slots cs" and d: "distinct (map (\<lambda>sp. p_ID (sp_Player sp)) scored)"
  shows "distinct (map ps_PlayerID (filled scored slots cs))"
proof -
  have bound: "\<forall>i. Some i \<in> set cs \<longrightarrow> i < length scored"
    using valid_filling_bound [OF assms(1)] by blast
  have dist: "distinct (filter (\<lambda>x. x \<noteq> None) cs)" using assms(1) by (simp add: valid_filling_def)
  have inj: "i = j" if "i < length scored" "j < length scored"
      "p_ID (sp_Player (scored ! i)) = p_ID (sp_Player (scored ! j))" for i j
    using d that by (auto simp: distinct_conv_nth)
  show ?thesis
    using valid_filling_lengths [OF assms(1)] bound dist unfolding filled_def
  proof (induction cs slots rule: list_induct2)
    case (Cons x cs y slots)
    show ?case
    proof (cases x)
      case None
      with Cons show ?thesis by (simp add: empty_player_slot_def)
    next
      case (Some i)
      with Cons.prems have i: "i < length scored" "Some i \<notin> set cs" by auto
      have "p_ID (sp_Player (scored ! i)) \<noteq> p_ID (sp_Player (scored ! j))" if "Some j \<in> set cs" for j
        using inj [of i j] i Cons.prems(1) that by auto
      then have "p_ID (sp_Player (scored ! i)) \<notin> ps_PlayerID ` set (filter (\<lambda>ps. ps_PlayerID ps \<noteq> [])
          (map2 (\<lambda>s x. case x of None \<Rightarrow> empty_player_slot | Some i \<Rightarrow> place (scored ! i) s) slots cs))"
        by (force simp: place_def empty_player_slot_def split: option.splits dest: set_zip_rightD)
      then show ?thesis using Cons Some by (simp add: place_def)
    qed
  qed simp
qed

section \<open>What the search reads of a player\<close>

text \<open>Only the ID, the positions and the effective points matter.\<close>

lemma search_cong:
  assumes f: "\<And>sp. p_ID (sp_Player (f sp)) = p_ID (sp_Player sp)"
    "\<And>sp. p_Positions (sp_Player (f sp)) = p_Positions (sp_Player sp)"
    "\<And>sp. effective_pts (f sp) = effective_pts sp"
  shows "search (map (apsnd f) sc) cur elig slots cand used tot changes best =
         search sc cur elig slots cand used tot changes best"
proof (induction slots arbitrary: cand used tot changes best)
  case (Cons s slots)
  have u: "unused (map (apsnd f) sc) used = map (apsnd f) (unused sc used)"
    by (simp add: unused_def filter_map o_def case_prod_beta')
  have c: "candidates (map (apsnd f) sc) elig used s = map (apsnd f) (candidates sc elig used s)"
    by (simp add: candidates_def u filter_map o_def case_prod_beta' f)
  have b: "upper_bound (map (apsnd f) sc) used n tot = upper_bound sc used n tot" for n
    by (simp add: upper_bound_def u o_def case_prod_beta' f)
  have IH: "search (map (apsnd f) sc) cur elig slots cd u t ch = search sc cur elig slots cd u t ch"
    for cd u t ch by (rule ext) (rule Cons.IH)
  show ?case
    unfolding search.simps b c
    by (simp add: fold_map o_def case_prod_beta' IH place_def is_change_def f)
qed simp

lemma optimal_assignment_cong:
  assumes "\<And>sp. p_ID (sp_Player (f sp)) = p_ID (sp_Player sp)"
    "\<And>sp. p_Positions (sp_Player (f sp)) = p_Positions (sp_Player sp)"
    "\<And>sp. effective_pts (f sp) = effective_pts sp"
  shows "optimal_assignment (map f scored) slots cur elig = optimal_assignment scored slots cur elig"
proof -
  have "enumerate 0 (map f scored) = map (apsnd f) (enumerate 0 scored)"
    by (simp add: enumerate_eq_zip zip_map2 apsnd_def map_prod_def)
  then show ?thesis by (simp add: optimal_assignment_def search_cong [OF assms])
qed

section \<open>Negative points\<close>

definition neg_scored :: "scored_player list" where
  "neg_scored =
     [\<lparr>sp_Player = (demo_player ''a'' [pos_RP]), sp_ExpectedPts = 3, sp_HasGame = True\<rparr>,
      \<lparr>sp_Player = (demo_player ''b'' [pos_P]), sp_ExpectedPts = 2, sp_HasGame = True\<rparr>,
      \<lparr>sp_Player = (demo_player ''c'' []), sp_ExpectedPts = - 10, sp_HasGame = True\<rparr>]"

definition neg_slots :: "slot list" where
  "neg_slots = [\<lparr>sl_PosID = pos_P, sl_PosName = ''P''\<rparr>, \<lparr>sl_PosID = pos_RP, sl_PosName = ''RP''\<rparr>,
     \<lparr>sl_PosID = pos_SP, sl_PosName = ''SP''\<rparr>]"

text \<open>A negative projection breaks the pruning. \<open>upperBound\<close> adds the next unused players'
  points for every open slot, so a player with negative points whom no slot accepts pulls the
  bound below what the branch reaches: on this descending list the search returns a lineup of
  3 points although a legal lineup of 5 exists.\<close>

theorem negative_points_suboptimal:
  "sorted_wrt (\<ge>) (map effective_pts neg_scored) \<and>
   optimal_assignment neg_scored neg_slots Map.empty eligible_for_pitcher_slot =
     filled neg_scored neg_slots [Some 0, None, None] \<and>
   valid_filling neg_scored eligible_for_pitcher_slot neg_slots [Some 1, Some 0, None] \<and>
   filling_value neg_scored [Some 0, None, None] = 3 \<and>
   filling_value neg_scored [Some 1, Some 0, None] = 5"
proof (intro conjI)
  show "optimal_assignment neg_scored neg_slots Map.empty eligible_for_pitcher_slot =
     filled neg_scored neg_slots [Some 0, None, None]" by code_simp
qed (simp_all add: neg_scored_def neg_slots_def effective_pts_def filling_value_def
       valid_filling_def may_fill_def demo_player_def eligible_for_pitcher_slot_def is_pitcher_slot_def)

end
