(* ===== verification/Lineup_Optimizer.thy ===== *)
theory Lineup_Optimizer
  imports Lineup_Search
begin

text \<open>
  The daily hitter lineup: \<open>OptimizeLineup\<close> of \<open>internal/optimizer/lineup.go\<close> with the
  functions around the search (\<open>scoreRoster\<close>, \<open>partitionLockedSlots\<close>,
  \<open>ineligibleActive\<close>). The lemmas show that locked players are never moved, that no slot
  type is ever over-filled, that the lineup is optimal among those that leave the locked
  players where they are, and that a second run on the applied lineup asks for nothing.

  \<open>nrm\<close> is \<open>NormalizeName\<close>; \<open>playingToday\<close> and \<open>benchedToday\<close> are Go maps to
  \<open>bool\<close>, read with \<open>False\<close> for a missing key.
\<close>

section \<open>Definitions\<close>

definition score_player ::
  "(string \<Rightarrow> string) \<Rightarrow> (string \<Rightarrow> bool) \<Rightarrow> projection source \<Rightarrow> weights \<Rightarrow> (string \<Rightarrow> bool) \<Rightarrow>
   player \<Rightarrow> scored_player" where
  "score_player nrm playingToday src w benchedToday p =
     \<lparr>sp_Player = p,
      sp_ExpectedPts = fst (points_per_game src (p_Name p) (p_MLBTeam p) w),
      sp_HasGame = (playingToday (p_MLBTeam p) \<and> \<not> p_InMinors p \<and> \<not> p_IsInjured p
                    \<and> \<not> benchedToday (nrm (p_Name p)))\<rparr>"

definition score_roster ::
  "(string \<Rightarrow> string) \<Rightarrow> player list \<Rightarrow> (string \<Rightarrow> bool) \<Rightarrow> projection source \<Rightarrow> weights \<Rightarrow>
   (string \<Rightarrow> bool) \<Rightarrow> scored_player list" where
  "score_roster nrm roster playingToday src w benchedToday =
     map (score_player nrm playingToday src w benchedToday) roster"

text \<open>The comparison given to \<open>sort.Slice\<close>: games first, then points, then ID.\<close>

definition scored_less :: "scored_player \<Rightarrow> scored_player \<Rightarrow> bool" where
  "scored_less a b =
     (if sp_HasGame a \<noteq> sp_HasGame b then sp_HasGame a
      else if sp_ExpectedPts a \<noteq> sp_ExpectedPts b then sp_ExpectedPts a > sp_ExpectedPts b
      else p_ID (sp_Player a) < p_ID (sp_Player b))"

definition add_current :: "player \<Rightarrow> assign \<Rightarrow> assign" where
  "add_current p m =
     (if p_Status p = ''Active'' \<and> p_RosterPosition p \<noteq> [] then m(p_ID p \<mapsto> p_RosterPosition p)
      else m)"

definition current_assign :: "player list \<Rightarrow> assign" where
  "current_assign roster = fold add_current roster Map.empty"

text \<open>\<open>slotByID\<close>: the last slot with an ID wins.\<close>

definition slot_by_id :: "slot list \<Rightarrow> string \<Rightarrow> slot option" where
  "slot_by_id slots = fold (\<lambda>s m. m(sl_PosID s \<mapsto> s)) slots Map.empty"

definition ineligible_active ::
  "player list \<Rightarrow> assign \<Rightarrow> slot list \<Rightarrow> (string list \<Rightarrow> slot \<Rightarrow> bool) \<Rightarrow> string list" where
  "ineligible_active roster cur slots elig =
     sort_slice (<) (map p_ID (filter (\<lambda>p.
       (case cur (p_ID p) of None \<Rightarrow> False
        | Some posID \<Rightarrow> p_Positions p \<noteq> [] \<and>
           (case slot_by_id slots posID of None \<Rightarrow> False
            | Some s \<Rightarrow> \<not> elig (p_Positions p) s))) roster))"

definition locked_slots :: "scored_player list \<Rightarrow> assign \<Rightarrow> player_slot list" where
  "locked_slots scored cur = List.map_filter (\<lambda>sp.
     if \<not> p_Locked (sp_Player sp) then None
     else (case cur (p_ID (sp_Player sp)) of None \<Rightarrow> None
           | Some posID \<Rightarrow> Some \<lparr>ps_PlayerID = p_ID (sp_Player sp), ps_PosID = posID\<rparr>)) scored"

definition consumed :: "player_slot list \<Rightarrow> string \<Rightarrow> nat" where
  "consumed locked posID = length (filter (\<lambda>ps. ps_PosID ps = posID) locked)"

fun take_available :: "(string \<Rightarrow> nat) \<Rightarrow> slot list \<Rightarrow> slot list" where
  "take_available c [] = []"
| "take_available c (s # slots) =
     (if c (sl_PosID s) > 0 then take_available (c(sl_PosID s := c (sl_PosID s) - 1)) slots
      else s # take_available c slots)"

definition partition_locked_slots ::
  "scored_player list \<Rightarrow> slot list \<Rightarrow> assign \<Rightarrow> slot list \<times> player_slot list" where
  "partition_locked_slots scored slots cur =
     (let locked = locked_slots scored cur in (take_available (consumed locked) slots, locked))"

record opt_result =
  or_ToActivate :: "player_slot list"
  or_ToBench :: "string list"
  or_Scored :: "scored_player list"
  or_ActiveBefore :: assign
  or_IneligibleBefore :: "string list"

definition changed_activate :: "assign \<Rightarrow> player_slot list \<Rightarrow> player_slot list" where
  "changed_activate cur toActivate =
     filter (\<lambda>ps. lookup_str cur (ps_PlayerID ps) \<noteq> ps_PosID ps) toActivate"

definition to_bench :: "player list \<Rightarrow> (string \<Rightarrow> bool) \<Rightarrow> string list" where
  "to_bench roster assigned =
     map p_ID (filter (\<lambda>p. p_Status p = ''Active'' \<and> \<not> assigned (p_ID p) \<and> \<not> p_Locked p) roster)"

definition assigned_in :: "player_slot list \<Rightarrow> string \<Rightarrow> bool" where
  "assigned_in toActivate pid \<longleftrightarrow> pid \<in> ps_PlayerID ` set toActivate"

text \<open>\<open>toActivate\<close> after the locked assignments are merged back in.\<close>

definition full_assignment ::
  "scored_player list \<Rightarrow> scored_player list \<Rightarrow> slot list \<Rightarrow> assign \<Rightarrow>
   (string list \<Rightarrow> slot \<Rightarrow> bool) \<Rightarrow> player_slot list" where
  "full_assignment scored cands slots cur elig =
     (let (availableSlots, lockedAssign) = partition_locked_slots scored slots cur;
          unlocked = filter (\<lambda>sp. \<not> p_Locked (sp_Player sp)) cands
      in optimal_assignment unlocked availableSlots cur elig @ lockedAssign)"

definition optimize_lineup ::
  "(string \<Rightarrow> string) \<Rightarrow> player list \<Rightarrow> (string \<Rightarrow> bool) \<Rightarrow> projection source \<Rightarrow> weights \<Rightarrow>
   slot list \<Rightarrow> (string \<Rightarrow> bool) \<Rightarrow> opt_result" where
  "optimize_lineup nrm roster playingToday src w slots benchedToday =
     (let scored = sort_slice scored_less
            (score_roster nrm roster playingToday src w benchedToday);
          cur = current_assign roster;
          toActivate = full_assignment scored scored slots cur eligible_for_slot
      in \<lparr>or_ToActivate = changed_activate cur toActivate,
          or_ToBench = to_bench roster (assigned_in toActivate),
          or_Scored = scored,
          or_ActiveBefore = cur,
          or_IneligibleBefore = ineligible_active roster cur slots eligible_for_slot\<rparr>)"

section \<open>The order of the scored players\<close>

interpretation scored_order: go_order scored_less
proof
  fix x y z
  show "\<not> scored_less x x" by (simp add: scored_less_def)
  show "scored_less x y \<Longrightarrow> scored_less y z \<Longrightarrow> scored_less x z"
    by (auto simp: scored_less_def split: if_splits)
  show "\<not> scored_less x y \<Longrightarrow> \<not> scored_less y z \<Longrightarrow> \<not> scored_less x z"
    by (auto simp: scored_less_def split: if_splits)
qed

lemma scored_less_effective:
  assumes "\<not> scored_less y x" and "0 \<le> effective_pts x" and "0 \<le> effective_pts y"
  shows "effective_pts y \<le> effective_pts x"
  using assms by (auto simp: scored_less_def effective_pts_def split: if_splits)

lemma sorted_effective:
  assumes "\<forall>sp \<in> set scored. 0 \<le> effective_pts sp"
  shows "sorted_wrt (\<ge>) (map effective_pts (sort_slice scored_less scored))"
  unfolding sorted_wrt_map
  by (rule sorted_wrt_mono_rel [OF _ scored_order.sorted_sort_slice])
     (use assms scored_less_effective in auto)

section \<open>The current assignment\<close>

lemma current_assign_fold:
  assumes "distinct (map p_ID roster)"
  shows "fold add_current roster m pid =
    (if \<exists>p \<in> set roster. p_ID p = pid \<and> p_Status p = ''Active'' \<and> p_RosterPosition p \<noteq> []
     then map_option p_RosterPosition (find (\<lambda>p. p_ID p = pid) roster) else m pid)"
  using assms
proof (induction roster arbitrary: m)
  case (Cons p roster)
  then show ?case by (auto simp: add_current_def image_iff)
qed simp

lemma current_assign_Some:
  assumes "distinct (map p_ID roster)" and "p \<in> set roster"
  shows "current_assign roster (p_ID p) =
    (if p_Status p = ''Active'' \<and> p_RosterPosition p \<noteq> [] then Some (p_RosterPosition p) else None)"
proof -
  have "q = p" if "q \<in> set roster" "p_ID q = p_ID p" for q
    using assms that by (metis distinct_map inj_onD)
  moreover have "find (\<lambda>q. p_ID q = p_ID p) roster = Some p"
  proof (cases "find (\<lambda>q. p_ID q = p_ID p) roster")
    case None
    with assms(2) show ?thesis by (auto simp: find_None_iff)
  next
    case (Some q)
    then have "q \<in> set roster" "p_ID q = p_ID p" by (auto simp: find_Some_iff)
    with calculation Some show ?thesis by simp
  qed
  ultimately show ?thesis
    unfolding current_assign_def current_assign_fold [OF assms(1)] using assms(2) by auto
qed

lemma current_assign_dom:
  assumes "distinct (map p_ID roster)" and "current_assign roster pid = Some s"
  shows "\<exists>p \<in> set roster. p_ID p = pid \<and> p_Status p = ''Active'' \<and> p_RosterPosition p = s \<and> s \<noteq> []"
proof -
  have "\<exists>p \<in> set roster. p_ID p = pid"
  proof (rule ccontr)
    assume "\<not> ?thesis"
    then have "current_assign roster pid = None"
      unfolding current_assign_def current_assign_fold [OF assms(1)] by auto
    with assms(2) show False by simp
  qed
  then show ?thesis using current_assign_Some [OF assms(1)] assms(2) by (force split: if_splits)
qed

section \<open>Locked players and capacity\<close>

lemma locked_slots_iff:
  "ps \<in> set (locked_slots scored cur) \<longleftrightarrow>
   (\<exists>sp \<in> set scored. p_Locked (sp_Player sp) \<and> ps_PlayerID ps = p_ID (sp_Player sp) \<and>
      cur (ps_PlayerID ps) = Some (ps_PosID ps))"
  by (cases ps) (force simp: locked_slots_def map_filter_def split: if_splits option.splits)

lemma take_available_subset: "set (take_available c slots) \<subseteq> set slots"
proof (induction slots arbitrary: c)
  case (Cons s slots)
  show ?case by (simp add: subset_insertI2 Cons)
qed simp

lemma take_available_count:
  "length (filter (\<lambda>s. sl_PosID s = x) (take_available c slots)) =
   length (filter (\<lambda>s. sl_PosID s = x) slots) - c x"
  by (induction slots arbitrary: c) (auto simp: Suc_diff_le)

definition slot_capacity :: "slot list \<Rightarrow> string \<Rightarrow> nat" where
  "slot_capacity slots x = length (filter (\<lambda>s. sl_PosID s = x) slots)"

text \<open>
  The lineup the optimizer plans: the legal filling of the free slots, and the locked players
  where they stand. The predicate is a player's slot for the matching entry point.
\<close>

lemma full_assignment_cases:
  assumes "ps \<in> set (full_assignment scored cands slots cur elig)"
  shows "(\<exists>sp \<in> set cands. \<exists>s \<in> set slots. \<not> p_Locked (sp_Player sp) \<and> ps = place sp s \<and>
            elig (p_Positions (sp_Player sp)) s)
       \<or> (\<exists>sp \<in> set scored. p_Locked (sp_Player sp) \<and> ps_PlayerID ps = p_ID (sp_Player sp) \<and>
            cur (ps_PlayerID ps) = Some (ps_PosID ps))"
proof -
  let ?locked = "locked_slots scored cur"
  let ?un = "filter (\<lambda>sp. \<not> p_Locked (sp_Player sp)) cands"
  let ?av = "take_available (consumed ?locked) slots"
  obtain cs where cs: "valid_filling ?un elig ?av cs"
    "optimal_assignment ?un ?av cur elig = filled ?un ?av cs"
    using optimal_assignment_valid_aux by blast
  have "ps \<in> set (filled ?un ?av cs) \<or> ps \<in> set ?locked"
    using assms by (simp add: full_assignment_def partition_locked_slots_def Let_def cs(2))
  then show ?thesis
  proof
    assume "ps \<in> set (filled ?un ?av cs)"
    from filled_player [OF cs(1) this] show ?thesis using take_available_subset by fastforce
  qed (auto simp: locked_slots_iff)
qed

lemma full_assignment_capacity:
  assumes "consumed (locked_slots scored cur) x \<le> slot_capacity slots x"
  shows "length (filter (\<lambda>ps. ps_PosID ps = x) (full_assignment scored cands slots cur elig))
           \<le> slot_capacity slots x"
proof -
  let ?locked = "locked_slots scored cur"
  let ?un = "filter (\<lambda>sp. \<not> p_Locked (sp_Player sp)) cands"
  let ?av = "take_available (consumed ?locked) slots"
  obtain cs where cs: "valid_filling ?un elig ?av cs"
    "optimal_assignment ?un ?av cur elig = filled ?un ?av cs"
    using optimal_assignment_valid_aux by blast
  have "length (filter (\<lambda>ps. ps_PosID ps = x) (filled ?un ?av cs)) \<le> slot_capacity slots x - consumed ?locked x"
    using filled_capacity [OF valid_filling_lengths [OF cs(1)], of x "?un"]
    by (simp add: take_available_count slot_capacity_def)
  then show ?thesis using assms
    by (simp add: full_assignment_def partition_locked_slots_def Let_def cs(2) consumed_def)
qed

lemma full_assignment_locked:
  assumes "sp \<in> set scored" and "p_Locked (sp_Player sp)" and "cur (p_ID (sp_Player sp)) = Some s"
  shows "\<lparr>ps_PlayerID = p_ID (sp_Player sp), ps_PosID = s\<rparr> \<in> set (full_assignment scored cands slots cur elig)"
  using assms by (auto simp: full_assignment_def partition_locked_slots_def Let_def locked_slots_iff)

section \<open>Applying the moves\<close>

text \<open>The roster once the moves are made; \<open>acts\<close> and \<open>bench\<close> are the two lists of a result.\<close>

definition apply_player :: "player_slot list \<Rightarrow> string list \<Rightarrow> player \<Rightarrow> player" where
  "apply_player acts bench p =
     (case map_of (map (\<lambda>ps. (ps_PlayerID ps, ps_PosID ps)) acts) (p_ID p) of
        Some s \<Rightarrow> p\<lparr>p_Status := ''Active'', p_RosterPosition := s\<rparr>
      | None \<Rightarrow> if p_ID p \<in> set bench then p\<lparr>p_Status := ''Reserve'', p_RosterPosition := []\<rparr> else p)"

definition active_at :: "player list \<Rightarrow> string \<Rightarrow> player list" where
  "active_at roster x = filter (\<lambda>p. p_Status p = ''Active'' \<and> p_RosterPosition p = x) roster"

lemma apply_player_simps [simp]:
  "p_ID (apply_player acts bench p) = p_ID p" "p_Name (apply_player acts bench p) = p_Name p"
  "p_MLBTeam (apply_player acts bench p) = p_MLBTeam p"
  "p_Positions (apply_player acts bench p) = p_Positions p"
  "p_PosShortNames (apply_player acts bench p) = p_PosShortNames p"
  "p_InMinors (apply_player acts bench p) = p_InMinors p"
  "p_IsInjured (apply_player acts bench p) = p_IsInjured p"
  "p_Locked (apply_player acts bench p) = p_Locked p"
  by (auto simp: apply_player_def split: option.split)

lemma consumed_locked_mset:
  assumes "mset xs = mset ys"
  shows "consumed (locked_slots xs cur) x = consumed (locked_slots ys cur) x"
proof -
  have "mset (locked_slots xs cur) = mset (locked_slots ys cur)"
    using assms by (simp add: locked_slots_def map_filter_def)
  then show ?thesis unfolding consumed_def by (metis mset_filter size_mset)
qed

lemma consumed_locked_sort:
  "consumed (locked_slots (sort_slice lt xs) cur) x = consumed (locked_slots xs cur) x"
  by (rule consumed_locked_mset) simp

lemma consumed_locked_roster:
  assumes d: "distinct (map p_ID roster)" and x: "x \<noteq> []"
    and f: "\<And>p. sp_Player (f p) = p" and sub: "set ps \<subseteq> set roster"
  shows "consumed (locked_slots (map f ps) (current_assign roster)) x = length (filter p_Locked (active_at ps x))"
  using sub
proof (induction ps)
  case Nil
  then show ?case by (simp add: locked_slots_def map_filter_def consumed_def active_at_def)
next
  case (Cons p ps)
  then have "p \<in> set roster" by simp
  from current_assign_Some [OF d this] Cons x show ?case
    by (auto simp: locked_slots_def List.map_filter_simps consumed_def active_at_def f)
qed

text \<open>
  Everyone who ends up in slot \<open>x\<close> is in the planned lineup at \<open>x\<close>, where \<open>keep\<close> is a set
  of unlocked active players whom the plan leaves where they are.
\<close>

lemma active_after:
  assumes d: "distinct (map p_ID roster)"
    and locked: "\<And>p s. p \<in> set roster \<Longrightarrow> p_Locked p \<Longrightarrow> current_assign roster (p_ID p) = Some s \<Longrightarrow>
        \<lparr>ps_PlayerID = p_ID p, ps_PosID = s\<rparr> \<in> set plan"
    and p: "p \<in> set roster" and x: "x \<noteq> []"
    and uniq: "distinct (map ps_PlayerID plan)"
    and bench: "bench = to_bench roster A" and A: "\<And>pid. A pid \<Longrightarrow> assigned_in plan pid \<or> keep pid"
    and act: "p_Status (apply_player (changed_activate (current_assign roster) plan) bench p) = ''Active''"
             "p_RosterPosition (apply_player (changed_activate (current_assign roster) plan) bench p) = x"
  shows "(\<exists>ps \<in> set plan. ps_PlayerID ps = p_ID p \<and> ps_PosID ps = x) \<or>
         (keep (p_ID p) \<and> \<not> p_Locked p \<and> current_assign roster (p_ID p) = Some x)"
proof (cases "map_of (map (\<lambda>ps. (ps_PlayerID ps, ps_PosID ps)) (changed_activate (current_assign roster) plan)) (p_ID p)")
  case (Some s)
  with act(2) have "s = x" by (simp add: apply_player_def)
  with map_of_SomeD [OF Some] show ?thesis by (force simp: changed_activate_def)
next
  case None
  have nb: "p_ID p \<notin> set bench" using act(1) None by (auto simp: apply_player_def)
  with act None have pa: "p_Status p = ''Active''" "p_RosterPosition p = x"
    by (auto simp: apply_player_def)
  then have cur: "current_assign roster (p_ID p) = Some x"
    using current_assign_Some [OF d p] x by simp
  show ?thesis
  proof (cases "p_Locked p")
    case True
    then show ?thesis using locked [OF p True cur] by fastforce
  next
    case False
    then have "A (p_ID p)" using nb pa(1) p by (auto simp: bench to_bench_def)
    then consider "keep (p_ID p)" | ps where "ps \<in> set plan" "ps_PlayerID ps = p_ID p"
      using A [OF \<open>A (p_ID p)\<close>] unfolding assigned_in_def by (metis imageE)
    then show ?thesis
    proof cases
      case 1
      with False cur show ?thesis by simp
    next
      case 2
      have "lookup_str (current_assign roster) (p_ID p) = ps_PosID ps"
        using None 2 by (auto simp: changed_activate_def map_of_eq_None_iff image_iff)
      with cur 2 show ?thesis by (auto simp: lookup_str_def)
    qed
  qed
qed

lemma plan_ids_distinct:
  assumes d: "distinct (map p_ID roster)" and c: "distinct (map (\<lambda>sp. p_ID (sp_Player sp)) cands)"
    and s: "distinct (map (\<lambda>sp. p_ID (sp_Player sp)) scored)"
    and cr: "\<And>sp. sp \<in> set cands \<Longrightarrow> sp_Player sp \<in> set roster"
    and sr: "\<And>sp. sp \<in> set scored \<Longrightarrow> sp_Player sp \<in> set roster"
  shows "distinct (map ps_PlayerID (full_assignment scored cands slots cur elig))"
proof -
  let ?locked = "locked_slots scored cur"
  let ?un = "filter (\<lambda>sp. \<not> p_Locked (sp_Player sp)) cands"
  let ?av = "take_available (consumed ?locked) slots"
  obtain cs where cs: "valid_filling ?un elig ?av cs"
    "optimal_assignment ?un ?av cur elig = filled ?un ?av cs"
    using optimal_assignment_valid_aux by blast
  have "distinct (map ps_PlayerID (filled ?un ?av cs))"
    by (rule filled_ids_distinct [OF cs(1)]) (use c in \<open>simp add: distinct_map_filter\<close>)
  moreover have "distinct (map ps_PlayerID ?locked)"
    using s
    by (induction scored)
       (auto simp: locked_slots_def List.map_filter_simps map_filter_def split: option.split)
  moreover have "ps_PlayerID a \<noteq> ps_PlayerID b" if a: "a \<in> set (filled ?un ?av cs)" and b: "b \<in> set ?locked" for a b
  proof -
    obtain sp where sp: "sp \<in> set ?un" "ps_PlayerID a = p_ID (sp_Player sp)"
      using filled_player [OF cs(1) a] by (auto simp: place_def)
    obtain sq where sq: "sq \<in> set scored" "p_Locked (sp_Player sq)" "ps_PlayerID b = p_ID (sp_Player sq)"
      using b by (auto simp: locked_slots_iff)
    have "sp_Player sp \<noteq> sp_Player sq" using sp(1) sq(2) by auto
    moreover have "inj_on p_ID (set roster)" using d by (simp add: distinct_map)
    ultimately show ?thesis using sp sq cr sr by (auto dest: inj_onD)
  qed
  ultimately show ?thesis
    by (auto simp: full_assignment_def partition_locked_slots_def Let_def cs(2))
qed

text \<open>Counting: the players who end up at \<open>x\<close> are at most the entries of the plan at \<open>x\<close>.\<close>

lemma count_by_id:
  assumes "distinct (map p_ID ps)" and "\<And>p. p \<in> set ps \<Longrightarrow> \<exists>e \<in> set es. f e = p_ID p"
  shows "length ps \<le> length es"
proof -
  have "length ps = card (p_ID ` set ps)"
    using assms(1) by (metis distinct_card length_map set_map)
  also have "\<dots> \<le> card (f ` set es)"
    using assms(2) by (intro card_mono) (auto, force)
  also have "\<dots> \<le> length es" using card_image_le card_length le_trans by blast
  finally show ?thesis .
qed

section \<open>The hitter lineup\<close>

definition hitter_scored ::
  "(string \<Rightarrow> string) \<Rightarrow> player list \<Rightarrow> (string \<Rightarrow> bool) \<Rightarrow> projection source \<Rightarrow> weights \<Rightarrow>
   (string \<Rightarrow> bool) \<Rightarrow> scored_player list" where
  "hitter_scored nrm roster playingToday src w benchedToday =
     sort_slice scored_less (score_roster nrm roster playingToday src w benchedToday)"

definition hitter_plan ::
  "(string \<Rightarrow> string) \<Rightarrow> player list \<Rightarrow> (string \<Rightarrow> bool) \<Rightarrow> projection source \<Rightarrow> weights \<Rightarrow>
   slot list \<Rightarrow> (string \<Rightarrow> bool) \<Rightarrow> player_slot list" where
  "hitter_plan nrm roster playingToday src w slots benchedToday =
     full_assignment (hitter_scored nrm roster playingToday src w benchedToday)
       (hitter_scored nrm roster playingToday src w benchedToday)
       slots (current_assign roster) eligible_for_slot"

lemma optimize_lineup_moves:
  "or_ToActivate (optimize_lineup nrm roster pt src w slots bt) =
     changed_activate (current_assign roster) (hitter_plan nrm roster pt src w slots bt)"
  "or_ToBench (optimize_lineup nrm roster pt src w slots bt) =
     to_bench roster (assigned_in (hitter_plan nrm roster pt src w slots bt))"
  by (simp_all add: optimize_lineup_def hitter_plan_def hitter_scored_def Let_def)

lemma sp_Player_score [simp]: "sp_Player (score_player nrm pt src w bt p) = p"
  by (simp add: score_player_def)

lemma hitter_scored_player:
  "sp \<in> set (hitter_scored nrm roster pt src w bt) \<Longrightarrow> sp_Player sp \<in> set roster"
  by (auto simp: hitter_scored_def score_roster_def)

lemma hitter_scored_of:
  "p \<in> set roster \<Longrightarrow> score_player nrm pt src w bt p \<in> set (hitter_scored nrm roster pt src w bt)"
  by (auto simp: hitter_scored_def score_roster_def)

lemma hitter_scored_ids:
  "distinct (map p_ID roster) \<Longrightarrow>
   distinct (map (\<lambda>sp. p_ID (sp_Player sp)) (hitter_scored nrm roster pt src w bt))"
  by (simp add: hitter_scored_def score_roster_def o_def)

lemma hitter_plan_locked:
  assumes "p \<in> set roster" "p_Locked p" "current_assign roster (p_ID p) = Some s"
  shows "\<lparr>ps_PlayerID = p_ID p, ps_PosID = s\<rparr> \<in> set (hitter_plan nrm roster pt src w slots bt)"
  using full_assignment_locked [OF hitter_scored_of [OF assms(1)]] assms
  by (simp add: hitter_plan_def)

lemma hitter_plan_ids:
  "distinct (map p_ID roster) \<Longrightarrow>
   distinct (map ps_PlayerID (hitter_plan nrm roster pt src w slots bt))"
  unfolding hitter_plan_def
  by (rule plan_ids_distinct) (auto simp: hitter_scored_ids dest: hitter_scored_player)

lemma locked_never_moved_aux:
  assumes d: "distinct (map p_ID roster)" and p: "p \<in> set roster" "p_Locked p"
  shows "p_ID p \<notin> set (or_ToBench (optimize_lineup nrm roster pt src w slots bt)) \<and>
    p_ID p \<notin> ps_PlayerID ` set (or_ToActivate (optimize_lineup nrm roster pt src w slots bt))"
proof
  have inj: "q = p" if "q \<in> set roster" "p_ID q = p_ID p" for q
    using d p(1) that by (metis distinct_map inj_onD)
  show "p_ID p \<notin> set (or_ToBench (optimize_lineup nrm roster pt src w slots bt))"
    using inj p(2) by (auto simp: optimize_lineup_moves to_bench_def)
  show "p_ID p \<notin> ps_PlayerID ` set (or_ToActivate (optimize_lineup nrm roster pt src w slots bt))"
  proof
    assume "p_ID p \<in> ps_PlayerID ` set (or_ToActivate (optimize_lineup nrm roster pt src w slots bt))"
    then obtain ps where ps: "ps \<in> set (hitter_plan nrm roster pt src w slots bt)"
      "ps_PlayerID ps = p_ID p" "lookup_str (current_assign roster) (p_ID p) \<noteq> ps_PosID ps"
      by (auto simp: optimize_lineup_moves changed_activate_def)
    from full_assignment_cases [OF ps(1) [unfolded hitter_plan_def]] show False
    proof
      assume "\<exists>sp \<in> set (hitter_scored nrm roster pt src w bt). \<exists>s \<in> set slots.
          \<not> p_Locked (sp_Player sp) \<and> ps = place sp s \<and> eligible_for_slot (p_Positions (sp_Player sp)) s"
      then obtain sp s where sp: "sp \<in> set (hitter_scored nrm roster pt src w bt)"
        "\<not> p_Locked (sp_Player sp)" "ps = place sp s" by blast
      then have "sp_Player sp \<in> set roster" "ps_PlayerID ps = p_ID (sp_Player sp)"
        using hitter_scored_player [OF sp(1)] by (simp_all add: place_def)
      then show False using inj sp(2) ps(2) p(2) by metis
    qed (use ps in \<open>auto simp: lookup_str_def\<close>)
  qed
qed

text \<open>C4. Locked players are never touched. Fantrax refuses any move of a player whose game has
  begun; \<open>OptimizeLineup\<close> neither activates, nor moves, nor benches a locked player.\<close>

theorem locked_never_moved:
  assumes d: "distinct (map p_ID roster)" and p: "p \<in> set roster" "p_Locked p"
  shows "p_ID p \<notin> set (or_ToBench (optimize_lineup nrm roster pt src w slots bt)) \<and>
    p_ID p \<notin> ps_PlayerID ` set (or_ToActivate (optimize_lineup nrm roster pt src w slots bt))"
  using locked_never_moved_aux [OF assms] .

text \<open>C13. No slot is over-filled. When the locked players alone fit, then after the moves of
  \<open>OptimizeLineup\<close> are applied no position holds more active players than it has slots.\<close>

theorem lineup_within_capacity:
  assumes d: "distinct (map p_ID roster)" and x: "x \<noteq> []"
    and fit: "length (filter p_Locked (active_at roster x)) \<le> slot_capacity slots x"
  shows "length (active_at (map (apply_player
       (or_ToActivate (optimize_lineup nrm roster pt src w slots bt))
       (or_ToBench (optimize_lineup nrm roster pt src w slots bt))) roster) x) \<le> slot_capacity slots x"
proof -
  let ?plan = "hitter_plan nrm roster pt src w slots bt"
  let ?f = "apply_player (or_ToActivate (optimize_lineup nrm roster pt src w slots bt))
       (or_ToBench (optimize_lineup nrm roster pt src w slots bt))"
  have "\<exists>e \<in> set (filter (\<lambda>ps. ps_PosID ps = x) ?plan). ps_PlayerID e = p_ID q"
    if "q \<in> set (active_at (map ?f roster) x)" for q
  proof -
    have q: "q \<in> ?f ` set roster" "p_Status q = ''Active''" "p_RosterPosition q = x"
      using that by (auto simp: active_at_def)
    obtain p where p: "p \<in> set roster" "q = ?f p" using q(1) by blast
    have A: "assigned_in ?plan pid \<Longrightarrow> assigned_in ?plan pid \<or> False" for pid by simp
    from active_after [where keep = "\<lambda>_. False" and A = "assigned_in ?plan", OF d hitter_plan_locked p(1) x
        hitter_plan_ids [OF d] refl A q(2,3) [unfolded p(2) optimize_lineup_moves]]
    obtain e where "e \<in> set ?plan" "ps_PlayerID e = p_ID p" "ps_PosID e = x" by blast
    then show ?thesis by (auto simp only: p(2) apply_player_simps set_filter)
  qed
  moreover have "distinct (map p_ID (active_at (map ?f roster) x))"
    using d by (simp add: active_at_def filter_map o_def distinct_map_filter)
  ultimately have "length (active_at (map ?f roster) x) \<le> length (filter (\<lambda>ps. ps_PosID ps = x) ?plan)"
    by (intro count_by_id)
  also have "\<dots> \<le> slot_capacity slots x"
    unfolding hitter_plan_def
    by (rule full_assignment_capacity)
       (use fit consumed_locked_roster [OF d x, of "score_player nrm pt src w bt" roster] in
         \<open>simp add: hitter_scored_def consumed_locked_sort score_roster_def\<close>)
  finally show ?thesis .
qed

section \<open>Optimality\<close>

definition free_slots :: "scored_player list \<Rightarrow> slot list \<Rightarrow> assign \<Rightarrow> slot list" where
  "free_slots scored slots cur = take_available (consumed (locked_slots scored cur)) slots"

definition movable :: "scored_player list \<Rightarrow> scored_player list" where
  "movable scored = filter (\<lambda>sp. \<not> p_Locked (sp_Player sp)) scored"

text \<open>The points the code assumes: none negative, on a grid coarser than its tolerance.\<close>

definition good_points :: "real \<Rightarrow> scored_player list \<Rightarrow> bool" where
  "good_points q scored \<longleftrightarrow>
     eps < q \<and> (\<forall>sp \<in> set scored. 0 \<le> effective_pts sp \<and> on_grid q (effective_pts sp))"

lemma full_assignment_eq:
  "full_assignment scored cands slots cur elig =
     optimal_assignment (movable cands) (free_slots scored slots cur) cur elig @ locked_slots scored cur"
  by (simp add: full_assignment_def partition_locked_slots_def Let_def free_slots_def movable_def)

lemma good_points_movable:
  assumes "good_points q scored"
  shows "good_input q (movable (sort_slice scored_less scored))"
proof -
  have "sorted_wrt (\<ge>) (map effective_pts (sort_slice scored_less scored))"
    using assms by (intro sorted_effective) (auto simp: good_points_def)
  then have "sorted_wrt (\<ge>) (map effective_pts (movable (sort_slice scored_less scored)))"
    unfolding movable_def by (rule sorted_wrt_map_filter)
  then show ?thesis using assms by (auto simp: good_input_def good_points_def movable_def)
qed

text \<open>C1. The daily lineup is optimal. The moves of \<open>OptimizeLineup\<close> realise a filling of the
  slots the locked players leave free, by unlocked and eligible players, and no such filling
  has a higher total of effective points (non-negative points, on a grid).\<close>

theorem lineup_optimal:
  assumes "good_points q (score_roster nrm roster pt src w bt)"
  shows "\<exists>cs. let scored = hitter_scored nrm roster pt src w bt; cur = current_assign roster;
      free = free_slots scored slots cur
    in valid_filling (movable scored) eligible_for_slot free cs \<and>
       or_ToActivate (optimize_lineup nrm roster pt src w slots bt) =
         changed_activate cur (filled (movable scored) free cs @ locked_slots scored cur) \<and>
       (\<forall>cs'. valid_filling (movable scored) eligible_for_slot free cs' \<longrightarrow>
          filling_value (movable scored) cs' \<le> filling_value (movable scored) cs)"
  unfolding optimize_lineup_moves hitter_plan_def full_assignment_eq Let_def
  using optimal_assignment_optimal_aux [OF good_points_movable [OF assms]]
  unfolding hitter_scored_def by metis

section \<open>Convergence\<close>

definition moved :: "player_slot list \<Rightarrow> string list \<Rightarrow> scored_player \<Rightarrow> scored_player" where
  "moved acts bench sp = sp\<lparr>sp_Player := apply_player acts bench (sp_Player sp)\<rparr>"

lemma moved_simps [simp]:
  "sp_Player (moved acts bench sp) = apply_player acts bench (sp_Player sp)"
  "sp_HasGame (moved acts bench sp) = sp_HasGame sp"
  "sp_ExpectedPts (moved acts bench sp) = sp_ExpectedPts sp"
  "effective_pts (moved acts bench sp) = effective_pts sp"
  by (simp_all add: moved_def effective_pts_def)

lemma hitter_scored_moved:
  "hitter_scored nrm (map (apply_player acts bench) roster) pt src w bt =
   map (moved acts bench) (hitter_scored nrm roster pt src w bt)"
proof -
  have "score_player nrm pt src w bt (apply_player acts bench p) = moved acts bench (score_player nrm pt src w bt p)" for p
    by (simp add: score_player_def moved_def)
  then have "score_roster nrm (map (apply_player acts bench) roster) pt src w bt =
      map (moved acts bench) (score_roster nrm roster pt src w bt)"
    by (simp add: score_roster_def)
  moreover have "scored_less (moved acts bench a) (moved acts bench b) = scored_less a b" for a b
    by (simp add: scored_less_def)
  ultimately show ?thesis by (simp add: hitter_scored_def sort_slice_map)
qed

lemma movable_moved: "movable (map (moved acts bench) scored) = map (moved acts bench) (movable scored)"
  by (simp add: movable_def filter_map o_def)

text \<open>Where a player of the plan stands once the moves are applied.\<close>

lemma plan_applied:
  assumes d: "distinct (map p_ID roster)" and p: "p \<in> set roster" "p_ID p = ps_PlayerID ps"
    and ps: "ps \<in> set plan" "ps_PosID ps \<noteq> []" and uniq: "distinct (map ps_PlayerID plan)"
  shows "current_assign (map (apply_player (changed_activate (current_assign roster) plan)
      (to_bench roster (assigned_in plan))) roster) (ps_PlayerID ps) = Some (ps_PosID ps)"
proof -
  let ?acts = "changed_activate (current_assign roster) plan"
  let ?bench = "to_bench roster (assigned_in plan)"
  let ?F = "apply_player ?acts ?bench"
  have d': "distinct (map p_ID (map ?F roster))" using d by (simp add: o_def)
  have "p_Status (?F p) = ''Active'' \<and> p_RosterPosition (?F p) = ps_PosID ps"
  proof (cases "lookup_str (current_assign roster) (ps_PlayerID ps) = ps_PosID ps")
    case True
    have "e = ps" if "e \<in> set plan" "ps_PlayerID e = ps_PlayerID ps" for e
      using uniq ps(1) that by (metis distinct_map inj_onD)
    then have "p_ID p \<notin> ps_PlayerID ` set ?acts"
      using True p(2) by (force simp: changed_activate_def)
    then have none: "map_of (map (\<lambda>ps. (ps_PlayerID ps, ps_PosID ps)) ?acts) (p_ID p) = None"
      by (auto simp: map_of_eq_None_iff)
    have "current_assign roster (p_ID p) = Some (ps_PosID ps)"
      using True ps(2) p(2) by (auto simp: lookup_str_def split: option.splits)
    then have "p_Status p = ''Active''" "p_RosterPosition p = ps_PosID ps"
      using current_assign_Some [OF d p(1)] by (auto split: if_splits)
    moreover have "p_ID p \<notin> set ?bench"
      using imageI [OF ps(1), of ps_PlayerID] p(2) by (auto simp: to_bench_def assigned_in_def)
    ultimately show ?thesis using none by (simp add: apply_player_def)
  next
    case False
    then have "ps \<in> set ?acts" using ps(1) by (simp add: changed_activate_def)
    moreover have "distinct (map ps_PlayerID ?acts)"
      using uniq by (simp add: changed_activate_def distinct_map_filter)
    ultimately have "map_of (map (\<lambda>ps. (ps_PlayerID ps, ps_PosID ps)) ?acts) (p_ID p) = Some (ps_PosID ps)"
      unfolding p(2) by (intro map_of_is_SomeI) (auto simp: o_def)
    then show ?thesis by (simp add: apply_player_def)
  qed
  then show ?thesis
    using current_assign_Some [OF d', of "?F p"] p ps(2) by simp
qed

text \<open>The locked players' entries are the same before and after.\<close>

lemma locked_slots_moved:
  assumes d: "distinct (map p_ID roster)"
    and l: "\<And>p. p \<in> set roster \<Longrightarrow> p_Locked p \<Longrightarrow> apply_player acts bench p = p"
    and sc: "\<And>sp. sp \<in> set scored \<Longrightarrow> sp_Player sp \<in> set roster"
  shows "locked_slots (map (moved acts bench) scored) (current_assign (map (apply_player acts bench) roster))
       = locked_slots scored (current_assign roster)"
proof -
  let ?cur' = "current_assign (map (apply_player acts bench) roster)"
  have d': "distinct (map p_ID (map (apply_player acts bench) roster))" using d by (simp add: o_def)
  have "?cur' (p_ID (sp_Player sp)) = current_assign roster (p_ID (sp_Player sp))"
    if "sp \<in> set scored" "p_Locked (sp_Player sp)" for sp
  proof -
    let ?p = "sp_Player sp"
    have p: "?p \<in> set roster" "apply_player acts bench ?p = ?p" using that sc l by auto
    then have "?p \<in> set (map (apply_player acts bench) roster)" by (metis image_eqI set_map)
    from current_assign_Some [OF d' this] current_assign_Some [OF d p(1)] show ?thesis by simp
  qed
  then show ?thesis using sc
    by (induction scored) (auto simp: locked_slots_def List.map_filter_simps split: option.split)
qed

lemma changed_activate_Nil:
  "\<forall>ps \<in> set xs. lookup_str cur (ps_PlayerID ps) = ps_PosID ps \<Longrightarrow> changed_activate cur xs = []"
  by (simp add: changed_activate_def)

text \<open>The lineup converges. Run \<open>OptimizeLineup\<close>, apply its moves, and run it again on the
  same games and projections: the second run activates nobody and moves nobody between slots.
  (Player and slot IDs are not empty, players' IDs differ, points are as the code assumes.)\<close>

theorem lineup_converges:
  assumes d: "distinct (map p_ID roster)" and ids: "\<forall>p \<in> set roster. p_ID p \<noteq> []"
    and sl: "\<forall>s \<in> set slots. sl_PosID s \<noteq> []"
    and good: "good_points q (score_roster nrm roster pt src w bt)"
  shows "let r = optimize_lineup nrm roster pt src w slots bt;
      roster' = map (apply_player (or_ToActivate r) (or_ToBench r)) roster
    in or_ToActivate (optimize_lineup nrm roster' pt src w slots bt) = []"
proof -
  let ?plan = "hitter_plan nrm roster pt src w slots bt"
  let ?acts = "changed_activate (current_assign roster) ?plan"
  let ?bench = "to_bench roster (assigned_in ?plan)"
  let ?roster' = "map (apply_player ?acts ?bench) roster"
  let ?sc = "hitter_scored nrm roster pt src w bt"
  let ?cur' = "current_assign ?roster'"
  let ?free = "free_slots ?sc slots (current_assign roster)"
  have fix_locked: "apply_player ?acts ?bench p = p" if "p \<in> set roster" "p_Locked p" for p
  proof -
    have "p_ID p \<notin> set ?bench" "p_ID p \<notin> ps_PlayerID ` set ?acts"
      using locked_never_moved_aux [OF d that] by (auto simp: optimize_lineup_moves)
    then show ?thesis by (auto simp: apply_player_def split: option.split dest!: map_of_SomeD)
  qed
  have locked: "locked_slots (map (moved ?acts ?bench) ?sc) ?cur' = locked_slots ?sc (current_assign roster)"
    by (rule locked_slots_moved [OF d fix_locked hitter_scored_player])
  have plan': "hitter_plan nrm ?roster' pt src w slots bt =
      optimal_assignment (movable ?sc) ?free ?cur' eligible_for_slot @ locked_slots ?sc (current_assign roster)"
    by (simp only: hitter_plan_def [of nrm "?roster'"] hitter_scored_moved full_assignment_eq free_slots_def
        locked movable_moved)
       (simp add: optimal_assignment_cong)
  have stands: "lookup_str ?cur' (ps_PlayerID ps) = ps_PosID ps" if ps: "ps \<in> set ?plan" for ps
  proof -
    have "(\<exists>p \<in> set roster. p_ID p = ps_PlayerID ps) \<and> ps_PosID ps \<noteq> []"
      using full_assignment_cases [OF ps [unfolded hitter_plan_def]]
    proof
      assume "\<exists>sp \<in> set ?sc. \<exists>s \<in> set slots. \<not> p_Locked (sp_Player sp) \<and> ps = place sp s \<and>
        eligible_for_slot (p_Positions (sp_Player sp)) s"
      then show ?thesis using sl by (auto simp: place_def dest!: hitter_scored_player)
    next
      assume "\<exists>sp \<in> set ?sc. p_Locked (sp_Player sp) \<and> ps_PlayerID ps = p_ID (sp_Player sp) \<and>
        current_assign roster (ps_PlayerID ps) = Some (ps_PosID ps)"
      then show ?thesis using current_assign_dom [OF d] by metis
    qed
    then obtain p where "p \<in> set roster" "p_ID p = ps_PlayerID ps" "ps_PosID ps \<noteq> []" by blast
    from plan_applied [OF d this(1,2) ps this(3) hitter_plan_ids [OF d]]
    show ?thesis by (simp add: lookup_str_def)
  qed
  have "\<forall>ps \<in> set (optimal_assignment (movable ?sc) ?free ?cur' eligible_for_slot).
      lookup_str ?cur' (ps_PlayerID ps) = ps_PosID ps"
  proof (rule optimal_assignment_stable_aux)
    show "good_input q (movable ?sc)"
      unfolding hitter_scored_def by (rule good_points_movable [OF good])
    show "\<forall>sp \<in> set (movable ?sc). p_ID (sp_Player sp) \<noteq> []"
      using ids by (auto simp: movable_def dest!: hitter_scored_player)
    show "\<forall>ps \<in> set (optimal_assignment (movable ?sc) ?free (current_assign roster) eligible_for_slot).
        lookup_str ?cur' (ps_PlayerID ps) = ps_PosID ps"
      using stands by (auto simp: hitter_plan_def full_assignment_eq)
  qed
  moreover have "\<forall>ps \<in> set (locked_slots ?sc (current_assign roster)). lookup_str ?cur' (ps_PlayerID ps) = ps_PosID ps"
    using stands by (auto simp: hitter_plan_def full_assignment_eq)
  ultimately show ?thesis
    unfolding Let_def optimize_lineup_moves
    unfolding plan' by (intro changed_activate_Nil) auto
qed

section \<open>Witnesses\<close>

text \<open>
  A locked outfielder, an active shortstop and a better one on the bench; one SS and one OF slot.
\<close>

definition demo_roster :: "player list" where
  "demo_roster =
     [(demo_player ''a'' [pos_OF])\<lparr>p_Status := ''Active'', p_RosterPosition := pos_OF, p_Locked := True\<rparr>,
      (demo_player ''b'' [pos_SS])\<lparr>p_Status := ''Active'', p_RosterPosition := pos_SS\<rparr>,
      demo_player ''c'' [pos_SS, pos_OF]]"

definition demo_source :: "projection source" where
  "demo_source = \<lparr>src_projection = (\<lambda>_ _. None),
     src_pts_per_game = Some (\<lambda>name _ _. Some (if name = ''a'' then 2 else if name = ''b'' then 3 else 5))\<rparr>"

abbreviation demo_run :: "player list \<Rightarrow> opt_result" where
  "demo_run roster \<equiv> optimize_lineup (\<lambda>s. s) roster (\<lambda>_. True) demo_source Map.empty demo_slots (\<lambda>_. False)"

lemma demo_run_result:
  "or_ToActivate (demo_run demo_roster) = [\<lparr>ps_PlayerID = ''c'', ps_PosID = pos_SS\<rparr>] \<and>
   or_ToBench (demo_run demo_roster) = [''b'']"
  by code_simp

lemma demo_roster_ids: "distinct (map p_ID demo_roster)"
  by (simp add: demo_roster_def demo_player_def)

lemma demo_roster_good: "good_points 1 (score_roster (\<lambda>s. s) demo_roster (\<lambda>_. True) demo_source Map.empty (\<lambda>_. False))"
  by (auto simp: good_points_def eps_def score_roster_def score_player_def demo_roster_def demo_source_def
        points_per_game_def optional_pts_def effective_pts_def demo_player_def on_grid_def
        intro: exI [of _ 2] exI [of _ 3] exI [of _ 5])

theorem locked_never_moved_witness:
  "''a'' \<notin> set (or_ToBench (demo_run demo_roster)) \<and>
   ''a'' \<notin> ps_PlayerID ` set (or_ToActivate (demo_run demo_roster))"
  using locked_never_moved [OF demo_roster_ids,
      of "(demo_player ''a'' [pos_OF])\<lparr>p_Status := ''Active'', p_RosterPosition := pos_OF, p_Locked := True\<rparr>"]
  by (simp add: demo_roster_def demo_player_def)

theorem lineup_within_capacity_witness:
  "length (active_at (map (apply_player (or_ToActivate (demo_run demo_roster))
     (or_ToBench (demo_run demo_roster))) demo_roster) pos_OF) \<le> 1"
  using lineup_within_capacity [OF demo_roster_ids, of pos_OF demo_slots "\<lambda>s. s" "\<lambda>_. True" demo_source
      Map.empty "\<lambda>_. False"]
  by (simp add: demo_roster_def demo_player_def active_at_def slot_capacity_def demo_slots_def)

theorem lineup_optimal_witness:
  "\<exists>cs. or_ToActivate (demo_run demo_roster) =
     changed_activate (current_assign demo_roster)
      (filled (movable (hitter_scored (\<lambda>s. s) demo_roster (\<lambda>_. True) demo_source Map.empty (\<lambda>_. False)))
        (free_slots (hitter_scored (\<lambda>s. s) demo_roster (\<lambda>_. True) demo_source Map.empty (\<lambda>_. False))
           demo_slots (current_assign demo_roster)) cs @
       locked_slots (hitter_scored (\<lambda>s. s) demo_roster (\<lambda>_. True) demo_source Map.empty (\<lambda>_. False))
         (current_assign demo_roster))"
  using lineup_optimal [OF demo_roster_good, of demo_slots] unfolding Let_def by blast

theorem lineup_converges_witness:
  "or_ToActivate (demo_run (map (apply_player (or_ToActivate (demo_run demo_roster))
     (or_ToBench (demo_run demo_roster))) demo_roster)) = []"
proof -
  have "\<forall>p \<in> set demo_roster. p_ID p \<noteq> []" by (simp add: demo_roster_def demo_player_def)
  moreover have "\<forall>s \<in> set demo_slots. sl_PosID s \<noteq> []" by (simp add: demo_slots_def)
  ultimately show ?thesis
    using lineup_converges [OF demo_roster_ids _ _ demo_roster_good, of demo_slots] by (simp add: Let_def)
qed

end
