(* ===== verification/GS_Gate.thy ===== *)
theory GS_Gate
  imports Lineup_Optimizer
begin

text \<open>
  The weekly game-start budget: \<open>internal/optimizer/gs_budget.go\<close>. A \<open>*GSBudget\<close> that may
  be \<open>nil\<close> is an option. \<open>applyGSGate\<close> ranks today's starts against the rest of the week,
  keeps the first \<open>remaining\<close>, tops the kept ones up to the floor, and suppresses the rest
  by clearing \<open>IsStarter\<close>. Go's maps \<open>keepToday\<close> and \<open>protected\<close> from indices to
  \<open>bool\<close> are lists of indices. Float arithmetic is exact.
\<close>

record scored_pitcher =
  sc_Player :: player
  sc_ExpectedPts :: real
  sc_HasGame :: bool
  sc_IsStarter :: bool

record day_forecast =
  df_Date :: go_time
  df_ConfirmedStarters :: "real list"
  df_Estimated :: real

record gs_budget =
  gb_Limit :: int
  gb_Floor :: int
  gb_Used :: int
  gb_Today :: go_time
  gb_WeekEnd :: go_time
  gb_Forecast :: "day_forecast list"
  gb_TodayUnsettled :: int

record suppressed_start =
  ss_PlayerID :: string
  ss_Name :: string
  ss_ProjectedPts :: real

record gate_report =
  gr_Suppressed :: "suppressed_start list"
  gr_Protected :: "suppressed_start list"
  gr_Limit :: int
  gr_Used :: int
  gr_Remaining :: int
  gr_Floor :: int
  gr_FloorNeed :: int

definition suppressed_pts :: "gate_report \<Rightarrow> real" where
  "suppressed_pts r = foldl (\<lambda>tot s. tot + ss_ProjectedPts s) 0 (gr_Suppressed r)"

definition protected_pts :: "gate_report \<Rightarrow> real" where
  "protected_pts r = foldl (\<lambda>tot s. tot + ss_ProjectedPts s) 0 (gr_Protected r)"

definition max_int32 :: int where
  "max_int32 = 2147483647"

definition remaining_gs :: "gs_budget option \<Rightarrow> int" where
  "remaining_gs b = (case b of None \<Rightarrow> max_int32
     | Some b \<Rightarrow> if gb_Limit b = 0 then max_int32
                 else (let r = gb_Limit b - gb_Used b in if r < 0 then 0 else r))"

definition need_for_floor :: "gs_budget option \<Rightarrow> int" where
  "need_for_floor b = (case b of None \<Rightarrow> 0
     | Some b \<Rightarrow> if gb_Floor b = 0 then 0
                 else (let need = gb_Floor b - gb_Used b in if need < 0 then 0 else need))"

definition future_days :: "gs_budget \<Rightarrow> day_forecast list" where
  "future_days b = filter (\<lambda>f. df_Date f > gb_Today b) (gb_Forecast b)"

definition future_demand :: "gs_budget option \<Rightarrow> real" where
  "future_demand b = (case b of None \<Rightarrow> 0
     | Some b \<Rightarrow> foldl (\<lambda>tot f. tot + (real (length (df_ConfirmedStarters f)) + df_Estimated f)) 0
                  (future_days b))"

section \<open>The gate\<close>

definition gate_eps :: real where
  "gate_eps = 1 / 1000000000"

definition certainty_margin :: real where
  "certainty_margin = 0.10"

record rank_entry =
  re_pts :: real
  re_isToday :: bool
  re_isEstimated :: bool
  re_todayRef :: int
  re_tiebreak :: string

definition start_of :: "scored_pitcher \<Rightarrow> suppressed_start" where
  "start_of sp = \<lparr>ss_PlayerID = p_ID (sc_Player sp), ss_Name = p_Name (sc_Player sp),
     ss_ProjectedPts = sc_ExpectedPts sp\<rparr>"

definition open_starter :: "scored_pitcher \<Rightarrow> bool" where
  "open_starter sp \<longleftrightarrow> sc_IsStarter sp \<and> \<not> p_Locked (sc_Player sp)"

definition clear_starter :: "scored_pitcher \<Rightarrow> scored_pitcher" where
  "clear_starter sp = sp\<lparr>sc_IsStarter := False\<rparr>"

text \<open>\<open>todayStarters\<close>: index into \<open>scored\<close> and points.\<close>

definition today_starters :: "scored_pitcher list \<Rightarrow> (nat \<times> real) list" where
  "today_starters scored =
     map (\<lambda>(i, sp). (i, sc_ExpectedPts sp)) (filter (\<lambda>(_, sp). open_starter sp) (enumerate 0 scored))"

definition placeholder_pts :: "scored_pitcher list \<Rightarrow> real" where
  "placeholder_pts scored =
     (let vals = map sc_ExpectedPts (filter (\<lambda>sp.
            str_contains (p_PosShortNames (sc_Player sp)) ''SP'' \<and> \<not> sc_ExpectedPts sp \<le> 0) scored)
      in if length vals > 0 then foldl (+) 0 vals / real (length vals) else 0)"

text \<open>The weights of the estimated starts: \<open>n\<close> iterations from \<open>remainingFrac\<close>.\<close>

fun est_weights :: "nat \<Rightarrow> real \<Rightarrow> real list" where
  "est_weights 0 rest = []"
| "est_weights (Suc n) rest = (if rest < 1 then rest else 1) # est_weights n (rest - 1)"

definition future_confirmed :: "gs_budget \<Rightarrow> real list" where
  "future_confirmed b = concat (map df_ConfirmedStarters (future_days b))"

definition future_estimated :: "gs_budget \<Rightarrow> real" where
  "future_estimated b = foldl (\<lambda>e f. e + df_Estimated f) 0 (future_days b)"

definition today_entry :: "scored_pitcher list \<Rightarrow> nat \<times> (nat \<times> real) \<Rightarrow> rank_entry" where
  "today_entry scored = (\<lambda>(i, (idx, pts)).
     \<lparr>re_pts = pts, re_isToday = True, re_isEstimated = False, re_todayRef = int i,
      re_tiebreak = p_ID (sc_Player (scored ! idx))\<rparr>)"

definition rank_entries :: "scored_pitcher list \<Rightarrow> gs_budget \<Rightarrow> rank_entry list" where
  "rank_entries scored b =
     map (today_entry scored) (enumerate 0 (today_starters scored))
     @ map (\<lambda>p. \<lparr>re_pts = p, re_isToday = False, re_isEstimated = False, re_todayRef = - 1,
                re_tiebreak = []\<rparr>) (future_confirmed b)
     @ map (\<lambda>w. \<lparr>re_pts = placeholder_pts scored * w, re_isToday = False, re_isEstimated = True,
                re_todayRef = - 1, re_tiebreak = []\<rparr>)
         (est_weights (nat \<lceil>future_estimated b\<rceil>) (future_estimated b))"

definition rank_less :: "rank_entry \<Rightarrow> rank_entry \<Rightarrow> bool" where
  "rank_less ei ej =
     (if re_isToday ei \<noteq> re_isToday ej \<and> (re_isEstimated ei \<or> re_isEstimated ej) then
        (let todayIsI = re_isToday ei;
             todayPts = (if todayIsI then re_pts ei else re_pts ej);
             futurePts = (if todayIsI then re_pts ej else re_pts ei)
         in if futurePts > todayPts * (1 + certainty_margin) + gate_eps then \<not> todayIsI else todayIsI)
      else if \<bar>re_pts ei - re_pts ej\<bar> > gate_eps then re_pts ei > re_pts ej
      else if re_isToday ei \<noteq> re_isToday ej then re_isToday ei
      else re_tiebreak ei < re_tiebreak ej)"

definition cut_today :: "int \<Rightarrow> rank_entry list \<Rightarrow> int list" where
  "cut_today remaining entries = map re_todayRef (filter re_isToday (take (nat remaining) entries))"

definition floor_reserve :: "int \<Rightarrow> int \<Rightarrow> nat \<Rightarrow> nat \<Rightarrow> int" where
  "floor_reserve floorNeed remaining confirmed today =
     (let r0 = floorNeed - int confirmed;
          r1 = (if r0 > int today then int today else r0)
      in if r1 > remaining then remaining else r1)"

fun top_up :: "int \<Rightarrow> rank_entry list \<Rightarrow> int list \<Rightarrow> int list \<Rightarrow> int list \<times> int list" where
  "top_up reserve [] keep prot = (keep, prot)"
| "top_up reserve (e # es) keep prot =
     (if \<not> int (length keep) < reserve then (keep, prot)
      else if \<not> re_isToday e \<or> re_todayRef e \<in> set keep then top_up reserve es keep prot
      else top_up reserve es (re_todayRef e # keep) (prot @ [re_todayRef e]))"

definition floor_top_up ::
  "int \<Rightarrow> int \<Rightarrow> nat \<Rightarrow> nat \<Rightarrow> rank_entry list \<Rightarrow> int list \<times> int list" where
  "floor_top_up floorNeed remaining confirmed today entries =
     (let keep = cut_today remaining entries in
      if floorNeed > 0
      then top_up (floor_reserve floorNeed remaining confirmed today) entries keep []
      else (keep, []))"

text \<open>The last loop: over \<open>todayStarters\<close> with their positions, with the report's two lists.\<close>

fun settle ::
  "int list \<Rightarrow> int list \<Rightarrow> (nat \<times> (nat \<times> real)) list \<Rightarrow>
   scored_pitcher list \<times> suppressed_start list \<times> suppressed_start list \<Rightarrow>
   scored_pitcher list \<times> suppressed_start list \<times> suppressed_start list" where
  "settle keep prot [] st = st"
| "settle keep prot ((i, (idx, pts)) # ts) (scored, supp, protd) =
     (let protd' = (if int i \<in> set prot then protd @ [start_of (scored ! idx)] else protd)
      in if int i \<notin> set keep
         then settle keep prot ts
                (scored[idx := clear_starter (scored ! idx)], supp @ [start_of (scored ! idx)], protd')
         else settle keep prot ts (scored, supp, protd'))"

definition empty_report :: gate_report where
  "empty_report = \<lparr>gr_Suppressed = [], gr_Protected = [], gr_Limit = 0, gr_Used = 0,
     gr_Remaining = 0, gr_Floor = 0, gr_FloorNeed = 0\<rparr>"

definition budget_report :: "gs_budget \<Rightarrow> gate_report" where
  "budget_report b = \<lparr>gr_Suppressed = [], gr_Protected = [], gr_Limit = gb_Limit b,
     gr_Used = gb_Used b, gr_Remaining = remaining_gs (Some b), gr_Floor = gb_Floor b,
     gr_FloorNeed = need_for_floor (Some b)\<rparr>"

definition apply_gs_gate ::
  "scored_pitcher list \<Rightarrow> gs_budget option \<Rightarrow> scored_pitcher list \<times> gate_report" where
  "apply_gs_gate scored budget =
     (case budget of None \<Rightarrow> (scored, empty_report)
      | Some b \<Rightarrow>
         if gb_Limit b = 0 then (scored, empty_report)
         else
           (let remaining = remaining_gs (Some b);
                floorNeed = need_for_floor (Some b);
                today = today_starters scored;
                totalPlanned = real (length today + length (future_confirmed b)) + future_estimated b
            in if remaining \<le> 0 then
                 (map (\<lambda>sp. if p_Locked (sc_Player sp) then sp else clear_starter sp) scored,
                  (budget_report b)\<lparr>gr_Suppressed := map start_of (filter open_starter scored)\<rparr>)
               else if today = [] then (scored, budget_report b)
               else if real_of_int remaining + gate_eps \<ge> totalPlanned then (scored, budget_report b)
               else
                 (let entries = sort_slice rank_less (rank_entries scored b);
                      (keep, prot) = floor_top_up floorNeed remaining
                         (length (future_confirmed b)) (length today) entries;
                      (scored', supp, protd) = settle keep prot (enumerate 0 today) (scored, [], [])
                  in (scored', (budget_report b)\<lparr>gr_Suppressed := supp, gr_Protected := protd\<rparr>))))"

section \<open>What the last loop does\<close>

lemma clear_starter_simps [simp]:
  "sc_Player (clear_starter sp) = sc_Player sp" "sc_ExpectedPts (clear_starter sp) = sc_ExpectedPts sp"
  "sc_HasGame (clear_starter sp) = sc_HasGame sp" "\<not> sc_IsStarter (clear_starter sp)"
  "start_of (clear_starter sp) = start_of sp" "clear_starter (clear_starter sp) = clear_starter sp"
  by (simp_all add: clear_starter_def start_of_def)

lemma start_of_update [simp]:
  "idx < length scored \<Longrightarrow> start_of (scored[idx := clear_starter (scored ! idx)] ! j) = start_of (scored ! j)"
  by (cases "idx = j") auto

lemma settle_lists:
  assumes "\<forall>(i, idx, p) \<in> set ts. idx < length scored"
  shows "snd (settle keep prot ts (scored, supp, protd)) =
     (supp @ map (\<lambda>(i, idx, p). start_of (scored ! idx)) (filter (\<lambda>(i, idx, p). int i \<notin> set keep) ts),
      protd @ map (\<lambda>(i, idx, p). start_of (scored ! idx)) (filter (\<lambda>(i, idx, p). int i \<in> set prot) ts))"
  using assms
proof (induction ts arbitrary: scored supp protd)
  case (Cons t ts)
  obtain i idx p where t: "t = (i, idx, p)" by (cases t)
  have b: "idx < length scored" using Cons.prems t by simp
  have eq: "map (\<lambda>(i, idx, p). start_of (scored[idx' := clear_starter (scored ! idx')] ! idx)) xs =
        map (\<lambda>(i, idx, p). start_of (scored ! idx)) xs" if "idx' < length scored" for xs :: "(nat \<times> nat \<times> real) list" and idx'
    using that by (auto simp: case_prod_beta')
  show ?case
    using Cons.prems b
    by (cases "int i \<in> set keep"; cases "int i \<in> set prot") (simp_all add: t Cons.IH eq Let_def)
qed simp

lemma settle_length [simp]: "length (fst (settle keep prot ts (scored, supp, protd))) = length scored"
  by (induction ts arbitrary: scored supp protd) (auto simp: Let_def)

lemma settle_nth:
  assumes "j < length scored"
  shows "fst (settle keep prot ts (scored, supp, protd)) ! j =
     (if \<exists>(i, idx, p) \<in> set ts. idx = j \<and> int i \<notin> set keep then clear_starter (scored ! j) else scored ! j)"
  using assms
proof (induction ts arbitrary: scored supp protd)
  case (Cons t ts)
  obtain i idx p where t: "t = (i, idx, p)" by (cases t)
  show ?case
    using Cons.prems
    by (cases "int i \<in> set keep"; cases "idx = j") (auto simp: t Cons.IH Let_def nth_list_update)
qed simp

section \<open>Today's starters\<close>

definition starter_idx :: "scored_pitcher list \<Rightarrow> nat list" where
  "starter_idx scored = filter (\<lambda>j. open_starter (scored ! j)) [0..<length scored]"

lemma today_starters_eq:
  "today_starters scored = map (\<lambda>j. (j, sc_ExpectedPts (scored ! j))) (starter_idx scored)"
proof -
  have "enumerate 0 scored = map (\<lambda>j. (j, scored ! j)) [0..<length scored]"
    by (rule nth_equalityI) (simp_all add: nth_enumerate_eq)
  then show ?thesis
    by (simp add: today_starters_def starter_idx_def filter_map o_def)
qed

lemma length_today [simp]: "length (today_starters scored) = length (starter_idx scored)"
  by (simp add: today_starters_eq)

lemma length_starter_idx: "length (starter_idx scored) = length (filter open_starter scored)"
proof -
  have "length (filter open_starter scored) = card {j. j < length scored \<and> open_starter (scored ! j)}"
    by (rule length_filter_conv_card)
  also have "{j. j < length scored \<and> open_starter (scored ! j)} = set (starter_idx scored)"
    by (auto simp: starter_idx_def)
  also have "card \<dots> = length (starter_idx scored)"
    by (rule distinct_card) (simp add: starter_idx_def)
  finally show ?thesis by simp
qed

lemma starter_idx_nth:
  "i < length (starter_idx scored) \<Longrightarrow>
   starter_idx scored ! i < length scored \<and> open_starter (scored ! (starter_idx scored ! i))"
  using nth_mem [of i "starter_idx scored"] by (auto simp: starter_idx_def simp del: nth_mem)

lemma enumerate_today:
  "(i, idx, p) \<in> set (enumerate 0 (today_starters scored)) \<longleftrightarrow>
   i < length (starter_idx scored) \<and> idx = starter_idx scored ! i \<and> p = sc_ExpectedPts (scored ! idx)"
  by (auto simp: in_set_enumerate_eq today_starters_eq)

text \<open>Clearing the starters that are not kept, by index.\<close>

lemma settle_today:
  assumes "j < length scored"
  shows "fst (settle keep prot (enumerate 0 (today_starters scored)) (scored, [], [])) ! j =
    (if \<exists>i < length (starter_idx scored). starter_idx scored ! i = j \<and> int i \<notin> set keep
     then clear_starter (scored ! j) else scored ! j)"
  using settle_nth [OF assms, of keep prot "enumerate 0 (today_starters scored)" "[]" "[]"]
  by (force simp: enumerate_today split: if_splits)

lemma kept_count:
  assumes "distinct keep" and "set keep \<subseteq> int ` {..< length (starter_idx scored)}"
  shows "length (filter open_starter
      (fst (settle keep prot (enumerate 0 (today_starters scored)) (scored, [], [])))) = length keep"
proof -
  let ?s = "fst (settle keep prot (enumerate 0 (today_starters scored)) (scored, [], []))"
  let ?I = "starter_idx scored"
  have d: "distinct ?I" by (simp add: starter_idx_def)
  have "length (filter open_starter ?s) = card {j. j < length scored \<and> open_starter (?s ! j)}"
    by (simp add: length_filter_conv_card)
  also have "{j. j < length scored \<and> open_starter (?s ! j)} = (\<lambda>k. ?I ! nat k) ` set keep"
  proof (intro equalityI subsetI)
    fix j assume j: "j \<in> {j. j < length scored \<and> open_starter (?s ! j)}"
    then have o: "open_starter (scored ! j)"
      by (auto simp: settle_today open_starter_def split: if_splits)
    then have "j \<in> set ?I" using j by (simp add: starter_idx_def)
    then obtain i where i: "i < length ?I" "?I ! i = j" by (auto simp: in_set_conv_nth)
    then have "int i \<in> set keep" using j by (auto simp: settle_today open_starter_def split: if_splits)
    then show "j \<in> (\<lambda>k. ?I ! nat k) ` set keep" using i(2) by (metis image_eqI nat_int)
  next
    fix j assume "j \<in> (\<lambda>k. ?I ! nat k) ` set keep"
    then obtain i where i: "i < length ?I" "int i \<in> set keep" "j = ?I ! i" using assms(2) by auto
    have "\<not> (\<exists>i' < length ?I. ?I ! i' = j \<and> int i' \<notin> set keep)"
      using d i by (auto simp: nth_eq_iff_index_eq)
    then show "j \<in> {j. j < length scored \<and> open_starter (?s ! j)}"
      using starter_idx_nth [OF i(1)] unfolding i(3) by (simp only: mem_Collect_eq settle_today if_False)
  qed
  also have "card \<dots> = card (set keep)"
  proof (rule card_image)
    show "inj_on (\<lambda>k. ?I ! nat k) (set keep)"
    proof (rule inj_onI)
      fix x y assume xy: "x \<in> set keep" "y \<in> set keep" "?I ! nat x = ?I ! nat y"
      then obtain a b where "x = int a" "y = int b" "a < length ?I" "b < length ?I"
        using assms(2) by (meson imageE lessThan_iff subsetD)
      then show "x = y" using xy(3) d by (simp add: nth_eq_iff_index_eq)
    qed
  qed
  also have "\<dots> = length keep" using assms(1) by (rule distinct_card)
  finally show ?thesis .
qed

section \<open>The cut and the floor\<close>

definition today_refs :: "rank_entry list \<Rightarrow> int list" where
  "today_refs es = map re_todayRef (filter re_isToday es)"

lemma today_refs_entries:
  "today_refs (rank_entries scored b) = map int [0..<length (starter_idx scored)]"
proof -
  have "map (\<lambda>x. int (fst x)) (enumerate 0 (today_starters scored)) =
      map int (map fst (enumerate 0 (today_starters scored)))" by (simp only: map_map o_def)
  then show ?thesis
    by (simp add: today_refs_def rank_entries_def today_entry_def filter_map o_def case_prod_beta')
qed

lemma today_refs_sorted:
  assumes "es = sort_slice rank_less (rank_entries scored b)"
  shows "distinct (today_refs es)" "set (today_refs es) = int ` {..< length (starter_idx scored)}"
proof -
  have m: "mset (today_refs es) = mset (map int [0..<length (starter_idx scored)])"
    unfolding today_refs_entries [of scored b, symmetric] today_refs_def assms by simp
  show "distinct (today_refs es)"
    using mset_eq_imp_distinct_iff [OF m] by (simp add: distinct_map)
  show "set (today_refs es) = int ` {..< length (starter_idx scored)}"
    using mset_eq_setD [OF m] by (simp add: lessThan_atLeast0)
qed

lemma cut_today_refs: "cut_today n es = today_refs (take (nat n) es)"
  by (simp add: cut_today_def today_refs_def)

lemma today_refs_append [simp]: "today_refs (xs @ ys) = today_refs xs @ today_refs ys"
  by (simp add: today_refs_def)

lemma today_refs_Cons [simp]:
  "today_refs (e # es) = (if re_isToday e then re_todayRef e # today_refs es else today_refs es)"
  by (simp add: today_refs_def)

lemma today_refs_Nil [simp]: "today_refs [] = []"
  by (simp add: today_refs_def)

lemma cut_today_bound: "length (cut_today n es) \<le> nat n"
  unfolding cut_today_def by (metis length_filter_le length_map length_take min.boundedE order_trans)

lemma cut_today_sub:
  "set (cut_today n es) \<subseteq> set (today_refs es)" "distinct (today_refs es) \<Longrightarrow> distinct (cut_today n es)"
proof -
  have eq: "today_refs es = today_refs (take (nat n) es) @ today_refs (drop (nat n) es)"
    by (metis append_take_drop_id today_refs_append)
  show "set (cut_today n es) \<subseteq> set (today_refs es)" unfolding cut_today_refs by (subst eq) auto
  show "distinct (today_refs es) \<Longrightarrow> distinct (cut_today n es)" unfolding cut_today_refs by (subst (asm) eq) auto
qed

text \<open>
  The top-up keeps the kept references distinct and among today's, reaches the reserve when
  there are enough starters, and stops there.
\<close>

lemma top_up_spec_all:
  assumes "top_up reserve es keep prot = (keep', prot')"
    and "distinct keep" and "set prot \<subseteq> set keep"
  shows "distinct keep' \<and> set keep \<subseteq> set keep' \<and> set keep' \<subseteq> set keep \<union> set (today_refs es) \<and>
    set prot' \<subseteq> set keep' \<and> int (length keep') \<le> max (int (length keep)) reserve \<and>
    (reserve \<le> int (length keep') \<or> set (today_refs es) \<subseteq> set keep')"
  using assms
proof (induction reserve es keep prot rule: top_up.induct)
  case (2 reserve e es keep prot)
  consider (stop) "\<not> int (length keep) < reserve"
    | (skip) "int (length keep) < reserve" "\<not> re_isToday e \<or> re_todayRef e \<in> set keep"
    | (take) "int (length keep) < reserve" "re_isToday e" "re_todayRef e \<notin> set keep" by blast
  then show ?case
  proof cases
    case stop
    with 2 show ?thesis by auto
  next
    case skip
    with "2.prems" have "top_up reserve es keep prot = (keep', prot')" by simp
    from "2.IH"(1) [OF _ _ this "2.prems"(2,3)] skip show ?thesis by auto
  next
    case take
    then have "top_up reserve es (re_todayRef e # keep) (prot @ [re_todayRef e]) = (keep', prot')"
      using "2.prems" by simp
    from "2.IH"(2) [OF _ _ this] take "2.prems" show ?thesis by (auto simp: subset_insertI2)
  qed
qed auto

lemma top_up_spec:
  assumes "top_up reserve es keep prot = (keep', prot')"
    and "distinct keep" and "set prot \<subseteq> set keep"
  shows "distinct keep'" "set keep' \<subseteq> set keep \<union> set (today_refs es)" "set prot' \<subseteq> set keep'"
    "int (length keep') \<le> max (int (length keep)) reserve"
    "reserve \<le> int (length keep') \<or> set (today_refs es) \<subseteq> set keep'"
  using top_up_spec_all [OF assms] by auto

text \<open>Everything about the kept references that the properties need.\<close>

lemma floor_top_up_spec:
  assumes es: "es = sort_slice rank_less (rank_entries scored b)"
    and ftu: "floor_top_up need rem c (length (starter_idx scored)) es = (keep, prot)" and "0 < rem"
  shows "distinct keep" "set keep \<subseteq> int ` {..< length (starter_idx scored)}" "set prot \<subseteq> set keep"
    "int (length keep) \<le> rem"
    "0 < need \<Longrightarrow> floor_reserve need rem c (length (starter_idx scored)) \<le> int (length keep)"
proof -
  let ?n = "length (starter_idx scored)"
  let ?cut = "cut_today rem es"
  let ?r = "floor_reserve need rem c ?n"
  note refs = today_refs_sorted [OF es]
  have cut: "distinct ?cut" "set ?cut \<subseteq> int ` {..< ?n}" "int (length ?cut) \<le> rem"
    using cut_today_sub [where n = rem and es = es] refs cut_today_bound [of rem es] assms(3) by auto
  have r: "?r \<le> rem" "?r \<le> int ?n" by (simp_all add: floor_reserve_def Let_def)
  have "distinct keep \<and> set keep \<subseteq> int ` {..< ?n} \<and> set prot \<subseteq> set keep \<and>
      int (length keep) \<le> rem \<and> (0 < need \<longrightarrow> ?r \<le> int (length keep))"
  proof (cases "0 < need")
    case False
    with ftu cut show "distinct keep \<and> set keep \<subseteq> int ` {..< ?n} \<and> set prot \<subseteq> set keep \<and>
      int (length keep) \<le> rem \<and> (0 < need \<longrightarrow> ?r \<le> int (length keep))"
      by (auto simp: floor_top_up_def)
  next
    case True
    with ftu have t: "top_up ?r es ?cut [] = (keep, prot)" by (simp add: floor_top_up_def)
    have nil: "set [] \<subseteq> set ?cut" by simp
    note sp = top_up_spec [OF t cut(1) nil]
    have sub: "set keep \<subseteq> int ` {..< ?n}" using sp(2) cut(2) refs(2) by blast
    have "?r \<le> int (length keep)"
      using sp(5)
    proof
      assume "set (today_refs es) \<subseteq> set keep"
      then have "card (int ` {..< ?n}) \<le> length keep"
        using sub refs(2) sp(1) by (metis distinct_card subset_antisym order_refl)
      then have "?n \<le> length keep" by (simp add: card_image)
      with r(2) show ?thesis by linarith
    qed
    with sp(1,3,4) sub cut(3) r(1) show "distinct keep \<and> set keep \<subseteq> int ` {..< ?n} \<and> set prot \<subseteq> set keep \<and>
      int (length keep) \<le> rem \<and> (0 < need \<longrightarrow> ?r \<le> int (length keep))" by auto
  qed
  then show "distinct keep" "set keep \<subseteq> int ` {..< ?n}" "set prot \<subseteq> set keep" "int (length keep) \<le> rem"
      "0 < need \<Longrightarrow> ?r \<le> int (length keep)" by simp_all
qed

section \<open>The four ways the gate returns\<close>

definition gate_kept :: "scored_pitcher list \<Rightarrow> gs_budget option \<Rightarrow> scored_pitcher list" where
  "gate_kept scored budget = filter open_starter (fst (apply_gs_gate scored budget))"

lemma gate_cases [consumes 1, case_names spent none covered ranked]:
  assumes "gb_Limit b \<noteq> 0"
  obtains
    "remaining_gs (Some b) \<le> 0"
    "apply_gs_gate scored (Some b) =
      (map (\<lambda>sp. if p_Locked (sc_Player sp) then sp else clear_starter sp) scored,
       (budget_report b)\<lparr>gr_Suppressed := map start_of (filter open_starter scored)\<rparr>)"
  | "0 < remaining_gs (Some b)" "starter_idx scored = []" "apply_gs_gate scored (Some b) = (scored, budget_report b)"
  | "0 < remaining_gs (Some b)" "starter_idx scored \<noteq> []"
    "real (length (starter_idx scored) + length (future_confirmed b)) + future_estimated b
       \<le> real_of_int (remaining_gs (Some b)) + gate_eps"
    "apply_gs_gate scored (Some b) = (scored, budget_report b)"
  | keep prot where "0 < remaining_gs (Some b)" "starter_idx scored \<noteq> []"
    "floor_top_up (need_for_floor (Some b)) (remaining_gs (Some b)) (length (future_confirmed b))
       (length (starter_idx scored)) (sort_slice rank_less (rank_entries scored b)) = (keep, prot)"
    "fst (apply_gs_gate scored (Some b)) =
       fst (settle keep prot (enumerate 0 (today_starters scored)) (scored, [], []))"
    "gr_Suppressed (snd (apply_gs_gate scored (Some b))) =
       map (\<lambda>(i, idx, p). start_of (scored ! idx))
         (filter (\<lambda>(i, idx, p). int i \<notin> set keep) (enumerate 0 (today_starters scored)))"
    "gr_Protected (snd (apply_gs_gate scored (Some b))) =
       map (\<lambda>(i, idx, p). start_of (scored ! idx))
         (filter (\<lambda>(i, idx, p). int i \<in> set prot) (enumerate 0 (today_starters scored)))"
proof -
  have nil: "today_starters scored = [] \<longleftrightarrow> starter_idx scored = []" by (simp add: today_starters_eq)
  show thesis
  proof (cases "remaining_gs (Some b) \<le> 0")
    case True
    then show thesis using that(1) assms by (simp add: apply_gs_gate_def Let_def)
  next
    case pos: False
    show thesis
    proof (cases "starter_idx scored = []")
      case True
      then show thesis using that(2) pos assms nil by (simp add: apply_gs_gate_def Let_def)
    next
      case some: False
      show thesis
      proof (cases "real (length (starter_idx scored) + length (future_confirmed b)) + future_estimated b
          \<le> real_of_int (remaining_gs (Some b)) + gate_eps")
        case True
        then show thesis using that(3) pos some assms nil by (simp add: apply_gs_gate_def Let_def)
      next
        case False
        obtain keep prot where kp: "floor_top_up (need_for_floor (Some b)) (remaining_gs (Some b))
            (length (future_confirmed b)) (length (starter_idx scored))
            (sort_slice rank_less (rank_entries scored b)) = (keep, prot)" by fastforce
        obtain s' supp protd where st: "settle keep prot (enumerate 0 (today_starters scored)) (scored, [], [])
            = (s', supp, protd)" by (metis prod_cases3)
        have "\<forall>(i, idx, p) \<in> set (enumerate 0 (today_starters scored)). idx < length scored"
          using starter_idx_nth by (auto simp: enumerate_today)
        note lists = settle_lists [OF this, of keep prot "[]" "[]", unfolded st]
        have g: "apply_gs_gate scored (Some b) =
            (s', (budget_report b)\<lparr>gr_Suppressed := supp, gr_Protected := protd\<rparr>)"
          using False pos some assms nil by (simp add: apply_gs_gate_def Let_def kp st)
        show thesis
          by (rule that(4) [OF _ some kp]) (use pos g st lists in simp_all)
      qed
    qed
  qed
qed

lemma remaining_gs_nonneg: "0 \<le> remaining_gs b"
  by (auto simp: remaining_gs_def max_int32_def Let_def split: option.split)

lemma gate_kept_ranked:
  assumes "floor_top_up need rem c (length (starter_idx scored)) (sort_slice rank_less (rank_entries scored b)) = (keep, prot)"
    and "0 < rem"
    and "fst (apply_gs_gate scored (Some b)) =
       fst (settle keep prot (enumerate 0 (today_starters scored)) (scored, [], []))"
  shows "length (gate_kept scored (Some b)) = length keep"
  unfolding gate_kept_def assms(3)
  by (rule kept_count) (use floor_top_up_spec [OF refl assms(1,2)] in auto)

lemma covered_starts:
  assumes "real (n + m) + e \<le> real_of_int r + gate_eps" and "0 \<le> e"
  shows "int n \<le> r"
proof (rule ccontr)
  assume "\<not> int n \<le> r"
  then have "real_of_int r + 1 \<le> real n" by linarith
  with assms show False by (simp add: gate_eps_def)
qed

text \<open>C3. The gate respects the weekly limit. With a limit in force, the unlocked pitchers still
  marked as starters after \<open>applyGSGate\<close> never outnumber the starts the week has left, also
  after the floor has put declined starts back.\<close>

theorem gate_within_budget:
  assumes l: "gb_Limit b \<noteq> 0" and e: "0 \<le> future_estimated b"
  shows "int (length (gate_kept scored (Some b))) \<le> remaining_gs (Some b)"
  using l
proof (cases rule: gate_cases [where scored = scored])
  case spent
  then have "gate_kept scored (Some b) = []" by (auto simp: gate_kept_def open_starter_def filter_empty_conv)
  then show ?thesis using remaining_gs_nonneg by simp
next
  case none
  then have "length (filter open_starter scored) = 0" by (metis length_starter_idx list.size(3))
  then show ?thesis using none by (simp add: gate_kept_def)
next
  case covered
  then show ?thesis using covered_starts [OF covered(3) e]
    by (simp add: gate_kept_def length_starter_idx)
next
  case (ranked keep prot)
  then show ?thesis
    using gate_kept_ranked [OF ranked(3) ranked(1) ranked(4)] floor_top_up_spec(4) [OF refl ranked(3) ranked(1)] by simp
qed

text \<open>The gate respects the weekly minimum. At least \<open>floorReserve\<close> of today's starts
  survive: what the week still needs less what is confirmed for later, capped by today's
  starters and by the remaining budget. So the gate never declines a start that the floor needs.\<close>

theorem gate_protects_floor:
  assumes l: "gb_Limit b \<noteq> 0" and f: "0 < need_for_floor (Some b)"
  shows "floor_reserve (need_for_floor (Some b)) (remaining_gs (Some b)) (length (future_confirmed b))
           (length (filter open_starter scored)) \<le> int (length (gate_kept scored (Some b)))"
  using l
proof (cases rule: gate_cases [where scored = scored])
  case spent
  then show ?thesis by (simp add: floor_reserve_def Let_def)
next
  case none
  then show ?thesis by (simp add: gate_kept_def floor_reserve_def Let_def)
next
  case covered
  then show ?thesis by (simp add: gate_kept_def floor_reserve_def Let_def)
next
  case (ranked keep prot)
  then show ?thesis
    using gate_kept_ranked [OF ranked(3) ranked(1) ranked(4)] floor_top_up_spec(5) [OF refl ranked(3) ranked(1) f]
    by (simp add: length_starter_idx)
qed

section \<open>The report\<close>

definition declined_idx :: "scored_pitcher list \<Rightarrow> scored_pitcher list \<Rightarrow> nat list" where
  "declined_idx scored scored' =
     filter (\<lambda>j. open_starter (scored ! j) \<and> \<not> sc_IsStarter (scored' ! j)) [0..<length scored]"

lemma ranked_declined:
  assumes "s' = fst (settle keep prot (enumerate 0 (today_starters scored)) (scored, [], []))"
  shows "map (\<lambda>(i, idx, p). start_of (scored ! idx))
      (filter (\<lambda>(i, idx, p). int i \<notin> set keep) (enumerate 0 (today_starters scored))) =
    map (\<lambda>j. start_of (scored ! j)) (declined_idx scored s')"
proof -
  let ?I = "starter_idx scored"
  have d: "distinct ?I" by (simp add: starter_idx_def)
  have e: "enumerate 0 (today_starters scored) =
      map (\<lambda>i. (i, ?I ! i, sc_ExpectedPts (scored ! (?I ! i)))) [0..<length ?I]"
    by (rule nth_equalityI) (simp_all add: nth_enumerate_eq today_starters_eq)
  have flag: "\<not> sc_IsStarter (s' ! (?I ! i)) \<longleftrightarrow> int i \<notin> set keep" if "i < length ?I" for i
    using settle_today [of "?I ! i" scored keep prot] starter_idx_nth [OF that] that d
    by (auto simp: assms open_starter_def nth_eq_iff_index_eq split: if_splits)
  have "declined_idx scored s' = filter (\<lambda>j. \<not> sc_IsStarter (s' ! j)) ?I"
    by (auto simp: declined_idx_def starter_idx_def intro: filter_cong)
  also have "\<dots> = filter (\<lambda>j. \<not> sc_IsStarter (s' ! j)) (map ((!) ?I) [0..<length ?I])"
    by (simp add: map_nth)
  also have "\<dots> = map ((!) ?I) (filter (\<lambda>i. int i \<notin> set keep) [0..<length ?I])"
    unfolding filter_map by (intro arg_cong [where f = "map ((!) ?I)"] filter_cong) (auto simp: flag)
  finally show ?thesis by (simp add: e filter_map o_def)
qed

text \<open>The report is exact. \<open>applyGSGate\<close> changes nothing but the starter mark of unlocked
  pitchers, only from set to cleared; \<open>Suppressed\<close> lists exactly the starts that were
  cleared, in roster order, and everyone in \<open>Protected\<close> is still a starter.\<close>

theorem gate_report_exact:
  assumes l: "gb_Limit b \<noteq> 0" and g: "apply_gs_gate scored (Some b) = (scored', r)"
  shows "length scored' = length scored \<and>
    (\<forall>j < length scored. scored' ! j = scored ! j \<or>
       (\<not> p_Locked (sc_Player (scored ! j)) \<and> scored' ! j = clear_starter (scored ! j))) \<and>
    gr_Suppressed r = map (\<lambda>j. start_of (scored ! j)) (declined_idx scored scored') \<and>
    (\<forall>s \<in> set (gr_Protected r). \<exists>j < length scored. s = start_of (scored ! j) \<and> open_starter (scored' ! j))"
  using l
proof (cases rule: gate_cases [where scored = scored])
  case spent
  have sup: "gr_Suppressed r = map (\<lambda>j. start_of (scored ! j)) (filter (\<lambda>j. open_starter (scored ! j)) [0..<length scored])"
    and s': "scored' = map (\<lambda>sp. if p_Locked (sc_Player sp) then sp else clear_starter sp) scored"
    and prot: "gr_Protected r = []"
    using spent g by (simp_all add: filter_by_index [of open_starter scored] budget_report_def o_def)
  have "declined_idx scored scored' = filter (\<lambda>j. open_starter (scored ! j)) [0..<length scored]"
    unfolding declined_idx_def s' by (rule filter_cong) (auto simp: open_starter_def)
  then show ?thesis using sup s' prot by auto
next
  case none
  with g show ?thesis by (auto simp: budget_report_def declined_idx_def open_starter_def)
next
  case covered
  with g show ?thesis by (auto simp: budget_report_def declined_idx_def open_starter_def)
next
  case (ranked keep prot)
  have s': "scored' = fst (settle keep prot (enumerate 0 (today_starters scored)) (scored, [], []))"
    using ranked(4) g by simp
  note spec = floor_top_up_spec [OF refl ranked(3) ranked(1)]
  have "scored' ! j = scored ! j \<or> (\<not> p_Locked (sc_Player (scored ! j)) \<and> scored' ! j = clear_starter (scored ! j))"
    if "j < length scored" for j
    using settle_today [OF that, of keep prot] starter_idx_nth
    by (auto simp: s' open_starter_def split: if_splits)
  moreover have "gr_Suppressed r = map (\<lambda>j. start_of (scored ! j)) (declined_idx scored scored')"
    using ranked(5) ranked_declined [OF s'] g by simp
  moreover have "\<exists>j < length scored. s = start_of (scored ! j) \<and> open_starter (scored' ! j)"
    if sg: "s \<in> set (gr_Protected r)" for s
  proof -
    obtain i where i: "i < length (starter_idx scored)" "int i \<in> set prot" "s = start_of (scored ! (starter_idx scored ! i))"
      using sg ranked(6) g by (auto simp: enumerate_today)
    then have "int i \<in> set keep" using spec(3) by blast
    moreover have "distinct (starter_idx scored)" by (simp add: starter_idx_def)
    ultimately have "scored' ! (starter_idx scored ! i) = scored ! (starter_idx scored ! i)"
      using settle_today [of "starter_idx scored ! i" scored keep prot] starter_idx_nth [OF i(1)] i(1)
      by (auto simp: s' nth_eq_iff_index_eq split: if_splits)
    then show ?thesis using starter_idx_nth [OF i(1)] i(3) by metis
  qed
  ultimately show ?thesis by (simp add: s')
qed

section \<open>The demand and the order\<close>

lemma foldl_add: "foldl (\<lambda>t f. t + k f) x fs = x + sum_list (map k fs)" for x :: real
  by (induction fs arbitrary: x) auto

lemma sum_lengths: "sum_list (map (\<lambda>f. real (length (g f))) fs) = real (length (concat (map g fs)))"
  by (induction fs) auto

text \<open>The displayed demand is the gate's demand. \<open>FutureDemand\<close>, which the operator sees,
  equals the confirmed and estimated future starts that \<open>applyGSGate\<close> weighs.\<close>

theorem future_demand_in_step:
  "future_demand (Some b) = real (length (future_confirmed b)) + future_estimated b"
  by (simp add: future_demand_def future_confirmed_def future_estimated_def foldl_add sum_list_addf
      sum_lengths)

text \<open>The estimated weights add up to the estimate, as the comment on the ladder claims.\<close>

lemma est_weights_sum:
  assumes "real n - 1 < e" and "e \<le> real n" and "0 \<le> e"
  shows "sum_list (est_weights n e) = e"
  using assms
proof (induction n arbitrary: e)
  case (Suc n)
  show ?case
  proof (cases "e < 1")
    case True
    with Suc.prems have "n = 0" by auto
    with True show ?thesis by simp
  next
    case False
    with Suc show ?thesis by auto
  qed
qed simp

lemma est_weights_ceiling: "0 \<le> e \<Longrightarrow> sum_list (est_weights (nat \<lceil>e\<rceil>) e) = e"
  by (rule est_weights_sum) linarith+

definition cyc_today :: rank_entry where
  "cyc_today = \<lparr>re_pts = 10, re_isToday = True, re_isEstimated = False, re_todayRef = 0, re_tiebreak = ''a''\<rparr>"

definition cyc_confirmed :: rank_entry where
  "cyc_confirmed = \<lparr>re_pts = 10.5, re_isToday = False, re_isEstimated = False, re_todayRef = - 1, re_tiebreak = []\<rparr>"

definition cyc_estimated :: rank_entry where
  "cyc_estimated = \<lparr>re_pts = 10.8, re_isToday = False, re_isEstimated = True, re_todayRef = - 1, re_tiebreak = []\<rparr>"

text \<open>The ranking is not an order. Because the 10 percent certainty margin applies only between
  today and an estimated start, the comparison \<open>applyGSGate\<close> hands to \<open>sort.SliceStable\<close>
  runs in a circle: a confirmed 10.5 comes before today's 10, today's 10 before an estimated
  10.8, and the estimated 10.8 before the confirmed 10.5; with one start left, which of the
  three wins the cut depends on the order they are given in.\<close>

theorem rank_less_cycle:
  "rank_less cyc_confirmed cyc_today \<and> rank_less cyc_today cyc_estimated \<and>
   rank_less cyc_estimated cyc_confirmed \<and>
   hd (sort_slice rank_less [cyc_today, cyc_confirmed, cyc_estimated]) = cyc_confirmed \<and>
   hd (sort_slice rank_less [cyc_estimated, cyc_today, cyc_confirmed]) = cyc_today"
  by (simp add: rank_less_def cyc_today_def cyc_confirmed_def cyc_estimated_def certainty_margin_def
      gate_eps_def sort_slice_def)

section \<open>Witnesses\<close>

text \<open>Two starters today, one start left, another confirmed tomorrow.\<close>

definition demo_pitchers :: "scored_pitcher list" where
  "demo_pitchers =
     [\<lparr>sc_Player = demo_player ''a'' [pos_SP], sc_ExpectedPts = 12, sc_HasGame = True, sc_IsStarter = True\<rparr>,
      \<lparr>sc_Player = demo_player ''b'' [pos_SP], sc_ExpectedPts = 8, sc_HasGame = True, sc_IsStarter = True\<rparr>]"

definition demo_budget :: "int \<Rightarrow> gs_budget" where
  "demo_budget flr = \<lparr>gb_Limit = 7, gb_Floor = flr, gb_Used = 6, gb_Today = 1, gb_WeekEnd = 3,
     gb_Forecast = [\<lparr>df_Date = 2, df_ConfirmedStarters = [10], df_Estimated = 0\<rparr>], gb_TodayUnsettled = 0\<rparr>"

lemma demo_gate:
  "gate_kept demo_pitchers (Some (demo_budget 0)) = [hd demo_pitchers]"
  "map ss_PlayerID (gr_Suppressed (snd (apply_gs_gate demo_pitchers (Some (demo_budget 0))))) = [''b'']"
  by code_simp+

theorem gate_within_budget_witness:
  "int (length (gate_kept demo_pitchers (Some (demo_budget 0)))) \<le> remaining_gs (Some (demo_budget 0)) \<and>
   remaining_gs (Some (demo_budget 0)) = 1"
proof -
  have "gb_Limit (demo_budget 0) \<noteq> 0" "0 \<le> future_estimated (demo_budget 0)"
    by (simp_all add: demo_budget_def future_estimated_def future_days_def)
  from gate_within_budget [OF this] show ?thesis by (simp add: remaining_gs_def demo_budget_def)
qed

theorem gate_protects_floor_witness:
  "floor_reserve 2 1 1 2 \<le> int (length (gate_kept demo_pitchers (Some (demo_budget 8))))"
proof -
  have "gb_Limit (demo_budget 8) \<noteq> 0" "0 < need_for_floor (Some (demo_budget 8))"
    by (simp_all add: demo_budget_def need_for_floor_def)
  note g = gate_protects_floor [OF this, of demo_pitchers]
  have "need_for_floor (Some (demo_budget 8)) = 2" "remaining_gs (Some (demo_budget 8)) = 1"
    "length (future_confirmed (demo_budget 8)) = 1" "length (filter open_starter demo_pitchers) = 2"
    by (simp_all add: remaining_gs_def need_for_floor_def demo_budget_def future_confirmed_def
        future_days_def demo_pitchers_def open_starter_def demo_player_def)
  then show ?thesis using g by simp
qed

theorem gate_report_exact_witness:
  "gr_Suppressed (snd (apply_gs_gate demo_pitchers (Some (demo_budget 0)))) =
     map (\<lambda>j. start_of (demo_pitchers ! j))
       (declined_idx demo_pitchers (fst (apply_gs_gate demo_pitchers (Some (demo_budget 0)))))"
proof -
  have "gb_Limit (demo_budget 0) \<noteq> 0" by (simp add: demo_budget_def)
  from gate_report_exact [OF this surjective_pairing] show ?thesis by blast
qed

end
