(* ===== verification/Pitcher_Optimizer.thy ===== *)
theory Pitcher_Optimizer
  imports GS_Gate
begin

text \<open>
  The daily pitcher lineup: \<open>internal/optimizer/pitcher_lineup.go\<close>
  (\<open>scorePitcherRoster\<close>, \<open>OptimizePitcherLineup\<close>) and the probable-starter match of
  \<open>internal/playername/probable.go\<close>. The lemmas show that locked pitchers are never moved,
  that no position is over-filled although non-playing pitchers are kept in empty slots, and
  that the assignment of the playing pitchers is optimal.
\<close>

section \<open>Probable starters\<close>

datatype probable_match = NotProbable | ConfirmedStarter | TeamMismatch

definition match_probable ::
  "(string \<Rightarrow> string) \<Rightarrow> string \<Rightarrow> string \<Rightarrow> (string \<rightharpoonup> string) \<Rightarrow> probable_match" where
  "match_probable nrm name mlbTeam probables =
     (case probables (nrm name) of
        None \<Rightarrow> NotProbable
      | Some team \<Rightarrow> if team \<noteq> mlbTeam then TeamMismatch else ConfirmedStarter)"

section \<open>Scoring the pitchers\<close>

definition non_starter_discount :: real where
  "non_starter_discount = 0.05"

text \<open>\<open>hasProbableData\<close> is whether the map of probable starters has an entry.\<close>

definition score_pitcher ::
  "(string \<Rightarrow> string) \<Rightarrow> (string \<Rightarrow> bool) \<Rightarrow> (string \<rightharpoonup> string) \<Rightarrow> bool \<Rightarrow>
   pitcher_projection source \<Rightarrow> weights \<Rightarrow> player \<Rightarrow> scored_pitcher" where
  "score_pitcher nrm playingToday probables hasProbableData src w p =
     (if p_InMinors p \<or> p_IsInjured p then
        \<lparr>sc_Player = p, sc_ExpectedPts = 0, sc_HasGame = False, sc_IsStarter = False\<rparr>
      else
        (let teamPlays = playingToday (p_MLBTeam p);
             isStarter = (SP_eligible_player p \<and> hasProbableData \<and>
               match_probable nrm (p_Name p) (p_MLBTeam p) probables = ConfirmedStarter)
         in \<lparr>sc_Player = p,
             sc_ExpectedPts = fst (pitcher_points_per_game src (p_Name p) (p_MLBTeam p) w),
             sc_HasGame = (if isStarter then True else teamPlays),
             sc_IsStarter = isStarter\<rparr>))"

definition score_pitcher_roster ::
  "(string \<Rightarrow> string) \<Rightarrow> player list \<Rightarrow> (string \<Rightarrow> bool) \<Rightarrow> (string \<rightharpoonup> string) \<Rightarrow> bool \<Rightarrow>
   pitcher_projection source \<Rightarrow> weights \<Rightarrow> scored_pitcher list" where
  "score_pitcher_roster nrm roster playingToday probables hasProbableData src w =
     map (score_pitcher nrm playingToday probables hasProbableData src w) roster"

definition pitcher_less :: "scored_pitcher \<Rightarrow> scored_pitcher \<Rightarrow> bool" where
  "pitcher_less a b =
     (if sc_HasGame a \<noteq> sc_HasGame b then sc_HasGame a
      else if sc_ExpectedPts a \<noteq> sc_ExpectedPts b then sc_ExpectedPts a > sc_ExpectedPts b
      else p_ID (sc_Player a) < p_ID (sc_Player b))"

definition discounted :: "scored_pitcher \<Rightarrow> scored_player" where
  "discounted sp =
     \<lparr>sp_Player = sc_Player sp,
      sp_ExpectedPts = (if \<not> sc_IsStarter sp \<and> SP_eligible_player (sc_Player sp)
        then sc_ExpectedPts sp * non_starter_discount else sc_ExpectedPts sp),
      sp_HasGame = sc_HasGame sp\<rparr>"

definition generic_less :: "scored_player \<Rightarrow> scored_player \<Rightarrow> bool" where
  "generic_less a b =
     (if sp_ExpectedPts a \<noteq> sp_ExpectedPts b then sp_ExpectedPts a > sp_ExpectedPts b
      else p_ID (sp_Player a) < p_ID (sp_Player b))"

definition generic_pitchers :: "scored_pitcher list \<Rightarrow> scored_player list" where
  "generic_pitchers scored = sort_slice generic_less (map discounted (filter sc_HasGame scored))"

text \<open>\<open>forPartition\<close>: all scored pitchers, with only the player filled in.\<close>

definition for_partition :: "scored_pitcher list \<Rightarrow> scored_player list" where
  "for_partition scored =
     map (\<lambda>sp. \<lparr>sp_Player = sc_Player sp, sp_ExpectedPts = 0, sp_HasGame = False\<rparr>) scored"

text \<open>The loop that keeps active pitchers without a game in slots nobody took.\<close>

definition retain_step :: "assign \<Rightarrow> player \<Rightarrow> (string list \<times> (string \<Rightarrow> int)) \<Rightarrow> string list \<times> (string \<Rightarrow> int)" where
  "retain_step cur p st = (case st of (assigned, cap) \<Rightarrow>
     if p_Status p \<noteq> ''Active'' \<or> p_ID p \<in> set assigned \<or> p_Locked p then (assigned, cap)
     else (case cur (p_ID p) of
             None \<Rightarrow> (assigned, cap)
           | Some posID \<Rightarrow> if cap posID > 0 then (p_ID p # assigned, cap(posID := cap posID - 1))
                           else (assigned, cap)))"

definition slot_room :: "slot list \<Rightarrow> player_slot list \<Rightarrow> string \<Rightarrow> int" where
  "slot_room slots toActivate posID =
     (if slot_capacity slots posID = 0 then 0
      else int (slot_capacity slots posID) - int (consumed toActivate posID))"

definition retained :: "player list \<Rightarrow> assign \<Rightarrow> slot list \<Rightarrow> player_slot list \<Rightarrow> string list" where
  "retained roster cur slots toActivate =
     fst (fold (retain_step cur) roster (map ps_PlayerID toActivate, slot_room slots toActivate))"

record pitcher_result =
  pr_ToActivate :: "player_slot list"
  pr_ToBench :: "string list"
  pr_Scored :: "scored_pitcher list"
  pr_GateReport :: gate_report
  pr_ActiveBefore :: assign
  pr_IneligibleBefore :: "string list"

definition optimize_pitcher_lineup ::
  "(string \<Rightarrow> string) \<Rightarrow> player list \<Rightarrow> (string \<Rightarrow> bool) \<Rightarrow> (string \<rightharpoonup> string) \<Rightarrow> bool \<Rightarrow>
   pitcher_projection source \<Rightarrow> weights \<Rightarrow> slot list \<Rightarrow> gs_budget option \<Rightarrow> pitcher_result" where
  "optimize_pitcher_lineup nrm roster playingToday probables hasProbableData src w slots budget =
     (let (gated, report) = apply_gs_gate
            (score_pitcher_roster nrm roster playingToday probables hasProbableData src w) budget;
          scored = sort_slice pitcher_less gated;
          generic = generic_pitchers scored;
          cur = current_assign roster;
          toActivate = full_assignment (for_partition scored) generic slots cur eligible_for_pitcher_slot;
          assigned = retained roster cur slots toActivate
      in \<lparr>pr_ToActivate = changed_activate cur toActivate,
          pr_ToBench = to_bench roster (\<lambda>pid. pid \<in> set assigned),
          pr_Scored = scored,
          pr_GateReport = report,
          pr_ActiveBefore = cur,
          pr_IneligibleBefore = ineligible_active roster cur slots eligible_for_pitcher_slot\<rparr>)"

section \<open>The gate keeps the players\<close>

lemma gate_players: "map sc_Player (fst (apply_gs_gate scored budget)) = map sc_Player scored"
proof (cases "budget = None \<or> gb_Limit (the budget) = 0")
  case True
  then show ?thesis by (auto simp: apply_gs_gate_def split: option.split)
next
  case False
  then obtain b where b: "budget = Some b" and l: "gb_Limit b \<noteq> 0" by auto
  from l show ?thesis
  proof (cases rule: gate_cases [where scored = scored])
    case (ranked keep prot)
    show ?thesis unfolding b ranked(4)
      by (rule nth_equalityI) (simp_all add: settle_today)
  qed (simp_all add: b)
qed

section \<open>The plan\<close>

definition gated_pitchers ::
  "(string \<Rightarrow> string) \<Rightarrow> player list \<Rightarrow> (string \<Rightarrow> bool) \<Rightarrow> (string \<rightharpoonup> string) \<Rightarrow> bool \<Rightarrow>
   pitcher_projection source \<Rightarrow> weights \<Rightarrow> gs_budget option \<Rightarrow> scored_pitcher list" where
  "gated_pitchers nrm roster pt pr has src w budget =
     sort_slice pitcher_less (fst (apply_gs_gate (score_pitcher_roster nrm roster pt pr has src w) budget))"

definition pitcher_plan ::
  "(string \<Rightarrow> string) \<Rightarrow> player list \<Rightarrow> (string \<Rightarrow> bool) \<Rightarrow> (string \<rightharpoonup> string) \<Rightarrow> bool \<Rightarrow>
   pitcher_projection source \<Rightarrow> weights \<Rightarrow> slot list \<Rightarrow> gs_budget option \<Rightarrow> player_slot list" where
  "pitcher_plan nrm roster pt pr has src w slots budget =
     full_assignment (for_partition (gated_pitchers nrm roster pt pr has src w budget))
       (generic_pitchers (gated_pitchers nrm roster pt pr has src w budget))
       slots (current_assign roster) eligible_for_pitcher_slot"

lemma optimize_pitcher_moves:
  "pr_ToActivate (optimize_pitcher_lineup nrm roster pt pr has src w slots budget) =
     changed_activate (current_assign roster) (pitcher_plan nrm roster pt pr has src w slots budget)"
  "pr_ToBench (optimize_pitcher_lineup nrm roster pt pr has src w slots budget) =
     to_bench roster (\<lambda>pid. pid \<in> set (retained roster (current_assign roster) slots
        (pitcher_plan nrm roster pt pr has src w slots budget)))"
  by (simp_all add: optimize_pitcher_lineup_def pitcher_plan_def gated_pitchers_def Let_def case_prod_beta')

lemma score_pitcher_player [simp]: "sc_Player (score_pitcher nrm pt pr has src w p) = p"
  by (simp add: score_pitcher_def Let_def)

lemma gated_mset:
  "mset (map sc_Player (gated_pitchers nrm roster pt pr has src w budget)) = mset roster"
proof -
  have "mset (map sc_Player (gated_pitchers nrm roster pt pr has src w budget)) =
      mset (map sc_Player (fst (apply_gs_gate (score_pitcher_roster nrm roster pt pr has src w) budget)))"
    unfolding gated_pitchers_def by simp
  also have "\<dots> = mset roster" by (simp only: gate_players) (simp add: score_pitcher_roster_def o_def)
  finally show ?thesis .
qed

lemma gated_player: "sp \<in> set (gated_pitchers nrm roster pt pr has src w budget) \<Longrightarrow> sc_Player sp \<in> set roster"
  using mset_eq_setD [OF gated_mset] by fastforce

lemma gated_of:
  "p \<in> set roster \<Longrightarrow> \<exists>sp \<in> set (gated_pitchers nrm roster pt pr has src w budget). sc_Player sp = p"
  using mset_eq_setD [OF gated_mset [of nrm roster pt pr has src w budget]] by (metis image_iff set_map)

lemma gated_ids:
  assumes "distinct (map p_ID roster)"
  shows "distinct (map (\<lambda>sp. p_ID (sc_Player sp)) (gated_pitchers nrm roster pt pr has src w budget))"
proof -
  have "mset (map p_ID (map sc_Player (gated_pitchers nrm roster pt pr has src w budget))) = mset (map p_ID roster)"
    by (metis gated_mset mset_map)
  from mset_eq_imp_distinct_iff [OF this] assms show ?thesis by (simp add: o_def)
qed

lemma for_partition_simps:
  "sp \<in> set (for_partition scored) \<Longrightarrow> \<exists>sq \<in> set scored. sp_Player sp = sc_Player sq"
  "map (\<lambda>sp. p_ID (sp_Player sp)) (for_partition scored) = map (\<lambda>sp. p_ID (sc_Player sp)) scored"
  by (auto simp: for_partition_def)

lemma generic_simps:
  "sp \<in> set (generic_pitchers scored) \<Longrightarrow> \<exists>sq \<in> set scored. sp_Player sp = sc_Player sq"
  "distinct (map (\<lambda>sp. p_ID (sc_Player sp)) scored) \<Longrightarrow>
   distinct (map (\<lambda>sp. p_ID (sp_Player sp)) (generic_pitchers scored))"
  by (auto simp: generic_pitchers_def discounted_def o_def distinct_map_filter)

lemma pitcher_plan_locked:
  assumes p: "p \<in> set roster" "p_Locked p" "current_assign roster (p_ID p) = Some s"
  shows "\<lparr>ps_PlayerID = p_ID p, ps_PosID = s\<rparr> \<in> set (pitcher_plan nrm roster pt pr has src w slots budget)"
proof -
  obtain sq where sq: "sq \<in> set (gated_pitchers nrm roster pt pr has src w budget)" "sc_Player sq = p"
    using gated_of [OF p(1)] by blast
  let ?sp = "\<lparr>sp_Player = sc_Player sq, sp_ExpectedPts = 0, sp_HasGame = False\<rparr>"
  have "?sp \<in> set (for_partition (gated_pitchers nrm roster pt pr has src w budget))"
    using sq(1) by (auto simp: for_partition_def)
  from full_assignment_locked [OF this, of "current_assign roster" s] p sq(2)
  show ?thesis by (simp add: pitcher_plan_def)
qed

lemma pitcher_plan_ids:
  assumes d: "distinct (map p_ID roster)"
  shows "distinct (map ps_PlayerID (pitcher_plan nrm roster pt pr has src w slots budget))"
  unfolding pitcher_plan_def
proof (rule plan_ids_distinct [OF d])
  show "distinct (map (\<lambda>sp. p_ID (sp_Player sp)) (generic_pitchers (gated_pitchers nrm roster pt pr has src w budget)))"
    by (rule generic_simps(2) [OF gated_ids [OF d]])
  show "distinct (map (\<lambda>sp. p_ID (sp_Player sp)) (for_partition (gated_pitchers nrm roster pt pr has src w budget)))"
    unfolding for_partition_simps(2) by (rule gated_ids [OF d])
qed (use generic_simps(1) for_partition_simps(1) gated_player in metis)+

section \<open>Keeping pitchers in empty slots\<close>

lemma retain_fold:
  assumes "fold (retain_step cur) ps (as, cap) = (as', cap')"
  shows "\<exists>new. as' = new @ as \<and> distinct new \<and> set new \<inter> set as = {} \<and>
    (\<forall>x. int (length (filter (\<lambda>pid. cur pid = Some x) new)) \<le> max 0 (cap x))"
  using assms
proof (induction ps arbitrary: as cap)
  case Nil
  then show ?case by (intro exI [of _ "[]"]) auto
next
  case (Cons p ps)
  show ?case
  proof (cases "p_Status p \<noteq> ''Active'' \<or> p_ID p \<in> set as \<or> p_Locked p \<or>
      (case cur (p_ID p) of None \<Rightarrow> True | Some posID \<Rightarrow> \<not> cap posID > 0)")
    case True
    then have "retain_step cur p (as, cap) = (as, cap)" by (auto simp: retain_step_def split: option.splits)
    with Cons show ?thesis by simp
  next
    case False
    then obtain posID where c: "cur (p_ID p) = Some posID" "cap posID > 0" "p_ID p \<notin> set as"
      by (auto split: option.splits)
    then have "retain_step cur p (as, cap) = (p_ID p # as, cap(posID := cap posID - 1))"
      using False by (auto simp: retain_step_def)
    with Cons.prems have "fold (retain_step cur) ps (p_ID p # as, cap(posID := cap posID - 1)) = (as', cap')"
      by simp
    from Cons.IH [OF this] obtain new where n: "as' = new @ p_ID p # as" "distinct new"
      "set new \<inter> set (p_ID p # as) = {}"
      "\<forall>x. int (length (filter (\<lambda>pid. cur pid = Some x) new)) \<le> max 0 ((cap(posID := cap posID - 1)) x)" by blast
    have "int (length (filter (\<lambda>pid. cur pid = Some x) (new @ [p_ID p]))) \<le> max 0 (cap x)" for x
      using n(4) [rule_format, of x] c by (auto split: if_splits)
    then show ?thesis using n c by (intro exI [of _ "new @ [p_ID p]"]) auto
  qed
qed

lemma retained_spec:
  obtains new where "retained roster cur slots plan = new @ map ps_PlayerID plan" "distinct new"
    "\<forall>x. int (length (filter (\<lambda>pid. cur pid = Some x) new)) \<le> max 0 (slot_room slots plan x)"
proof -
  obtain as' cap' where f: "fold (retain_step cur) roster (map ps_PlayerID plan, slot_room slots plan) = (as', cap')"
    by fastforce
  from retain_fold [OF f] that f show thesis by (auto simp: retained_def)
qed

section \<open>Properties\<close>

text \<open>Locked pitchers are never touched, whatever the gate decided and whoever has a game.\<close>

theorem pitcher_locked_never_moved:
  assumes d: "distinct (map p_ID roster)" and p: "p \<in> set roster" "p_Locked p"
  shows "p_ID p \<notin> set (pr_ToBench (optimize_pitcher_lineup nrm roster pt pr has src w slots budget)) \<and>
    p_ID p \<notin> ps_PlayerID ` set (pr_ToActivate (optimize_pitcher_lineup nrm roster pt pr has src w slots budget))"
proof
  have inj: "q = p" if "q \<in> set roster" "p_ID q = p_ID p" for q
    using d p(1) that by (metis distinct_map inj_onD)
  show "p_ID p \<notin> set (pr_ToBench (optimize_pitcher_lineup nrm roster pt pr has src w slots budget))"
    using inj p(2) by (auto simp: optimize_pitcher_moves to_bench_def)
  let ?g = "gated_pitchers nrm roster pt pr has src w budget"
  show "p_ID p \<notin> ps_PlayerID ` set (pr_ToActivate (optimize_pitcher_lineup nrm roster pt pr has src w slots budget))"
  proof
    assume "p_ID p \<in> ps_PlayerID ` set (pr_ToActivate (optimize_pitcher_lineup nrm roster pt pr has src w slots budget))"
    then obtain ps where ps: "ps \<in> set (pitcher_plan nrm roster pt pr has src w slots budget)"
      "ps_PlayerID ps = p_ID p" "lookup_str (current_assign roster) (p_ID p) \<noteq> ps_PosID ps"
      by (auto simp: optimize_pitcher_moves changed_activate_def)
    from full_assignment_cases [OF ps(1) [unfolded pitcher_plan_def]] show False
    proof
      assume "\<exists>sp \<in> set (generic_pitchers ?g). \<exists>s \<in> set slots. \<not> p_Locked (sp_Player sp) \<and>
          ps = place sp s \<and> eligible_for_pitcher_slot (p_Positions (sp_Player sp)) s"
      then obtain sp s where sp: "sp \<in> set (generic_pitchers ?g)" "\<not> p_Locked (sp_Player sp)"
        "ps = place sp s" by blast
      then have "sp_Player sp \<in> set roster" "ps_PlayerID ps = p_ID (sp_Player sp)"
        using generic_simps(1) [OF sp(1)] by (auto simp: place_def dest: gated_player)
      then show False using inj sp(2) ps(2) p(2) by metis
    qed (use ps in \<open>auto simp: lookup_str_def\<close>)
  qed
qed

text \<open>No pitcher slot is over-filled. When the locked players alone fit, then after the moves
  of \<open>OptimizePitcherLineup\<close> no position holds more active pitchers than it has slots, the
  non-playing pitchers it retains included.\<close>

theorem pitcher_within_capacity:
  assumes d: "distinct (map p_ID roster)" and x: "x \<noteq> []"
    and fit: "length (filter p_Locked (active_at roster x)) \<le> slot_capacity slots x"
  shows "length (active_at (map (apply_player
       (pr_ToActivate (optimize_pitcher_lineup nrm roster pt pr has src w slots budget))
       (pr_ToBench (optimize_pitcher_lineup nrm roster pt pr has src w slots budget))) roster) x)
     \<le> slot_capacity slots x"
proof -
  let ?cur = "current_assign roster"
  let ?plan = "pitcher_plan nrm roster pt pr has src w slots budget"
  let ?g = "gated_pitchers nrm roster pt pr has src w budget"
  let ?f = "apply_player (pr_ToActivate (optimize_pitcher_lineup nrm roster pt pr has src w slots budget))
       (pr_ToBench (optimize_pitcher_lineup nrm roster pt pr has src w slots budget))"
  obtain new where new: "retained roster ?cur slots ?plan = new @ map ps_PlayerID ?plan" "distinct new"
    "\<forall>x. int (length (filter (\<lambda>pid. ?cur pid = Some x) new)) \<le> max 0 (slot_room slots ?plan x)"
    using retained_spec by blast
  let ?es = "map ps_PlayerID (filter (\<lambda>ps. ps_PosID ps = x) ?plan) @ filter (\<lambda>pid. ?cur pid = Some x) new"
  have "\<exists>e \<in> set ?es. e = p_ID q" if q: "q \<in> set (active_at (map ?f roster) x)" for q
  proof -
    have qa: "q \<in> ?f ` set roster" "p_Status q = ''Active''" "p_RosterPosition q = x"
      using q by (auto simp: active_at_def)
    obtain p where p: "p \<in> set roster" "q = ?f p" using qa(1) by blast
    have A: "pid \<in> set (retained roster ?cur slots ?plan) \<Longrightarrow> assigned_in ?plan pid \<or> pid \<in> set new" for pid
      by (auto simp: new(1) assigned_in_def)
    from active_after [where keep = "\<lambda>pid. pid \<in> set new" and
        A = "\<lambda>pid. pid \<in> set (retained roster ?cur slots ?plan)", OF d pitcher_plan_locked p(1) x
        pitcher_plan_ids [OF d] refl A qa(2,3) [unfolded p(2) optimize_pitcher_moves]]
    have "(\<exists>ps \<in> set ?plan. ps_PlayerID ps = p_ID p \<and> ps_PosID ps = x) \<or> (p_ID p \<in> set new \<and> ?cur (p_ID p) = Some x)"
      by blast
    then have "p_ID p \<in> set ?es" by force
    then show ?thesis by (simp only: p(2) apply_player_simps) blast
  qed
  moreover have "distinct (map p_ID (active_at (map ?f roster) x))"
    using d by (simp add: active_at_def filter_map o_def distinct_map_filter)
  ultimately have le: "length (active_at (map ?f roster) x) \<le> length ?es" by (intro count_by_id)
  have "mset (for_partition ?g) = mset (map (\<lambda>p. \<lparr>sp_Player = p, sp_ExpectedPts = 0, sp_HasGame = False\<rparr>) (map sc_Player ?g))"
    by (simp add: for_partition_def o_def)
  also have "\<dots> = mset (map (\<lambda>p. \<lparr>sp_Player = p, sp_ExpectedPts = 0, sp_HasGame = False\<rparr>) roster)"
    by (metis gated_mset mset_map)
  finally have "consumed (locked_slots (for_partition ?g) ?cur) x = consumed (locked_slots
      (map (\<lambda>p. \<lparr>sp_Player = p, sp_ExpectedPts = 0, sp_HasGame = False\<rparr>) roster) ?cur) x"
    by (rule consumed_locked_mset)
  then have "consumed (locked_slots (for_partition ?g) ?cur) x = length (filter p_Locked (active_at roster x))"
    using consumed_locked_roster [OF d x, of "\<lambda>p. \<lparr>sp_Player = p, sp_ExpectedPts = 0, sp_HasGame = False\<rparr>" roster]
    by simp
  with fit have "length (filter (\<lambda>ps. ps_PosID ps = x) ?plan) \<le> slot_capacity slots x"
    unfolding pitcher_plan_def by (intro full_assignment_capacity) simp
  with le new(3) [rule_format, of x] show ?thesis
    by (auto simp: slot_room_def consumed_def split: if_splits)
qed

interpretation generic_order: go_order generic_less
  by unfold_locales (auto simp: generic_less_def split: if_splits)

interpretation pitcher_order: go_order pitcher_less
proof
  fix x y z
  show "\<not> pitcher_less x x" by (simp add: pitcher_less_def)
  show "pitcher_less x y \<Longrightarrow> pitcher_less y z \<Longrightarrow> pitcher_less x z"
    by (auto simp: pitcher_less_def split: if_splits)
  show "\<not> pitcher_less x y \<Longrightarrow> \<not> pitcher_less y z \<Longrightarrow> \<not> pitcher_less x z"
    by (auto simp: pitcher_less_def split: if_splits)
qed

text \<open>The second sort puts the discounted pitchers into the order the pruning relies on.\<close>

lemma generic_sorted:
  "sorted_wrt (\<ge>) (map effective_pts (generic_pitchers scored))"
  unfolding sorted_wrt_map generic_pitchers_def
proof (rule sorted_wrt_mono_rel [OF _ generic_order.sorted_sort_slice])
  fix x y assume "x \<in> set (sort_slice generic_less (map discounted (filter sc_HasGame scored)))"
    "y \<in> set (sort_slice generic_less (map discounted (filter sc_HasGame scored)))" "\<not> generic_less y x"
  then show "effective_pts y \<le> effective_pts x"
    by (auto simp: generic_less_def effective_pts_def discounted_def split: if_splits)
qed

text \<open>What a pitcher is worth on a day: a pitcher eligible to start who is not starting counts for a twentieth.\<close>

definition turn_value :: "scored_pitcher \<Rightarrow> real" where
  "turn_value sp = (if sc_IsStarter sp \<or> \<not> SP_eligible_player (sc_Player sp) then sc_ExpectedPts sp else sc_ExpectedPts sp / 20)"

lemma movable_pitchers:
  "mset (map (\<lambda>c. (sp_Player c, effective_pts c)) (movable (generic_pitchers g))) =
     mset (map (\<lambda>sp. (sc_Player sp, turn_value sp)) (filter (\<lambda>sp. sc_HasGame sp \<and> \<not> p_Locked (sc_Player sp)) g))"
proof -
  let ?u = "\<lambda>sp. \<not> p_Locked (sp_Player sp)"
  have sw: "filter ?u (map discounted (filter sc_HasGame g)) =
      map discounted (filter (\<lambda>sp. sc_HasGame sp \<and> \<not> p_Locked (sc_Player sp)) g)"
    by (induction g) (simp_all add: discounted_def)
  have "mset (movable (generic_pitchers g)) = mset (filter ?u (map discounted (filter sc_HasGame g)))"
    by (simp only: movable_def generic_pitchers_def mset_filter mset_sort_slice)
  then have "mset (movable (generic_pitchers g)) = mset (map discounted (filter (\<lambda>sp. sc_HasGame sp \<and> \<not> p_Locked (sc_Player sp)) g))"
    by (simp only: sw)
  then have "mset (map (\<lambda>c. (sp_Player c, effective_pts c)) (movable (generic_pitchers g))) =
      mset (map (\<lambda>c. (sp_Player c, effective_pts c)) (map discounted (filter (\<lambda>sp. sc_HasGame sp \<and> \<not> p_Locked (sc_Player sp)) g)))"
    by (metis mset_map)
  also have "map (\<lambda>c. (sp_Player c, effective_pts c)) (map discounted (filter (\<lambda>sp. sc_HasGame sp \<and> \<not> p_Locked (sc_Player sp)) g)) =
      map (\<lambda>sp. (sc_Player sp, turn_value sp)) (filter (\<lambda>sp. sc_HasGame sp \<and> \<not> p_Locked (sc_Player sp)) g)"
    by (auto simp: discounted_def effective_pts_def turn_value_def non_starter_discount_def)
  finally show ?thesis .
qed

lemma plan_not_benched:
  assumes "ps \<in> set (pitcher_plan nrm roster pt pr has src w slots budget)"
  shows "ps_PlayerID ps \<notin> set (pr_ToBench (optimize_pitcher_lineup nrm roster pt pr has src w slots budget))"
proof -
  have "ps_PlayerID ps \<in> set (retained roster (current_assign roster) slots (pitcher_plan nrm roster pt pr has src w slots budget))"
    using assms by (rule_tac retained_spec [of roster "current_assign roster" slots "pitcher_plan nrm roster pt pr has src w slots budget"]) auto
  then show ?thesis by (auto simp: optimize_pitcher_moves to_bench_def)
qed

text \<open>C10. The pitching lineup is optimal. With non-negative points on a grid, the moves realise a best filling
  of the free slots, and nobody it uses is benched. Those to choose from are exactly the unlocked pitchers with a
  game, each at his expected points, or at a twentieth of them if he could start but is not starting.\<close>

theorem pitcher_optimal:
  assumes "good_points q (generic_pitchers (gated_pitchers nrm roster pt pr has src w budget))"
  shows "\<exists>cs. let g = gated_pitchers nrm roster pt pr has src w budget; cur = current_assign roster;
      cands = movable (generic_pitchers g); free = free_slots (for_partition g) slots cur
    in mset (map (\<lambda>c. (sp_Player c, effective_pts c)) cands) =
         mset (map (\<lambda>sp. (sc_Player sp, if sc_IsStarter sp \<or> \<not> SP_eligible_player (sc_Player sp) then sc_ExpectedPts sp
             else sc_ExpectedPts sp / 20)) (filter (\<lambda>sp. sc_HasGame sp \<and> \<not> p_Locked (sc_Player sp)) g)) \<and>
       valid_filling cands eligible_for_pitcher_slot free cs \<and>
       pr_ToActivate (optimize_pitcher_lineup nrm roster pt pr has src w slots budget) =
         changed_activate cur (filled cands free cs @ locked_slots (for_partition g) cur) \<and>
       (\<forall>ps \<in> set (filled cands free cs).
          ps_PlayerID ps \<notin> set (pr_ToBench (optimize_pitcher_lineup nrm roster pt pr has src w slots budget))) \<and>
       (\<forall>cs'. valid_filling cands eligible_for_pitcher_slot free cs' \<longrightarrow>
          filling_value cands cs' \<le> filling_value cands cs)"
proof -
  let ?g = "gated_pitchers nrm roster pt pr has src w budget"
  have "good_input q (movable (generic_pitchers ?g))"
    using assms sorted_wrt_map_filter [OF generic_sorted]
    by (auto simp: good_input_def good_points_def movable_def)
  from optimal_assignment_optimal_aux [OF this] obtain cs where
    cs: "valid_filling (movable (generic_pitchers ?g)) eligible_for_pitcher_slot (free_slots (for_partition ?g) slots (current_assign roster)) cs"
      "pitcher_plan nrm roster pt pr has src w slots budget =
         filled (movable (generic_pitchers ?g)) (free_slots (for_partition ?g) slots (current_assign roster)) cs @
           locked_slots (for_partition ?g) (current_assign roster)"
      "\<forall>cs'. valid_filling (movable (generic_pitchers ?g)) eligible_for_pitcher_slot (free_slots (for_partition ?g) slots (current_assign roster)) cs' \<longrightarrow>
         filling_value (movable (generic_pitchers ?g)) cs' \<le> filling_value (movable (generic_pitchers ?g)) cs"
    unfolding pitcher_plan_def full_assignment_eq by metis
  have "ps_PlayerID ps \<notin> set (pr_ToBench (optimize_pitcher_lineup nrm roster pt pr has src w slots budget))"
    if "ps \<in> set (filled (movable (generic_pitchers ?g)) (free_slots (for_partition ?g) slots (current_assign roster)) cs)" for ps
    by (rule plan_not_benched) (use that cs(2) in simp)
  then show ?thesis
    unfolding Let_def using cs movable_pitchers [of ?g, unfolded turn_value_def]
    by (intro exI [of _ cs]) (simp only: optimize_pitcher_moves(1), blast)
qed

section \<open>Witnesses\<close>

text \<open>
  A locked pitcher without a game who holds one of two P slots, an active starter, and a
  reliever on the bench.
\<close>

definition demo_staff :: "player list" where
  "demo_staff =
     [(demo_player ''a'' [pos_SP])\<lparr>p_Status := ''Active'', p_RosterPosition := pos_P, p_Locked := True, p_IsInjured := True\<rparr>,
      (demo_player ''b'' [pos_SP])\<lparr>p_Status := ''Active'', p_RosterPosition := pos_P\<rparr>,
      demo_player ''c'' [pos_RP]]"

definition demo_pitcher_source :: "pitcher_projection source" where
  "demo_pitcher_source = \<lparr>src_projection = (\<lambda>_ _. None),
     src_pts_per_game = Some (\<lambda>name _ _. Some (if name = ''b'' then 20 else 3))\<rparr>"

definition demo_p_slots :: "slot list" where
  "demo_p_slots = [\<lparr>sl_PosID = pos_P, sl_PosName = ''P''\<rparr>, \<lparr>sl_PosID = pos_P, sl_PosName = ''P''\<rparr>]"

abbreviation demo_pitch :: "player list \<Rightarrow> pitcher_result" where
  "demo_pitch roster \<equiv> optimize_pitcher_lineup (\<lambda>s. s) roster (\<lambda>_. True) [''x'' \<mapsto> ''BOS''] True
     demo_pitcher_source Map.empty demo_p_slots None"

abbreviation demo_gated :: "scored_pitcher list" where
  "demo_gated \<equiv> gated_pitchers (\<lambda>s. s) demo_staff (\<lambda>_. True) [''x'' \<mapsto> ''BOS''] True demo_pitcher_source Map.empty None"

definition demo_reliever :: scored_player where
  "demo_reliever = \<lparr>sp_Player = demo_player ''c'' [pos_RP], sp_ExpectedPts = 3, sp_HasGame = True\<rparr>"

definition demo_ace :: scored_player where
  "demo_ace = \<lparr>sp_Player = (demo_player ''b'' [pos_SP])\<lparr>p_Status := ''Active'', p_RosterPosition := pos_P\<rparr>,
     sp_ExpectedPts = 1, sp_HasGame = True\<rparr>"

text \<open>A discounted ace (20 points, not starting) ranks below the reliever's 3.\<close>

lemma demo_pitch_result:
  "pr_ToActivate (demo_pitch demo_staff) = [\<lparr>ps_PlayerID = ''c'', ps_PosID = pos_P\<rparr>] \<and>
   pr_ToBench (demo_pitch demo_staff) = [''b'']"
  by code_simp

lemma demo_staff_ids: "distinct (map p_ID demo_staff)"
  by (simp add: demo_staff_def demo_player_def)

theorem pitcher_locked_never_moved_witness:
  "''a'' \<notin> set (pr_ToBench (demo_pitch demo_staff)) \<and>
   ''a'' \<notin> ps_PlayerID ` set (pr_ToActivate (demo_pitch demo_staff))"
  using pitcher_locked_never_moved [OF demo_staff_ids,
      of "(demo_player ''a'' [pos_SP])\<lparr>p_Status := ''Active'', p_RosterPosition := pos_P, p_Locked := True, p_IsInjured := True\<rparr>"]
  by (simp add: demo_staff_def demo_player_def)

theorem pitcher_within_capacity_witness:
  "length (active_at (map (apply_player (pr_ToActivate (demo_pitch demo_staff))
     (pr_ToBench (demo_pitch demo_staff))) demo_staff) pos_P) \<le> slot_capacity demo_p_slots pos_P"
  by (rule pitcher_within_capacity [OF demo_staff_ids])
     (simp_all add: demo_staff_def demo_player_def active_at_def slot_capacity_def demo_p_slots_def)

text \<open>The ace who is not starting counts for a twentieth of his 20 points, so that the reliever takes the slot.\<close>

theorem pitcher_optimal_witness:
  "\<exists>cs free. (\<forall>cs'. valid_filling [demo_reliever, demo_ace] eligible_for_pitcher_slot free cs' \<longrightarrow>
      filling_value [demo_reliever, demo_ace] cs' \<le> filling_value [demo_reliever, demo_ace] cs) \<and>
    changed_activate (current_assign demo_staff) (filled [demo_reliever, demo_ace] free cs @
      locked_slots (for_partition demo_gated) (current_assign demo_staff)) = [\<lparr>ps_PlayerID = ''c'', ps_PosID = pos_P\<rparr>]"
proof -
  have cands: "generic_pitchers demo_gated = [demo_reliever, demo_ace]" by code_simp
  then have "good_points 1 (generic_pitchers demo_gated)"
    by (auto simp: good_points_def effective_pts_def eps_def on_grid_def demo_reliever_def demo_ace_def intro: exI [of _ 3] exI [of _ 1])
  moreover have "movable (generic_pitchers demo_gated) = [demo_reliever, demo_ace]" unfolding cands by code_simp
  ultimately show ?thesis
    using pitcher_optimal [of 1 "\<lambda>s. s" demo_staff "\<lambda>_. True" "[''x'' \<mapsto> ''BOS'']" True demo_pitcher_source Map.empty None demo_p_slots]
      demo_pitch_result unfolding Let_def by (metis (no_types, lifting))
qed

end
