(* ===== verification/Apply_Lineup.thy ===== *)
theory Apply_Lineup
  imports Positions
begin

text \<open>
  Posting a lineup to Fantrax: \<open>internal/fantrax/apply_lineup.go\<close>. Fantrax rejects a whole
  field map when one player in it is locked, so the code retries once without the players the
  rejection names, drops the promotions that needed their slots, and verifies what landed.

  The Fantrax client library is a parameter: a record with its two status codes and its
  \<open>BuildFieldMapFromRoster\<close>. The executor is a function of the field maps posted before and
  the one posted now; the list of posted maps is threaded through, so every call is visible.
\<close>

section \<open>Data\<close>

record raw_row =
  rw_ScorerID :: string
  rw_Name :: string

text \<open>The roster response: \<open>None\<close> when it is \<open>nil\<close> or has no responses.\<close>

type_synonym raw_roster = "raw_row list list option"

record roster_position =
  rp_PosID :: string
  rp_StID :: string

type_synonym field_map = "string \<rightharpoonup> roster_position"

record fantrax_api =
  api_Active :: string
  api_Reserve :: string
  api_field_map :: "raw_roster \<Rightarrow> field_map"

text \<open>A response is the list of its \<open>MainMsg\<close> texts; a \<open>nil\<close> response is the empty list.\<close>

type_synonym executor = "field_map list \<Rightarrow> field_map \<Rightarrow> string + string list"

datatype apply_error =
    Apply_failed string
  | Confirm_failed string
  | Not_retrying "string list"
  | Rejected string
  | Rejected_after_retry string
  | Verify_failed "string list"

section \<open>The rejection message\<close>

text \<open>
  The regular expression of \<open>lockedPlayerLink\<close> as a sequence of items: literals, greedy
  repetitions of a character class, and the captured group. Matching backtracks the way
  \<open>regexp\<close> does: the longest repetition that lets the rest match is taken.
\<close>

datatype pat = Lit string | Many "char \<Rightarrow> bool" | Cap "char \<Rightarrow> bool"

text \<open>\<open>match_items items s\<close>: the captured text and what is left after the match.\<close>

function match_items :: "pat list \<Rightarrow> string \<Rightarrow> string \<Rightarrow> (string \<times> string) option" where
  "match_items [] cap s = Some (cap, s)"
| "match_items (Lit l # ps) cap s =
     (if has_prefix s l then match_items ps cap (drop (length l) s) else None)"
| "match_items (Many P # ps) cap [] = match_items ps cap []"
| "match_items (Many P # ps) cap (c # s) =
     (if P c then (case match_items (Many P # ps) cap s of
                     Some r \<Rightarrow> Some r | None \<Rightarrow> match_items ps cap (c # s))
      else match_items ps cap (c # s))"
| "match_items (Cap P # ps) cap [] = None"
| "match_items (Cap P # ps) cap (c # s) =
     (if P c then (case match_items (Cap P # ps) (cap @ [c]) s of
                     Some r \<Rightarrow> Some r | None \<Rightarrow> match_items ps (cap @ [c]) s)
      else None)"
  by pat_completeness auto
termination
  by (relation "measures [\<lambda>(ps, cap, s). length ps, \<lambda>(ps, cap, s). length s]") auto

definition locked_player_link :: "pat list" where
  "locked_player_link = [Lit ''<a '', Many (\<lambda>c. c \<noteq> CHR ''>''), Lit (''class='' @ [CHR 0x22] @ ''hand''),
     Many (\<lambda>c. c \<noteq> CHR 0x22), Lit [CHR 0x22], Many (\<lambda>c. c \<noteq> CHR ''>''), Lit ''>'',
     Cap (\<lambda>c. c \<noteq> CHR ''<''), Lit ''</a>'']"

text \<open>\<open>FindAllStringSubmatch\<close>: leftmost matches that do not overlap (no match is empty here).\<close>

fun find_all :: "nat \<Rightarrow> pat list \<Rightarrow> string \<Rightarrow> string list" where
  "find_all 0 ps s = []"
| "find_all (Suc n) ps [] = []"
| "find_all (Suc n) ps (c # s) =
     (case match_items ps [] (c # s) of
        Some (cap, rest) \<Rightarrow> cap # find_all n ps rest
      | None \<Rightarrow> find_all n ps s)"

definition locked_prefix :: string where
  "locked_prefix = ''already locked in this period''"

definition parse_locked_player_names :: "string \<Rightarrow> string list" where
  "parse_locked_player_names msg =
     (if \<not> str_contains msg locked_prefix then []
      else map trim_space (find_all (length msg) locked_player_link msg))"

definition main_msg :: "string list \<Rightarrow> string" where
  "main_msg resp = (case resp of [] \<Rightarrow> [] | m # _ \<Rightarrow> m)"

definition is_confirm_prompt :: "string \<Rightarrow> bool" where
  "is_confirm_prompt msg \<longleftrightarrow> msg \<noteq> [] \<and> str_contains msg ''Please confirm''"

definition is_benign_no_change_msg :: "string \<Rightarrow> bool" where
  "is_benign_no_change_msg msg \<longleftrightarrow>
     str_contains msg ''no changes detected'' \<or> str_contains (to_lower msg) ''same lineup''"

section \<open>Names, exclusions and field maps\<close>

definition roster_rows :: "raw_roster \<Rightarrow> raw_row list" where
  "roster_rows r = (case r of None \<Rightarrow> [] | Some tables \<Rightarrow> concat tables)"

definition build_name_to_id :: "(string \<Rightarrow> string) \<Rightarrow> raw_roster \<Rightarrow> (string \<rightharpoonup> string)" where
  "build_name_to_id nrm r =
     fold (\<lambda>row m. if rw_ScorerID row = [] \<or> rw_Name row = [] then m
                   else m(nrm (rw_Name row) \<mapsto> rw_ScorerID row)) (roster_rows r) Map.empty"

text \<open>\<open>excluded\<close> is a Go set; here a list without duplicates, so that its size is its length.\<close>

fun exclude_by_name ::
  "(string \<Rightarrow> string) \<Rightarrow> string list \<Rightarrow> (string \<rightharpoonup> string) \<Rightarrow> string list \<Rightarrow> string list" where
  "exclude_by_name nrm [] nameToID excluded = excluded"
| "exclude_by_name nrm (n # names) nameToID excluded =
     (case nameToID (nrm n) of
        None \<Rightarrow> exclude_by_name nrm names nameToID excluded
      | Some i \<Rightarrow> if i \<in> set excluded then exclude_by_name nrm names nameToID excluded
                  else exclude_by_name nrm names nameToID (i # excluded))"

definition zero_position :: roster_position where
  "zero_position = \<lparr>rp_PosID = [], rp_StID = []\<rparr>"

definition read_pos :: "field_map \<Rightarrow> string \<Rightarrow> roster_position" where
  "read_pos m k = (case m k of None \<Rightarrow> zero_position | Some p \<Rightarrow> p)"

definition put_active :: "fantrax_api \<Rightarrow> string list \<Rightarrow> player_slot \<Rightarrow> field_map \<Rightarrow> field_map" where
  "put_active api excluded ps m =
     (if ps_PlayerID ps \<in> set excluded then m
      else m(ps_PlayerID ps \<mapsto> (read_pos m (ps_PlayerID ps))
               \<lparr>rp_StID := api_Active api, rp_PosID := ps_PosID ps\<rparr>))"

definition put_reserve :: "fantrax_api \<Rightarrow> string list \<Rightarrow> string \<Rightarrow> field_map \<Rightarrow> field_map" where
  "put_reserve api excluded i m =
     (if i \<in> set excluded then m
      else m(i \<mapsto> (read_pos m i)\<lparr>rp_StID := api_Reserve api, rp_PosID := []\<rparr>))"

definition build_field_map_with_mods ::
  "fantrax_api \<Rightarrow> raw_roster \<Rightarrow> player_slot list \<Rightarrow> string list \<Rightarrow> string list \<Rightarrow> field_map" where
  "build_field_map_with_mods api r active reserve excluded =
     fold (put_reserve api excluded) reserve
       (fold (put_active api excluded) active (api_field_map api r))"

text \<open>\<open>stranded\<close>: how many active slots of each position stay occupied.\<close>

definition stranded_slots ::
  "fantrax_api \<Rightarrow> field_map \<Rightarrow> string list \<Rightarrow> string list \<Rightarrow> string \<Rightarrow> nat" where
  "stranded_slots api orig reserve excluded x =
     length (filter (\<lambda>i. i \<in> set excluded \<and> rp_StID (read_pos orig i) = api_Active api
        \<and> rp_PosID (read_pos orig i) \<noteq> [] \<and> rp_PosID (read_pos orig i) = x) reserve)"

definition is_promotion :: "fantrax_api \<Rightarrow> field_map \<Rightarrow> player_slot \<Rightarrow> bool" where
  "is_promotion api orig ps \<longleftrightarrow> rp_StID (read_pos orig (ps_PlayerID ps)) \<noteq> api_Active api"

fun drop_loop ::
  "fantrax_api \<Rightarrow> field_map \<Rightarrow> player_slot list \<Rightarrow> (string \<Rightarrow> nat) \<Rightarrow>
   player_slot list \<times> player_slot list" where
  "drop_loop api orig [] stranded = ([], [])"
| "drop_loop api orig (ps # active) stranded =
     (if is_promotion api orig ps \<and> stranded (ps_PosID ps) > 0 then
        (let (kept, dropped) = drop_loop api orig active
               (stranded(ps_PosID ps := stranded (ps_PosID ps) - 1))
         in (kept, ps # dropped))
      else (let (kept, dropped) = drop_loop api orig active stranded in (ps # kept, dropped)))"

text \<open>With nothing stranded the loop keeps everything, so the code's early return is the loop.\<close>

definition drop_stranded_activations ::
  "fantrax_api \<Rightarrow> field_map \<Rightarrow> player_slot list \<Rightarrow> string list \<Rightarrow> string list \<Rightarrow>
   player_slot list \<times> player_slot list" where
  "drop_stranded_activations api orig active reserve excluded =
     drop_loop api orig active (stranded_slots api orig reserve excluded)"

definition has_effective_changes :: "player_slot list \<Rightarrow> string list \<Rightarrow> string list \<Rightarrow> bool" where
  "has_effective_changes active reserve excluded \<longleftrightarrow>
     list_ex (\<lambda>ps. ps_PlayerID ps \<notin> set excluded) active \<or> list_ex (\<lambda>i. i \<notin> set excluded) reserve"

section \<open>Verification of a retry\<close>

definition unmet_active :: "fantrax_api \<Rightarrow> field_map \<Rightarrow> string list \<Rightarrow> player_slot list \<Rightarrow> string list" where
  "unmet_active api actual excluded active =
     map ps_PlayerID (filter (\<lambda>ps. ps_PlayerID ps \<notin> set excluded \<and>
       (rp_StID (read_pos actual (ps_PlayerID ps)) \<noteq> api_Active api \<or>
        rp_PosID (read_pos actual (ps_PlayerID ps)) \<noteq> ps_PosID ps)) active)"

definition unmet_reserve :: "fantrax_api \<Rightarrow> field_map \<Rightarrow> string list \<Rightarrow> string list \<Rightarrow> string list" where
  "unmet_reserve api actual excluded reserve =
     filter (\<lambda>i. i \<notin> set excluded \<and> rp_StID (read_pos actual i) \<noteq> api_Reserve api) reserve"

text \<open>
  \<open>verifyExcludedRetry\<close>. The fetcher is optional; its answer is an error or a roster. The
  error carries the IDs of the unmet changes where the code formats a message.
\<close>

definition verify_excluded_retry ::
  "fantrax_api \<Rightarrow> (string + raw_roster) option \<Rightarrow> player_slot list \<Rightarrow> string list \<Rightarrow> string list \<Rightarrow>
   apply_error + unit" where
  "verify_excluded_retry api fetch active reserve excluded =
     (if excluded = [] then Inr ()
      else (case fetch of
              None \<Rightarrow> Inr ()
            | Some (Inl _) \<Rightarrow> Inr ()
            | Some (Inr roster) \<Rightarrow>
               (let actual = api_field_map api roster;
                    unmet = unmet_active api actual excluded active
                          @ unmet_reserve api actual excluded reserve
                in if unmet \<noteq> [] then Inl (Verify_failed unmet) else Inr ())))"

section \<open>The retry loop\<close>

text \<open>
  One pass of the loop per unit of \<open>left\<close>, which counts the attempts still allowed
  (\<open>attempt + 1 < maxAttempts\<close> is \<open>left > 1\<close>). \<open>fetch\<close> depends on the maps posted.
\<close>

fun apply_loop ::
  "(string \<Rightarrow> string) \<Rightarrow> fantrax_api \<Rightarrow> executor \<Rightarrow> (field_map list \<Rightarrow> (string + raw_roster) option) \<Rightarrow>
   raw_roster \<Rightarrow> string list \<Rightarrow> nat \<Rightarrow> player_slot list \<Rightarrow> string list \<Rightarrow> string \<Rightarrow> field_map list \<Rightarrow>
   (apply_error + unit) \<times> field_map list" where
  "apply_loop nrm api exec fetch r reserve 0 active excluded lastMsg posts =
     ((if lastMsg \<noteq> [] then Inl (Rejected_after_retry lastMsg) else Inr ()), posts)"
| "apply_loop nrm api exec fetch r reserve (Suc left) active excluded lastMsg posts =
     (let fm = build_field_map_with_mods api r active reserve excluded in
      case exec posts fm of
        Inl e \<Rightarrow> (Inl (Apply_failed e), posts @ [fm])
      | Inr resp \<Rightarrow>
         (let msg = main_msg resp;
              posts1 = posts @ [fm];
              finish = (\<lambda>msg posts2.
                if msg = [] \<or> is_benign_no_change_msg msg
                then (verify_excluded_retry api (fetch posts2) active reserve excluded, posts2)
                else if left = 0 then (Inl (Rejected msg), posts2)
                else (let names = parse_locked_player_names msg in
                      if names = [] then (Inl (Rejected msg), posts2)
                      else (let excluded' = exclude_by_name nrm names (build_name_to_id nrm r) excluded;
                                (active', dropped) = drop_stranded_activations api
                                   (api_field_map api r) active reserve excluded'
                            in if \<not> has_effective_changes active' reserve excluded'
                               then (Inl (Not_retrying names), posts2)
                               else apply_loop nrm api exec fetch r reserve left active' excluded' msg posts2)))
          in if is_confirm_prompt msg then
               (case exec posts1 fm of
                  Inl e \<Rightarrow> (Inl (Confirm_failed e), posts1 @ [fm])
                | Inr resp2 \<Rightarrow> finish (main_msg resp2) (posts1 @ [fm]))
             else finish msg posts1))"

definition apply_lineup_with_locked_player_retry ::
  "(string \<Rightarrow> string) \<Rightarrow> fantrax_api \<Rightarrow> executor \<Rightarrow> (field_map list \<Rightarrow> (string + raw_roster) option) \<Rightarrow>
   raw_roster \<Rightarrow> player_slot list \<Rightarrow> string list \<Rightarrow> (apply_error + unit) \<times> field_map list" where
  "apply_lineup_with_locked_player_retry nrm api exec fetch r active reserve =
     apply_loop nrm api exec fetch r reserve 2 active [] [] []"

section \<open>Field maps\<close>

lemma fold_put_active_excluded:
  "i \<in> set excluded \<Longrightarrow> fold (put_active api excluded) active m i = m i"
  by (induction active arbitrary: m) (auto simp: put_active_def)

lemma fold_put_reserve_excluded:
  "i \<in> set excluded \<Longrightarrow> fold (put_reserve api excluded) reserve m i = m i"
  by (induction reserve arbitrary: m) (auto simp: put_reserve_def)

lemma mods_excluded:
  "i \<in> set excluded \<Longrightarrow> build_field_map_with_mods api r active reserve excluded i = api_field_map api r i"
  by (simp add: build_field_map_with_mods_def fold_put_active_excluded fold_put_reserve_excluded)

lemma exclude_by_name_mono: "set excluded \<subseteq> set (exclude_by_name nrm names m excluded)"
  by (induction nrm names m excluded rule: exclude_by_name.induct) (auto split: option.splits)

lemma exclude_by_name_adds:
  "n \<in> set names \<Longrightarrow> m (nrm n) = Some i \<Longrightarrow> i \<in> set (exclude_by_name nrm names m excluded)"
proof (induction nrm names m excluded rule: exclude_by_name.induct)
  case (2 nrm n' names m excluded)
  show ?case
  proof (cases "m (nrm n')")
    case None
    with 2 show ?thesis by auto
  next
    case (Some j)
    show ?thesis
    proof (cases "n = n'")
      case True
      with "2.prems" Some exclude_by_name_mono [of excluded nrm names m]
        exclude_by_name_mono [of "j # excluded" nrm names m] show ?thesis by auto
    next
      case False
      with 2 Some show ?thesis by auto
    qed
  qed
qed simp

section \<open>Stranded promotions\<close>

lemma drop_loop_mset:
  "drop_loop api orig active st = (kept, dropped) \<Longrightarrow> mset active = mset kept + mset dropped"
  by (induction api orig active st arbitrary: kept dropped rule: drop_loop.induct)
     (auto simp: Let_def split: if_splits prod.splits)

lemma drop_loop_promotions:
  "drop_loop api orig active st = (kept, dropped) \<Longrightarrow> ps \<in> set dropped \<Longrightarrow> is_promotion api orig ps"
  by (induction api orig active st arbitrary: kept dropped rule: drop_loop.induct)
     (auto simp: Let_def split: if_splits prod.splits)

lemma drop_loop_count:
  "drop_loop api orig active st = (kept, dropped) \<Longrightarrow>
   length (filter (\<lambda>ps. ps_PosID ps = x) dropped) =
     min (st x) (length (filter (\<lambda>ps. is_promotion api orig ps \<and> ps_PosID ps = x) active))"
proof (induction active arbitrary: st kept dropped)
  case (Cons ps active)
  show ?case
  proof (cases "is_promotion api orig ps \<and> st (ps_PosID ps) > 0")
    case True
    let ?st = "st(ps_PosID ps := st (ps_PosID ps) - 1)"
    obtain k d where kd: "drop_loop api orig active ?st = (k, d)" by fastforce
    from Cons.prems True kd have d: "dropped = ps # d" by (simp add: Let_def)
    from Cons.IH [OF kd] True show ?thesis by (cases "ps_PosID ps = x") (auto simp: d)
  next
    case False
    obtain k d where kd: "drop_loop api orig active st = (k, d)" by fastforce
    from Cons.prems False kd have d: "dropped = d" by (auto simp: Let_def)
    from Cons.IH [OF kd] False show ?thesis by (cases "ps_PosID ps = x") (auto simp: d)
  qed
qed simp

lemma drop_loop_none: "(\<And>x. st x = 0) \<Longrightarrow> drop_loop api orig active st = (active, [])"
  by (induction active) (auto simp: Let_def)

text \<open>One promotion per stranded slot. \<open>dropStrandedActivations\<close> splits the activations in
  two; it drops only promotions, and for every position as many as the exclusions left
  occupied slots there, or all the promotions to it when there are fewer.\<close>

theorem drop_one_per_stranded_slot:
  assumes "drop_stranded_activations api orig active reserve excluded = (kept, dropped)"
  shows "mset active = mset kept + mset dropped \<and> (\<forall>ps \<in> set dropped. is_promotion api orig ps) \<and>
    (\<forall>x. length (filter (\<lambda>ps. ps_PosID ps = x) dropped) =
       min (stranded_slots api orig reserve excluded x)
           (length (filter (\<lambda>ps. is_promotion api orig ps \<and> ps_PosID ps = x) active)))"
  using drop_loop_mset drop_loop_promotions drop_loop_count assms
  unfolding drop_stranded_activations_def by blast

section \<open>The retry loop\<close>

lemma apply_loop_posts:
  "\<exists>new. snd (apply_loop nrm api exec fetch r reserve left active excluded lastMsg posts) = posts @ new \<and>
     length new \<le> 2 * left"
proof (induction left arbitrary: active excluded lastMsg posts)
  case (Suc left)
  have step: "\<exists>new. snd (apply_loop nrm api exec fetch r reserve left a e m (posts @ ps)) = posts @ new \<and>
      length new \<le> 2 * left + length ps" for a e m ps
    using Suc.IH [of a e m "posts @ ps"] by auto
  show ?case
    using step [where ps = "[build_field_map_with_mods api r active reserve excluded]"]
      step [where ps = "[build_field_map_with_mods api r active reserve excluded,
          build_field_map_with_mods api r active reserve excluded]"]
    by (fastforce simp: Let_def split: sum.split prod.split)
qed simp

lemma apply_loop_not_after_retry:
  "0 < left \<Longrightarrow> fst (apply_loop nrm api exec fetch r reserve left active excluded lastMsg posts)
     \<noteq> Inl (Rejected_after_retry m)"
proof (induction left arbitrary: active excluded lastMsg posts)
  case (Suc left)
  have v: "verify_excluded_retry api f active reserve excluded \<noteq> Inl (Rejected_after_retry m)" for f
    by (simp add: verify_excluded_retry_def Let_def split: option.split sum.split)
  show ?case
    using Suc.IH v by (cases left) (simp_all add: Let_def split: sum.split prod.split)
qed simp

text \<open>C22. Two attempts at most. \<open>applyLineupWithLockedPlayerRetry\<close> returns after at most four
  posts (two attempts, each with a confirmation), and the error after the loop, "rejected
  after retry", is never the one it returns: the last attempt returns inside the loop.\<close>

theorem apply_posts_bounded:
  "length (snd (apply_lineup_with_locked_player_retry nrm api exec fetch r active reserve)) \<le> 4 \<and>
   fst (apply_lineup_with_locked_player_retry nrm api exec fetch r active reserve)
     \<noteq> Inl (Rejected_after_retry m)"
  using apply_loop_posts [of nrm api exec fetch r reserve 2 active "[]" "[]" "[]"]
    apply_loop_not_after_retry [of 2 nrm api exec fetch r reserve active "[]" "[]" "[]" m]
  by (auto simp: apply_lineup_with_locked_player_retry_def)

text \<open>What a successful return means.\<close>

definition landed :: "fantrax_api \<Rightarrow> raw_roster \<Rightarrow> player_slot list \<Rightarrow> string list \<Rightarrow> string list \<Rightarrow> bool" where
  "landed api roster active reserve excluded \<longleftrightarrow>
     (\<forall>ps \<in> set active. ps_PlayerID ps \<notin> set excluded \<longrightarrow>
        rp_StID (read_pos (api_field_map api roster) (ps_PlayerID ps)) = api_Active api \<and>
        rp_PosID (read_pos (api_field_map api roster) (ps_PlayerID ps)) = ps_PosID ps) \<and>
     (\<forall>i \<in> set reserve. i \<notin> set excluded \<longrightarrow>
        rp_StID (read_pos (api_field_map api roster) i) = api_Reserve api)"

lemma verify_landed:
  "verify_excluded_retry api (Some (Inr roster)) active reserve excluded = Inr () \<Longrightarrow> excluded \<noteq> [] \<Longrightarrow>
   landed api roster active reserve excluded"
  by (auto simp: verify_excluded_retry_def landed_def unmet_active_def unmet_reserve_def Let_def
      filter_empty_conv split: if_splits)

definition settled ::
  "fantrax_api \<Rightarrow> (field_map list \<Rightarrow> (string + raw_roster) option) \<Rightarrow> raw_roster \<Rightarrow> player_slot list \<Rightarrow>
   string list \<Rightarrow> field_map list \<Rightarrow> bool" where
  "settled api fetch r active reserve posts \<longleftrightarrow>
     (\<exists>act exc. set act \<subseteq> set active \<and> (exc = [] \<longrightarrow> act = active) \<and>
        posts \<noteq> [] \<and> last posts = build_field_map_with_mods api r act reserve exc \<and>
        (exc \<noteq> [] \<longrightarrow> (\<forall>roster. fetch posts = Some (Inr roster) \<longrightarrow> landed api roster act reserve exc)))"

lemma settledI:
  assumes "set act \<subseteq> set active" "exc = [] \<longrightarrow> act = active"
    and "posts \<noteq> []" "last posts = build_field_map_with_mods api r act reserve exc"
    and "verify_excluded_retry api (fetch posts) act reserve exc = Inr ()"
  shows "settled api fetch r active reserve posts"
  using assms verify_landed unfolding settled_def by metis

lemma drop_stranded_subset:
  assumes "drop_stranded_activations api orig active reserve excluded = (kept, dropped)"
  shows "set kept \<subseteq> set active" "excluded = [] \<Longrightarrow> kept = active"
proof -
  show "set kept \<subseteq> set active"
    using drop_loop_mset [OF assms [unfolded drop_stranded_activations_def]]
    by (metis le_add1 mset_subset_eqD set_mset_mset subsetI mset_subset_eq_add_left)
  show "excluded = [] \<Longrightarrow> kept = active"
    using assms by (simp add: drop_stranded_activations_def stranded_slots_def drop_loop_none)
qed

lemma apply_loop_settled:
  assumes "fst (apply_loop nrm api exec fetch r reserve left act exc lastMsg posts) = Inr ()"
    and "0 < left" and "set act \<subseteq> set active" "exc = [] \<longrightarrow> act = active"
  shows "settled api fetch r active reserve
    (snd (apply_loop nrm api exec fetch r reserve left act exc lastMsg posts))"
  using assms
proof (induction left arbitrary: act exc lastMsg posts)
  case (Suc left)
  let ?fm = "build_field_map_with_mods api r act reserve exc"
  have v: "verify_excluded_retry api (fetch (ps @ [?fm])) act reserve exc = Inr () \<Longrightarrow>
      settled api fetch r active reserve (ps @ [?fm])" for ps
    by (rule settledI [of act active exc]) (use Suc.prems in auto)
  have again: "settled api fetch r active reserve (snd (apply_loop nrm api exec fetch r reserve left act' exc' m ps))"
    if "drop_stranded_activations api (api_field_map api r) act reserve exc' = (act', d)"
      "exc' = exclude_by_name nrm names (build_name_to_id nrm r) exc" "left \<noteq> 0"
      "fst (apply_loop nrm api exec fetch r reserve left act' exc' m ps) = Inr ()" for exc' act' d names m ps
  proof (rule Suc.IH [OF that(4)])
    show "0 < left" using that(3) by simp
    show "set act' \<subseteq> set active" using drop_stranded_subset(1) [OF that(1)] Suc.prems(3) by blast
    show "exc' = [] \<longrightarrow> act' = active"
      using drop_stranded_subset(2) [OF that(1)] exclude_by_name_mono [of exc nrm names "build_name_to_id nrm r"]
        Suc.prems(4) that(2) by auto
  qed
  from v [of posts] v [of "posts @ [?fm]"] again [OF _ refl] Suc.prems(1) show ?case
    by (auto simp: Let_def split: sum.splits prod.splits if_splits)
qed simp

text \<open>C11. A reported success is real. When \<open>applyLineupWithLockedPlayerRetry\<close> returns no error,
  the last map posted is the roster with all the intended moves, or, after an exclusion, with
  a subset of them; and in that case, if the roster could be fetched again, every move not
  excluded is in effect in it.\<close>

theorem apply_success_landed:
  assumes "apply_lineup_with_locked_player_retry nrm api exec fetch r active reserve = (Inr (), posts)"
  shows "settled api fetch r active reserve posts"
  using apply_loop_settled [of nrm api exec fetch r reserve 2 active "[]" "[]" "[]" active] assms
  by (simp add: apply_lineup_with_locked_player_retry_def)

lemma apply_loop_first:
  "\<exists>rest. snd (apply_loop nrm api exec fetch r reserve (Suc left) active excluded lastMsg posts) =
     posts @ build_field_map_with_mods api r active reserve excluded # rest"
proof -
  let ?fm = "build_field_map_with_mods api r active reserve excluded"
  have go: "\<exists>rest. snd (apply_loop nrm api exec fetch r reserve left a e m (posts @ ?fm # ps)) = posts @ ?fm # rest"
    for a e m ps
    using apply_loop_posts [of nrm api exec fetch r reserve left a e m "posts @ ?fm # ps"] by auto
  show ?thesis
    using go [where ps = "[]"] go [where ps = "[?fm]"]
    by (auto simp: Let_def split: sum.split prod.split)
qed

text \<open>The retry leaves the locked players alone. When the first post is rejected because of
  locked players and moves remain, the second map posted is the roster with the remaining
  moves, and every player the rejection names (and the roster knows) stands in it exactly as
  the roster has him.\<close>

theorem retry_leaves_locked_alone:
  assumes first: "exec [] (build_field_map_with_mods api r active reserve []) = Inr resp"
    and msg: "\<not> is_confirm_prompt (main_msg resp)" "main_msg resp \<noteq> []" "\<not> is_benign_no_change_msg (main_msg resp)"
    and names: "parse_locked_player_names (main_msg resp) = names" "names \<noteq> []"
    and exc: "exclude_by_name nrm names (build_name_to_id nrm r) [] = exc"
    and drop: "drop_stranded_activations api (api_field_map api r) active reserve exc = (act, dropped)"
    and eff: "has_effective_changes act reserve exc"
  shows "\<exists>rest. snd (apply_lineup_with_locked_player_retry nrm api exec fetch r active reserve) =
      build_field_map_with_mods api r active reserve [] #
      build_field_map_with_mods api r act reserve exc # rest \<and>
    (\<forall>n \<in> set names. \<forall>i. build_name_to_id nrm r (nrm n) = Some i \<longrightarrow>
       build_field_map_with_mods api r act reserve exc i = api_field_map api r i)"
proof -
  let ?fm = "build_field_map_with_mods api r active reserve []"
  have "apply_lineup_with_locked_player_retry nrm api exec fetch r active reserve =
      apply_loop nrm api exec fetch r reserve 1 act exc (main_msg resp) [?fm]"
    using assms by (simp add: apply_lineup_with_locked_player_retry_def numeral_2_eq_2 Let_def)
  then have "\<exists>rest. snd (apply_lineup_with_locked_player_retry nrm api exec fetch r active reserve) =
      ?fm # build_field_map_with_mods api r act reserve exc # rest"
    using apply_loop_first [of nrm api exec fetch r reserve 0 act exc "main_msg resp" "[?fm]"] by simp
  moreover have "build_field_map_with_mods api r act reserve exc i = api_field_map api r i"
    if "n \<in> set names" "build_name_to_id nrm r (nrm n) = Some i" for n i
    using exclude_by_name_adds [where m = "build_name_to_id nrm r" and excluded = "[]" and nrm = nrm, OF that] exc
    by (intro mods_excluded) simp
  ultimately show ?thesis by blast
qed

section \<open>Witnesses\<close>

text \<open>
  Two rostered players: the bench of one is refused because he is locked, and the promotion of
  the other into another slot goes through on the retry.
\<close>

definition demo_rows :: raw_roster where
  "demo_rows = Some [[\<lparr>rw_ScorerID = ''cav'', rw_Name = ''Cade''\<rparr>, \<lparr>rw_ScorerID = ''jmp'', rw_Name = ''Gage''\<rparr>]]"

definition demo_api :: fantrax_api where
  "demo_api = \<lparr>api_Active = ''1'', api_Reserve = ''2'', api_field_map = (\<lambda>_.
     [''cav'' \<mapsto> \<lparr>rp_PosID = pos_P, rp_StID = ''1''\<rparr>, ''jmp'' \<mapsto> \<lparr>rp_PosID = [], rp_StID = ''2''\<rparr>])\<rparr>"

definition demo_msg :: string where
  "demo_msg = ''already locked in this period: <a class='' @ [CHR 0x22] @ ''hand'' @ [CHR 0x22] @ ''>Cade</a>''"

lemma demo_msg_names: "parse_locked_player_names demo_msg = [''Cade'']"
  by code_simp

definition demo_exec :: executor where
  "demo_exec posts fm = Inr (if posts = [] then [demo_msg] else [])"

definition demo_active :: "player_slot list" where
  "demo_active = [\<lparr>ps_PlayerID = ''jmp'', ps_PosID = pos_SP\<rparr>]"

lemma demo_msg_kind:
  "\<not> is_confirm_prompt demo_msg" "demo_msg \<noteq> []" "\<not> is_benign_no_change_msg demo_msg"
  by code_simp+

lemma demo_exclusion: "exclude_by_name (\<lambda>s. s) [''Cade''] (build_name_to_id (\<lambda>s. s) demo_rows) [] = [''cav'']"
  by (simp add: build_name_to_id_def demo_rows_def roster_rows_def)

lemma demo_drop:
  "drop_stranded_activations demo_api (api_field_map demo_api demo_rows) demo_active [''cav''] [''cav''] =
     (demo_active, [])"
  by code_simp

theorem retry_leaves_locked_alone_witness:
  "\<exists>rest. snd (apply_lineup_with_locked_player_retry (\<lambda>s. s) demo_api demo_exec (\<lambda>_. None) demo_rows
       demo_active [''cav'']) =
      build_field_map_with_mods demo_api demo_rows demo_active [''cav''] [] #
      build_field_map_with_mods demo_api demo_rows demo_active [''cav''] [''cav''] # rest"
proof -
  have "demo_exec [] (build_field_map_with_mods demo_api demo_rows demo_active [''cav''] []) = Inr [demo_msg]"
    by (simp add: demo_exec_def)
  moreover have "has_effective_changes demo_active [''cav''] [''cav'']"
    by (simp add: has_effective_changes_def demo_active_def)
  ultimately show ?thesis
    using retry_leaves_locked_alone [of demo_exec demo_api demo_rows demo_active "[''cav'']" "[demo_msg]"
        "[''Cade'']" "\<lambda>s. s" "[''cav'']" demo_active "[]" "\<lambda>_. None"]
      demo_msg_kind demo_msg_names demo_exclusion demo_drop
    by (auto simp: main_msg_def)
qed

theorem drop_one_per_stranded_slot_witness:
  "mset demo_active = mset demo_active + mset []"
  using drop_one_per_stranded_slot [OF demo_drop] by blast

theorem apply_success_landed_witness:
  "\<exists>posts. settled demo_api (\<lambda>_. None) demo_rows demo_active [] posts \<and> length posts = 1"
proof -
  have "apply_lineup_with_locked_player_retry (\<lambda>s. s) demo_api (\<lambda>_ _. Inr []) (\<lambda>_. None) demo_rows demo_active [] =
      (Inr (), [build_field_map_with_mods demo_api demo_rows demo_active [] []])"
    by (simp add: apply_lineup_with_locked_player_retry_def numeral_2_eq_2 Let_def main_msg_def
        is_confirm_prompt_def verify_excluded_retry_def)
  from apply_success_landed [OF this] show ?thesis by (intro exI) (rule conjI, assumption, simp)
qed

end
