(* ===== verification/Playoffs.thy ===== *)
theory Playoffs
  imports Prelude
begin

text \<open>
  Weeks, periods and the playoff bracket: \<open>internal/fantrax/playoffs.go\<close>,
  \<open>matchup_weeks.go\<close>, \<open>matchup_week_resolve.go\<close>, \<open>scoring_day.go\<close>, \<open>gs_period_walk.go\<close>,
  and the period lookups and the game-start walk of \<open>gs_check.go\<close>.

  All these functions work on calendar dates (they compare them formatted as year, month, day,
  or as midnights), so a date is the number of its day. A matchup row's date text is \<open>None\<close>
  when it does not parse. The bracket and the matchup rows are the data types of the Fantrax
  client, with the fields the code reads; a zero time is \<open>None\<close>.
\<close>

type_synonym day = int

record scoring_period =
  sp_Number :: int
  sp_Caption :: string
  sp_StartDate :: day
  sp_EndDate :: day
  sp_Playoff :: bool

datatype slot_kind = SlotTeam | SlotSeed | SlotBye

record playoff_slot =
  pl_Kind :: slot_kind
  pl_TeamID :: string
  pl_TeamName :: string

record playoff_matchup =
  pm_Home :: playoff_slot
  pm_Away :: playoff_slot
  pm_HomeScore :: real
  pm_AwayScore :: real
  pm_Scored :: bool

record playoff_round =
  pr_Number :: int
  pr_ScoringPeriod :: int
  pr_StartDate :: day
  pr_EndDate :: day
  pr_Matchups :: "playoff_matchup list"

type_synonym bracket = "playoff_round list option"

record match_row =
  mr_ScoringPeriod :: int
  mr_Date :: "day option"
  mr_Away :: string
  mr_AwayPoints :: real
  mr_Home :: string
  mr_HomePoints :: real

section \<open>The bracket\<close>

definition rounds_of :: "bracket \<Rightarrow> playoff_round list" where
  "rounds_of b = (case b of None \<Rightarrow> [] | Some rs \<Rightarrow> rs)"

text \<open>\<open>caption\<close> renders the round number into the caption Fantrax uses.\<close>

definition playoff_periods :: "(int \<Rightarrow> string) \<Rightarrow> bracket \<Rightarrow> scoring_period list" where
  "playoff_periods caption b = map (\<lambda>r. \<lparr>sp_Number = pr_ScoringPeriod r,
     sp_Caption = caption (pr_Number r), sp_StartDate = pr_StartDate r, sp_EndDate = pr_EndDate r,
     sp_Playoff = True\<rparr>) (rounds_of b)"

definition round_drawn :: "playoff_round \<Rightarrow> bool" where
  "round_drawn r \<longleftrightarrow> list_all (\<lambda>m. \<not> (pl_Kind (pm_Home m) = SlotSeed \<or> pl_Kind (pm_Away m) = SlotSeed))
     (pr_Matchups r)"

definition matchup_advancers :: "playoff_matchup \<Rightarrow> string list" where
  "matchup_advancers m =
     (let home = (pl_Kind (pm_Home m) = SlotTeam); away = (pl_Kind (pm_Away m) = SlotTeam) in
      if home \<and> pl_Kind (pm_Away m) = SlotBye then [pl_TeamID (pm_Home m)]
      else if away \<and> pl_Kind (pm_Home m) = SlotBye then [pl_TeamID (pm_Away m)]
      else if home \<and> away then
        (if \<not> pm_Scored m \<or> pm_HomeScore m = pm_AwayScore m
         then [pl_TeamID (pm_Home m), pl_TeamID (pm_Away m)]
         else if pm_HomeScore m > pm_AwayScore m then [pl_TeamID (pm_Home m)]
         else [pl_TeamID (pm_Away m)])
      else [])"

definition playoff_advancers :: "playoff_round \<Rightarrow> string list" where
  "playoff_advancers r = concat (map matchup_advancers (pr_Matchups r))"

definition named_in :: "playoff_round \<Rightarrow> string \<Rightarrow> bool" where
  "named_in r i \<longleftrightarrow> list_ex (\<lambda>m. pl_Kind (pm_Home m) = SlotTeam \<and> pl_TeamID (pm_Home m) = i
     \<or> pl_Kind (pm_Away m) = SlotTeam \<and> pl_TeamID (pm_Away m) = i) (pr_Matchups r)"

definition pairing_row :: "playoff_round \<Rightarrow> playoff_matchup \<Rightarrow> match_row option" where
  "pairing_row r m =
     (if pl_Kind (pm_Home m) \<noteq> SlotTeam \<or> pl_Kind (pm_Away m) \<noteq> SlotTeam then None
      else Some \<lparr>mr_ScoringPeriod = pr_ScoringPeriod r, mr_Date = Some (pr_StartDate r),
             mr_Away = pl_TeamID (pm_Away m), mr_AwayPoints = pm_AwayScore m,
             mr_Home = pl_TeamID (pm_Home m), mr_HomePoints = pm_HomeScore m\<rparr>)"

definition pending_row :: "playoff_round \<Rightarrow> string \<Rightarrow> match_row" where
  "pending_row r i = \<lparr>mr_ScoringPeriod = pr_ScoringPeriod r, mr_Date = Some (pr_StartDate r),
     mr_Away = [], mr_AwayPoints = 0, mr_Home = i, mr_HomePoints = 0\<rparr>"

text \<open>The rows of one round; the first argument is the round before it, if any.\<close>

definition round_rows :: "playoff_round option \<Rightarrow> playoff_round \<Rightarrow> match_row list" where
  "round_rows prev r =
     List.map_filter (pairing_row r) (pr_Matchups r)
     @ (case prev of None \<Rightarrow> []
        | Some p \<Rightarrow> if round_drawn r then []
                    else map (pending_row r) (filter (\<lambda>i. \<not> named_in r i) (playoff_advancers p)))"

fun rows_from :: "playoff_round option \<Rightarrow> playoff_round list \<Rightarrow> match_row list" where
  "rows_from prev [] = []"
| "rows_from prev (r # rs) = round_rows prev r @ rows_from (Some r) rs"

definition playoff_matchups :: "bracket \<Rightarrow> match_row list" where
  "playoff_matchups b = rows_from None (rounds_of b)"

datatype standing = NotSeeded | Alive | Bye | Eliminated

record playoff_status =
  st_Standing :: standing
  st_Round :: int
  st_Opponent :: string
  st_ScoreFor :: real
  st_ScoreAgainst :: real
  st_Undrawn :: bool

definition plain_status :: "standing \<Rightarrow> int \<Rightarrow> string \<Rightarrow> bool \<Rightarrow> playoff_status" where
  "plain_status s n opp undrawn = \<lparr>st_Standing = s, st_Round = n, st_Opponent = opp,
     st_ScoreFor = 0, st_ScoreAgainst = 0, st_Undrawn = undrawn\<rparr>"

text \<open>A pairing seen from the team: its own slot, the other, and the two scores.\<close>

definition sides :: "playoff_matchup \<Rightarrow> string \<Rightarrow> playoff_slot \<times> playoff_slot \<times> real \<times> real" where
  "sides m team =
     (if pl_Kind (pm_Away m) = SlotTeam \<and> pl_TeamID (pm_Away m) = team
      then (pm_Away m, pm_Home m, pm_AwayScore m, pm_HomeScore m)
      else (pm_Home m, pm_Away m, pm_HomeScore m, pm_AwayScore m))"

definition is_me :: "playoff_slot \<Rightarrow> string \<Rightarrow> bool" where
  "is_me me team \<longleftrightarrow> \<not> (pl_Kind me \<noteq> SlotTeam \<or> pl_TeamID me \<noteq> team)"

fun status_named :: "int \<Rightarrow> string \<Rightarrow> playoff_matchup list \<Rightarrow> playoff_status option" where
  "status_named n team [] = None"
| "status_named n team (m # ms) =
     (let (me, other, _, _) = sides m team in
      if \<not> is_me me team then status_named n team ms
      else Some (case pl_Kind other of
          SlotBye \<Rightarrow> plain_status Bye n [] False
        | SlotTeam \<Rightarrow> plain_status Alive n (pl_TeamName other) False
        | SlotSeed \<Rightarrow> plain_status Alive n [] True))"

fun status_earlier :: "int \<Rightarrow> int \<Rightarrow> string \<Rightarrow> playoff_matchup list \<Rightarrow> playoff_status option" where
  "status_earlier n j team [] = None"
| "status_earlier n j team (m # ms) =
     (let (me, other, mine, theirs) = sides m team in
      if \<not> is_me me team then status_earlier n j team ms
      else Some (if pl_Kind other = SlotTeam \<and> pm_Scored m \<and> mine < theirs
                 then \<lparr>st_Standing = Eliminated, st_Round = j, st_Opponent = pl_TeamName other,
                       st_ScoreFor = mine, st_ScoreAgainst = theirs, st_Undrawn = False\<rparr>
                 else plain_status Alive n [] True))"

text \<open>The walk back over the earlier rounds, latest first.\<close>

fun walk_back :: "int \<Rightarrow> string \<Rightarrow> playoff_round list \<Rightarrow> playoff_status" where
  "walk_back n team [] = plain_status NotSeeded 0 [] False"
| "walk_back n team (r # rs) =
     (case status_earlier n (pr_Number r) team (pr_Matchups r) of
        Some s \<Rightarrow> s | None \<Rightarrow> walk_back n team rs)"

definition playoff_status_for :: "bracket \<Rightarrow> string \<Rightarrow> int \<Rightarrow> playoff_status" where
  "playoff_status_for b team period =
     (let rs = rounds_of b;
          before = takeWhile (\<lambda>r. pr_ScoringPeriod r \<noteq> period) rs
      in case dropWhile (\<lambda>r. pr_ScoringPeriod r \<noteq> period) rs of
           [] \<Rightarrow> plain_status NotSeeded 0 [] False
         | r # _ \<Rightarrow>
            (case status_named (pr_Number r) team (pr_Matchups r) of
               Some s \<Rightarrow> s
             | None \<Rightarrow> walk_back (pr_Number r) team (rev before)))"

record matchup_entry =
  me_ScoringPeriod :: int
  me_Date :: "day option"
  me_HomeID :: string
  me_AwayID :: string
  me_Playoff :: bool
  me_Bye :: bool

definition playoff_entry :: "playoff_round \<Rightarrow> playoff_matchup \<Rightarrow> matchup_entry option" where
  "playoff_entry r m =
     (let e = (\<lambda>h a bye. Some \<lparr>me_ScoringPeriod = pr_ScoringPeriod r, me_Date = Some (pr_StartDate r),
             me_HomeID = h, me_AwayID = a, me_Playoff = True, me_Bye = bye\<rparr>);
          hk = pl_Kind (pm_Home m); ak = pl_Kind (pm_Away m)
      in if hk = SlotTeam \<and> ak = SlotTeam then e (pl_TeamID (pm_Home m)) (pl_TeamID (pm_Away m)) False
         else if hk = SlotTeam \<and> ak = SlotBye then e (pl_TeamID (pm_Home m)) [] True
         else if ak = SlotTeam \<and> hk = SlotBye then e (pl_TeamID (pm_Away m)) [] True
         else None)"

definition playoff_entries :: "bracket \<Rightarrow> matchup_entry list" where
  "playoff_entries b =
     concat (map (\<lambda>r. List.map_filter (playoff_entry r) (pr_Matchups r)) (rounds_of b))"

definition is_playoff_period :: "bracket \<Rightarrow> int \<Rightarrow> bool" where
  "is_playoff_period b period \<longleftrightarrow> list_ex (\<lambda>r. pr_ScoringPeriod r = period) (rounds_of b)"

definition all_matchup_entries :: "match_row list \<Rightarrow> bracket \<Rightarrow> matchup_entry list" where
  "all_matchup_entries rows b =
     map (\<lambda>m. \<lparr>me_ScoringPeriod = mr_ScoringPeriod m, me_Date = mr_Date m, me_HomeID = mr_Home m,
           me_AwayID = mr_Away m, me_Playoff = False, me_Bye = False\<rparr>)
       (filter (\<lambda>m. \<not> is_playoff_period b (mr_ScoringPeriod m)) rows)
     @ playoff_entries b"

section \<open>Matchup weeks\<close>

record week_entry =
  we_opponent :: string
  we_period :: int
  we_date :: day

definition team_entry :: "string \<Rightarrow> match_row \<Rightarrow> week_entry option" where
  "team_entry team m =
     (case (if mr_Away m = team then Some (mr_Home m)
            else if mr_Home m = team then Some (mr_Away m) else None) of
        None \<Rightarrow> None
      | Some opp \<Rightarrow>
         (case mr_Date m of None \<Rightarrow> None
          | Some t \<Rightarrow> Some \<lparr>we_opponent = opp, we_period = mr_ScoringPeriod m, we_date = t\<rparr>))"

text \<open>One entry per date and opponent, the first one seen.\<close>

fun dedup_entries :: "(day \<times> string) list \<Rightarrow> week_entry list \<Rightarrow> week_entry list" where
  "dedup_entries seen [] = []"
| "dedup_entries seen (e # es) =
     (if (we_date e, we_opponent e) \<in> set seen then dedup_entries seen es
      else e # dedup_entries ((we_date e, we_opponent e) # seen) es)"

definition same_run :: "week_entry \<Rightarrow> week_entry \<Rightarrow> bool" where
  "same_run a b \<longleftrightarrow> we_opponent b = we_opponent a \<and> we_period b = we_period a"

text \<open>One run of the loop: its entries after the first, and what follows it.\<close>

function group_weeks :: "week_entry list \<Rightarrow> (day \<times> day) list" where
  "group_weeks [] = []"
| "group_weeks (e # es) =
     (let run = takeWhile (same_run e) es; rest = dropWhile (same_run e) es;
          runStart = we_date e;
          runEnd = (case rest of [] \<Rightarrow> we_date (last (e # run)) + 6 | e' # _ \<Rightarrow> we_date e' - 1)
      in (if \<not> runEnd < runStart then [(runStart, runEnd)] else []) @ group_weeks rest)"
  by pat_completeness auto
termination
  by (relation "measure length") (auto simp: length_dropWhile_le le_imp_less_Suc)

definition matchup_week_ranges :: "match_row list \<Rightarrow> string \<Rightarrow> (day \<times> day) list" where
  "matchup_week_ranges rows team =
     group_weeks (sort_slice (\<lambda>a b. we_date a < we_date b)
       (dedup_entries [] (List.map_filter (team_entry team) rows)))"

definition matchup_week_bounds :: "match_row list \<Rightarrow> string \<Rightarrow> day \<Rightarrow> (day \<times> day) option" where
  "matchup_week_bounds rows team date =
     find (\<lambda>(a, b). date \<ge> a \<and> date \<le> b) (matchup_week_ranges rows team)"

definition matchup_week_by_number :: "match_row list \<Rightarrow> string \<Rightarrow> int \<Rightarrow> (day \<times> day) option" where
  "matchup_week_by_number rows team n =
     (if n < 1 then None
      else (let ranges = matchup_week_ranges rows team in
            if n > int (length ranges) then None else Some (ranges ! nat (n - 1))))"

fun index_of_week :: "int \<Rightarrow> day \<Rightarrow> (day \<times> day) list \<Rightarrow> int" where
  "index_of_week i date [] = 0"
| "index_of_week i date ((a, b) # rs) =
     (if date \<ge> a \<and> date \<le> b then i + 1 else index_of_week (i + 1) date rs)"

definition matchup_week_number_for_date :: "match_row list \<Rightarrow> string \<Rightarrow> day \<Rightarrow> int" where
  "matchup_week_number_for_date rows team date = index_of_week 0 date (matchup_week_ranges rows team)"

section \<open>Period lookups\<close>

definition find_just_ended_period :: "scoring_period list \<Rightarrow> day \<Rightarrow> scoring_period option" where
  "find_just_ended_period periods today = find (\<lambda>p. sp_EndDate p = today - 1) periods"

definition find_current_period :: "scoring_period list \<Rightarrow> day \<Rightarrow> scoring_period option" where
  "find_current_period periods date = find (\<lambda>p. sp_StartDate p \<le> date \<and> date \<le> sp_EndDate p) periods"

fun last_completed :: "day \<Rightarrow> scoring_period option \<Rightarrow> scoring_period list \<Rightarrow> scoring_period option" where
  "last_completed today best [] = best"
| "last_completed today best (p # ps) =
     (if sp_EndDate p \<ge> today then last_completed today best ps
      else if (case best of None \<Rightarrow> True | Some b \<Rightarrow> sp_EndDate p > sp_EndDate b)
        then last_completed today (Some p) ps
      else last_completed today best ps)"

definition last_completed_period :: "scoring_period list \<Rightarrow> day \<Rightarrow> scoring_period option" where
  "last_completed_period periods today = last_completed today None periods"

text \<open>\<open>WeekBounder\<close>: a date's matchup week, none, or an error.\<close>

type_synonym week_bounder = "day \<Rightarrow> string + (day \<times> day) option"

datatype week_error = Lookup_failed string | No_matchup_week day

record scoring_day =
  sd_Scoring :: bool
  sd_Period :: "scoring_period option"

definition classify_scoring_day ::
  "scoring_period list \<Rightarrow> week_bounder \<Rightarrow> day \<Rightarrow> week_error + scoring_day" where
  "classify_scoring_day periods wb date =
     (case find_current_period periods date of
        None \<Rightarrow> Inr \<lparr>sd_Scoring = False, sd_Period = None\<rparr>
      | Some p \<Rightarrow>
         if \<not> sp_Playoff p then Inr \<lparr>sd_Scoring = True, sd_Period = Some p\<rparr>
         else (case wb date of
                 Inl e \<Rightarrow> Inl (Lookup_failed e)
               | Inr None \<Rightarrow> Inr \<lparr>sd_Scoring = False, sd_Period = Some p\<rparr>
               | Inr (Some _) \<Rightarrow> Inr \<lparr>sd_Scoring = True, sd_Period = Some p\<rparr>))"

definition last_completed_matchup_week :: "week_bounder \<Rightarrow> day \<Rightarrow> week_error + (day \<times> day)" where
  "last_completed_matchup_week wb today =
     (let yesterday = today - 1 in
      case wb yesterday of
        Inl e \<Rightarrow> Inl (Lookup_failed e)
      | Inr None \<Rightarrow> Inl (No_matchup_week yesterday)
      | Inr (Some (ws, we)) \<Rightarrow>
         if \<not> today > we then
           (let prior = ws - 1 in
            case wb prior of
              Inl e \<Rightarrow> Inl (Lookup_failed e)
            | Inr None \<Rightarrow> Inl (No_matchup_week prior)
            | Inr (Some w) \<Rightarrow> Inr w)
         else Inr (ws, we))"

section \<open>Daily periods and game starts\<close>

text \<open>\<open>Time.Sub\<close> saturates at about 292 years: 106751 whole days.\<close>

definition sub_days :: "day \<Rightarrow> day \<Rightarrow> int" where
  "sub_days a b = max (-106751) (min 106751 (a - b))"

definition period_for_date :: "day \<Rightarrow> day \<Rightarrow> int" where
  "period_for_date seasonStart date = 1 + sub_days date seasonStart"

text \<open>The authoritative map is \<open>None\<close> when there is no client or its lookup failed.\<close>

definition daily_period_for :: "(day \<rightharpoonup> int) option \<Rightarrow> day \<Rightarrow> day \<Rightarrow> int" where
  "daily_period_for pmap seasonStart date =
     (case pmap of None \<Rightarrow> period_for_date seasonStart date
      | Some m \<Rightarrow> (case m date of Some p \<Rightarrow> p | None \<Rightarrow> period_for_date seasonStart date))"

definition gs_period_walk ::
  "(day \<rightharpoonup> int) option \<Rightarrow> scoring_period \<Rightarrow> day \<Rightarrow> day \<Rightarrow> int list" where
  "gs_period_walk pmap sp seasonStart today =
     (if today < sp_StartDate sp then []
      else (let lastDay = (if today > sp_EndDate sp then sp_EndDate sp else today)
            in map (daily_period_for pmap seasonStart) [sp_StartDate sp..lastDay]))"

record gs_snapshot =
  gs_GS :: int
  gs_FPts :: real
  gs_Name :: string
  gs_MLBTeam :: string
  gs_Active :: bool

record pitcher_start =
  ps_PitcherName :: string
  ps_FPts :: real

record gs_walk =
  gw_prevGS :: "string \<rightharpoonup> int"
  gw_prevFPts :: "string \<rightharpoonup> real"
  gw_total :: int
  gw_overage :: "pitcher_start list"

definition gs_delta :: "(string \<rightharpoonup> int) \<Rightarrow> string \<Rightarrow> gs_snapshot \<Rightarrow> int" where
  "gs_delta prevGS pid snap =
     (if \<not> gs_Active snap then 0
      else (let prev = (case prevGS pid of None \<Rightarrow> 0 | Some v \<Rightarrow> v);
                delta = gs_GS snap - prev;
                delta' = (if prevGS pid = None \<and> delta > 1 then 1 else delta)
            in if delta' > 0 then delta' else 0))"

definition zero_or :: "(string \<rightharpoonup> real) \<Rightarrow> string \<Rightarrow> real" where
  "zero_or m k = (case m k of None \<Rightarrow> 0 | Some v \<Rightarrow> v)"

text \<open>One day: the pitchers of the snapshot, in the order the map is walked.\<close>

fun gs_day ::
  "(string \<times> gs_snapshot) list \<Rightarrow> gs_walk \<Rightarrow> pitcher_start list \<Rightarrow> gs_walk \<times> pitcher_start list" where
  "gs_day [] w starts = (w, starts)"
| "gs_day ((pid, snap) # info) w starts =
     (let delta = gs_delta (gw_prevGS w) pid snap;
          starts' = (if delta > 0
             then starts @ [\<lparr>ps_PitcherName = gs_Name snap, ps_FPts = gs_FPts snap - zero_or (gw_prevFPts w) pid\<rparr>]
             else starts)
      in gs_day info
           (w\<lparr>gw_total := gw_total w + delta,
              gw_prevGS := (gw_prevGS w)(pid \<mapsto> gs_GS snap),
              gw_prevFPts := (gw_prevFPts w)(pid \<mapsto> gs_FPts snap)\<rparr>) starts')"

fun gs_days ::
  "(int \<Rightarrow> string + (string \<times> gs_snapshot) list) \<Rightarrow> int \<Rightarrow> int list \<Rightarrow> gs_walk \<Rightarrow> string + gs_walk" where
  "gs_days fetch gsMax [] w = Inr w"
| "gs_days fetch gsMax (p # ps) w =
     (case fetch p of
        Inl e \<Rightarrow> Inl e
      | Inr info \<Rightarrow>
         (let (w', starts) = gs_day info w [] in
          gs_days fetch gsMax ps
            (if gsMax > 0 \<and> gw_total w' > gsMax then w'\<lparr>gw_overage := gw_overage w' @ starts\<rparr> else w')))"

definition get_team_gs ::
  "(int \<Rightarrow> string + (string \<times> gs_snapshot) list) \<Rightarrow> (day \<rightharpoonup> int) option \<Rightarrow> scoring_period \<Rightarrow>
   day \<Rightarrow> day \<Rightarrow> int \<Rightarrow> string + int \<times> pitcher_start list" where
  "get_team_gs fetch pmap sp seasonStart today gsMax =
     (let walk = gs_period_walk pmap sp seasonStart today in
      if walk = [] then Inr (0, [])
      else (let dayBefore = sp_StartDate sp - 1;
                base = (if \<not> dayBefore < seasonStart
                        then fetch (daily_period_for pmap seasonStart dayBefore) else Inr [])
            in case base of
                 Inl e \<Rightarrow> Inl e
               | Inr info \<Rightarrow>
                  (case gs_days fetch gsMax walk
                      \<lparr>gw_prevGS = map_of (rev (map (\<lambda>(pid, s). (pid, gs_GS s)) info)),
                       gw_prevFPts = map_of (rev (map (\<lambda>(pid, s). (pid, gs_FPts s)) info)),
                       gw_total = 0, gw_overage = []\<rparr> of
                     Inl e \<Rightarrow> Inl e
                   | Inr w \<Rightarrow> Inr (gw_total w, gw_overage w))))"

section \<open>The bracket: who has a week\<close>

lemma rows_from_mem:
  "row \<in> set (round_rows (Some r0) r1) \<Longrightarrow> row \<in> set (rows_from prev (pre @ r0 # r1 # post))"
  by (induction pre arbitrary: prev) auto

definition half_drawn :: "playoff_matchup \<Rightarrow> string \<Rightarrow> bool" where
  "half_drawn m i \<longleftrightarrow>
     (pl_Kind (pm_Home m) = SlotTeam \<and> pl_TeamID (pm_Home m) = i \<and> pl_Kind (pm_Away m) = SlotSeed) \<or>
     (pl_Kind (pm_Away m) = SlotTeam \<and> pl_TeamID (pm_Away m) = i \<and> pl_Kind (pm_Home m) = SlotSeed)"

definition has_bye :: "playoff_matchup \<Rightarrow> string \<Rightarrow> bool" where
  "has_bye m i \<longleftrightarrow>
     (pl_Kind (pm_Home m) = SlotTeam \<and> pl_TeamID (pm_Home m) = i \<and> pl_Kind (pm_Away m) = SlotBye) \<or>
     (pl_Kind (pm_Away m) = SlotTeam \<and> pl_TeamID (pm_Away m) = i \<and> pl_Kind (pm_Home m) = SlotBye)"

text \<open>An alive team keeps its week. In a round that is not drawn, a team that came out of the
  round before has a matchup row for the round's period, or a bye there, unless the round
  names it against a seed placeholder.\<close>

theorem advancer_keeps_week:
  assumes adv: "i \<in> set (playoff_advancers r0)" and undrawn: "\<not> round_drawn r1"
    and full: "\<forall>m \<in> set (pr_Matchups r1). \<not> half_drawn m i"
  shows "(\<exists>row \<in> set (playoff_matchups (Some (pre @ r0 # r1 # post))).
       mr_ScoringPeriod row = pr_ScoringPeriod r1 \<and> (mr_Home row = i \<or> mr_Away row = i)) \<or>
    (\<exists>m \<in> set (pr_Matchups r1). has_bye m i)"
proof (cases "named_in r1 i")
  case False
  then have "pending_row r1 i \<in> set (round_rows (Some r0) r1)"
    using adv undrawn by (simp add: round_rows_def)
  then have "pending_row r1 i \<in> set (playoff_matchups (Some (pre @ r0 # r1 # post)))"
    unfolding playoff_matchups_def rounds_of_def by (simp add: rows_from_mem)
  then show ?thesis by (intro disjI1 bexI [of _ "pending_row r1 i"]) (simp_all add: pending_row_def)
next
  case True
  then obtain m where m: "m \<in> set (pr_Matchups r1)"
    "pl_Kind (pm_Home m) = SlotTeam \<and> pl_TeamID (pm_Home m) = i \<or> pl_Kind (pm_Away m) = SlotTeam \<and> pl_TeamID (pm_Away m) = i"
    by (auto simp: named_in_def list_ex_iff)
  show ?thesis
  proof (cases "has_bye m i")
    case True
    with m(1) show ?thesis by blast
  next
    case False
    then have kinds: "pl_Kind (pm_Home m) = SlotTeam" "pl_Kind (pm_Away m) = SlotTeam"
      using m full by (cases "pl_Kind (pm_Home m)"; cases "pl_Kind (pm_Away m)"; auto simp: half_drawn_def has_bye_def)+
    then obtain row where row: "pairing_row r1 m = Some row" "mr_ScoringPeriod row = pr_ScoringPeriod r1"
      "mr_Home row = i \<or> mr_Away row = i" using m(2) by (auto simp: pairing_row_def)
    then have "row \<in> set (round_rows (Some r0) r1)"
      using m(1) by (force simp: round_rows_def map_filter_def)
    then have "row \<in> set (playoff_matchups (Some (pre @ r0 # r1 # post)))"
      unfolding playoff_matchups_def rounds_of_def by (simp add: rows_from_mem)
    with row show ?thesis by blast
  qed
qed

definition team_slot :: "string \<Rightarrow> playoff_slot" where
  "team_slot i = \<lparr>pl_Kind = SlotTeam, pl_TeamID = i, pl_TeamName = i\<rparr>"

definition seed_slot :: playoff_slot where
  "seed_slot = \<lparr>pl_Kind = SlotSeed, pl_TeamID = [], pl_TeamName = []\<rparr>"

definition bye_slot :: playoff_slot where
  "bye_slot = \<lparr>pl_Kind = SlotBye, pl_TeamID = [], pl_TeamName = []\<rparr>"

text \<open>Round 1: a bye for \<open>a\<close>, and \<open>b\<close> beats \<open>c\<close>. Round 2 (period 24): \<open>a\<close> is named against
  a seed that is not resolved yet.\<close>

definition demo_bracket :: "playoff_slot \<Rightarrow> playoff_round list" where
  "demo_bracket opp =
     [\<lparr>pr_Number = 1, pr_ScoringPeriod = 23, pr_StartDate = 0, pr_EndDate = 6, pr_Matchups =
        [\<lparr>pm_Home = team_slot ''a'', pm_Away = bye_slot, pm_HomeScore = 0, pm_AwayScore = 0, pm_Scored = False\<rparr>,
         \<lparr>pm_Home = team_slot ''b'', pm_Away = team_slot ''c'', pm_HomeScore = 9, pm_AwayScore = 5, pm_Scored = True\<rparr>]\<rparr>,
      \<lparr>pr_Number = 2, pr_ScoringPeriod = 24, pr_StartDate = 7, pr_EndDate = 13, pr_Matchups =
        [\<lparr>pm_Home = opp, pm_Away = seed_slot, pm_HomeScore = 0, pm_AwayScore = 0, pm_Scored = False\<rparr>]\<rparr>]"

text \<open>A half-drawn pairing takes an alive team's week away. When the round names a team
  against a seed placeholder, \<open>PlayoffStatusFor\<close> says the team is alive with the round
  undrawn, yet \<open>playoffMatchups\<close> gives it neither a pairing row nor a pending row, so its
  matchup week is none and the day reads as a bye or an elimination.\<close>

theorem half_drawn_alive_without_week:
  "playoff_status_for (Some (demo_bracket (team_slot ''a''))) ''a'' 24 = plain_status Alive 2 [] True \<and>
   matchup_week_bounds (playoff_matchups (Some (demo_bracket (team_slot ''a'')))) ''a'' 8 = None \<and>
   matchup_week_bounds (playoff_matchups (Some (demo_bracket (team_slot ''a'')))) ''b'' 8 = Some (7, 13) \<and>
   matchup_week_bounds (playoff_matchups (Some (demo_bracket seed_slot))) ''a'' 8 = Some (7, 13)"
  by code_simp

theorem advancer_keeps_week_witness:
  "(\<exists>row \<in> set (playoff_matchups (Some (demo_bracket seed_slot))).
      mr_ScoringPeriod row = 24 \<and> (mr_Home row = ''a'' \<or> mr_Away row = ''a'')) \<or>
   (\<exists>m \<in> set (pr_Matchups (demo_bracket seed_slot ! 1)). has_bye m ''a'')"
proof -
  let ?b = "demo_bracket seed_slot"
  have b: "?b = [] @ ?b ! 0 # ?b ! 1 # []" by (simp add: demo_bracket_def)
  have "''a'' \<in> set (playoff_advancers (?b ! 0))" "\<not> round_drawn (?b ! 1)"
    "\<forall>m \<in> set (pr_Matchups (?b ! 1)). \<not> half_drawn m ''a''" "pr_ScoringPeriod (?b ! 1) = 24"
    by (simp_all add: demo_bracket_def playoff_advancers_def matchup_advancers_def round_drawn_def
        half_drawn_def team_slot_def seed_slot_def bye_slot_def)
  with advancer_keeps_week [of "''a''" "?b ! 0" "?b ! 1" "[]" "[]"] b show ?thesis by metis
qed

section \<open>The weeks of a team\<close>

interpretation date_order: go_order "\<lambda>a b. we_date a < we_date b"
  by unfold_locales auto

text \<open>Weeks in order, none overlapping, none empty.\<close>

definition weeks_ok :: "(day \<times> day) list \<Rightarrow> bool" where
  "weeks_ok rs \<longleftrightarrow> (\<forall>r \<in> set rs. fst r \<le> snd r) \<and> sorted_wrt (\<lambda>r r'. snd r < fst r') rs"

lemma group_weeks_starts:
  "sorted_wrt (\<lambda>a b. we_date a \<le> we_date b) es \<Longrightarrow> r \<in> set (group_weeks es) \<Longrightarrow>
   es \<noteq> [] \<and> we_date (hd es) \<le> fst r"
proof (induction es rule: group_weeks.induct)
  case (2 e es)
  let ?rest = "dropWhile (same_run e) es"
  have s: "sorted_wrt (\<lambda>a b. we_date a \<le> we_date b) ?rest"
    using 2(2) by (metis sorted_wrt.simps(2) sorted_wrt_append takeWhile_dropWhile_id)
  have h: "?rest \<noteq> [] \<Longrightarrow> we_date e \<le> we_date (hd ?rest)"
    using 2(2) by (metis hd_in_set set_dropWhileD sorted_wrt.simps(2))
  from 2(3) consider "fst r = we_date e" | "r \<in> set (group_weeks ?rest)"
    by (auto simp: Let_def split: if_splits)
  then show ?case
  proof cases
    case 2
    from "2.IH" [OF refl refl refl refl s 2] h show ?thesis by auto
  qed simp
qed simp

lemma group_weeks_ok:
  "sorted_wrt (\<lambda>a b. we_date a \<le> we_date b) es \<Longrightarrow> weeks_ok (group_weeks es)"
proof (induction es rule: group_weeks.induct)
  case (2 e es)
  let ?rest = "dropWhile (same_run e) es"
  have s: "sorted_wrt (\<lambda>a b. we_date a \<le> we_date b) ?rest"
    using 2(2) by (metis sorted_wrt.simps(2) sorted_wrt_append takeWhile_dropWhile_id)
  note IH = "2.IH" [OF refl refl refl refl s]
  show ?case
  proof (cases ?rest)
    case Nil
    show ?thesis unfolding group_weeks.simps Let_def Nil by (simp add: weeks_ok_def)
  next
    case (Cons e' es')
    have "we_date e' \<le> fst r" if "r \<in> set (group_weeks ?rest)" for r
      using group_weeks_starts [OF s that] Cons by simp
    then have "\<forall>r \<in> set (group_weeks ?rest). we_date e' - 1 < fst r" by fastforce
    with IH show ?thesis unfolding group_weeks.simps Let_def Cons
      by (auto simp: weeks_ok_def)
  qed
qed (simp add: weeks_ok_def)

lemma ranges_ok: "weeks_ok (matchup_week_ranges rows team)"
  unfolding matchup_week_ranges_def
  by (rule group_weeks_ok) (use date_order.sorted_sort_slice in \<open>simp add: not_less\<close>)

text \<open>A team's matchup weeks never overlap. Whatever rows the schedule holds (both tables,
  playoff rows, duplicates), the weeks are in date order, none is empty, and each ends before
  the next begins.\<close>

theorem matchup_weeks_disjoint:
  "list_all (\<lambda>(a, b). a \<le> b) (matchup_week_ranges rows team) \<and>
   sorted_wrt (\<lambda>r r'. snd r < fst r') (matchup_week_ranges rows team)"
  using ranges_ok [of rows team] by (auto simp: weeks_ok_def list_all_iff)

lemma week_bounds_find:
  "matchup_week_bounds rows team date =
     find (\<lambda>r. fst r \<le> date \<and> date \<le> snd r) (matchup_week_ranges rows team)"
  by (simp add: matchup_week_bounds_def case_prod_beta')

lemma index_of_week_spec:
  "index_of_week i date rs =
     (case find (\<lambda>r. fst r \<le> date \<and> date \<le> snd r) rs of None \<Rightarrow> 0
      | Some r \<Rightarrow> i + 1 + int (length (takeWhile (\<lambda>r. \<not> (fst r \<le> date \<and> date \<le> snd r)) rs)))"
  by (induction i date rs rule: index_of_week.induct) (auto split: option.split)

lemma find_nth_takeWhile:
  "find P xs = Some x \<Longrightarrow>
   length (takeWhile (\<lambda>y. \<not> P y) xs) < length xs \<and> xs ! length (takeWhile (\<lambda>y. \<not> P y) xs) = x"
  by (induction xs) (auto split: if_splits)

text \<open>The two ways to name a week agree: the number \<open>MatchupWeekNumberForDate\<close> gives for a
  date, looked up with \<open>MatchupWeekByNumber\<close>, is the week \<open>MatchupWeekBounds\<close> gives.\<close>

theorem week_number_roundtrip:
  "matchup_week_by_number rows team (matchup_week_number_for_date rows team date) =
     matchup_week_bounds rows team date"
proof (cases "matchup_week_bounds rows team date")
  case None
  then show ?thesis
    by (simp add: matchup_week_number_for_date_def week_bounds_find index_of_week_spec
        matchup_week_by_number_def)
next
  case (Some r)
  let ?P = "\<lambda>r. fst r \<le> date \<and> date \<le> snd r"
  let ?k = "length (takeWhile (\<lambda>y. \<not> ?P y) (matchup_week_ranges rows team))"
  have f: "find ?P (matchup_week_ranges rows team) = Some r"
    using Some by (simp add: week_bounds_find)
  have "matchup_week_number_for_date rows team date = 1 + int ?k"
    unfolding matchup_week_number_for_date_def index_of_week_spec f by simp
  then show ?thesis
    using find_nth_takeWhile [OF f] by (simp add: matchup_week_by_number_def Let_def Some)
qed

lemma week_bounds_mem:
  assumes "matchup_week_bounds rows team date = Some (a, b)"
  shows "(a, b) \<in> set (matchup_week_ranges rows team) \<and> a \<le> date \<and> date \<le> b"
  using find_mem [OF assms [unfolded week_bounds_find]] by simp

lemma weeks_apart:
  assumes "weeks_ok rs" "(a, b) \<in> set rs" "(c, d) \<in> set rs"
  shows "(a, b) = (c, d) \<or> b < c \<or> d < a"
  using assms
proof (induction rs)
  case (Cons r rs)
  then show ?case by (auto simp: weeks_ok_def)
qed simp

text \<open>\<open>LastCompletedMatchupWeek\<close> returns a finished week, and the latest one. Over the team's own
  weeks the week it returns ended before today, and no other week that ended before today
  ends later.\<close>

theorem last_completed_week_latest:
  assumes "last_completed_matchup_week (\<lambda>d. Inr (matchup_week_bounds rows team d)) today = Inr (a, b)"
  shows "(a, b) \<in> set (matchup_week_ranges rows team) \<and> b < today \<and>
    (\<forall>(c, d) \<in> set (matchup_week_ranges rows team). d < today \<longrightarrow> d \<le> b)"
proof -
  let ?rs = "matchup_week_ranges rows team"
  obtain ws we where w: "matchup_week_bounds rows team (today - 1) = Some (ws, we)"
    using assms by (auto simp: last_completed_matchup_week_def Let_def split: option.splits)
  note wm = week_bounds_mem [OF w]
  show ?thesis
  proof (cases "today > we")
    case True
    with assms w have "a = ws" "b = we" by (auto simp: last_completed_matchup_week_def Let_def)
    with wm True show ?thesis by auto
  next
    case False
    with assms w have p: "matchup_week_bounds rows team (ws - 1) = Some (a, b)"
      by (auto simp: last_completed_matchup_week_def Let_def split: option.splits)
    note pm = week_bounds_mem [OF p]
    have "b < ws"
      using weeks_apart [OF ranges_ok conjunct1 [OF pm] conjunct1 [OF wm]] pm wm
      by (elim disjE) auto
    moreover have "d \<le> b" if cd: "(c, d) \<in> set ?rs" "d < today" for c d
      using weeks_apart [OF ranges_ok cd(1) conjunct1 [OF wm]] cd(2) False wm pm
        ranges_ok [of rows team] cd(1)
      by (fastforce simp: weeks_ok_def)
    ultimately show ?thesis using pm wm by auto
  qed
qed

theorem last_completed_week_latest_witness:
  "\<exists>a b. last_completed_matchup_week (\<lambda>d. Inr (matchup_week_bounds
      (playoff_matchups (Some (demo_bracket seed_slot))) ''b'' d)) 9 = Inr (a, b) \<and> b < 9 \<and> (a, b) = (0, 6)"
proof -
  have r: "last_completed_matchup_week (\<lambda>d. Inr (matchup_week_bounds
      (playoff_matchups (Some (demo_bracket seed_slot))) ''b'' d)) 9 = Inr (0, 6)" by code_simp
  from last_completed_week_latest [OF r] r show ?thesis by blast
qed

section \<open>Finished periods\<close>

lemma last_completed_Some:
  "\<exists>x. last_completed today (Some b0) ps = Some x \<and> (x = b0 \<or> x \<in> set ps \<and> sp_EndDate x < today) \<and>
     (\<forall>p \<in> set ps. sp_EndDate p < today \<longrightarrow> sp_EndDate p \<le> sp_EndDate x) \<and> sp_EndDate b0 \<le> sp_EndDate x"
proof (induction ps arbitrary: b0)
  case (Cons p ps)
  consider "sp_EndDate p \<ge> today" | "sp_EndDate p < today" "sp_EndDate p > sp_EndDate b0"
    | "sp_EndDate p < today" "\<not> sp_EndDate p > sp_EndDate b0" by linarith
  then show ?case
  proof cases
    case 1
    with Cons.IH [of b0] show ?thesis by auto
  next
    case 2
    with Cons.IH [of p] show ?thesis by (auto intro: order_trans)
  next
    case 3
    with Cons.IH [of b0] show ?thesis by (auto intro: order_trans)
  qed
qed simp

lemma last_completed_None:
  "case last_completed today None ps of
     None \<Rightarrow> (\<forall>p \<in> set ps. today \<le> sp_EndDate p)
   | Some x \<Rightarrow> x \<in> set ps \<and> sp_EndDate x < today \<and>
       (\<forall>p \<in> set ps. sp_EndDate p < today \<longrightarrow> sp_EndDate p \<le> sp_EndDate x)"
proof (induction ps)
  case (Cons p ps)
  show ?case
  proof (cases "sp_EndDate p \<ge> today")
    case True
    with Cons show ?thesis by (auto split: option.splits)
  next
    case False
    with last_completed_Some [of today p ps] show ?thesis by auto
  qed
qed simp

text \<open>\<open>LastCompletedPeriod\<close> is the league's latest finished period: it ended before today and no
  finished period ended later; when it is none, no period has ended.\<close>

theorem last_completed_period_latest:
  "case last_completed_period periods today of
     None \<Rightarrow> (\<forall>p \<in> set periods. today \<le> sp_EndDate p)
   | Some b \<Rightarrow> b \<in> set periods \<and> sp_EndDate b < today \<and>
       (\<forall>p \<in> set periods. sp_EndDate p < today \<longrightarrow> sp_EndDate p \<le> sp_EndDate b)"
  unfolding last_completed_period_def by (rule last_completed_None)

theorem last_completed_period_latest_witness:
  "\<exists>b. last_completed_period (playoff_periods (\<lambda>_. []) (Some (demo_bracket seed_slot))) 10 = Some b \<and> sp_EndDate b = 6"
proof -
  let ?ps = "playoff_periods (\<lambda>_. []) (Some (demo_bracket seed_slot))"
  have "\<not> (\<forall>p \<in> set ?ps. 10 \<le> sp_EndDate p)"
    by (simp add: playoff_periods_def rounds_of_def demo_bracket_def)
  moreover have "\<forall>p \<in> set ?ps. sp_EndDate p = 6 \<or> sp_EndDate p = 13"
    by (simp add: playoff_periods_def rounds_of_def demo_bracket_def)
  ultimately show ?thesis
    using last_completed_period_latest [of ?ps 10]
    by (cases "last_completed_period ?ps 10") (force simp del: last_completed.simps)+
qed

section \<open>Counting game starts\<close>

fun rises_day :: "(string \<times> gs_snapshot) list \<Rightarrow> (string \<rightharpoonup> int) \<Rightarrow> bool" where
  "rises_day [] prev = True"
| "rises_day ((pid, snap) # info) prev =
     ((case prev pid of None \<Rightarrow> False | Some v \<Rightarrow> v \<le> gs_GS snap) \<and>
      rises_day info (prev(pid \<mapsto> gs_GS snap)))"

definition after_day :: "(string \<times> gs_snapshot) list \<Rightarrow> (string \<rightharpoonup> int) \<Rightarrow> (string \<rightharpoonup> int)" where
  "after_day info prev = fold (\<lambda>(pid, snap) m. m(pid \<mapsto> gs_GS snap)) info prev"

text \<open>Every pitcher seen has a known total before, and totals do not fall.\<close>

fun rises ::
  "(int \<Rightarrow> string + (string \<times> gs_snapshot) list) \<Rightarrow> int list \<Rightarrow> (string \<rightharpoonup> int) \<Rightarrow> bool" where
  "rises fetch [] prev = True"
| "rises fetch (p # ps) prev =
     (case fetch p of Inl _ \<Rightarrow> True
      | Inr info \<Rightarrow> rises_day info prev \<and> rises fetch ps (after_day info prev))"

definition ytd_sum :: "string set \<Rightarrow> (string \<rightharpoonup> int) \<Rightarrow> int" where
  "ytd_sum P prev = (\<Sum>i \<in> P. case prev i of None \<Rightarrow> 0 | Some v \<Rightarrow> v)"

lemma ytd_sum_upd:
  assumes "finite P" "pid \<in> P" "prev pid = Some v"
  shows "ytd_sum P (prev(pid \<mapsto> x)) = ytd_sum P prev + x - v"
proof -
  have "(\<Sum>i \<in> P - {pid}. case (prev(pid \<mapsto> x)) i of None \<Rightarrow> 0 | Some v \<Rightarrow> v) =
      (\<Sum>i \<in> P - {pid}. case prev i of None \<Rightarrow> 0 | Some v \<Rightarrow> v)" by (rule sum.cong) auto
  then show ?thesis unfolding ytd_sum_def
    using sum.remove [OF assms(1,2), of "\<lambda>i. case prev i of None \<Rightarrow> 0 | Some v \<Rightarrow> v"]
      sum.remove [OF assms(1,2), of "\<lambda>i. case (prev(pid \<mapsto> x)) i of None \<Rightarrow> 0 | Some v \<Rightarrow> v"] assms(3)
    by simp
qed

lemma gs_day_bound:
  assumes "finite P" and "gs_day info w starts = (w', starts')" and "rises_day info (gw_prevGS w)"
    and "dom (gw_prevGS w) \<subseteq> P"
  shows "gw_prevGS w' = after_day info (gw_prevGS w)" "dom (gw_prevGS w') = dom (gw_prevGS w)"
    "gw_total w' - gw_total w \<le> ytd_sum P (gw_prevGS w') - ytd_sum P (gw_prevGS w)"
proof -
  have "gw_prevGS w' = after_day info (gw_prevGS w) \<and> dom (gw_prevGS w') = dom (gw_prevGS w) \<and>
      gw_total w' - gw_total w \<le> ytd_sum P (gw_prevGS w') - ytd_sum P (gw_prevGS w)"
    using assms(2-4)
  proof (induction info arbitrary: w starts)
    case Nil
    then show ?case by (simp add: after_day_def)
  next
    case (Cons x info)
    obtain pid snap where x: "x = (pid, snap)" by (cases x)
    note prems = Cons.prems [unfolded x]
    define m where "m = (gw_prevGS w)(pid \<mapsto> gs_GS snap)"
    obtain v where v: "gw_prevGS w pid = Some v" "v \<le> gs_GS snap"
      using prems(2) by (auto split: option.splits)
    obtain w1 st where w1: "gs_day info w1 st = (w', starts')" "gw_prevGS w1 = m"
      "gw_total w1 = gw_total w + gs_delta (gw_prevGS w) pid snap"
    proof
      show "gs_day info (w\<lparr>gw_total := gw_total w + gs_delta (gw_prevGS w) pid snap, gw_prevGS := m,
          gw_prevFPts := (gw_prevFPts w)(pid \<mapsto> gs_FPts snap)\<rparr>)
        (if gs_delta (gw_prevGS w) pid snap > 0
         then starts @ [\<lparr>ps_PitcherName = gs_Name snap, ps_FPts = gs_FPts snap - zero_or (gw_prevFPts w) pid\<rparr>]
         else starts) = (w', starts')"
        using prems(1) by (simp only: gs_day.simps Let_def m_def)
    qed simp_all
    have dom: "dom m = dom (gw_prevGS w)" using v(1) by (auto simp: m_def)
    have "pid \<in> P" using v(1) prems(3) by auto
    then have s: "ytd_sum P m = ytd_sum P (gw_prevGS w) + gs_GS snap - v"
      unfolding m_def by (rule ytd_sum_upd [where prev = "gw_prevGS w", OF assms(1) _ v(1)])
    have d: "gs_delta (gw_prevGS w) pid snap \<le> gs_GS snap - v"
      using v by (simp add: gs_delta_def Let_def)
    have "rises_day info (gw_prevGS w1)" "dom (gw_prevGS w1) \<subseteq> P"
      using prems(2,3) dom by (simp_all add: w1(2) m_def split: option.splits)
    note ih = Cons.IH [OF w1(1) this, unfolded w1(2,3)]
    have "after_day (x # info) (gw_prevGS w) = after_day info m" by (simp add: after_day_def x m_def)
    with ih dom have "gw_prevGS w' = after_day (x # info) (gw_prevGS w)" "dom (gw_prevGS w') = dom (gw_prevGS w)"
      by metis+
    moreover have "gw_total w' - gw_total w \<le> ytd_sum P (gw_prevGS w') - ytd_sum P (gw_prevGS w)"
      using conjunct2 [OF conjunct2 [OF ih]] s d by linarith
    ultimately show ?case by blast
  qed
  then show "gw_prevGS w' = after_day info (gw_prevGS w)" "dom (gw_prevGS w') = dom (gw_prevGS w)"
    "gw_total w' - gw_total w \<le> ytd_sum P (gw_prevGS w') - ytd_sum P (gw_prevGS w)" by blast+
qed

text \<open>Nobody's starts are counted twice. When every pitcher's total is known before he is first
  seen and totals never fall, the starts \<open>GetTeamGS\<close> counts over the days of a period are at
  most the rise of the year-to-date totals, also for pitchers who vanish from the snapshots
  and come back.\<close>

theorem gs_total_bounded:
  assumes P: "finite P" "dom (gw_prevGS w) \<subseteq> P" and r: "rises fetch ps (gw_prevGS w)"
    and run: "gs_days fetch gsMax ps w = Inr w'"
  shows "gw_total w' - gw_total w \<le> ytd_sum P (gw_prevGS w') - ytd_sum P (gw_prevGS w)"
  using P(2) r run
proof (induction ps arbitrary: w)
  case (Cons p ps)
  then obtain info where f: "fetch p = Inr info" by (auto split: sum.splits)
  obtain w1 starts where day: "gs_day info w [] = (w1, starts)" by fastforce
  have rd: "rises_day info (gw_prevGS w)" "rises fetch ps (after_day info (gw_prevGS w))"
    using Cons.prems(2) f by simp_all
  note b = gs_day_bound [OF P(1) day rd(1) Cons.prems(1)]
  let ?w = "if gsMax > 0 \<and> gw_total w1 > gsMax then w1\<lparr>gw_overage := gw_overage w1 @ starts\<rparr> else w1"
  have "gs_days fetch gsMax ps ?w = Inr w'" using Cons.prems(3) f day by simp
  moreover have "gw_prevGS ?w = gw_prevGS w1" "gw_total ?w = gw_total w1" by simp_all
  ultimately have "gw_total w' - gw_total w1 \<le> ytd_sum P (gw_prevGS w') - ytd_sum P (gw_prevGS w1)"
    using Cons.IH [of ?w] b(1,2) rd(2) Cons.prems(1) by simp
  with b(3) show ?case by simp
qed simp

theorem gs_total_bounded_witness:
  "\<exists>w'. gs_days (\<lambda>p. Inr (if p = 2 then [] else [(''a'', \<lparr>gs_GS = 4 + p, gs_FPts = 0, gs_Name = ''a'', gs_MLBTeam = ''BOS'', gs_Active = True\<rparr>)]))
      7 [1, 2, 3] \<lparr>gw_prevGS = [''a'' \<mapsto> 4], gw_prevFPts = Map.empty, gw_total = 0, gw_overage = []\<rparr> = Inr w' \<and>
    gw_total w' \<le> ytd_sum {''a''} (gw_prevGS w') - 4"
proof -
  let ?f = "\<lambda>p :: int. Inr (if p = 2 then [] else [(''a'', \<lparr>gs_GS = 4 + p, gs_FPts = 0, gs_Name = ''a'', gs_MLBTeam = ''BOS'', gs_Active = True\<rparr>)])
     :: string + (string \<times> gs_snapshot) list"
  let ?w = "\<lparr>gw_prevGS = [''a'' \<mapsto> 4], gw_prevFPts = Map.empty, gw_total = 0, gw_overage = []\<rparr>"
  have "gs_days ?f 7 [1, 2, 3] ?w \<noteq> Inl e" for e by (simp add: Let_def)
  then obtain w' where run: "gs_days ?f 7 [1, 2, 3] ?w = Inr w'" by (cases "gs_days ?f 7 [1, 2, 3] ?w") auto
  have "rises ?f [1, 2, 3] (gw_prevGS ?w)" by (simp add: after_day_def)
  from gs_total_bounded [OF _ _ this run, of "{''a''}"] run show ?thesis by (auto simp: ytd_sum_def)
qed

end
