(* ===== verification/Civil_Time.thy ===== *)
theory Civil_Time
  imports Prelude
begin

text \<open>
  The calendar of package \<open>time\<close> as far as the code uses it: days of the proleptic Gregorian
  calendar counted from 1 January of year 1, and \<open>time.Parse(time.RFC3339, s)\<close> (its strict
  grammar; a text it refuses is \<open>None\<close>).
\<close>

definition is_leap :: "int \<Rightarrow> bool" where
  "is_leap y \<longleftrightarrow> y mod 4 = 0 \<and> (y mod 100 \<noteq> 0 \<or> y mod 400 = 0)"

definition days_in :: "int \<Rightarrow> int \<Rightarrow> int" where
  "days_in m y = (if m = 2 then (if is_leap y then 29 else 28)
     else if m \<in> {4, 6, 9, 11} then 30 else 31)"

definition days_before_year :: "int \<Rightarrow> int" where
  "days_before_year y = 365 * (y - 1) + (y - 1) div 4 - (y - 1) div 100 + (y - 1) div 400"

definition days_of_civil :: "int \<Rightarrow> int \<Rightarrow> int \<Rightarrow> int" where
  "days_of_civil y m d =
     days_before_year y + sum_list (map (\<lambda>k. days_in k y) [1..m - 1]) + (d - 1)"

lemma div_pred:
  fixes y n :: int
  assumes n: "0 < n"
  shows "y div n = (y - 1) div n + (if y mod n = 0 then 1 else 0)"
proof -
  let ?q = "(y - 1) div n" and ?r = "(y - 1) mod n"
  have e: "y = n * ?q + (?r + 1)" using mult_div_mod_eq [of n "y - 1"] by simp
  have r: "0 \<le> ?r" "?r < n" using n by simp_all
  show ?thesis
  proof (cases "?r + 1 = n")
    case True
    then have y: "y = n * (?q + 1)" using e by (simp add: algebra_simps)
    have "y div n = ?q + 1" by (subst y) (use n in simp)
    moreover have "y mod n = 0" by (subst y) simp
    ultimately show ?thesis by simp
  next
    case False
    then have lt: "0 \<le> ?r + 1" "?r + 1 < n" using r by linarith+
    have "y div n = ?q" "y mod n = ?r + 1"
      using int_div_pos_eq [OF e lt] int_mod_pos_eq [OF e lt] by simp_all
    then show ?thesis using r by simp
  qed
qed

lemma year_length: "days_before_year (y + 1) = days_before_year y + (if is_leap y then 366 else 365)"
proof -
  have m: "y mod 400 = 0 \<Longrightarrow> y mod 100 = 0" "y mod 100 = 0 \<Longrightarrow> y mod 4 = 0" by presburger+
  let ?c = "\<lambda>n. if y mod n = 0 then 1 else (0 :: int)"
  have c: "y div 4 = (y - 1) div 4 + ?c 4" "y div 100 = (y - 1) div 100 + ?c 100"
    "y div 400 = (y - 1) div 400 + ?c 400" by (rule div_pred; simp)+
  have arith: "365 * y + (i + i') - (j + j') + (k + k') = 365 * (y - 1) + i - j + k + 365 + i' - j' + k'"
    for i i' j j' k k' :: int by simp
  have "days_before_year (y + 1) = 365 * y + y div 4 - y div 100 + y div 400"
    by (simp only: days_before_year_def add_diff_cancel_right')
  also have "\<dots> = days_before_year y + 365 + ?c 4 - ?c 100 + ?c 400"
    unfolding c arith days_before_year_def ..
  also have "\<dots> = days_before_year y + (if is_leap y then 366 else 365)"
    using m unfolding is_leap_def by (cases "y mod 4 = 0"; cases "y mod 100 = 0"; cases "y mod 400 = 0") simp_all
  finally show ?thesis .
qed

lemma month_lengths: "sum_list (map (\<lambda>k. days_in k y) [1..12]) = (if is_leap y then 366 else 365)"
proof -
  have "[1..12] = [1, 2, 3, 4, 5, 6, 7, 8, 9, 10, 11, 12 :: int]" by (simp add: upto_rec1)
  then show ?thesis by (simp add: days_in_def)
qed

text \<open>The count is continuous over months and years.\<close>

lemma civil_next_month:
  assumes "1 \<le> m" "m \<le> 11"
  shows "days_of_civil y (m + 1) 1 = days_of_civil y m (days_in m y) + 1"
  using assms upto_rec2 [of 1 m] by (simp add: days_of_civil_def)

lemma civil_next_year: "days_of_civil (y + 1) 1 1 = days_of_civil y 12 (days_in 12 y) + 1"
proof -
  have "[1..12] = [1..11] @ [12 :: int]" using upto_rec2 [of 1 "12 :: int"] by simp
  then have "sum_list (map (\<lambda>k. days_in k y) [1..11]) + days_in 12 y = (if is_leap y then 366 else 365)"
    using month_lengths [of y] by simp
  then show ?thesis by (simp add: days_of_civil_def year_length)
qed

text \<open>\<open>time.Time.Year\<close>: the year a day lies in.\<close>

definition year_of :: "int \<Rightarrow> int" where
  "year_of d =
     (let y = 400 * d div 146097 + 1 in
      if d < days_before_year y then y - 1
      else if days_before_year (y + 1) \<le> d then y + 1 else y)"

lemma days_before_year_400:
  "400 * days_before_year y =
     146097 * (y - 1) - 100 * ((y - 1) mod 4) + 4 * ((y - 1) mod 100) - (y - 1) mod 400"
proof -
  have "m = 4 * a + r \<Longrightarrow> m = 100 * b + s \<Longrightarrow> m = 400 * c + t \<Longrightarrow>
    400 * (365 * m + a - b + c) = 146097 * m - 100 * r + 4 * s - t" for m a b c r s t :: int
    by (simp add: algebra_simps)
  from this [of "y - 1", OF mult_div_mod_eq [symmetric] mult_div_mod_eq [symmetric] mult_div_mod_eq [symmetric]]
  show ?thesis by (simp only: days_before_year_def)
qed

lemma days_before_year_bounds:
  "146097 * (y - 1) - 699 \<le> 400 * days_before_year y" "400 * days_before_year y \<le> 146097 * (y - 1) + 396"
  using days_before_year_400 [of y] pos_mod_bound [of 4 "y - 1"] pos_mod_bound [of 100 "y - 1"]
    pos_mod_bound [of 400 "y - 1"] pos_mod_sign [of 4 "y - 1"] pos_mod_sign [of 100 "y - 1"]
    pos_mod_sign [of 400 "y - 1"]
  by linarith+

lemma year_of_bounds: "days_before_year (year_of d) \<le> d \<and> d < days_before_year (year_of d + 1)"
proof -
  define n where "n = 400 * d div 146097"
  have n: "146097 * n \<le> 400 * d" "400 * d < 146097 * n + 146097"
    using mult_div_mod_eq [of 146097 "400 * d"] pos_mod_bound [of 146097 "400 * d"]
      pos_mod_sign [of 146097 "400 * d"] unfolding n_def by linarith+
  have "days_before_year n \<le> d" using n(1) days_before_year_bounds(2) [of n] by simp
  moreover have "d < days_before_year (n + 3)" using n(2) days_before_year_bounds(1) [of "n + 3"] by simp
  ultimately show ?thesis by (simp add: year_of_def Let_def n_def [symmetric] add.assoc)
qed

section \<open>RFC 3339\<close>

definition is_digit :: "char \<Rightarrow> bool" where
  "is_digit c \<longleftrightarrow> (let n = (of_char c :: nat) in 48 \<le> n \<and> n \<le> 57)"

definition digit_val :: "char \<Rightarrow> int" where
  "digit_val c = of_char c - 48"

definition parse_uint :: "string \<Rightarrow> int \<Rightarrow> int \<Rightarrow> int option" where
  "parse_uint s lo hi =
     (if \<not> list_all is_digit s then None
      else (let v = foldl (\<lambda>a c. a * 10 + digit_val c) 0 s in if lo \<le> v \<and> v \<le> hi then Some v else None))"

definition sub_str :: "string \<Rightarrow> nat \<Rightarrow> nat \<Rightarrow> string" where
  "sub_str s a b = take (b - a) (drop a s)"

text \<open>Nanoseconds of a fraction: its first nine digits.\<close>

definition frac_nanos :: "string \<Rightarrow> int" where
  "frac_nanos ds = (let d = take 9 ds in foldl (\<lambda>a c. a * 10 + digit_val c) 0 d * 10 ^ (9 - length d))"

definition parse_zone :: "string \<Rightarrow> int option" where
  "parse_zone s =
     (if s = ''Z'' then Some 0
      else if length s \<noteq> 6 then None
      else (case (parse_uint (sub_str s 1 3) 0 23, parse_uint (sub_str s 4 6) 0 59) of
              (Some hr, Some mm) \<Rightarrow>
                if (s ! 0 = CHR ''-'' \<or> s ! 0 = CHR ''+'') \<and> s ! 3 = CHR '':''
                then Some ((if s ! 0 = CHR ''-'' then - 1 else 1) * ((hr * 60 + mm) * 60)) else None
            | _ \<Rightarrow> None))"

definition parse_rfc3339 :: "string \<Rightarrow> go_time option" where
  "parse_rfc3339 s =
     (if length s < 19 then None
      else
        (case (parse_uint (sub_str s 0 4) 0 9999, parse_uint (sub_str s 5 7) 1 12,
               parse_uint (sub_str s 11 13) 0 23, parse_uint (sub_str s 14 16) 0 59,
               parse_uint (sub_str s 17 19) 0 59) of
           (Some y, Some mo, Some h, Some mi, Some sec) \<Rightarrow>
             (case parse_uint (sub_str s 8 10) 1 (days_in mo y) of
                None \<Rightarrow> None
              | Some d \<Rightarrow>
                 if \<not> (s ! 4 = CHR ''-'' \<and> s ! 7 = CHR ''-'' \<and> s ! 10 = CHR ''T'' \<and> s ! 13 = CHR '':''
                       \<and> s ! 16 = CHR '':'') then None
                 else
                   (let r = drop 19 s;
                        frac = (if length r \<ge> 2 \<and> r ! 0 = CHR ''.'' \<and> is_digit (r ! 1)
                                then takeWhile is_digit (tl r) else []);
                        z = (if frac = [] then r else drop (Suc (length frac)) r)
                    in case parse_zone z of
                         None \<Rightarrow> None
                       | Some off \<Rightarrow> Some ((days_of_civil y mo d * 86400 + h * 3600 + mi * 60 + sec - off)
                                            * second + frac_nanos frac)))
         | _ \<Rightarrow> None))"

text \<open>The year and zone arithmetic on a known date: 2026-08-23T23:00:00Z.\<close>

lemma rfc3339_example:
  "parse_rfc3339 ''2026-08-23T23:00:00Z'' = Some (739850 * 86400 * second + 23 * hour) \<and>
   parse_rfc3339 ''2026-08-23T19:00:00-04:00'' = parse_rfc3339 ''2026-08-23T23:00:00Z'' \<and>
   parse_rfc3339 ''2026-02-29T00:00:00Z'' = None"
  by code_simp

end
