(* ===== verification/Alert_Marker.thy ===== *)
theory Alert_Marker
  imports Prelude
begin

text \<open>
  The check, send, mark discipline of \<open>internal/alertmarker/alertmarker.go\<close>. The durable
  store is a map from keys to bodies; whether a read or a write of a key fails is given by two
  predicates, so every branch of the degraded modes is in the model. A send either delivers or
  fails; deliveries are logged in order. \<open>has_store\<close> is whether both the marker and its
  store are not \<open>nil\<close>.
\<close>

record faults =
  get_fails :: "string \<Rightarrow> bool"
  put_fails :: "string \<Rightarrow> bool"

record marker_world =
  mw_store :: "string \<rightharpoonup> string"
  mw_delivered :: "(string \<times> string) list"

definition healthy :: faults where
  "healthy = \<lparr>get_fails = (\<lambda>_. False), put_fails = (\<lambda>_. False)\<rparr>"

definition token :: "bool \<Rightarrow> faults \<Rightarrow> marker_world \<Rightarrow> string \<Rightarrow> string \<times> bool" where
  "token has_store flt w key =
     (if \<not> has_store then ([], False)
      else if get_fails flt key then ([], False)
      else (case mw_store w key of None \<Rightarrow> ([], False) | Some body \<Rightarrow> (trim_space body, True)))"

definition sent :: "bool \<Rightarrow> faults \<Rightarrow> marker_world \<Rightarrow> string \<Rightarrow> bool" where
  "sent has_store flt w key = snd (token has_store flt w key)"

definition record_mark :: "bool \<Rightarrow> faults \<Rightarrow> marker_world \<Rightarrow> string \<Rightarrow> string \<Rightarrow> marker_world" where
  "record_mark has_store flt w key nt =
     (if \<not> has_store then w
      else if put_fails flt key then w
      else w\<lparr>mw_store := (mw_store w)(key \<mapsto> nt)\<rparr>)"

text \<open>\<open>send_ok\<close> is whether the send succeeds; the first component is whether it returned an error.\<close>

definition send_mark ::
  "bool \<Rightarrow> faults \<Rightarrow> marker_world \<Rightarrow> string \<Rightarrow> string \<Rightarrow> bool \<Rightarrow> bool \<times> marker_world" where
  "send_mark has_store flt w key nt send_ok =
     (if \<not> send_ok then (True, w)
      else (False, record_mark has_store flt
              (w\<lparr>mw_delivered := mw_delivered w @ [(key, nt)]\<rparr>) key nt))"

text \<open>The result is the pair the code returns (the boolean, whether there is an error) and the world.\<close>

definition send_once ::
  "bool \<Rightarrow> faults \<Rightarrow> marker_world \<Rightarrow> string \<Rightarrow> string \<Rightarrow> bool \<Rightarrow> (bool \<times> bool) \<times> marker_world" where
  "send_once has_store flt w key nt send_ok =
     (if sent has_store flt w key then ((False, False), w)
      else (let (err, w') = send_mark has_store flt w key nt send_ok in
            if err then ((False, True), w') else ((True, False), w')))"

definition send_on_change ::
  "bool \<Rightarrow> faults \<Rightarrow> marker_world \<Rightarrow> string \<Rightarrow> string \<Rightarrow> bool \<Rightarrow> (bool \<times> bool) \<times> marker_world" where
  "send_on_change has_store flt w key nt send_ok =
     (let (tok, found) = token has_store flt w key in
      if found \<and> tok = trim_space nt then ((False, False), w)
      else (let (err, w') = send_mark has_store flt w key nt send_ok in
            if err then ((False, True), w') else ((True, False), w')))"

section \<open>The contract of a deduplicating channel\<close>

text \<open>
  What the callers rely on when the store works and the send succeeds: an alert that stands is
  not repeated, one that does not stand is sent, and after an attempt it stands. The channel
  is an operation on a state for a token (the event or the episode to report).
\<close>

locale dedup_channel =
  fixes attempt :: "'tok \<Rightarrow> 's \<Rightarrow> bool \<times> 's"
    and stands :: "'tok \<Rightarrow> 's \<Rightarrow> bool"
  assumes silent: "stands t s \<Longrightarrow> attempt t s = (False, s)"
    and alerts: "\<not> stands t s \<Longrightarrow> fst (attempt t s)"
    and recorded: "stands t (snd (attempt t s))"
begin

text \<open>A run per element; the result lists whether each run alerted.\<close>

fun runs :: "'tok list \<Rightarrow> 's \<Rightarrow> bool list" where
  "runs [] s = []"
| "runs (t # ts) s = (let (a, s') = attempt t s in a # runs ts s')"

lemma runs_standing: "stands t s \<Longrightarrow> runs (replicate n t) s = replicate n False"
  by (induction n) (auto simp: silent)

lemma one_alert: "\<not> stands t s \<Longrightarrow> runs (replicate (Suc n) t) s = True # replicate n False"
  using alerts [of t s] recorded [of t s] by (cases "attempt t s") (auto simp: runs_standing)

lemma runs_same: "runs (replicate (Suc n) t) s = (\<not> stands t s) # replicate n False"
  using one_alert [of t s n] runs_standing [of t s "Suc n"] by (cases "stands t s") simp_all

lemma length_runs [simp]: "length (runs ts s) = length ts"
  by (induction ts arbitrary: s) (auto simp: case_prod_beta' Let_def)

end

text \<open>The same loop over a channel given as an argument, for statements about the model.\<close>

fun channel_runs :: "('tok \<Rightarrow> 's \<Rightarrow> bool \<times> 's) \<Rightarrow> 'tok list \<Rightarrow> 's \<Rightarrow> bool list" where
  "channel_runs attempt [] s = []"
| "channel_runs attempt (t # ts) s = (let (a, s') = attempt t s in a # channel_runs attempt ts s')"

definition on_change_channel :: "string \<Rightarrow> string \<Rightarrow> marker_world \<Rightarrow> bool \<times> marker_world" where
  "on_change_channel key nt w =
     (let ((a, _), w') = send_on_change True healthy w key nt True in (a, w'))"

definition once_channel :: "string \<Rightarrow> marker_world \<Rightarrow> bool \<times> marker_world" where
  "once_channel key w = (let ((a, _), w') = send_once True healthy w key [] True in (a, w'))"

definition change_stands :: "string \<Rightarrow> string \<Rightarrow> marker_world \<Rightarrow> bool" where
  "change_stands key nt w \<longleftrightarrow>
     (case mw_store w key of None \<Rightarrow> False | Some b \<Rightarrow> trim_space b = trim_space nt)"

interpretation change: dedup_channel "on_change_channel key" "change_stands key" for key
  by unfold_locales
     (auto simp: on_change_channel_def change_stands_def send_on_change_def token_def send_mark_def
        record_mark_def healthy_def split: option.splits)

interpretation once: dedup_channel once_channel "\<lambda>key w. mw_store w key \<noteq> None"
  by unfold_locales
     (auto simp: once_channel_def send_once_def sent_def token_def send_mark_def record_mark_def
        healthy_def split: option.splits)

lemma channel_runs_eq:
  "channel_runs (on_change_channel key) ts w = change.runs key ts w"
  "channel_runs once_channel ts w = once.runs ts w"
  by (induction ts arbitrary: w) (simp_all add: Let_def case_prod_beta')

section \<open>Properties\<close>

text \<open>A standing alert is pushed once. With a working store, \<open>SendOnChange\<close> run any number of
  times in a row with the same note alerts on the first run, unless the note already stands,
  and never on the later ones; \<open>SendOnce\<close> the same for a key.\<close>

theorem repeated_runs_alert_once:
  "channel_runs (on_change_channel key) (replicate (Suc n) nt) w =
     (\<not> change_stands key nt w) # replicate n False \<and>
   channel_runs once_channel (replicate (Suc n) key) w = (mw_store w key = None) # replicate n False"
  by (simp only: channel_runs_eq change.runs_same once.runs_same not_not)

text \<open>A failure costs a duplicate, never silence. Whatever reads and writes fail:
  \<open>SendOnChange\<close> stays quiet only when the store was read and holds exactly this note; a send
  that fails is reported and leaves everything unchanged, so that the next run retries; and
  the marker changes only in a call that delivered the alert.\<close>

theorem never_silent:
  assumes "send_on_change has_store flt w key nt ok = ((a, err), w')"
  shows "(\<not> a \<and> \<not> err \<longrightarrow> has_store \<and> \<not> get_fails flt key \<and> change_stands key nt w \<and> w' = w) \<and>
    (err \<longrightarrow> \<not> ok \<and> w' = w) \<and>
    (mw_store w' \<noteq> mw_store w \<longrightarrow> mw_delivered w' = mw_delivered w @ [(key, nt)]) \<and>
    (a \<longrightarrow> mw_delivered w' = mw_delivered w @ [(key, nt)])"
  using assms
  by (auto simp: send_on_change_def token_def send_mark_def record_mark_def change_stands_def Let_def
      split: if_splits option.splits)

text \<open>Without a store every run alerts: dedup is off, the alert is not.\<close>

theorem no_store_always_sends:
  "send_on_change False flt w key nt True =
     ((True, False), w\<lparr>mw_delivered := mw_delivered w @ [(key, nt)]\<rparr>) \<and>
   send_once False flt w key nt True =
     ((True, False), w\<lparr>mw_delivered := mw_delivered w @ [(key, nt)]\<rparr>)"
  by (simp add: send_on_change_def send_once_def sent_def token_def send_mark_def record_mark_def)

text \<open>\<open>SendOnce\<close> does not report an attempt that failed. Its comment says that it returns
  whether the send was attempted; when the send is attempted and fails it returns false.\<close>

theorem send_once_failed_attempt:
  "mw_store w key = None \<Longrightarrow> send_once True healthy w key nt False = ((False, True), w)"
  by (simp add: send_once_def sent_def token_def send_mark_def healthy_def)

theorem never_silent_witness:
  "fst (send_on_change True healthy \<lparr>mw_store = [''k'' \<mapsto> ''n ''], mw_delivered = []\<rparr> ''k'' ''n'' True) = (False, False) \<and>
   change_stands ''k'' ''n'' \<lparr>mw_store = [''k'' \<mapsto> ''n ''], mw_delivered = []\<rparr>"
proof -
  let ?w = "\<lparr>mw_store = [''k'' \<mapsto> ''n ''], mw_delivered = []\<rparr>"
  have r: "send_on_change True healthy ?w ''k'' ''n'' True = ((False, False), ?w)"
    by (simp add: send_on_change_def token_def healthy_def trim_space_def is_space_def)
  from never_silent [OF r] r show ?thesis by simp
qed

theorem send_once_failed_attempt_witness:
  "send_once True healthy \<lparr>mw_store = Map.empty, mw_delivered = []\<rparr> ''k'' [] False =
     ((False, True), \<lparr>mw_store = Map.empty, mw_delivered = []\<rparr>)"
  by (rule send_once_failed_attempt) simp

end
