(* ===== verification/Ops_Alert.thy ===== *)
theory Ops_Alert
  imports Civil_Time Alert_Marker "HOL-Library.Product_Lexorder"
begin

text \<open>
  When an operator is told what: package \<open>internal/opsalert\<close>. \<open>streak.go\<close> reads the run
  ledger for failure streaks, \<open>heartbeat.go\<close> for jobs that stopped running, \<open>drift.go\<close>
  compares what is deployed with what is merged. The lemmas: a tenant's verdict depends on its
  own runs only; every outage is announced once, escalated once and closed once; the heartbeat
  reports exactly the (job, tenant) pairs that are overdue; the alert tokens make each outage
  one push.
\<close>

record ledger_record =
  lr_ID :: string
  lr_Command :: string
  lr_UserID :: string
  lr_Status :: string
  lr_StartedAt :: string
  lr_Outcome :: string

abbreviation status_running :: string where "status_running \<equiv> ''RUNNING''"
abbreviation status_success :: string where "status_success \<equiv> ''SUCCESS''"
abbreviation status_failed :: string where "status_failed \<equiv> ''FAILED''"
abbreviation tenant_actionable :: string where "tenant_actionable \<equiv> ''tenant_actionable''"

definition started :: "ledger_record \<Rightarrow> go_time" where
  "started r = (case parse_rfc3339 (lr_StartedAt r) of None \<Rightarrow> 0 | Some t \<Rightarrow> t)"

section \<open>Streaks\<close>

datatype alert_kind = Quiet | Started | Escalated | Recovered

definition escalate_at :: nat where
  "escalate_at = 3"

record verdict =
  vd_Kind :: alert_kind
  vd_Command :: string
  vd_UserID :: string
  vd_Streak :: nat
  vd_Failure :: "ledger_record option"

definition is_actionable_success :: "ledger_record \<Rightarrow> bool" where
  "is_actionable_success r \<longleftrightarrow> lr_Status r = status_success \<and> lr_Outcome r = tenant_actionable"

definition history_of :: "ledger_record list \<Rightarrow> string \<Rightarrow> string \<Rightarrow> ledger_record list" where
  "history_of recs command userID = filter (\<lambda>r. \<not> (lr_Command r \<noteq> command \<or> lr_UserID r \<noteq> userID)
     \<and> \<not> (lr_Status r \<noteq> status_success \<and> lr_Status r \<noteq> status_failed)) recs"

definition drop_tenant_actionable_successes :: "ledger_record list \<Rightarrow> ledger_record list" where
  "drop_tenant_actionable_successes hist = filter (\<lambda>r. \<not> is_actionable_success r) hist"

definition leading_failures :: "ledger_record list \<Rightarrow> nat" where
  "leading_failures recs = length (takeWhile (\<lambda>r. \<not> lr_Status r \<noteq> status_failed) recs)"

definition streak_of :: "string \<Rightarrow> string \<Rightarrow> ledger_record list \<Rightarrow> verdict" where
  "streak_of command userID hist =
     (let quiet = \<lparr>vd_Kind = Quiet, vd_Command = command, vd_UserID = userID, vd_Streak = 0, vd_Failure = None\<rparr> in
      case hist of
        [] \<Rightarrow> quiet
      | h # _ \<Rightarrow>
         if is_actionable_success h then quiet
         else (case drop_tenant_actionable_successes hist of
                 [] \<Rightarrow> quiet
               | r # older \<Rightarrow>
                  if lr_Status r = status_success then
                    (let n = leading_failures older in
                     if n = 0 then quiet
                     else \<lparr>vd_Kind = Recovered, vd_Command = command, vd_UserID = userID,
                            vd_Streak = n, vd_Failure = None\<rparr>)
                  else
                    (let n = leading_failures (r # older) in
                     \<lparr>vd_Kind = (if n = 1 then Started else if n = escalate_at then Escalated else Quiet),
                      vd_Command = command, vd_UserID = userID, vd_Streak = n, vd_Failure = Some r\<rparr>)))"

definition streak :: "ledger_record list \<Rightarrow> string \<Rightarrow> string \<Rightarrow> verdict" where
  "streak recs command userID = streak_of command userID (history_of recs command userID)"

section \<open>Heartbeat\<close>

record schedule =
  sc_Command :: string
  sc_MaxGapSeconds :: int
  sc_PerTenant :: bool

definition max_gap :: "schedule \<Rightarrow> go_duration" where
  "max_gap s = sc_MaxGapSeconds s * second"

record missed =
  ms_Command :: string
  ms_UserID :: string
  ms_LastID :: string
  ms_Last :: go_time
  ms_Age :: go_duration
  ms_MaxGap :: go_duration

definition slug_char :: "char \<Rightarrow> bool" where
  "slug_char c \<longleftrightarrow> (let n = (of_char c :: nat) in
     (97 \<le> n \<and> n \<le> 122) \<or> (65 \<le> n \<and> n \<le> 90) \<or> (48 \<le> n \<and> n \<le> 57) \<or> n = 45)"

definition slug :: "string \<Rightarrow> string" where
  "slug command = (let b = map (\<lambda>c. if slug_char c then c else CHR ''_'') command in
     if length b = 0 then ''job'' else b)"

definition marker_key :: "missed \<Rightarrow> string" where
  "marker_key m = (let k = ''heartbeat/'' @ slug (ms_Command m) in
     if ms_UserID m \<noteq> [] then k @ ''@'' @ slug (ms_UserID m) else k)"

definition alert_token :: "missed \<Rightarrow> string" where
  "alert_token m = (if ms_LastID m = [] then ''none'' else ms_LastID m)"

definition needs_alert :: "missed \<Rightarrow> string \<Rightarrow> bool" where
  "needs_alert m prev =
     (if prev = [] then True else if ms_LastID m = [] then False else ms_LastID m \<noteq> prev)"

type_synonym run_key = "string \<times> string"

definition key_of :: "ledger_record \<Rightarrow> run_key" where
  "key_of r = (lr_Command r, lr_UserID r)"

text \<open>The newest dated record of every (command, tenant), first one on ties.\<close>

definition note_newest :: "ledger_record \<Rightarrow> (run_key \<rightharpoonup> ledger_record) \<Rightarrow> (run_key \<rightharpoonup> ledger_record)" where
  "note_newest r m =
     (if is_zero_time (started r) then m
      else (case m (key_of r) of
              None \<Rightarrow> m(key_of r \<mapsto> r)
            | Some cur \<Rightarrow> if started r > started cur then m(key_of r \<mapsto> r) else m))"

definition newest_runs :: "ledger_record list \<Rightarrow> (run_key \<rightharpoonup> ledger_record)" where
  "newest_runs recs = fold note_newest recs Map.empty"

definition tenants_of :: "ledger_record list \<Rightarrow> string \<Rightarrow> string list" where
  "tenants_of recs command =
     rev (remdups (rev (map lr_UserID (filter (\<lambda>r. lr_Command r = command) recs))))"

text \<open>The roster's share: tenants not seen yet; \<open>seen\<close> grows as they are added.\<close>

fun add_roster :: "string \<Rightarrow> string list \<Rightarrow> run_key list \<Rightarrow> string list \<times> run_key list" where
  "add_roster command [] seen = ([], seen)"
| "add_roster command (u # us) seen =
     (if u = [] \<or> (command, u) \<in> set seen then add_roster command us seen
      else (let (added, seen') = add_roster command us ((command, u) # seen) in (u # added, seen')))"

definition assess :: "(run_key \<rightharpoonup> ledger_record) \<Rightarrow> schedule \<Rightarrow> go_time \<Rightarrow> string \<Rightarrow> missed option" where
  "assess newest s now u =
     (case newest (sc_Command s, u) of
        None \<Rightarrow> Some \<lparr>ms_Command = sc_Command s, ms_UserID = u, ms_LastID = [], ms_Last = 0,
                  ms_Age = 0, ms_MaxGap = max_gap s\<rparr>
      | Some r \<Rightarrow>
         (let age = now - started r in
          if age \<le> max_gap s then None
          else Some \<lparr>ms_Command = sc_Command s, ms_UserID = u, ms_LastID = lr_ID r, ms_Last = started r,
                 ms_Age = age, ms_MaxGap = max_gap s\<rparr>))"

fun overdue_loop ::
  "ledger_record list \<Rightarrow> (run_key \<rightharpoonup> ledger_record) \<Rightarrow> string list \<Rightarrow> go_time \<Rightarrow> schedule list \<Rightarrow>
   run_key list \<Rightarrow> missed list" where
  "overdue_loop recs newest roster now [] seen = []"
| "overdue_loop recs newest roster now (s # scheds) seen =
     (if sc_MaxGapSeconds s \<le> 0 then overdue_loop recs newest roster now scheds seen
      else (let (added, seen') = (if sc_PerTenant s then add_roster (sc_Command s) roster seen else ([], seen));
                users = tenants_of recs (sc_Command s) @ added;
                users' = (if users = [] then [[]] else users)
            in List.map_filter (assess newest s now) users'
               @ overdue_loop recs newest roster now scheds seen'))"

definition missed_less :: "missed \<Rightarrow> missed \<Rightarrow> bool" where
  "missed_less a b =
     (if is_zero_time (ms_Last a) \<noteq> is_zero_time (ms_Last b) then is_zero_time (ms_Last a)
      else if ms_Last a \<noteq> ms_Last b then ms_Last a < ms_Last b
      else if ms_Command a \<noteq> ms_Command b then ms_Command a < ms_Command b
      else ms_UserID a < ms_UserID b)"

definition overdue ::
  "ledger_record list \<Rightarrow> schedule list \<Rightarrow> string list \<Rightarrow> go_time \<Rightarrow> missed list" where
  "overdue recs scheds roster now =
     sort_slice missed_less
       (overdue_loop recs (newest_runs recs) roster now scheds (map key_of recs))"

definition horizon :: "schedule list \<Rightarrow> go_time \<Rightarrow> go_time" where
  "horizon scheds now =
     (let mx = foldl (\<lambda>m s. if max_gap s > m then max_gap s else m) 0 scheds
      in if mx = 0 then now else now + (- 2 * mx))"

section \<open>Build drift\<close>

record build_state =
  bd_HeadSHA :: string
  bd_HeadTime :: go_time
  bd_BuiltSHA :: string

record drift =
  dr_HeadSHA :: string
  dr_BuiltSHA :: string
  dr_Age :: go_duration

definition drift_token :: "drift \<Rightarrow> string" where
  "drift_token d = (if dr_BuiltSHA d = [] then ''none'' else dr_BuiltSHA d)"

definition drift_needs_alert :: "drift \<Rightarrow> string \<Rightarrow> bool" where
  "drift_needs_alert d prev =
     (if prev = [] then True else if dr_BuiltSHA d = [] then False else dr_BuiltSHA d \<noteq> prev)"

definition check_drift :: "build_state \<Rightarrow> go_duration \<Rightarrow> go_time \<Rightarrow> drift option" where
  "check_drift st grace now =
     (if bd_HeadSHA st = [] \<or> is_zero_time (bd_HeadTime st) then None
      else if bd_HeadSHA st = bd_BuiltSHA st then None
      else (let age = now - bd_HeadTime st in
            if age < grace then None
            else Some \<lparr>dr_HeadSHA = bd_HeadSHA st, dr_BuiltSHA = bd_BuiltSHA st, dr_Age = age\<rparr>))"

definition drift_dark_needs_alert :: "string \<Rightarrow> bool" where
  "drift_dark_needs_alert prev \<longleftrightarrow> prev \<noteq> ''dark''"

definition drift_blind_needs_alert :: "string \<Rightarrow> bool" where
  "drift_blind_needs_alert prev \<longleftrightarrow> prev \<noteq> ''blind''"

definition short_sha :: "string \<Rightarrow> string" where
  "short_sha s = (if length s > 7 then take 7 s else s)"


section \<open>A streak is a counter nobody has to keep\<close>

text \<open>
  \<open>Streak\<close> recomputes its verdict from the whole ledger each time. \<open>verdicts\<close> is what it says
  over time, one verdict per terminal record of the tenant, in the order they are written. The
  reference is a counter of consecutive failures.
\<close>

definition is_terminal_of :: "string \<Rightarrow> string \<Rightarrow> ledger_record \<Rightarrow> bool" where
  "is_terminal_of c u r \<longleftrightarrow>
     lr_Command r = c \<and> lr_UserID r = u \<and> (lr_Status r = status_success \<or> lr_Status r = status_failed)"

definition counts :: "string \<Rightarrow> string \<Rightarrow> ledger_record \<Rightarrow> bool" where
  "counts c u r \<longleftrightarrow> is_terminal_of c u r \<and> \<not> is_actionable_success r"

fun verdicts :: "string \<Rightarrow> string \<Rightarrow> ledger_record list \<Rightarrow> ledger_record list \<Rightarrow> (alert_kind \<times> nat) list" where
  "verdicts c u ledger [] = []"
| "verdicts c u ledger (e # es) =
     (if is_terminal_of c u e
      then (let v = streak (e # ledger) c u in [(vd_Kind v, vd_Streak v)]) else [])
     @ verdicts c u (e # ledger) es"

fun counter_step :: "nat \<Rightarrow> ledger_record \<Rightarrow> (alert_kind \<times> nat) \<times> nat" where
  "counter_step n e =
     (if is_actionable_success e then ((Quiet, 0), n)
      else if lr_Status e = status_success then ((if n = 0 then Quiet else Recovered, n), 0)
      else ((if Suc n = 1 then Started else if Suc n = 3 then Escalated else Quiet, Suc n), Suc n))"

fun counter_run :: "nat \<Rightarrow> ledger_record list \<Rightarrow> (alert_kind \<times> nat) list" where
  "counter_run n [] = []"
| "counter_run n (e # es) = (let (out, n') = counter_step n e in out # counter_run n' es)"

definition open_failures :: "string \<Rightarrow> string \<Rightarrow> ledger_record list \<Rightarrow> nat" where
  "open_failures c u ledger = leading_failures (drop_tenant_actionable_successes (history_of ledger c u))"

lemma history_of_Cons:
  "history_of (e # ledger) c u = (if is_terminal_of c u e then [e] else []) @ history_of ledger c u"
  by (auto simp: history_of_def is_terminal_of_def)

lemma leading_failures_Cons:
  "leading_failures (e # es) = (if lr_Status e = status_failed then Suc (leading_failures es) else 0)"
  by (simp add: leading_failures_def)

lemma open_failures_Cons:
  "open_failures c u (e # ledger) =
     (if is_terminal_of c u e then snd (counter_step (open_failures c u ledger) e)
      else open_failures c u ledger)"
  by (auto simp: open_failures_def history_of_Cons drop_tenant_actionable_successes_def
      leading_failures_Cons is_terminal_of_def)

lemma streak_step:
  assumes "is_terminal_of c u e"
  shows "(vd_Kind (streak (e # ledger) c u), vd_Streak (streak (e # ledger) c u)) =
    fst (counter_step (open_failures c u ledger) e)"
  using assms
  by (auto simp: streak_def streak_of_def history_of_Cons open_failures_def escalate_at_def Let_def
      drop_tenant_actionable_successes_def leading_failures_Cons is_terminal_of_def
      is_actionable_success_def split: list.splits)

lemma streak_is_counter_aux:
  "verdicts c u ledger es = counter_run (open_failures c u ledger) (filter (is_terminal_of c u) es)"
  by (induction es arbitrary: ledger)
     (simp_all add: open_failures_Cons streak_step Let_def case_prod_beta' del: counter_step.simps)

definition fail_kind :: "nat \<Rightarrow> alert_kind" where
  "fail_kind i = (if i = 1 then Started else if i = 3 then Escalated else Quiet)"

lemma counter_run_failures:
  assumes "\<forall>e\<in>set fs. lr_Status e = status_failed"
  shows "counter_run n (fs @ es) =
    map (\<lambda>i. (fail_kind i, i)) [Suc n..<Suc (n + length fs)] @ counter_run (n + length fs) es"
  using assms
proof (induction fs arbitrary: n)
  case (Cons f fs)
  have "[Suc n..<Suc (n + length (f # fs))] = Suc n # [Suc (Suc n)..<Suc (Suc n + length fs)]"
    by (subst upt_conv_Cons) simp_all
  then show ?case using Cons by (simp add: is_actionable_success_def fail_kind_def)
qed simp

lemma counter_run_skip_actionable:
  "filter (\<lambda>v. fst v \<noteq> Quiet) (counter_run n es) =
   filter (\<lambda>v. fst v \<noteq> Quiet) (counter_run n (filter (\<lambda>e. \<not> is_actionable_success e) es))"
  by (induction es arbitrary: n) (simp_all add: Let_def case_prod_beta')

lemma failures_announced:
  assumes "0 < k"
  shows "filter (\<lambda>v. fst v \<noteq> Quiet) (map (\<lambda>i. (fail_kind i, i)) [1..<Suc k]) =
    (Started, 1) # (if 3 \<le> k then [(Escalated, 3)] else [])"
proof (cases "3 \<le> k")
  case True
  then obtain j where k: "k = 3 + j" using le_Suc_ex by blast
  have u: "[1..<Suc k] = [1, 2, 3] @ [4..<Suc k]"
    by (simp add: k upt_conv_Cons numeral_eq_Suc)
  have "filter (\<lambda>v. fst v \<noteq> Quiet) (map (\<lambda>i. (fail_kind i, i)) [4..<Suc k]) = []"
    by (auto simp: filter_empty_conv fail_kind_def)
  then show ?thesis using True unfolding u map_append filter_append by (simp add: fail_kind_def)
next
  case False
  then consider "k = 1" | "k = 2" using assms by linarith
  then show ?thesis by cases (simp_all add: fail_kind_def upt_conv_Cons numeral_2_eq_2)
qed

lemma outage_aux:
  assumes quiet: "open_failures c u ledger = 0"
    and es: "filter (counts c u) es = fs @ [s]"
    and fs: "fs \<noteq> []" "\<forall>e\<in>set fs. lr_Status e = status_failed"
    and s: "lr_Status s = status_success"
  shows "filter (\<lambda>v. fst v \<noteq> Quiet) (verdicts c u ledger es) =
    (Started, 1) # (if 3 \<le> length fs then [(Escalated, 3)] else []) @ [(Recovered, length fs)]"
proof -
  have f: "filter (\<lambda>e. \<not> is_actionable_success e) (filter (is_terminal_of c u) es) = fs @ [s]"
    using es unfolding filter_filter counts_def by (simp only: conj_commute)
  have sa: "\<not> is_actionable_success s"
  proof -
    have "s \<in> set (filter (counts c u) es)" by (simp add: es)
    then show ?thesis by (simp add: counts_def)
  qed
  have tail: "counter_run (length fs) [s] = [(Recovered, length fs)]"
    using sa s fs by simp
  have "filter (\<lambda>v. fst v \<noteq> Quiet) (verdicts c u ledger es) =
      filter (\<lambda>v. fst v \<noteq> Quiet) (counter_run 0 (fs @ [s]))"
    unfolding streak_is_counter_aux quiet
    by (subst counter_run_skip_actionable) (simp only: f)
  also have "\<dots> = filter (\<lambda>v. fst v \<noteq> Quiet) (map (\<lambda>i. (fail_kind i, i)) [1..<Suc (length fs)])
      @ [(Recovered, length fs)]"
    using counter_run_failures [OF fs(2), of 0 "[s]"] tail by simp
  also have "\<dots> = (Started, 1) # (if 3 \<le> length fs then [(Escalated, 3)] else []) @ [(Recovered, length fs)]"
    by (subst failures_announced) (use fs in auto)
  finally show ?thesis .
qed



section \<open>What the heartbeat reports\<close>

definition launched :: "ledger_record list \<Rightarrow> string \<Rightarrow> string \<Rightarrow> bool" where
  "launched recs c u \<longleftrightarrow> (\<exists>r\<in>set recs. lr_Command r = c \<and> lr_UserID r = u)"

text \<open>No record of the pair that carries a date is recent enough.\<close>

definition dark :: "ledger_record list \<Rightarrow> schedule \<Rightarrow> string \<Rightarrow> go_time \<Rightarrow> bool" where
  "dark recs s u now \<longleftrightarrow> (\<forall>r\<in>set recs. lr_Command r = sc_Command s \<and> lr_UserID r = u \<and>
     \<not> is_zero_time (started r) \<longrightarrow> max_gap s < now - started r)"

text \<open>The tenants a schedule is asserted for.\<close>

definition rostered :: "string list \<Rightarrow> schedule \<Rightarrow> string \<Rightarrow> bool" where
  "rostered roster s u \<longleftrightarrow> sc_PerTenant s \<and> u \<noteq> [] \<and> u \<in> set roster"

definition asserted :: "ledger_record list \<Rightarrow> string list \<Rightarrow> schedule \<Rightarrow> string \<Rightarrow> bool" where
  "asserted recs roster s u \<longleftrightarrow> launched recs (sc_Command s) u \<or> rostered roster s u \<or>
     (u = [] \<and> (\<forall>v. \<not> launched recs (sc_Command s) v \<and> \<not> rostered roster s v))"

lemma newest_fold:
  "fold note_newest recs m k = None \<longleftrightarrow>
     m k = None \<and> (\<forall>r\<in>set recs. key_of r = k \<longrightarrow> is_zero_time (started r))"
  by (induction recs arbitrary: m) (auto simp: note_newest_def split: option.splits)

lemma newest_fold_Some:
  assumes "fold note_newest recs m k = Some r"
  shows "(m k = Some r \<or> r \<in> set recs \<and> key_of r = k \<and> \<not> is_zero_time (started r)) \<and>
    (\<forall>r'\<in>set recs. key_of r' = k \<longrightarrow> \<not> is_zero_time (started r') \<longrightarrow> started r' \<le> started r) \<and>
    (\<forall>c. m k = Some c \<longrightarrow> started c \<le> started r)"
  using assms
proof (induction recs arbitrary: m)
  case (Cons a recs)
  let ?m = "note_newest a m"
  have ih: "(?m k = Some r \<or> r \<in> set recs \<and> key_of r = k \<and> \<not> is_zero_time (started r)) \<and>
    (\<forall>r'\<in>set recs. key_of r' = k \<longrightarrow> \<not> is_zero_time (started r') \<longrightarrow> started r' \<le> started r) \<and>
    (\<forall>c. ?m k = Some c \<longrightarrow> started c \<le> started r)"
    using Cons.prems by (intro Cons.IH) simp
  show ?case
  proof (cases "is_zero_time (started a) \<or> key_of a \<noteq> k")
    case True
    then have "?m k = m k" by (auto simp: note_newest_def split: option.splits)
    then show ?thesis using ih True by auto
  next
    case False
    then have "?m k = Some a \<and> (\<forall>c. m k = Some c \<longrightarrow> started c < started a) \<or>
        (\<exists>c. m k = Some c \<and> ?m k = Some c \<and> started a \<le> started c)"
      by (cases "m k") (auto simp: note_newest_def)
    then show ?thesis using ih False by fastforce
  qed
qed simp

lemma newest_runs_None:
  "newest_runs recs (c, u) = None \<longleftrightarrow>
     (\<forall>r\<in>set recs. lr_Command r = c \<and> lr_UserID r = u \<longrightarrow> is_zero_time (started r))"
  by (auto simp: newest_runs_def newest_fold key_of_def)

lemma newest_runs_Some:
  assumes "newest_runs recs (c, u) = Some r"
  shows "r \<in> set recs" "lr_Command r = c" "lr_UserID r = u" "\<not> is_zero_time (started r)"
    "\<And>r'. r' \<in> set recs \<Longrightarrow> lr_Command r' = c \<Longrightarrow> lr_UserID r' = u \<Longrightarrow>
       \<not> is_zero_time (started r') \<Longrightarrow> started r' \<le> started r"
  using newest_fold_Some [of recs Map.empty "(c, u)" r] assms
  by (auto simp: newest_runs_def key_of_def)

lemma assess_dark:
  "assess (newest_runs recs) s now u \<noteq> None \<longleftrightarrow> dark recs s u now"
proof (cases "newest_runs recs (sc_Command s, u)")
  case None
  then have "\<forall>r\<in>set recs. lr_Command r = sc_Command s \<and> lr_UserID r = u \<longrightarrow> is_zero_time (started r)"
    by (simp only: newest_runs_None)
  then show ?thesis using None by (auto simp: assess_def dark_def)
next
  case (Some r)
  have "assess (newest_runs recs) s now u \<noteq> None \<longleftrightarrow> max_gap s < now - started r"
    using Some by (auto simp: assess_def Let_def)
  also have "\<dots> \<longleftrightarrow> dark recs s u now"
  proof
    assume "max_gap s < now - started r"
    then show "dark recs s u now" using newest_runs_Some(5) [OF Some] by (force simp: dark_def)
  next
    assume "dark recs s u now"
    then show "max_gap s < now - started r" using newest_runs_Some(1-4) [OF Some] by (simp add: dark_def)
  qed
  finally show ?thesis .
qed

lemma assess_key:
  "assess newest s now u = Some m \<Longrightarrow> ms_Command m = sc_Command s \<and> ms_UserID m = u"
  by (auto simp: assess_def Let_def split: option.splits if_splits)

lemma set_tenants_of: "u \<in> set (tenants_of recs c) \<longleftrightarrow> launched recs c u"
  by (auto simp: tenants_of_def launched_def)

lemma add_roster_sets:
  "set (fst (add_roster c us seen)) = {u \<in> set us. u \<noteq> [] \<and> (c, u) \<notin> set seen} \<and>
   set (snd (add_roster c us seen)) = set seen \<union> Pair c ` {u \<in> set us. u \<noteq> []}"
  by (induction us arbitrary: seen) (auto simp: Let_def case_prod_beta')

text \<open>What \<open>seen\<close> says of a command no earlier schedule has had: exactly the ledger.\<close>

definition seen_ok :: "ledger_record list \<Rightarrow> string \<Rightarrow> run_key list \<Rightarrow> bool" where
  "seen_ok recs c seen \<longleftrightarrow> (\<forall>u. (c, u) \<in> set seen \<longleftrightarrow> launched recs c u)"

lemma seen_ok_other:
  "c' \<noteq> c \<Longrightarrow> seen_ok recs c' (snd (add_roster c us seen)) = seen_ok recs c' seen"
  by (auto simp: seen_ok_def add_roster_sets)

lemma seen_ok_init: "seen_ok recs c (map key_of recs)"
  by (auto simp: seen_ok_def launched_def key_of_def)

lemma users_asserted:
  assumes ok: "seen_ok recs (sc_Command s) seen"
    and users: "users = tenants_of recs (sc_Command s) @
      fst (if sc_PerTenant s then add_roster (sc_Command s) roster seen else ([], seen))"
  shows "u \<in> set (if users = [] then [[]] else users) \<longleftrightarrow> asserted recs roster s u"
proof -
  have mem: "v \<in> set users \<longleftrightarrow> launched recs (sc_Command s) v \<or> rostered roster s v" for v
    using ok by (auto simp: users set_tenants_of add_roster_sets rostered_def seen_ok_def)
  have "users = [] \<longleftrightarrow> (\<forall>v. v \<notin> set users)" by (metis list.set_intros(1) list.exhaust empty_iff empty_set)
  then show ?thesis using mem by (auto simp: asserted_def)
qed

lemma map_filter_mem: "m \<in> set (List.map_filter f xs) \<longleftrightarrow> (\<exists>x\<in>set xs. f x = Some m)"
  by (induction xs) (auto simp: List.map_filter_simps split: option.splits)

lemma overdue_loop_mem:
  assumes "distinct (map sc_Command scheds)"
    and "\<And>s. s \<in> set scheds \<Longrightarrow> seen_ok recs (sc_Command s) seen"
  shows "m \<in> set (overdue_loop recs newest roster now scheds seen) \<longleftrightarrow>
    (\<exists>s\<in>set scheds. 0 < sc_MaxGapSeconds s \<and>
       (\<exists>u. asserted recs roster s u \<and> assess newest s now u = Some m))"
  using assms
proof (induction scheds arbitrary: seen)
  case (Cons s scheds)
  show ?case
  proof (cases "sc_MaxGapSeconds s \<le> 0")
    case True
    have "m \<in> set (overdue_loop recs newest roster now scheds seen) \<longleftrightarrow>
        (\<exists>s\<in>set scheds. 0 < sc_MaxGapSeconds s \<and>
          (\<exists>u. asserted recs roster s u \<and> assess newest s now u = Some m))"
      using Cons.prems by (intro Cons.IH) auto
    then show ?thesis using True by auto
  next
    case False
    let ?ar = "if sc_PerTenant s then add_roster (sc_Command s) roster seen else ([], seen)"
    define users where "users = tenants_of recs (sc_Command s) @ fst ?ar"
    have ih: "m \<in> set (overdue_loop recs newest roster now scheds (snd ?ar)) \<longleftrightarrow>
        (\<exists>s\<in>set scheds. 0 < sc_MaxGapSeconds s \<and>
          (\<exists>u. asserted recs roster s u \<and> assess newest s now u = Some m))"
    proof (intro Cons.IH)
      show "distinct (map sc_Command scheds)" using Cons.prems(1) by simp
      fix s' assume s': "s' \<in> set scheds"
      then have "sc_Command s' \<noteq> sc_Command s" using Cons.prems(1) by (metis distinct.simps(2) image_eqI list.map(2) list.set_map)
      moreover have "seen_ok recs (sc_Command s') seen" using s' Cons.prems(2) by simp
      ultimately show "seen_ok recs (sc_Command s') (snd ?ar)" by (simp add: seen_ok_other)
    qed
    have us: "u \<in> set (if users = [] then [[]] else users) \<longleftrightarrow> asserted recs roster s u" for u
      by (rule users_asserted [OF _ users_def]) (use Cons.prems(2) in simp)
    have "overdue_loop recs newest roster now (s # scheds) seen =
        List.map_filter (assess newest s now) (if users = [] then [[]] else users)
        @ overdue_loop recs newest roster now scheds (snd ?ar)"
      using False by (simp add: users_def Let_def case_prod_beta')
    then have "m \<in> set (overdue_loop recs newest roster now (s # scheds) seen) \<longleftrightarrow>
        (\<exists>u. asserted recs roster s u \<and> assess newest s now u = Some m) \<or>
        (\<exists>s\<in>set scheds. 0 < sc_MaxGapSeconds s \<and>
          (\<exists>u. asserted recs roster s u \<and> assess newest s now u = Some m))"
      by (simp only: set_append Un_iff map_filter_mem ih us Bex_def)
    then show ?thesis using False by auto
  qed
qed simp

lemma overdue_exact_aux:
  assumes "distinct (map sc_Command scheds)"
  shows "(\<exists>m\<in>set (overdue recs scheds roster now). ms_Command m = c \<and> ms_UserID m = u) \<longleftrightarrow>
    (\<exists>s\<in>set scheds. sc_Command s = c \<and> 0 < sc_MaxGapSeconds s \<and> asserted recs roster s u \<and> dark recs s u now)"
    (is "?L \<longleftrightarrow> ?R")
proof -
  have mem: "m \<in> set (overdue recs scheds roster now) \<longleftrightarrow>
    (\<exists>s\<in>set scheds. 0 < sc_MaxGapSeconds s \<and>
       (\<exists>u. asserted recs roster s u \<and> assess (newest_runs recs) s now u = Some m))" for m
    unfolding overdue_def set_sort_slice by (intro overdue_loop_mem assms seen_ok_init)
  show ?thesis
  proof
    assume ?L
    then obtain m s u' where m: "ms_Command m = c" "ms_UserID m = u"
      and s: "s \<in> set scheds" "0 < sc_MaxGapSeconds s" "asserted recs roster s u'"
      and a: "assess (newest_runs recs) s now u' = Some m"
      unfolding Bex_def mem by blast
    have "sc_Command s = c" "u' = u" using assess_key [OF a] m by simp_all
    moreover have "dark recs s u' now" using assess_dark [of recs s now u'] a by simp
    ultimately show ?R using s by auto
  next
    assume ?R
    then obtain s where s: "s \<in> set scheds" "sc_Command s = c" "0 < sc_MaxGapSeconds s"
      "asserted recs roster s u" and d: "dark recs s u now" by blast
    from d obtain m where a: "assess (newest_runs recs) s now u = Some m"
      unfolding assess_dark [symmetric] by blast
    then have "m \<in> set (overdue recs scheds roster now)" using s unfolding mem by blast
    then show ?L using assess_key [OF a] s by auto
  qed
qed

text \<open>The order of the reports.\<close>

lemma zero_flag_less: "(\<not> is_zero_time a) < (\<not> is_zero_time b) \<longleftrightarrow> is_zero_time a \<and> \<not> is_zero_time b"
  by auto

lemma missed_less_order:
  "missed_less a b \<longleftrightarrow>
     (\<not> is_zero_time (ms_Last a), ms_Last a, ms_Command a, ms_UserID a) <
     (\<not> is_zero_time (ms_Last b), ms_Last b, ms_Command b, ms_UserID b)"
  by (auto simp: missed_less_def is_zero_time_def)

lemma missed_total: "\<not> missed_less a b \<longleftrightarrow>
     (\<not> is_zero_time (ms_Last b), ms_Last b, ms_Command b, ms_UserID b) \<le>
     (\<not> is_zero_time (ms_Last a), ms_Last a, ms_Command a, ms_UserID a)"
  unfolding missed_less_order by (rule not_less)

interpretation missed_order: go_order missed_less
  by unfold_locales (auto simp: missed_less_order dest: less_trans)

lemma overdue_sorted:
  "sorted_wrt (\<lambda>a b. \<not> missed_less b a) (overdue recs scheds roster now)"
  unfolding overdue_def by (rule missed_order.sorted_sort_slice)

section \<open>One push per outage\<close>

text \<open>
  What the notifier does with a finding: ask whether it is news against the recorded token,
  and record the finding's own token when it is.
\<close>

definition heartbeat_channel :: "missed \<Rightarrow> string \<Rightarrow> bool \<times> string" where
  "heartbeat_channel m prev = (if needs_alert m prev then (True, alert_token m) else (False, prev))"

definition drift_channel :: "drift \<Rightarrow> string \<Rightarrow> bool \<times> string" where
  "drift_channel d prev = (if drift_needs_alert d prev then (True, drift_token d) else (False, prev))"

interpretation heartbeat: dedup_channel heartbeat_channel "\<lambda>m prev. \<not> needs_alert m prev"
  by unfold_locales (auto simp: heartbeat_channel_def needs_alert_def alert_token_def)

interpretation drift: dedup_channel drift_channel "\<lambda>d prev. \<not> drift_needs_alert d prev"
  by unfold_locales (auto simp: drift_channel_def drift_needs_alert_def drift_token_def)


section \<open>Properties\<close>

text \<open>\<open>Streak\<close> is the counter it replaces. Over any history of records, in any interleaving of
  commands, tenants, running records and tenant-actionable successes, the verdicts for
  (command, tenant) are those of a counter of consecutive failures that sees only the
  terminal records of that tenant, started at the failures open in the ledger so far.\<close>

theorem streak_is_counter:
  "verdicts c u ledger es =
     counter_run (open_failures c u ledger) (filter (is_terminal_of c u) es)"
  by (rule streak_is_counter_aux)

text \<open>One outage, one story. From a ledger with no open failure, a run of failures of a tenant
  closed by an ordinary success, with whatever other records in between (other tenants, other
  jobs, running records, tenant-actionable successes), makes the operator hear exactly:
  started at the first failure, escalated at the third if there is one, and recovered, with
  the right count, at the success.\<close>

theorem outage_announced_once:
  assumes "open_failures c u ledger = 0"
    and "filter (counts c u) es = fs @ [s]"
    and "fs \<noteq> []" "\<forall>e\<in>set fs. lr_Status e = status_failed"
    and "lr_Status s = status_success"
  shows "filter (\<lambda>v. fst v \<noteq> Quiet) (verdicts c u ledger es) =
    (Started, 1) # (if 3 \<le> length fs then [(Escalated, 3)] else []) @ [(Recovered, length fs)]"
  using outage_aux [OF assms] .

text \<open>C20. The heartbeat reports exactly what is dark. With one schedule per command, a (job, tenant)
  pair is reported exactly when the job has a positive cadence, the pair is asserted (it has
  run, or the job fans out and the tenant is on the roster, or it is the untagged pair of a
  job nobody has), and no dated run of the pair is within the cadence: a tenant that never ran
  is found, and no other tenant's runs can hide it.\<close>

theorem overdue_exact:
  assumes "distinct (map sc_Command scheds)"
  shows "(\<exists>m\<in>set (overdue recs scheds roster now). ms_Command m = c \<and> ms_UserID m = u) \<longleftrightarrow>
    (\<exists>s\<in>set scheds. sc_Command s = c \<and> 0 < sc_MaxGapSeconds s \<and> asserted recs roster s u \<and>
       dark recs s u now)"
  using overdue_exact_aux [OF assms] .

text \<open>Witnesses: two failures around another tenant's success, then a recovery; a roster tenant
  that never ran beside one that did.\<close>

definition example_run :: "string \<Rightarrow> string \<Rightarrow> string \<Rightarrow> ledger_record" where
  "example_run u st out = \<lparr>lr_ID = ''r1'', lr_Command = ''lineup'', lr_UserID = u, lr_Status = st,
     lr_StartedAt = ''2026-05-01T12:00:00Z'', lr_Outcome = out\<rparr>"

theorem outage_announced_once_witness:
  "filter (\<lambda>v. fst v \<noteq> Quiet) (verdicts ''lineup'' ''a'' []
     [example_run ''a'' status_failed [], example_run ''b'' status_success [],
      example_run ''a'' status_success tenant_actionable, example_run ''a'' status_failed [],
      example_run ''a'' status_running [], example_run ''a'' status_success []]) =
   [(Started, 1), (Recovered, 2)]"
  using outage_announced_once [of "''lineup''" "''a''" "[]"
     "[example_run ''a'' status_failed [], example_run ''b'' status_success [],
      example_run ''a'' status_success tenant_actionable, example_run ''a'' status_failed [],
      example_run ''a'' status_running [], example_run ''a'' status_success []]"
     "[example_run ''a'' status_failed [], example_run ''a'' status_failed []]"
     "example_run ''a'' status_success []"]
  by (simp add: example_run_def open_failures_def history_of_def counts_def is_terminal_of_def
      is_actionable_success_def drop_tenant_actionable_successes_def leading_failures_def)

theorem overdue_exact_witness:
  "\<exists>m\<in>set (overdue [example_run ''a'' status_success []]
     [\<lparr>sc_Command = ''lineup'', sc_MaxGapSeconds = 3600, sc_PerTenant = True\<rparr>] [''a'', ''b''] 0).
     ms_Command m = ''lineup'' \<and> ms_UserID m = ''b''"
  by (subst overdue_exact)
     (auto simp: example_run_def asserted_def launched_def rostered_def dark_def)

end
