(* ===== verification/Ops_Notify.thy ===== *)
theory Ops_Notify
  imports Ops_Alert
begin

text \<open>
  The notifier itself (\<open>opsnotify/\<close>): the handlers that read the ledger and the markers, ask
  \<open>internal/opsalert\<close> for a judgement and send. A handler maps the world of markers and
  deliveries to the error it returns and the next world. The ledger's object store is the
  listing of its keys with the record each decodes to, if it can be read; \<open>ok\<close> says of each
  marker key whether the push for it goes through. Bodies of messages are not modelled,
  titles are, because an empty title means "stay quiet". The lemmas: one push per stopped task
  however often it is delivered, no crash is silent, the time-bounded read is enough for the
  heartbeat's verdict, one push per time the drift check is switched off or blind.
\<close>

section \<open>Sending\<close>

definition send1 ::
  "bool \<Rightarrow> faults \<Rightarrow> (string \<Rightarrow> bool) \<Rightarrow> marker_world \<Rightarrow> string \<Rightarrow> string \<Rightarrow> string \<Rightarrow> bool \<times> marker_world" where
  "send1 has flt ok w key nt title =
     (if title = [] then (False, w) else send_mark has flt w key nt (ok key))"

definition send_alert_once ::
  "bool \<Rightarrow> faults \<Rightarrow> (string \<Rightarrow> bool) \<Rightarrow> marker_world \<Rightarrow> string \<Rightarrow> string \<Rightarrow> string \<Rightarrow> bool \<times> marker_world" where
  "send_alert_once has flt ok w key nt title =
     (if title = [] then (False, w)
      else if sent has flt w key then (False, w)
      else send1 has flt ok w key nt title)"

definition job_name :: "string \<Rightarrow> string" where
  "job_name command =
     (let f = takeWhile (\<lambda>c. \<not> is_space c) (dropWhile is_space command) in if f = [] then ''task'' else f)"

definition format_task_title :: "verdict \<Rightarrow> string" where
  "format_task_title v =
     (let job = job_name (vd_Command v) in
      case vd_Kind v of
        Started \<Rightarrow> ''Rosterbot: '' @ job @ '' failed''
      | Escalated \<Rightarrow> ''Rosterbot: '' @ job @ '' still failing''
      | Recovered \<Rightarrow> ''Rosterbot: '' @ job @ '' recovered''
      | Quiet \<Rightarrow> [])"

definition format_crash_title :: "string \<Rightarrow> string" where
  "format_crash_title command = ''Rosterbot: '' @ job_name command @ '' died''"

definition format_missed_title :: "missed \<Rightarrow> string" where
  "format_missed_title m = ''Rosterbot: '' @ job_name (ms_Command m) @ '' has not run''"

section \<open>The ledger reader\<close>

type_synonym ledger_blob = "(string \<times> ledger_record option) list"

definition after_last_slash :: "string \<Rightarrow> string" where
  "after_last_slash s = rev (takeWhile (\<lambda>c. c \<noteq> CHR ''/'') (rev s))"

definition is_ledger_record :: "string \<Rightarrow> bool" where
  "is_ledger_record base =
     (if \<not> has_suffix base ''.json'' then False
      else (let name = take (length base - 5) base;
                stamp = takeWhile (\<lambda>c. c \<noteq> CHR ''-'') name;
                cut = dropWhile (\<lambda>c. c \<noteq> CHR ''-'') name
            in if cut = [] \<or> stamp = [] \<or> tl cut = [] then False
               else list_all (\<lambda>c. CHR ''0'' \<le> c \<and> c \<le> CHR ''9'') stamp))"

definition ledger_key_less :: "string \<Rightarrow> string \<Rightarrow> bool" where
  "ledger_key_less a b =
     (let bi = after_last_slash a; bj = after_last_slash b in if bi \<noteq> bj then bi < bj else a < b)"

definition ledger_keys :: "ledger_blob \<Rightarrow> nat \<Rightarrow> string list" where
  "ledger_keys blob limit =
     (let ks = sort_slice ledger_key_less
                 (filter (\<lambda>k. is_ledger_record (after_last_slash k)) (map fst blob))
      in if length ks > limit then take limit ks else ks)"

definition fetch_keys :: "ledger_blob \<Rightarrow> string list \<Rightarrow> ledger_record list" where
  "fetch_keys blob ks = List.map_filter (\<lambda>k. Option.bind (map_of blob k) (\<lambda>r. r)) ks"

definition ledger_window :: nat where "ledger_window = 200"
definition heartbeat_cap :: nat where "heartbeat_cap = 1500"
definition fetch_concurrency :: nat where "fetch_concurrency = 32"

definition recent :: "ledger_blob \<Rightarrow> nat \<Rightarrow> ledger_record list" where
  "recent blob limit = fetch_keys blob (ledger_keys blob limit)"

definition before_cutoff :: "go_time \<Rightarrow> ledger_record \<Rightarrow> bool" where
  "before_cutoff cutoff r \<longleftrightarrow> \<not> is_zero_time (started r) \<and> started r < cutoff"

function since_loop :: "ledger_blob \<Rightarrow> go_time \<Rightarrow> string list \<Rightarrow> ledger_record list" where
  "since_loop blob cutoff ks =
     (if ks = [] then []
      else (let chunk = fetch_keys blob (take fetch_concurrency ks) in
            filter (\<lambda>r. \<not> before_cutoff cutoff r) chunk
            @ (if list_ex (before_cutoff cutoff) chunk then []
               else since_loop blob cutoff (drop fetch_concurrency ks))))"
  by pat_completeness auto
termination
  by (relation "measure (\<lambda>(_, _, ks). length ks)") (auto simp: fetch_concurrency_def)

declare since_loop.simps [simp del]

definition since :: "ledger_blob \<Rightarrow> go_time \<Rightarrow> ledger_record list" where
  "since blob cutoff = since_loop blob cutoff (ledger_keys blob heartbeat_cap)"

section \<open>A stopped task\<close>

record ecs_task =
  et_TaskArn :: string
  et_LastStatus :: string
  et_Version :: int
  et_ExitCodes :: "int option list"
  et_Overrides :: "(string \<times> string list) list"

definition task_failed :: "ecs_task \<Rightarrow> bool" where
  "task_failed d = (if et_ExitCodes d = [] then True
     else list_ex (\<lambda>c. case c of None \<Rightarrow> True | Some n \<Rightarrow> n \<noteq> 0) (et_ExitCodes d))"

definition task_id :: "ecs_task \<Rightarrow> string" where
  "task_id d = after_last_slash (et_TaskArn d)"

definition dedupe_key :: "ecs_task \<Rightarrow> string" where
  "dedupe_key d = ''task/'' @ task_id d"

fun nat_digits :: "nat \<Rightarrow> string" where
  "nat_digits n = (if n < 10 then [char_of (48 + n)] else nat_digits (n div 10) @ [char_of (48 + n mod 10)])"

declare nat_digits.simps [simp del]

definition int_digits :: "int \<Rightarrow> string" where
  "int_digits n = (if n < 0 then ''-'' @ nat_digits (nat (- n)) else nat_digits (nat n))"

definition alert_note :: "ecs_task \<Rightarrow> string" where
  "alert_note d = ''version='' @ int_digits (et_Version d) @ '' lastStatus='' @ et_LastStatus d"

fun join_space :: "string list \<Rightarrow> string" where
  "join_space [] = []"
| "join_space [s] = s"
| "join_space (s # t # ss) = s @ '' '' @ join_space (t # ss)"

definition task_command :: "ecs_task \<Rightarrow> string" where
  "task_command d =
     (case List.find (\<lambda>(name, cmd). name = ''bot'' \<and> length cmd > 0) (et_Overrides d) of
        Some (_, cmd) \<Rightarrow> join_space cmd
      | None \<Rightarrow> (case List.find (\<lambda>(_, cmd). length cmd > 0) (et_Overrides d) of
                 Some (_, cmd) \<Rightarrow> join_space cmd
               | None \<Rightarrow> []))"

definition terminal_record :: "ledger_record list \<Rightarrow> string \<Rightarrow> ledger_record option" where
  "terminal_record recs rid =
     List.find (\<lambda>r. lr_ID r = rid \<and> (lr_Status r = status_success \<or> lr_Status r = status_failed)) recs"

text \<open>The ledger is \<open>None\<close> when no reader is configured and \<open>Some None\<close> when it cannot be listed.
  The first component of the result is whether an error is returned.\<close>

definition handle_task ::
  "bool \<Rightarrow> faults \<Rightarrow> (string \<Rightarrow> bool) \<Rightarrow> ledger_blob option option \<Rightarrow> ecs_task \<Rightarrow> marker_world \<Rightarrow> bool \<times> marker_world" where
  "handle_task has flt ok ledger d w =
     (if et_LastStatus d \<noteq> ''STOPPED'' then (False, w)
      else (let command = task_command d in
        if command = [] then (False, w)
        else (case ledger of
            None \<Rightarrow> (False, w)
          | Some None \<Rightarrow> (True, w)
          | Some (Some blob) \<Rightarrow>
             (let recs = recent blob ledger_window in
              case terminal_record recs (task_id d) of
                None \<Rightarrow>
                  (if task_failed d
                   then send_alert_once has flt ok w (dedupe_key d) (alert_note d) (format_crash_title command)
                   else (False, w))
              | Some own \<Rightarrow>
                  send_alert_once has flt ok w (dedupe_key d) (alert_note d)
                    (format_task_title (streak recs command (lr_UserID own)))))))"

section \<open>The heartbeat\<close>

fun heartbeat_loop ::
  "bool \<Rightarrow> faults \<Rightarrow> (string \<Rightarrow> bool) \<Rightarrow> missed list \<Rightarrow> marker_world \<Rightarrow> marker_world" where
  "heartbeat_loop has flt ok [] w = w"
| "heartbeat_loop has flt ok (m # ms) w =
     (let prev = fst (token has flt w (marker_key m)) in
      if \<not> needs_alert m prev then heartbeat_loop has flt ok ms w
      else heartbeat_loop has flt ok ms
             (snd (send1 has flt ok w (marker_key m) (alert_token m) (format_missed_title m))))"

definition handle_heartbeat ::
  "bool \<Rightarrow> faults \<Rightarrow> (string \<Rightarrow> bool) \<Rightarrow> schedule list \<Rightarrow> ledger_blob option option \<Rightarrow> string list \<Rightarrow>
   go_time \<Rightarrow> marker_world \<Rightarrow> bool \<times> marker_world" where
  "handle_heartbeat has flt ok scheds ledger roster now w =
     (if scheds = [] then (False, w)
      else (case ledger of
          None \<Rightarrow> (False, w)
        | Some None \<Rightarrow> (True, w)
        | Some (Some blob) \<Rightarrow>
           (let recs = since blob (horizon scheds now);
                ms = overdue recs scheds roster now
            in if ms = [] then (False, w) else (False, heartbeat_loop has flt ok ms w))))"

section \<open>Build drift\<close>

record build_info =
  bi_Succeeded :: bool
  bi_Resolved :: "string option"
  bi_StartTime :: "go_time option"

text \<open>The newest successful build among those the page returned; \<open>(sha, start)\<close> is the best so far.\<close>

definition newest_successful_build :: "build_info list \<Rightarrow> string" where
  "newest_successful_build bs =
     fst (foldl (\<lambda>(bestSHA, bestAt) b.
            if \<not> bi_Succeeded b \<or> bi_Resolved b = None then (bestSHA, bestAt)
            else if bi_StartTime b = None then (bestSHA, bestAt)
            else if bestSHA = [] \<or> bestAt < the (bi_StartTime b)
                 then (the (bi_Resolved b), the (bi_StartTime b))
            else (bestSHA, bestAt)) ([], 0) bs)"

definition drift_grace :: go_duration where "drift_grace = 30 * minute"

definition clear_blind_marker :: "bool \<Rightarrow> faults \<Rightarrow> marker_world \<Rightarrow> marker_world" where
  "clear_blind_marker has flt w =
     (if fst (token has flt w ''builddrift-source'') = ''blind''
      then record_mark has flt w ''builddrift-source'' ''readable'' else w)"

text \<open>\<open>head\<close> is the commit and its date, \<open>None\<close> when GitHub could not be read; \<open>built\<close> is the
  newest built commit, \<open>None\<close> when CodeBuild could not be read.\<close>

definition handle_drift ::
  "bool \<Rightarrow> faults \<Rightarrow> (string \<Rightarrow> bool) \<Rightarrow> string \<Rightarrow> string \<Rightarrow> (string \<times> go_time) option \<Rightarrow> string option \<Rightarrow>
   go_time \<Rightarrow> marker_world \<Rightarrow> bool \<times> marker_world" where
  "handle_drift has flt ok repo project head built now w =
     (if repo = [] \<or> project = [] then (False, w)
      else (case head of
          None \<Rightarrow>
            (let prev = fst (token has flt w ''builddrift-source'') in
             if \<not> drift_blind_needs_alert prev then (False, w)
             else (False, snd (send1 has flt ok w ''builddrift-source'' ''blind''
                                 ''Rosterbot deploy check cannot read main'')))
        | Some (sha, dt) \<Rightarrow>
            (let w1 = clear_blind_marker has flt w in
             case built of
               None \<Rightarrow> (False, w1)
             | Some b \<Rightarrow>
                (case check_drift \<lparr>bd_HeadSHA = sha, bd_HeadTime = dt, bd_BuiltSHA = b\<rparr> drift_grace now of
                   None \<Rightarrow> (False, w1)
                 | Some d \<Rightarrow>
                    (let prev = fst (token has flt w1 ''builddrift'') in
                     if \<not> drift_needs_alert d prev then (False, w1)
                     else send1 has flt ok w1 ''builddrift'' (drift_token d)
                            ''Rosterbot deploy behind main'')))))"

definition handle_drift_config ::
  "bool \<Rightarrow> faults \<Rightarrow> (string \<Rightarrow> bool) \<Rightarrow> string \<Rightarrow> marker_world \<Rightarrow> marker_world" where
  "handle_drift_config has flt ok project w =
     (let prev = fst (token has flt w ''builddrift-config'') in
      if project \<noteq> [] then
        (if prev = ''dark'' then record_mark has flt w ''builddrift-config'' project else w)
      else if \<not> drift_dark_needs_alert prev then w
      else snd (send1 has flt ok w ''builddrift-config'' ''dark'' ''Rosterbot deploy pipeline is dark''))"

section \<open>Security alarms\<close>

record alarm_detail =
  al_AlarmName :: string
  al_Value :: string
  al_Timestamp :: string

definition alarm_control :: "alarm_detail \<Rightarrow> string" where
  "alarm_control d = (if has_prefix (al_AlarmName d) ''rosterbot-cis-''
     then drop (length ''rosterbot-cis-'') (al_AlarmName d) else al_AlarmName d)"

definition format_alarm_title :: "alarm_detail \<Rightarrow> string" where
  "format_alarm_title d = (if al_Value d \<noteq> ''ALARM'' then []
     else [CHR 0xF0, CHR 0x9F, CHR 0x94, CHR 0x90] @ '' Rosterbot security: '' @ alarm_control d)"

definition handle_alarm ::
  "bool \<Rightarrow> faults \<Rightarrow> (string \<Rightarrow> bool) \<Rightarrow> alarm_detail \<Rightarrow> marker_world \<Rightarrow> bool \<times> marker_world" where
  "handle_alarm has flt ok d w =
     send_alert_once has flt ok w (''alarm/'' @ al_AlarmName d @ ''/'' @ al_Timestamp d) (al_Value d)
       (format_alarm_title d)"

section \<open>At most one push per stopped task\<close>

definition pushes_for :: "string \<Rightarrow> marker_world \<Rightarrow> nat" where
  "pushes_for key w = length (filter (\<lambda>(k, _). k = key) (mw_delivered w))"

text \<open>A key that carries no marker yet has had no push, and no key has had two.\<close>

definition pushed_once :: "marker_world \<Rightarrow> bool" where
  "pushed_once w \<longleftrightarrow> (\<forall>key. pushes_for key w \<le> (if mw_store w key = None then 0 else 1))"

lemma send_alert_once_inv:
  assumes "pushed_once w" "\<And>k. \<not> get_fails flt k" "\<And>k. \<not> put_fails flt k"
  shows "pushed_once (snd (send_alert_once True flt ok w key nt title))"
proof (cases "title = [] \<or> mw_store w key \<noteq> None \<or> \<not> ok key")
  case True
  then have "snd (send_alert_once True flt ok w key nt title) = w"
    using assms by (auto simp: send_alert_once_def send1_def sent_def token_def send_mark_def)
  then show ?thesis using assms by simp
next
  case False
  then have e: "snd (send_alert_once True flt ok w key nt title) =
      w\<lparr>mw_store := (mw_store w)(key \<mapsto> nt), mw_delivered := mw_delivered w @ [(key, nt)]\<rparr>"
    using assms by (auto simp: send_alert_once_def send1_def sent_def token_def send_mark_def record_mark_def)
  have z: "pushes_for key w = 0" using assms(1) False unfolding pushed_once_def by (auto dest: spec [of _ key])
  show ?thesis unfolding e pushed_once_def
  proof
    fix k
    show "pushes_for k (w\<lparr>mw_store := (mw_store w)(key \<mapsto> nt), mw_delivered := mw_delivered w @ [(key, nt)]\<rparr>)
        \<le> (if mw_store (w\<lparr>mw_store := (mw_store w)(key \<mapsto> nt), mw_delivered := mw_delivered w @ [(key, nt)]\<rparr>) k
              = None then 0 else 1)"
      using assms(1) [unfolded pushed_once_def, rule_format, of k] z
      by (cases "k = key") (simp_all add: pushes_for_def)
  qed
qed

lemma handle_task_inv:
  assumes "pushed_once w" "\<And>k. \<not> get_fails flt k" "\<And>k. \<not> put_fails flt k"
  shows "pushed_once (snd (handle_task True flt ok ledger d w))"
  using assms send_alert_once_inv [OF assms]
  by (auto simp: handle_task_def Let_def split: option.splits)

text \<open>A sequence of deliveries: the event, the ledger as it is then, and which pushes get through.\<close>

fun deliveries ::
  "faults \<Rightarrow> (ecs_task \<times> ledger_blob option option \<times> (string \<Rightarrow> bool)) list \<Rightarrow> marker_world \<Rightarrow> marker_world" where
  "deliveries flt [] w = w"
| "deliveries flt ((d, ledger, ok) # es) w = deliveries flt es (snd (handle_task True flt ok ledger d w))"

lemma deliveries_inv:
  assumes "\<And>k. \<not> get_fails flt k" "\<And>k. \<not> put_fails flt k"
    and "pushed_once w"
  shows "pushed_once (deliveries flt es w)"
  using assms
proof (induction flt es w rule: deliveries.induct)
  case (2 flt d ledger ok es w)
  show ?case unfolding deliveries.simps by (intro "2.IH" handle_task_inv "2.prems")
qed simp

lemma pushed_once_empty: "mw_delivered w = [] \<Longrightarrow> pushed_once w"
  by (simp add: pushed_once_def pushes_for_def)


section \<open>The heartbeat's read\<close>

text \<open>Every record the ledger holds, and what it means that its keys are in order of time.\<close>

definition all_records :: "ledger_blob \<Rightarrow> ledger_record list" where
  "all_records blob = fetch_keys blob (filter (\<lambda>k. is_ledger_record (after_last_slash k)) (map fst blob))"

definition record_at :: "ledger_blob \<Rightarrow> string \<Rightarrow> ledger_record option" where
  "record_at blob k = Option.bind (map_of blob k) (\<lambda>r. r)"

definition newest_first :: "ledger_blob \<Rightarrow> string list \<Rightarrow> bool" where
  "newest_first blob ks \<longleftrightarrow> sorted_wrt (\<lambda>k k'. \<forall>r r'. record_at blob k = Some r \<longrightarrow> record_at blob k' = Some r' \<longrightarrow>
     \<not> is_zero_time (started r) \<longrightarrow> \<not> is_zero_time (started r') \<longrightarrow> started r' \<le> started r) ks"

lemma fetch_keys_mem: "r \<in> set (fetch_keys blob ks) \<longleftrightarrow> (\<exists>k\<in>set ks. record_at blob k = Some r)"
  by (auto simp: fetch_keys_def map_filter_mem record_at_def)

lemma fetch_take_drop:
  "set (fetch_keys blob (take n ks)) \<subseteq> set (fetch_keys blob ks)"
  "set (fetch_keys blob (drop n ks)) \<subseteq> set (fetch_keys blob ks)"
  unfolding subset_iff fetch_keys_mem by (meson in_set_takeD in_set_dropD)+

lemma since_loop_sub: "set (since_loop blob cutoff ks) \<subseteq> set (fetch_keys blob ks)"
proof (induction blob cutoff ks rule: since_loop.induct)
  case (1 blob cutoff ks)
  show ?case
  proof (cases "ks = [] \<or> list_ex (before_cutoff cutoff) (fetch_keys blob (take fetch_concurrency ks))")
    case True
    then show ?thesis
      using fetch_take_drop(1) [of blob fetch_concurrency ks]
      by (subst since_loop.simps) (auto simp: Let_def)
  next
    case False
    then have "set (since_loop blob cutoff (drop fetch_concurrency ks)) \<subseteq>
        set (fetch_keys blob (drop fetch_concurrency ks))" by (intro "1.IH") auto
    then show ?thesis
      using fetch_take_drop [of blob fetch_concurrency ks]
      by (subst since_loop.simps) (auto simp: Let_def)
  qed
qed

lemma since_loop_complete:
  assumes "newest_first blob ks" "r \<in> set (fetch_keys blob ks)" "\<not> is_zero_time (started r)" "cutoff \<le> started r"
  shows "r \<in> set (since_loop blob cutoff ks)"
  using assms
proof (induction blob cutoff ks rule: since_loop.induct)
  case (1 blob cutoff ks)
  let ?a = "take fetch_concurrency ks" and ?b = "drop fetch_concurrency ks"
  have ne: "ks \<noteq> []" using "1.prems"(2) by (auto simp: fetch_keys_mem)
  obtain k where k: "k \<in> set ks" "record_at blob k = Some r" using "1.prems"(2) by (auto simp: fetch_keys_mem)
  have split: "ks = ?a @ ?b" by simp
  show ?case
  proof (cases "k \<in> set ?a")
    case True
    then have "r \<in> set (fetch_keys blob ?a)" using k by (auto simp: fetch_keys_mem)
    then show ?thesis using "1.prems"(4) ne
      by (subst since_loop.simps) (simp add: before_cutoff_def Let_def)
  next
    case False
    then have kb: "k \<in> set ?b" using k(1) split by (metis Un_iff set_append)
    have ord: "newest_first blob (?a @ ?b)" using "1.prems"(1) by simp
    have nr: "\<not> list_ex (before_cutoff cutoff) (fetch_keys blob ?a)"
    proof
      assume "list_ex (before_cutoff cutoff) (fetch_keys blob ?a)"
      then obtain r0 k0 where r0: "k0 \<in> set ?a" "record_at blob k0 = Some r0" "before_cutoff cutoff r0"
        by (auto simp: list_ex_iff fetch_keys_mem)
      then have "started r \<le> started r0"
        using ord kb k "1.prems"(3) unfolding newest_first_def sorted_wrt_append before_cutoff_def by blast
      then show False using r0(3) "1.prems"(4) by (simp add: before_cutoff_def)
    qed
    have "r \<in> set (since_loop blob cutoff ?b)"
    proof (rule "1.IH" [OF ne refl])
      show "newest_first blob ?b" using ord by (simp add: newest_first_def sorted_wrt_append)
      show "r \<in> set (fetch_keys blob ?b)" using kb k by (auto simp: fetch_keys_mem)
    qed (use nr "1.prems" in auto)
    then show ?thesis using ne nr by (subst since_loop.simps) (simp add: Let_def)
  qed
qed

lemma horizon_le:
  assumes "s \<in> set scheds" "0 < sc_MaxGapSeconds s"
  shows "horizon scheds now \<le> now - max_gap s"
proof -
  let ?f = "\<lambda>m s. if max_gap s > m then max_gap s else m"
  have mono: "m \<le> foldl ?f m ss" for m ss by (induction ss arbitrary: m) (auto intro: order_trans less_imp_le)
  have ge: "s \<in> set ss \<Longrightarrow> max_gap s \<le> foldl ?f m ss" for m ss
  proof (induction ss arbitrary: m)
    case (Cons a ss)
    show ?case
    proof (cases "s = a")
      case True
      have "max_gap s \<le> ?f m a" using True by simp
      also have "\<dots> \<le> foldl ?f (?f m a) ss" by (rule mono)
      finally show ?thesis by simp
    next
      case False
      then show ?thesis using Cons by simp
    qed
  qed simp
  have "0 < max_gap s" using assms(2) by (simp add: max_gap_def second_def)
  then show ?thesis using ge [OF assms(1), of 0] by (simp add: horizon_def Let_def)
qed

lemma heartbeat_read_aux:
  assumes "newest_first blob (ledger_keys blob heartbeat_cap)"
    and "length (filter (\<lambda>k. is_ledger_record (after_last_slash k)) (map fst blob)) \<le> heartbeat_cap"
    and "s \<in> set scheds" "0 < sc_MaxGapSeconds s"
  shows "dark (since blob (horizon scheds now)) s u now = dark (all_records blob) s u now"
proof -
  have ks: "set (fetch_keys blob (ledger_keys blob heartbeat_cap)) = set (all_records blob)"
    using assms(2) by (auto simp: ledger_keys_def Let_def fetch_keys_mem all_records_def set_eq_iff)
  have sub: "set (since blob (horizon scheds now)) \<subseteq> set (all_records blob)"
    unfolding since_def ks [symmetric] by (rule since_loop_sub)
  have "r \<in> set (since blob (horizon scheds now))"
    if "r \<in> set (all_records blob)" "\<not> is_zero_time (started r)" "now - started r \<le> max_gap s" for r
    unfolding since_def
    by (rule since_loop_complete) (use that ks assms(1) horizon_le [OF assms(3,4), of now] in auto)
  then show ?thesis using sub by (force simp: dark_def not_less)
qed


section \<open>One push per outage\<close>

text \<open>
  Ticks of the heartbeat for one (job, tenant): the handler's world refines the token channel
  of \<open>internal/opsalert\<close>, so the pushes are the channel's alerts. The marker's body is trimmed
  when it is read, hence the condition that run ids carry no outer white space.
\<close>

definition tick_missed :: "missed \<Rightarrow> marker_world \<Rightarrow> marker_world" where
  "tick_missed m w = heartbeat_loop True healthy (\<lambda>_. True) [m] w"

definition marker_token :: "string \<Rightarrow> marker_world \<Rightarrow> string" where
  "marker_token key w = fst (token True healthy w key)"

lemma tick_missed_step:
  assumes "trim_space (alert_token m) = alert_token m"
  shows "marker_token (marker_key m) (tick_missed m w) =
      snd (heartbeat_channel m (marker_token (marker_key m) w))"
    and "pushes_for (marker_key m) (tick_missed m w) = pushes_for (marker_key m) w +
      (if fst (heartbeat_channel m (marker_token (marker_key m) w)) then 1 else 0)"
  using assms
  by (auto simp: tick_missed_def marker_token_def heartbeat_channel_def Let_def send1_def
      send_mark_def record_mark_def healthy_def format_missed_title_def token_def pushes_for_def)

lemma ticks_refine:
  assumes "\<And>m. m \<in> set ms \<Longrightarrow> marker_key m = key \<and> trim_space (alert_token m) = alert_token m"
  shows "pushes_for key (fold tick_missed ms w) = pushes_for key w +
    length (filter (\<lambda>a. a) (channel_runs heartbeat_channel ms (marker_token key w)))"
  using assms
proof (induction ms arbitrary: w)
  case (Cons m ms)
  have m: "marker_key m = key" "trim_space (alert_token m) = alert_token m" using Cons.prems by auto
  have step: "marker_token key (tick_missed m w) = snd (heartbeat_channel m (marker_token key w))"
    "pushes_for key (tick_missed m w) = pushes_for key w +
      (if fst (heartbeat_channel m (marker_token key w)) then 1 else 0)"
    using tick_missed_step [OF m(2), of w] m(1) by simp_all
  have "pushes_for key (fold tick_missed ms (tick_missed m w)) = pushes_for key (tick_missed m w) +
      length (filter (\<lambda>a. a) (channel_runs heartbeat_channel ms (marker_token key (tick_missed m w))))"
    using Cons.prems by (intro Cons.IH) auto
  then show ?case using step by (simp add: Let_def case_prod_beta')
qed simp

lemma heartbeat_runs_eq: "channel_runs heartbeat_channel ms prev = heartbeat.runs ms prev"
  by (induction ms arbitrary: prev) (simp_all add: Let_def case_prod_beta')

lemma channel_runs_append_quiet:
  assumes "ms_LastID m0 = []" "prev \<noteq> []"
  shows "channel_runs heartbeat_channel (replicate b m0) prev = replicate b False"
proof -
  have "\<not> needs_alert m0 prev" using assms by (simp add: needs_alert_def)
  then show ?thesis unfolding heartbeat_runs_eq by (rule heartbeat.runs_standing)
qed

lemma outage_runs:
  assumes "ms_LastID m0 = []"
  shows "channel_runs heartbeat_channel (replicate (Suc a) m @ replicate b m0) prev =
    needs_alert m prev # replicate (a + b) False"
proof -
  have split: "channel_runs heartbeat_channel (xs @ ys) p = channel_runs heartbeat_channel xs p @
      channel_runs heartbeat_channel ys (fold (\<lambda>m q. snd (heartbeat_channel m q)) xs p)" for xs ys p
    by (induction xs arbitrary: p) (simp_all add: Let_def case_prod_beta')
  have first: "channel_runs heartbeat_channel (replicate (Suc a) m) prev = needs_alert m prev # replicate a False"
    unfolding heartbeat_runs_eq heartbeat.runs_same by simp
  have ne: "fold (\<lambda>m q. snd (heartbeat_channel m q)) (replicate n m) p \<noteq> []" if "p \<noteq> []" for n p
    using that
    by (induction n arbitrary: p) (auto simp: heartbeat_channel_def alert_token_def)
  have "snd (heartbeat_channel m prev) \<noteq> []"
    by (auto simp: heartbeat_channel_def alert_token_def needs_alert_def)
  then have "fold (\<lambda>m q. snd (heartbeat_channel m q)) (replicate (Suc a) m) prev \<noteq> []"
    using ne by simp
  from channel_runs_append_quiet [OF assms this, of b] show ?thesis
    unfolding split first by (simp add: replicate_add)
qed

section \<open>The drift check's own switch\<close>

text \<open>How many times a configured check is switched off, over the ticks of the heartbeat.\<close>

fun switch_offs :: "bool \<Rightarrow> bool list \<Rightarrow> nat" where
  "switch_offs off [] = 0"
| "switch_offs off (True # ts) = (if off then 0 else 1) + switch_offs True ts"
| "switch_offs off (False # ts) = switch_offs False ts"

lemma drift_config_step:
  defines "key \<equiv> ''builddrift-config''"
  assumes "trim_space p \<noteq> ''dark''"
  shows "(marker_token key (handle_drift_config True healthy (\<lambda>_. True) p w) = ''dark'') = (p = [])"
    and "pushes_for key (handle_drift_config True healthy (\<lambda>_. True) p w) =
      pushes_for key w + (if p = [] \<and> marker_token key w \<noteq> ''dark'' then 1 else 0)"
proof -
  have dark: "trim_space ''dark'' = ''dark''" by (simp add: trim_space_def is_space_def)
  show "(marker_token key (handle_drift_config True healthy (\<lambda>_. True) p w) = ''dark'') = (p = [])"
    using assms(2) dark
    by (auto simp: key_def handle_drift_config_def marker_token_def Let_def drift_dark_needs_alert_def
        send1_def send_mark_def record_mark_def healthy_def token_def split: option.splits)
  show "pushes_for key (handle_drift_config True healthy (\<lambda>_. True) p w) =
      pushes_for key w + (if p = [] \<and> marker_token key w \<noteq> ''dark'' then 1 else 0)"
    by (auto simp: key_def handle_drift_config_def marker_token_def Let_def drift_dark_needs_alert_def
        send1_def send_mark_def record_mark_def healthy_def pushes_for_def)
qed

lemma drift_config_aux:
  assumes "\<forall>p\<in>set ps. trim_space p \<noteq> ''dark''"
  shows "pushes_for ''builddrift-config'' (fold (handle_drift_config True healthy (\<lambda>_. True)) ps w) =
    pushes_for ''builddrift-config'' w +
    switch_offs (marker_token ''builddrift-config'' w = ''dark'') (map (\<lambda>p. p = []) ps)"
  using assms
proof (induction ps arbitrary: w)
  case (Cons p ps)
  then have p: "trim_space p \<noteq> ''dark''" by simp
  show ?case using Cons.IH [of "handle_drift_config True healthy (\<lambda>_. True) p w"] Cons.prems
      drift_config_step [OF p, of w] by (cases "p = []") auto
qed simp


section \<open>Properties\<close>

text \<open>At most one push per stopped task. With a working marker store, over any sequence of
  task events, duplicated, reordered or with different versions, with any ledger at each of
  them and any pushes failing, no task is pushed for twice.\<close>

theorem task_pushed_once:
  assumes "\<And>k. \<not> get_fails flt k" "\<And>k. \<not> put_fails flt k" "mw_delivered w = []"
  shows "pushes_for (dedupe_key d) (deliveries flt es w) \<le> 1"
proof -
  have "pushed_once (deliveries flt es w)"
    using deliveries_inv [of flt w es] assms pushed_once_empty by blast
  then show ?thesis
    unfolding pushed_once_def by (metis (mono_tags) le_zero_eq nle_le order_trans zero_le)
qed

text \<open>The heartbeat's bounded read loses nothing. If the ledger's keys list newest first, as its
  inverted time stamps make them, and it holds no more records than the cap, then judging a
  job by the records read back to the horizon gives the verdict that all records would give:
  absence from the read is proof of absence.\<close>

theorem heartbeat_read_enough:
  assumes "newest_first blob (ledger_keys blob heartbeat_cap)"
    and "length (filter (\<lambda>k. is_ledger_record (after_last_slash k)) (map fst blob)) \<le> heartbeat_cap"
    and "s \<in> set scheds" "0 < sc_MaxGapSeconds s"
  shows "dark (since blob (horizon scheds now)) s u now = dark (all_records blob) s u now"
  using heartbeat_read_aux [OF assms] .

text \<open>One outage, one push. A job that stays dark is pushed for on the first tick only, unless
  that outage was pushed for already; and it stays quiet when its last run drops out of the
  horizon while it is still dark, so that a long outage is not reported again.\<close>

theorem one_push_per_outage:
  assumes "trim_space (alert_token m) = alert_token m"
    and "marker_key m0 = marker_key m" "ms_LastID m0 = []"
  shows "pushes_for (marker_key m) (fold tick_missed (replicate (Suc a) m @ replicate b m0) w) =
    pushes_for (marker_key m) w + (if needs_alert m (marker_token (marker_key m) w) then 1 else 0)"
proof -
  have "trim_space (alert_token m0) = alert_token m0"
    using assms(3) by (simp add: alert_token_def trim_space_def is_space_def)
  then have "pushes_for (marker_key m) (fold tick_missed (replicate (Suc a) m @ replicate b m0) w) =
      pushes_for (marker_key m) w + length (filter (\<lambda>a. a) (channel_runs heartbeat_channel
        (replicate (Suc a) m @ replicate b m0) (marker_token (marker_key m) w)))"
    by (intro ticks_refine) (use assms in \<open>auto split: if_splits\<close>)
  then show ?thesis unfolding outage_runs [OF assms(3)] by simp
qed

text \<open>Switching the drift check off is pushed once per time. Over any ticks of the heartbeat with
  the project set or unset, the pushes are exactly the changes from set to unset: a check that
  stays off is not repeated, and one that is restored and switched off again is news.\<close>

theorem drift_config_edges:
  assumes "\<forall>p\<in>set ps. trim_space p \<noteq> ''dark''"
  shows "pushes_for ''builddrift-config'' (fold (handle_drift_config True healthy (\<lambda>_. True)) ps w) =
    pushes_for ''builddrift-config'' w +
    switch_offs (marker_token ''builddrift-config'' w = ''dark'') (map (\<lambda>p. p = []) ps)"
  using drift_config_aux [OF assms] .

text \<open>Witnesses: a crash delivered twice; a ledger of one record; a tenant that stays dark and
  then has no run on record; a check switched off, restored and switched off again.\<close>

definition empty_world :: marker_world where
  "empty_world = \<lparr>mw_store = Map.empty, mw_delivered = []\<rparr>"

definition example_task :: ecs_task where
  "example_task = \<lparr>et_TaskArn = ''arn/t1'', et_LastStatus = ''STOPPED'', et_Version = 4,
     et_ExitCodes = [None], et_Overrides = [(''bot'', [''optimize''])]\<rparr>"

theorem task_pushed_once_witness:
  "pushes_for (dedupe_key example_task) (deliveries healthy
     [(example_task, Some (Some []), \<lambda>_. True), (example_task, Some (Some []), \<lambda>_. True)] empty_world) \<le> 1"
  by (rule task_pushed_once) (simp_all add: healthy_def empty_world_def)

definition example_blob :: ledger_blob where
  "example_blob = [(''0001-r1.json'', Some (example_run ''a'' status_success []))]"

theorem heartbeat_read_enough_witness:
  "dark (since example_blob (horizon [\<lparr>sc_Command = ''lineup'', sc_MaxGapSeconds = 3600, sc_PerTenant = True\<rparr>] 0))
     \<lparr>sc_Command = ''lineup'', sc_MaxGapSeconds = 3600, sc_PerTenant = True\<rparr> ''a'' 0 =
   dark (all_records example_blob)
     \<lparr>sc_Command = ''lineup'', sc_MaxGapSeconds = 3600, sc_PerTenant = True\<rparr> ''a'' 0"
proof (rule heartbeat_read_enough)
  have one: "ledger_keys example_blob heartbeat_cap = [] \<or> (\<exists>k. ledger_keys example_blob heartbeat_cap = [k])"
    by (auto simp: ledger_keys_def example_blob_def sort_slice_def Let_def)
  then show "newest_first example_blob (ledger_keys example_blob heartbeat_cap)"
    by (auto simp: newest_first_def)
  show "length (filter (\<lambda>k. is_ledger_record (after_last_slash k)) (map fst example_blob)) \<le> heartbeat_cap"
    by (simp add: example_blob_def heartbeat_cap_def)
qed simp_all

definition example_missed :: "string \<Rightarrow> missed" where
  "example_missed rid = \<lparr>ms_Command = ''lineup'', ms_UserID = ''a'', ms_LastID = rid, ms_Last = 5,
     ms_Age = 10, ms_MaxGap = 1\<rparr>"

theorem one_push_per_outage_witness:
  "pushes_for (marker_key (example_missed ''r1''))
     (fold tick_missed (replicate (Suc 3) (example_missed ''r1'') @ replicate 5 (example_missed [])) empty_world) = 1"
proof -
  have t: "marker_token k empty_world = []" for k
    by (simp add: marker_token_def token_def empty_world_def healthy_def)
  show ?thesis
    by (subst one_push_per_outage)
      (simp_all add: t, simp_all add: example_missed_def alert_token_def trim_space_def is_space_def
        marker_key_def needs_alert_def empty_world_def pushes_for_def)
qed

theorem drift_config_edges_witness:
  "pushes_for ''builddrift-config''
     (fold (handle_drift_config True healthy (\<lambda>_. True)) [[], [], ''rosterbot'', ''rosterbot'', []] empty_world) = 2"
  by (subst drift_config_edges)
    (simp_all add: trim_space_def is_space_def marker_token_def token_def empty_world_def healthy_def pushes_for_def)

end
