(* ===== verification/Base64.thy ===== *)
theory Base64
  imports Prelude
begin

text \<open>
  \<open>base64.RawURLEncoding\<close> of the standard library: the URL alphabet without padding. Decoding
  skips line breaks, refuses other characters and a length of 1 modulo 4, and ignores the
  trailing bits, as the library does. The lemma: decoding inverts encoding; and no character
  of an encoded text is a dot, so that two of them can be joined with one.
\<close>

definition b64_char :: "nat \<Rightarrow> char" where
  "b64_char n = char_of (if n < 26 then 65 + n else if n < 52 then 71 + n else if n < 62 then n - 4
     else if n = 62 then 45 else 95 :: nat)"

definition b64_digit :: "char \<Rightarrow> nat option" where
  "b64_digit c = (let n = (of_char c :: nat) in
     if 65 \<le> n \<and> n \<le> 90 then Some (n - 65) else if 97 \<le> n \<and> n \<le> 122 then Some (n - 71)
     else if 48 \<le> n \<and> n \<le> 57 then Some (n + 4) else if n = 45 then Some 62
     else if n = 95 then Some 63 else None)"

fun b64_digits :: "nat list \<Rightarrow> nat list" where
  "b64_digits [] = []"
| "b64_digits [a] = [a div 4, (a mod 4) * 16]"
| "b64_digits [a, b] = [a div 4, (a mod 4) * 16 + b div 16, (b mod 16) * 4]"
| "b64_digits (a # b # c # bs) =
     [a div 4, (a mod 4) * 16 + b div 16, (b mod 16) * 4 + c div 64, c mod 64] @ b64_digits bs"

fun b64_bytes :: "nat list \<Rightarrow> nat list option" where
  "b64_bytes [] = Some []"
| "b64_bytes [w] = None"
| "b64_bytes [w, x] = Some [w * 4 + x div 16]"
| "b64_bytes [w, x, y] = Some [w * 4 + x div 16, (x mod 16) * 16 + y div 4]"
| "b64_bytes (w # x # y # z # ds) =
     (case b64_bytes ds of None \<Rightarrow> None
      | Some bs \<Rightarrow> Some ([w * 4 + x div 16, (x mod 16) * 16 + y div 4, (y mod 4) * 64 + z] @ bs))"

definition b64_encode :: "string \<Rightarrow> string" where
  "b64_encode s = map b64_char (b64_digits (map of_char s))"

definition is_newline :: "char \<Rightarrow> bool" where
  "is_newline c \<longleftrightarrow> c = CHR 0x0A \<or> c = CHR 0x0D"

definition b64_decode :: "string \<Rightarrow> string option" where
  "b64_decode s =
     (let ds = map b64_digit (filter (\<lambda>c. \<not> is_newline c) s) in
      if None \<in> set ds then None
      else map_option (map char_of) (b64_bytes (map the ds)))"

lemma b64_char_digit: "n < 64 \<Longrightarrow> b64_digit (b64_char n) = Some n"
  by (auto simp: b64_digit_def b64_char_def Let_def)

lemma b64_char_newline: "n < 64 \<Longrightarrow> \<not> is_newline (b64_char n)"
proof
  assume "n < 64" "is_newline (b64_char n)"
  then have "b64_digit (CHR 0x0A) = Some n \<or> b64_digit (CHR 0x0D) = Some n"
    using b64_char_digit [of n] by (auto simp: is_newline_def)
  then show False by (simp add: b64_digit_def)
qed

lemma b64_digits_bound: "\<forall>b\<in>set bs. b < 256 \<Longrightarrow> d \<in> set (b64_digits bs) \<Longrightarrow> d < 64"
  by (induction bs arbitrary: d rule: b64_digits.induct) (auto simp: less_mult_imp_div_less)

lemma div_mod_join: "(a div 4) * 4 + ((a mod 4) * 16 + x) div 16 = a" if "x < 16" for a x :: nat
  using that by simp

lemma b64_bytes_digits: "\<forall>b\<in>set bs. b < 256 \<Longrightarrow> b64_bytes (b64_digits bs) = Some bs"
proof (induction bs rule: b64_digits.induct)
  case (3 a b)
  then have "b div 16 < 16" by auto
  then show ?case by simp
next
  case (4 a b c bs)
  then have "b div 16 < 16" "c div 64 < 4" by auto
  then show ?case using 4 by simp
qed simp_all

theorem b64_roundtrip: "b64_decode (b64_encode s) = Some s"
proof -
  let ?bs = "map of_char s :: nat list"
  have b: "\<forall>b\<in>set ?bs. b < 256" by (auto intro: nat_of_char_less_256)
  have d: "n < 64" if "n \<in> set (b64_digits ?bs)" for n using b64_digits_bound [OF b that] .
  have f: "filter (\<lambda>c. \<not> is_newline c) (b64_encode s) = b64_encode s"
    using d b64_char_newline by (auto simp: b64_encode_def filter_id_conv)
  have m: "map b64_digit (b64_encode s) = map Some (b64_digits ?bs)"
    using d b64_char_digit by (auto simp: b64_encode_def)
  have bs: "b64_bytes (b64_digits ?bs) = Some ?bs" by (rule b64_bytes_digits [OF b])
  show ?thesis
    unfolding b64_decode_def f m Let_def by (simp add: comp_def bs)
qed

lemma b64_encode_no_dot: "CHR ''.'' \<notin> set (b64_encode s)"
proof
  assume "CHR ''.'' \<in> set (b64_encode s)"
  then obtain n where n: "n \<in> set (b64_digits (map of_char s))" "CHR ''.'' = b64_char n"
    by (auto simp: b64_encode_def)
  have "n < 64" by (rule b64_digits_bound [OF _ n(1)]) (auto intro: nat_of_char_less_256)
  then have "b64_digit (CHR ''.'') = Some n" using b64_char_digit n(2) by metis
  then show False by (simp add: b64_digit_def)
qed

lemma b64_encode_inj: "b64_encode s = b64_encode t \<longleftrightarrow> s = t"
  by (metis b64_roundtrip option.inject)

end
