(* ===== verification/Tenant_Store.thy ===== *)
theory Tenant_Store
  imports Base64 "HOL-Library.AList"
begin

text \<open>
  The tenant directory: \<open>internal/lineupapi\<close> \<open>user.go\<close>, \<open>fileuser.go\<close>, \<open>enrollment.go\<close>,
  \<open>membership.go\<close> and the team assignment of \<open>cmd/user_set_team.go\<close>. The file tree is a record
  of directories: a directory that is listed is an association list, one that is only looked up
  by name is a map; names are the ids themselves, because the encoding of ids in file names is
  injective (\<open>b64_encode_inj\<close>), and claims are filed under the lower-case value. The calls that read and write
  files succeed. \<open>ver\<close> is the content hash of a stored profile. The lemmas: the claim index
  and the profiles agree in both directions over every sequence of operations, so that a team
  has one manager and no claim is orphaned; a push token has one holder; an enrollment link is
  redeemed at most once.
\<close>

record membership =
  mb_Platform :: string
  mb_LeagueID :: string
  mb_TeamID :: string
  mb_DisplayName :: string
  mb_Writable :: bool
  mb_AddedAt :: go_time

record user =
  us_ID :: string
  us_DisplayName :: string
  us_Email :: string
  us_Role :: string
  us_Status :: string
  us_AutoApply :: bool
  us_HitterProjection :: string
  us_PitcherProjection :: string
  us_TeamID :: string
  us_Memberships :: "membership list"
  us_TokenVersion :: int
  us_EmailAttestedBy :: string
  us_EmailAttestedAt :: go_time
  us_CreatedAt :: go_time
  us_Version :: string

abbreviation role_member :: string where "role_member \<equiv> ''member''"
abbreviation role_admin :: string where "role_admin \<equiv> ''admin''"
abbreviation user_active :: string where "user_active \<equiv> ''active''"
abbreviation platform_fantrax :: string where "platform_fantrax \<equiv> ''fantrax''"

definition all_memberships :: "user \<Rightarrow> membership list" where
  "all_memberships u =
     (if us_TeamID u \<noteq> [] then [\<lparr>mb_Platform = platform_fantrax, mb_LeagueID = [], mb_TeamID = us_TeamID u,
        mb_DisplayName = [], mb_Writable = True, mb_AddedAt = us_CreatedAt u\<rparr>] else [])
     @ map (\<lambda>m. if mb_Platform m \<noteq> platform_fantrax then m\<lparr>mb_Writable := False\<rparr> else m) (us_Memberships u)"

record push_device =
  pd_ID :: string
  pd_Token :: string
  pd_Environment :: string
  pd_BundleID :: string
  pd_Model :: string
  pd_CreatedAt :: string
  pd_LastSeenAt :: string

record enrollment =
  en_UserID :: string
  en_TeamID :: string
  en_Email :: string
  en_ExpiresAt :: go_time
  en_UsedAt :: go_time

definition expired :: "enrollment \<Rightarrow> go_time \<Rightarrow> bool" where
  "expired e now \<longleftrightarrow> \<not> is_zero_time (en_ExpiresAt e) \<and> now > en_ExpiresAt e"

definition redeemed :: "enrollment \<Rightarrow> bool" where
  "redeemed e \<longleftrightarrow> \<not> is_zero_time (en_UsedAt e)"

record tenant_store =
  ts_users :: "(string \<times> user) list"
  ts_email :: "string \<rightharpoonup> string"
  ts_team :: "string \<rightharpoonup> string"
  ts_creds :: "string \<Rightarrow> (string \<times> string) list"
  ts_credindex :: "string \<rightharpoonup> string"
  ts_credmeta :: "string \<Rightarrow> (string \<times> string \<times> go_time) list"
  ts_push :: "string \<Rightarrow> (string \<times> push_device) list"
  ts_pushtokens :: "string \<rightharpoonup> string \<times> string"
  ts_enroll :: "string \<rightharpoonup> enrollment"

datatype store_error = User_conflict | Email_taken | Team_taken | Enrollment_invalid

section \<open>Profiles and claims\<close>

definition read_profile :: "(user \<Rightarrow> string) \<Rightarrow> tenant_store \<Rightarrow> string \<Rightarrow> user option" where
  "read_profile ver s uid =
     (case map_of (ts_users s) uid of None \<Rightarrow> None | Some u \<Rightarrow> Some (u\<lparr>us_Version := ver u\<rparr>))"

definition write_profile :: "string \<Rightarrow> user \<Rightarrow> tenant_store \<Rightarrow> tenant_store" where
  "write_profile uid u s = s\<lparr>ts_users := AList.update uid (u\<lparr>us_Version := []\<rparr>) (ts_users s)\<rparr>"

definition stamp :: "(user \<Rightarrow> string) \<Rightarrow> user \<Rightarrow> user" where
  "stamp ver u = u\<lparr>us_Version := ver (u\<lparr>us_Version := []\<rparr>)\<rparr>"

definition held_by_other :: "(string \<rightharpoonup> string) \<Rightarrow> string \<Rightarrow> string \<Rightarrow> bool" where
  "held_by_other claims value uid =
     (case claims (to_lower value) of None \<Rightarrow> False | Some holder \<Rightarrow> holder \<noteq> uid)"

definition claim_email :: "string \<Rightarrow> string \<Rightarrow> tenant_store \<Rightarrow> tenant_store" where
  "claim_email email uid s = (if email \<noteq> [] then s\<lparr>ts_email := (ts_email s)(to_lower email \<mapsto> uid)\<rparr> else s)"

definition claim_team_file :: "string \<Rightarrow> string \<Rightarrow> tenant_store \<Rightarrow> tenant_store" where
  "claim_team_file team uid s = s\<lparr>ts_team := (ts_team s)(to_lower team \<mapsto> uid)\<rparr>"

definition create_user :: "(user \<Rightarrow> string) \<Rightarrow> user \<Rightarrow> tenant_store \<Rightarrow> (store_error + user) \<times> tenant_store" where
  "create_user ver u s =
     (if read_profile ver s (us_ID u) \<noteq> None then (Inl User_conflict, s)
      else if us_Email u \<noteq> [] \<and> held_by_other (ts_email s) (us_Email u) (us_ID u) then (Inl Email_taken, s)
      else if us_TeamID u \<noteq> [] \<and> held_by_other (ts_team s) (us_TeamID u) (us_ID u) then (Inl Team_taken, s)
      else (let s1 = claim_email (us_Email u) (us_ID u) (write_profile (us_ID u) u s);
                s2 = (if us_TeamID u \<noteq> [] then claim_team_file (us_TeamID u) (us_ID u) s1 else s1)
            in (Inr (stamp ver u), s2)))"

definition put_user :: "(user \<Rightarrow> string) \<Rightarrow> user \<Rightarrow> tenant_store \<Rightarrow> (store_error + user) \<times> tenant_store" where
  "put_user ver u s =
     (case read_profile ver s (us_ID u) of
        None \<Rightarrow> (Inl User_conflict, s)
      | Some cur \<Rightarrow>
         if us_Version cur \<noteq> us_Version u then (Inl User_conflict, s)
         else (Inr (stamp ver u), write_profile (us_ID u) u s))"

definition claim_team :: "(user \<Rightarrow> string) \<Rightarrow> string \<Rightarrow> string \<Rightarrow> tenant_store \<Rightarrow> (store_error + unit) \<times> tenant_store" where
  "claim_team ver uid team s =
     (if held_by_other (ts_team s) team uid then (Inl Team_taken, s)
      else (case read_profile ver s uid of
              None \<Rightarrow> (Inl User_conflict, s)
            | Some u \<Rightarrow> (Inr (), claim_team_file team uid (write_profile uid (u\<lparr>us_TeamID := team\<rparr>) s))))"

datatype set_team_error = User_required | Team_required | No_user | Already_holds string | Claim_failed store_error

definition set_team :: "(user \<Rightarrow> string) \<Rightarrow> string \<Rightarrow> string \<Rightarrow> tenant_store \<Rightarrow> (set_team_error + unit) \<times> tenant_store" where
  "set_team ver uid team s =
     (if uid = [] then (Inl User_required, s)
      else if team = [] then (Inl Team_required, s)
      else (case read_profile ver s uid of
              None \<Rightarrow> (Inl No_user, s)
            | Some u \<Rightarrow>
               if us_TeamID u \<noteq> [] \<and> us_TeamID u \<noteq> team then (Inl (Already_holds (us_TeamID u)), s)
               else (case claim_team ver uid team s of
                       (Inl e, s') \<Rightarrow> (Inl (Claim_failed e), s')
                     | (Inr _, s') \<Rightarrow> (Inr (), s'))))"

definition list_where :: "(user \<Rightarrow> string) \<Rightarrow> (user \<Rightarrow> bool) \<Rightarrow> tenant_store \<Rightarrow> user list" where
  "list_where ver keep s =
     sort_slice (\<lambda>a b. us_ID a < us_ID b)
       (filter keep (List.map_filter (\<lambda>(uid, _). read_profile ver s uid) (ts_users s)))"

definition list_active :: "(user \<Rightarrow> string) \<Rightarrow> tenant_store \<Rightarrow> user list" where
  "list_active ver s = list_where ver (\<lambda>u. us_Status u = user_active) s"

definition list_users :: "(user \<Rightarrow> string) \<Rightarrow> tenant_store \<Rightarrow> user list" where
  "list_users ver s = list_where ver (\<lambda>_. True) s"

section \<open>Passkeys\<close>

definition cred_file_name :: "string \<Rightarrow> string" where
  "cred_file_name cid = b64_encode cid @ ''.json''"

definition credentials :: "tenant_store \<Rightarrow> string \<Rightarrow> string list" where
  "credentials s uid =
     map snd (sort_slice (\<lambda>a b. cred_file_name (fst a) < cred_file_name (fst b)) (ts_creds s uid))"

definition put_credential :: "string \<Rightarrow> string \<Rightarrow> string \<Rightarrow> tenant_store \<Rightarrow> tenant_store" where
  "put_credential uid cid c s =
     s\<lparr>ts_creds := (ts_creds s)(uid := AList.update cid c (ts_creds s uid)),
       ts_credindex := (ts_credindex s)(cid \<mapsto> uid)\<rparr>"

definition delete_credential :: "string \<Rightarrow> string \<Rightarrow> tenant_store \<Rightarrow> tenant_store" where
  "delete_credential uid cid s =
     s\<lparr>ts_credindex := (ts_credindex s)(cid := None),
       ts_creds := (ts_creds s)(uid := AList.delete cid (ts_creds s uid)),
       ts_credmeta := (ts_credmeta s)(uid := AList.delete cid (ts_credmeta s uid))\<rparr>"

definition put_credential_meta :: "string \<Rightarrow> string \<Rightarrow> string \<Rightarrow> go_time \<Rightarrow> tenant_store \<Rightarrow> tenant_store" where
  "put_credential_meta uid cid name created s =
     s\<lparr>ts_credmeta := (ts_credmeta s)(uid := AList.update cid (name, created) (ts_credmeta s uid))\<rparr>"

definition credential_metas :: "tenant_store \<Rightarrow> string \<Rightarrow> (string \<rightharpoonup> string \<times> go_time)" where
  "credential_metas s uid = map_of (ts_credmeta s uid)"

definition user_by_credential :: "tenant_store \<Rightarrow> string \<Rightarrow> string option" where
  "user_by_credential s cid = ts_credindex s cid"

section \<open>Push devices\<close>

definition push_devices :: "tenant_store \<Rightarrow> string \<Rightarrow> push_device list" where
  "push_devices s uid = sort_slice (\<lambda>a b. pd_ID a < pd_ID b) (map snd (ts_push s uid))"

text \<open>The pass over the user's own devices: the device as it will be stored, and its directory.\<close>

fun reconcile_devices ::
  "push_device list \<Rightarrow> push_device \<Rightarrow> (string \<times> push_device) list \<Rightarrow> push_device \<times> (string \<times> push_device) list" where
  "reconcile_devices [] d dir = (d, dir)"
| "reconcile_devices (e # es) d dir =
     (if pd_Token e \<noteq> pd_Token d then reconcile_devices es d dir
      else if pd_ID d = [] then
        reconcile_devices es (d\<lparr>pd_ID := pd_ID e, pd_CreatedAt := pd_CreatedAt e\<rparr>) dir
      else reconcile_devices es d (AList.delete (pd_ID e) dir))"

definition evict_other :: "string \<Rightarrow> string \<Rightarrow> tenant_store \<Rightarrow> tenant_store" where
  "evict_other uid tok s =
     (case ts_pushtokens s tok of
        None \<Rightarrow> s
      | Some (owner, dev) \<Rightarrow>
         if owner \<noteq> uid then s\<lparr>ts_push := (ts_push s)(owner := AList.delete dev (ts_push s owner))\<rparr> else s)"

text \<open>\<open>newID\<close> is the id \<open>NewPushDeviceID\<close> draws.\<close>

definition put_push_device :: "string \<Rightarrow> string \<Rightarrow> push_device \<Rightarrow> tenant_store \<Rightarrow> push_device \<times> tenant_store" where
  "put_push_device newID uid d s =
     (let s1 = evict_other uid (pd_Token d) s;
          (d1, dir) = reconcile_devices (push_devices s1 uid) d (ts_push s1 uid);
          d2 = (if pd_ID d1 = [] then d1\<lparr>pd_ID := newID\<rparr> else d1)
      in (d2, s1\<lparr>ts_push := (ts_push s1)(uid := AList.update (pd_ID d2) d2 dir),
                 ts_pushtokens := (ts_pushtokens s1)(pd_Token d2 \<mapsto> (uid, pd_ID d2))\<rparr>))"

definition delete_push_device :: "string \<Rightarrow> string \<Rightarrow> tenant_store \<Rightarrow> tenant_store" where
  "delete_push_device uid dev s =
     (case map_of (ts_push s uid) dev of
        None \<Rightarrow> s
      | Some d \<Rightarrow>
         (let s1 = s\<lparr>ts_push := (ts_push s)(uid := AList.delete dev (ts_push s uid))\<rparr>
          in if ts_pushtokens s1 (pd_Token d) = Some (uid, dev)
             then s1\<lparr>ts_pushtokens := (ts_pushtokens s1)(pd_Token d := None)\<rparr> else s1))"

section \<open>Deleting a user\<close>

definition release :: "string \<Rightarrow> string \<Rightarrow> (string \<rightharpoonup> string) \<Rightarrow> (string \<rightharpoonup> string)" where
  "release value uid claims =
     (if value = [] then claims
      else if claims (to_lower value) = Some uid then claims(to_lower value := None) else claims)"

definition drop_tokens :: "string \<Rightarrow> push_device list \<Rightarrow> (string \<rightharpoonup> string \<times> string) \<Rightarrow> (string \<rightharpoonup> string \<times> string)" where
  "drop_tokens uid ds idx =
     fold (\<lambda>d i. case i (pd_Token d) of
                   None \<Rightarrow> i
                 | Some (owner, _) \<Rightarrow> if owner = uid then i(pd_Token d := None) else i) ds idx"

definition delete_user :: "string \<Rightarrow> tenant_store \<Rightarrow> tenant_store" where
  "delete_user uid s =
     (let idx = fold (\<lambda>(cid, _) i. i(cid := None)) (ts_creds s uid) (ts_credindex s);
          toks = drop_tokens uid (push_devices s uid) (ts_pushtokens s);
          s1 = s\<lparr>ts_credindex := idx, ts_pushtokens := toks,
                 ts_users := AList.delete uid (ts_users s), ts_creds := (ts_creds s)(uid := []),
                 ts_credmeta := (ts_credmeta s)(uid := []), ts_push := (ts_push s)(uid := [])\<rparr>
      in (case map_of (ts_users s) uid of
            None \<Rightarrow> s1
          | Some u \<Rightarrow> s1\<lparr>ts_email := release (us_Email u) uid (ts_email s1),
                         ts_team := release (us_TeamID u) uid (ts_team s1)\<rparr>))"

section \<open>Enrollment links\<close>

definition create_enrollment :: "string \<Rightarrow> enrollment \<Rightarrow> tenant_store \<Rightarrow> (store_error + unit) \<times> tenant_store" where
  "create_enrollment h e s =
     (if ts_enroll s h \<noteq> None then (Inl User_conflict, s)
      else (Inr (), s\<lparr>ts_enroll := (ts_enroll s)(h \<mapsto> e)\<rparr>))"

definition get_enrollment :: "tenant_store \<Rightarrow> string \<Rightarrow> enrollment option" where
  "get_enrollment s h = ts_enroll s h"

definition redeem_enrollment :: "string \<Rightarrow> go_time \<Rightarrow> tenant_store \<Rightarrow> (store_error + enrollment) \<times> tenant_store" where
  "redeem_enrollment h now s =
     (case ts_enroll s h of
        None \<Rightarrow> (Inl Enrollment_invalid, s)
      | Some e \<Rightarrow>
         if redeemed e \<or> expired e now then (Inl Enrollment_invalid, s)
         else (let e' = e\<lparr>en_UsedAt := now\<rparr> in (Inr e', s\<lparr>ts_enroll := (ts_enroll s)(h \<mapsto> e')\<rparr>)))"

section \<open>Sequences of operations\<close>

text \<open>
  The directories reachable from the empty one. A profile is written back with the team and
  the email it was read with, which is what every caller of \<open>PutUser\<close> does; teams are assigned
  by \<open>user set-team\<close>, and claimed by the connect task, whose record names the team the tenant holds
  or a first one; a device is registered without an id, and ids that are drawn are new.
\<close>

definition empty_store :: tenant_store where
  "empty_store = \<lparr>ts_users = [], ts_email = Map.empty, ts_team = Map.empty, ts_creds = (\<lambda>_. []),
     ts_credindex = Map.empty, ts_credmeta = (\<lambda>_. []), ts_push = (\<lambda>_. []), ts_pushtokens = Map.empty,
     ts_enroll = Map.empty\<rparr>"

inductive store_step :: "(user \<Rightarrow> string) \<Rightarrow> tenant_store \<Rightarrow> tenant_store \<Rightarrow> bool" for ver where
  create: "store_step ver s (snd (create_user ver u s))"
| put: "read_profile ver s (us_ID u) = Some cur \<Longrightarrow> us_TeamID u = us_TeamID cur \<Longrightarrow> us_Email u = us_Email cur \<Longrightarrow>
    store_step ver s (snd (put_user ver u s))"
| assign: "store_step ver s (snd (set_team ver uid team s))"
| connect: "uid \<noteq> [] \<Longrightarrow> team \<noteq> [] \<Longrightarrow> read_profile ver s uid = Some cur \<Longrightarrow> us_TeamID cur \<in> {[], team} \<Longrightarrow>
    store_step ver s (snd (claim_team ver uid team s))"
| delete: "store_step ver s (delete_user uid s)"
| register: "pd_ID d = [] \<Longrightarrow> newID \<noteq> [] \<Longrightarrow> newID \<notin> fst ` set (ts_push s uid) \<Longrightarrow>
    store_step ver s (snd (put_push_device newID uid d s))"
| revoke: "store_step ver s (delete_push_device uid dev s)"
| passkey: "store_step ver s (put_credential uid cid c s)"
| forget: "store_step ver s (delete_credential uid cid s)"
| rename: "store_step ver s (put_credential_meta uid cid name created s)"
| mint: "store_step ver s (snd (create_enrollment h e s))"
| redeem: "store_step ver s (snd (redeem_enrollment h now s))"

inductive reachable :: "(user \<Rightarrow> string) \<Rightarrow> tenant_store \<Rightarrow> bool" for ver where
  start: "reachable ver empty_store"
| step: "reachable ver s \<Longrightarrow> store_step ver s s' \<Longrightarrow> reachable ver s'"

text \<open>The claim index and the profiles agree, for either kind of claim.\<close>

definition claims_agree :: "(user \<Rightarrow> string) \<Rightarrow> (string \<rightharpoonup> user) \<Rightarrow> (string \<rightharpoonup> string) \<Rightarrow> bool" where
  "claims_agree val us claims \<longleftrightarrow>
     (\<forall>uid u. us uid = Some u \<longrightarrow> val u \<noteq> [] \<longrightarrow> claims (to_lower (val u)) = Some uid) \<and>
     (\<forall>k uid. claims k = Some uid \<longrightarrow> (\<exists>u. us uid = Some u \<and> val u \<noteq> [] \<and> to_lower (val u) = k))"

definition directory_ok :: "tenant_store \<Rightarrow> bool" where
  "directory_ok s \<longleftrightarrow>
     claims_agree us_Email (map_of (ts_users s)) (ts_email s) \<and>
     claims_agree us_TeamID (map_of (ts_users s)) (ts_team s)"

lemma claims_agreeD:
  assumes "claims_agree val us claims"
  shows "us uid = Some u \<Longrightarrow> val u \<noteq> [] \<Longrightarrow> claims (to_lower (val u)) = Some uid"
    and "claims k = Some uid \<Longrightarrow> \<exists>u. us uid = Some u \<and> val u \<noteq> [] \<and> to_lower (val u) = k"
  using assms by (simp_all add: claims_agree_def)

lemma claims_agree_keep:
  assumes "claims_agree val us claims" "us uid = Some cur" "val u = val cur"
  shows "claims_agree val (us(uid \<mapsto> u)) claims"
  unfolding claims_agree_def
proof (intro conjI allI impI)
  fix x v assume "(us(uid \<mapsto> u)) x = Some v" "val v \<noteq> []"
  then show "claims (to_lower (val v)) = Some x"
    using assms by (auto simp: claims_agree_def split: if_splits)
next
  fix k x assume "claims k = Some x"
  then obtain v where "us x = Some v" "val v \<noteq> []" "to_lower (val v) = k"
    using claims_agreeD(2) [OF assms(1)] by blast
  then show "\<exists>v. (us(uid \<mapsto> u)) x = Some v \<and> val v \<noteq> [] \<and> to_lower (val v) = k"
    using assms(2,3) by (cases "x = uid") auto
qed

lemma claims_agree_new:
  assumes "claims_agree val us claims" "us uid = None \<or> (\<exists>cur. us uid = Some cur \<and> val cur = [])"
    "val u \<noteq> [] \<Longrightarrow> \<not> held_by_other claims (val u) uid"
  shows "claims_agree val (us(uid \<mapsto> u)) (if val u \<noteq> [] then claims(to_lower (val u) \<mapsto> uid) else claims)"
proof -
  have nouid: "claims k \<noteq> Some uid" for k using assms(1,2) by (force simp: claims_agree_def)
  have free: "val u \<noteq> [] \<Longrightarrow> claims (to_lower (val u)) = None"
    using assms(3) nouid by (auto simp: held_by_other_def split: option.splits)
  show ?thesis unfolding claims_agree_def
  proof (intro conjI allI impI)
    fix x v assume x: "(us(uid \<mapsto> u)) x = Some v" "val v \<noteq> []"
    show "(if val u \<noteq> [] then claims(to_lower (val u) \<mapsto> uid) else claims) (to_lower (val v)) = Some x"
    proof (cases "x = uid")
      case True
      then show ?thesis using x by auto
    next
      case False
      then have c: "claims (to_lower (val v)) = Some x" using x assms(1) by (simp add: claims_agree_def)
      then have "val u \<noteq> [] \<Longrightarrow> to_lower (val v) \<noteq> to_lower (val u)" using free by auto
      then show ?thesis using c by simp
    qed
  next
    fix k x assume k: "(if val u \<noteq> [] then claims(to_lower (val u) \<mapsto> uid) else claims) k = Some x"
    show "\<exists>v. (us(uid \<mapsto> u)) x = Some v \<and> val v \<noteq> [] \<and> to_lower (val v) = k"
    proof (cases "val u \<noteq> [] \<and> k = to_lower (val u)")
      case True
      then show ?thesis using k by auto
    next
      case False
      then have c: "claims k = Some x" using k by (auto split: if_splits)
      then have "x \<noteq> uid" using nouid by auto
      then show ?thesis using c assms(1) by (auto simp: claims_agree_def)
    qed
  qed
qed

lemma claims_agree_release:
  assumes "claims_agree val us claims" "us uid = Some u"
  shows "claims_agree val (us(uid := None)) (release (val u) uid claims)"
proof -
  have own: "claims k = Some uid \<longleftrightarrow> val u \<noteq> [] \<and> k = to_lower (val u)" for k
    using claims_agreeD [OF assms(1)] assms(2) by force
  show ?thesis unfolding claims_agree_def
  proof (intro conjI allI impI)
    fix x v assume x: "(us(uid := None)) x = Some v" "val v \<noteq> []"
    then have ne: "x \<noteq> uid" and "us x = Some v" by (auto split: if_splits)
    then have c: "claims (to_lower (val v)) = Some x" using claims_agreeD(1) [OF assms(1)] x(2) by blast
    then show "release (val u) uid claims (to_lower (val v)) = Some x" using ne by (auto simp: release_def)
  next
    fix k x assume k: "release (val u) uid claims k = Some x"
    then have c: "claims k = Some x" by (auto simp: release_def split: if_splits)
    have "x \<noteq> uid" using k own [of k] c by (auto simp: release_def)
    then show "\<exists>v. (us(uid := None)) x = Some v \<and> val v \<noteq> [] \<and> to_lower (val v) = k"
      using claims_agreeD(2) [OF assms(1) c] by auto
  qed
qed

lemma claims_agree_absent:
  "claims_agree val us claims \<Longrightarrow> us uid = None \<Longrightarrow> claims_agree val (us(uid := None)) claims"
  by (simp add: fun_upd_idem)

lemma map_of_users_write:
  "map_of (ts_users (write_profile uid u s)) = (map_of (ts_users s))(uid \<mapsto> u\<lparr>us_Version := []\<rparr>)"
  by (simp add: write_profile_def update_conv')

lemma val_version:
  "us_Email (u\<lparr>us_Version := v\<rparr>) = us_Email u" "us_TeamID (u\<lparr>us_Version := v\<rparr>) = us_TeamID u"
  by simp_all


lemma read_profile_None: "read_profile ver s uid = None \<longleftrightarrow> map_of (ts_users s) uid = None"
  by (simp add: read_profile_def split: option.splits)

lemma read_profile_Some:
  assumes "read_profile ver s uid = Some u"
  obtains v where "map_of (ts_users s) uid = Some v" "us_TeamID u = us_TeamID v" "us_Email u = us_Email v"
  using assms by (auto simp: read_profile_def split: option.splits)

lemma claim_fields [simp]:
  "ts_users (claim_email e uid s) = ts_users s" "ts_team (claim_email e uid s) = ts_team s"
  "ts_push (claim_email e uid s) = ts_push s" "ts_pushtokens (claim_email e uid s) = ts_pushtokens s"
  "ts_email (claim_email e uid s) = (if e \<noteq> [] then (ts_email s)(to_lower e \<mapsto> uid) else ts_email s)"
  "ts_users (claim_team_file t uid s) = ts_users s" "ts_email (claim_team_file t uid s) = ts_email s"
  "ts_push (claim_team_file t uid s) = ts_push s" "ts_pushtokens (claim_team_file t uid s) = ts_pushtokens s"
  "ts_team (claim_team_file t uid s) = (ts_team s)(to_lower t \<mapsto> uid)"
  "ts_email (write_profile uid u s) = ts_email s" "ts_team (write_profile uid u s) = ts_team s"
  "ts_push (write_profile uid u s) = ts_push s" "ts_pushtokens (write_profile uid u s) = ts_pushtokens s"
  by (simp_all add: claim_email_def claim_team_file_def write_profile_def)

lemma create_user_ok:
  assumes "directory_ok s"
  shows "directory_ok (snd (create_user ver u s))"
proof (cases "read_profile ver s (us_ID u) \<noteq> None \<or> (us_Email u \<noteq> [] \<and> held_by_other (ts_email s) (us_Email u) (us_ID u))
     \<or> (us_TeamID u \<noteq> [] \<and> held_by_other (ts_team s) (us_TeamID u) (us_ID u))")
  case True
  then have "snd (create_user ver u s) = s" by (auto simp: create_user_def)
  then show ?thesis using assms by simp
next
  case False
  let ?s = "snd (create_user ver u s)"
  have none: "map_of (ts_users s) (us_ID u) = None" using False by (simp add: read_profile_None)
  have f: "map_of (ts_users ?s) = (map_of (ts_users s))(us_ID u \<mapsto> u\<lparr>us_Version := []\<rparr>)"
    "ts_email ?s = (if us_Email u \<noteq> [] then (ts_email s)(to_lower (us_Email u) \<mapsto> us_ID u) else ts_email s)"
    "ts_team ?s = (if us_TeamID u \<noteq> [] then (ts_team s)(to_lower (us_TeamID u) \<mapsto> us_ID u) else ts_team s)"
    using False by (auto simp: create_user_def Let_def map_of_users_write)
  show ?thesis
    using assms False none unfolding directory_ok_def f
    using claims_agree_new [of us_Email "map_of (ts_users s)" "ts_email s" "us_ID u" "u\<lparr>us_Version := []\<rparr>"]
      claims_agree_new [of us_TeamID "map_of (ts_users s)" "ts_team s" "us_ID u" "u\<lparr>us_Version := []\<rparr>"]
    by auto
qed

lemma put_user_ok:
  assumes "directory_ok s" "read_profile ver s (us_ID u) = Some cur"
    "us_TeamID u = us_TeamID cur" "us_Email u = us_Email cur"
  shows "directory_ok (snd (put_user ver u s))"
proof -
  obtain v where v: "map_of (ts_users s) (us_ID u) = Some v" "us_TeamID u = us_TeamID v" "us_Email u = us_Email v"
    using read_profile_Some [OF assms(2)] assms(3,4) by metis
  show ?thesis
    using assms(1) v
      claims_agree_keep [of us_Email "map_of (ts_users s)" "ts_email s" "us_ID u" v "u\<lparr>us_Version := []\<rparr>"]
      claims_agree_keep [of us_TeamID "map_of (ts_users s)" "ts_team s" "us_ID u" v "u\<lparr>us_Version := []\<rparr>"]
    by (simp add: put_user_def assms(2) directory_ok_def map_of_users_write)
qed

lemma set_team_ok:
  assumes "directory_ok s"
  shows "directory_ok (snd (set_team ver uid team s))"
proof (cases "uid = [] \<or> team = [] \<or> read_profile ver s uid = None")
  case True
  then show ?thesis using assms by (auto simp: set_team_def)
next
  case False
  then obtain u where u: "read_profile ver s uid = Some u" by auto
  obtain v where v: "map_of (ts_users s) uid = Some v" "us_TeamID u = us_TeamID v" "us_Email u = us_Email v"
    using read_profile_Some [OF u] .
  show ?thesis
  proof (cases "(us_TeamID u \<noteq> [] \<and> us_TeamID u \<noteq> team) \<or> held_by_other (ts_team s) team uid")
    case True
    then show ?thesis using assms False u by (auto simp: set_team_def claim_team_def)
  next
    case ok: False
    let ?u = "u\<lparr>us_TeamID := team, us_Version := []\<rparr>"
    let ?s = "snd (set_team ver uid team s)"
    have guard: "\<not> (us_TeamID u \<noteq> [] \<and> us_TeamID u \<noteq> team)" "\<not> held_by_other (ts_team s) team uid"
      "uid \<noteq> []" "team \<noteq> []" using ok False by blast+
    have r: "?s = claim_team_file team uid (write_profile uid (u\<lparr>us_TeamID := team\<rparr>) s)"
      unfolding set_team_def claim_team_def u option.case if_not_P [OF guard(1)] if_not_P [OF guard(2)]
        if_not_P [OF guard(3)] if_not_P [OF guard(4)] by (simp split: unit.splits)
    have f: "map_of (ts_users ?s) = (map_of (ts_users s))(uid \<mapsto> ?u)"
      "ts_email ?s = ts_email s" "ts_team ?s = (ts_team s)(to_lower team \<mapsto> uid)"
      unfolding r by (simp_all add: map_of_users_write)
    have e: "claims_agree us_Email ((map_of (ts_users s))(uid \<mapsto> ?u)) (ts_email s)"
      using assms v claims_agree_keep [of us_Email _ _ uid v ?u] by (simp add: directory_ok_def)
    have t: "claims_agree us_TeamID ((map_of (ts_users s))(uid \<mapsto> ?u)) ((ts_team s)(to_lower team \<mapsto> uid))"
    proof (cases "us_TeamID u = []")
      case True
      then show ?thesis
        using assms v ok False claims_agree_new [of us_TeamID _ "ts_team s" uid ?u] by (simp add: directory_ok_def)
    next
      case same: False
      then have tv: "us_TeamID v = team" using ok v by simp
      then have "(ts_team s)(to_lower team \<mapsto> uid) = ts_team s"
        using assms v(1) False claims_agreeD(1) [of us_TeamID _ "ts_team s" uid v] by (auto simp: directory_ok_def)
      then show ?thesis
        using assms v tv claims_agree_keep [of us_TeamID _ "ts_team s" uid v ?u] by (simp add: directory_ok_def)
    qed
    show ?thesis unfolding directory_ok_def f using e t by blast
  qed
qed

lemma delete_user_ok:
  assumes "directory_ok s"
  shows "directory_ok (delete_user uid s)"
proof (cases "map_of (ts_users s) uid")
  case None
  then show ?thesis using assms claims_agree_absent [of us_Email "map_of (ts_users s)" "ts_email s" uid]
      claims_agree_absent [of us_TeamID "map_of (ts_users s)" "ts_team s" uid]
    by (simp add: delete_user_def directory_ok_def delete_conv' Let_def)
next
  case (Some u)
  then show ?thesis using assms claims_agree_release [of us_Email "map_of (ts_users s)" "ts_email s" uid u]
      claims_agree_release [of us_TeamID "map_of (ts_users s)" "ts_team s" uid u]
    by (simp add: delete_user_def directory_ok_def delete_conv' Let_def)
qed

lemma directory_same:
  assumes "ts_users s' = ts_users s" "ts_email s' = ts_email s" "ts_team s' = ts_team s"
  shows "directory_ok s' = directory_ok s"
  by (simp add: directory_ok_def assms)

lemma evict_fields [simp]:
  "ts_users (evict_other uid t s) = ts_users s" "ts_email (evict_other uid t s) = ts_email s"
  "ts_team (evict_other uid t s) = ts_team s" "ts_pushtokens (evict_other uid t s) = ts_pushtokens s"
  by (simp_all add: evict_other_def split: option.splits)

lemma other_fields:
  "ts_users (snd (put_push_device n uid d s)) = ts_users s" "ts_email (snd (put_push_device n uid d s)) = ts_email s"
  "ts_team (snd (put_push_device n uid d s)) = ts_team s"
  "ts_users (delete_push_device uid dev s) = ts_users s" "ts_email (delete_push_device uid dev s) = ts_email s"
  "ts_team (delete_push_device uid dev s) = ts_team s"
  "ts_users (snd (create_enrollment h e s)) = ts_users s" "ts_email (snd (create_enrollment h e s)) = ts_email s"
  "ts_team (snd (create_enrollment h e s)) = ts_team s"
  "ts_users (snd (redeem_enrollment h now s)) = ts_users s" "ts_email (snd (redeem_enrollment h now s)) = ts_email s"
  "ts_team (snd (redeem_enrollment h now s)) = ts_team s"
  by (simp_all add: put_push_device_def delete_push_device_def create_enrollment_def redeem_enrollment_def
      Let_def case_prod_beta' split: option.splits)

lemma cred_fields:
  "ts_users (put_credential uid cid c s) = ts_users s" "ts_email (put_credential uid cid c s) = ts_email s"
  "ts_team (put_credential uid cid c s) = ts_team s"
  "ts_users (delete_credential uid cid s) = ts_users s" "ts_email (delete_credential uid cid s) = ts_email s"
  "ts_team (delete_credential uid cid s) = ts_team s"
  "ts_users (put_credential_meta uid cid nm t s) = ts_users s"
  "ts_email (put_credential_meta uid cid nm t s) = ts_email s" "ts_team (put_credential_meta uid cid nm t s) = ts_team s"
  by (simp_all add: put_credential_def delete_credential_def put_credential_meta_def)

lemmas directory_frame =
  directory_same [OF other_fields(1-3)] directory_same [OF other_fields(4-6)]
  directory_same [OF other_fields(7-9)] directory_same [OF other_fields(10-12)]
  directory_same [OF cred_fields(1-3)] directory_same [OF cred_fields(4-6)] directory_same [OF cred_fields(7-9)]

text \<open>The connect task's claim does what assigning that team would do.\<close>

lemma claim_is_assign:
  assumes "uid \<noteq> []" "team \<noteq> []" "read_profile ver s uid = Some cur" "us_TeamID cur \<in> {[], team}"
  shows "snd (claim_team ver uid team s) = snd (set_team ver uid team s)"
  using assms by (auto simp: set_team_def split: prod.split sum.split)

lemma step_directory:
  assumes "store_step ver s s'" "directory_ok s"
  shows "directory_ok s'"
  using assms(1)
proof cases
  case (put u cur)
  then show ?thesis using put_user_ok assms by blast
next
  case (connect uid team cur)
  then show ?thesis using set_team_ok [OF assms(2)] claim_is_assign by metis
qed (simp_all only: assms(2) create_user_ok set_team_ok delete_user_ok directory_frame)

lemma reachable_directory: "reachable ver s \<Longrightarrow> directory_ok s"
proof (induction rule: reachable.induct)
  case start
  show ?case by (simp add: directory_ok_def claims_agree_def empty_store_def)
qed (rule step_directory)

section \<open>Push tokens\<close>

text \<open>Every stored device is filed under its id, and the token index names exactly that device.\<close>

definition devices_ok :: "tenant_store \<Rightarrow> bool" where
  "devices_ok s \<longleftrightarrow> (\<forall>uid. distinct (map fst (ts_push s uid)) \<and>
     (\<forall>dev d. (dev, d) \<in> set (ts_push s uid) \<longrightarrow>
        pd_ID d = dev \<and> dev \<noteq> [] \<and> ts_pushtokens s (pd_Token d) = Some (uid, dev)))"

lemma devices_okD:
  assumes "devices_ok s" "(dev, d) \<in> set (ts_push s uid)"
  shows "pd_ID d = dev" "dev \<noteq> []" "ts_pushtokens s (pd_Token d) = Some (uid, dev)"
  using assms by (auto simp: devices_ok_def)

lemma devices_ok_distinct: "devices_ok s \<Longrightarrow> distinct (map fst (ts_push s uid))"
  by (simp add: devices_ok_def)

lemma set_alist_delete: "set (AList.delete k al) = {p \<in> set al. fst p \<noteq> k}"
  by (auto simp: AList.delete_eq)

lemma set_alist_update:
  assumes "distinct (map fst al)"
  shows "set (AList.update k v al) = insert (k, v) {p \<in> set al. fst p \<noteq> k}"
  using assms by (induction al) (auto simp: rev_image_eqI)

lemma reconcile_none:
  assumes "\<forall>e\<in>set es. pd_Token e \<noteq> pd_Token d"
  shows "reconcile_devices es d dir = (d, dir)"
  using assms by (induction es) auto

lemma reconcile_one:
  assumes "pd_ID d = []" "distinct (map pd_Token es)" "e \<in> set es" "pd_Token e = pd_Token d" "pd_ID e \<noteq> []"
  shows "reconcile_devices es d dir = (d\<lparr>pd_ID := pd_ID e, pd_CreatedAt := pd_CreatedAt e\<rparr>, dir)"
  using assms
proof (induction es)
  case (Cons a es)
  show ?case
  proof (cases "a = e")
    case True
    then have "\<forall>b\<in>set es. pd_Token b \<noteq> pd_Token d"
      using Cons.prems(2,4) by (metis distinct.simps(2) image_eqI list.map(2) list.set_map)
    then show ?thesis using True Cons.prems by (simp add: reconcile_none)
  next
    case False
    then have "pd_Token a \<noteq> pd_Token d"
      using Cons.prems(2-4) by (metis distinct.simps(2) image_eqI list.map(2) list.set_map set_ConsD)
    then show ?thesis using False Cons by simp
  qed
qed simp

text \<open>Removing a device, or emptying a directory, keeps the rest in order.\<close>

lemma evict_ok:
  assumes "devices_ok s"
  shows "devices_ok (evict_other uid tok s)"
    and "\<And>u dev d. (dev, d) \<in> set (ts_push (evict_other uid tok s) u) \<Longrightarrow> pd_Token d = tok \<Longrightarrow> u = uid"
    and "ts_push (evict_other uid tok s) uid = ts_push s uid"
proof -
  show "devices_ok (evict_other uid tok s)"
    using assms by (auto simp: devices_ok_def evict_other_def set_alist_delete distinct_delete split: option.splits)
  show "u = uid" if "(dev, d) \<in> set (ts_push (evict_other uid tok s) u)" "pd_Token d = tok" for u dev d
  proof (rule ccontr)
    assume ne: "u \<noteq> uid"
    have "(dev, d) \<in> set (ts_push s u)"
      using that(1) by (auto simp: evict_other_def set_alist_delete split: option.splits if_splits)
    then have "ts_pushtokens s tok = Some (u, dev)" using devices_okD(3) [OF assms] that(2) by blast
    then show False using that(1) ne by (auto simp: evict_other_def set_alist_delete)
  qed
  show "ts_push (evict_other uid tok s) uid = ts_push s uid"
    by (auto simp: evict_other_def split: option.splits)
qed

lemma tokens_distinct:
  assumes "devices_ok s"
  shows "distinct (map pd_Token (push_devices s uid))"
proof -
  have inj: "inj_on pd_Token (snd ` set (ts_push s uid))"
  proof (rule inj_onI, clarsimp)
    fix dev d dev' d'
    assume a: "(dev, d) \<in> set (ts_push s uid)" "(dev', d') \<in> set (ts_push s uid)" "pd_Token d = pd_Token d'"
    have "dev = dev'" using devices_okD(3) [OF assms a(1)] devices_okD(3) [OF assms a(2)] a(3) by simp
    then show "d = d'" using a eq_key_imp_eq_value [OF devices_ok_distinct [OF assms]] by blast
  qed
  have "distinct (map snd (ts_push s uid))"
  proof -
    have "map fst (ts_push s uid) = map pd_ID (map snd (ts_push s uid))"
      using devices_okD(1) [OF assms] by auto
    then show ?thesis using devices_ok_distinct [OF assms, of uid] by (metis distinct_map)
  qed
  then have "distinct (map pd_Token (map snd (ts_push s uid)))"
    using inj by (simp only: distinct_map [of pd_Token] set_map)
  then show ?thesis unfolding push_devices_def distinct_map_sort_slice .
qed

definition store_device :: "string \<Rightarrow> push_device \<Rightarrow> tenant_store \<Rightarrow> tenant_store" where
  "store_device uid d s = s\<lparr>ts_push := (ts_push s)(uid := AList.update (pd_ID d) d (ts_push s uid)),
     ts_pushtokens := (ts_pushtokens s)(pd_Token d \<mapsto> (uid, pd_ID d))\<rparr>"

lemma put_push_ok:
  assumes ok: "devices_ok s" and d: "pd_ID d = []"
    and new: "newID \<noteq> []" "newID \<notin> fst ` set (ts_push s uid)"
  shows "devices_ok (snd (put_push_device newID uid d s))"
proof -
  define s1 where "s1 = evict_other uid (pd_Token d) s"
  have ok1: "devices_ok s1" and only: "\<And>u dev e. (dev, e) \<in> set (ts_push s1 u) \<Longrightarrow> pd_Token e = pd_Token d \<Longrightarrow> u = uid"
    and same: "ts_push s1 uid = ts_push s uid"
    using evict_ok [OF ok] unfolding s1_def by blast+
  have mem: "e \<in> set (push_devices s1 uid) \<longleftrightarrow> (\<exists>dev. (dev, e) \<in> set (ts_push s1 uid))" for e
    by (force simp: push_devices_def)
  obtain d2 where r: "put_push_device newID uid d s = (d2, store_device uid d2 s1)"
    and tok: "pd_Token d2 = pd_Token d" and ne: "pd_ID d2 \<noteq> []"
    and iff: "\<And>dev e. (dev, e) \<in> set (ts_push s1 uid) \<Longrightarrow> pd_Token e = pd_Token d \<longleftrightarrow> dev = pd_ID d2"
  proof (cases "\<exists>dev e. (dev, e) \<in> set (ts_push s1 uid) \<and> pd_Token e = pd_Token d")
    case True
    then obtain dev e where e: "(dev, e) \<in> set (ts_push s1 uid)" "pd_Token e = pd_Token d" by blast
    have id: "pd_ID e = dev" "dev \<noteq> []" using devices_okD [OF ok1 e(1)] by simp_all
    let ?d2 = "d\<lparr>pd_ID := pd_ID e, pd_CreatedAt := pd_CreatedAt e\<rparr>"
    have em: "e \<in> set (push_devices s1 uid)" using e(1) mem by blast
    have "reconcile_devices (push_devices s1 uid) d (ts_push s1 uid) = (?d2, ts_push s1 uid)"
      by (rule reconcile_one [OF d tokens_distinct [OF ok1] em e(2)]) (simp add: id)
    then have "put_push_device newID uid d s = (?d2, store_device uid ?d2 s1)"
      using id by (simp add: put_push_device_def s1_def [symmetric] Let_def store_device_def)
    then show ?thesis
    proof (rule that)
      fix dev' e' assume e': "(dev', e') \<in> set (ts_push s1 uid)"
      show "pd_Token e' = pd_Token d \<longleftrightarrow> dev' = pd_ID ?d2"
      proof
        assume "pd_Token e' = pd_Token d"
        then show "dev' = pd_ID ?d2" using devices_okD(3) [OF ok1 e'] devices_okD(3) [OF ok1 e(1)] e(2) id by simp
      next
        assume "dev' = pd_ID ?d2"
        then have "(dev, e') \<in> set (ts_push s1 uid)" using e' id by simp
        then have "e' = e" using e(1) eq_key_imp_eq_value [OF devices_ok_distinct [OF ok1]] by blast
        then show "pd_Token e' = pd_Token d" using e(2) by simp
      qed
    qed (simp_all add: id)
  next
    case False
    let ?d2 = "d\<lparr>pd_ID := newID\<rparr>"
    have "reconcile_devices (push_devices s1 uid) d (ts_push s1 uid) = (d, ts_push s1 uid)"
      by (rule reconcile_none) (use False mem in blast)
    then have "put_push_device newID uid d s = (?d2, store_device uid ?d2 s1)"
      using d by (simp add: put_push_device_def s1_def [symmetric] Let_def store_device_def)
    then show ?thesis
    proof (rule that)
      fix dev e assume e: "(dev, e) \<in> set (ts_push s1 uid)"
      then have "pd_Token e \<noteq> pd_Token d" using False by blast
      moreover have "dev \<noteq> newID" using e new(2) same by force
      ultimately show "pd_Token e = pd_Token d \<longleftrightarrow> dev = pd_ID ?d2" by simp
    qed (simp_all add: new(1))
  qed
  show ?thesis unfolding devices_ok_def
  proof (intro allI conjI impI)
    fix u
    show "distinct (map fst (ts_push (snd (put_push_device newID uid d s)) u))"
      using devices_ok_distinct [OF ok1] by (simp add: r store_device_def distinct_update)
    fix dev e assume m: "(dev, e) \<in> set (ts_push (snd (put_push_device newID uid d s)) u)"
    consider "u = uid" "dev = pd_ID d2" "e = d2" | "(dev, e) \<in> set (ts_push s1 u)" "u \<noteq> uid \<or> dev \<noteq> pd_ID d2"
      using m devices_ok_distinct [OF ok1, of uid] by (auto simp: r store_device_def set_alist_update split: if_splits)
    then have "pd_ID e = dev \<and> dev \<noteq> [] \<and> ts_pushtokens (snd (put_push_device newID uid d s)) (pd_Token e) = Some (u, dev)"
    proof cases
      case 1
      then show ?thesis using ne by (simp add: r store_device_def)
    next
      case 2
      then have "pd_Token e \<noteq> pd_Token d" using only iff by blast
      then show ?thesis using devices_okD [OF ok1 2(1)] by (simp add: r store_device_def tok)
    qed
    then show "pd_ID e = dev" "dev \<noteq> []"
      "ts_pushtokens (snd (put_push_device newID uid d s)) (pd_Token e) = Some (u, dev)" by blast+
  qed
qed


lemma delete_push_ok:
  assumes ok: "devices_ok s"
  shows "devices_ok (delete_push_device uid dev s)"
proof (cases "map_of (ts_push s uid) dev")
  case None
  then show ?thesis using ok by (simp add: delete_push_device_def)
next
  case (Some d)
  then have d: "(dev, d) \<in> set (ts_push s uid)" by (rule map_of_SomeD)
  have idx: "ts_pushtokens s (pd_Token d) = Some (uid, dev)" using devices_okD(3) [OF ok d] .
  have e: "delete_push_device uid dev s = s\<lparr>ts_push := (ts_push s)(uid := AList.delete dev (ts_push s uid)),
      ts_pushtokens := (ts_pushtokens s)(pd_Token d := None)\<rparr>"
    using Some idx by (simp add: delete_push_device_def Let_def)
  show ?thesis unfolding devices_ok_def
  proof (intro allI conjI impI)
    fix u
    show "distinct (map fst (ts_push (delete_push_device uid dev s) u))"
      using devices_ok_distinct [OF ok] by (simp add: e distinct_delete)
    fix dev' e' assume m: "(dev', e') \<in> set (ts_push (delete_push_device uid dev s) u)"
    then have o: "(dev', e') \<in> set (ts_push s u)" "u \<noteq> uid \<or> dev' \<noteq> dev"
      by (auto simp: e set_alist_delete split: if_splits)
    then have "pd_Token e' \<noteq> pd_Token d" using devices_okD(3) [OF ok o(1)] idx by auto
    then show "pd_ID e' = dev'" "dev' \<noteq> []"
      "ts_pushtokens (delete_push_device uid dev s) (pd_Token e') = Some (u, dev')"
      using devices_okD [OF ok o(1)] by (simp_all add: e)
  qed
qed

lemma drop_tokens_other:
  "idx k = Some (own, v) \<Longrightarrow> own \<noteq> uid \<Longrightarrow> drop_tokens uid ds idx k = Some (own, v)"
  unfolding drop_tokens_def
proof (induction ds arbitrary: idx)
  case (Cons a ds)
  have "(case idx (pd_Token a) of None \<Rightarrow> idx
      | Some (owner, x) \<Rightarrow> if owner = uid then idx(pd_Token a := None) else idx) k = Some (own, v)"
    using Cons.prems by (auto split: option.splits)
  then show ?case unfolding fold_simps comp_apply by (rule Cons.IH [OF _ Cons.prems(2)])
qed simp

lemma delete_user_push_ok:
  assumes ok: "devices_ok s"
  shows "devices_ok (delete_user uid s)"
proof -
  have f: "ts_push (delete_user uid s) = (ts_push s)(uid := [])"
    "ts_pushtokens (delete_user uid s) = drop_tokens uid (push_devices s uid) (ts_pushtokens s)"
    by (simp_all add: delete_user_def Let_def split: option.splits)
  show ?thesis using ok unfolding devices_ok_def f
    by (auto simp: drop_tokens_other)
qed

lemma devices_same:
  "ts_push s' = ts_push s \<Longrightarrow> ts_pushtokens s' = ts_pushtokens s \<Longrightarrow> devices_ok s' = devices_ok s"
  by (simp add: devices_ok_def)

lemma directory_ops_push:
  "ts_push (snd (create_user ver u s)) = ts_push s" "ts_pushtokens (snd (create_user ver u s)) = ts_pushtokens s"
  "ts_push (snd (put_user ver u s)) = ts_push s" "ts_pushtokens (snd (put_user ver u s)) = ts_pushtokens s"
  "ts_push (snd (claim_team ver uid t s)) = ts_push s" "ts_pushtokens (snd (claim_team ver uid t s)) = ts_pushtokens s"
  "ts_push (put_credential uid cid c s) = ts_push s" "ts_pushtokens (put_credential uid cid c s) = ts_pushtokens s"
  "ts_push (delete_credential uid cid s) = ts_push s" "ts_pushtokens (delete_credential uid cid s) = ts_pushtokens s"
  "ts_push (put_credential_meta uid cid nm tm s) = ts_push s"
  "ts_pushtokens (put_credential_meta uid cid nm tm s) = ts_pushtokens s"
  "ts_push (snd (create_enrollment h e s)) = ts_push s" "ts_pushtokens (snd (create_enrollment h e s)) = ts_pushtokens s"
  "ts_push (snd (redeem_enrollment h now s)) = ts_push s" "ts_pushtokens (snd (redeem_enrollment h now s)) = ts_pushtokens s"
  by (simp_all add: create_user_def put_user_def claim_team_def put_credential_def delete_credential_def
      put_credential_meta_def create_enrollment_def redeem_enrollment_def Let_def split: option.splits)

lemma set_team_push:
  "ts_push (snd (set_team ver uid t s)) = ts_push s" "ts_pushtokens (snd (set_team ver uid t s)) = ts_pushtokens s"
  using directory_ops_push(5,6) [of ver uid t s]
  by (auto simp: set_team_def split: option.splits prod.splits sum.splits)

lemmas devices_frame =
  devices_same [OF directory_ops_push(1,2)] devices_same [OF directory_ops_push(3,4)]
  devices_same [OF set_team_push] devices_same [OF directory_ops_push(7,8)]
  devices_same [OF directory_ops_push(9,10)] devices_same [OF directory_ops_push(11,12)]
  devices_same [OF directory_ops_push(13,14)] devices_same [OF directory_ops_push(15,16)]

lemma step_devices:
  assumes "store_step ver s s'" "devices_ok s"
  shows "devices_ok s'"
  using assms(1)
proof cases
  case (register d newID uid)
  then show ?thesis using put_push_ok [OF assms(2)] by blast
next
  case (connect uid team cur)
  then show ?thesis using assms(2) devices_same [OF set_team_push] claim_is_assign [OF connect(2-5)] by simp
qed (simp_all only: assms(2) devices_frame delete_user_push_ok delete_push_ok)

lemma reachable_devices: "reachable ver s \<Longrightarrow> devices_ok s"
proof (induction rule: reachable.induct)
  case start
  show ?case by (simp add: devices_ok_def empty_store_def)
qed (rule step_devices)

section \<open>Enrollment links are single use\<close>

text \<open>A history of mints and redemptions of one link; the result lists the times it was redeemed.\<close>

datatype link_event = Mint enrollment | Redeem go_time

fun link_uses :: "string \<Rightarrow> link_event list \<Rightarrow> tenant_store \<Rightarrow> go_time list" where
  "link_uses h [] s = []"
| "link_uses h (Mint e # es) s = link_uses h es (snd (create_enrollment h e s))"
| "link_uses h (Redeem now # es) s =
     (case redeem_enrollment h now s of
        (Inl _, s') \<Rightarrow> link_uses h es s'
      | (Inr _, s') \<Rightarrow> now # link_uses h es s')"

lemma used_stays:
  assumes "ts_enroll s h = Some e" "redeemed e"
  shows "link_uses h es s = []"
  using assms
proof (induction es arbitrary: s)
  case (Cons a es)
  then show ?case by (cases a) (auto simp: create_enrollment_def redeem_enrollment_def)
qed simp

lemma link_uses_aux:
  assumes "\<forall>now. Redeem now \<in> set es \<longrightarrow> now \<noteq> 0"
  shows "length (link_uses h es s) \<le> 1"
  using assms
proof (induction es arbitrary: s)
  case (Cons a es)
  show ?case
  proof (cases a)
    case (Mint e)
    then show ?thesis using Cons by simp
  next
    case (Redeem now)
    show ?thesis
    proof (cases "ts_enroll s h")
      case None
      then show ?thesis using Cons Redeem by (simp add: redeem_enrollment_def)
    next
      case (Some e)
      show ?thesis
      proof (cases "redeemed e \<or> expired e now")
        case True
        then show ?thesis using Cons Redeem Some by (simp add: redeem_enrollment_def)
      next
        case False
        have nz: "now \<noteq> 0" using Cons.prems Redeem by simp
        have "link_uses h es (s\<lparr>ts_enroll := (ts_enroll s)(h \<mapsto> e\<lparr>en_UsedAt := now\<rparr>)\<rparr>) = []"
          by (rule used_stays [where e = "e\<lparr>en_UsedAt := now\<rparr>"]) (simp_all add: redeemed_def is_zero_time_def nz)
        then show ?thesis using Redeem Some False by (simp add: redeem_enrollment_def Let_def)
      qed
    qed
  qed
qed simp


section \<open>Properties\<close>

text \<open>C19. One manager per team, and no orphaned claim. In every reachable directory the claim index
  and the profiles agree in both directions: a team (or an email, up to case) belongs to at
  most one user, and a claim is always that of an existing user who names that team, so that
  deleting a user frees what they held.\<close>

theorem claims_exact:
  assumes "reachable ver s"
  shows "(ts_team s k = Some uid \<longleftrightarrow>
      (\<exists>u. map_of (ts_users s) uid = Some u \<and> us_TeamID u \<noteq> [] \<and> to_lower (us_TeamID u) = k)) \<and>
    (ts_email s k = Some uid \<longleftrightarrow>
      (\<exists>u. map_of (ts_users s) uid = Some u \<and> us_Email u \<noteq> [] \<and> to_lower (us_Email u) = k))"
  using reachable_directory [OF assms] claims_agreeD unfolding directory_ok_def by blast

text \<open>A push token has one holder. In every reachable directory a device token is stored in at
  most one record of at most one user, and the index names that record: registering a device
  that another user had takes it away from them.\<close>

theorem push_token_one_holder:
  assumes "reachable ver s" "(dev, d) \<in> set (ts_push s uid)" "(dev', d') \<in> set (ts_push s uid')"
    and "pd_Token d = pd_Token d'"
  shows "uid = uid' \<and> dev = dev' \<and> d = d'"
proof -
  note ok = reachable_devices [OF assms(1)]
  have "uid = uid'" "dev = dev'"
    using devices_okD(3) [OF ok assms(2)] devices_okD(3) [OF ok assms(3)] assms(4) by simp_all
  then show ?thesis using assms(2,3) eq_key_imp_eq_value [OF devices_ok_distinct [OF ok]] by blast
qed

text \<open>An enrollment link is used at most once, whatever is minted and redeemed in whatever order,
  on any store: a spent link cannot be minted back to unused.\<close>

theorem enrollment_single_use:
  assumes "\<forall>now. Redeem now \<in> set es \<longrightarrow> now \<noteq> 0"
  shows "length (link_uses h es s) \<le> 1"
  using link_uses_aux [OF assms] .

definition demo_user :: "string \<Rightarrow> string \<Rightarrow> user" where
  "demo_user uid team = \<lparr>us_ID = uid, us_DisplayName = [], us_Email = [], us_Role = role_member,
     us_Status = user_active, us_AutoApply = False, us_HitterProjection = [], us_PitcherProjection = [],
     us_TeamID = team, us_Memberships = [], us_TokenVersion = 0, us_EmailAttestedBy = [],
     us_EmailAttestedAt = 0, us_CreatedAt = 0, us_Version = []\<rparr>"

text \<open>\<open>ClaimTeam\<close> moves a team and leaks the old one. The comment on \<open>DeleteUser\<close> says that
  \<open>ClaimTeam\<close> refuses moves; the code does not: a user moved from team 7 to team 8 and then
  deleted leaves team 7 claimed by nobody who exists, so that it can never be assigned again.\<close>

theorem claim_team_leaks:
  "let ver = (\<lambda>u. us_TeamID u);
       s1 = snd (create_user ver (demo_user ''a'' ''7'') empty_store);
       (r, s2) = claim_team ver ''a'' ''8'' s1;
       s3 = delete_user ''a'' s2
   in r = Inr () \<and> ts_users s3 = [] \<and> fst (create_user ver (demo_user ''b'' ''7'') s3) = Inl Team_taken"
  by (simp add: demo_user_def empty_store_def create_user_def claim_team_def delete_user_def read_profile_def
      write_profile_def claim_email_def claim_team_file_def held_by_other_def release_def drop_tokens_def
      push_devices_def sort_slice_def to_lower_def ascii_lower_def Let_def)

definition demo_device :: push_device where
  "demo_device = \<lparr>pd_ID = [], pd_Token = ''t'', pd_Environment = ''sandbox'', pd_BundleID = ''b'', pd_Model = [],
     pd_CreatedAt = [], pd_LastSeenAt = []\<rparr>"

definition demo_store :: tenant_store where
  "demo_store = snd (put_push_device ''d2'' ''b'' demo_device (snd (put_push_device ''d1'' ''a'' demo_device
     (snd (create_user (\<lambda>_. ''v'') (demo_user ''a'' ''7'') empty_store)))))"

lemma demo_reachable: "reachable (\<lambda>_. ''v'') demo_store"
  unfolding demo_store_def
  by (intro reachable.step [OF _ store_step.register] reachable.step [OF _ store_step.create] reachable.start)
     (simp_all add: demo_device_def empty_store_def create_user_def read_profile_def demo_user_def
      held_by_other_def write_profile_def claim_email_def claim_team_file_def put_push_device_def evict_other_def
      push_devices_def sort_slice_def Let_def)

lemma demo_parts:
  "ts_push demo_store ''b'' = [(''d2'', demo_device\<lparr>pd_ID := ''d2''\<rparr>)]" "ts_push demo_store ''a'' = []"
  "ts_team demo_store ''7'' = Some ''a''"
  by (simp_all add: demo_store_def demo_device_def empty_store_def create_user_def read_profile_def demo_user_def
      held_by_other_def write_profile_def claim_email_def claim_team_file_def put_push_device_def evict_other_def
      push_devices_def sort_slice_def to_lower_def ascii_lower_def Let_def)

theorem claims_exact_witness:
  "\<exists>u. map_of (ts_users demo_store) ''a'' = Some u \<and> us_TeamID u \<noteq> [] \<and> to_lower (us_TeamID u) = ''7''"
  using claims_exact [OF demo_reachable, of "''7''" "''a''"] demo_parts(3) by simp

theorem push_token_one_holder_witness:
  "ts_push demo_store ''b'' = [(''d2'', demo_device\<lparr>pd_ID := ''d2''\<rparr>)] \<and>
   \<not> (\<exists>dev d. (dev, d) \<in> set (ts_push demo_store ''a'') \<and> pd_Token d = ''t'')"
proof -
  have "(''a'' :: string) = ''b''" if "(dev, d) \<in> set (ts_push demo_store ''a'')" "pd_Token d = ''t''" for dev d
    using push_token_one_holder [OF demo_reachable that(1), of "''d2''" "demo_device\<lparr>pd_ID := ''d2''\<rparr>" "''b''"]
      that(2) demo_parts(1) by (simp add: demo_device_def)
  then show ?thesis using demo_parts(1) by auto
qed

definition demo_link :: enrollment where
  "demo_link = \<lparr>en_UserID = ''a'', en_TeamID = ''7'', en_Email = [], en_ExpiresAt = 10, en_UsedAt = 0\<rparr>"

theorem enrollment_single_use_witness:
  "length (link_uses ''h'' [Mint demo_link, Redeem 5, Mint demo_link, Redeem 6, Redeem 20] empty_store) \<le> 1 \<and>
   link_uses ''h'' [Mint demo_link, Redeem 5, Mint demo_link, Redeem 6, Redeem 20] empty_store = [5]"
proof
  show "length (link_uses ''h'' [Mint demo_link, Redeem 5, Mint demo_link, Redeem 6, Redeem 20] empty_store) \<le> 1"
    by (rule enrollment_single_use) simp
  show "link_uses ''h'' [Mint demo_link, Redeem 5, Mint demo_link, Redeem 6, Redeem 20] empty_store = [5]"
    by (simp add: empty_store_def create_enrollment_def redeem_enrollment_def demo_link_def redeemed_def
        expired_def is_zero_time_def Let_def)
qed

end
