(* ===== verification/Session_Auth.thy ===== *)
theory Session_Auth
  imports Tenant_Store
begin

text \<open>
  Who a request is from and what it may reach: \<open>internal/lineupapi\<close> \<open>session.go\<close>, \<open>authz.go\<close> and
  the gate of \<open>handler.go\<close>. The HMAC is the function \<open>mac secret payload\<close>, the JSON codec of the
  payload is the pair \<open>enc\<close>, \<open>dec\<close> (its only assumption, where one is made, is that decoding
  inverts encoding). The user store may be absent, fail, or answer. The lemmas: a cookie admits
  exactly the active user it was minted for, until it expires or is revoked; the token never
  depends on the store; a member never reaches an admin route or launches a league-wide job.
\<close>

record session_payload =
  sn_Sub :: string
  sn_Ver :: int
  sn_ExpiresAt :: int

definition session_ttl :: go_duration where
  "session_ttl = 30 * 24 * hour"

text \<open>\<open>Time.Unix\<close>: whole seconds since 1970; the model's instants count from year 1.\<close>

definition unix :: "go_time \<Rightarrow> int" where
  "unix t = t div second - 62135596800"

definition sign_payload :: "(string \<Rightarrow> string \<Rightarrow> string) \<Rightarrow> string \<Rightarrow> string \<Rightarrow> string" where
  "sign_payload mac secret payload = b64_encode payload @ ''.'' @ b64_encode (mac secret payload)"

definition sign_session ::
  "(session_payload \<Rightarrow> string) \<Rightarrow> (string \<Rightarrow> string \<Rightarrow> string) \<Rightarrow> string \<Rightarrow> string \<Rightarrow> int \<Rightarrow> go_time \<Rightarrow> string" where
  "sign_session enc mac secret sub ver now =
     sign_payload mac secret (enc \<lparr>sn_Sub = sub, sn_Ver = ver, sn_ExpiresAt = unix (now + session_ttl)\<rparr>)"

definition verify_payload :: "(string \<Rightarrow> string \<Rightarrow> string) \<Rightarrow> string \<Rightarrow> string \<Rightarrow> string option" where
  "verify_payload mac secret value =
     (if secret = [] then None
      else (let before = takeWhile (\<lambda>c. c \<noteq> CHR ''.'') value;
                from_dot = dropWhile (\<lambda>c. c \<noteq> CHR ''.'') value
            in if from_dot = [] then None
               else (case b64_decode before of
                       None \<Rightarrow> None
                     | Some payload \<Rightarrow>
                        (case b64_decode (tl from_dot) of
                           None \<Rightarrow> None
                         | Some sig \<Rightarrow> if sig \<noteq> mac secret payload then None else Some payload))))"

definition parse_session ::
  "(string \<Rightarrow> session_payload option) \<Rightarrow> (string \<Rightarrow> string \<Rightarrow> string) \<Rightarrow> string \<Rightarrow> string \<Rightarrow> go_time \<Rightarrow>
   session_payload option" where
  "parse_session dec mac secret value now =
     (case verify_payload mac secret value of
        None \<Rightarrow> None
      | Some payload \<Rightarrow>
         (case dec payload of
            None \<Rightarrow> None
          | Some p \<Rightarrow> if sn_Sub p = [] then None
                      else if unix now > sn_ExpiresAt p then None
                      else Some p))"

record request =
  rq_Path :: string
  rq_Authorization :: string
  rq_Cookie :: "string option"

definition session_from_request ::
  "(string \<Rightarrow> session_payload option) \<Rightarrow> (string \<Rightarrow> string \<Rightarrow> string) \<Rightarrow> string \<Rightarrow> request \<Rightarrow> go_time \<Rightarrow>
   session_payload option" where
  "session_from_request dec mac secret r now =
     (if secret = [] then None
      else (case rq_Cookie r of None \<Rightarrow> None | Some v \<Rightarrow> parse_session dec mac secret v now))"

section \<open>Callers\<close>

record caller =
  cl_UserID :: string
  cl_Role :: string
  cl_ViaToken :: bool

definition is_admin :: "caller \<Rightarrow> bool" where
  "is_admin c \<longleftrightarrow> cl_Role c = role_admin"

text \<open>The user store answers an error, no user, or the user; it may be \<open>nil\<close>.\<close>

type_synonym user_lookup = "string \<Rightarrow> string + user option"

record api_config =
  cf_Token :: string
  cf_SessionSecret :: string
  cf_Users :: "user_lookup option"

definition authorized :: "request \<Rightarrow> string \<Rightarrow> bool" where
  "authorized r tok =
     (if tok = [] then False
      else if \<not> has_prefix (rq_Authorization r) ''Bearer '' then False
      else drop (length ''Bearer '') (rq_Authorization r) = tok)"

definition resolve_caller ::
  "(string \<Rightarrow> session_payload option) \<Rightarrow> (string \<Rightarrow> string \<Rightarrow> string) \<Rightarrow> api_config \<Rightarrow> request \<Rightarrow> go_time \<Rightarrow>
   caller option" where
  "resolve_caller dec mac cfg r now =
     (if authorized r (cf_Token cfg) then Some \<lparr>cl_UserID = [], cl_Role = role_admin, cl_ViaToken = True\<rparr>
      else (case session_from_request dec mac (cf_SessionSecret cfg) r now of
              None \<Rightarrow> None
            | Some p \<Rightarrow>
               (case cf_Users cfg of
                  None \<Rightarrow> None
                | Some get \<Rightarrow>
                   (case get (sn_Sub p) of
                      Inl _ \<Rightarrow> None
                    | Inr None \<Rightarrow> None
                    | Inr (Some u) \<Rightarrow>
                       if sn_Ver p \<noteq> us_TokenVersion u then None
                       else if us_Status u \<noteq> user_active then None
                       else Some \<lparr>cl_UserID = us_ID u, cl_Role = us_Role u, cl_ViaToken = False\<rparr>))))"

definition admin_only_routes :: "string list" where
  "admin_only_routes = [''/v1/infra'', ''/v1/tenants'']"

definition league_wide_jobs :: "string list" where
  "league_wide_jobs = [''archive'', ''recap-site'', ''recap'', ''version-check'', ''team-values'', ''gs-check'',
     ''claims'', ''transactions'', ''waivers'', ''projection-site'', ''football-values'', ''football-trades'',
     ''football-offers'', ''football-pickups'']"

definition is_admin_only_path :: "string \<Rightarrow> bool" where
  "is_admin_only_path path \<longleftrightarrow> list_ex (\<lambda>p. path = p \<or> has_prefix path (p @ ''/'')) admin_only_routes"

datatype gate_result = Unauthorized | Forbidden | Passed caller

definition authorize ::
  "(string \<Rightarrow> session_payload option) \<Rightarrow> (string \<Rightarrow> string \<Rightarrow> string) \<Rightarrow> api_config \<Rightarrow> request \<Rightarrow> go_time \<Rightarrow>
   gate_result" where
  "authorize dec mac cfg r now =
     (case resolve_caller dec mac cfg r now of
        None \<Rightarrow> Unauthorized
      | Some c \<Rightarrow> if is_admin_only_path (rq_Path r) \<and> \<not> is_admin c then Forbidden else Passed c)"

text \<open>A handler reached without the gate sees the zero caller.\<close>

definition zero_caller :: caller where
  "zero_caller = \<lparr>cl_UserID = [], cl_Role = [], cl_ViaToken = False\<rparr>"

definition serve_gate ::
  "(string \<Rightarrow> session_payload option) \<Rightarrow> (string \<Rightarrow> string \<Rightarrow> string) \<Rightarrow> api_config \<Rightarrow> request \<Rightarrow> go_time \<Rightarrow>
   gate_result" where
  "serve_gate dec mac cfg r now =
     (if has_prefix (rq_Path r) ''/v1/auth/'' then Passed zero_caller else authorize dec mac cfg r now)"

definition may_launch :: "string \<Rightarrow> caller \<Rightarrow> bool" where
  "may_launch job c \<longleftrightarrow> \<not> (job \<in> set league_wide_jobs \<and> \<not> is_admin c)"

section \<open>Lemmas\<close>

lemma takeWhile_dot: "CHR ''.'' \<notin> set a \<Longrightarrow> takeWhile (\<lambda>c. c \<noteq> CHR ''.'') (a @ CHR ''.'' # b) = a"
  by (induction a) auto

lemma dropWhile_dot: "CHR ''.'' \<notin> set a \<Longrightarrow> dropWhile (\<lambda>c. c \<noteq> CHR ''.'') (a @ CHR ''.'' # b) = CHR ''.'' # b"
  by (induction a) auto

lemma verify_signed: "secret \<noteq> [] \<Longrightarrow> verify_payload mac secret (sign_payload mac secret payload) = Some payload"
  using b64_encode_no_dot
  by (simp add: verify_payload_def sign_payload_def takeWhile_dot dropWhile_dot b64_roundtrip Let_def)

lemma parse_signed:
  assumes "dec (enc \<lparr>sn_Sub = sub, sn_Ver = ver, sn_ExpiresAt = unix (minted + session_ttl)\<rparr>) =
      Some \<lparr>sn_Sub = sub, sn_Ver = ver, sn_ExpiresAt = unix (minted + session_ttl)\<rparr>"
    and "secret \<noteq> []" "sub \<noteq> []"
  shows "parse_session dec mac secret (sign_session enc mac secret sub ver minted) now =
    (if unix now \<le> unix (minted + session_ttl)
     then Some \<lparr>sn_Sub = sub, sn_Ver = ver, sn_ExpiresAt = unix (minted + session_ttl)\<rparr> else None)"
  by (simp add: parse_session_def sign_session_def verify_signed assms)

lemma admin_routes_prefix:
  "is_admin_only_path path \<longleftrightarrow>
     path = ''/v1/infra'' \<or> path = ''/v1/tenants'' \<or>
     has_prefix path ''/v1/infra/'' \<or> has_prefix path ''/v1/tenants/''"
  by (auto simp: is_admin_only_path_def admin_only_routes_def)

text \<open>An admin caller is the token's or an active user whose record says admin.\<close>

lemma resolve_admin:
  assumes "resolve_caller dec mac cfg r now = Some c" "is_admin c"
  shows "authorized r (cf_Token cfg) \<or>
    (\<exists>get u sub. cf_Users cfg = Some get \<and> get sub = Inr (Some u) \<and> us_Role u = role_admin \<and>
       us_Status u = user_active)"
  using assms
  by (auto simp: resolve_caller_def is_admin_def split: if_splits option.splits sum.splits)

section \<open>Properties\<close>

text \<open>C14. A session admits exactly its user. A cookie minted for a user at a token version
  resolves, for a request without the bearer token, to that user's caller exactly when the
  cookie has not expired, the store is there and answers, and the stored user is active and
  still at that token version: incrementing the version logs the user out everywhere, parking
  the user does too, and nothing stands in for a store that fails.\<close>

theorem session_admits_exactly:
  assumes "dec (enc \<lparr>sn_Sub = sub, sn_Ver = ver, sn_ExpiresAt = unix (minted + session_ttl)\<rparr>) =
      Some \<lparr>sn_Sub = sub, sn_Ver = ver, sn_ExpiresAt = unix (minted + session_ttl)\<rparr>"
    and "cf_SessionSecret cfg \<noteq> []" "sub \<noteq> []"
    and "\<not> authorized r (cf_Token cfg)"
    and "rq_Cookie r = Some (sign_session enc mac (cf_SessionSecret cfg) sub ver minted)"
  shows "resolve_caller dec mac cfg r now = Some c \<longleftrightarrow>
    unix now \<le> unix (minted + session_ttl) \<and>
    (\<exists>get u. cf_Users cfg = Some get \<and> get sub = Inr (Some u) \<and> us_TokenVersion u = ver \<and>
       us_Status u = user_active \<and> c = \<lparr>cl_UserID = us_ID u, cl_Role = us_Role u, cl_ViaToken = False\<rparr>)"
  using assms(4)
  by (auto simp: resolve_caller_def session_from_request_def assms(2,5) parse_signed [of dec enc sub ver minted, OF assms(1-3)]
      split: option.splits sum.splits)

text \<open>The witness: an active user at version 3, a cookie minted at the epoch, read a day later.\<close>

theorem session_admits_exactly_witness:
  "let mac = (\<lambda>k m. rev m @ k);
       p = \<lparr>sn_Sub = ''u1'', sn_Ver = 3, sn_ExpiresAt = unix (62135596800 * second + session_ttl)\<rparr>;
       cookie = sign_session (\<lambda>_. ''json'') mac ''k'' ''u1'' 3 (62135596800 * second);
       alice = \<lparr>us_ID = ''u1'', us_DisplayName = [], us_Email = ''a@x'', us_Role = ''member'',
                us_Status = user_active, us_AutoApply = True, us_HitterProjection = [],
                us_PitcherProjection = [], us_TeamID = [], us_Memberships = [], us_TokenVersion = 3,
                us_EmailAttestedBy = [], us_EmailAttestedAt = 0, us_CreatedAt = 0, us_Version = []\<rparr>
   in resolve_caller (\<lambda>_. Some p) mac
        \<lparr>cf_Token = ''t'', cf_SessionSecret = ''k'', cf_Users = Some (\<lambda>_. Inr (Some alice))\<rparr>
        \<lparr>rq_Path = ''/v1/me'', rq_Authorization = [], rq_Cookie = Some cookie\<rparr>
        ((62135596800 + 86400) * second) =
      Some \<lparr>cl_UserID = ''u1'', cl_Role = ''member'', cl_ViaToken = False\<rparr>"
  unfolding Let_def
  by (subst session_admits_exactly [where minted = "62135596800 * second" and ver = 3 and sub = "''u1''"])
     (auto simp: authorized_def has_prefix_iff unix_def session_ttl_def hour_def minute_def second_def)

text \<open>The bearer token passes the gate whatever the store, the session secret and the time are.\<close>

lemma token_ignores_store:
  "authorized r (cf_Token cfg) \<Longrightarrow>
     authorize dec mac (cfg\<lparr>cf_Users := users, cf_SessionSecret := secret\<rparr>) r now =
       Passed \<lparr>cl_UserID = [], cl_Role = role_admin, cl_ViaToken = True\<rparr>"
  by (simp add: authorize_def resolve_caller_def is_admin_def)

text \<open>Only an admin reaches an admin route or launches a league-wide job. A request that
  passes the gate on an admin-only path, or whose caller may launch a league-wide job, carries
  the bearer token or resolves to a stored, active user whose role is admin: the paths served
  without the gate give the zero caller, whose empty role is not admin.\<close>

theorem gate_closed:
  assumes g: "serve_gate dec mac cfg r now = Passed c"
    and a: "is_admin_only_path (rq_Path r) \<or> job \<in> set league_wide_jobs \<and> may_launch job c"
  shows "authorized r (cf_Token cfg) \<or>
      (\<exists>get u sub. cf_Users cfg = Some get \<and> get sub = Inr (Some u) \<and> us_Role u = role_admin \<and>
         us_Status u = user_active)"
proof -
  have na: "\<not> (is_admin_only_path (rq_Path r) \<and> has_prefix (rq_Path r) ''/v1/auth/'')"
    by (auto simp: admin_routes_prefix has_prefix_iff)
  have "\<not> is_admin zero_caller" by (simp add: is_admin_def zero_caller_def)
  then have "\<not> has_prefix (rq_Path r) ''/v1/auth/''"
    using g a na by (auto simp: serve_gate_def may_launch_def split: if_splits)
  then have "resolve_caller dec mac cfg r now = Some c" "is_admin c"
    using g a by (auto simp: serve_gate_def authorize_def may_launch_def split: option.splits if_splits)
  then show ?thesis by (rule resolve_admin)
qed

theorem gate_closed_witness:
  "let r = \<lparr>rq_Path = ''/v1/infra'', rq_Authorization = ''Bearer t'', rq_Cookie = None\<rparr>;
       cfg = \<lparr>cf_Token = ''t'', cf_SessionSecret = [], cf_Users = None\<rparr>;
       get = (\<lambda>_. None) :: string \<Rightarrow> session_payload option
   in serve_gate get (\<lambda>_ _. []) cfg r 0 =
        Passed \<lparr>cl_UserID = [], cl_Role = role_admin, cl_ViaToken = True\<rparr> \<and>
      (authorized r ''t'' \<or> (\<exists>(get :: user_lookup) u sub. cf_Users cfg = Some get \<and>
         get sub = Inr (Some u) \<and> us_Role u = role_admin \<and> us_Status u = user_active))"
proof -
  let ?r = "\<lparr>rq_Path = ''/v1/infra'', rq_Authorization = ''Bearer t'', rq_Cookie = None\<rparr>"
  let ?cfg = "\<lparr>cf_Token = ''t'', cf_SessionSecret = [], cf_Users = None\<rparr>"
  have s: "serve_gate (\<lambda>_. None) (\<lambda>_ _. []) ?cfg ?r 0 =
      Passed \<lparr>cl_UserID = [], cl_Role = role_admin, cl_ViaToken = True\<rparr>"
    by (simp add: serve_gate_def authorize_def resolve_caller_def authorized_def has_prefix_iff is_admin_def)
  have "is_admin_only_path (rq_Path ?r) \<or> [] \<in> set league_wide_jobs \<and>
      may_launch [] \<lparr>cl_UserID = [], cl_Role = role_admin, cl_ViaToken = True\<rparr>"
    by (simp add: admin_routes_prefix)
  from gate_closed [OF s this] s show ?thesis unfolding Let_def by simp
qed

end
