(* ===== verification/Connections.thy ===== *)
theory Connections
  imports Prelude
begin

text \<open>
  The Fantrax connection record and its versioned store: \<open>internal/lineupapi/credentials.go\<close>
  (statuses, failure classes, record and the \<open>ConnectionStore\<close> contract), \<open>rungrant.go\<close> and the
  connection half of \<open>ddbuser/ddbuser.go\<close>. The table is the part of the DynamoDB table under the
  sort key \<open>FANTRAX\<close>, one item per user; a conditional \<open>PutItem\<close> is atomic, which is its
  documented behaviour. The contract is the locale \<open>connection_store\<close>; inside it: a write made
  at a version that has moved is refused, so an accepted write replaces exactly the record that
  was read. The locale is interpreted on the DynamoDB store.
\<close>

section \<open>The record\<close>

text \<open>\<open>Conn_unset\<close> is the zero value of the string type.\<close>

datatype conn_status = Conn_unset | Conn_pending | Conn_verified | Conn_needs_reconnect |
  Conn_interrupted | Conn_check_failed

datatype conn_err = Bad_credentials | Login_challenge_or_timeout | Two_factor | Bot_challenge |
  Team_not_owned | No_team | Err_team_claimed | Verification_interrupted | Err_check_failed

datatype connect_verdict_word = Verdict_verified | Verdict_failed

record connect_run_stamp =
  cr_RunID :: string
  cr_Verdict :: connect_verdict_word
  cr_LastError :: "conn_err option"

text \<open>\<open>IdentityVersion\<close>: empty, or a decimal counter; \<open>ConnUnversioned\<close> is the decimal "0". A
  version comes from the store only, so the branch for an unparseable one is not reached.\<close>

datatype conn_version = V_none | V_num int

definition conn_unversioned :: conn_version where
  "conn_unversioned = V_num 0"

text \<open>An empty \<open>LastError\<close> is \<open>None\<close>; ciphertexts are byte strings, empty when absent.\<close>

record fantrax_connection =
  fc_UserID :: string
  fc_TeamID :: string
  fc_FantraxUserID :: string
  fc_FantraxEmail :: string
  fc_Status :: conn_status
  fc_LastError :: "conn_err option"
  fc_LastConnectRun :: "connect_run_stamp option"
  fc_LastVerifiedAt :: go_time
  fc_UpdatedAt :: go_time
  fc_Creds :: string
  fc_FXRM :: string
  fc_Version :: conn_version

text \<open>The composite literal \<open>FantraxConnection{UserID: uid}\<close>: every other field is zero.\<close>

definition bare_connection :: "string \<Rightarrow> fantrax_connection" where
  "bare_connection uid = \<lparr>fc_UserID = uid, fc_TeamID = [], fc_FantraxUserID = [], fc_FantraxEmail = [],
     fc_Status = Conn_unset, fc_LastError = None, fc_LastConnectRun = None, fc_LastVerifiedAt = 0,
     fc_UpdatedAt = 0, fc_Creds = [], fc_FXRM = [], fc_Version = V_none\<rparr>"

definition usable :: "fantrax_connection option \<Rightarrow> bool" where
  "usable c = (case c of None \<Rightarrow> False | Some conn \<Rightarrow> fc_Status conn = Conn_verified)"

section \<open>Permission to run\<close>

datatype run_denied = Denied_no_connection | Denied_not_verified | Denied_needs_reconnect |
  Denied_no_session | Denied_no_credentials | Denied_no_team | Denied_wrong_tenant

record run_grant =
  rg_UserID :: string
  rg_TeamID :: string
  rg_FXRM :: string
  rg_Creds :: string

definition grant_valid :: "run_grant \<Rightarrow> bool" where
  "grant_valid g \<longleftrightarrow> rg_UserID g \<noteq> [] \<and> rg_TeamID g \<noteq> [] \<and> length (rg_FXRM g) > 0 \<and> length (rg_Creds g) > 0"

definition authorize_run :: "string \<Rightarrow> fantrax_connection option \<Rightarrow> run_denied + run_grant" where
  "authorize_run uid c =
     (case c of
        None \<Rightarrow> Inl Denied_no_connection
      | Some conn \<Rightarrow>
         if fc_UserID conn \<noteq> uid then Inl Denied_wrong_tenant
         else if fc_Status conn = Conn_needs_reconnect then Inl Denied_needs_reconnect
         else if fc_Status conn \<noteq> Conn_verified then Inl Denied_not_verified
         else if length (fc_FXRM conn) = 0 then Inl Denied_no_session
         else if length (fc_Creds conn) = 0 then Inl Denied_no_credentials
         else if fc_TeamID conn = [] then Inl Denied_no_team
         else Inr \<lparr>rg_UserID = uid, rg_TeamID = fc_TeamID conn, rg_FXRM = fc_FXRM conn, rg_Creds = fc_Creds conn\<rparr>)"

section \<open>The store\<close>

datatype conn_error = Conn_conflict | No_user_id | Store_down

text \<open>The item: the record with its \<open>Version\<close> stripped, and the \<open>ver\<close> attribute, absent on old rows.\<close>

record conn_item =
  ci_Conn :: fantrax_connection
  ci_Ver :: "int option"

type_synonym conn_table = "string \<rightharpoonup> conn_item"

definition conn_version_of :: "conn_item \<Rightarrow> conn_version" where
  "conn_version_of i = (case ci_Ver i of Some v \<Rightarrow> V_num v | None \<Rightarrow> conn_unversioned)"

definition get_connection :: "conn_table \<Rightarrow> string \<Rightarrow> fantrax_connection option" where
  "get_connection t uid =
     (case t uid of None \<Rightarrow> None | Some i \<Rightarrow> Some ((ci_Conn i)\<lparr>fc_Version := conn_version_of i\<rparr>))"

text \<open>\<open>cond\<close> is the condition expression, \<open>nxt\<close> the version attribute to be written.\<close>

definition put_condition :: "conn_version \<Rightarrow> conn_item option \<Rightarrow> bool" where
  "put_condition v stored =
     (case v of
        V_none \<Rightarrow> stored = None
      | V_num cur \<Rightarrow>
         (case stored of
            None \<Rightarrow> False
          | Some i \<Rightarrow> if v = conn_unversioned then ci_Ver i = None else ci_Ver i = Some cur))"

definition next_version :: "conn_version \<Rightarrow> int" where
  "next_version v =
     (case v of V_none \<Rightarrow> 1 | V_num cur \<Rightarrow> if v = conn_unversioned then 1 else cur + 1)"

definition put_connection ::
  "go_time \<Rightarrow> bool \<Rightarrow> fantrax_connection \<Rightarrow> conn_table \<Rightarrow> (conn_error + fantrax_connection) \<times> conn_table" where
  "put_connection now ok c t =
     (if fc_UserID c = [] then (Inl No_user_id, t)
      else (let c1 = c\<lparr>fc_UpdatedAt := now\<rparr>; nxt = next_version (fc_Version c) in
        if \<not> ok then (Inl Store_down, t)
        else if \<not> put_condition (fc_Version c) (t (fc_UserID c)) then (Inl Conn_conflict, t)
        else (Inr (c1\<lparr>fc_Version := V_num nxt\<rparr>),
              t(fc_UserID c \<mapsto> \<lparr>ci_Conn = c1\<lparr>fc_Version := V_none\<rparr>, ci_Ver = Some nxt\<rparr>))))"

section \<open>The contract\<close>

text \<open>
  What the callers rely on: an accepted write was made at the version of the stored record (or
  with no version while there was none), is read back as written, leaves other users alone and
  moves the version up; a refused write changes nothing. \<open>rank\<close> orders the versions; the first
  argument of \<open>put\<close> is the moment of the write (its clock, and whether the store answers).
\<close>

locale connection_store =
  fixes get :: "'s \<Rightarrow> string \<Rightarrow> fantrax_connection option"
    and put :: "'e \<Rightarrow> fantrax_connection \<Rightarrow> 's \<Rightarrow> (conn_error + fantrax_connection) \<times> 's"
    and rank :: "conn_version \<Rightarrow> int"
  assumes put_at_version: "put e c s = (Inr c', s') \<Longrightarrow>
      (case get s (fc_UserID c) of None \<Rightarrow> fc_Version c = V_none | Some cur \<Rightarrow> fc_Version c = fc_Version cur)"
    and put_reads_back: "put e c s = (Inr c', s') \<Longrightarrow>
      get s' = (get s)(fc_UserID c \<mapsto> c') \<and>
      c' = c\<lparr>fc_UpdatedAt := fc_UpdatedAt c', fc_Version := fc_Version c'\<rparr>"
    and put_moves_version: "put e c s = (Inr c', s') \<Longrightarrow> fc_Version c \<noteq> V_none \<Longrightarrow> rank (fc_Version c) < rank (fc_Version c')"
    and put_never_unset: "get s u = Some c \<Longrightarrow> fc_Version c \<noteq> V_none"
    and put_refused: "put e c s = (Inl err, s') \<Longrightarrow> s' = s"
begin

text \<open>Any writes by anybody, accepted or not.\<close>

inductive writes :: "'s \<Rightarrow> 's \<Rightarrow> bool" where
  nothing: "writes s s"
| attempt: "writes s s1 \<Longrightarrow> writes s (snd (put e c s1))"

lemma put_cases:
  obtains (refused) err where "put e c s = (Inl err, s)"
  | (accepted) c' s' where "put e c s = (Inr c', s')"
  using put_refused by (cases "put e c s"; cases "fst (put e c s)") auto

text \<open>A record only moves up, and at an unchanged version it is unchanged.\<close>

lemma writes_monotone:
  assumes "writes s s'" "get s u = Some r"
  shows "\<exists>r'. get s' u = Some r' \<and> (r' = r \<or> rank (fc_Version r) < rank (fc_Version r'))"
  using assms
proof (induction rule: writes.induct)
  case (attempt s s1 e c)
  then obtain r1 where r1: "get s1 u = Some r1" "r1 = r \<or> rank (fc_Version r) < rank (fc_Version r1)" by auto
  show ?case
  proof (cases rule: put_cases [of e c s1])
    case (refused err)
    with r1 show ?thesis by auto
  next
    case (accepted c' s')
    note rb = put_reads_back [OF accepted]
    show ?thesis
    proof (cases "u = fc_UserID c")
      case True
      with r1 put_at_version [OF accepted] have v: "fc_Version c = fc_Version r1" by simp
      with put_never_unset [OF r1(1)] put_moves_version [OF accepted]
      have "rank (fc_Version r1) < rank (fc_Version c')" by simp
      with True rb accepted r1 show ?thesis by auto
    qed (use rb accepted r1 in auto)
  qed
qed simp

text \<open>No lost update: what an accepted write replaces is the very record its author read.\<close>

lemma replaces_what_was_read:
  assumes "get s u = Some r" "writes s s1" "fc_UserID c = u" "fc_Version c = fc_Version r"
    and "put e c s1 = (Inr c', s2)"
  shows "get s1 u = Some r"
proof -
  obtain r' where r': "get s1 u = Some r'" "r' = r \<or> rank (fc_Version r) < rank (fc_Version r')"
    using writes_monotone [OF assms(2,1)] by auto
  with put_at_version [OF assms(5)] assms(3,4) have "fc_Version r' = fc_Version r" by simp
  with r' show ?thesis by auto
qed

lemma absent_when_created:
  assumes "fc_Version c = V_none" "put e c s1 = (Inr c', s2)"
  shows "get s1 (fc_UserID c) = None"
  using put_at_version [OF assms(2)] assms(1) put_never_unset [of s1 "fc_UserID c"]
  by (auto split: option.splits)

end

section \<open>DynamoDB keeps the contract\<close>

definition version_rank :: "conn_version \<Rightarrow> int" where
  "version_rank v = (case v of V_num n \<Rightarrow> n | V_none \<Rightarrow> 0)"

lemma conn_version_not_none [simp]: "conn_version_of i \<noteq> V_none"
  by (auto simp: conn_version_of_def conn_unversioned_def split: option.split)

lemma put_accepted:
  assumes "put_connection now ok c t = (Inr c', t')"
  shows "ok \<and> fc_UserID c \<noteq> [] \<and> put_condition (fc_Version c) (t (fc_UserID c)) \<and>
    c' = c\<lparr>fc_UpdatedAt := now, fc_Version := V_num (next_version (fc_Version c))\<rparr> \<and>
    t' = t(fc_UserID c \<mapsto> \<lparr>ci_Conn = c\<lparr>fc_UpdatedAt := now, fc_Version := V_none\<rparr>,
      ci_Ver = Some (next_version (fc_Version c))\<rparr>)"
  using assms by (auto simp: put_connection_def Let_def split: if_splits)

lemma condition_version:
  "put_condition v stored \<Longrightarrow> (case stored of None \<Rightarrow> v = V_none | Some i \<Rightarrow> v = conn_version_of i)"
  by (auto simp: put_condition_def conn_version_of_def conn_unversioned_def
      split: conn_version.splits option.splits if_splits)

interpretation dynamo: connection_store get_connection "\<lambda>(now, ok). put_connection now ok" version_rank
proof unfold_locales
  fix e c s c' s' assume "(case e of (now, ok) \<Rightarrow> put_connection now ok) c s = (Inr c', s')"
  then obtain now ok where p: "put_connection now ok c s = (Inr c', s')" by (cases e) auto
  note a = put_accepted [OF p]
  then show "case get_connection s (fc_UserID c) of None \<Rightarrow> fc_Version c = V_none
      | Some cur \<Rightarrow> fc_Version c = fc_Version cur"
    using condition_version [of "fc_Version c" "s (fc_UserID c)"]
    by (auto simp: get_connection_def split: option.splits)
  show "get_connection s' = (get_connection s)(fc_UserID c \<mapsto> c') \<and>
      c' = c\<lparr>fc_UpdatedAt := fc_UpdatedAt c', fc_Version := fc_Version c'\<rparr>"
    using a by (auto simp: get_connection_def conn_version_of_def fun_eq_iff)
  assume "fc_Version c \<noteq> V_none"
  then show "version_rank (fc_Version c) < version_rank (fc_Version c')"
    using a by (auto simp: version_rank_def next_version_def conn_unversioned_def split: conn_version.splits)
next
  fix s u c assume "get_connection s u = Some c"
  then show "fc_Version c \<noteq> V_none" by (auto simp: get_connection_def split: option.splits)
next
  fix e c s err s' assume "(case e of (now, ok) \<Rightarrow> put_connection now ok) c s = (Inl err, s')"
  then show "s' = s" by (auto simp: put_connection_def Let_def split: if_splits prod.splits)
qed

text \<open>Version attributes start at 1, so a record just read can be written back at once.\<close>

definition versions_ok :: "conn_table \<Rightarrow> bool" where
  "versions_ok t \<longleftrightarrow> (\<forall>u i v. t u = Some i \<longrightarrow> ci_Ver i = Some v \<longrightarrow> 1 \<le> v)"

lemma versions_ok_put:
  assumes "versions_ok t" shows "versions_ok (snd (put_connection now ok c t))"
  using assms
  by (fastforce simp: versions_ok_def put_connection_def Let_def next_version_def put_condition_def
      conn_unversioned_def split: conn_version.splits option.splits)

lemma put_after_read:
  assumes "versions_ok t" "get_connection t (fc_UserID c) = Some r" "fc_Version c = fc_Version r" "fc_UserID c \<noteq> []"
  shows "\<exists>c' t'. put_connection now True c t = (Inr c', t')"
  using assms
  by (fastforce simp: versions_ok_def put_connection_def Let_def get_connection_def put_condition_def
      conn_version_of_def conn_unversioned_def split: conn_version.splits option.splits)

definition record_status :: "conn_table \<Rightarrow> string \<Rightarrow> conn_status option" where
  "record_status t u = map_option fc_Status (get_connection t u)"

lemma status_after_put:
  "put_connection now ok c t = (Inr c', t') \<Longrightarrow> record_status t' (fc_UserID c) = Some (fc_Status c)"
  using put_accepted [of now ok c t c' t'] by (auto simp: record_status_def get_connection_def)

lemma status_after_own_put:
  assumes "versions_ok t" "get_connection t u = Some r" "u \<noteq> []" "fc_UserID c = u" "fc_Version c = fc_Version r"
  shows "record_status (snd (put_connection now True c t)) u = Some (fc_Status c)"
  using put_after_read [of t c r now] status_after_put [of now True c t] assms by fastforce

end
