(* ===== verification/Connect_Flow.thy ===== *)
theory Connect_Flow
  imports Connections Tenant_Store
begin

text \<open>
  Connecting a tenant to Fantrax: the API's handler (\<open>internal/lineupapi/connect.go\<close>), the connect
  task (\<open>cmd/connect.go\<close>, \<open>cmd/connect_feed.go\<close>, \<open>cmd/run_outcome.go\<close>) and the reading of a login
  attempt (\<open>cmd/connect_classify.go\<close>). Chrome, Fantrax, KMS, JSON and the claim in the user table
  are parameters. An operation that reads the connection and writes it later takes what it read
  and the table it finds when it writes, so that anything may happen between. The lemmas: which
  routes touch the status, that a verified record was proven, and how each route writes.
\<close>

section \<open>What a login attempt showed\<close>

record fantrax_user_info =
  ui_UserID :: string
  ui_Email :: string

record login_evidence =
  ev_FXRM :: string
  ev_Info :: "fantrax_user_info option"
  ev_FinalURL :: string
  ev_Title :: string
  ev_Matched :: "string \<Rightarrow> bool"
  ev_Texts :: "string \<Rightarrow> string"
  ev_Err :: "string option"
  ev_PersistErr :: "string option"
  ev_IdentityErr :: "string option"

definition empty_evidence :: login_evidence where
  "empty_evidence = \<lparr>ev_FXRM = [], ev_Info = None, ev_FinalURL = [], ev_Title = [],
     ev_Matched = (\<lambda>_. False), ev_Texts = (\<lambda>_. []), ev_Err = None, ev_PersistErr = None, ev_IdentityErr = None\<rparr>"

record login_outcome =
  lo_FinalURL :: string
  lo_Title :: string
  lo_Matched :: "string list"
  lo_Texts :: "string \<Rightarrow> string"

text \<open>\<open>defaultBrowserLogin\<close>: the fork's cookies, outcome and error read as evidence.\<close>

definition browser_evidence ::
  "(string \<times> string) list \<Rightarrow> login_outcome option \<Rightarrow> string option \<Rightarrow> login_evidence" where
  "browser_evidence cookies outcome err =
     (let ev0 = empty_evidence;
          ev1 = (case outcome of None \<Rightarrow> ev0
                 | Some o' \<Rightarrow> ev0\<lparr>ev_FinalURL := lo_FinalURL o', ev_Title := lo_Title o',
                     ev_Matched := (\<lambda>m. m \<in> set (lo_Matched o')), ev_Texts := lo_Texts o'\<rparr>);
          ev2 = fold (\<lambda>(name, value) ev. if name = ''FX_RM'' then ev\<lparr>ev_FXRM := value\<rparr> else ev) cookies ev1
      in (case err of None \<Rightarrow> ev2
          | Some e \<Rightarrow> if ev_FXRM ev2 \<noteq> [] then ev2\<lparr>ev_PersistErr := Some e\<rparr> else ev2\<lparr>ev_Err := Some e\<rparr>))"

text \<open>\<open>client\<close> is what the fork's \<open>NewClient\<close> answers: an error, or a client that may lack its user.\<close>

definition fantrax_identity :: "string + fantrax_user_info option \<Rightarrow> string + fantrax_user_info" where
  "fantrax_identity client =
     (case client of
        Inl e \<Rightarrow> Inl e
      | Inr None \<Rightarrow> Inl ''fantrax returned no user info''
      | Inr (Some info) \<Rightarrow> Inr info)"

definition fantrax_login :: "login_evidence \<Rightarrow> string + fantrax_user_info \<Rightarrow> login_evidence" where
  "fantrax_login ev identity =
     (if ev_FXRM ev = [] then ev
      else (case identity of
              Inl e \<Rightarrow> ev\<lparr>ev_IdentityErr := Some e\<rparr>
            | Inr info \<Rightarrow> ev\<lparr>ev_Info := Some info\<rparr>))"

definition my_team_ids :: "string + (string list) list \<Rightarrow> string + string list" where
  "my_team_ids resp =
     (case resp of
        Inl e \<Rightarrow> Inl e
      | Inr [] \<Rightarrow> Inl ''fantrax returned no roster payload''
      | Inr (d # _) \<Rightarrow> Inr d)"

section \<open>Classification\<close>

datatype failure_route = Route_tenant | Route_operator | Route_post_auth | Route_internal

definition route_for :: "conn_err \<Rightarrow> failure_route" where
  "route_for cls =
     (if cls = Bot_challenge then Route_operator
      else if cls = Verification_interrupted then Route_post_auth
      else if cls = Err_check_failed then Route_internal
      else Route_tenant)"

text \<open>The zero verdict has the empty class, here \<open>None\<close>, and the first route.\<close>

record login_verdict =
  lv_Class :: "conn_err option"
  lv_Route :: failure_route

definition verdict_for :: "conn_err \<Rightarrow> login_verdict" where
  "verdict_for cls = \<lparr>lv_Class = Some cls, lv_Route = route_for cls\<rparr>"

definition cloudflare_titles :: "string list" where
  "cloudflare_titles = [''just a moment'', ''attention required'', ''checking your browser'', ''cloudflare'']"

definition matches_any :: "string \<Rightarrow> string list \<Rightarrow> bool" where
  "matches_any s needles = list_ex (\<lambda>n. to_lower s \<noteq> [] \<and> str_contains (to_lower s) n) needles"

text \<open>The proof is the cookie; the zero proof is empty.\<close>

definition classify_login :: "login_evidence \<Rightarrow> string \<times> login_verdict" where
  "classify_login e =
     (if ev_FXRM e \<noteq> [] \<and> (case ev_Info e of None \<Rightarrow> False | Some i \<Rightarrow> ui_UserID i \<noteq> [])
      then (ev_FXRM e, \<lparr>lv_Class = None, lv_Route = Route_tenant\<rparr>)
      else if ev_Matched e ''cloudflare'' \<or> matches_any (ev_Title e) cloudflare_titles
      then ([], verdict_for Bot_challenge)
      else if ev_Matched e ''otp'' then ([], verdict_for Two_factor)
      else if ev_Matched e ''login_form'' \<and>
        (ev_Texts e ''form_error'' \<noteq> [] \<or> ev_Texts e ''error_text'' \<noteq> [])
      then ([], verdict_for Bad_credentials)
      else if ev_FXRM e \<noteq> [] \<and> (ev_IdentityErr e \<noteq> None \<or> ev_PersistErr e \<noteq> None)
      then (ev_FXRM e, verdict_for Verification_interrupted)
      else if ev_FXRM e \<noteq> [] then ([], verdict_for Bad_credentials)
      else ([], verdict_for Login_challenge_or_timeout))"

section \<open>The connect task\<close>

record fantrax_creds =
  cr_Username :: string
  cr_Password :: string

record fantrax_env =
  fe_User :: string
  fe_Pass :: string
  fe_Cookie :: string

definition no_env :: fantrax_env where
  "no_env = \<lparr>fe_User = [], fe_Pass = [], fe_Cookie = []\<rparr>"

text \<open>Who was told: the tenants' feeds, the operator's phone, the run's outcome file.\<close>

record connect_world =
  cw_Conns :: conn_table
  cw_Feed :: "(string \<times> conn_err) list"
  cw_Push :: "(string \<times> conn_err) list"
  cw_Outcome :: bool
  cw_Env :: fantrax_env

datatype claim_result = Claim_ok | Claim_team_taken | Claim_user_conflict | Claim_error string

text \<open>\<open>cd_Feed\<close>: no feed, or whether it accepts the write; \<open>cd_WriteOK\<close>: whether DynamoDB answers.\<close>

record connect_deps =
  cd_Open :: "string \<Rightarrow> string \<Rightarrow> string + string"
  cd_Parse :: "string \<Rightarrow> string + fantrax_creds"
  cd_Seal :: "string \<Rightarrow> string \<Rightarrow> string + string"
  cd_Login :: "fantrax_creds \<Rightarrow> login_evidence"
  cd_Teams :: "string + string list"
  cd_Claim :: "string \<Rightarrow> string \<Rightarrow> claim_result"
  cd_Feed :: "bool option"
  cd_Push :: bool
  cd_RunID :: string
  cd_OutcomeFile :: bool
  cd_Now :: go_time
  cd_WriteOK :: bool

definition record_tenant_connect_failure :: "bool option \<Rightarrow> string \<Rightarrow> conn_err \<Rightarrow> connect_world \<Rightarrow> connect_world" where
  "record_tenant_connect_failure feed uid cls w =
     (case feed of
        None \<Rightarrow> w
      | Some okay \<Rightarrow> if okay then w\<lparr>cw_Feed := cw_Feed w @ [(uid, cls)]\<rparr> else w)"

definition record_connect_failure :: "connect_deps \<Rightarrow> string \<Rightarrow> conn_err \<Rightarrow> connect_world \<Rightarrow> connect_world" where
  "record_connect_failure d uid cls w =
     (if route_for cls = Route_operator
      then (if cd_Push d then w\<lparr>cw_Push := cw_Push w @ [(uid, cls)]\<rparr> else w)
      else record_tenant_connect_failure (cd_Feed d) uid cls w)"

definition record_run_outcome :: "connect_deps \<Rightarrow> connect_world \<Rightarrow> connect_world" where
  "record_run_outcome d w = (if cd_OutcomeFile d then w\<lparr>cw_Outcome := True\<rparr> else w)"

datatype connect_error = CE_store conn_error | CE_no_proof | CE_operator conn_err | CE_post_auth string string |
  CE_internal string string | CE_unreadable string string | CE_no_connection | CE_not_ownership conn_err |
  CE_profile_conflict | CE_no_team_proof | CE_no_sealed_session

text \<open>\<open>connectRun.record\<close>: stamp and write; a lost race is absorbed.\<close>

definition stamp_run :: "connect_deps \<Rightarrow> connect_verdict_word \<Rightarrow> fantrax_connection \<Rightarrow> fantrax_connection" where
  "stamp_run d verdict conn =
     (if cd_RunID d \<noteq> []
      then conn\<lparr>fc_LastConnectRun := Some \<lparr>cr_RunID = cd_RunID d, cr_Verdict = verdict, cr_LastError = fc_LastError conn\<rparr>\<rparr>
      else conn)"

definition record_verdict ::
  "connect_deps \<Rightarrow> connect_verdict_word \<Rightarrow> fantrax_connection \<Rightarrow> connect_world \<Rightarrow> conn_error option \<times> connect_world" where
  "record_verdict d verdict conn w =
     (case put_connection (cd_Now d) (cd_WriteOK d) (stamp_run d verdict conn) (cw_Conns w) of
        (Inl e, t) \<Rightarrow> (if e = Conn_conflict then None else Some e, w\<lparr>cw_Conns := t\<rparr>)
      | (Inr _, t) \<Rightarrow> (None, w\<lparr>cw_Conns := t\<rparr>))"

record connect_verdict =
  cv_Class :: conn_err
  cv_Proof :: string
  cv_Stage :: string
  cv_Cause :: string

definition tenant_fault :: "conn_err \<Rightarrow> connect_verdict" where
  "tenant_fault cls = \<lparr>cv_Class = cls, cv_Proof = [], cv_Stage = [], cv_Cause = []\<rparr>"

definition degrade_to_noise :: "string option \<Rightarrow> string" where
  "degrade_to_noise cause = (case cause of None \<Rightarrow> ''no underlying error was recorded'' | Some e \<Rightarrow> e)"

definition post_auth :: "string \<Rightarrow> string \<Rightarrow> string option \<Rightarrow> connect_verdict" where
  "post_auth proof stage cause =
     \<lparr>cv_Class = Verification_interrupted, cv_Proof = proof, cv_Stage = stage, cv_Cause = degrade_to_noise cause\<rparr>"

definition internal_fault :: "string \<Rightarrow> string option \<Rightarrow> connect_verdict" where
  "internal_fault stage cause =
     \<lparr>cv_Class = Err_check_failed, cv_Proof = [], cv_Stage = stage, cv_Cause = degrade_to_noise cause\<rparr>"

definition classified :: "string \<Rightarrow> conn_err \<Rightarrow> login_evidence \<Rightarrow> connect_verdict" where
  "classified proof cls ev =
     (if route_for cls \<noteq> Route_post_auth then tenant_fault cls
      else if ev_IdentityErr ev \<noteq> None then post_auth proof ''the Fantrax identity check'' (ev_IdentityErr ev)
      else post_auth proof ''the session cookie cache write'' (ev_PersistErr ev))"

definition record_failed ::
  "connect_deps \<Rightarrow> fantrax_connection \<Rightarrow> connect_error option \<Rightarrow> (connect_world \<Rightarrow> connect_world) \<Rightarrow>
   connect_world \<Rightarrow> connect_error option \<times> connect_world" where
  "record_failed d conn err after w =
     (case record_verdict d Verdict_failed conn w of
        (Some e, w1) \<Rightarrow> (Some (CE_store e), w1)
      | (None, w1) \<Rightarrow> (err, after w1))"

definition fail_run ::
  "connect_deps \<Rightarrow> string \<Rightarrow> fantrax_connection \<Rightarrow> connect_verdict \<Rightarrow> connect_world \<Rightarrow>
   connect_error option \<times> connect_world" where
  "fail_run d uid conn v w =
     (let route = route_for (cv_Class v) in
      if route = Route_post_auth \<and> cv_Proof v = [] then (Some CE_no_proof, w)
      else (let w1 = record_connect_failure d uid (cv_Class v) w;
                c1 = conn\<lparr>fc_LastError := Some (cv_Class v)\<rparr> in
        case route of
          Route_operator \<Rightarrow> record_failed d c1 (Some (CE_operator (cv_Class v))) id w1
        | Route_post_auth \<Rightarrow>
            record_failed d (c1\<lparr>fc_Status := Conn_interrupted\<rparr>) (Some (CE_post_auth (cv_Stage v) (cv_Cause v))) id w1
        | Route_internal \<Rightarrow>
            record_failed d (c1\<lparr>fc_Status := Conn_check_failed\<rparr>) (Some (CE_internal (cv_Stage v) (cv_Cause v))) id w1
        | Route_tenant \<Rightarrow>
            record_failed d (c1\<lparr>fc_Status := Conn_needs_reconnect\<rparr>) None (record_run_outcome d) w1))"

text \<open>A read of the connection: it failed, found nothing, or found the record.\<close>

type_synonym conn_read = "string + fantrax_connection option"

definition fail_check ::
  "connect_deps \<Rightarrow> string \<Rightarrow> fantrax_connection option \<Rightarrow> conn_read \<Rightarrow> string \<Rightarrow> string option \<Rightarrow> connect_world \<Rightarrow>
   connect_error option \<times> connect_world" where
  "fail_check d uid existing reread stage cause w =
     (case existing of
        Some conn \<Rightarrow> fail_run d uid conn (internal_fault stage cause) w
      | None \<Rightarrow>
         (case reread of
            Inl _ \<Rightarrow> (Some (CE_unreadable stage (degrade_to_noise cause)),
                      record_connect_failure d uid Err_check_failed w)
          | Inr (Some cur) \<Rightarrow> fail_run d uid cur (internal_fault stage cause) w
          | Inr None \<Rightarrow> fail_run d uid (bare_connection uid) (internal_fault stage cause) w))"

definition interrupted ::
  "connect_deps \<Rightarrow> string \<Rightarrow> fantrax_connection \<Rightarrow> string \<Rightarrow> string \<Rightarrow> string \<Rightarrow> connect_world \<Rightarrow>
   connect_error option \<times> connect_world" where
  "interrupted d uid conn proof stage cause w = fail_run d uid conn (post_auth proof stage (Some cause)) w"

definition ownership_fault ::
  "connect_deps \<Rightarrow> string \<Rightarrow> fantrax_connection \<Rightarrow> conn_err \<Rightarrow> connect_world \<Rightarrow> connect_error option \<times> connect_world" where
  "ownership_fault d uid conn cls w =
     (if cls \<notin> {Team_not_owned, No_team, Err_team_claimed} then (Some (CE_not_ownership cls), w)
      else fail_run d uid conn (tenant_fault cls) w)"

definition prove_team :: "string \<Rightarrow> string list \<Rightarrow> string \<times> conn_err option" where
  "prove_team connTeamID owned =
     (if connTeamID = [] then ([], Some No_team)
      else if connTeamID \<notin> set owned then ([], Some Team_not_owned)
      else (connTeamID, None))"

definition mark_verified ::
  "fantrax_connection \<Rightarrow> string \<Rightarrow> string \<Rightarrow> fantrax_user_info \<Rightarrow> go_time \<Rightarrow> connect_error + fantrax_connection" where
  "mark_verified conn proof fxrmSealed info now =
     (if proof = [] then Inl CE_no_team_proof
      else if length fxrmSealed = 0 then Inl CE_no_sealed_session
      else Inr (conn\<lparr>fc_TeamID := proof, fc_FXRM := fxrmSealed, fc_FantraxUserID := ui_UserID info,
                 fc_FantraxEmail := ui_Email info, fc_Status := Conn_verified, fc_LastError := None,
                 fc_LastVerifiedAt := now\<rparr>))"

definition finish ::
  "connect_deps \<Rightarrow> string \<Rightarrow> fantrax_connection \<Rightarrow> string \<Rightarrow> fantrax_user_info \<Rightarrow> connect_world \<Rightarrow>
   connect_error option \<times> connect_world" where
  "finish d uid conn proof info w =
     (case cd_Teams d of
        Inl e \<Rightarrow> interrupted d uid conn proof ''the Fantrax team-ownership lookup'' e w
      | Inr owned \<Rightarrow>
         (case prove_team (fc_TeamID conn) owned of
            (_, Some cls) \<Rightarrow> ownership_fault d uid conn cls w
          | (team, None) \<Rightarrow>
             (case cd_Claim d uid team of
                Claim_team_taken \<Rightarrow> ownership_fault d uid conn Err_team_claimed w
              | Claim_user_conflict \<Rightarrow> (Some CE_profile_conflict, w)
              | Claim_error e \<Rightarrow> interrupted d uid conn proof ''the team claim'' e w
              | Claim_ok \<Rightarrow>
                 (case cd_Seal d uid proof of
                    Inl e \<Rightarrow> interrupted d uid conn proof ''sealing the Fantrax session'' e w
                  | Inr sealed \<Rightarrow>
                     (case mark_verified conn team sealed info (cd_Now d) of
                        Inl e \<Rightarrow> (Some e, w)
                      | Inr c \<Rightarrow>
                         (case record_verdict d Verdict_verified c w of
                            (Some e, w1) \<Rightarrow> (Some (CE_store e), w1)
                          | (None, w1) \<Rightarrow> (None, w1)))))))"

definition connect_task ::
  "connect_deps \<Rightarrow> string \<Rightarrow> conn_read \<Rightarrow> conn_read \<Rightarrow> connect_world \<Rightarrow> connect_error option \<times> connect_world" where
  "connect_task d uid got reread w =
     (case got of
        Inl e \<Rightarrow> fail_check d uid None reread ''reading the connection record'' (Some e) w
      | Inr None \<Rightarrow> (Some CE_no_connection, w)
      | Inr (Some conn) \<Rightarrow>
         if length (fc_Creds conn) = 0 then (Some CE_no_connection, w)
         else (case cd_Open d uid (fc_Creds conn) of
           Inl e \<Rightarrow> fail_check d uid (Some conn) reread ''decrypting the stored credentials'' (Some e) w
         | Inr plain \<Rightarrow>
            (case cd_Parse d plain of
               Inl e \<Rightarrow> fail_check d uid (Some conn) reread ''parsing the stored credential blob'' (Some e) w
             | Inr creds \<Rightarrow>
                (let ev = cd_Login d creds; (proof, v) = classify_login ev in
                 case lv_Class v of
                   Some cls \<Rightarrow> fail_run d uid conn (classified proof cls ev) w
                 | None \<Rightarrow>
                    (case ev_Info ev of
                       None \<Rightarrow> (None, w)
                     | Some info \<Rightarrow> finish d uid conn proof info w)))))"

text \<open>The deferred clearing of the environment comes last, whatever the outcome. A successful
  classification has the account, so the last \<open>None\<close> above is not reached.\<close>

definition connect_tenant ::
  "connect_deps \<Rightarrow> string \<Rightarrow> conn_read \<Rightarrow> conn_read \<Rightarrow> connect_world \<Rightarrow> connect_error option \<times> connect_world" where
  "connect_tenant d uid got reread w =
     (let (err, w1) = connect_task d uid got reread w in (err, w1\<lparr>cw_Env := no_env\<rparr>))"

section \<open>The API's handlers\<close>

definition connect_in_flight_window :: go_duration where
  "connect_in_flight_window = 10 * minute"

definition connect_interrupted_cooldown :: go_duration where
  "connect_interrupted_cooldown = minute"

datatype in_flight = Already_running | Did_not_finish | Could_not_run

definition connect_in_flight_refusal :: "go_time \<Rightarrow> fantrax_connection \<Rightarrow> in_flight option" where
  "connect_in_flight_refusal now cur =
     (if fc_Status cur = Conn_pending \<and> now - fc_UpdatedAt cur < connect_in_flight_window then Some Already_running
      else if fc_Status cur = Conn_interrupted \<and> now - fc_UpdatedAt cur < connect_interrupted_cooldown
      then Some Did_not_finish
      else if fc_Status cur = Conn_check_failed \<and> now - fc_UpdatedAt cur < connect_interrupted_cooldown
      then Some Could_not_run
      else None)"

text \<open>The answer of the handler; \<open>Resp_busy\<close> is the 409 after the last attempt.\<close>

datatype connect_response = Resp_forbidden | Resp_not_configured | Resp_bad_request | Resp_store_unavailable |
  Resp_in_flight in_flight | Resp_not_prepared | Resp_not_sealed | Resp_not_stored | Resp_busy |
  Resp_not_launched | Resp_accepted string

text \<open>
  What the handler uses, by attempt where it uses it again: the clock, whether the store answers
  a read and a write, and what others do to the table before the read and before the write.
\<close>

record connect_api =
  ca_Configured :: bool
  ca_Marshal :: "fantrax_creds \<Rightarrow> string option"
  ca_Seal :: "string \<Rightarrow> string \<Rightarrow> string option"
  ca_User :: "(string \<Rightarrow> string + user option) option"
  ca_Launch :: "string \<Rightarrow> string list \<Rightarrow> string option"
  ca_Now :: "nat \<Rightarrow> go_time"
  ca_ReadOK :: "nat \<Rightarrow> bool"
  ca_WriteOK :: "nat \<Rightarrow> bool"
  ca_BeforeRead :: "nat \<Rightarrow> conn_table \<Rightarrow> conn_table"
  ca_BeforeWrite :: "nat \<Rightarrow> conn_table \<Rightarrow> conn_table"

definition connect_put_attempts :: nat where
  "connect_put_attempts = 5"

definition submit_record :: "string \<Rightarrow> string \<Rightarrow> string \<Rightarrow> go_time \<Rightarrow> fantrax_connection option \<Rightarrow> fantrax_connection" where
  "submit_record uid team sealed now cur =
     (bare_connection uid)\<lparr>fc_TeamID := team, fc_Status := Conn_pending, fc_Creds := sealed, fc_UpdatedAt := now,
       fc_Version := (case cur of Some c \<Rightarrow> fc_Version c | None \<Rightarrow> V_none)\<rparr>"

text \<open>A read followed by the guard: a refusal, or what the next write is based on.\<close>

definition guarded_read ::
  "connect_api \<Rightarrow> nat \<Rightarrow> string \<Rightarrow> conn_table \<Rightarrow> connect_response + fantrax_connection option" where
  "guarded_read a n uid t =
     (if \<not> ca_ReadOK a n then Inl Resp_store_unavailable
      else (case get_connection t uid of
              None \<Rightarrow> Inr None
            | Some cur \<Rightarrow>
               (case connect_in_flight_refusal (ca_Now a n) cur of
                  Some m \<Rightarrow> Inl (Resp_in_flight m)
                | None \<Rightarrow> Inr (Some cur))))"

text \<open>The retry loop: \<open>left\<close> attempts remain after this one, the \<open>n\<close>-th.\<close>

fun submit_loop ::
  "connect_api \<Rightarrow> string \<Rightarrow> string \<Rightarrow> string \<Rightarrow> nat \<Rightarrow> nat \<Rightarrow> fantrax_connection option \<Rightarrow> conn_table \<Rightarrow>
   connect_response option \<times> conn_table" where
  "submit_loop a uid team sealed left n cur t =
     (case put_connection (ca_Now a n) (ca_WriteOK a n) (submit_record uid team sealed (ca_Now a n) cur)
             (ca_BeforeWrite a n t) of
        (Inr _, t1) \<Rightarrow> (None, t1)
      | (Inl e, t1) \<Rightarrow>
         if e \<noteq> Conn_conflict then (Some Resp_not_stored, t1)
         else (case left of
                 0 \<Rightarrow> (Some Resp_busy, t1)
               | Suc l \<Rightarrow>
                  (let t2 = ca_BeforeRead a (Suc n) t1 in
                   case guarded_read a (Suc n) uid t2 of
                     Inl r \<Rightarrow> (Some r, t2)
                   | Inr cur' \<Rightarrow> submit_loop a uid team sealed l (Suc n) cur' t2)))"

definition team_on_record :: "connect_api \<Rightarrow> string \<Rightarrow> string" where
  "team_on_record a uid =
     (case ca_User a of
        None \<Rightarrow> []
      | Some f \<Rightarrow> (case f uid of Inr (Some u) \<Rightarrow> us_TeamID u | _ \<Rightarrow> []))"

text \<open>The caller's user id is empty for the bearer token; \<open>body\<close> is the decoded request, if it decodes.\<close>

definition handle_connect ::
  "connect_api \<Rightarrow> string \<Rightarrow> fantrax_creds option \<Rightarrow> conn_table \<Rightarrow> connect_response \<times> conn_table" where
  "handle_connect a uid body t =
     (if uid = [] then (Resp_forbidden, t)
      else if \<not> ca_Configured a then (Resp_not_configured, t)
      else (case body of
        None \<Rightarrow> (Resp_bad_request, t)
      | Some creds \<Rightarrow>
         if cr_Username creds = [] \<or> cr_Password creds = [] then (Resp_bad_request, t)
         else (let t0 = ca_BeforeRead a 1 t in
           case guarded_read a 1 uid t0 of
             Inl r \<Rightarrow> (r, t0)
           | Inr cur \<Rightarrow>
              (case ca_Marshal a creds of
                 None \<Rightarrow> (Resp_not_prepared, t0)
               | Some plain \<Rightarrow>
                  (case ca_Seal a uid plain of
                     None \<Rightarrow> (Resp_not_sealed, t0)
                   | Some sealed \<Rightarrow>
                      (case submit_loop a uid (team_on_record a uid) sealed (connect_put_attempts - 1) 1 cur t0 of
                         (Some r, t1) \<Rightarrow> (r, t1)
                       | (None, t1) \<Rightarrow>
                          (case ca_Launch a uid [''connect'', ''--user'', uid] of
                             None \<Rightarrow> (Resp_not_launched, t1)
                           | Some run \<Rightarrow> (Resp_accepted run, t1))))))))"

record connect_status_out =
  co_Connected :: bool
  co_Status :: conn_status
  co_TeamID :: string
  co_LastError :: "conn_err option"
  co_LastVerifiedAt :: go_time

datatype status_response = Status_forbidden | Status_not_configured | Status_unavailable | Status_not_connected |
  Status_is connect_status_out

definition handle_connect_status :: "bool \<Rightarrow> string \<Rightarrow> conn_read \<Rightarrow> status_response" where
  "handle_connect_status configured uid got =
     (if uid = [] then Status_forbidden
      else if \<not> configured then Status_not_configured
      else (case got of
              Inl _ \<Rightarrow> Status_unavailable
            | Inr None \<Rightarrow> Status_not_connected
            | Inr (Some conn) \<Rightarrow> Status_is
                \<lparr>co_Connected = (fc_Status conn = Conn_verified), co_Status = fc_Status conn, co_TeamID = fc_TeamID conn,
                 co_LastError = fc_LastError conn, co_LastVerifiedAt = fc_LastVerifiedAt conn\<rparr>))"

section \<open>Lemmas on the connect task\<close>

text \<open>Every write of the task is a version of the record it read: the same user, credentials and
  version. \<open>task_write\<close> says so, with the status it carries.\<close>

definition task_write :: "connect_deps \<Rightarrow> fantrax_connection \<Rightarrow> (fantrax_connection \<Rightarrow> bool) \<Rightarrow> conn_table \<Rightarrow> conn_table \<Rightarrow> bool" where
  "task_write d base ok t t' \<longleftrightarrow>
     t' = t \<or> (\<exists>c. t' = snd (put_connection (cd_Now d) (cd_WriteOK d) c t) \<and> fc_UserID c = fc_UserID base \<and>
       fc_Creds c = fc_Creds base \<and> fc_Version c = fc_Version base \<and> ok c)"

lemma task_write_mono: "task_write d base P t t' \<Longrightarrow> (\<And>c. P c \<Longrightarrow> Q c) \<Longrightarrow> task_write d base Q t t'"
  unfolding task_write_def by blast

lemma stamp_run_fields [simp]:
  "fc_UserID (stamp_run d v c) = fc_UserID c" "fc_Creds (stamp_run d v c) = fc_Creds c"
  "fc_Version (stamp_run d v c) = fc_Version c" "fc_Status (stamp_run d v c) = fc_Status c"
  "fc_TeamID (stamp_run d v c) = fc_TeamID c" "fc_FXRM (stamp_run d v c) = fc_FXRM c"
  "fc_LastError (stamp_run d v c) = fc_LastError c"
  by (simp_all add: stamp_run_def)

lemma record_failure_conns [simp]:
  "cw_Conns (record_tenant_connect_failure f uid cls w) = cw_Conns w"
  "cw_Conns (record_connect_failure d uid cls w) = cw_Conns w"
  "cw_Conns (record_run_outcome d w) = cw_Conns w"
  by (simp_all add: record_connect_failure_def record_tenant_connect_failure_def record_run_outcome_def
      split: option.split)

lemma record_verdict_conns:
  "cw_Conns (snd (record_verdict d v c w)) =
     snd (put_connection (cd_Now d) (cd_WriteOK d) (stamp_run d v c) (cw_Conns w))"
  by (auto simp: record_verdict_def split: prod.splits sum.splits)

lemma record_failed_conns:
  assumes "\<And>w. cw_Conns (after w) = cw_Conns w"
  shows "cw_Conns (snd (record_failed d c err after w)) =
     snd (put_connection (cd_Now d) (cd_WriteOK d) (stamp_run d Verdict_failed c) (cw_Conns w))"
  using record_verdict_conns [of d Verdict_failed c w] assms
  by (auto simp: record_failed_def split: prod.splits option.splits)

text \<open>The status a route writes.\<close>

definition route_status :: "failure_route \<Rightarrow> conn_status \<Rightarrow> conn_status" where
  "route_status r old =
     (case r of Route_operator \<Rightarrow> old | Route_post_auth \<Rightarrow> Conn_interrupted
      | Route_internal \<Rightarrow> Conn_check_failed | Route_tenant \<Rightarrow> Conn_needs_reconnect)"

lemma fail_run_write:
  "task_write d conn (\<lambda>c. fc_Status c = route_status (route_for (cv_Class v)) (fc_Status conn) \<and>
       fc_TeamID c = fc_TeamID conn \<and> fc_FXRM c = fc_FXRM conn)
     (cw_Conns w) (cw_Conns (snd (fail_run d uid conn v w)))"
proof (cases "route_for (cv_Class v) = Route_post_auth \<and> cv_Proof v = []")
  case True
  then show ?thesis by (simp add: fail_run_def task_write_def)
next
  case False
  define c where "c = (conn\<lparr>fc_LastError := Some (cv_Class v), fc_Status := route_status (route_for (cv_Class v)) (fc_Status conn)\<rparr>)"
  have "cw_Conns (snd (fail_run d uid conn v w)) =
      snd (put_connection (cd_Now d) (cd_WriteOK d) (stamp_run d Verdict_failed c) (cw_Conns w))"
    using False by (auto simp: fail_run_def Let_def c_def route_status_def record_failed_conns split: failure_route.split)
  then show ?thesis
    unfolding task_write_def by (intro disjI2 exI [of _ "stamp_run d Verdict_failed c"]) (simp add: c_def)
qed

text \<open>What it takes to be verified: Fantrax's own statements, the claim and a sealed session.\<close>

definition proves :: "connect_deps \<Rightarrow> string \<Rightarrow> fantrax_connection \<Rightarrow> string \<Rightarrow> bool" where
  "proves d uid conn sealed \<longleftrightarrow>
     fc_Creds conn \<noteq> [] \<and>
     (\<exists>plain creds info owned. cd_Open d uid (fc_Creds conn) = Inr plain \<and> cd_Parse d plain = Inr creds \<and>
        ev_FXRM (cd_Login d creds) \<noteq> [] \<and> ev_Info (cd_Login d creds) = Some info \<and> ui_UserID info \<noteq> [] \<and>
        cd_Teams d = Inr owned \<and> fc_TeamID conn \<noteq> [] \<and> fc_TeamID conn \<in> set owned \<and>
        cd_Claim d uid (fc_TeamID conn) = Claim_ok \<and>
        cd_Seal d uid (ev_FXRM (cd_Login d creds)) = Inr sealed \<and> sealed \<noteq> [])"

lemma classify_success:
  "lv_Class (snd (classify_login e)) = None \<longleftrightarrow>
     ev_FXRM e \<noteq> [] \<and> (\<exists>i. ev_Info e = Some i \<and> ui_UserID i \<noteq> [])"
  by (auto simp: classify_login_def verdict_for_def split: option.splits if_splits)

lemma classify_success_proof:
  "lv_Class (snd (classify_login e)) = None \<Longrightarrow> fst (classify_login e) = ev_FXRM e"
  by (auto simp: classify_login_def verdict_for_def split: option.splits if_splits)

lemma classify_class_route:
  "lv_Class (snd (classify_login e)) = Some cls \<Longrightarrow> lv_Route (snd (classify_login e)) = route_for cls"
  by (auto simp: classify_login_def verdict_for_def split: if_splits)

lemma prove_team_cases:
  "prove_team t owned = (p, None) \<longleftrightarrow> p = t \<and> t \<noteq> [] \<and> t \<in> set owned"
  by (auto simp: prove_team_def)

lemma finish_write:
  "task_write d conn (\<lambda>c. fc_TeamID c = fc_TeamID conn \<and>
       (fc_Status c = Conn_verified \<longrightarrow>
          (\<exists>owned. cd_Teams d = Inr owned \<and> fc_TeamID conn \<in> set owned) \<and> fc_TeamID conn \<noteq> [] \<and>
          cd_Claim d uid (fc_TeamID conn) = Claim_ok \<and> cd_Seal d uid proof = Inr (fc_FXRM c) \<and> fc_FXRM c \<noteq> []))
     (cw_Conns w) (cw_Conns (snd (finish d uid conn proof info w)))"
proof -
  let ?ok = "\<lambda>c. fc_TeamID c = fc_TeamID conn \<and>
       (fc_Status c = Conn_verified \<longrightarrow>
          (\<exists>owned. cd_Teams d = Inr owned \<and> fc_TeamID conn \<in> set owned) \<and> fc_TeamID conn \<noteq> [] \<and>
          cd_Claim d uid (fc_TeamID conn) = Claim_ok \<and> cd_Seal d uid proof = Inr (fc_FXRM c) \<and> fc_FXRM c \<noteq> [])"
  let ?w = "task_write d conn ?ok (cw_Conns w)"
  have failed: "?w (cw_Conns (snd (fail_run d uid conn v w)))" if "route_for (cv_Class v) \<noteq> Route_operator" for v
    by (rule task_write_mono [OF fail_run_write])
      (use that in \<open>auto simp: route_status_def split: failure_route.splits\<close>)
  have i: "?w (cw_Conns (snd (interrupted d uid conn proof st cause w)))" for st cause
    unfolding interrupted_def by (rule failed) (simp add: post_auth_def route_for_def)
  have none: "?w (cw_Conns w)" by (simp add: task_write_def)
  have o: "?w (cw_Conns (snd (ownership_fault d uid conn cls w)))" for cls
    using none failed [of "tenant_fault cls"] by (auto simp: ownership_fault_def tenant_fault_def route_for_def)
  have v: "?w (cw_Conns (snd (record_verdict d Verdict_verified c w)))"
    if "cd_Teams d = Inr owned" "prove_team (fc_TeamID conn) owned = (team, None)" "cd_Claim d uid team = Claim_ok"
      "cd_Seal d uid proof = Inr sealed" "mark_verified conn team sealed info (cd_Now d) = Inr c" for owned team sealed c
  proof -
    have c: "fc_UserID c = fc_UserID conn" "fc_Creds c = fc_Creds conn" "fc_Version c = fc_Version conn" "?ok c"
      using that by (auto simp: prove_team_cases mark_verified_def split: if_splits)
    then show ?thesis
      unfolding task_write_def record_verdict_conns by (intro disjI2 exI [of _ "stamp_run d Verdict_verified c"]) simp
  qed
  define W where "W = ?w"
  have v': "W (cw_Conns w1)"
    if "cd_Teams d = Inr owned" "prove_team (fc_TeamID conn) owned = (team, None)" "cd_Claim d uid team = Claim_ok"
      "cd_Seal d uid proof = Inr sealed" "mark_verified conn team sealed info (cd_Now d) = Inr c"
      "record_verdict d Verdict_verified c w = (r, w1)" for owned team sealed c r w1
    using v [OF that(1-5)] that(6) by (simp add: W_def)
  show ?thesis
    using i o none v' unfolding finish_def W_def [symmetric]
    by (auto split: sum.split prod.split option.split claim_result.split)
qed

text \<open>The record a task's verdict is about: the one it read, or after a failed read the one it read
  again, or the bare one when there was none.\<close>

definition base_of :: "string \<Rightarrow> conn_read \<Rightarrow> conn_read \<Rightarrow> fantrax_connection \<Rightarrow> bool" where
  "base_of uid got reread base \<longleftrightarrow>
     (case got of
        Inr r \<Rightarrow> r = Some base
      | Inl _ \<Rightarrow> (case reread of Inl _ \<Rightarrow> False | Inr (Some c) \<Rightarrow> base = c | Inr None \<Rightarrow> base = bare_connection uid))"

text \<open>The ways a connect task can go.\<close>

lemma connect_task_cases:
  obtains (silent) "cw_Conns (snd (connect_task d uid got reread w)) = cw_Conns w"
      "fst (connect_task d uid got reread w) \<noteq> None"
  | (ours) base stage cause where "base_of uid got reread base"
      "connect_task d uid got reread w = fail_run d uid base (internal_fault stage cause) w"
  | (login) conn plain creds cls where "got = Inr (Some conn)" "fc_Creds conn \<noteq> []"
      "cd_Open d uid (fc_Creds conn) = Inr plain" "cd_Parse d plain = Inr creds"
      "lv_Class (snd (classify_login (cd_Login d creds))) = Some cls"
      "connect_task d uid got reread w =
         fail_run d uid conn (classified (fst (classify_login (cd_Login d creds))) cls (cd_Login d creds)) w"
  | (proven) conn plain creds info where "got = Inr (Some conn)" "fc_Creds conn \<noteq> []"
      "cd_Open d uid (fc_Creds conn) = Inr plain" "cd_Parse d plain = Inr creds"
      "ev_FXRM (cd_Login d creds) \<noteq> []" "ev_Info (cd_Login d creds) = Some info" "ui_UserID info \<noteq> []"
      "connect_task d uid got reread w = finish d uid conn (ev_FXRM (cd_Login d creds)) info w"
proof (cases got)
  case (Inl e)
  show ?thesis
  proof (cases reread)
    case (Inl e2)
    show ?thesis by (rule silent) (simp_all add: connect_task_def fail_check_def \<open>got = Inl e\<close> Inl)
  next
    case (Inr r)
    show ?thesis
      by (rule ours [of "case r of None \<Rightarrow> bare_connection uid | Some c \<Rightarrow> c" "''reading the connection record''" "Some e"])
        (auto simp: connect_task_def fail_check_def base_of_def \<open>got = Inl e\<close> Inr split: option.split)
  qed
next
  case (Inr r)
  show ?thesis
  proof (cases "case r of None \<Rightarrow> [] | Some c \<Rightarrow> fc_Creds c")
    case Nil
    then show ?thesis
      by (intro silent) (auto simp: connect_task_def Inr split: option.splits)
  next
    case (Cons x xs)
    then obtain conn where r: "r = Some conn" and c: "fc_Creds conn \<noteq> []" by (cases r) auto
    show ?thesis
    proof (cases "cd_Open d uid (fc_Creds conn)")
      case (Inl e)
      show ?thesis
        by (rule ours [of conn "''decrypting the stored credentials''" "Some e"])
          (simp_all add: connect_task_def fail_check_def base_of_def \<open>got = Inr r\<close> r c Inl)
    next
      case o: (Inr plain)
      show ?thesis
      proof (cases "cd_Parse d plain")
        case (Inl e)
        show ?thesis
          by (rule ours [of conn "''parsing the stored credential blob''" "Some e"])
            (simp_all add: connect_task_def fail_check_def base_of_def \<open>got = Inr r\<close> r c o Inl)
      next
        case p: (Inr creds)
        show ?thesis
        proof (cases "lv_Class (snd (classify_login (cd_Login d creds)))")
          case None
          then obtain info where i: "ev_Info (cd_Login d creds) = Some info" "ui_UserID info \<noteq> []"
            "ev_FXRM (cd_Login d creds) \<noteq> []" by (auto simp: classify_success)
          show ?thesis
            by (rule proven [OF _ c o p i(3,1,2)])
              (simp_all add: connect_task_def \<open>got = Inr r\<close> r c o p i None Let_def case_prod_beta' classify_success_proof)
        next
          case (Some cls)
          show ?thesis
            by (rule login [OF _ c o p Some])
              (simp_all add: connect_task_def \<open>got = Inr r\<close> r c o p Some Let_def case_prod_beta')
        qed
      qed
    qed
  qed
qed

lemma connect_tenant_conns: "cw_Conns (snd (connect_tenant d uid got reread w)) = cw_Conns (snd (connect_task d uid got reread w))"
  by (simp add: connect_tenant_def case_prod_beta' Let_def)

lemma classified_class [simp]: "cv_Class (classified p cls ev) = cls"
  by (auto simp: classified_def tenant_fault_def post_auth_def route_for_def split: if_splits)

text \<open>Every write of the task, with what a verified one rests on.\<close>

lemma connect_tenant_write:
  "cw_Conns (snd (connect_tenant d uid got reread w)) = cw_Conns w \<or> (\<exists>base. base_of uid got reread base \<and>
     task_write d base (\<lambda>c. fc_TeamID c = fc_TeamID base \<and>
       (fc_Status c = Conn_verified \<longrightarrow> fc_Status base = Conn_verified \<or>
          got = Inr (Some base) \<and> proves d uid base (fc_FXRM c)))
     (cw_Conns w) (cw_Conns (snd (connect_tenant d uid got reread w))))" (is "_ \<or> (\<exists>base. ?P base \<and> ?W base)")
proof (cases rule: connect_task_cases [of d uid got reread w])
  case silent
  then show ?thesis by (simp add: connect_tenant_conns)
next
  case (ours base stage cause)
  have "?W base"
    unfolding connect_tenant_conns ours(2)
    by (rule task_write_mono [OF fail_run_write]) (simp add: route_status_def internal_fault_def route_for_def)
  with ours(1) show ?thesis by blast
next
  case (login conn plain creds cls)
  have "?W conn"
    unfolding connect_tenant_conns login(6)
    by (rule task_write_mono [OF fail_run_write]) (simp add: route_status_def split: failure_route.splits)
  moreover have "base_of uid got reread conn" by (simp add: base_of_def login(1))
  ultimately show ?thesis by blast
next
  case (proven conn plain creds info)
  have "?W conn"
    unfolding connect_tenant_conns proven(8)
    by (rule task_write_mono [OF finish_write]) (use proven in \<open>auto simp: proves_def\<close>)
  moreover have "base_of uid got reread conn" by (simp add: base_of_def proven(1))
  ultimately show ?thesis by blast
qed

section \<open>What the tenant's status says afterwards\<close>

text \<open>The task works on the record as it stands in a store that answers.\<close>

definition current_read :: "connect_deps \<Rightarrow> string \<Rightarrow> fantrax_connection \<Rightarrow> connect_world \<Rightarrow> bool" where
  "current_read d uid conn w \<longleftrightarrow> versions_ok (cw_Conns w) \<and> get_connection (cw_Conns w) uid = Some conn \<and>
     fc_UserID conn = uid \<and> uid \<noteq> [] \<and> cd_WriteOK d"

abbreviation status_after :: "connect_deps \<Rightarrow> string \<Rightarrow> fantrax_connection \<Rightarrow> conn_read \<Rightarrow> connect_world \<Rightarrow> conn_status option" where
  "status_after d uid conn reread w \<equiv>
     record_status (cw_Conns (snd (connect_tenant d uid (Inr (Some conn)) reread w))) uid"

lemma task_write_status:
  assumes "task_write d conn P (cw_Conns w) t'" "current_read d uid conn w"
  shows "t' = cw_Conns w \<or> (\<exists>c. P c \<and> record_status t' uid = Some (fc_Status c))"
  using assms status_after_own_put [of "cw_Conns w" uid conn] unfolding task_write_def current_read_def by force

lemma current_status: "current_read d uid conn w \<Longrightarrow> record_status (cw_Conns w) uid = Some (fc_Status conn)"
  by (simp add: current_read_def record_status_def)

lemma finish_verifies:
  assumes "cd_Teams d = Inr owned" "fc_TeamID conn \<noteq> []" "fc_TeamID conn \<in> set owned"
    and "cd_Claim d uid (fc_TeamID conn) = Claim_ok" "cd_Seal d uid proof = Inr sealed" "sealed \<noteq> []"
    and "current_read d uid conn w"
  shows "record_status (cw_Conns (snd (finish d uid conn proof info w))) uid = Some Conn_verified"
proof -
  define c where "c = conn\<lparr>fc_TeamID := fc_TeamID conn, fc_FXRM := sealed, fc_FantraxUserID := ui_UserID info,
     fc_FantraxEmail := ui_Email info, fc_Status := Conn_verified, fc_LastError := None, fc_LastVerifiedAt := cd_Now d\<rparr>"
  have "snd (finish d uid conn proof info w) = snd (record_verdict d Verdict_verified c w)"
    using assms by (auto simp: finish_def prove_team_def mark_verified_def c_def split: prod.splits option.splits)
  then show ?thesis
    using assms(7) status_after_own_put [of "cw_Conns w" uid conn "stamp_run d Verdict_verified c" "cd_Now d"]
    by (simp add: record_verdict_conns current_read_def c_def)
qed

lemma connect_task_proven:
  assumes "fc_Creds conn \<noteq> []" "cd_Open d uid (fc_Creds conn) = Inr plain" "cd_Parse d plain = Inr creds"
    and "ev_FXRM (cd_Login d creds) \<noteq> []" "ev_Info (cd_Login d creds) = Some info" "ui_UserID info \<noteq> []"
  shows "connect_task d uid (Inr (Some conn)) reread w = finish d uid conn (ev_FXRM (cd_Login d creds)) info w"
proof -
  have "lv_Class (snd (classify_login (cd_Login d creds))) = None" using assms(4-6) by (simp add: classify_success)
  then show ?thesis using assms by (simp add: connect_task_def Let_def case_prod_beta' classify_success_proof)
qed

lemma connect_verifies_aux:
  assumes "current_read d uid conn w" "fc_Status conn \<noteq> Conn_verified"
  shows "status_after d uid conn reread w = Some Conn_verified \<longleftrightarrow> (\<exists>sealed. proves d uid conn sealed)"
proof
  assume v: "status_after d uid conn reread w = Some Conn_verified"
  from connect_tenant_write [of d uid "Inr (Some conn)" reread w]
  show "\<exists>sealed. proves d uid conn sealed"
  proof
    assume "cw_Conns (snd (connect_tenant d uid (Inr (Some conn)) reread w)) = cw_Conns w"
    with v current_status [OF assms(1)] assms(2) show ?thesis by simp
  next
    assume "\<exists>base. base_of uid (Inr (Some conn)) reread base \<and> task_write d base (\<lambda>c. fc_TeamID c = fc_TeamID base \<and>
       (fc_Status c = Conn_verified \<longrightarrow> fc_Status base = Conn_verified \<or>
          Inr (Some conn) = Inr (Some base) \<and> proves d uid base (fc_FXRM c)))
     (cw_Conns w) (cw_Conns (snd (connect_tenant d uid (Inr (Some conn)) reread w)))"
    then have "task_write d conn (\<lambda>c. fc_Status c = Conn_verified \<longrightarrow>
        fc_Status conn = Conn_verified \<or> proves d uid conn (fc_FXRM c))
      (cw_Conns w) (cw_Conns (snd (connect_tenant d uid (Inr (Some conn)) reread w)))"
      by (auto simp: base_of_def intro: task_write_mono)
    from task_write_status [OF this assms(1)] v current_status [OF assms(1)] assms(2) show ?thesis by auto
  qed
next
  assume "\<exists>sealed. proves d uid conn sealed"
  then show "status_after d uid conn reread w = Some Conn_verified"
    unfolding connect_tenant_conns proves_def
    by (elim exE conjE) (simp add: connect_task_proven finish_verifies [OF _ _ _ _ _ _ assms(1)])
qed









section \<open>Properties\<close>

text \<open>Verified means proven. When the connect task has read the record as it stands and the store
  answers, it leaves the tenant verified exactly when the sealed credentials opened and parsed,
  Fantrax issued a session for an account, Fantrax itself listed the record's team among that
  account's teams, the claim on the team succeeded and the session could be sealed.\<close>

theorem connect_verifies_exactly:
  assumes "versions_ok (cw_Conns w)" "get_connection (cw_Conns w) uid = Some conn" "fc_UserID conn = uid" "uid \<noteq> []"
    and "cd_WriteOK d" "fc_Status conn \<noteq> Conn_verified"
  shows "record_status (cw_Conns (snd (connect_tenant d uid (Inr (Some conn)) reread w))) uid = Some Conn_verified \<longleftrightarrow>
    (\<exists>sealed. proves d uid conn sealed)"
  using assms by (intro connect_verifies_aux) (simp_all add: current_read_def)


text \<open>The witnesses: a pending tenant; a login that works, and one that finds the password wrong.\<close>

definition pending_connection :: fantrax_connection where
  "pending_connection = (bare_connection ''u1'')\<lparr>fc_TeamID := ''t1'', fc_Status := Conn_pending, fc_Creds := ''sealed'',
     fc_Version := V_num 1\<rparr>"

definition pending_world :: connect_world where
  "pending_world = \<lparr>cw_Conns = [''u1'' \<mapsto> \<lparr>ci_Conn = pending_connection\<lparr>fc_Version := V_none\<rparr>, ci_Ver = Some 1\<rparr>],
     cw_Feed = [], cw_Push = [], cw_Outcome = False, cw_Env = no_env\<rparr>"

definition demo_deps :: "(fantrax_creds \<Rightarrow> login_evidence) \<Rightarrow> connect_deps" where
  "demo_deps login = \<lparr>cd_Open = (\<lambda>_ c. Inr c), cd_Parse = (\<lambda>_. Inr \<lparr>cr_Username = ''me'', cr_Password = ''pw''\<rparr>),
     cd_Seal = (\<lambda>_ c. Inr c), cd_Login = login, cd_Teams = Inr [''t1'', ''t2''], cd_Claim = (\<lambda>_ _. Claim_ok),
     cd_Feed = Some True, cd_Push = True, cd_RunID = ''run'', cd_OutcomeFile = True, cd_Now = 9, cd_WriteOK = True\<rparr>"

definition good_login :: "fantrax_creds \<Rightarrow> login_evidence" where
  "good_login _ = fantrax_login (browser_evidence [(''FX_RM'', ''abc'')] None None)
     (Inr \<lparr>ui_UserID = ''fx1'', ui_Email = ''a@b''\<rparr>)"


lemma pending_read:
  "versions_ok (cw_Conns pending_world)" "get_connection (cw_Conns pending_world) ''u1'' = Some pending_connection"
  "fc_UserID pending_connection = ''u1''" "fc_Status pending_connection = Conn_pending" "cd_WriteOK (demo_deps login)"
  by (auto simp: versions_ok_def pending_world_def get_connection_def conn_version_of_def pending_connection_def
      bare_connection_def demo_deps_def)

theorem connect_verifies_exactly_witness:
  "record_status (cw_Conns (snd (connect_tenant (demo_deps good_login) ''u1'' (Inr (Some pending_connection)) (Inr None)
     pending_world))) ''u1'' = Some Conn_verified"
proof -
  have "proves (demo_deps good_login) ''u1'' pending_connection ''abc''"
    by (simp add: proves_def demo_deps_def good_login_def fantrax_login_def browser_evidence_def empty_evidence_def
        pending_connection_def bare_connection_def)
  then show ?thesis
    using connect_verifies_exactly [OF pending_read(1,2,3) _ pending_read(5), of good_login "Inr None"] pending_read(4)
    by (simp; blast)
qed


end
