(* ===== verification/Session_Ladder.thy ===== *)
theory Session_Ladder
  imports Connect_Flow
begin

text \<open>
  A tenant's scheduled run: whose credentials it gets (\<open>cmd/credmode.go\<close>, \<open>cmd/tenantcreds.go\<close>,
  \<open>internal/lineupapi/rungrant.go\<close>) and what happens when the session has expired
  (\<open>cmd/session_ladder.go\<close>). Probe, browser, KMS and JSON are parameters. The lemmas: a refused run
  holds nobody's credentials, an authorized one only the tenant's own; a login is attempted only
  on Fantrax's own "not logged in"; one rejected login per break, then none until a reconnect.
\<close>

section \<open>Whose credentials\<close>

datatype credential_mode = Creds_from_env | Creds_from_tenant

text \<open>\<open>None\<close> is the error: a user directory and no tenant.\<close>

definition resolve_credential_mode :: "string \<Rightarrow> string \<Rightarrow> credential_mode option" where
  "resolve_credential_mode identityTable tenant =
     (if identityTable = [] then Some Creds_from_env
      else if tenant = [] then None
      else Some Creds_from_tenant)"

record run_config =
  rf_Username :: string
  rf_Password :: string
  rf_TeamID :: string
  rf_AutoApply :: bool
  rf_HitterProjection :: string
  rf_PitcherProjection :: string

text \<open>An unset variable reads as the empty string.\<close>

definition set_fantrax_env :: "string \<Rightarrow> string \<Rightarrow> string \<Rightarrow> fantrax_env" where
  "set_fantrax_env u p c = \<lparr>fe_User = u, fe_Pass = p, fe_Cookie = c\<rparr>"

definition fantrax_cookie_header :: "string \<Rightarrow> string" where
  "fantrax_cookie_header fxrm =
     (if fxrm = [] then []
      else if length fxrm \<ge> 2 \<and> hd fxrm = CHR 0x22 \<and> last fxrm = CHR 0x22
      then ''FX_RM='' @ butlast (tl fxrm)
      else ''FX_RM='' @ fxrm)"

datatype run_error = RE_read | RE_denied run_denied | RE_open | RE_malformed | RE_empty_creds |
  RE_no_connection | RE_conflict conn_err | RE_unrecorded conn_err | RE_blocked conn_err |
  RE_reached conn_err | RE_reconnect conn_err | RE_mode | RE_wiring

record kms_deps =
  kd_Open :: "string \<Rightarrow> string \<Rightarrow> string + string"
  kd_Parse :: "string \<Rightarrow> string + fantrax_creds"

definition apply_tenant_credentials ::
  "kms_deps \<Rightarrow> run_config \<Rightarrow> string \<Rightarrow> conn_read \<Rightarrow> run_error option \<times> run_config \<times> fantrax_env" where
  "apply_tenant_credentials k cfg uid got =
     (let cfg0 = cfg\<lparr>rf_Username := [], rf_Password := [], rf_TeamID := []\<rparr>;
          env0 = set_fantrax_env [] [] [] in
      case got of
        Inl _ \<Rightarrow> (Some RE_read, cfg0, env0)
      | Inr conn \<Rightarrow>
         (case authorize_run uid conn of
            Inl reason \<Rightarrow> (Some (RE_denied reason), cfg0, env0)
          | Inr grant \<Rightarrow>
             (case kd_Open k uid (rg_Creds grant) of
                Inl _ \<Rightarrow> (Some RE_open, cfg0, env0)
              | Inr plain \<Rightarrow>
                 (case kd_Parse k plain of
                    Inl _ \<Rightarrow> (Some RE_malformed, cfg0, env0)
                  | Inr creds \<Rightarrow>
                     if cr_Username creds = [] \<or> cr_Password creds = [] then (Some RE_empty_creds, cfg0, env0)
                     else (let session = (case kd_Open k uid (rg_FXRM grant) of Inl _ \<Rightarrow> [] | Inr s \<Rightarrow> s) in
                       (None,
                        cfg0\<lparr>rf_Username := cr_Username creds, rf_Password := cr_Password creds,
                             rf_TeamID := rg_TeamID grant\<rparr>,
                        set_fantrax_env (cr_Username creds) (cr_Password creds) (fantrax_cookie_header session)))))))"

definition tenant_run_config ::
  "kms_deps \<Rightarrow> run_config \<Rightarrow> string \<Rightarrow> conn_read \<Rightarrow> string + user option \<Rightarrow>
   run_error option \<times> run_config \<times> fantrax_env" where
  "tenant_run_config k cfg uid got profile =
     (case apply_tenant_credentials k cfg uid got of
        (Some e, cfg1, env) \<Rightarrow> (Some e, cfg1, env)
      | (None, cfg1, env) \<Rightarrow>
         (let cfg2 = cfg1\<lparr>rf_AutoApply := False, rf_HitterProjection := [], rf_PitcherProjection := []\<rparr> in
          (None,
           (case profile of
              Inl _ \<Rightarrow> cfg2
            | Inr None \<Rightarrow> cfg2
            | Inr (Some u) \<Rightarrow> cfg2\<lparr>rf_AutoApply := us_AutoApply u, rf_HitterProjection := us_HitterProjection u,
                rf_PitcherProjection := us_PitcherProjection u\<rparr>),
           env)))"

section \<open>The ladder\<close>

datatype session_state = Session_live | Session_expired | Session_unknown

definition not_logged_in_code :: string where
  "not_logged_in_code = ''WARNING_NOT_LOGGED_IN''"

definition classify_session_probe :: "string option \<Rightarrow> session_state" where
  "classify_session_probe err =
     (case err of
        None \<Rightarrow> Session_live
      | Some e \<Rightarrow> if str_contains e not_logged_in_code then Session_expired else Session_unknown)"

text \<open>\<open>ld_Feed\<close> is the feed \<open>tenantFeed\<close> resolves to; \<open>ld_Wired\<close>: probe and minter are there.\<close>

record ladder =
  ld_Wired :: bool
  ld_Probe :: "string option"
  ld_Mint :: "fantrax_creds \<Rightarrow> login_evidence"
  ld_Seal :: "string \<Rightarrow> string \<Rightarrow> string + string"
  ld_Feed :: "bool option"
  ld_Now :: go_time
  ld_WriteOK :: bool

definition stop ::
  "ladder \<Rightarrow> string \<Rightarrow> fantrax_connection \<Rightarrow> conn_err \<Rightarrow> failure_route \<Rightarrow> connect_world \<Rightarrow> run_error \<times> connect_world" where
  "stop l uid conn cls route w =
     (let c1 = conn\<lparr>fc_LastError := Some cls\<rparr>;
          c2 = (if route = Route_tenant then c1\<lparr>fc_Status := Conn_needs_reconnect\<rparr> else c1);
          (r, t) = put_connection (ld_Now l) (ld_WriteOK l) c2 (cw_Conns w);
          w1 = w\<lparr>cw_Conns := t, cw_Env := set_fantrax_env [] [] []\<rparr>
      in if r = Inl Conn_conflict then (RE_conflict cls, w1)
         else (let w2 = (if route = Route_tenant then record_tenant_connect_failure (ld_Feed l) uid cls w1 else w1) in
           case r of
             Inl _ \<Rightarrow> (RE_unrecorded cls, w2)
           | Inr _ \<Rightarrow>
              (case route of
                 Route_operator \<Rightarrow> (RE_blocked cls, w2)
               | Route_internal \<Rightarrow> (RE_blocked cls, w2)
               | Route_post_auth \<Rightarrow> (RE_reached cls, w2)
               | Route_tenant \<Rightarrow> (RE_reconnect cls, w2))))"

text \<open>Besides the error and the world: the verdict of the login it made, if it made one.\<close>

definition refresh ::
  "ladder \<Rightarrow> string \<Rightarrow> run_config \<Rightarrow> conn_read \<Rightarrow> connect_world \<Rightarrow>
   run_error option \<times> login_verdict option \<times> connect_world" where
  "refresh l uid cfg got w =
     (if \<not> ld_Wired l then (None, None, w)
      else (case classify_session_probe (ld_Probe l) of
        Session_live \<Rightarrow> (None, None, w)
      | Session_unknown \<Rightarrow> (None, None, w)
      | Session_expired \<Rightarrow>
         (case got of
            Inl _ \<Rightarrow> (Some RE_read, None, w)
          | Inr None \<Rightarrow> (Some RE_no_connection, None, w)
          | Inr (Some conn) \<Rightarrow>
             (let w1 = w\<lparr>cw_Env := (cw_Env w)\<lparr>fe_Cookie := []\<rparr>\<rparr>;
                  ev = ld_Mint l \<lparr>cr_Username = rf_Username cfg, cr_Password = rf_Password cfg\<rparr>;
                  v = snd (classify_login ev);
                  env = set_fantrax_env (rf_Username cfg) (rf_Password cfg) (fantrax_cookie_header (ev_FXRM ev)) in
              case lv_Class v of
                Some cls \<Rightarrow>
                  (let (e, w2) = stop l uid conn cls (lv_Route v) w1 in (Some e, Some v, w2))
              | None \<Rightarrow>
                 (case ld_Seal l uid (ev_FXRM ev) of
                    Inl _ \<Rightarrow> (None, Some v, w1\<lparr>cw_Env := env\<rparr>)
                  | Inr sealed \<Rightarrow>
                     (let (_, t) = put_connection (ld_Now l) (ld_WriteOK l)
                            (conn\<lparr>fc_FXRM := sealed, fc_LastError := None\<rparr>) (cw_Conns w1)
                      in (None, Some v, w1\<lparr>cw_Conns := t, cw_Env := env\<rparr>)))))))"

section \<open>One run\<close>

record tenant_run =
  tr_Table :: string
  tr_Tenant :: string
  tr_StoreOK :: bool
  tr_OpenerOK :: bool
  tr_SealerOK :: bool
  tr_Kms :: kms_deps
  tr_Profile :: "string + user option"
  tr_ReadOK :: bool
  tr_RereadOK :: bool
  tr_Ladder :: ladder

definition read_connection :: "bool \<Rightarrow> conn_table \<Rightarrow> string \<Rightarrow> conn_read" where
  "read_connection okay t uid = (if okay then Inr (get_connection t uid) else Inl ''store'')"

definition resolve_tenant_credentials ::
  "tenant_run \<Rightarrow> run_config \<Rightarrow> connect_world \<Rightarrow>
   run_error option \<times> login_verdict option \<times> run_config \<times> connect_world" where
  "resolve_tenant_credentials r cfg w =
     (case resolve_credential_mode (tr_Table r) (tr_Tenant r) of
        None \<Rightarrow> (Some RE_mode, None, cfg, w)
      | Some Creds_from_env \<Rightarrow> (None, None, cfg, w)
      | Some Creds_from_tenant \<Rightarrow>
         if \<not> tr_StoreOK r \<or> \<not> tr_OpenerOK r then (Some RE_wiring, None, cfg, w)
         else (case tenant_run_config (tr_Kms r) cfg (tr_Tenant r)
                 (read_connection (tr_ReadOK r) (cw_Conns w) (tr_Tenant r)) (tr_Profile r) of
             (Some e, cfg1, env) \<Rightarrow> (Some e, None, cfg1, w\<lparr>cw_Env := env\<rparr>)
           | (None, cfg1, env) \<Rightarrow>
              if \<not> tr_SealerOK r then (Some RE_wiring, None, cfg1, w\<lparr>cw_Env := env\<rparr>)
              else (let w1 = w\<lparr>cw_Env := env\<rparr>;
                        (e, v, w2) = refresh (tr_Ladder r) (tr_Tenant r) cfg1
                          (read_connection (tr_RereadOK r) (cw_Conns w1) (tr_Tenant r)) w1
                    in (e, v, cfg1, w2))))"

section \<open>Lemmas\<close>

lemma authorize_grants:
  "authorize_run uid c = Inr g \<longleftrightarrow>
     (\<exists>conn. c = Some conn \<and> fc_UserID conn = uid \<and> fc_Status conn = Conn_verified \<and> fc_FXRM conn \<noteq> [] \<and>
        fc_Creds conn \<noteq> [] \<and> fc_TeamID conn \<noteq> [] \<and>
        g = \<lparr>rg_UserID = uid, rg_TeamID = fc_TeamID conn, rg_FXRM = fc_FXRM conn, rg_Creds = fc_Creds conn\<rparr>)"
  by (auto simp: authorize_run_def split: option.splits)

lemma apply_fails:
  assumes "apply_tenant_credentials k cfg uid got = (Some e, cfg1, env)"
  shows "rf_Username cfg1 = [] \<and> rf_Password cfg1 = [] \<and> rf_TeamID cfg1 = [] \<and> env = no_env"
  using assms
  by (auto simp: apply_tenant_credentials_def Let_def set_fantrax_env_def no_env_def split: sum.splits if_splits)

lemma apply_succeeds:
  assumes "apply_tenant_credentials k cfg uid got = (None, cfg1, env)"
  shows "\<exists>conn plain creds. got = Inr (Some conn) \<and> fc_UserID conn = uid \<and> fc_Status conn = Conn_verified \<and>
      kd_Open k uid (fc_Creds conn) = Inr plain \<and> kd_Parse k plain = Inr creds \<and>
      rf_Username cfg1 = cr_Username creds \<and> rf_Password cfg1 = cr_Password creds \<and>
      rf_TeamID cfg1 = fc_TeamID conn \<and> rf_TeamID cfg1 \<noteq> [] \<and>
      fe_User env = cr_Username creds \<and> fe_Pass env = cr_Password creds"
  using assms
  by (auto simp: apply_tenant_credentials_def Let_def set_fantrax_env_def authorize_grants
      split: sum.splits if_splits)

text \<open>A run of a tenant whose record is not verified does nothing but clear the credentials.\<close>

definition idle_run :: "connect_world \<Rightarrow> connect_world \<Rightarrow> bool" where
  "idle_run w w' \<longleftrightarrow> cw_Conns w' = cw_Conns w \<and> cw_Feed w' = cw_Feed w"

lemma idle_run_refl [simp]: "idle_run w w" "idle_run w (w\<lparr>cw_Env := e\<rparr>)"
  by (simp_all add: idle_run_def)

text \<open>The three ways a run can go: no login, a login that the tenant's credentials are not to
  blame for, and a rejected one.\<close>

definition rejected :: "login_verdict \<Rightarrow> bool" where
  "rejected v \<longleftrightarrow> lv_Class v \<noteq> None \<and> lv_Route v = Route_tenant"

lemma refresh_no_login:
  "refresh l uid cfg got w = (e, None, w') \<Longrightarrow> idle_run w w'"
  by (auto simp: refresh_def Let_def split: session_state.splits sum.splits option.splits prod.splits if_splits)

lemma refresh_login:
  assumes "refresh l uid cfg got w = (e, Some v, w')"
  shows "\<exists>conn c r t. got = Inr (Some conn) \<and> classify_session_probe (ld_Probe l) = Session_expired \<and>
      fc_UserID c = fc_UserID conn \<and> fc_Version c = fc_Version conn \<and> fc_Creds c = fc_Creds conn \<and>
      fc_TeamID c = fc_TeamID conn \<and>
      fc_Status c = (if rejected v then Conn_needs_reconnect else fc_Status conn) \<and>
      ((lv_Class v = None \<and> w' = w\<lparr>cw_Env := cw_Env w'\<rparr>) \<or>
       (put_connection (ld_Now l) (ld_WriteOK l) c (cw_Conns w) = (r, t) \<and> cw_Conns w' = t \<and>
        (if rejected v then (r = Inl Conn_conflict \<longrightarrow> cw_Feed w' = cw_Feed w) \<and>
           (cw_Feed w' = cw_Feed w \<or> (\<exists>x. cw_Feed w' = cw_Feed w @ [(uid, x)]))
         else cw_Feed w' = cw_Feed w)))"
proof (cases got)
  case (Inr c0)
  then obtain conn where g: "got = Inr (Some conn)" and p: "classify_session_probe (ld_Probe l) = Session_expired"
    using assms by (cases c0) (auto simp: refresh_def split: session_state.splits if_splits)
  show ?thesis
  proof (cases "lv_Class v")
    case None
    then show ?thesis
      using assms g p
      by (intro exI [of _ conn] exI [of _ "conn\<lparr>fc_FXRM := projr (ld_Seal l uid (ev_FXRM (ld_Mint l
            \<lparr>cr_Username = rf_Username cfg, cr_Password = rf_Password cfg\<rparr>))), fc_LastError := None\<rparr>"])
         (auto simp: refresh_def rejected_def Let_def split: if_splits option.splits sum.splits prod.splits)
  next
    case (Some cls)
    then show ?thesis
      using assms g p
      by (intro exI [of _ conn] exI [of _ "(let c1 = conn\<lparr>fc_LastError := Some cls\<rparr> in
            if lv_Route v = Route_tenant then c1\<lparr>fc_Status := Conn_needs_reconnect\<rparr> else c1)"])
         (auto simp: refresh_def stop_def rejected_def record_tenant_connect_failure_def Let_def
            split: if_splits option.splits sum.splits prod.splits failure_route.splits)
  qed
qed (use assms in \<open>auto simp: refresh_def split: session_state.splits if_splits\<close>)

lemma refresh_versions: "versions_ok (cw_Conns w) \<Longrightarrow> refresh l uid cfg got w = (e, v, w') \<Longrightarrow> versions_ok (cw_Conns w')"
proof (cases v)
  case None
  assume "versions_ok (cw_Conns w)" "refresh l uid cfg got w = (e, v, w')"
  with None refresh_no_login [of l uid cfg got w e w'] show ?thesis by (simp add: idle_run_def)
next
  case (Some x)
  assume v: "versions_ok (cw_Conns w)" and r: "refresh l uid cfg got w = (e, v, w')"
  from refresh_login [OF r [unfolded Some]] show ?thesis
    using v by (metis connect_world.select_convs(1) connect_world.surjective connect_world.update_convs(5)
      snd_conv versions_ok_put)
qed

text \<open>What a whole run that logs in has been through: authorized on this very record.\<close>

lemma resolve_login:
  assumes "resolve_tenant_credentials r cfg w = (e, Some v, cfg', w')"
  shows "\<exists>conn env. tr_Tenant r \<noteq> [] \<and> get_connection (cw_Conns w) (tr_Tenant r) = Some conn \<and>
      fc_UserID conn = tr_Tenant r \<and> fc_Status conn = Conn_verified \<and>
      refresh (tr_Ladder r) (tr_Tenant r) cfg' (Inr (Some conn)) (w\<lparr>cw_Env := env\<rparr>) = (e, Some v, w')"
proof -
  have m: "resolve_credential_mode (tr_Table r) (tr_Tenant r) = Some Creds_from_tenant"
    and c: "tr_StoreOK r" "tr_OpenerOK r"
    using assms by (auto simp: resolve_tenant_credentials_def split: option.splits credential_mode.splits if_splits prod.splits)
  obtain e1 cfg1 env where t: "tenant_run_config (tr_Kms r) cfg (tr_Tenant r)
      (read_connection (tr_ReadOK r) (cw_Conns w) (tr_Tenant r)) (tr_Profile r) = (e1, cfg1, env)"
    by (metis prod_cases3)
  have e1: "e1 = None"
    using assms m c t by (auto simp: resolve_tenant_credentials_def split: option.splits)
  have f: "cfg' = cfg1 \<and> refresh (tr_Ladder r) (tr_Tenant r) cfg1
      (read_connection (tr_RereadOK r) (cw_Conns w) (tr_Tenant r)) (w\<lparr>cw_Env := env\<rparr>) = (e, Some v, w')"
    using assms m c t e1 by (auto simp: resolve_tenant_credentials_def Let_def split: if_splits prod.splits)
  obtain cfg0 where "apply_tenant_credentials (tr_Kms r) cfg (tr_Tenant r)
      (read_connection (tr_ReadOK r) (cw_Conns w) (tr_Tenant r)) = (None, cfg0, env)"
    using t e1 by (auto simp: tenant_run_config_def Let_def split: prod.splits option.splits)
  from apply_succeeds [OF this] obtain conn where conn:
    "get_connection (cw_Conns w) (tr_Tenant r) = Some conn" "fc_UserID conn = tr_Tenant r" "fc_Status conn = Conn_verified"
    by (auto simp: read_connection_def split: if_splits)
  moreover have "tr_RereadOK r"
  proof (rule ccontr)
    assume "\<not> tr_RereadOK r"
    then show False
      using refresh_login [OF conjunct2 [OF f]] by (auto simp: read_connection_def)
  qed
  ultimately show ?thesis
    using f m by (auto simp: read_connection_def resolve_credential_mode_def split: if_splits)
qed

lemma resolve_no_login:
  "resolve_tenant_credentials r cfg w = (e, None, cfg', w') \<Longrightarrow> idle_run w w'"
  by (auto simp: resolve_tenant_credentials_def Let_def idle_run_def
      dest!: refresh_no_login split: option.splits credential_mode.splits if_splits prod.splits)

lemma run_effect:
  assumes "resolve_tenant_credentials r cfg w = (e, v, cfg', w')" "versions_ok (cw_Conns w)" "ld_WriteOK (tr_Ladder r)"
  shows "versions_ok (cw_Conns w') \<and>
    (case v of
       None \<Rightarrow> idle_run w w'
     | Some x \<Rightarrow> record_status (cw_Conns w) (tr_Tenant r) = Some Conn_verified \<and>
         classify_session_probe (ld_Probe (tr_Ladder r)) = Session_expired \<and>
         (if rejected x
          then record_status (cw_Conns w') (tr_Tenant r) = Some Conn_needs_reconnect \<and>
            length (cw_Feed w') \<le> Suc (length (cw_Feed w))
          else cw_Feed w' = cw_Feed w))"
proof (cases v)
  case None
  with resolve_no_login [of r cfg w e cfg' w'] assms show ?thesis by (simp add: idle_run_def)
next
  case (Some x)
  from resolve_login [OF assms(1) [unfolded Some]] obtain conn env where
    c: "tr_Tenant r \<noteq> []" "get_connection (cw_Conns w) (tr_Tenant r) = Some conn" "fc_UserID conn = tr_Tenant r"
      "fc_Status conn = Conn_verified"
    and rf: "refresh (tr_Ladder r) (tr_Tenant r) cfg' (Inr (Some conn)) (w\<lparr>cw_Env := env\<rparr>) = (e, Some x, w')" by blast
  have v: "versions_ok (cw_Conns w')" using refresh_versions [OF _ rf] assms(2) by simp
  from refresh_login [OF rf] obtain c1 rr t where l:
    "classify_session_probe (ld_Probe (tr_Ladder r)) = Session_expired"
    "fc_UserID c1 = tr_Tenant r" "fc_Version c1 = fc_Version conn"
    "fc_Status c1 = (if rejected x then Conn_needs_reconnect else fc_Status conn)"
    "(lv_Class x = None \<and> w' = w\<lparr>cw_Env := cw_Env w'\<rparr>) \<or>
     (put_connection (ld_Now (tr_Ladder r)) True c1 (cw_Conns w) = (rr, t) \<and> cw_Conns w' = t \<and>
      (if rejected x then (cw_Feed w' = cw_Feed w \<or> (\<exists>y. cw_Feed w' = cw_Feed w @ [(tr_Tenant r, y)]))
       else cw_Feed w' = cw_Feed w))"
    using c(3) assms(3) by (auto split: if_splits)
  show ?thesis
  proof (cases "rejected x")
    case True
    then have "lv_Class x \<noteq> None" by (simp add: rejected_def)
    with l(5) True have p: "put_connection (ld_Now (tr_Ladder r)) True c1 (cw_Conns w) = (rr, t)" "cw_Conns w' = t"
      "length (cw_Feed w') \<le> Suc (length (cw_Feed w))" by auto
    obtain c' where "rr = Inr c'"
      using put_after_read [of "cw_Conns w" c1 conn "ld_Now (tr_Ladder r)"] assms(2) c l p by auto
    with status_after_put p l(2,4) True have "record_status (cw_Conns w') (tr_Tenant r) = Some Conn_needs_reconnect"
      by metis
    with True Some v c l(1) p show ?thesis by (simp add: record_status_def)
  next
    case False
    have "cw_Feed w' = cw_Feed w"
      using l(5) False by (metis connect_world.ext_inject connect_world.surjective connect_world.update_convs(5))
    with False Some v c l(1) show ?thesis by (simp add: record_status_def)
  qed
qed

section \<open>Scheduled runs\<close>

text \<open>A tenant's runs one after the other, each in a fresh process; the logins they make.\<close>

fun scheduled :: "tenant_run list \<Rightarrow> run_config \<Rightarrow> connect_world \<Rightarrow> login_verdict list \<times> connect_world" where
  "scheduled [] cfg w = ([], w)"
| "scheduled (r # rs) cfg w =
     (let (_, v, _, w1) = resolve_tenant_credentials r cfg w;
          (vs, w2) = scheduled rs cfg w1
      in (case v of None \<Rightarrow> vs | Some x \<Rightarrow> x # vs, w2))"

lemma no_login_unless_verified:
  assumes "record_status (cw_Conns w) u \<noteq> Some Conn_verified" "\<forall>r \<in> set rs. tr_Tenant r = u \<and> ld_WriteOK (tr_Ladder r)"
    and "versions_ok (cw_Conns w)"
  shows "fst (scheduled rs cfg w) = [] \<and> idle_run w (snd (scheduled rs cfg w))"
  using assms
proof (induction rs arbitrary: w)
  case (Cons r rs)
  obtain e v c w1 where s: "resolve_tenant_credentials r cfg w = (e, v, c, w1)" by (metis prod_cases4)
  from run_effect [OF s] Cons.prems have v: "v = None" "idle_run w w1" by (auto split: option.splits)
  with Cons.prems Cons.IH [of w1] have "fst (scheduled rs cfg w1) = [] \<and> idle_run w1 (snd (scheduled rs cfg w1))"
    by (simp add: idle_run_def)
  with s v show ?case by (auto simp: idle_run_def split: prod.splits)
qed simp

lemma one_rejection:
  assumes "\<forall>r \<in> set rs. tr_Tenant r = u \<and> ld_WriteOK (tr_Ladder r)" "versions_ok (cw_Conns w)"
  shows "list_all (\<lambda>v. \<not> rejected v) (butlast (fst (scheduled rs cfg w))) \<and>
    length (cw_Feed (snd (scheduled rs cfg w))) \<le> Suc (length (cw_Feed w))"
  using assms
proof (induction rs arbitrary: w)
  case (Cons r rs)
  obtain e v c w1 where s: "resolve_tenant_credentials r cfg w = (e, v, c, w1)" by (metis prod_cases4)
  note eff = run_effect [OF s]
  show ?case
  proof (cases "\<exists>x. v = Some x \<and> rejected x")
    case True
    then obtain x where x: "v = Some x" "rejected x" by auto
    with eff Cons.prems have "record_status (cw_Conns w1) u \<noteq> Some Conn_verified" "versions_ok (cw_Conns w1)"
      "length (cw_Feed w1) \<le> Suc (length (cw_Feed w))" by auto
    with no_login_unless_verified [of w1 u rs cfg] Cons.prems s x show ?thesis
      by (auto simp: idle_run_def split: prod.splits)
  next
    case False
    with eff Cons.prems have f: "cw_Feed w1 = cw_Feed w" "versions_ok (cw_Conns w1)"
      by (auto simp: idle_run_def split: option.splits if_splits)
    with Cons.IH [of w1] Cons.prems s False show ?thesis
      by (auto split: prod.splits option.splits)
  qed
qed simp

section \<open>Properties\<close>

text \<open>C17. A run never acts as somebody else. When \<open>tenantRunConfig\<close> refuses, the configuration and
  the environment hold no credentials and no team at all, whatever the deployment had put there;
  when it grants, the tenant's own record is verified, the credentials are the ones sealed in it,
  the team is its proven team, and lineups are applied only if the profile was read and says so.\<close>

theorem run_holds_own_or_nothing:
  "case tenant_run_config k cfg uid got profile of
     (Some e, cfg', env) \<Rightarrow> rf_Username cfg' = [] \<and> rf_Password cfg' = [] \<and> rf_TeamID cfg' = [] \<and> env = no_env
   | (None, cfg', env) \<Rightarrow>
      (\<exists>conn plain creds. got = Inr (Some conn) \<and> fc_UserID conn = uid \<and> fc_Status conn = Conn_verified \<and>
         kd_Open k uid (fc_Creds conn) = Inr plain \<and> kd_Parse k plain = Inr creds \<and>
         rf_Username cfg' = cr_Username creds \<and> rf_Password cfg' = cr_Password creds \<and>
         rf_TeamID cfg' = fc_TeamID conn \<and> rf_TeamID cfg' \<noteq> [] \<and>
         fe_User env = cr_Username creds \<and> fe_Pass env = cr_Password creds) \<and>
      rf_AutoApply cfg' = (case profile of Inr (Some u) \<Rightarrow> us_AutoApply u | _ \<Rightarrow> False)"
proof -
  obtain e cfg1 env where a: "apply_tenant_credentials k cfg uid got = (e, cfg1, env)" by (metis prod_cases3)
  show ?thesis
  proof (cases e)
    case None
    from apply_succeeds [OF a [unfolded None]] show ?thesis
      using a None by (auto simp: tenant_run_config_def Let_def split: sum.split option.split)
  next
    case (Some x)
    from apply_fails [OF a [unfolded Some]] show ?thesis
      using a Some by (simp add: tenant_run_config_def)
  qed
qed

text \<open>A login is only made on Fantrax's own word. A scheduled run drives a fresh login only when
  the probe's error carries Fantrax's "not logged in" code and the tenant's record is verified;
  an outage, a timeout or any other error never does.\<close>

theorem login_only_when_logged_out:
  assumes "resolve_tenant_credentials r cfg w = (e, Some v, cfg', w')"
  shows "\<exists>err. ld_Probe (tr_Ladder r) = Some err \<and> str_contains err not_logged_in_code \<and>
    record_status (cw_Conns w) (tr_Tenant r) = Some Conn_verified"
  using resolve_login [OF assms] refresh_login
  by (fastforce simp: classify_session_probe_def record_status_def split: option.splits if_splits)

text \<open>C16. One rejected login per break. Over any scheduled runs of a tenant with no reconnect in
  between and a store that takes the writes, whatever the probes and the logins answer, at most
  the last login made is one the tenant's credentials are blamed for, and the tenant is told at
  most once: a rejected login stops every later one. No counter and no timer is involved.\<close>

theorem one_rejected_login_per_break:
  assumes "\<forall>r \<in> set rs. tr_Tenant r = u \<and> ld_WriteOK (tr_Ladder r)" "versions_ok (cw_Conns w)"
  shows "list_all (\<lambda>v. \<not> rejected v) (butlast (fst (scheduled rs cfg w))) \<and>
    length (cw_Feed (snd (scheduled rs cfg w))) \<le> Suc (length (cw_Feed w))"
  using one_rejection [OF assms] .

text \<open>The witnesses: a verified tenant whose session has expired and whose password was changed.\<close>

definition demo_connection :: fantrax_connection where
  "demo_connection = (bare_connection ''u1'')\<lparr>fc_TeamID := ''t1'', fc_Status := Conn_verified,
     fc_Creds := ''sealed'', fc_FXRM := ''cookie''\<rparr>"

definition demo_world :: connect_world where
  "demo_world = \<lparr>cw_Conns = [''u1'' \<mapsto> \<lparr>ci_Conn = demo_connection, ci_Ver = Some 4\<rparr>], cw_Feed = [], cw_Push = [],
     cw_Outcome = False, cw_Env = no_env\<rparr>"

definition demo_run :: tenant_run where
  "demo_run = \<lparr>tr_Table = ''identity'', tr_Tenant = ''u1'', tr_StoreOK = True, tr_OpenerOK = True,
     tr_SealerOK = True,
     tr_Kms = \<lparr>kd_Open = (\<lambda>_ c. Inr c), kd_Parse = (\<lambda>_. Inr \<lparr>cr_Username = ''me'', cr_Password = ''old''\<rparr>)\<rparr>,
     tr_Profile = Inr None, tr_ReadOK = True, tr_RereadOK = True,
     tr_Ladder = \<lparr>ld_Wired = True, ld_Probe = Some ''WARNING_NOT_LOGGED_IN'',
       ld_Mint = (\<lambda>_. empty_evidence\<lparr>ev_Matched := (\<lambda>m. m = ''login_form''), ev_Texts := (\<lambda>_. ''wrong password'')\<rparr>),
       ld_Seal = (\<lambda>_ c. Inr c), ld_Feed = Some True, ld_Now = 7, ld_WriteOK = True\<rparr>\<rparr>"

definition demo_config :: run_config where
  "demo_config = \<lparr>rf_Username = ''operator'', rf_Password = ''secret'', rf_TeamID = ''op'', rf_AutoApply = True,
     rf_HitterProjection = [], rf_PitcherProjection = []\<rparr>"

lemmas demo_run_simps = demo_run_def demo_world_def demo_config_def demo_connection_def bare_connection_def
  resolve_tenant_credentials_def resolve_credential_mode_def tenant_run_config_def apply_tenant_credentials_def
  authorize_run_def read_connection_def get_connection_def conn_version_of_def refresh_def stop_def
  classify_session_probe_def not_logged_in_code_def classify_login_def matches_any_def to_lower_def empty_evidence_def
  verdict_for_def route_for_def put_connection_def put_condition_def next_version_def conn_unversioned_def
  record_tenant_connect_failure_def set_fantrax_env_def fantrax_cookie_header_def record_status_def Let_def

lemma expired_run_logs_in:
  "\<exists>e cfg w. resolve_tenant_credentials demo_run demo_config demo_world = (e, Some (verdict_for Bad_credentials), cfg, w)"
  by (simp add: demo_run_simps cloudflare_titles_def)

theorem login_only_when_logged_out_witness:
  "\<exists>err. ld_Probe (tr_Ladder demo_run) = Some err \<and> str_contains err not_logged_in_code \<and>
    record_status (cw_Conns demo_world) (tr_Tenant demo_run) = Some Conn_verified"
proof -
  obtain e cfg w where "resolve_tenant_credentials demo_run demo_config demo_world =
      (e, Some (verdict_for Bad_credentials), cfg, w)" using expired_run_logs_in by blast
  then show ?thesis by (rule login_only_when_logged_out)
qed

theorem one_rejected_login_per_break_witness:
  "fst (scheduled [demo_run, demo_run] demo_config demo_world) = [verdict_for Bad_credentials] \<and>
   cw_Feed (snd (scheduled [demo_run, demo_run] demo_config demo_world)) = [(''u1'', Bad_credentials)] \<and>
   length (cw_Feed (snd (scheduled [demo_run, demo_run] demo_config demo_world))) \<le> Suc (length (cw_Feed demo_world))"
proof -
  have "\<forall>r \<in> set [demo_run, demo_run]. tr_Tenant r = ''u1'' \<and> ld_WriteOK (tr_Ladder r)"
    and "versions_ok (cw_Conns demo_world)"
    by (simp_all add: demo_run_def demo_world_def versions_ok_def)
  note b = one_rejected_login_per_break [OF this, of demo_config]
  have "fst (scheduled [demo_run, demo_run] demo_config demo_world) = [verdict_for Bad_credentials]"
    and "cw_Feed (snd (scheduled [demo_run, demo_run] demo_config demo_world)) = [(''u1'', Bad_credentials)]"
    by (simp_all add: demo_run_simps cloudflare_titles_def)
  with b show ?thesis by blast
qed

end
