(* ===== verification/Connection_Races.thy ===== *)
theory Connection_Races
  imports Session_Ladder
begin

text \<open>
  The three writers of a connection record at once: the API's handler, the connect task and the
  session ladder of every scheduled run. A state holds the table and, as history, every record
  somebody has read so far, the credentials last accepted from each tenant, and the triples
  (tenant, credentials, team) that a connect task has proven. Any writer may write on any record
  it ever read, however old. The lemmas: stale writes are refused, so the stored credentials are
  always the last accepted ones, and a verified record is one whose own credentials were proven.
\<close>

record conn_system =
  sy_Conns :: conn_table
  sy_Seen :: "fantrax_connection set"
  sy_Submitted :: "string \<Rightarrow> string"
  sy_Proved :: "(string \<times> string \<times> string) set"

definition start_system :: conn_system where
  "start_system = \<lparr>sy_Conns = Map.empty, sy_Seen = {}, sy_Submitted = (\<lambda>_. []), sy_Proved = {}\<rparr>"

text \<open>A read that a writer of \<open>uid\<close> may still hold.\<close>

definition held_read :: "conn_system \<Rightarrow> string \<Rightarrow> conn_read \<Rightarrow> bool" where
  "held_read s uid got \<longleftrightarrow>
     (case got of Inr (Some c) \<Rightarrow> c \<in> sy_Seen s \<and> fc_UserID c = uid | _ \<Rightarrow> True)"

definition submitted :: "conn_system \<Rightarrow> string \<Rightarrow> string \<Rightarrow> (conn_error + fantrax_connection) \<times> conn_table \<Rightarrow> conn_system" where
  "submitted s uid sealed p =
     (case p of
        (Inl _, t) \<Rightarrow> s\<lparr>sy_Conns := t\<rparr>
      | (Inr _, t) \<Rightarrow> s\<lparr>sy_Conns := t, sy_Submitted := (sy_Submitted s)(uid := sealed)\<rparr>)"

inductive conn_step :: "conn_system \<Rightarrow> conn_system \<Rightarrow> bool" where
  reads: "get_connection (sy_Conns s) uid = Some c \<Longrightarrow> conn_step s (s\<lparr>sy_Seen := insert c (sy_Seen s)\<rparr>)"
| submits: "held_read s uid (Inr cur) \<Longrightarrow>
    conn_step s (submitted s uid sealed
      (put_connection now ok (submit_record uid team sealed now cur) (sy_Conns s)))"
| concludes: "held_read s uid got \<Longrightarrow> held_read s uid reread \<Longrightarrow> cw_Conns w = sy_Conns s \<Longrightarrow>
    conn_step s (s\<lparr>sy_Conns := cw_Conns (snd (connect_tenant d uid got reread w)),
      sy_Proved := sy_Proved s \<union>
        {(uid, fc_Creds c, fc_TeamID c) | c. got = Inr (Some c) \<and> (\<exists>sealed. proves d uid c sealed)}\<rparr>)"
| refreshes: "held_read s uid got \<Longrightarrow> cw_Conns w = sy_Conns s \<Longrightarrow>
    conn_step s (s\<lparr>sy_Conns := cw_Conns (snd (snd (refresh l uid cfg got w)))\<rparr>)"

inductive conn_reachable :: "conn_system \<Rightarrow> bool" where
  start: "conn_reachable start_system"
| step: "conn_reachable s \<Longrightarrow> conn_step s s' \<Longrightarrow> conn_reachable s'"

section \<open>The invariant\<close>

definition record_ok :: "conn_system \<Rightarrow> fantrax_connection \<Rightarrow> bool" where
  "record_ok s c \<longleftrightarrow> fc_Status c = Conn_verified \<longrightarrow> (fc_UserID c, fc_Creds c, fc_TeamID c) \<in> sy_Proved s"

definition stored_ok :: "conn_system \<Rightarrow> bool" where
  "stored_ok s \<longleftrightarrow>
     (\<forall>u. case get_connection (sy_Conns s) u of
            None \<Rightarrow> sy_Submitted s u = []
          | Some c \<Rightarrow> fc_UserID c = u \<and> fc_Creds c = sy_Submitted s u \<and> record_ok s c)"

definition seen_ok :: "conn_system \<Rightarrow> bool" where
  "seen_ok s \<longleftrightarrow>
     (\<forall>c \<in> sy_Seen s. record_ok s c \<and> fc_Version c \<noteq> V_none \<and>
        (\<exists>c'. get_connection (sy_Conns s) (fc_UserID c) = Some c' \<and>
           (c' = c \<or> version_rank (fc_Version c) < version_rank (fc_Version c'))))"

definition races_ok :: "conn_system \<Rightarrow> bool" where
  "races_ok s \<longleftrightarrow> stored_ok s \<and> seen_ok s"

lemma stored_ok_None: "stored_ok s \<Longrightarrow> get_connection (sy_Conns s) u = None \<Longrightarrow> sy_Submitted s u = []"
  unfolding stored_ok_def by (drule spec [of _ u]) simp

lemma stored_ok_Some:
  "stored_ok s \<Longrightarrow> get_connection (sy_Conns s) u = Some c \<Longrightarrow>
     fc_UserID c = u \<and> fc_Creds c = sy_Submitted s u \<and> record_ok s c"
  unfolding stored_ok_def by (drule spec [of _ u]) simp

lemma stored_okI:
  "(\<And>u. get_connection (sy_Conns s) u = None \<Longrightarrow> sy_Submitted s u = []) \<Longrightarrow>
   (\<And>u c. get_connection (sy_Conns s) u = Some c \<Longrightarrow>
      fc_UserID c = u \<and> fc_Creds c = sy_Submitted s u \<and> record_ok s c) \<Longrightarrow> stored_ok s"
  unfolding stored_ok_def by (simp split: option.split)

text \<open>Writes keep what was seen in its place.\<close>

lemma seen_ok_put:
  assumes "seen_ok s" "t = snd (put_connection now ok c (sy_Conns s))"
  shows "seen_ok (s\<lparr>sy_Conns := t\<rparr>)"
proof -
  have w: "dynamo.writes (sy_Conns s) t"
    using dynamo.writes.attempt [OF dynamo.writes.nothing [of "sy_Conns s"], where e = "(now, ok)" and c = c] assms(2) by simp
  show ?thesis
    unfolding seen_ok_def
  proof (intro ballI)
    fix r assume "r \<in> sy_Seen (s\<lparr>sy_Conns := t\<rparr>)"
    then obtain c' where r: "record_ok s r" "fc_Version r \<noteq> V_none" and c': "get_connection (sy_Conns s) (fc_UserID r) = Some c'"
      "c' = r \<or> version_rank (fc_Version r) < version_rank (fc_Version c')"
      using assms(1) by (auto simp: seen_ok_def)
    from dynamo.writes_monotone [OF w c'(1)] c'(2) r
    show "record_ok (s\<lparr>sy_Conns := t\<rparr>) r \<and> fc_Version r \<noteq> V_none \<and>
        (\<exists>c'. get_connection (sy_Conns (s\<lparr>sy_Conns := t\<rparr>)) (fc_UserID r) = Some c' \<and>
           (c' = r \<or> version_rank (fc_Version r) < version_rank (fc_Version c')))"
      by (auto simp: record_ok_def)
  qed
qed

text \<open>An accepted write on a record once read finds that very record.\<close>

lemma accepted_finds:
  assumes "seen_ok s" "base \<in> sy_Seen s" "fc_UserID c = fc_UserID base" "fc_Version c = fc_Version base"
    and "put_connection now ok c (sy_Conns s) = (Inr c', t')"
  shows "get_connection (sy_Conns s) (fc_UserID c) = Some base"
proof -
  obtain r where r: "get_connection (sy_Conns s) (fc_UserID base) = Some r"
    "r = base \<or> version_rank (fc_Version base) < version_rank (fc_Version r)"
    using assms(1,2) by (auto simp: seen_ok_def)
  have "fc_Version c = fc_Version r"
    using dynamo.put_at_version [of "(now, ok)" c "sy_Conns s" c' t'] assms(3,5) r(1) by simp
  with assms(3,4) r show ?thesis by auto
qed

text \<open>A write that carries the credentials of the record it is based on keeps the store right.\<close>

lemma stored_ok_put:
  assumes "races_ok s" "base \<in> sy_Seen s \<or> base = bare_connection uid"
    and "fc_UserID c = fc_UserID base" "fc_Version c = fc_Version base" "fc_Creds c = fc_Creds base" "record_ok s c"
    and "t = snd (put_connection now ok c (sy_Conns s))"
  shows "stored_ok (s\<lparr>sy_Conns := t\<rparr>)"
proof (cases "put_connection now ok c (sy_Conns s)")
  case (Pair r t')
  show ?thesis
  proof (cases r)
    case (Inl e)
    with Pair assms(1,7) dynamo.put_refused [of "(now, ok)" c "sy_Conns s" e t'] show ?thesis
      by (simp add: races_ok_def)
  next
    case (Inr c')
    with Pair have p: "put_connection now ok c (sy_Conns s) = (Inr c', t')" by simp
    have g: "get_connection t' = (get_connection (sy_Conns s))(fc_UserID c \<mapsto> c')"
      "c' = c\<lparr>fc_UpdatedAt := fc_UpdatedAt c', fc_Version := fc_Version c'\<rparr>"
      using dynamo.put_reads_back [of "(now, ok)" c "sy_Conns s" c' t'] p by auto
    have cc: "fc_UserID c' = fc_UserID c" "fc_Creds c' = fc_Creds c" "fc_Status c' = fc_Status c" "fc_TeamID c' = fc_TeamID c"
      by (subst g(2); simp)+
    have st: "stored_ok s" and se: "seen_ok s" using assms(1) by (simp_all add: races_ok_def)
    have "fc_Creds c = sy_Submitted s (fc_UserID c)"
    proof (cases "base \<in> sy_Seen s")
      case True
      then have "get_connection (sy_Conns s) (fc_UserID c) = Some base"
        using accepted_finds [OF se True assms(3,4) p] by simp
      with stored_ok_Some [OF st] assms(5) show ?thesis by simp
    next
      case False
      with assms(2) have b: "base = bare_connection uid" by simp
      then have "get_connection (sy_Conns s) (fc_UserID c) = None"
        using dynamo.absent_when_created [of c "(now, ok)" "sy_Conns s" c' t'] p assms(4) by (simp add: bare_connection_def)
      with stored_ok_None [OF st] b assms(5) show ?thesis by (simp add: bare_connection_def)
    qed
    moreover have "t = t'" using assms(7) p by simp
    ultimately show ?thesis
      using cc assms(6) stored_ok_None [OF st] stored_ok_Some [OF st] unfolding stored_ok_def
      by (simp add: g(1) record_ok_def split: option.split; metis)
  qed
qed

lemma seen_ok_more_proved: "seen_ok s \<Longrightarrow> sy_Proved s \<subseteq> P \<Longrightarrow> seen_ok (s\<lparr>sy_Proved := P\<rparr>)"
  unfolding seen_ok_def record_ok_def by auto

lemma stored_ok_more_proved: "stored_ok s \<Longrightarrow> sy_Proved s \<subseteq> P \<Longrightarrow> stored_ok (s\<lparr>sy_Proved := P\<rparr>)"
proof (rule stored_okI)
  fix u c assume "stored_ok s" "sy_Proved s \<subseteq> P" "get_connection (sy_Conns (s\<lparr>sy_Proved := P\<rparr>)) u = Some c"
  with stored_ok_Some [of s u c]
  show "fc_UserID c = u \<and> fc_Creds c = sy_Submitted (s\<lparr>sy_Proved := P\<rparr>) u \<and> record_ok (s\<lparr>sy_Proved := P\<rparr>) c"
    unfolding record_ok_def by auto
qed (simp add: stored_ok_None)

lemma races_ok_put:
  assumes "races_ok s" "base \<in> sy_Seen s \<or> base = bare_connection uid"
    and "fc_UserID c = fc_UserID base" "fc_Version c = fc_Version base" "fc_Creds c = fc_Creds base" "record_ok s c"
  shows "races_ok (s\<lparr>sy_Conns := snd (put_connection now ok c (sy_Conns s))\<rparr>)"
  using stored_ok_put [OF assms refl] seen_ok_put [OF _ refl] assms(1) by (simp add: races_ok_def)

lemma seen_record_ok: "races_ok s \<Longrightarrow> c \<in> sy_Seen s \<Longrightarrow> record_ok s c"
  by (simp add: races_ok_def seen_ok_def)

lemma races_ok_reads:
  assumes "races_ok s" "get_connection (sy_Conns s) uid = Some c"
  shows "races_ok (s\<lparr>sy_Seen := insert c (sy_Seen s)\<rparr>)"
proof -
  have "fc_UserID c = uid" "record_ok s c" "fc_Version c \<noteq> V_none"
    using assms stored_ok_Some [of s uid c] dynamo.put_never_unset [of "sy_Conns s" uid c] by (auto simp: races_ok_def)
  with assms show ?thesis
    by (simp add: races_ok_def seen_ok_def stored_ok_def record_ok_def cong: option.case_cong)
qed

text \<open>An accepted submission is pending, so it owes no proof.\<close>

lemma races_ok_submits:
  assumes "races_ok s"
  shows "races_ok (submitted s uid sealed (put_connection now ok (submit_record uid team sealed now cur) (sy_Conns s)))"
proof (cases "put_connection now ok (submit_record uid team sealed now cur) (sy_Conns s)")
  case (Pair r t)
  let ?c = "submit_record uid team sealed now cur"
  have f: "fc_UserID ?c = uid" "fc_Creds ?c = sealed" "fc_Status ?c = Conn_pending"
    by (simp_all add: submit_record_def bare_connection_def)
  have se: "seen_ok (s\<lparr>sy_Conns := t\<rparr>)"
    using seen_ok_put [of s t now ok ?c] assms Pair by (simp add: races_ok_def)
  have st: "stored_ok s" using assms by (simp add: races_ok_def)
  show ?thesis
  proof (cases r)
    case (Inl e)
    with Pair dynamo.put_refused [of "(now, ok)" ?c "sy_Conns s" e t] se st show ?thesis
      by (simp add: submitted_def races_ok_def)
  next
    case (Inr c')
    have g: "get_connection t = (get_connection (sy_Conns s))(uid \<mapsto> c')"
      "c' = ?c\<lparr>fc_UpdatedAt := fc_UpdatedAt c', fc_Version := fc_Version c'\<rparr>"
      using dynamo.put_reads_back [of "(now, ok)" ?c "sy_Conns s" c' t] Pair Inr f(1) by auto
    have c': "fc_UserID c' = uid" "fc_Creds c' = sealed" "fc_Status c' = Conn_pending"
      by (subst g(2); simp add: f)+
    have "stored_ok (s\<lparr>sy_Conns := t, sy_Submitted := (sy_Submitted s)(uid := sealed)\<rparr>)"
      using stored_ok_None [OF st] stored_ok_Some [OF st] c' unfolding stored_ok_def
      by (simp add: g(1) record_ok_def split: option.split; metis)
    moreover have "seen_ok (s\<lparr>sy_Conns := t, sy_Submitted := (sy_Submitted s)(uid := sealed)\<rparr>)"
      using se by (simp add: seen_ok_def record_ok_def)
    ultimately show ?thesis using Pair Inr by (simp add: submitted_def races_ok_def)
  qed
qed

lemma races_ok_concludes:
  assumes "races_ok s" "held_read s uid got" "held_read s uid reread" "cw_Conns w = sy_Conns s"
  shows "races_ok (s\<lparr>sy_Conns := cw_Conns (snd (connect_tenant d uid got reread w)),
      sy_Proved := sy_Proved s \<union> {(uid, fc_Creds c, fc_TeamID c) | c. got = Inr (Some c) \<and> (\<exists>sealed. proves d uid c sealed)}\<rparr>)"
proof -
  let ?P = "sy_Proved s \<union> {(uid, fc_Creds c, fc_TeamID c) | c. got = Inr (Some c) \<and> (\<exists>sealed. proves d uid c sealed)}"
  define s1 where "s1 = s\<lparr>sy_Proved := ?P\<rparr>"
  have s1: "races_ok s1" "sy_Conns s1 = sy_Conns s" "sy_Seen s1 = sy_Seen s"
    using assms(1) stored_ok_more_proved [of s ?P] seen_ok_more_proved [of s ?P] by (auto simp: s1_def races_ok_def)
  have e: "s1\<lparr>sy_Conns := sy_Conns s\<rparr> = s1" unfolding s1(2) [symmetric] by simp
  have "races_ok (s1\<lparr>sy_Conns := cw_Conns (snd (connect_tenant d uid got reread w))\<rparr>)"
    using connect_tenant_write [of d uid got reread w]
  proof
    assume "cw_Conns (snd (connect_tenant d uid got reread w)) = cw_Conns w"
    with s1(1) e assms(4) show ?thesis by simp
  next
    assume "\<exists>base. base_of uid got reread base \<and> task_write d base (\<lambda>c. fc_TeamID c = fc_TeamID base \<and>
       (fc_Status c = Conn_verified \<longrightarrow> fc_Status base = Conn_verified \<or>
          got = Inr (Some base) \<and> proves d uid base (fc_FXRM c)))
     (cw_Conns w) (cw_Conns (snd (connect_tenant d uid got reread w)))"
    then obtain base where b: "base_of uid got reread base"
      and tw: "task_write d base (\<lambda>c. fc_TeamID c = fc_TeamID base \<and>
       (fc_Status c = Conn_verified \<longrightarrow> fc_Status base = Conn_verified \<or>
          got = Inr (Some base) \<and> proves d uid base (fc_FXRM c)))
     (cw_Conns w) (cw_Conns (snd (connect_tenant d uid got reread w)))" by blast
    have held: "(base \<in> sy_Seen s1 \<and> fc_UserID base = uid) \<or> base = bare_connection uid"
      using b assms(2,3) s1(3) by (auto simp: base_of_def held_read_def split: sum.splits option.splits)
    then have base_ok: "record_ok s1 base" "fc_UserID base = uid"
      using seen_record_ok [OF s1(1), of base] by (auto simp: record_ok_def bare_connection_def)
    from tw [unfolded task_write_def] show ?thesis
    proof
      assume "cw_Conns (snd (connect_tenant d uid got reread w)) = cw_Conns w"
      with s1(1) e assms(4) show ?thesis by simp
    next
      assume "\<exists>c. cw_Conns (snd (connect_tenant d uid got reread w)) =
          snd (put_connection (cd_Now d) (cd_WriteOK d) c (cw_Conns w)) \<and> fc_UserID c = fc_UserID base \<and>
          fc_Creds c = fc_Creds base \<and> fc_Version c = fc_Version base \<and> fc_TeamID c = fc_TeamID base \<and>
          (fc_Status c = Conn_verified \<longrightarrow> fc_Status base = Conn_verified \<or>
             got = Inr (Some base) \<and> proves d uid base (fc_FXRM c))"
      then obtain c where c: "cw_Conns (snd (connect_tenant d uid got reread w)) =
          snd (put_connection (cd_Now d) (cd_WriteOK d) c (sy_Conns s1))" "fc_UserID c = fc_UserID base"
          "fc_Creds c = fc_Creds base" "fc_Version c = fc_Version base" "fc_TeamID c = fc_TeamID base"
          "fc_Status c = Conn_verified \<longrightarrow> fc_Status base = Conn_verified \<or>
             got = Inr (Some base) \<and> proves d uid base (fc_FXRM c)"
        using s1(2) assms(4) by auto
      have "record_ok s1 c"
        using base_ok c(2,3,5,6) unfolding record_ok_def s1_def by auto
      with races_ok_put [OF s1(1) _ c(2,4,3)] held c(1) show ?thesis by metis
    qed
  qed
  moreover have "s1\<lparr>sy_Conns := cw_Conns (snd (connect_tenant d uid got reread w))\<rparr> =
      s\<lparr>sy_Conns := cw_Conns (snd (connect_tenant d uid got reread w)), sy_Proved := ?P\<rparr>" by (simp add: s1_def)
  ultimately show ?thesis by simp
qed

lemma races_ok_refreshes:
  assumes "races_ok s" "held_read s uid got" "cw_Conns w = sy_Conns s"
  shows "races_ok (s\<lparr>sy_Conns := cw_Conns (snd (snd (refresh l uid cfg got w)))\<rparr>)"
proof (cases "refresh l uid cfg got w")
  case (fields e v w')
  show ?thesis
  proof (cases v)
    case None
    with fields refresh_no_login [of l uid cfg got w e w'] assms show ?thesis by (simp add: idle_run_def)
  next
    case (Some x)
    from refresh_login [OF fields [unfolded Some]] obtain base c r t where b: "got = Inr (Some base)"
      and c: "fc_UserID c = fc_UserID base" "fc_Version c = fc_Version base" "fc_Creds c = fc_Creds base"
        "fc_TeamID c = fc_TeamID base" "fc_Status c = (if rejected x then Conn_needs_reconnect else fc_Status base)"
      and w': "w' = w\<lparr>cw_Env := cw_Env w'\<rparr> \<or>
        put_connection (ld_Now l) (ld_WriteOK l) c (cw_Conns w) = (r, t) \<and> cw_Conns w' = t" by blast
    have base: "base \<in> sy_Seen s" using assms(2) b by (simp add: held_read_def)
    have "record_ok s c"
      using seen_record_ok [OF assms(1) base] c by (auto simp: record_ok_def split: if_splits)
    from races_ok_put [OF assms(1) _ c(1,2,3) this] base
    have p: "races_ok (s\<lparr>sy_Conns := snd (put_connection (ld_Now l) (ld_WriteOK l) c (sy_Conns s))\<rparr>)" by blast
    from w' show ?thesis
    proof
      assume "w' = w\<lparr>cw_Env := cw_Env w'\<rparr>"
      then have "cw_Conns w' = cw_Conns w" by (metis connect_world.ext_inject connect_world.surjective connect_world.update_convs(5))
      with fields assms(1,3) show ?thesis by simp
    next
      assume "put_connection (ld_Now l) (ld_WriteOK l) c (cw_Conns w) = (r, t) \<and> cw_Conns w' = t"
      with p fields assms(3) show ?thesis by simp
    qed
  qed
qed

lemma races_ok_step: "conn_step s s' \<Longrightarrow> races_ok s \<Longrightarrow> races_ok s'"
  by (induction rule: conn_step.induct)
     (simp_all only: races_ok_reads races_ok_submits races_ok_concludes races_ok_refreshes)

lemma races_ok_reachable: "conn_reachable s \<Longrightarrow> races_ok s"
proof (induction rule: conn_reachable.induct)
  case start
  show ?case by (simp add: races_ok_def stored_ok_def seen_ok_def start_system_def get_connection_def)
qed (rule races_ok_step)

section \<open>The API's submission\<close>

text \<open>What an accepted submission found when it wrote: nothing, or a record the guard had passed.\<close>

definition idle_record :: "connect_api \<Rightarrow> nat \<Rightarrow> conn_table \<Rightarrow> string \<Rightarrow> bool" where
  "idle_record a n t uid \<longleftrightarrow>
     (case get_connection t uid of None \<Rightarrow> True | Some c \<Rightarrow> connect_in_flight_refusal (ca_Now a n) c = None)"

lemma guarded_read_idle:
  "guarded_read a n uid t = Inr cur \<Longrightarrow> cur = get_connection t uid \<and> idle_record a n t uid"
  by (auto simp: guarded_read_def idle_record_def split: if_splits option.splits)

lemma submit_record_fields [simp]:
  "fc_UserID (submit_record uid team sealed now cur) = uid"
  "fc_Status (submit_record uid team sealed now cur) = Conn_pending"
  "fc_Creds (submit_record uid team sealed now cur) = sealed"
  "fc_Version (submit_record uid team sealed now cur) = (case cur of Some c \<Rightarrow> fc_Version c | None \<Rightarrow> V_none)"
  by (simp_all add: submit_record_def bare_connection_def)

text \<open>One attempt: the write finds what the guard has seen.\<close>

lemma submit_once:
  assumes "\<And>n t. dynamo.writes t (ca_BeforeWrite a n t)" "cur = get_connection t uid" "idle_record a n t uid"
    and p: "put_connection (ca_Now a n) (ca_WriteOK a n) (submit_record uid team sealed (ca_Now a n) cur)
      (ca_BeforeWrite a n t) = (Inr c', t')"
  shows "\<exists>s m c'. idle_record a m s uid \<and>
    put_connection (ca_Now a m) True (submit_record uid team sealed (ca_Now a m) (get_connection s uid)) s = (Inr c', t')"
proof -
  let ?s = "ca_BeforeWrite a n t" and ?c = "submit_record uid team sealed (ca_Now a n) cur"
  have ok: "ca_WriteOK a n" using put_accepted [OF p] by simp
  have "get_connection ?s uid = cur"
  proof (cases cur)
    case None
    with dynamo.absent_when_created [of ?c "(ca_Now a n, ca_WriteOK a n)" ?s c' t'] p show ?thesis by simp
  next
    case (Some r)
    with dynamo.replaces_what_was_read [of t uid r ?s ?c "(ca_Now a n, ca_WriteOK a n)" c' t'] p assms(1) assms(2)
    show ?thesis by simp
  qed
  with p ok assms(2,3) show ?thesis
    by (intro exI [of _ ?s] exI [of _ n] exI [of _ c']) (simp add: idle_record_def)
qed

lemma submit_loop_accepts:
  assumes "\<And>n t. dynamo.writes t (ca_BeforeWrite a n t)"
    and "submit_loop a uid team sealed left n cur t = (None, t')" "cur = get_connection t uid" "idle_record a n t uid"
  shows "\<exists>s m c'. idle_record a m s uid \<and>
    put_connection (ca_Now a m) True (submit_record uid team sealed (ca_Now a m) (get_connection s uid)) s = (Inr c', t')"
  using assms(2-4)
proof (induction left arbitrary: n cur t)
  case (0 n cur t)
  obtain r t1 where p: "put_connection (ca_Now a n) (ca_WriteOK a n) (submit_record uid team sealed (ca_Now a n) cur)
      (ca_BeforeWrite a n t) = (r, t1)" by fastforce
  with 0 show ?case
    using submit_once [OF assms(1), of cur t uid n team sealed _ t'] by (auto split: sum.splits if_splits)
next
  case (Suc l n cur t)
  obtain r t1 where p: "put_connection (ca_Now a n) (ca_WriteOK a n) (submit_record uid team sealed (ca_Now a n) cur)
      (ca_BeforeWrite a n t) = (r, t1)" by fastforce
  show ?case
  proof (cases r)
    case (Inr c')
    with Suc.prems p show ?thesis
      using submit_once [OF assms(1), of cur t uid n team sealed c' t'] by simp
  next
    case (Inl e)
    let ?t2 = "ca_BeforeRead a (Suc n) t1"
    obtain cur' where g: "guarded_read a (Suc n) uid ?t2 = Inr cur'"
      and l: "submit_loop a uid team sealed l (Suc n) cur' ?t2 = (None, t')"
      using Suc.prems(1) p Inl by (auto simp: Let_def split: if_splits sum.splits)
    show ?thesis using Suc.IH [OF l] guarded_read_idle [OF g] by blast
  qed
qed

text \<open>A refusal is never an acceptance.\<close>

lemma guarded_read_refuses: "guarded_read a n uid t = Inl r \<Longrightarrow> r \<noteq> Resp_accepted run"
  by (auto simp: guarded_read_def split: if_splits option.splits)

lemma submit_loop_refuses: "submit_loop a uid team sealed left n cur t = (Some r, t') \<Longrightarrow> r \<noteq> Resp_accepted run"
proof (induction left arbitrary: n cur t)
  case (Suc l)
  from Suc.prems Suc.IH show ?case
    by (auto simp: Let_def dest: guarded_read_refuses split: prod.splits sum.splits if_splits)
qed (auto split: prod.splits sum.splits if_splits)

declare submit_loop.simps [simp del]

section \<open>Properties\<close>

text \<open>C15. A reconnect is never rolled back, and verified means these credentials were proven. In every
  state reachable by the three writers, each writing as late as it likes on any record it once
  read, the stored credentials of a tenant are the ones last accepted from them, and if the record
  says verified then a connect task has proven exactly these credentials for exactly this team.\<close>

theorem verified_credentials_are_the_proven_ones:
  assumes "conn_reachable s" "get_connection (sy_Conns s) u = Some c"
  shows "fc_Creds c = sy_Submitted s u \<and>
    (fc_Status c = Conn_verified \<longrightarrow> (u, sy_Submitted s u, fc_TeamID c) \<in> sy_Proved s)"
  using races_ok_reachable [OF assms(1)] stored_ok_Some [OF _ assms(2)]
  by (auto simp: races_ok_def record_ok_def)

text \<open>One verification at a time. When \<open>handleConnect\<close> accepts a submission, whatever others wrote
  between its reads and its writes, the record it replaced was none at all or one its guard had
  passed: not pending for less than ten minutes and not failed on our side within the minute. So
  two submissions racing each other cannot both start a login.\<close>

theorem submission_replaces_only_idle:
  assumes "\<And>n t. dynamo.writes t (ca_BeforeWrite a n t)"
    and "handle_connect a uid (Some creds) t = (Resp_accepted run, t')"
  shows "\<exists>s m. idle_record a m s uid \<and> record_status t' uid = Some Conn_pending \<and>
    (\<exists>c c'. fc_UserID c = uid \<and> fc_Version c = (case get_connection s uid of Some r \<Rightarrow> fc_Version r | None \<Rightarrow> V_none) \<and>
       put_connection (ca_Now a m) True c s = (Inr c', t'))"
proof -
  obtain cur sealed t0 where g: "guarded_read a 1 uid t0 = Inr cur"
    and l: "submit_loop a uid (team_on_record a uid) sealed (connect_put_attempts - 1) 1 cur t0 = (None, t')"
    using assms(2)
    by (auto simp: handle_connect_def Let_def dest: guarded_read_refuses submit_loop_refuses
        split: if_splits sum.splits option.splits prod.splits)
  from submit_loop_accepts [OF assms(1) l] guarded_read_idle [OF g] obtain s m c' where
    i: "idle_record a m s uid" and p: "put_connection (ca_Now a m) True (submit_record uid (team_on_record a uid) sealed
      (ca_Now a m) (get_connection s uid)) s = (Inr c', t')" by blast
  have "record_status t' uid = Some Conn_pending" using status_after_put [OF p] by simp
  moreover have "\<exists>c c'. fc_UserID c = uid \<and>
      fc_Version c = (case get_connection s uid of Some r \<Rightarrow> fc_Version r | None \<Rightarrow> V_none) \<and>
      put_connection (ca_Now a m) True c s = (Inr c', t')"
    using p by (intro exI [of _ "submit_record uid (team_on_record a uid) sealed (ca_Now a m) (get_connection s uid)"]
        exI [of _ c'] conjI) simp_all
  ultimately show ?thesis using i by blast
qed

text \<open>The witnesses. A tenant connects, is verified, and reconnects while a run still holds the
  verified record; the run's late verdict is refused.\<close>

definition first_submission :: fantrax_connection where
  "first_submission = (bare_connection ''u1'')\<lparr>fc_TeamID := ''t1'', fc_Status := Conn_pending, fc_Creds := ''old'',
     fc_UpdatedAt := 1, fc_Version := V_num 1\<rparr>"

definition verified_record :: fantrax_connection where
  "verified_record = first_submission\<lparr>fc_Status := Conn_verified, fc_FXRM := ''abc'', fc_FantraxUserID := ''fx1'',
     fc_FantraxEmail := ''a@b'', fc_LastVerifiedAt := 9, fc_UpdatedAt := 9, fc_Version := V_num 2,
     fc_LastConnectRun := Some \<lparr>cr_RunID = ''run'', cr_Verdict = Verdict_verified, cr_LastError = None\<rparr>\<rparr>"

lemma demo_record_users [simp]: "fc_UserID first_submission = ''u1''" "fc_UserID verified_record = ''u1''"
  by (simp_all add: verified_record_def first_submission_def bare_connection_def)

definition table_at :: "fantrax_connection \<Rightarrow> int \<Rightarrow> conn_table" where
  "table_at c v = [''u1'' \<mapsto> \<lparr>ci_Conn = c\<lparr>fc_Version := V_none\<rparr>, ci_Ver = Some v\<rparr>]"

lemma get_table_at [simp]: "get_connection (table_at c v) ''u1'' = Some (c\<lparr>fc_Version := V_num v\<rparr>)"
  by (simp add: table_at_def get_connection_def conn_version_of_def)

lemma race_submits:
  "submitted start_system ''u1'' ''old''
     (put_connection 1 True (submit_record ''u1'' ''t1'' ''old'' 1 None) (sy_Conns start_system)) =
   start_system\<lparr>sy_Conns := table_at first_submission 1, sy_Submitted := (\<lambda>_. [])(''u1'' := ''old'')\<rparr>"
  by (simp add: start_system_def put_connection_def put_condition_def next_version_def submit_record_def
      bare_connection_def submitted_def table_at_def first_submission_def)

lemma race_verifies:
  "cw_Conns w = table_at first_submission 1 \<Longrightarrow>
   cw_Conns (snd (connect_tenant (demo_deps good_login) ''u1'' (Inr (Some first_submission)) (Inr None) w)) =
     table_at verified_record 2"
  by (rule ext) (simp add: connect_tenant_conns connect_task_def demo_deps_def good_login_def fantrax_login_def browser_evidence_def
      empty_evidence_def classify_login_def finish_def prove_team_def mark_verified_def record_verdict_def stamp_run_def
      put_connection_def put_condition_def next_version_def conn_unversioned_def table_at_def first_submission_def
      verified_record_def bare_connection_def Let_def)

lemma race_resubmits:
  "put_connection 20 True (submit_record ''u1'' ''t1'' ''new'' 20 (Some verified_record)) (table_at verified_record 2) =
     (Inr ((submit_record ''u1'' ''t1'' ''new'' 20 None)\<lparr>fc_Version := V_num 3\<rparr>),
      table_at (submit_record ''u1'' ''t1'' ''new'' 20 None) 3)"
  by (simp add: put_connection_def put_condition_def next_version_def conn_unversioned_def table_at_def
      verified_record_def first_submission_def submit_record_def bare_connection_def fun_eq_iff)

lemma race_late_verdict:
  "cw_Conns w = table_at c 3 \<Longrightarrow>
   cw_Conns (snd (snd (refresh (tr_Ladder demo_run) ''u1'' demo_config (Inr (Some verified_record)) w))) = table_at c 3"
  by (simp add: demo_run_simps cloudflare_titles_def table_at_def verified_record_def first_submission_def)

text \<open>So the state after the race is reachable, and holds the new credentials.\<close>

lemma race_reachable:
  "\<exists>s :: conn_system. conn_reachable s \<and> sy_Conns s = table_at (submit_record ''u1'' ''t1'' ''new'' 20 None) 3 \<and>
     sy_Submitted s ''u1'' = ''new''"
proof -
  let ?w = "\<lambda>t. pending_world\<lparr>cw_Conns := t\<rparr>"
  define s1 where "s1 = start_system\<lparr>sy_Conns := table_at first_submission 1, sy_Submitted := (\<lambda>_. [])(''u1'' := ''old'')\<rparr>"
  have r1: "conn_reachable s1"
    using conn_reachable.step [OF conn_reachable.start conn_step.submits [of start_system "''u1''" None "''old''" 1 True "''t1''"]]
    unfolding race_submits s1_def [symmetric] by (simp add: held_read_def)
  define s2 where "s2 = s1\<lparr>sy_Seen := {first_submission}\<rparr>"
  have "conn_step s1 (s1\<lparr>sy_Seen := insert first_submission (sy_Seen s1)\<rparr>)"
    by (rule conn_step.reads [of _ "''u1''"]) (simp add: s1_def first_submission_def)
  with r1 have r2: "conn_reachable s2" using conn_reachable.step by (auto simp: s2_def s1_def start_system_def)
  let ?d = "demo_deps good_login" and ?got = "Inr (Some first_submission) :: conn_read"
  define s3 where "s3 = s2\<lparr>sy_Conns := cw_Conns (snd (connect_tenant ?d ''u1'' ?got (Inr None) (?w (sy_Conns s2)))),
      sy_Proved := sy_Proved s2 \<union> {(''u1'', fc_Creds c, fc_TeamID c) | c. ?got = Inr (Some c) \<and> (\<exists>sealed. proves ?d ''u1'' c sealed)}\<rparr>"
  have "conn_step s2 s3"
    unfolding s3_def
    by (rule conn_step.concludes) (simp_all add: held_read_def s2_def first_submission_def bare_connection_def)
  with r2 have r3: "conn_reachable s3" by (rule conn_reachable.step)
  have e3: "sy_Conns s3 = table_at verified_record 2" "sy_Seen s3 = {first_submission}"
    using race_verifies [of "?w (sy_Conns s2)"] by (simp_all add: s3_def s2_def s1_def)
  define s4 where "s4 = s3\<lparr>sy_Seen := insert verified_record (sy_Seen s3)\<rparr>"
  have "conn_step s3 s4"
    unfolding s4_def by (rule conn_step.reads [of _ "''u1''"]) (simp add: e3 verified_record_def)
  with r3 have r4: "conn_reachable s4" by (rule conn_reachable.step)
  obtain s5 where r5: "conn_reachable s5" "sy_Conns s5 = table_at (submit_record ''u1'' ''t1'' ''new'' 20 None) 3"
    "sy_Submitted s5 ''u1'' = ''new''" "verified_record \<in> sy_Seen s5"
    using conn_reachable.step [OF r4 conn_step.submits [of s4 "''u1''" "Some verified_record" "''new''" 20 True "''t1''"]]
    by (auto simp: race_resubmits submitted_def held_read_def s4_def e3)
  from conn_reachable.step [OF r5(1) conn_step.refreshes [of s5 "''u1''" "Inr (Some verified_record)" "?w (sy_Conns s5)"
      "tr_Ladder demo_run" demo_config]]
  show ?thesis
    using r5 by (auto simp: race_late_verdict held_read_def)
qed

theorem verified_credentials_are_the_proven_ones_witness:
  "\<exists>(s :: conn_system) c. get_connection (sy_Conns s) ''u1'' = Some c \<and> fc_Creds c = sy_Submitted s ''u1'' \<and> sy_Submitted s ''u1'' = ''new''"
proof -
  obtain s where s: "conn_reachable s" "sy_Conns s = table_at (submit_record ''u1'' ''t1'' ''new'' 20 None) 3"
    "sy_Submitted s ''u1'' = ''new''" using race_reachable by blast
  then obtain c where c: "get_connection (sy_Conns s) ''u1'' = Some c" by simp
  from verified_credentials_are_the_proven_ones [OF s(1) c] c s(3) show ?thesis by blast
qed

definition demo_api :: "(nat \<Rightarrow> conn_table \<Rightarrow> conn_table) \<Rightarrow> connect_api" where
  "demo_api others = \<lparr>ca_Configured = True, ca_Marshal = (\<lambda>c. Some (cr_Password c)), ca_Seal = (\<lambda>_ c. Some c),
     ca_User = None, ca_Launch = (\<lambda>_ _. Some ''run1''), ca_Now = (\<lambda>n. int n), ca_ReadOK = (\<lambda>_. True),
     ca_WriteOK = (\<lambda>_. True), ca_BeforeRead = (\<lambda>_ t. t), ca_BeforeWrite = others\<rparr>"

theorem submission_replaces_only_idle_witness:
  "\<exists>s m. idle_record (demo_api (\<lambda>_ t. t)) m s ''u1'' \<and>
    record_status (snd (handle_connect (demo_api (\<lambda>_ t. t)) ''u1'' (Some \<lparr>cr_Username = ''me'', cr_Password = ''pw''\<rparr>) Map.empty))
      ''u1'' = Some Conn_pending"
proof -
  let ?a = "demo_api (\<lambda>_ t. t)" and ?creds = "\<lparr>cr_Username = ''me'', cr_Password = ''pw''\<rparr>"
  obtain t' where h: "handle_connect ?a ''u1'' (Some ?creds) Map.empty = (Resp_accepted ''run1'', t')"
    by (simp add: handle_connect_def demo_api_def guarded_read_def get_connection_def connect_put_attempts_def
        put_connection_def put_condition_def submit_record_def bare_connection_def submit_loop.simps Let_def)
  have w: "dynamo.writes t (ca_BeforeWrite ?a n t)" for n t by (simp add: demo_api_def dynamo.writes.nothing)
  from submission_replaces_only_idle [OF w h] h show ?thesis by auto
qed

end
