(* ===== verification/Decimal.thy ===== *)
theory Decimal
  imports Civil_Time
begin

text \<open>
  Decimal numbers as the code writes and reads them: \<open>%d\<close> and \<open>strconv.FormatInt(n, 10)\<close>, and
  \<open>strconv.ParseInt(s, 10, 64)\<close> on numbers that fit. The lemmas: writing is injective, uses only
  digits and a sign, and reading undoes it.
\<close>

text \<open>\<open>%d\<close>: the decimal digits of an integer, with a sign when it is negative.\<close>

definition digit_char :: "nat \<Rightarrow> char" where
  "digit_char n = char_of (48 + n)"

fun fmt_nat :: "nat \<Rightarrow> string" where
  "fmt_nat n = (if n < 10 then [digit_char n] else fmt_nat (n div 10) @ [digit_char (n mod 10)])"

declare fmt_nat.simps [simp del]

definition fmt_int :: "int \<Rightarrow> string" where
  "fmt_int i = (if i < 0 then CHR ''-'' # fmt_nat (nat (- i)) else fmt_nat (nat i))"

definition parse_int :: "string \<Rightarrow> int option" where
  "parse_int s =
     (let signed = s \<noteq> [] \<and> (hd s = CHR ''-'' \<or> hd s = CHR ''+''); ds = (if signed then tl s else s);
          n = foldl (\<lambda>v c. 10 * v + digit_val c) 0 ds
      in if ds = [] \<or> \<not> list_all is_digit ds then None
         else Some (if signed \<and> hd s = CHR ''-'' then - n else n))"

section \<open>Lemmas\<close>

definition digit_of :: "char \<Rightarrow> nat" where
  "digit_of c = of_char c - 48"

lemma digit_of_char [simp]: "n < 10 \<Longrightarrow> digit_of (digit_char n) = n"
  by (simp add: digit_of_def digit_char_def)

definition read_nat :: "string \<Rightarrow> nat" where
  "read_nat s = foldl (\<lambda>v c. 10 * v + digit_of c) 0 s"

lemma read_fmt_nat [simp]: "read_nat (fmt_nat n) = n"
proof (induction n rule: fmt_nat.induct)
  case (1 n)
  show ?case
  proof (cases "n < 10")
    case True
    then show ?thesis by (subst fmt_nat.simps) (simp add: read_nat_def)
  next
    case False
    with 1 show ?thesis by (subst fmt_nat.simps) (simp add: read_nat_def)
  qed
qed

definition number_chars :: "char set" where
  "number_chars = insert (CHR ''-'') (digit_char ` {..<10})"

lemma fmt_nat_chars: "set (fmt_nat n) \<subseteq> digit_char ` {..<10}"
  by (induction n rule: fmt_nat.induct) (subst fmt_nat.simps, auto)

lemma fmt_nat_nonempty [simp]: "fmt_nat n \<noteq> []"
  by (subst fmt_nat.simps) simp

lemma digit_chars: "digit_char ` {..<10} = set ''0123456789''"
  by code_simp

lemma fmt_nat_no_sign: "hd (fmt_nat n) \<noteq> CHR ''-''"
proof
  assume "hd (fmt_nat n) = CHR ''-''"
  then have "CHR ''-'' \<in> set ''0123456789''"
    using fmt_nat_chars [of n] hd_in_set [OF fmt_nat_nonempty, of n] unfolding digit_chars by auto
  then show False by simp
qed

lemma fmt_int_inj: "fmt_int i = fmt_int j \<Longrightarrow> i = j"
proof -
  assume eq: "fmt_int i = fmt_int j"
  have sign: "i < 0 \<longleftrightarrow> hd (fmt_int i) = CHR ''-''" for i by (simp add: fmt_int_def fmt_nat_no_sign)
  have "read_nat (if i < 0 then tl (fmt_int i) else fmt_int i) = nat \<bar>i\<bar>" for i by (simp add: fmt_int_def)
  from this [of i] this [of j] sign [of i] sign [of j] eq show "i = j" by (auto split: if_splits)
qed

lemma fmt_int_chars: "set (fmt_int i) \<subseteq> number_chars"
  using fmt_nat_chars [of "nat (- i)"] fmt_nat_chars [of "nat i"] unfolding fmt_int_def number_chars_def
  by (cases "i < 0") (simp_all only: if_True if_False list.set, blast+)

lemma number_chars_eq: "number_chars = set ''-0123456789''"
  unfolding number_chars_def digit_chars by (simp only: list.set)

lemma fmt_nat_digits: "list_all is_digit (fmt_nat n)"
proof -
  have "is_digit c" if "c \<in> set ''0123456789''" for c
  proof -
    have "list_all is_digit ''0123456789''" by code_simp
    then show ?thesis using that by (simp only: list_all_iff)
  qed
  then show ?thesis using fmt_nat_chars [of n] unfolding digit_chars list_all_iff by blast
qed

lemma foldl_digit_val:
  "list_all is_digit ds \<Longrightarrow> foldl (\<lambda>v c. 10 * v + digit_val c) (int a) ds = int (foldl (\<lambda>v c. 10 * v + digit_of c) a ds)"
proof (induction ds arbitrary: a)
  case (Cons d ds)
  have "digit_val d = int (digit_of d)"
    using Cons.prems by (simp add: digit_val_def digit_of_def is_digit_def Let_def of_nat_diff of_nat_of_char)
  then have "10 * int a + digit_val d = int (10 * a + digit_of d)" by simp
  then show ?case using Cons.IH [of "10 * a + digit_of d"] Cons.prems by (simp only: foldl.simps list.pred_inject)
qed simp

lemma digit_no_sign: "is_digit c \<Longrightarrow> c \<noteq> CHR ''-'' \<and> c \<noteq> CHR ''+''"
  by (auto simp: is_digit_def Let_def)

lemma parse_fmt_int [simp]: "parse_int (fmt_int i) = Some i"
proof -
  have n: "foldl (\<lambda>v c. 10 * v + digit_val c) 0 (fmt_nat m) = int m" for m
    using foldl_digit_val [OF fmt_nat_digits, of 0 m] read_fmt_nat [of m] by (simp add: read_nat_def)
  have "is_digit (hd (fmt_nat m))" for m
    using fmt_nat_digits [of m] hd_in_set [OF fmt_nat_nonempty, of m] by (auto simp: list_all_iff)
  then have h: "hd (fmt_nat m) \<noteq> CHR ''-''" "hd (fmt_nat m) \<noteq> CHR ''+''" for m using digit_no_sign by blast+
  show ?thesis
  proof (cases "i < 0")
    case True
    then show ?thesis by (simp add: parse_int_def fmt_int_def fmt_nat_digits n)
  next
    case False
    then show ?thesis by (simp add: parse_int_def fmt_int_def fmt_nat_digits n h)
  qed
qed

lemma fmt_int_nonempty [simp]: "fmt_int i \<noteq> []"
  by (simp add: fmt_int_def)

end
