(* ===== verification/Pitcher_Days.thy ===== *)
theory Pitcher_Days
  imports Playoffs
begin

text \<open>
  The pitcher-day walk of \<open>internal/fantrax/pitcher_starts.go\<close>: one row per pitcher and day,
  derived from the year-to-date totals of the daily snapshots (\<open>PitcherDayWalk\<close>,
  \<open>teamPitcherDays\<close>, \<open>GetTeamPitcherStarts\<close>). A snapshot is a Go map; it is the list of its
  entries in the order the loop walks them. The cached snapshot reads are parameters, given
  the daily period; the pause between two network reads has no effect here. The lemmas show
  that the rows count the same starts as the total of \<open>GetTeamGS\<close>.
\<close>

record pitcher_day =
  pd_PitcherName :: string
  pd_Date :: day
  pd_MLBTeam :: string
  pd_FPts :: real
  pd_Started :: bool
  pd_FirstAppearance :: bool
  pd_StatusID :: string
  pd_PosShortNames :: string

record roster_meta =
  rm_StatusID :: string
  rm_PosShortNames :: string

definition status_IL :: string where
  "status_IL = ''3''"

definition status_minors :: string where
  "status_minors = ''9''"

record pd_walk =
  pw_prevGS :: "string \<rightharpoonup> int"
  pw_prevFPts :: "string \<rightharpoonup> real"

definition new_walk :: pd_walk where
  "new_walk = \<lparr>pw_prevGS = Map.empty, pw_prevFPts = Map.empty\<rparr>"

definition remember :: "string \<times> gs_snapshot \<Rightarrow> pd_walk \<Rightarrow> pd_walk" where
  "remember e w = \<lparr>pw_prevGS = (pw_prevGS w)(fst e \<mapsto> gs_GS (snd e)),
                   pw_prevFPts = (pw_prevFPts w)(fst e \<mapsto> gs_FPts (snd e))\<rparr>"

definition walk_baseline :: "(string \<times> gs_snapshot) list \<Rightarrow> pd_walk \<Rightarrow> pd_walk" where
  "walk_baseline info w = fold remember info w"

text \<open>The row of one entry: its date, the walk so far and the day's roster facts.\<close>

definition day_row ::
  "day \<Rightarrow> (string \<rightharpoonup> roster_meta) \<Rightarrow> pd_walk \<Rightarrow> string \<times> gs_snapshot \<Rightarrow> pitcher_day" where
  "day_row date roster w e =
     (let (pid, s) = e;
          existed = pw_prevGS w pid \<noteq> None;
          prev = (case pw_prevGS w pid of None \<Rightarrow> 0 | Some v \<Rightarrow> v);
          raw = gs_GS s - prev;
          delta = (if \<not> existed \<and> raw > 1 then 1 else raw);
          started = gs_Active s \<and> delta > 0
      in \<lparr>pd_PitcherName = gs_Name s, pd_Date = date, pd_MLBTeam = gs_MLBTeam s,
          pd_FPts = (if started \<and> existed then gs_FPts s - zero_or (pw_prevFPts w) pid else 0),
          pd_Started = started, pd_FirstAppearance = (\<not> existed),
          pd_StatusID = (case roster pid of None \<Rightarrow> [] | Some m \<Rightarrow> rm_StatusID m),
          pd_PosShortNames = (case roster pid of None \<Rightarrow> [] | Some m \<Rightarrow> rm_PosShortNames m)\<rparr>)"

fun walk_day ::
  "day \<Rightarrow> (string \<rightharpoonup> roster_meta) \<Rightarrow> (string \<times> gs_snapshot) list \<Rightarrow> pd_walk \<Rightarrow> pitcher_day list \<times> pd_walk" where
  "walk_day date roster [] w = ([], w)"
| "walk_day date roster (e # info) w =
     (let (rows, w') = walk_day date roster info (remember e w)
      in (day_row date roster w e # rows, w'))"

datatype days_error = End_before_start | Baseline_failed string | Snapshot_failed string | Roster_failed string

text \<open>\<open>snap\<close> is the pitcher snapshot of a daily period, \<open>meta\<close> the roster facts, read only
  when the caller asks for them.\<close>

fun walk_window ::
  "(int \<Rightarrow> string + (string \<times> gs_snapshot) list) \<Rightarrow> (int \<Rightarrow> string + (string \<rightharpoonup> roster_meta)) option \<Rightarrow>
   (day \<Rightarrow> int) \<Rightarrow> day list \<Rightarrow> pd_walk \<Rightarrow> days_error + pitcher_day list" where
  "walk_window snap meta per [] w = Inr []"
| "walk_window snap meta per (d # ds) w =
     (case snap (per d) of
        Inl e \<Rightarrow> Inl (Snapshot_failed e)
      | Inr info \<Rightarrow>
         (case (case meta of None \<Rightarrow> Inr Map.empty | Some f \<Rightarrow> f (per d)) of
            Inl e \<Rightarrow> Inl (Roster_failed e)
          | Inr roster \<Rightarrow>
             (let (rows, w') = walk_day d roster info w in
              (case walk_window snap meta per ds w' of
                 Inl e \<Rightarrow> Inl e
               | Inr rest \<Rightarrow> Inr (rows @ rest)))))"

definition row_less :: "pitcher_day \<Rightarrow> pitcher_day \<Rightarrow> bool" where
  "row_less a b = (if pd_Date a \<noteq> pd_Date b then pd_Date a < pd_Date b
                   else pd_PitcherName a < pd_PitcherName b)"

definition team_pitcher_days ::
  "(int \<Rightarrow> string + (string \<times> gs_snapshot) list) \<Rightarrow> (int \<Rightarrow> string + (string \<rightharpoonup> roster_meta)) option \<Rightarrow>
   (day \<rightharpoonup> int) option \<Rightarrow> day \<Rightarrow> day \<Rightarrow> day \<Rightarrow> days_error + pitcher_day list" where
  "team_pitcher_days snap meta pmap start stop seasonStart =
     (if stop < start then Inl End_before_start
      else
        (let per = daily_period_for pmap seasonStart;
             dayBefore = start - 1;
             base = (if \<not> dayBefore < seasonStart \<and> per dayBefore \<ge> 1 then snap (per dayBefore) else Inr [])
         in case base of
              Inl e \<Rightarrow> Inl (Baseline_failed e)
            | Inr info \<Rightarrow>
               (case walk_window snap meta per [start..stop] (walk_baseline info new_walk) of
                  Inl e \<Rightarrow> Inl e
                | Inr rows \<Rightarrow> Inr (sort_slice row_less rows))))"

record dated_start =
  ds_PitcherName :: string
  ds_Date :: day
  ds_FPts :: real
  ds_MLBTeam :: string

definition team_pitcher_starts ::
  "(int \<Rightarrow> string + (string \<times> gs_snapshot) list) \<Rightarrow> (day \<rightharpoonup> int) option \<Rightarrow> day \<Rightarrow> day \<Rightarrow> day \<Rightarrow>
   days_error + dated_start list" where
  "team_pitcher_starts snap pmap start stop seasonStart =
     (case team_pitcher_days snap None pmap start stop seasonStart of
        Inl e \<Rightarrow> Inl e
      | Inr days \<Rightarrow> Inr (map (\<lambda>d. \<lparr>ds_PitcherName = pd_PitcherName d, ds_Date = pd_Date d,
                                   ds_FPts = pd_FPts d, ds_MLBTeam = pd_MLBTeam d\<rparr>)
                          (filter pd_Started days)))"

section \<open>The rows against the total\<close>

interpretation row_order: go_order row_less
  by unfold_locales (auto simp: row_less_def split: if_splits)

lemma remember_simps [simp]:
  "pw_prevGS (remember e w) = (pw_prevGS w)(fst e \<mapsto> gs_GS (snd e))"
  "pw_prevFPts (remember e w) = (pw_prevFPts w)(fst e \<mapsto> gs_FPts (snd e))"
  by (simp_all add: remember_def)

lemma day_row_started:
  "pd_Started (day_row date roster w (pid, s)) \<longleftrightarrow> 0 < gs_delta (pw_prevGS w) pid s"
  by (auto simp: day_row_def gs_delta_def Let_def split: option.splits)

text \<open>Nobody gains two starts on one day: the totals of known pitchers rise by at most one.\<close>

fun single_day :: "(string \<times> gs_snapshot) list \<Rightarrow> (string \<rightharpoonup> int) \<Rightarrow> bool" where
  "single_day [] prev = True"
| "single_day ((pid, s) # info) prev =
     ((case prev pid of None \<Rightarrow> True | Some v \<Rightarrow> gs_GS s \<le> v + 1) \<and> single_day info (prev(pid \<mapsto> gs_GS s)))"

fun single_starts ::
  "(int \<Rightarrow> string + (string \<times> gs_snapshot) list) \<Rightarrow> int list \<Rightarrow> (string \<rightharpoonup> int) \<Rightarrow> bool" where
  "single_starts snap [] prev = True"
| "single_starts snap (p # ps) prev =
     (case snap p of Inl _ \<Rightarrow> True
      | Inr info \<Rightarrow> single_day info prev \<and> single_starts snap ps (after_day info prev))"

lemma gs_delta_nonneg: "0 \<le> gs_delta prev pid s"
  by (simp add: gs_delta_def Let_def)

lemma gs_delta_single:
  "(case prev pid of None \<Rightarrow> True | Some v \<Rightarrow> gs_GS s \<le> v + 1) \<Longrightarrow> gs_delta prev pid s \<le> 1"
  by (auto simp: gs_delta_def Let_def split: option.splits)

lemma walk_day_counts:
  assumes "walk_day date roster info w = (rows, w')" and "gs_day info g st = (g', st')"
    and "gw_prevGS g = pw_prevGS w"
  shows "gw_prevGS g' = pw_prevGS w' \<and> pw_prevGS w' = after_day info (pw_prevGS w) \<and>
    int (length (filter pd_Started rows)) \<le> gw_total g' - gw_total g \<and>
    (single_day info (pw_prevGS w) \<longrightarrow> int (length (filter pd_Started rows)) = gw_total g' - gw_total g)"
  using assms
proof (induction info arbitrary: w g st rows)
  case Nil
  then show ?case by (simp add: after_day_def)
next
  case (Cons e info)
  obtain pid s where e: "e = (pid, s)" by (cases e)
  obtain rest where rest: "walk_day date roster info (remember e w) = (rest, w')"
    "rows = day_row date roster w e # rest"
    using Cons.prems(1) by (auto simp: split: prod.splits)
  define d where "d = gs_delta (pw_prevGS w) pid s"
  obtain g1 st1 where g1: "gs_day info g1 st1 = (g', st')" "gw_prevGS g1 = pw_prevGS (remember e w)"
    "gw_total g1 = gw_total g + d"
  proof
    show "gs_day info (g\<lparr>gw_total := gw_total g + d, gw_prevGS := (gw_prevGS g)(pid \<mapsto> gs_GS s),
        gw_prevFPts := (gw_prevFPts g)(pid \<mapsto> gs_FPts s)\<rparr>)
      (if d > 0 then st @ [\<lparr>ps_PitcherName = gs_Name s, ps_FPts = gs_FPts s - zero_or (gw_prevFPts g) pid\<rparr>]
       else st) = (g', st')"
      using Cons.prems(2) by (simp only: e gs_day.simps Let_def d_def Cons.prems(3))
  qed (simp_all add: e Cons.prems(3))
  have started: "pd_Started (day_row date roster w e) \<longleftrightarrow> 0 < d"
    by (simp only: e day_row_started d_def)
  have nonneg: "0 \<le> d" by (simp add: d_def gs_delta_nonneg)
  define m where "m = (pw_prevGS w)(pid \<mapsto> gs_GS s)"
  have m: "pw_prevGS (remember e w) = m" "after_day (e # info) (pw_prevGS w) = after_day info m"
    by (simp_all add: m_def e after_day_def del: fun_upd_apply)
  have single: "single_day (e # info) (pw_prevGS w) \<Longrightarrow> d \<le> 1 \<and> single_day info m"
    using gs_delta_single [where prev = "pw_prevGS w" and pid = pid and s = s] by (simp add: e d_def m_def)
  note ih = Cons.IH [OF rest(1) g1(1,2), unfolded m(1) g1(3)]
  have "int (length (filter pd_Started rows)) = int (length (filter pd_Started rest)) + (if 0 < d then 1 else 0)"
    using started by (simp add: rest(2))
  with ih nonneg single show ?case unfolding m(2) by auto
qed

lemma walk_window_counts:
  assumes "walk_window snap meta per ds w = Inr rows" and "gs_days snap gsMax (map per ds) g = Inr g'"
    and "gw_prevGS g = pw_prevGS w"
  shows "int (length (filter pd_Started rows)) \<le> gw_total g' - gw_total g \<and>
    (single_starts snap (map per ds) (pw_prevGS w) \<longrightarrow>
       int (length (filter pd_Started rows)) = gw_total g' - gw_total g)"
  using assms
proof (induction ds arbitrary: w g rows)
  case Nil
  then show ?case by simp
next
  case (Cons d ds)
  obtain info where info: "snap (per d) = Inr info"
    using Cons.prems(1) by (auto split: sum.splits)
  obtain roster day w' rest where day: "walk_day d roster info w = (day, w')"
    and rest: "walk_window snap meta per ds w' = Inr rest" "rows = day @ rest"
    using Cons.prems(1) info by (auto simp: Let_def split: sum.splits prod.splits)
  obtain g1 st where g1: "gs_day info g [] = (g1, st)" by fastforce
  let ?g = "if gsMax > 0 \<and> gw_total g1 > gsMax then g1\<lparr>gw_overage := gw_overage g1 @ st\<rparr> else g1"
  have g2: "gs_days snap gsMax (map per ds) ?g = Inr g'" using Cons.prems(2) info g1 by simp
  note c = walk_day_counts [OF day g1 Cons.prems(3)]
  have "gw_prevGS ?g = pw_prevGS w'" "gw_total ?g = gw_total g1" using c by simp_all
  with Cons.IH [OF rest(1) g2] c show ?case by (auto simp: rest(2) info)
qed

lemma walk_baseline_GS:
  "pw_prevGS (walk_baseline info w) = fold (\<lambda>e m. m(fst e \<mapsto> gs_GS (snd e))) info (pw_prevGS w)"
  unfolding walk_baseline_def by (induction info arbitrary: w) simp_all

lemma fold_upd_map_of: "fold (\<lambda>e m. m(fst e \<mapsto> f (snd e))) info m = m ++ map_of (rev (map (\<lambda>(k, s). (k, f s)) info))"
  by (induction info arbitrary: m) (auto simp: map_add_def split: option.splits)

text \<open>The totals before the first day, as both walks seed them.\<close>

definition seeded ::
  "(int \<Rightarrow> string + (string \<times> gs_snapshot) list) \<Rightarrow> (day \<rightharpoonup> int) option \<Rightarrow> day \<Rightarrow> day \<Rightarrow> (string \<rightharpoonup> int)" where
  "seeded snap pmap seasonStart start =
     (if start - 1 < seasonStart then Map.empty
      else (case snap (daily_period_for pmap seasonStart (start - 1)) of
              Inl _ \<Rightarrow> Map.empty | Inr info \<Rightarrow> after_day info Map.empty))"

text \<open>C25. The pitcher-day rows and the weekly total agree. Over the same days and snapshots the rows
  marked as started are at most the starts that \<open>GetTeamGS\<close> counts, and exactly as many when
  no known pitcher's total rises by more than one a day.\<close>

theorem rows_count_team_starts:
  assumes rows: "team_pitcher_days snap meta pmap start stop seasonStart = Inr days"
    and total: "get_team_gs snap pmap \<lparr>sp_Number = n, sp_Caption = cap, sp_StartDate = start, sp_EndDate = stop,
        sp_Playoff = po\<rparr> seasonStart today gsMax = Inr (used, over)"
    and elapsed: "stop \<le> today"
    and numbered: "seasonStart \<le> start - 1 \<Longrightarrow> 1 \<le> daily_period_for pmap seasonStart (start - 1)"
  shows "int (length (filter pd_Started days)) \<le> used \<and>
    (single_starts snap (map (daily_period_for pmap seasonStart) [start..stop]) (seeded snap pmap seasonStart start)
       \<longrightarrow> int (length (filter pd_Started days)) = used)"
proof -
  let ?per = "daily_period_for pmap seasonStart"
  have le: "start \<le> stop" using rows by (auto simp: team_pitcher_days_def split: if_splits)
  have walk: "gs_period_walk pmap \<lparr>sp_Number = n, sp_Caption = cap, sp_StartDate = start, sp_EndDate = stop,
      sp_Playoff = po\<rparr> seasonStart today = map ?per [start..stop]"
    using le elapsed by (simp add: gs_period_walk_def Let_def)
  define base where "base = (if start - 1 < seasonStart then Inr [] else snap (?per (start - 1)))"
  have base': "base = (if \<not> start - 1 < seasonStart \<and> ?per (start - 1) \<ge> 1 then snap (?per (start - 1)) else Inr [])"
    using numbered by (simp add: base_def)
  obtain info where info: "base = Inr info"
    using rows le by (auto simp: team_pitcher_days_def Let_def base' [symmetric] split: sum.splits)
  obtain raw where raw: "walk_window snap meta ?per [start..stop] (walk_baseline info new_walk) = Inr raw"
    "days = sort_slice row_less raw"
    using rows le info by (auto simp: team_pitcher_days_def Let_def base' [symmetric] split: sum.splits)
  define g where "g = \<lparr>gw_prevGS = map_of (rev (map (\<lambda>(pid, s). (pid, gs_GS s)) info)),
      gw_prevFPts = map_of (rev (map (\<lambda>(pid, s). (pid, gs_FPts s)) info)), gw_total = 0, gw_overage = []\<rparr>"
  obtain g' where g': "gs_days snap gsMax (map ?per [start..stop]) g = Inr g'" "used = gw_total g'"
    using total le info
    by (auto simp: get_team_gs_def walk base_def Let_def g_def split: sum.splits if_splits)
  have prev: "gw_prevGS g = pw_prevGS (walk_baseline info new_walk)"
    by (simp add: g_def walk_baseline_GS fold_upd_map_of new_walk_def)
  have "pw_prevGS (walk_baseline info new_walk) = seeded snap pmap seasonStart start"
    using info by (auto simp: walk_baseline_GS new_walk_def seeded_def base_def after_day_def case_prod_unfold
      split: if_splits)
  moreover have "length (filter pd_Started days) = length (filter pd_Started raw)"
    by (metis raw(2) mset_sort_slice mset_filter size_mset)
  ultimately show ?thesis
    using walk_window_counts [OF raw(1) g'(1) prev] by (simp add: g'(2)) (simp add: g_def)
qed

definition demo_snaps :: "int \<Rightarrow> string + (string \<times> gs_snapshot) list" where
  "demo_snaps p = Inr [(''a'', \<lparr>gs_GS = 4 + p, gs_FPts = 0, gs_Name = ''Ace'', gs_MLBTeam = ''BOS'', gs_Active = True\<rparr>),
                       (''b'', \<lparr>gs_GS = 9, gs_FPts = 0, gs_Name = ''Bo'', gs_MLBTeam = ''NYY'', gs_Active = (p = 3)\<rparr>)]"

lemma demo_snaps_total:
  "get_team_gs demo_snaps None \<lparr>sp_Number = 1, sp_Caption = [], sp_StartDate = 101, sp_EndDate = 103,
     sp_Playoff = False\<rparr> 100 103 7 = Inr (3, [])"
  by code_simp

lemma demo_snaps_single:
  "single_starts demo_snaps (map (daily_period_for None 100) [101..103]) (seeded demo_snaps None 100 101)"
  by code_simp

theorem rows_count_team_starts_witness:
  "\<exists>days. team_pitcher_days demo_snaps None None 101 103 100 = Inr days \<and> length (filter pd_Started days) = 3"
proof -
  have "case team_pitcher_days demo_snaps None None 101 103 100 of Inl _ \<Rightarrow> False | Inr _ \<Rightarrow> True"
    by code_simp
  then obtain days where rows: "team_pitcher_days demo_snaps None None 101 103 100 = Inr days"
    by (auto split: sum.splits)
  from rows_count_team_starts [OF rows demo_snaps_total] demo_snaps_single
  have "int (length (filter pd_Started days)) = 3" by (simp add: daily_period_for_def period_for_date_def sub_days_def)
  with rows show ?thesis by simp
qed

end
