(* ===== verification/GS_Forecast.thy ===== *)
theory GS_Forecast
  imports Pitcher_Days Pitcher_Optimizer Civil_Time "HOL-Library.AList"
begin

text \<open>
  The weekly game-start budget of a run: the start rates of \<open>internal/lineuprun/gs_startrate.go\<close>,
  the forecast and the fetch cascade of \<open>internal/lineuprun/gsbudget.go\<close>, and \<open>rosterSPNames\<close>
  of \<open>display.go\<close>.

  The Fantrax client and the schedule client are records of the functions the phase calls; a
  read fails with a text. The name normaliser \<open>nrm\<close> and the projection \<open>projPts\<close> are
  parameters. A date is the number of its day, a zero date is \<open>None\<close>, a Go map that is ranged
  over is the list of its entries in the order of the loop. The lines the phase prints are the
  constructors of \<open>gs_line\<close>, without their wording.
\<close>

section \<open>The rostered starters\<close>

definition is_SP_short :: "string \<Rightarrow> bool" where
  "is_SP_short s = str_contains s ''SP''"

definition roster_sp_names :: "(string \<Rightarrow> string) \<Rightarrow> player list \<Rightarrow> (string \<times> player) list" where
  "roster_sp_names nrm roster =
     fold (\<lambda>p m. if p_InMinors p \<or> p_IsInjured p then m
                 else if is_SP_short (p_PosShortNames p) then AList.update (nrm (p_Name p)) p m else m)
       roster []"

section \<open>Start rates\<close>

definition rotation_size :: real where
  "rotation_size = 5"

definition gs_start_rate_window :: int where
  "gs_start_rate_window = 28"

record start_rate_params =
  rp_Prior :: real
  rp_MinOpportunities :: int
  rp_Cap :: real

definition shipped_start_rate_params :: start_rate_params where
  "shipped_start_rate_params = \<lparr>rp_Prior = 2, rp_MinOpportunities = 5, rp_Cap = 1 / 4\<rparr>"

record start_rate_result =
  sr_Rate :: "string \<rightharpoonup> real"
  sr_Opportunities :: "string \<rightharpoonup> int"

definition no_rates :: start_rate_result where
  "no_rates = \<lparr>sr_Rate = Map.empty, sr_Opportunities = Map.empty\<rparr>"

text \<open>A row counts as an opportunity: the four \<open>continue\<close>s of the loop.\<close>

definition tally_skips :: "(day \<rightharpoonup> (string \<Rightarrow> bool)) \<Rightarrow> pitcher_day \<Rightarrow> bool" where
  "tally_skips playingOn pd =
     (if pd_FirstAppearance pd then True
      else if pd_StatusID pd = status_IL \<or> pd_StatusID pd = status_minors then True
      else if \<not> is_SP_short (pd_PosShortNames pd) then True
      else \<not> (case playingOn (pd_Date pd) of None \<Rightarrow> False | Some playing \<Rightarrow> playing (pd_MLBTeam pd)))"

definition tally_row ::
  "(string \<Rightarrow> string) \<Rightarrow> (day \<rightharpoonup> (string \<Rightarrow> bool)) \<Rightarrow> pitcher_day \<Rightarrow>
   (string \<rightharpoonup> int \<times> int) \<Rightarrow> (string \<rightharpoonup> int \<times> int)" where
  "tally_row nrm playingOn pd byName =
     (if tally_skips playingOn pd then byName
      else (let key = nrm (pd_PitcherName pd);
                (opp, st) = (case byName key of None \<Rightarrow> (0, 0) | Some t \<Rightarrow> t)
            in byName(key \<mapsto> (opp + 1, if pd_Started pd then st + 1 else st))))"

definition start_rate :: "start_rate_params \<Rightarrow> int \<times> int \<Rightarrow> real" where
  "start_rate p t =
     (let r = (real_of_int (snd t) + rp_Prior p / rotation_size) / (real_of_int (fst t) + rp_Prior p)
      in if rp_Cap p > 0 \<and> r > rp_Cap p then rp_Cap p else r)"

definition tally_start_rates ::
  "(string \<Rightarrow> string) \<Rightarrow> pitcher_day list \<Rightarrow> (day \<rightharpoonup> (string \<Rightarrow> bool)) \<Rightarrow> start_rate_params \<Rightarrow> start_rate_result" where
  "tally_start_rates nrm days playingOn p =
     (let byName = fold (tally_row nrm playingOn) days Map.empty in
      \<lparr>sr_Rate = (\<lambda>key. case byName key of None \<Rightarrow> None
          | Some t \<Rightarrow> if fst t = 0 then None
                      else if fst t < rp_MinOpportunities p then None else Some (start_rate p t)),
       sr_Opportunities = (\<lambda>key. case byName key of None \<Rightarrow> None
          | Some t \<Rightarrow> if fst t = 0 then None else Some (fst t))\<rparr>)"

section \<open>Reading a day at a time\<close>

text \<open>The loops over dates read one value a day and stop at the first failure.\<close>

fun read_all :: "('k \<Rightarrow> 'e + 'a) \<Rightarrow> 'k list \<Rightarrow> 'e + 'a list" where
  "read_all f [] = Inr []"
| "read_all f (k # ks) =
     (case f k of Inl e \<Rightarrow> Inl e
      | Inr x \<Rightarrow> (case read_all f ks of Inl e \<Rightarrow> Inl e | Inr xs \<Rightarrow> Inr (x # xs)))"

record gs_client =
  gc_MatchupWeekBounds :: "day \<Rightarrow> day \<Rightarrow> string + (day \<times> day) option"
  gc_TeamGS :: "scoring_period \<Rightarrow> day \<Rightarrow> day \<Rightarrow> string + int"
  gc_GSLimits :: "int \<Rightarrow> string + (int option \<times> int option)"
  gc_PitcherDaysWithStatus :: "day \<Rightarrow> day \<Rightarrow> day \<Rightarrow> string + pitcher_day list"

record schedule_client =
  sd_TeamsPlayingOn :: "day \<Rightarrow> string + (string \<Rightarrow> bool)"
  sd_ProbableStarters :: "day \<Rightarrow> string + (string \<times> string) list"

datatype rates_error = Walk_failed day day string | Rates_schedule_unavailable day string

definition compute_start_rates ::
  "(string \<Rightarrow> string) \<Rightarrow> gs_client \<Rightarrow> schedule_client \<Rightarrow> day \<Rightarrow> day \<Rightarrow> rates_error + start_rate_result" where
  "compute_start_rates nrm ft sched seasonStart today =
     (let stop = today - 1;
          start = (if today - gs_start_rate_window < seasonStart then seasonStart
                   else today - gs_start_rate_window)
      in if stop < start then Inr no_rates
         else (case gc_PitcherDaysWithStatus ft start stop seasonStart of
                 Inl e \<Rightarrow> Inl (Walk_failed start stop e)
               | Inr days \<Rightarrow>
                  (case read_all (\<lambda>d. case sd_TeamsPlayingOn sched d of
                             Inl e \<Rightarrow> Inl (Rates_schedule_unavailable d e)
                           | Inr playing \<Rightarrow> Inr (d, playing)) [start..stop] of
                     Inl e \<Rightarrow> Inl e
                   | Inr entries \<Rightarrow>
                      Inr (tally_start_rates nrm days (map_of entries) shipped_start_rate_params))))"

record start_rate_coverage =
  cv_Priced :: int
  cv_BelowMin :: int
  cv_NoHistory :: int
  cv_MedianOpps :: int

definition summarise_start_rates :: "start_rate_result \<Rightarrow> (string \<times> player) list \<Rightarrow> start_rate_coverage" where
  "summarise_start_rates res sps =
     (let keys = map fst sps;
          priced = filter (\<lambda>k. sr_Rate res k \<noteq> None) keys;
          rest = filter (\<lambda>k. sr_Rate res k = None) keys;
          opps = sort_slice (<) (map (\<lambda>k. case sr_Opportunities res k of None \<Rightarrow> 0 | Some n \<Rightarrow> n) priced)
      in \<lparr>cv_Priced = int (length priced),
          cv_BelowMin = int (length (filter (\<lambda>k. sr_Opportunities res k \<noteq> None) rest)),
          cv_NoHistory = int (length (filter (\<lambda>k. sr_Opportunities res k = None) rest)),
          cv_MedianOpps = (if opps = [] then 0 else opps ! (length opps div 2))\<rparr>)"

text \<open>\<open>StartRateCache.get\<close>: a nil cache is \<open>None\<close>, an unfilled one \<open>Some None\<close>; the error is
  memoised with the result.\<close>

type_synonym rate_cache = "(rates_error + start_rate_result) option option"

definition cache_get ::
  "rate_cache \<Rightarrow> rates_error + start_rate_result \<Rightarrow> (rates_error + start_rate_result) \<times> rate_cache" where
  "cache_get c measured =
     (case c of None \<Rightarrow> (measured, None)
      | Some None \<Rightarrow> (measured, Some (Some measured))
      | Some (Some r) \<Rightarrow> (r, Some (Some r)))"

section \<open>The forecast\<close>

datatype sp_bucket = Confirmed real | Measured real | Flat | Settled

definition announced :: "(string \<times> string) list \<Rightarrow> string \<Rightarrow> bool" where
  "announced probs team = list_ex (\<lambda>e. snd e = team) probs"

definition bucket_of ::
  "(string \<Rightarrow> string) \<Rightarrow> (player \<Rightarrow> real) \<Rightarrow> (string \<rightharpoonup> real) \<Rightarrow> (string \<Rightarrow> bool) \<Rightarrow>
   (string \<times> string) list \<Rightarrow> string \<times> player \<Rightarrow> sp_bucket" where
  "bucket_of nrm projPts startRate playing probs e =
     (let (key, p) = e in
      if match_probable nrm (p_Name p) (p_MLBTeam p) (map_of probs) = ConfirmedStarter then Confirmed (projPts p)
      else if playing (p_MLBTeam p) \<and> \<not> announced probs (p_MLBTeam p)
        then (case startRate key of Some r \<Rightarrow> Measured r | None \<Rightarrow> Flat)
      else Settled)"

definition confirmed_of :: "sp_bucket list \<Rightarrow> real list" where
  "confirmed_of bs = List.map_filter (\<lambda>b. case b of Confirmed x \<Rightarrow> Some x | _ \<Rightarrow> None) bs"

definition measured_of :: "sp_bucket list \<Rightarrow> real list" where
  "measured_of bs = List.map_filter (\<lambda>b. case b of Measured x \<Rightarrow> Some x | _ \<Rightarrow> None) bs"

definition flat_of :: "sp_bucket list \<Rightarrow> nat" where
  "flat_of bs = length (filter (\<lambda>b. b = Flat) bs)"

definition forecast_day :: "nat \<Rightarrow> day \<Rightarrow> sp_bucket list \<Rightarrow> day_forecast" where
  "forecast_day numPSlots d bs =
     (let confirmed = sort_slice (>) (confirmed_of bs);
          confirmed = (if length confirmed > numPSlots then take numPSlots confirmed else confirmed);
          demand = foldl (+) (real (flat_of bs) / rotation_size) (sort_slice (<) (measured_of bs))
      in \<lparr>df_Date = d, df_ConfirmedStarters = confirmed,
          df_Estimated = max (min demand (real_of_int (int numPSlots - int (length confirmed)))) 0\<rparr>)"

datatype forecast_error = Schedule_unavailable day string | Probables_unavailable day string

definition build_gs_forecast ::
  "(string \<Rightarrow> string) \<Rightarrow> schedule_client \<Rightarrow> (string \<times> player) list \<Rightarrow> nat \<Rightarrow> day \<Rightarrow> day \<Rightarrow>
   (player \<Rightarrow> real) \<Rightarrow> (string \<rightharpoonup> real) \<Rightarrow> forecast_error + day_forecast list" where
  "build_gs_forecast nrm sched sps numPSlots today weekEnd projPts startRate =
     read_all (\<lambda>d. case sd_TeamsPlayingOn sched d of
                 Inl e \<Rightarrow> Inl (Schedule_unavailable d e)
               | Inr playing \<Rightarrow>
                  (case sd_ProbableStarters sched d of
                     Inl e \<Rightarrow> Inl (Probables_unavailable d e)
                   | Inr probs \<Rightarrow>
                      Inr (forecast_day numPSlots d (map (bucket_of nrm projPts startRate playing probs) sps))))
       [today + 1..weekEnd]"

definition today_unsettled_starts ::
  "(string \<Rightarrow> string) \<Rightarrow> schedule_client \<Rightarrow> (string \<times> player) list \<Rightarrow> nat \<Rightarrow> day \<Rightarrow> string + int" where
  "today_unsettled_starts nrm sched sps numPSlots today =
     (case sd_ProbableStarters sched today of
        Inl e \<Rightarrow> Inl e
      | Inr probs \<Rightarrow>
         Inr (min (int (length (filter (\<lambda>(_, p). \<not> (p_Locked p \<or> p_Status p \<noteq> ''Active'') \<and>
                match_probable nrm (p_Name p) (p_MLBTeam p) (map_of probs) = ConfirmedStarter) sps)))
              (int numPSlots)))"

section \<open>The fetch cascade\<close>

record gs_inputs =
  gi_Today :: day
  gi_SeasonStart :: "day option"
  gi_SeasonEnd :: "day option"
  gi_Periods :: "scoring_period list"
  gi_PeriodsErr :: "string option"
  gi_PitcherRoster :: "player list"
  gi_NumPitcherSlots :: nat
  gi_ProjPts :: "player \<Rightarrow> real"
  gi_StartRates :: rate_cache

datatype gs_line =
    Season_ended day | Season_starts day
  | Week_unknown string | No_week | Walk_error string | Periods_error string | No_period
  | Limit_error int string | No_max int
  | Limit_line int int day day
  | Rates_unavailable rates_error | Rates_line start_rate_coverage
  | Forecast_unavailable forecast_error | Today_unavailable string
  | Budget_line int int int int real

datatype gs_alert = Limit_fetch_failed int string

record gs_decision =
  gd_Budget :: "gs_budget option"
  gd_Logs :: "gs_line list"
  gd_Alert :: "gs_alert option"
  gd_Inapplicable :: bool
  gd_Notices :: "gs_line list"
  gd_Period :: int
  gd_Season :: int

definition no_decision :: gs_decision where
  "no_decision = \<lparr>gd_Budget = None, gd_Logs = [], gd_Alert = None, gd_Inapplicable = False,
                  gd_Notices = [], gd_Period = 0, gd_Season = 0\<rparr>"

definition logf :: "gs_line \<Rightarrow> gs_decision \<Rightarrow> gs_decision" where
  "logf l d = d\<lparr>gd_Logs := gd_Logs d @ [l]\<rparr>"

definition noticef :: "gs_line \<Rightarrow> gs_decision \<Rightarrow> gs_decision" where
  "noticef l d = d\<lparr>gd_Notices := gd_Notices d @ [l]\<rparr>"

text \<open>The last part of the cascade, once the limit of the period is known.\<close>

definition budget_from_limit ::
  "(string \<Rightarrow> string) \<Rightarrow> gs_client \<Rightarrow> schedule_client \<Rightarrow> gs_inputs \<Rightarrow> day \<Rightarrow> day \<Rightarrow> day \<Rightarrow> int \<Rightarrow>
   int option \<Rightarrow> int \<Rightarrow> gs_decision \<Rightarrow> gs_decision \<times> rate_cache" where
  "budget_from_limit nrm ft sched inp seasonStart weekStart weekEnd used liveMin gsLimit d0 =
     (let gsFloor = (case liveMin of None \<Rightarrow> 0 | Some m \<Rightarrow> m);
          d1 = logf (Limit_line gsLimit gsFloor weekStart weekEnd) d0;
          sps = roster_sp_names nrm (gi_PitcherRoster inp);
          (measured, cache) = cache_get (gi_StartRates inp)
             (compute_start_rates nrm ft sched seasonStart (gi_Today inp));
          rates = (case measured of Inl _ \<Rightarrow> no_rates | Inr r \<Rightarrow> r);
          d2 = (case measured of Inl e \<Rightarrow> noticef (Rates_unavailable e) d1 | Inr _ \<Rightarrow> d1);
          d3 = noticef (Rates_line (summarise_start_rates rates sps)) d2
      in case build_gs_forecast nrm sched sps (gi_NumPitcherSlots inp) (gi_Today inp) weekEnd
                (gi_ProjPts inp) (sr_Rate rates) of
           Inl e \<Rightarrow> (logf (Forecast_unavailable e) d3, cache)
         | Inr forecast \<Rightarrow>
            (let unsettled = today_unsettled_starts nrm sched sps (gi_NumPitcherSlots inp) (gi_Today inp);
                 d4 = (case unsettled of Inl e \<Rightarrow> logf (Today_unavailable e) d3 | Inr _ \<Rightarrow> d3);
                 b = \<lparr>gb_Limit = gsLimit, gb_Floor = gsFloor, gb_Used = used, gb_Today = gi_Today inp,
                      gb_WeekEnd = weekEnd, gb_Forecast = forecast,
                      gb_TodayUnsettled = (case unsettled of Inl _ \<Rightarrow> 0 | Inr n \<Rightarrow> n)\<rparr>
             in (logf (Budget_line used gsLimit gsFloor (need_for_floor (Some b)) (future_demand (Some b)))
                   (d4\<lparr>gd_Budget := Some b\<rparr>), cache)))"

definition off_season :: "gs_inputs \<Rightarrow> day \<Rightarrow> gs_line option" where
  "off_season inp seasonStart =
     (case gi_SeasonEnd inp of None \<Rightarrow> None
      | Some seasonEnd \<Rightarrow>
          if gi_Today inp < seasonStart \<or> gi_Today inp > seasonEnd
          then Some (if gi_Today inp > seasonEnd then Season_ended seasonEnd else Season_starts seasonStart)
          else None)"

definition compute_gs_budget ::
  "(string \<Rightarrow> string) \<Rightarrow> gs_client \<Rightarrow> schedule_client \<Rightarrow> gs_inputs \<Rightarrow> gs_decision \<times> rate_cache" where
  "compute_gs_budget nrm ft sched inp =
     (let today = gi_Today inp; d = no_decision; done = (\<lambda>d. (d, gi_StartRates inp)) in
      case gi_SeasonStart inp of
        None \<Rightarrow> done d
      | Some seasonStart \<Rightarrow>
         (case off_season inp seasonStart of
            Some line \<Rightarrow> done ((noticef line d)\<lparr>gd_Inapplicable := True\<rparr>)
          | None \<Rightarrow>
             (case gc_MatchupWeekBounds ft today seasonStart of
                Inl e \<Rightarrow> done (logf (Week_unknown e) d)
              | Inr None \<Rightarrow> done (logf No_week d)
              | Inr (Some (weekStart, weekEnd)) \<Rightarrow>
                 (case gc_TeamGS ft \<lparr>sp_Number = 0, sp_Caption = [], sp_StartDate = weekStart,
                          sp_EndDate = today, sp_Playoff = False\<rparr> seasonStart today of
                    Inl e \<Rightarrow> done (logf (Walk_error e) d)
                  | Inr used \<Rightarrow>
                     (case gi_PeriodsErr inp of
                        Some e \<Rightarrow> done (logf (Periods_error e) d)
                      | None \<Rightarrow>
                         (case find_current_period (gi_Periods inp) today of
                            None \<Rightarrow> done (logf No_period d)
                          | Some sp \<Rightarrow>
                             (let d' = d\<lparr>gd_Period := sp_Number sp, gd_Season := year_of seasonStart\<rparr> in
                              (case gc_GSLimits ft (sp_Number sp) of
                                 Inl e \<Rightarrow> done ((logf (Limit_error (sp_Number sp) e) d')
                                            \<lparr>gd_Alert := Some (Limit_fetch_failed (sp_Number sp) e)\<rparr>)
                               | Inr (_, None) \<Rightarrow> done (logf (No_max (sp_Number sp)) d')
                               | Inr (liveMin, Some gsLimit) \<Rightarrow>
                                   budget_from_limit nrm ft sched inp seasonStart weekStart weekEnd used
                                     liveMin gsLimit d'))))))))"

section \<open>Lemmas\<close>

interpretation real_desc: go_order "(>) :: real \<Rightarrow> real \<Rightarrow> bool"
  by unfold_locales auto

interpretation real_asc: go_order "(<) :: real \<Rightarrow> real \<Rightarrow> bool"
  by unfold_locales auto

interpretation int_asc: go_order "(<) :: int \<Rightarrow> int \<Rightarrow> bool"
  by unfold_locales auto

lemma read_all_Inr: "read_all f ks = Inr xs \<longleftrightarrow> map f ks = map Inr xs"
proof (induction ks arbitrary: xs)
  case (Cons k ks)
  show ?case
  proof (cases "read_all f ks")
    case (Inl e)
    then have "map f ks \<noteq> map Inr ys" for ys using Cons.IH [of ys] by simp
    then show ?thesis using Inl by (cases xs) (auto split: sum.splits)
  next
    case (Inr ys)
    then have "map f ks = map Inr ys" using Cons.IH [of ys] by simp
    then show ?thesis using Inr by (cases xs) (auto simp: inj_map_eq_map split: sum.splits)
  qed
qed auto

lemma read_all_list_all2: "read_all f ks = Inr xs \<Longrightarrow> list_all2 (\<lambda>k x. f k = Inr x) ks xs"
  by (induction ks arbitrary: xs) (auto split: sum.splits)

lemma read_all_Inl: "(\<exists>e. read_all f ks = Inl e) \<longleftrightarrow> (\<exists>k \<in> set ks. \<exists>e. f k = Inl e)"
  by (induction ks) (auto split: sum.splits)

lemma read_all_cong: "(\<And>k. k \<in> set ks \<Longrightarrow> f k = g k) \<Longrightarrow> read_all f ks = read_all g ks"
  by (induction ks) (auto split: sum.splits)

definition opportunities ::
  "(string \<Rightarrow> string) \<Rightarrow> (day \<rightharpoonup> (string \<Rightarrow> bool)) \<Rightarrow> string \<Rightarrow> pitcher_day list \<Rightarrow> pitcher_day list" where
  "opportunities nrm playingOn key days =
     filter (\<lambda>pd. \<not> tally_skips playingOn pd \<and> nrm (pd_PitcherName pd) = key) days"

definition tally_of :: "pitcher_day list \<Rightarrow> int \<times> int" where
  "tally_of rows = (int (length rows), int (length (filter pd_Started rows)))"

lemma tally_fold:
  "fold (tally_row nrm playingOn) days m key =
     (let rows = opportunities nrm playingOn key days; (a, b) = (case m key of None \<Rightarrow> (0, 0) | Some t \<Rightarrow> t)
      in if rows = [] then m key else Some (a + fst (tally_of rows), b + snd (tally_of rows)))"
proof (induction days arbitrary: m)
  case Nil
  then show ?case by (simp add: opportunities_def)
next
  case (Cons pd days)
  let ?m = "tally_row nrm playingOn pd m"
  show ?case
  proof (cases "\<not> tally_skips playingOn pd \<and> nrm (pd_PitcherName pd) = key")
    case True
    have opp: "opportunities nrm playingOn key (pd # days) = pd # opportunities nrm playingOn key days"
      using True by (simp add: opportunities_def)
    obtain a b where ab: "(case m key of None \<Rightarrow> (0, 0) | Some t \<Rightarrow> t) = (a, b)" by fastforce
    have "?m key = Some (a + 1, if pd_Started pd then b + 1 else b)"
      using True ab by (auto simp: tally_row_def Let_def)
    then show ?thesis by (auto simp: Cons.IH opp ab tally_of_def Let_def)
  next
    case False
    then have "opportunities nrm playingOn key (pd # days) = opportunities nrm playingOn key days"
      by (auto simp: opportunities_def)
    moreover have "?m key = m key" using False by (auto simp: tally_row_def Let_def split: prod.splits)
    ultimately show ?thesis unfolding fold_simps(2) Cons.IH by (simp only: Let_def)
  qed
qed

lemma line_simps [simp]:
  "gd_Budget (logf l d) = gd_Budget d" "gd_Budget (noticef l d) = gd_Budget d"
  "gd_Alert (logf l d) = gd_Alert d" "gd_Alert (noticef l d) = gd_Alert d"
  "gd_Inapplicable (logf l d) = gd_Inapplicable d" "gd_Inapplicable (noticef l d) = gd_Inapplicable d"
  "gd_Period (logf l d) = gd_Period d" "gd_Period (noticef l d) = gd_Period d"
  "gd_Season (logf l d) = gd_Season d" "gd_Season (noticef l d) = gd_Season d"
  "gd_Logs (logf l d) = gd_Logs d @ [l]" "gd_Notices (noticef l d) = gd_Notices d @ [l]"
  "gd_Logs (noticef l d) = gd_Logs d" "gd_Notices (logf l d) = gd_Notices d"
  by (simp_all add: logf_def noticef_def)

lemma no_decision_simps [simp]:
  "gd_Budget no_decision = None" "gd_Alert no_decision = None" "\<not> gd_Inapplicable no_decision"
  "gd_Logs no_decision = []" "gd_Notices no_decision = []"
  by (simp_all add: no_decision_def)

text \<open>The rates a run prices with: the table of the cache or a fresh one, none when it failed.\<close>

definition rates_of :: "(string \<Rightarrow> string) \<Rightarrow> gs_client \<Rightarrow> schedule_client \<Rightarrow> gs_inputs \<Rightarrow> day \<Rightarrow> start_rate_result" where
  "rates_of nrm ft sched inp seasonStart =
     (case fst (cache_get (gi_StartRates inp) (compute_start_rates nrm ft sched seasonStart (gi_Today inp))) of
        Inl _ \<Rightarrow> no_rates | Inr r \<Rightarrow> r)"

abbreviation run_forecast ::
  "(string \<Rightarrow> string) \<Rightarrow> schedule_client \<Rightarrow> gs_inputs \<Rightarrow> day \<Rightarrow> start_rate_result \<Rightarrow>
   forecast_error + day_forecast list" where
  "run_forecast nrm sched inp weekEnd rates \<equiv>
     build_gs_forecast nrm sched (roster_sp_names nrm (gi_PitcherRoster inp)) (gi_NumPitcherSlots inp)
       (gi_Today inp) weekEnd (gi_ProjPts inp) (sr_Rate rates)"

lemma budget_from_limit_eqs:
  defines "D nrm ft sched inp ss ws we used lmin l d \<equiv> fst (budget_from_limit nrm ft sched inp ss ws we used lmin l d)"
  shows "gd_Budget d = None \<Longrightarrow> gd_Budget (D nrm ft sched inp ss ws we used lmin l d) =
      (case run_forecast nrm sched inp we (rates_of nrm ft sched inp ss) of Inl e \<Rightarrow> None
       | Inr fc \<Rightarrow> Some \<lparr>gb_Limit = l, gb_Floor = (case lmin of None \<Rightarrow> 0 | Some m \<Rightarrow> m), gb_Used = used,
            gb_Today = gi_Today inp, gb_WeekEnd = we, gb_Forecast = fc,
            gb_TodayUnsettled = (case today_unsettled_starts nrm sched (roster_sp_names nrm (gi_PitcherRoster inp))
                (gi_NumPitcherSlots inp) (gi_Today inp) of Inl _ \<Rightarrow> 0 | Inr n \<Rightarrow> n)\<rparr>)"
    and "gd_Alert (D nrm ft sched inp ss ws we used lmin l d) = gd_Alert d"
    and "gd_Inapplicable (D nrm ft sched inp ss ws we used lmin l d) = gd_Inapplicable d"
    and "gd_Period (D nrm ft sched inp ss ws we used lmin l d) = gd_Period d"
    and "gd_Season (D nrm ft sched inp ss ws we used lmin l d) = gd_Season d"
    and "run_forecast nrm sched inp we (rates_of nrm ft sched inp ss) = Inl e \<Longrightarrow>
      Forecast_unavailable e \<in> set (gd_Logs (D nrm ft sched inp ss ws we used lmin l d))"
  unfolding D_def budget_from_limit_def rates_of_def
  by (simp_all add: Let_def split: prod.split sum.split) (auto split: sum.splits)

section \<open>Properties\<close>

text \<open>A start rate is a measurement. A pitcher is priced from his own record exactly when he
  has at least five countable days (his club played, he was not injured or in the minors, was
  eligible to start, and had a baseline); the price is the shrunk share of those days on which
  he started, at most one turn in four and never zero.\<close>

theorem start_rates_measured:
  "sr_Rate (tally_start_rates nrm days playingOn shipped_start_rate_params) key =
     (let rows = opportunities nrm playingOn key days;
          n = real (length rows); s = real (length (filter pd_Started rows))
      in if length rows < 5 then None else Some (min (1 / 4) ((s + 2 / 5) / (n + 2)))) \<and>
   pred_option (\<lambda>r. 0 < r \<and> r \<le> 1 / 4) (sr_Rate (tally_start_rates nrm days playingOn shipped_start_rate_params) key) \<and>
   sr_Opportunities (tally_start_rates nrm days playingOn shipped_start_rate_params) key =
     (if opportunities nrm playingOn key days = [] then None
      else Some (int (length (opportunities nrm playingOn key days))))"
proof -
  let ?rows = "opportunities nrm playingOn key days"
  let ?s = "real (length (filter pd_Started ?rows))" and ?n = "real (length ?rows)"
  have t: "fold (tally_row nrm playingOn) days Map.empty key = (if ?rows = [] then None else Some (tally_of ?rows))"
    by (simp add: tally_fold tally_of_def Let_def)
  have rate: "start_rate shipped_start_rate_params (tally_of ?rows) = min (1 / 4) ((?s + 2 / 5) / (?n + 2))"
    by (simp add: start_rate_def shipped_start_rate_params_def tally_of_def rotation_size_def Let_def min_def)
  have "0 < (?s + 2 / 5) / (?n + 2)" by (intro divide_pos_pos) simp_all
  then have "0 < start_rate shipped_start_rate_params (tally_of ?rows) \<and>
      start_rate shipped_start_rate_params (tally_of ?rows) \<le> 1 / 4"
    unfolding rate by (intro conjI min.cobounded1) simp
  moreover have "fst (tally_of ?rows) = int (length ?rows)" by (simp add: tally_of_def)
  moreover have "rp_MinOpportunities shipped_start_rate_params = 5" by (simp add: shipped_start_rate_params_def)
  ultimately show ?thesis unfolding Let_def rate [symmetric] by (simp add: tally_start_rates_def Let_def t)
qed

lemma map_filter_mset: "mset xs = mset ys \<Longrightarrow> mset (List.map_filter f xs) = mset (List.map_filter f ys)"
  by (simp only: map_filter_def mset_map mset_filter)

lemma forecast_day_mset: "mset bs = mset bs' \<Longrightarrow> forecast_day n d bs = forecast_day n d bs'"
proof -
  assume m: "mset bs = mset bs'"
  have c: "sort_slice (>) (confirmed_of bs) = sort_slice (>) (confirmed_of bs')"
    "sort_slice (<) (measured_of bs) = sort_slice (<) (measured_of bs')"
    unfolding confirmed_of_def measured_of_def by (rule real_desc.sort_slice_mset real_asc.sort_slice_mset; auto intro: map_filter_mset m)+
  have f: "flat_of bs = flat_of bs'" unfolding flat_of_def by (metis m mset_filter size_mset)
  show ?thesis by (simp only: forecast_day_def c f)
qed

lemma build_gs_forecast_Inr:
  assumes "build_gs_forecast nrm sched sps n today weekEnd projPts rate = Inr fc"
  shows "list_all2 (\<lambda>d f. \<exists>playing probs. sd_TeamsPlayingOn sched d = Inr playing \<and> sd_ProbableStarters sched d = Inr probs \<and>
      f = forecast_day n d (map (bucket_of nrm projPts rate playing probs) sps)) [today + 1..weekEnd] fc"
  by (rule list_all2_mono [OF read_all_list_all2 [OF assms [unfolded build_gs_forecast_def]]])
    (auto split: sum.splits)

lemma forecast_day_bounds:
  "df_Date (forecast_day n d bs) = d"
  "sorted_wrt (\<ge>) (df_ConfirmedStarters (forecast_day n d bs))"
  "df_ConfirmedStarters (forecast_day n d bs) = take n (sort_slice (>) (confirmed_of bs))"
  "0 \<le> df_Estimated (forecast_day n d bs)"
  "real (length (df_ConfirmedStarters (forecast_day n d bs))) + df_Estimated (forecast_day n d bs) \<le> real n"
proof -
  let ?c = "sort_slice (>) (confirmed_of bs)"
  show c: "df_ConfirmedStarters (forecast_day n d bs) = take n ?c" by (simp add: forecast_day_def Let_def)
  have "sorted_wrt (\<ge>) ?c" using real_desc.sorted_sort_slice [of "confirmed_of bs"] by (simp add: not_less)
  then show "sorted_wrt (\<ge>) (df_ConfirmedStarters (forecast_day n d bs))" unfolding c by (rule sorted_wrt_take)
  show "df_Date (forecast_day n d bs) = d" "0 \<le> df_Estimated (forecast_day n d bs)"
    by (simp_all add: forecast_day_def Let_def)
  have "df_Estimated (forecast_day n d bs) \<le> max (real_of_int (int n - int (length (take n ?c)))) 0"
    by (simp add: forecast_day_def Let_def)
  then show "real (length (df_ConfirmedStarters (forecast_day n d bs))) + df_Estimated (forecast_day n d bs) \<le> real n"
    unfolding c by simp
qed

lemma list_all2_dates:
  "list_all2 (\<lambda>d f. df_Date f = d \<and> Q f) ds fc \<Longrightarrow> map df_Date fc = ds \<and> list_all Q fc"
  by (induction rule: list_all2_induct) auto

abbreviation within_slots :: "nat \<Rightarrow> day_forecast \<Rightarrow> bool" where
  "within_slots n f \<equiv> sorted_wrt (\<ge>) (df_ConfirmedStarters f) \<and> 0 \<le> df_Estimated f \<and>
     real (length (df_ConfirmedStarters f)) + df_Estimated f \<le> real n"

lemma forecast_days_within:
  assumes "build_gs_forecast nrm sched sps n today weekEnd projPts rate = Inr fc"
  shows "map df_Date fc = [today + 1..weekEnd] \<and> list_all (within_slots n) fc"
proof -
  have "list_all2 (\<lambda>d f. df_Date f = d \<and> within_slots n f) [today + 1..weekEnd] fc"
    using build_gs_forecast_Inr [OF assms]
    by (rule list_all2_mono) (clarify, intro conjI forecast_day_bounds(1,2,4,5))
  then show ?thesis by (rule list_all2_dates)
qed

lemma demand_within:
  "list_all (within_slots n) fc \<Longrightarrow>
   sum_list (map (\<lambda>f. real (length (df_ConfirmedStarters f)) + df_Estimated f) fc) \<le> real n * real (length fc)"
  by (induction fc) (auto simp: distrib_left)

text \<open>The forecast never promises more starts than the roster can field. It has one entry for
  each remaining day of the week, tomorrow to the last, in order; the confirmed starts of a
  day are sorted best first and the estimate is not negative; both together fit into the
  pitcher slots; so the demand of the whole week is at most the slots times the days.\<close>

theorem forecast_within_slots:
  assumes "build_gs_forecast nrm sched sps n today weekEnd projPts rate = Inr fc"
  shows "map df_Date fc = [today + 1..weekEnd] \<and>
    list_all (\<lambda>f. sorted_wrt (\<ge>) (df_ConfirmedStarters f) \<and> 0 \<le> df_Estimated f \<and>
      real (length (df_ConfirmedStarters f)) + df_Estimated f \<le> real n) fc \<and>
    future_demand (Some (b\<lparr>gb_Today := today, gb_Forecast := fc\<rparr>)) \<le> real n * real (nat (weekEnd - today))"
proof -
  note b = forecast_days_within [OF assms]
  have "length (map df_Date fc) = nat (weekEnd - today)" using b by simp
  then have len: "length fc = nat (weekEnd - today)" by simp
  have "list_all (\<lambda>f. df_Date f > today) fc"
    using b unfolding list_all_iff by (metis atLeastAtMost_iff image_eqI list.set_map set_upto zless_add1_eq less_add_one order_less_le_trans)
  then have "future_days (b\<lparr>gb_Today := today, gb_Forecast := fc\<rparr>) = fc"
    by (simp add: future_days_def list_all_iff filter_id_conv)
  then have "future_demand (Some (b\<lparr>gb_Today := today, gb_Forecast := fc\<rparr>)) =
      sum_list (map (\<lambda>f. real (length (df_ConfirmedStarters f)) + df_Estimated f) fc)"
    by (simp add: future_demand_def foldl_add)
  with demand_within [of n fc] b len show ?thesis by simp
qed

text \<open>A forecast is the same however Go walks the map of starters: for every order of the same
  entries, the forecast (or the error) and the count of today's unsettled starts agree.\<close>

theorem forecast_order_free:
  assumes "mset sps = mset sps'"
  shows "build_gs_forecast nrm sched sps n today weekEnd projPts rate =
      build_gs_forecast nrm sched sps' n today weekEnd projPts rate \<and>
    today_unsettled_starts nrm sched sps n today = today_unsettled_starts nrm sched sps' n today \<and>
    summarise_start_rates res sps = summarise_start_rates res sps'"
proof (intro conjI)
  have m: "mset (map f sps) = mset (map f sps')" for f :: "string \<times> player \<Rightarrow> 'b"
    by (simp only: mset_map assms)
  have l: "length (filter P sps) = length (filter P sps')" for P by (metis assms mset_filter size_mset)
  show "build_gs_forecast nrm sched sps n today weekEnd projPts rate =
      build_gs_forecast nrm sched sps' n today weekEnd projPts rate"
    unfolding build_gs_forecast_def
    by (rule read_all_cong) (auto split: sum.splits intro!: forecast_day_mset simp: assms)
  show "today_unsettled_starts nrm sched sps n today = today_unsettled_starts nrm sched sps' n today"
    unfolding today_unsettled_starts_def by (simp only: l)
  have k: "length (filter P (map fst sps)) = length (filter P (map fst sps'))" for P
    by (simp add: filter_map l)
  have kk: "length (filter P (filter Q (map fst sps))) = length (filter P (filter Q (map fst sps')))" for P Q
    by (simp only: filter_filter k)
  have "mset (map f (filter P (map fst sps))) = mset (map f (filter P (map fst sps')))" for f :: "string \<Rightarrow> int" and P
    by (simp only: mset_map mset_filter assms)
  then have o: "sort_slice (<) (map f (filter P (map fst sps))) = sort_slice (<) (map f (filter P (map fst sps')))"
    for f :: "string \<Rightarrow> int" and P by (rule int_asc.sort_slice_mset) auto
  show "summarise_start_rates res sps = summarise_start_rates res sps'"
    unfolding summarise_start_rates_def Let_def by (simp only: o k kk)
qed

text \<open>The reads a budget rests on, stated on the season, the answers of the client and the list of
  periods: today is in the season, the week of today has bounds, the starts used since its first
  day were counted, the first period that holds today is in the list, and its limits were read with
  a maximum.\<close>

definition budget_reads ::
  "gs_client \<Rightarrow> gs_inputs \<Rightarrow> day \<Rightarrow> day \<Rightarrow> day \<Rightarrow> int \<Rightarrow> int option \<Rightarrow> int \<Rightarrow> bool" where
  "budget_reads ft inp ss ws we used lmin lmax \<longleftrightarrow>
     gi_SeasonStart inp = Some ss \<and>
     (\<forall>se. gi_SeasonEnd inp = Some se \<longrightarrow> ss \<le> gi_Today inp \<and> gi_Today inp \<le> se) \<and>
     gc_MatchupWeekBounds ft (gi_Today inp) ss = Inr (Some (ws, we)) \<and>
     gc_TeamGS ft \<lparr>sp_Number = 0, sp_Caption = [], sp_StartDate = ws, sp_EndDate = gi_Today inp,
       sp_Playoff = False\<rparr> ss (gi_Today inp) = Inr used \<and>
     gi_PeriodsErr inp = None \<and>
     (\<exists>before p after. gi_Periods inp = before @ p # after \<and>
        sp_StartDate p \<le> gi_Today inp \<and> gi_Today inp \<le> sp_EndDate p \<and>
        (\<forall>q \<in> set before. \<not> (sp_StartDate q \<le> gi_Today inp \<and> gi_Today inp \<le> sp_EndDate q)) \<and>
        gc_GSLimits ft (sp_Number p) = Inr (lmin, Some lmax))"

lemma find_first: "find P xs = Some x \<longleftrightarrow> (\<exists>us vs. xs = us @ x # vs \<and> P x \<and> (\<forall>q \<in> set us. \<not> P q))"
proof
  assume "find P xs = Some x"
  then show "\<exists>us vs. xs = us @ x # vs \<and> P x \<and> (\<forall>q \<in> set us. \<not> P q)"
  proof (induction xs)
    case (Cons y ys)
    show ?case
    proof (cases "P y")
      case True
      with Cons.prems show ?thesis by (intro exI [of _ "[]"] exI [of _ ys]) simp
    next
      case False
      with Cons obtain us vs where "ys = us @ x # vs" "P x" "\<forall>q \<in> set us. \<not> P q" by auto
      with False show ?thesis by (intro exI [of _ "y # us"] exI [of _ vs]) simp
    qed
  qed simp
next
  assume "\<exists>us vs. xs = us @ x # vs \<and> P x \<and> (\<forall>q \<in> set us. \<not> P q)"
  then obtain us vs where "xs = us @ x # vs" "P x" "\<forall>q \<in> set us. \<not> P q" by blast
  then show "find P xs = Some x" by (induction us arbitrary: xs) auto
qed

lemma budget_reads_eq:
  "budget_reads ft inp ss ws we used lmin lmax \<longleftrightarrow>
     gi_SeasonStart inp = Some ss \<and> off_season inp ss = None \<and>
     gc_MatchupWeekBounds ft (gi_Today inp) ss = Inr (Some (ws, we)) \<and>
     gc_TeamGS ft \<lparr>sp_Number = 0, sp_Caption = [], sp_StartDate = ws, sp_EndDate = gi_Today inp,
       sp_Playoff = False\<rparr> ss (gi_Today inp) = Inr used \<and>
     gi_PeriodsErr inp = None \<and>
     (\<exists>p. find_current_period (gi_Periods inp) (gi_Today inp) = Some p \<and>
        gc_GSLimits ft (sp_Number p) = Inr (lmin, Some lmax))"
proof -
  have o: "off_season inp ss = None \<longleftrightarrow> (\<forall>se. gi_SeasonEnd inp = Some se \<longrightarrow> ss \<le> gi_Today inp \<and> gi_Today inp \<le> se)"
    by (auto simp: off_season_def split: option.splits)
  show ?thesis unfolding budget_reads_def o find_current_period_def find_first by blast
qed

lemma budget_cascade:
  "gd_Budget (fst (compute_gs_budget nrm ft sched inp)) = Some b \<longleftrightarrow>
   (\<exists>ss ws used sp lmin fc. gi_SeasonStart inp = Some ss \<and> off_season inp ss = None \<and>
      gc_MatchupWeekBounds ft (gi_Today inp) ss = Inr (Some (ws, gb_WeekEnd b)) \<and>
      gc_TeamGS ft \<lparr>sp_Number = 0, sp_Caption = [], sp_StartDate = ws, sp_EndDate = gi_Today inp,
        sp_Playoff = False\<rparr> ss (gi_Today inp) = Inr used \<and>
      gi_PeriodsErr inp = None \<and> find_current_period (gi_Periods inp) (gi_Today inp) = Some sp \<and>
      gc_GSLimits ft (sp_Number sp) = Inr (lmin, Some (gb_Limit b)) \<and>
      run_forecast nrm sched inp (gb_WeekEnd b) (rates_of nrm ft sched inp ss) = Inr fc \<and>
      b = \<lparr>gb_Limit = gb_Limit b, gb_Floor = (case lmin of None \<Rightarrow> 0 | Some m \<Rightarrow> m), gb_Used = used,
           gb_Today = gi_Today inp, gb_WeekEnd = gb_WeekEnd b, gb_Forecast = fc,
           gb_TodayUnsettled = (case today_unsettled_starts nrm sched (roster_sp_names nrm (gi_PitcherRoster inp))
             (gi_NumPitcherSlots inp) (gi_Today inp) of Inl _ \<Rightarrow> 0 | Inr n \<Rightarrow> n)\<rparr>)"
  unfolding compute_gs_budget_def Let_def
  by (auto simp: budget_from_limit_eqs(1) split: option.splits sum.splits prod.splits)

lemma budget_iff_forecast:
  "gd_Budget (fst (compute_gs_budget nrm ft sched inp)) = Some b \<longleftrightarrow>
   (\<exists>ss ws used lmin fc. budget_reads ft inp ss ws (gb_WeekEnd b) used lmin (gb_Limit b) \<and>
      run_forecast nrm sched inp (gb_WeekEnd b) (rates_of nrm ft sched inp ss) = Inr fc \<and>
      b = \<lparr>gb_Limit = gb_Limit b, gb_Floor = (case lmin of None \<Rightarrow> 0 | Some m \<Rightarrow> m), gb_Used = used,
           gb_Today = gi_Today inp, gb_WeekEnd = gb_WeekEnd b, gb_Forecast = fc,
           gb_TodayUnsettled = (case today_unsettled_starts nrm sched (roster_sp_names nrm (gi_PitcherRoster inp))
             (gi_NumPitcherSlots inp) (gi_Today inp) of Inl _ \<Rightarrow> 0 | Inr n \<Rightarrow> n)\<rparr>)"
proof -
  have regroup: "(\<exists>ss ws used sp lmin fc. A ss \<and> S ss \<and> M ss ws \<and> T ss ws used \<and> E \<and> P sp \<and> L sp lmin \<and> R ss fc \<and> G lmin used fc) \<longleftrightarrow>
      (\<exists>ss ws used lmin fc. (A ss \<and> S ss \<and> M ss ws \<and> T ss ws used \<and> E \<and> (\<exists>p. P p \<and> L p lmin)) \<and> R ss fc \<and> G lmin used fc)"
    for A S M T E P L R G by blast
  show ?thesis unfolding budget_cascade budget_reads_eq by (rule regroup)
qed

lemma forecast_readable:
  "(\<exists>fc. build_gs_forecast nrm sched sps n today weekEnd projPts rate = Inr fc) \<longleftrightarrow>
   (\<forall>d \<in> {today + 1..weekEnd}. (\<exists>playing. sd_TeamsPlayingOn sched d = Inr playing) \<and>
      (\<exists>probs. sd_ProbableStarters sched d = Inr probs))"
proof -
  have "(\<exists>fc. build_gs_forecast nrm sched sps n today weekEnd projPts rate = Inr fc) \<longleftrightarrow>
      \<not> (\<exists>e. build_gs_forecast nrm sched sps n today weekEnd projPts rate = Inl e)"
    by (cases "build_gs_forecast nrm sched sps n today weekEnd projPts rate") auto
  moreover have "(\<exists>e. (case sd_TeamsPlayingOn sched d of Inl e \<Rightarrow> Inl (Schedule_unavailable d e)
        | Inr playing \<Rightarrow> (case sd_ProbableStarters sched d of Inl e \<Rightarrow> Inl (Probables_unavailable d e)
            | Inr probs \<Rightarrow> Inr (h playing probs))) = Inl e) \<longleftrightarrow>
      \<not> ((\<exists>playing. sd_TeamsPlayingOn sched d = Inr playing) \<and> (\<exists>probs. sd_ProbableStarters sched d = Inr probs))"
    for d and h :: "(string \<Rightarrow> bool) \<Rightarrow> (string \<times> string) list \<Rightarrow> day_forecast"
    by (simp split: sum.split)
  ultimately show ?thesis
    unfolding build_gs_forecast_def read_all_Inl set_upto by (simp only: bex_simps not_not)
qed

text \<open>C23. No gate beats a gate on a number nobody can vouch for. A run has a budget exactly when
  the season's start is known and today is not outside a season whose end is known, the bounds of
  today's matchup week, the starts used in it, the list of periods with one that holds today, and a
  maximum for that period could all be read, and for every remaining day of the week, tomorrow to
  the last, both the clubs that play and the announced starters could be read. The budget then
  holds that maximum, the minimum that was read or zero, those used starts and that week, and one
  forecast for each remaining day, in order, made from that day's clubs and announced starters.\<close>

theorem budget_exactly_when_read:
  "((\<exists>b. gd_Budget (fst (compute_gs_budget nrm ft sched inp)) = Some b) \<longleftrightarrow>
     (\<exists>ss ws we used lmin lmax. budget_reads ft inp ss ws we used lmin lmax \<and>
        (\<forall>d \<in> {gi_Today inp + 1..we}. (\<exists>playing. sd_TeamsPlayingOn sched d = Inr playing) \<and>
           (\<exists>probs. sd_ProbableStarters sched d = Inr probs)))) \<and>
   (\<forall>b. gd_Budget (fst (compute_gs_budget nrm ft sched inp)) = Some b \<longrightarrow>
     (\<exists>ss ws used lmin. budget_reads ft inp ss ws (gb_WeekEnd b) used lmin (gb_Limit b) \<and>
        gb_Floor b = (case lmin of None \<Rightarrow> 0 | Some m \<Rightarrow> m) \<and> gb_Used b = used \<and> gb_Today b = gi_Today inp \<and>
        list_all2 (\<lambda>d f. \<exists>playing probs. sd_TeamsPlayingOn sched d = Inr playing \<and>
            sd_ProbableStarters sched d = Inr probs \<and>
            f = forecast_day (gi_NumPitcherSlots inp) d (map (bucket_of nrm (gi_ProjPts inp)
              (sr_Rate (rates_of nrm ft sched inp ss)) playing probs) (roster_sp_names nrm (gi_PitcherRoster inp))))
          [gi_Today inp + 1..gb_WeekEnd b] (gb_Forecast b)))"
proof (intro conjI allI impI iffI)
  assume "\<exists>b. gd_Budget (fst (compute_gs_budget nrm ft sched inp)) = Some b"
  then show "\<exists>ss ws we used lmin lmax. budget_reads ft inp ss ws we used lmin lmax \<and>
      (\<forall>d \<in> {gi_Today inp + 1..we}. (\<exists>playing. sd_TeamsPlayingOn sched d = Inr playing) \<and>
         (\<exists>probs. sd_ProbableStarters sched d = Inr probs))"
    unfolding budget_iff_forecast by (elim exE conjE) (use forecast_readable in blast)
next
  assume "\<exists>ss ws we used lmin lmax. budget_reads ft inp ss ws we used lmin lmax \<and>
      (\<forall>d \<in> {gi_Today inp + 1..we}. (\<exists>playing. sd_TeamsPlayingOn sched d = Inr playing) \<and>
         (\<exists>probs. sd_ProbableStarters sched d = Inr probs))"
  then obtain ss ws we used lmin lmax where "budget_reads ft inp ss ws we used lmin lmax"
    and d: "\<forall>d \<in> {gi_Today inp + 1..we}. (\<exists>playing. sd_TeamsPlayingOn sched d = Inr playing) \<and>
      (\<exists>probs. sd_ProbableStarters sched d = Inr probs)" by blast
  moreover obtain fc where "run_forecast nrm sched inp we (rates_of nrm ft sched inp ss) = Inr fc"
    using d forecast_readable by blast
  ultimately
  show "\<exists>b. gd_Budget (fst (compute_gs_budget nrm ft sched inp)) = Some b"
    unfolding budget_iff_forecast
    by (intro exI [of _ "\<lparr>gb_Limit = lmax, gb_Floor = (case lmin of None \<Rightarrow> 0 | Some m \<Rightarrow> m), gb_Used = used,
           gb_Today = gi_Today inp, gb_WeekEnd = we, gb_Forecast = fc,
           gb_TodayUnsettled = (case today_unsettled_starts nrm sched (roster_sp_names nrm (gi_PitcherRoster inp))
             (gi_NumPitcherSlots inp) (gi_Today inp) of Inl _ \<Rightarrow> 0 | Inr n \<Rightarrow> n)\<rparr>"]
           exI [of _ ss] exI [of _ ws] exI [of _ used] exI [of _ lmin] exI [of _ fc]) simp
next
  fix b
  assume "gd_Budget (fst (compute_gs_budget nrm ft sched inp)) = Some b"
  then obtain ss ws used lmin fc where reads: "budget_reads ft inp ss ws (gb_WeekEnd b) used lmin (gb_Limit b)"
    and fc: "run_forecast nrm sched inp (gb_WeekEnd b) (rates_of nrm ft sched inp ss) = Inr fc"
    and b: "gb_Floor b = (case lmin of None \<Rightarrow> 0 | Some m \<Rightarrow> m)" "gb_Used b = used" "gb_Today b = gi_Today inp"
      "gb_Forecast b = fc"
    unfolding budget_iff_forecast by (metis gs_budget.select_convs(2,3,4,6))
  from reads b build_gs_forecast_Inr [OF fc]
  show "\<exists>ss ws used lmin. budget_reads ft inp ss ws (gb_WeekEnd b) used lmin (gb_Limit b) \<and>
        gb_Floor b = (case lmin of None \<Rightarrow> 0 | Some m \<Rightarrow> m) \<and> gb_Used b = used \<and> gb_Today b = gi_Today inp \<and>
        list_all2 (\<lambda>d f. \<exists>playing probs. sd_TeamsPlayingOn sched d = Inr playing \<and>
            sd_ProbableStarters sched d = Inr probs \<and>
            f = forecast_day (gi_NumPitcherSlots inp) d (map (bucket_of nrm (gi_ProjPts inp)
              (sr_Rate (rates_of nrm ft sched inp ss)) playing probs) (roster_sp_names nrm (gi_PitcherRoster inp))))
          [gi_Today inp + 1..gb_WeekEnd b] (gb_Forecast b)"
    by blast
qed

text \<open>The lines that say why there is no budget.\<close>

fun disabling :: "gs_line \<Rightarrow> bool" where
  "disabling (Week_unknown _) = True"
| "disabling No_week = True"
| "disabling (Walk_error _) = True"
| "disabling (Periods_error _) = True"
| "disabling No_period = True"
| "disabling (Limit_error _ _) = True"
| "disabling (No_max _) = True"
| "disabling (Forecast_unavailable _) = True"
| "disabling _ = False"

lemma budget_from_limit_None:
  assumes "gd_Budget d = None" and "gd_Budget (fst (budget_from_limit nrm ft sched inp ss ws we used lmin l d)) = None"
  shows "\<exists>ls e. gd_Logs (fst (budget_from_limit nrm ft sched inp ss ws we used lmin l d)) =
    ls @ [Forecast_unavailable e]"
  using assms by (auto simp: budget_from_limit_def Let_def split: prod.splits sum.splits)

text \<open>A run without a budget says why. With the season's start known, a run that has no budget
  either is outside the season, which it states in a notice and marks as not applicable, or
  ends its log with the step that failed; and it asks for a push exactly when that step is the
  read of the limits.\<close>

theorem disabled_gate_says_why:
  assumes "gi_SeasonStart inp = Some ss" and "fst (compute_gs_budget nrm ft sched inp) = d" and "gd_Budget d = None"
  shows "(case off_season inp ss of
       Some l \<Rightarrow> gd_Inapplicable d \<and> gd_Notices d = [l] \<and> gd_Alert d = None
     | None \<Rightarrow> \<not> gd_Inapplicable d \<and> gd_Logs d \<noteq> [] \<and> disabling (last (gd_Logs d)) \<and>
         (gd_Alert d = (case last (gd_Logs d) of Limit_error n e \<Rightarrow> Some (Limit_fetch_failed n e) | _ \<Rightarrow> None)))"
proof -
  have lim: "\<not> gd_Inapplicable (fst (budget_from_limit nrm ft sched inp ss ws we used lmin l d0)) \<and>
      gd_Alert (fst (budget_from_limit nrm ft sched inp ss ws we used lmin l d0)) = None"
    if "\<not> gd_Inapplicable d0" "gd_Alert d0 = None" for ws we used lmin l d0
    using that by (simp add: budget_from_limit_eqs)
  show ?thesis
    using assms unfolding compute_gs_budget_def Let_def
    by (auto simp: lim dest!: budget_from_limit_None [rotated] split: option.splits sum.splits prod.splits)
qed

lemma read_all_map:
  "(\<And>k. map_sum id g (f k) = map_sum id g (f' k)) \<Longrightarrow>
   map_sum id (map g) (read_all f ks) = map_sum id (map g) (read_all f' ks)"
proof (induction ks)
  case (Cons k ks)
  from Cons.prems [of k] Cons.IH [OF Cons.prems] show ?case
    by (cases "f k"; cases "f' k"; cases "read_all f ks"; cases "read_all f' ks") auto
qed simp

lemma confirmed_of_rates:
  "confirmed_of (map (bucket_of nrm projPts r playing probs) sps) =
   confirmed_of (map (bucket_of nrm projPts r' playing probs) sps)"
  unfolding confirmed_of_def
  by (induction sps) (auto simp: map_filter_simps bucket_of_def split: option.splits if_splits)

definition settled_part :: "day_forecast \<Rightarrow> day \<times> real list" where
  "settled_part f = (df_Date f, df_ConfirmedStarters f)"

lemma build_gs_forecast_rates:
  "map_sum id (map settled_part) (build_gs_forecast nrm sched sps n today weekEnd projPts r) =
   map_sum id (map settled_part) (build_gs_forecast nrm sched sps n today weekEnd projPts r')"
  unfolding build_gs_forecast_def
  by (rule read_all_map)
    (auto simp: settled_part_def forecast_day_def Let_def confirmed_of_rates [where r = r and r' = r'] split: sum.splits)

definition budget_facts :: "gs_budget \<Rightarrow> int list \<times> (day \<times> real list) list" where
  "budget_facts b = ([gb_Limit b, gb_Floor b, gb_Used b, gb_Today b, gb_WeekEnd b, gb_TodayUnsettled b],
     map settled_part (gb_Forecast b))"

text \<open>A lost history never disables the gate. Whatever the pitcher-day walk returns and whatever
  the shared cache of rates holds, the run has a budget in the same cases, with the same limit,
  floor, use, days and confirmed starts, and asks for the same push; only the estimates differ.\<close>

theorem history_is_soft:
  "let d = fst (compute_gs_budget nrm ft sched inp);
       d' = fst (compute_gs_budget nrm (ft\<lparr>gc_PitcherDaysWithStatus := f\<rparr>) sched (inp\<lparr>gi_StartRates := c\<rparr>))
   in map_option budget_facts (gd_Budget d) = map_option budget_facts (gd_Budget d') \<and>
      gd_Alert d = gd_Alert d' \<and> gd_Inapplicable d = gd_Inapplicable d' \<and>
      gd_Period d = gd_Period d' \<and> gd_Season d = gd_Season d'"
proof -
  let ?ft = "ft\<lparr>gc_PitcherDaysWithStatus := f\<rparr>" and ?inp = "inp\<lparr>gi_StartRates := c\<rparr>"
  have off: "off_season ?inp ss = off_season inp ss" for ss by (simp add: off_season_def split: option.split)
  have fc: "map_sum id (map settled_part) (run_forecast nrm sched inp we r) =
      map_sum id (map settled_part) (run_forecast nrm sched ?inp we r')" for we r r'
    by (simp add: build_gs_forecast_rates [where r = "sr_Rate r" and r' = "sr_Rate r'"])
  have b: "map_option budget_facts (gd_Budget (fst (budget_from_limit nrm ft sched inp ss ws we u lm l d))) =
      map_option budget_facts (gd_Budget (fst (budget_from_limit nrm ?ft sched ?inp ss ws we u lm l d)))"
    if "gd_Budget d = None" for ss ws we u lm l d
    using fc [of we "rates_of nrm ft sched inp ss" "rates_of nrm ?ft sched ?inp ss"] that
    by (auto simp: budget_from_limit_eqs(1) budget_facts_def split: sum.splits)
  show ?thesis
    unfolding compute_gs_budget_def Let_def
    by (auto simp: off b budget_from_limit_eqs(2-5) split: option.splits sum.splits prod.splits)
qed

section \<open>Witnesses\<close>

text \<open>Two starters of one club, one of them announced for day 11, in a week that ends on day 12.\<close>

definition demo_starters :: "(string \<times> player) list" where
  "demo_starters = [(''a'', (demo_player ''a'' [pos_SP])\<lparr>p_Name := ''a''\<rparr>), (''b'', (demo_player ''b'' [pos_SP])\<lparr>p_Name := ''b''\<rparr>)]"

definition demo_schedule :: schedule_client where
  "demo_schedule = \<lparr>sd_TeamsPlayingOn = (\<lambda>d. Inr (\<lambda>t. True)),
     sd_ProbableStarters = (\<lambda>d. Inr (if d = 11 then [(''a'', ''BOS'')] else []))\<rparr>"

lemma demo_forecast:
  "build_gs_forecast (\<lambda>s. s) demo_schedule demo_starters 2 10 12 (\<lambda>p. 7) (\<lambda>k. if k = ''b'' then Some (1 / 4) else None) =
     Inr [\<lparr>df_Date = 11, df_ConfirmedStarters = [7], df_Estimated = 0\<rparr>,
          \<lparr>df_Date = 12, df_ConfirmedStarters = [], df_Estimated = 9 / 20\<rparr>]"
  by code_simp

theorem forecast_within_slots_witness:
  "\<exists>fc. build_gs_forecast (\<lambda>s. s) demo_schedule demo_starters 2 10 12 (\<lambda>p. 7)
      (\<lambda>k. if k = ''b'' then Some (1 / 4) else None) = Inr fc \<and> map df_Date fc = [11..12]"
  using demo_forecast forecast_within_slots [OF demo_forecast] by auto

theorem forecast_order_free_witness:
  "build_gs_forecast nrm sched [x, y] n today weekEnd projPts rate =
     build_gs_forecast nrm sched [y, x] n today weekEnd projPts rate"
  using forecast_order_free [of "[x, y]" "[y, x]"] by simp

definition demo_gs_client :: gs_client where
  "demo_gs_client = \<lparr>gc_MatchupWeekBounds = (\<lambda>d ss. Inr (Some (6, 12))), gc_TeamGS = (\<lambda>sp ss t. Inr 3),
     gc_GSLimits = (\<lambda>n. Inl ''timeout''), gc_PitcherDaysWithStatus = (\<lambda>a b c. Inr [])\<rparr>"

definition demo_gs_inputs :: gs_inputs where
  "demo_gs_inputs = \<lparr>gi_Today = 10, gi_SeasonStart = Some 1, gi_SeasonEnd = Some 100,
     gi_Periods = [\<lparr>sp_Number = 2, sp_Caption = [], sp_StartDate = 6, sp_EndDate = 12, sp_Playoff = False\<rparr>],
     gi_PeriodsErr = None, gi_PitcherRoster = [], gi_NumPitcherSlots = 2, gi_ProjPts = (\<lambda>_. 0),
     gi_StartRates = None\<rparr>"

text \<open>With the limits answered the same week has a budget; with the last day's announced starters
  unreadable it has none.\<close>

definition demo_limits_client :: gs_client where
  "demo_limits_client = demo_gs_client\<lparr>gc_GSLimits := \<lambda>n. Inr (Some 4, Some (n + 10))\<rparr>"

lemma demo_budget_reads: "budget_reads demo_limits_client demo_gs_inputs 1 6 12 3 (Some 4) 12"
  by (simp add: budget_reads_eq demo_limits_client_def demo_gs_client_def demo_gs_inputs_def off_season_def
      find_current_period_def)

theorem budget_exactly_when_read_witness:
  "(\<exists>b. gd_Budget (fst (compute_gs_budget (\<lambda>s. s) demo_limits_client demo_schedule demo_gs_inputs)) = Some b \<and>
      gb_Limit b = 12 \<and> gb_Floor b = 4 \<and> gb_Used b = 3 \<and> map df_Date (gb_Forecast b) = [11..12]) \<and>
   gd_Budget (fst (compute_gs_budget (\<lambda>s. s) demo_limits_client
     (demo_schedule\<lparr>sd_ProbableStarters := \<lambda>d. if d = 12 then Inl ''timeout'' else Inr []\<rparr>) demo_gs_inputs)) = None"
proof
  have reads: "ss = 1 \<and> ws = 6 \<and> we = 12 \<and> used = 3 \<and> lmin = Some 4 \<and> lmax = 12"
    if "budget_reads demo_limits_client demo_gs_inputs ss ws we used lmin lmax" for ss ws we used lmin lmax
    using that by (simp add: budget_reads_eq demo_limits_client_def demo_gs_client_def demo_gs_inputs_def off_season_def
        find_current_period_def)
  note main = budget_exactly_when_read [of "\<lambda>s. s" demo_limits_client _ demo_gs_inputs]
  obtain b where b: "gd_Budget (fst (compute_gs_budget (\<lambda>s. s) demo_limits_client demo_schedule demo_gs_inputs)) = Some b"
    using main [of demo_schedule] demo_budget_reads by (fastforce simp: demo_schedule_def)
  obtain ss ws used lmin rates where r: "budget_reads demo_limits_client demo_gs_inputs ss ws (gb_WeekEnd b) used lmin (gb_Limit b)"
    and f: "gb_Floor b = (case lmin of None \<Rightarrow> 0 | Some m \<Rightarrow> m)" "gb_Used b = used"
    and l2: "list_all2 (\<lambda>d f. \<exists>playing probs. sd_TeamsPlayingOn demo_schedule d = Inr playing \<and>
        sd_ProbableStarters demo_schedule d = Inr probs \<and>
        f = forecast_day (gi_NumPitcherSlots demo_gs_inputs) d (rates playing probs))
      [gi_Today demo_gs_inputs + 1..gb_WeekEnd b] (gb_Forecast b)"
    using main [of demo_schedule, THEN conjunct2, rule_format, OF b] by (elim exE conjE) (rule that; assumption)
  have l: "list_all2 (\<lambda>d f. df_Date f = d \<and> True) [11..gb_WeekEnd b] (gb_Forecast b)"
    using l2 by (simp add: demo_gs_inputs_def) (erule list_all2_mono, auto simp: forecast_day_bounds(1))
  with b f reads [OF r] list_all2_dates [OF l]
  show "\<exists>b. gd_Budget (fst (compute_gs_budget (\<lambda>s. s) demo_limits_client demo_schedule demo_gs_inputs)) = Some b \<and>
      gb_Limit b = 12 \<and> gb_Floor b = 4 \<and> gb_Used b = 3 \<and> map df_Date (gb_Forecast b) = [11..12]" by auto
  let ?bad = "demo_schedule\<lparr>sd_ProbableStarters := \<lambda>d. if d = 12 then Inl ''timeout'' else Inr []\<rparr>"
  have "\<not> (\<exists>b. gd_Budget (fst (compute_gs_budget (\<lambda>s. s) demo_limits_client ?bad demo_gs_inputs)) = Some b)"
    unfolding main [of ?bad, THEN conjunct1]
  proof (rule notI, elim exE conjE)
    fix ss ws we used lmin lmax
    assume b: "budget_reads demo_limits_client demo_gs_inputs ss ws we used lmin lmax"
      and all: "\<forall>d \<in> {gi_Today demo_gs_inputs + 1..we}. (\<exists>playing. sd_TeamsPlayingOn ?bad d = Inr playing) \<and>
        (\<exists>probs. sd_ProbableStarters ?bad d = Inr probs)"
    from reads [OF b] have "12 \<in> {gi_Today demo_gs_inputs + 1..we}" by (simp add: demo_gs_inputs_def)
    from bspec [OF all this] show False by simp
  qed
  then show "gd_Budget (fst (compute_gs_budget (\<lambda>s. s) demo_limits_client ?bad demo_gs_inputs)) = None" by simp
qed

theorem disabled_gate_says_why_witness:
  "gd_Alert (fst (compute_gs_budget (\<lambda>s. s) demo_gs_client demo_schedule demo_gs_inputs)) =
     Some (Limit_fetch_failed 2 ''timeout'')"
proof -
  let ?d = "fst (compute_gs_budget (\<lambda>s. s) demo_gs_client demo_schedule demo_gs_inputs)"
  have d: "gd_Budget ?d = None" "gd_Logs ?d = [Limit_error 2 ''timeout'']" "off_season demo_gs_inputs 1 = None"
    by (simp_all add: compute_gs_budget_def demo_gs_client_def demo_gs_inputs_def off_season_def
        find_current_period_def)
  from disabled_gate_says_why [of demo_gs_inputs 1, OF _ refl d(1)] d show ?thesis
    by (simp add: demo_gs_inputs_def)
qed

end
