(* ===== verification/GS_Floor.thy ===== *)
theory GS_Floor
  imports Decimal GS_Forecast Alert_Marker
begin

text \<open>
  The alert on the weekly minimum of game starts: \<open>internal/lineuprun/gs_floor.go\<close>.
  \<open>evaluateGSFloorWith\<close> compares the starts still needed with the starts the forecast credits,
  \<open>reportGSFloor\<close> sends through the marker of \<open>Alert_Marker\<close> under one key for each season,
  period and number of remaining days. The wording of the message is a parameter \<open>render\<close>, the
  lines written to the output are the constructors of \<open>floor_line\<close>. The lemmas show when the
  alert fires, that a week pushes at most twice while its marker store works, and that without one
  every run repeats the alert.
\<close>

definition gs_floor_eps :: real where
  "gs_floor_eps = 1 / 10 ^ 9"

record gs_floor_finding =
  ff_Fires :: bool
  ff_Need :: int
  ff_Supply :: real
  ff_Shortfall :: real
  ff_DaysLeft :: int
  ff_TodayUnsettled :: int
  ff_EmptyDays :: "day list"
  ff_ThinDays :: "day list"
  ff_Floor :: int
  ff_Used :: int
  ff_Limit :: int
  ff_WeekEnd :: day

record gs_floor_params =
  fp_EstimateCredit :: real
  fp_MinDaysLeft :: int
  fp_MaxDaysLeft :: int

definition shipped_gs_floor_params :: gs_floor_params where
  "shipped_gs_floor_params = \<lparr>fp_EstimateCredit = 1, fp_MinDaysLeft = 2, fp_MaxDaysLeft = 3\<rparr>"

definition no_finding :: gs_floor_finding where
  "no_finding = \<lparr>ff_Fires = False, ff_Need = 0, ff_Supply = 0, ff_Shortfall = 0, ff_DaysLeft = 0,
     ff_TodayUnsettled = 0, ff_EmptyDays = [], ff_ThinDays = [], ff_Floor = 0, ff_Used = 0, ff_Limit = 0,
     ff_WeekEnd = 0\<rparr>"

text \<open>The loop over the forecast; a day that is not after today is skipped.\<close>

definition floor_day :: "gs_floor_params \<Rightarrow> day \<Rightarrow> day_forecast \<Rightarrow> gs_floor_finding \<Rightarrow> gs_floor_finding" where
  "floor_day p today d f =
     (if \<not> df_Date d > today then f
      else
        (let f = f\<lparr>ff_DaysLeft := ff_DaysLeft f + 1,
                   ff_Supply := ff_Supply f + (real (length (df_ConfirmedStarters d)) + fp_EstimateCredit p * df_Estimated d)\<rparr>
         in if length (df_ConfirmedStarters d) > 0 then f
            else if df_Estimated d < gs_floor_eps then f\<lparr>ff_EmptyDays := ff_EmptyDays f @ [df_Date d]\<rparr>
            else if df_Estimated d < 1 then f\<lparr>ff_ThinDays := ff_ThinDays f @ [df_Date d]\<rparr>
            else f))"

definition evaluate_gs_floor_with :: "gs_budget option \<Rightarrow> gs_floor_params \<Rightarrow> gs_floor_finding" where
  "evaluate_gs_floor_with budget p =
     (case budget of
        None \<Rightarrow> no_finding
      | Some b \<Rightarrow>
         (let need = need_for_floor (Some b) - gb_TodayUnsettled b;
              need = (if need < 0 then 0 else need);
              f = no_finding\<lparr>ff_Floor := gb_Floor b, ff_Used := gb_Used b, ff_Limit := gb_Limit b,
                    ff_WeekEnd := gb_WeekEnd b, ff_TodayUnsettled := gb_TodayUnsettled b, ff_Need := need\<rparr>;
              f = fold (floor_day p (gb_Today b)) (gb_Forecast b) f;
              shortfall = real_of_int (ff_Need f) - ff_Supply f
          in f\<lparr>ff_Shortfall := shortfall,
               ff_Fires := (ff_Need f > 0 \<and> ff_DaysLeft f \<ge> fp_MinDaysLeft p \<and>
                  ff_DaysLeft f \<le> fp_MaxDaysLeft p \<and> shortfall > gs_floor_eps)\<rparr>))"

definition evaluate_gs_floor :: "gs_budget option \<Rightarrow> gs_floor_finding" where
  "evaluate_gs_floor b = evaluate_gs_floor_with b shipped_gs_floor_params"

section \<open>The marker key\<close>

definition gs_floor_marker_key :: "int \<Rightarrow> int \<Rightarrow> int \<Rightarrow> string" where
  "gs_floor_marker_key season period daysLeft =
     fmt_int season @ ''-p'' @ fmt_int period @ ''-d'' @ fmt_int daysLeft"

section \<open>Reporting\<close>

datatype floor_line =
    No_minimum int | Floor_check gs_floor_finding | Floor_risk string | Floor_send_failed string

record floor_inputs =
  fi_Budget :: "gs_budget option"
  fi_Period :: int
  fi_Season :: int
  fi_DryRun :: bool

definition report_gs_floor ::
  "(gs_floor_finding \<Rightarrow> string) \<Rightarrow> bool \<Rightarrow> faults \<Rightarrow> bool \<Rightarrow> floor_inputs \<Rightarrow> marker_world \<Rightarrow>
   floor_line list \<times> marker_world" where
  "report_gs_floor render has_store flt notify_ok inp w =
     (if fi_Budget inp = None then ([], w)
      else
        (let f = evaluate_gs_floor (fi_Budget inp) in
         if ff_Floor f = 0 then ([No_minimum (fi_Period inp)], w)
         else if \<not> ff_Fires f then ([Floor_check f], w)
         else
           (let msg = render f in
            if fi_DryRun inp then ([Floor_check f, Floor_risk msg], w)
            else
              (let key = gs_floor_marker_key (fi_Season inp) (fi_Period inp) (ff_DaysLeft f);
                   ((sent, err), w') = send_once has_store flt w key msg notify_ok
               in ([Floor_check f, Floor_risk msg] @ (if err then [Floor_send_failed key] else []), w')))))"

section \<open>Lemmas\<close>

lemma floor_day_keeps [simp]:
  "ff_Need (floor_day p t d f) = ff_Need f" "ff_Floor (floor_day p t d f) = ff_Floor f"
  "ff_Used (floor_day p t d f) = ff_Used f" "ff_Limit (floor_day p t d f) = ff_Limit f"
  "ff_WeekEnd (floor_day p t d f) = ff_WeekEnd f" "ff_TodayUnsettled (floor_day p t d f) = ff_TodayUnsettled f"
  by (simp_all add: floor_day_def Let_def)

lemma floor_days_keep [simp]:
  "ff_Need (fold (floor_day p t) ds f) = ff_Need f" "ff_Floor (fold (floor_day p t) ds f) = ff_Floor f"
  by (induction ds arbitrary: f) simp_all

abbreviation later :: "day \<Rightarrow> day_forecast list \<Rightarrow> day_forecast list" where
  "later t ds \<equiv> filter (\<lambda>d. df_Date d > t) ds"

lemma floor_days:
  "ff_DaysLeft (fold (floor_day p t) ds f) = ff_DaysLeft f + int (length (later t ds))"
  "ff_Supply (fold (floor_day p t) ds f) = ff_Supply f +
     sum_list (map (\<lambda>d. real (length (df_ConfirmedStarters d)) + fp_EstimateCredit p * df_Estimated d) (later t ds))"
  "ff_EmptyDays (fold (floor_day p t) ds f) = ff_EmptyDays f @
     map df_Date (filter (\<lambda>d. df_ConfirmedStarters d = [] \<and> df_Estimated d < gs_floor_eps) (later t ds))"
  "ff_ThinDays (fold (floor_day p t) ds f) = ff_ThinDays f @
     map df_Date (filter (\<lambda>d. df_ConfirmedStarters d = [] \<and> \<not> df_Estimated d < gs_floor_eps \<and> df_Estimated d < 1) (later t ds))"
  by (induction ds arbitrary: f) (auto simp: floor_day_def Let_def)

lemma supply_is_demand:
  "ff_Supply (evaluate_gs_floor (Some b)) = future_demand (Some b)"
  by (simp add: evaluate_gs_floor_def evaluate_gs_floor_with_def Let_def floor_days no_finding_def
      shipped_gs_floor_params_def future_demand_def foldl_add future_days_def)

text \<open>The floor alert fires exactly on an open shortfall that can still be acted on. With a
  budget: the starts needed are the minimum less the used ones less those confirmed for today,
  never negative, and none without a minimum; what the week still expects is the demand the
  gate ranks against; and the alert fires exactly when two or three days remain and the need
  exceeds that demand by more than the tolerance. Without a budget it never fires.\<close>

theorem floor_alert_exact:
  "ff_Fires (evaluate_gs_floor None) = False \<and>
   (let f = evaluate_gs_floor (Some b);
        need = (if gb_Floor b = 0 then max 0 (- gb_TodayUnsettled b)
                else max 0 (max 0 (gb_Floor b - gb_Used b) - gb_TodayUnsettled b))
    in ff_Need f = need \<and> ff_Supply f = future_demand (Some b) \<and>
       ff_DaysLeft f = int (length (future_days b)) \<and>
       ff_Shortfall f = real_of_int need - future_demand (Some b) \<and>
       (ff_Fires f \<longleftrightarrow> need > 0 \<and> ff_DaysLeft f \<in> {2, 3} \<and>
          real_of_int need > future_demand (Some b) + 1 / 10 ^ 9))"
proof -
  let ?f = "evaluate_gs_floor (Some b)"
  let ?need = "if gb_Floor b = 0 then max 0 (- gb_TodayUnsettled b)
    else max 0 (max 0 (gb_Floor b - gb_Used b) - gb_TodayUnsettled b)"
  note defs = evaluate_gs_floor_def evaluate_gs_floor_with_def Let_def no_finding_def shipped_gs_floor_params_def
  have need: "ff_Need ?f = ?need" by (simp add: defs need_for_floor_def)
  have days: "ff_DaysLeft ?f = int (length (future_days b))" by (simp add: defs floor_days future_days_def)
  have short: "ff_Shortfall ?f = real_of_int (ff_Need ?f) - ff_Supply ?f" by (simp add: defs)
  have fires: "ff_Fires ?f \<longleftrightarrow> ff_Need ?f > 0 \<and> ff_DaysLeft ?f \<ge> 2 \<and> ff_DaysLeft ?f \<le> 3 \<and> ff_Shortfall ?f > gs_floor_eps"
    by (simp add: defs)
  have "ff_DaysLeft ?f \<ge> 2 \<and> ff_DaysLeft ?f \<le> 3 \<longleftrightarrow> ff_DaysLeft ?f \<in> {2, 3}" by auto
  then have "ff_Fires ?f \<longleftrightarrow> ?need > 0 \<and> ff_DaysLeft ?f \<in> {2, 3} \<and> real_of_int ?need > future_demand (Some b) + 1 / 10 ^ 9"
    unfolding fires short need supply_is_demand gs_floor_eps_def by linarith
  moreover have "ff_Fires (evaluate_gs_floor None) = False" by (simp add: defs)
  ultimately show ?thesis unfolding Let_def short need supply_is_demand days by blast
qed

section \<open>Keys tell the days apart\<close>

lemma number_end: "c \<in> {CHR ''p'', CHR ''d''} \<Longrightarrow> c \<notin> set (fmt_int i @ ''-'')"
proof -
  assume "c \<in> {CHR ''p'', CHR ''d''}"
  then have "c \<notin> number_chars" "c \<noteq> CHR ''-''" unfolding number_chars_eq by auto
  then show ?thesis using fmt_int_chars [of i] by auto
qed

lemma takeWhile_upto: "c \<notin> set z \<Longrightarrow> takeWhile (\<lambda>d. d \<noteq> c) (z @ c # u) = z"
  by (induction z) auto

lemma split_at_char:
  assumes "a @ c # x = b @ c # y" and "c \<notin> set a" and "c \<notin> set b"
  shows "a = b \<and> x = y"
proof -
  have "a = b" using assms(1) takeWhile_upto [OF assms(2), of x] takeWhile_upto [OF assms(3), of y] by metis
  with assms(1) show ?thesis by simp
qed

lemma marker_key_inj:
  "gs_floor_marker_key s p n = gs_floor_marker_key s' p' n' \<longleftrightarrow> s = s' \<and> p = p' \<and> n = n'"
proof
  note no = number_end [OF insertI1] number_end [OF insertI2 [OF insertI1]]
  assume "gs_floor_marker_key s p n = gs_floor_marker_key s' p' n'"
  then have "(fmt_int s @ ''-'') @ CHR ''p'' # ((fmt_int p @ ''-'') @ CHR ''d'' # fmt_int n) =
      (fmt_int s' @ ''-'') @ CHR ''p'' # ((fmt_int p' @ ''-'') @ CHR ''d'' # fmt_int n')"
    by (simp add: gs_floor_marker_key_def)
  from split_at_char [OF this no(1) no(1)]
  have s: "fmt_int s = fmt_int s'"
    and "(fmt_int p @ ''-'') @ CHR ''d'' # fmt_int n = (fmt_int p' @ ''-'') @ CHR ''d'' # fmt_int n'" by simp_all
  from split_at_char [OF this(2) no(2) no(2)] have "fmt_int p = fmt_int p'" "fmt_int n = fmt_int n'" by simp_all
  with s show "s = s' \<and> p = p' \<and> n = n'" by (simp add: fmt_int_inj)
qed simp

section \<open>A week of runs\<close>

text \<open>One run: whether it has a marker store, which keys the store fails on, whether the push succeeds,
  and the inputs.\<close>

type_synonym alert_run = "bool \<times> faults \<times> bool \<times> floor_inputs"

definition alert_run :: "(gs_floor_finding \<Rightarrow> string) \<Rightarrow> alert_run \<Rightarrow> marker_world \<Rightarrow> marker_world" where
  "alert_run render r w = (case r of (has_store, flt, ok, inp) \<Rightarrow> snd (report_gs_floor render has_store flt ok inp w))"

text \<open>One run with a working marker store; the push itself may fail.\<close>

definition floor_run :: "(gs_floor_finding \<Rightarrow> string) \<Rightarrow> bool \<times> floor_inputs \<Rightarrow> marker_world \<Rightarrow> marker_world" where
  "floor_run render r w = snd (report_gs_floor render True healthy (fst r) (snd r) w)"

definition run_key :: "floor_inputs \<Rightarrow> string" where
  "run_key inp = gs_floor_marker_key (fi_Season inp) (fi_Period inp) (ff_DaysLeft (evaluate_gs_floor (fi_Budget inp)))"

definition pushes :: "floor_inputs \<Rightarrow> bool" where
  "pushes inp \<longleftrightarrow> fi_Budget inp \<noteq> None \<and> ff_Floor (evaluate_gs_floor (fi_Budget inp)) \<noteq> 0 \<and>
     ff_Fires (evaluate_gs_floor (fi_Budget inp)) \<and> \<not> fi_DryRun inp"

lemma floor_run_eq:
  "floor_run render (ok, inp) w =
     (if pushes inp \<and> mw_store w (run_key inp) = None \<and> ok
      then \<lparr>mw_store = (mw_store w)(run_key inp \<mapsto> render (evaluate_gs_floor (fi_Budget inp))),
            mw_delivered = mw_delivered w @ [(run_key inp, render (evaluate_gs_floor (fi_Budget inp)))]\<rparr>
      else w)"
  by (auto simp: floor_run_def report_gs_floor_def pushes_def run_key_def send_once_def sent_def token_def
      send_mark_def record_mark_def healthy_def Let_def split: option.splits)

lemma pushes_days: "pushes inp \<Longrightarrow> ff_DaysLeft (evaluate_gs_floor (fi_Budget inp)) \<in> {2, 3}"
  by (auto simp: pushes_def evaluate_gs_floor_def evaluate_gs_floor_with_def shipped_gs_floor_params_def Let_def)

lemma alert_run_eq:
  "alert_run render (has_store, flt, ok, inp) w =
     (if pushes inp \<and> \<not> sent has_store flt w (run_key inp) \<and> ok
      then record_mark has_store flt
        (w\<lparr>mw_delivered := mw_delivered w @ [(run_key inp, render (evaluate_gs_floor (fi_Budget inp)))]\<rparr>)
        (run_key inp) (render (evaluate_gs_floor (fi_Budget inp)))
      else w)"
  by (auto simp: alert_run_def report_gs_floor_def pushes_def run_key_def send_once_def send_mark_def Let_def)

text \<open>Without a store, and with one that cannot be read or written at the key, every run whose push
  succeeds delivers: a lost marker repeats the alert rather than swallowing it.\<close>

lemma lost_marker_repeats:
  assumes "pushes inp" and "\<not> has_store \<or> get_fails flt (run_key inp) \<or> put_fails flt (run_key inp) \<and> mw_store w (run_key inp) = None"
  shows "mw_delivered ((alert_run render (has_store, flt, True, inp) ^^ n) w) =
    mw_delivered w @ replicate n (run_key inp, render (evaluate_gs_floor (fi_Budget inp)))"
proof -
  let ?r = "alert_run render (has_store, flt, True, inp)"
  have step: "mw_delivered (?r v) = mw_delivered v @ [(run_key inp, render (evaluate_gs_floor (fi_Budget inp)))] \<and>
      (put_fails flt (run_key inp) \<longrightarrow> mw_store (?r v) = mw_store v)"
    if "\<not> has_store \<or> get_fails flt (run_key inp) \<or> put_fails flt (run_key inp) \<and> mw_store v (run_key inp) = None" for v
    using that assms(1) by (auto simp: alert_run_eq sent_def token_def record_mark_def)
  have "mw_delivered ((?r ^^ n) w) = mw_delivered w @ replicate n (run_key inp, render (evaluate_gs_floor (fi_Budget inp))) \<and>
      (\<not> has_store \<or> get_fails flt (run_key inp) \<or> put_fails flt (run_key inp) \<and> mw_store ((?r ^^ n) w) (run_key inp) = None)"
  proof (induction n)
    case (Suc n)
    with step [of "(?r ^^ n) w"] show ?case by (auto simp: replicate_append_same [symmetric])
  qed (use assms(2) in simp)
  then show ?thesis by blast
qed

text \<open>The run's marker store works for one week: it is there, and reads and writes at the keys of the
  week succeed.\<close>

definition store_works :: "int \<Rightarrow> int \<Rightarrow> alert_run \<Rightarrow> bool" where
  "store_works season period r \<longleftrightarrow> (case r of (has_store, flt, ok, inp) \<Rightarrow>
     has_store \<and> (\<forall>n. \<not> get_fails flt (gs_floor_marker_key season period n) \<and>
       \<not> put_fails flt (gs_floor_marker_key season period n)))"

definition own_deliveries :: "int \<Rightarrow> int \<Rightarrow> marker_world \<Rightarrow> (string \<times> string) list" where
  "own_deliveries season period w = filter (\<lambda>e. \<exists>n. fst e = gs_floor_marker_key season period n) (mw_delivered w)"

definition week_marked :: "int \<Rightarrow> int \<Rightarrow> marker_world \<Rightarrow> bool" where
  "week_marked season period w \<longleftrightarrow> distinct (map fst (own_deliveries season period w)) \<and>
     (\<forall>k \<in> set (map fst (own_deliveries season period w)). mw_store w k \<noteq> None \<and>
        k \<in> {gs_floor_marker_key season period 2, gs_floor_marker_key season period 3})"

lemma week_marked_run:
  assumes w: "week_marked season period w"
    and works: "fi_Season (snd (snd (snd r))) = season \<and> fi_Period (snd (snd (snd r))) = period \<longrightarrow> store_works season period r"
  shows "week_marked season period (alert_run render r w)"
proof -
  obtain has_store flt ok inp where r: "r = (has_store, flt, ok, inp)" by (cases r) auto
  show ?thesis
  proof (cases "pushes inp \<and> \<not> sent has_store flt w (run_key inp) \<and> ok")
    case fires: True
    show ?thesis
    proof (cases "fi_Season inp = season \<and> fi_Period inp = period")
      case True
      then have k: "run_key inp \<in> {gs_floor_marker_key season period 2, gs_floor_marker_key season period 3}"
        using pushes_days [of inp] fires by (auto simp: run_key_def)
      have ok: "has_store" "\<not> get_fails flt (run_key inp)" "\<not> put_fails flt (run_key inp)"
        using works True k by (auto simp: r store_works_def)
      then have "mw_store w (run_key inp) = None"
        using fires by (auto simp: sent_def token_def split: option.splits)
      then have "run_key inp \<notin> set (map fst (own_deliveries season period w))"
        using w unfolding week_marked_def by blast
      with w k ok fires show ?thesis
        by (auto simp: r alert_run_eq record_mark_def week_marked_def own_deliveries_def)
    next
      case False
      then have k: "run_key inp \<noteq> gs_floor_marker_key season period n" for n by (auto simp: run_key_def marker_key_inj)
      then have "own_deliveries season period (alert_run render r w) = own_deliveries season period w"
        using fires by (simp add: r alert_run_eq own_deliveries_def record_mark_def)
      moreover have "mw_store (alert_run render r w) (gs_floor_marker_key season period n) =
          mw_store w (gs_floor_marker_key season period n)" for n
        using k [of n, symmetric] fires by (simp add: r alert_run_eq record_mark_def)
      ultimately show ?thesis using w unfolding week_marked_def by (metis insertE singletonD)
    qed
  next
    case False
    then show ?thesis using w by (simp only: r alert_run_eq if_False)
  qed
qed

lemma week_marked_runs:
  "week_marked season period w \<Longrightarrow>
   \<forall>r \<in> set runs. fi_Season (snd (snd (snd r))) = season \<and> fi_Period (snd (snd (snd r))) = period \<longrightarrow> store_works season period r \<Longrightarrow>
   week_marked season period (fold (alert_run render) runs w)"
  by (induction runs arbitrary: w) (simp_all add: week_marked_run)

text \<open>C24. With a working marker store a week pages at most twice. Over any sequence of runs, of any
  weeks, with any mix of failing pushes and dry runs: when every run of one week of one season has
  a marker store that answers reads and writes at that week's keys, no alert of the week is
  delivered twice, and at most two are delivered, one with three and one with two days left. The
  runs of other weeks may have no store, or one that fails. (Without the store, or with one that
  fails, the week's alert repeats with every run, as the code documents.)\<close>

theorem floor_pushes_at_most_twice:
  assumes "\<forall>(has_store, flt, ok, inp) \<in> set runs. fi_Season inp = season \<and> fi_Period inp = period \<longrightarrow>
      has_store \<and> (\<forall>n. \<not> get_fails flt (gs_floor_marker_key season period n) \<and>
        \<not> put_fails flt (gs_floor_marker_key season period n))"
  shows "let w' = fold (alert_run render) runs (w\<lparr>mw_delivered := []\<rparr>);
      own = map fst (filter (\<lambda>e. \<exists>n. fst e = gs_floor_marker_key season period n) (mw_delivered w'))
    in distinct own \<and> length own \<le> 2 \<and>
      set own \<subseteq> {gs_floor_marker_key season period 3, gs_floor_marker_key season period 2}"
proof -
  let ?own = "map fst (own_deliveries season period (fold (alert_run render) runs (w\<lparr>mw_delivered := []\<rparr>)))"
  have "week_marked season period (w\<lparr>mw_delivered := []\<rparr>)" by (simp add: week_marked_def own_deliveries_def)
  then have "week_marked season period (fold (alert_run render) runs (w\<lparr>mw_delivered := []\<rparr>))"
    using assms by (intro week_marked_runs) (auto simp: store_works_def)
  then have d: "distinct ?own" and sub: "set ?own \<subseteq> {gs_floor_marker_key season period 3, gs_floor_marker_key season period 2}"
    unfolding week_marked_def by blast+
  have "length ?own \<le> card {gs_floor_marker_key season period 3, gs_floor_marker_key season period 2}"
    using card_mono [OF _ sub] distinct_card [OF d] by simp
  also have "\<dots> \<le> 2" by (simp add: card_insert_if)
  finally show ?thesis using d sub by (simp add: Let_def own_deliveries_def)
qed

text \<open>An earlier alert never mutes a later day. Whatever the runs with another number of days
  left, or of another week, did before: a run whose alert fires, with the marker of its own day
  not yet written, delivers it when the push succeeds, and leaves the marker unwritten when the
  push fails, so that the next run tries again.\<close>

theorem earlier_alert_never_mutes:
  assumes "pushes inp" and "mw_store w (gs_floor_marker_key (fi_Season inp) (fi_Period inp)
      (ff_DaysLeft (evaluate_gs_floor (fi_Budget inp)))) = None"
    and "list_all (\<lambda>(_, r). (fi_Season r, fi_Period r, ff_DaysLeft (evaluate_gs_floor (fi_Budget r))) \<noteq>
      (fi_Season inp, fi_Period inp, ff_DaysLeft (evaluate_gs_floor (fi_Budget inp)))) runs"
  shows "let w' = fold (floor_run render) runs w in
    mw_delivered (floor_run render (True, inp) w') =
      mw_delivered w' @ [(run_key inp, render (evaluate_gs_floor (fi_Budget inp)))] \<and>
    floor_run render (False, inp) w' = w'"
proof -
  have "mw_store (fold (floor_run render) runs w) (run_key inp) = None"
    using assms(2,3) unfolding run_key_def [symmetric]
  proof (induction runs arbitrary: w)
    case (Cons r runs)
    obtain o' inp' where r: "r = (o', inp')" by (cases r)
    have "run_key inp' \<noteq> run_key inp" using Cons.prems(2) by (auto simp: r run_key_def marker_key_inj)
    then have "mw_store (floor_run render r w) (run_key inp) = None"
      using Cons.prems(1) by (simp add: r floor_run_eq)
    then show ?case using Cons.IH Cons.prems(2) by simp
  qed simp
  with assms(1) show ?thesis by (simp add: Let_def floor_run_eq)
qed

text \<open>A week that needs eight more starts, seen with three and with two days left.\<close>

definition demo_floor_inputs :: "int \<Rightarrow> floor_inputs" where
  "demo_floor_inputs today = \<lparr>fi_Budget = Some \<lparr>gb_Limit = 12, gb_Floor = 10, gb_Used = 2, gb_Today = today, gb_WeekEnd = 13,
       gb_Forecast = [\<lparr>df_Date = 11, df_ConfirmedStarters = [9], df_Estimated = 1\<rparr>,
         \<lparr>df_Date = 12, df_ConfirmedStarters = [], df_Estimated = 0\<rparr>,
         \<lparr>df_Date = 13, df_ConfirmedStarters = [], df_Estimated = 1 / 2\<rparr>],
       gb_TodayUnsettled = 0\<rparr>, fi_Period = 22, fi_Season = 2026, fi_DryRun = False\<rparr>"

lemma demo_floor:
  "pushes (demo_floor_inputs 10)" "pushes (demo_floor_inputs 11)"
  "ff_DaysLeft (evaluate_gs_floor (fi_Budget (demo_floor_inputs 10))) = 3"
  "ff_DaysLeft (evaluate_gs_floor (fi_Budget (demo_floor_inputs 11))) = 2"
  by code_simp+

text \<open>Three runs of one week, two of them on the same day, and a run of the next week without a store.\<close>

theorem floor_pushes_at_most_twice_witness:
  "length (filter (\<lambda>e. \<exists>n. fst e = gs_floor_marker_key 2026 22 n)
    (mw_delivered (fold (alert_run (\<lambda>_. ''short'')) [(True, healthy, True, demo_floor_inputs 10),
      (True, healthy, True, demo_floor_inputs 10), (True, healthy, True, demo_floor_inputs 11),
      (False, healthy, True, (demo_floor_inputs 11)\<lparr>fi_Period := 23\<rparr>)] \<lparr>mw_store = Map.empty, mw_delivered = []\<rparr>))) \<le> 2"
  using floor_pushes_at_most_twice [of "[(True, healthy, True, demo_floor_inputs 10),
      (True, healthy, True, demo_floor_inputs 10), (True, healthy, True, demo_floor_inputs 11),
      (False, healthy, True, (demo_floor_inputs 11)\<lparr>fi_Period := 23\<rparr>)]" 2026 22 "\<lambda>_. ''short''"
      "\<lparr>mw_store = Map.empty, mw_delivered = []\<rparr>"]
  by (simp add: healthy_def demo_floor_inputs_def Let_def)

theorem earlier_alert_never_mutes_witness:
  "map fst (mw_delivered (fold (floor_run (\<lambda>_. ''short'')) [(True, demo_floor_inputs 10), (True, demo_floor_inputs 10),
      (True, demo_floor_inputs 11)] \<lparr>mw_store = Map.empty, mw_delivered = []\<rparr>)) = [''2026-p22-d3'', ''2026-p22-d2'']"
proof -
  let ?w = "\<lparr>mw_store = Map.empty, mw_delivered = []\<rparr>" and ?r = "\<lambda>_. ''short''"
  let ?d3 = "(True, demo_floor_inputs 10)"
  have id: "fi_Season (demo_floor_inputs d) = 2026" "fi_Period (demo_floor_inputs d) = 22" for d
    by (simp_all add: demo_floor_inputs_def)
  have k: "run_key (demo_floor_inputs 10) = ''2026-p22-d3''" "run_key (demo_floor_inputs 11) = ''2026-p22-d2''"
    unfolding run_key_def demo_floor id by code_simp+
  have "mw_delivered (floor_run ?r (True, demo_floor_inputs 11) (fold (floor_run ?r) [?d3, ?d3] ?w)) =
      mw_delivered (fold (floor_run ?r) [?d3, ?d3] ?w) @ [(''2026-p22-d2'', ''short'')]"
    using earlier_alert_never_mutes [OF demo_floor(2), where w = ?w and render = ?r and runs = "[?d3, ?d3]"]
    by (simp add: id demo_floor k Let_def)
  moreover have "mw_delivered (fold (floor_run ?r) [?d3, ?d3] ?w) = [(''2026-p22-d3'', ''short'')]"
    by (simp add: floor_run_eq demo_floor k)
  ultimately show ?thesis by simp
qed

end
