(* ===== verification/Job_Report.thy ===== *)
theory Job_Report
  imports Prelude
begin

text \<open>
  The output sequence of one scheduled job: \<open>Emit\<close> of \<open>internal/jobreport/jobreport.go\<close>. What the
  sequence does is the list of its events in order; the wire payload and the body of the
  notification are type parameters, an empty body is \<open>None\<close>. Whether \<open>Before\<close>, the send and each
  effect succeed is given with the report. The lemmas show that nothing is sent in a dry run and
  that the wire result is recorded first and always.
\<close>

record ('w, 'b) report =
  jr_Job :: string
  jr_Wire :: 'w
  jr_Text :: bool
  jr_Summary :: bool
  jr_Title :: string
  jr_Body :: "'b option"
  jr_Before :: "string option option"
  jr_Effects :: "(string \<times> string option) list"

text \<open>\<open>jr_Before\<close> is \<open>None\<close> for a nil function, else the error it returns, if any; an effect has its
  name and its error, if any.\<close>

record emit_options =
  eo_DryRun :: bool
  eo_SummaryPath :: string
  eo_SendErr :: "string option"

datatype ('w, 'b) job_event =
    Recorded string 'w | Printed | Summary_written
  | Would_send string 'b
  | Before_ran | Before_failed
  | Sent string string 'b | Send_failed
  | Effect_done string | Effect_failed string string

datatype emit_error = Before_error string string | Send_error string string

fun run_effects :: "(string \<times> string option) list \<Rightarrow> ('w, 'b) job_event list" where
  "run_effects [] = []"
| "run_effects ((name, err) # es) =
     (case err of None \<Rightarrow> Effect_done name | Some e \<Rightarrow> Effect_failed name e) # run_effects es"

definition printed_part :: "('w, 'b) report \<Rightarrow> emit_options \<Rightarrow> ('w, 'b) job_event list" where
  "printed_part r o' =
     [Recorded (jr_Job r) (jr_Wire r)] @ (if jr_Text r then [Printed] else []) @
     (if eo_SummaryPath o' \<noteq> [] \<and> jr_Summary r then [Summary_written] else [])"

definition before_part :: "('w, 'b) report \<Rightarrow> emit_error option \<times> ('w, 'b) job_event list" where
  "before_part r =
     (case jr_Before r of
        None \<Rightarrow> (None, [])
      | Some None \<Rightarrow> (None, [Before_ran])
      | Some (Some e) \<Rightarrow> (Some (Before_error (jr_Job r) e), [Before_failed]))"

definition emit :: "('w, 'b) report \<Rightarrow> emit_options \<Rightarrow> emit_error option \<times> ('w, 'b) job_event list" where
  "emit r o' =
     (let pre = printed_part r o' in
      if eo_DryRun o' then
        (None, pre @ (case jr_Body r of None \<Rightarrow> [] | Some b \<Rightarrow> [Would_send (jr_Title r) b]))
      else
        (case jr_Body r of
           None \<Rightarrow> (None, pre @ run_effects (jr_Effects r))
         | Some b \<Rightarrow>
            (case before_part r of
               (Some e, evs) \<Rightarrow> (Some e, pre @ evs)
             | (None, evs) \<Rightarrow>
                (case eo_SendErr o' of
                   Some e \<Rightarrow> (Some (Send_error (jr_Job r) e), pre @ evs @ [Send_failed])
                 | None \<Rightarrow> (None, pre @ evs @ [Sent (jr_Job r) (jr_Title r) b] @ run_effects (jr_Effects r))))))"

section \<open>Lemmas\<close>

fun side_effect :: "('w, 'b) job_event \<Rightarrow> bool" where
  "side_effect (Recorded _ _) = False"
| "side_effect Printed = False"
| "side_effect Summary_written = False"
| "side_effect (Would_send _ _) = False"
| "side_effect _ = True"

lemma run_effects_map: "run_effects es = map (\<lambda>(n, e). case e of None \<Rightarrow> Effect_done n | Some x \<Rightarrow> Effect_failed n x) es"
  by (induction es) auto

lemma sent_not_effect [simp]: "Sent k t b \<notin> set (run_effects es)" "Before_ran \<notin> set (run_effects es)"
  by (auto simp: run_effects_map split: option.splits)

lemma sent_not_printed [simp]: "Sent k t b \<notin> set (printed_part r o')" "Before_ran \<notin> set (printed_part r o')"
  by (auto simp: printed_part_def)

lemma printed_no_effect: "filter side_effect (printed_part r o') = []"
  by (simp add: printed_part_def)

text \<open>A dry run records and prints but has no side effect, whatever the report; every run records
  its result first; and a run that is not dry returns no error exactly when there was nothing
  to send or both steps of the send worked, in which case every effect ran.\<close>

theorem emit_discipline:
  "let (err, evs) = emit r o' in
   (\<exists>rest. evs = Recorded (jr_Job r) (jr_Wire r) # rest) \<and>
   (if eo_DryRun o' then err = None \<and> filter side_effect evs = []
    else (err = None \<longleftrightarrow> jr_Body r = None \<or> fst (before_part r) = None \<and> eo_SendErr o' = None) \<and>
      (if err = None then filter side_effect evs =
          (case jr_Body r of None \<Rightarrow> [] | Some b \<Rightarrow> snd (before_part r) @ [Sent (jr_Job r) (jr_Title r) b]) @
          run_effects (jr_Effects r)
       else list_all (\<lambda>ev. ev \<noteq> Sent (jr_Job r) (jr_Title r) b) evs))"
proof -
  have eff: "filter side_effect (run_effects es) = run_effects es" for es :: "(string \<times> string option) list"
    by (induction es) (auto split: option.splits)
  have bef: "filter side_effect (snd (before_part r)) = snd (before_part r)"
    by (simp add: before_part_def split: option.splits)
  have pre: "\<exists>rest. printed_part r o' @ xs = Recorded (jr_Job r) (jr_Wire r) # rest" for xs
    by (simp add: printed_part_def)
  show ?thesis
    using bef
    by (auto simp: emit_def Let_def pre printed_no_effect eff before_part_def list_all_iff
        split: option.splits)
qed

end
