(* ===== verification/GS_Check.thy ===== *)
theory GS_Check
  imports Pitcher_Days Job_Report
begin

text \<open>
  The weekly check of every team's game starts: \<open>internal/gscheck/gscheck.go\<close> and \<open>output.go\<close>.
  The Fantrax client is a record of the reads; the read of a team's starts depends on the
  number of the attempt, since the check retries it. The map of teams is the list of its
  entries in the order the loop walks them. Console lines are left out; the body of the
  notification is its content, without its wording. The run's output goes through
  \<open>Job_Report\<close>, with the broadcast to the league as its \<open>Before\<close> step.
\<close>

datatype violation_kind = Violation_max | Violation_min

record violation =
  vi_TeamName :: string
  vi_GSUsed :: int
  vi_Kind :: violation_kind
  vi_Deductions :: "pitcher_start list"

record team_gs =
  tg_id :: string
  tg_name :: string
  tg_gs :: int
  tg_starts :: "pitcher_start list"

section \<open>The body of the report\<close>

record gs_body =
  gy_Violations :: int
  gy_Max :: int
  gy_Min :: int
  gy_Unchecked :: "string list"
  gy_Over :: "(string \<times> int \<times> int \<times> pitcher_start list) list"
  gy_Under :: "(string \<times> int \<times> int) list"

definition build_report :: "violation list \<Rightarrow> int \<Rightarrow> int \<Rightarrow> string list \<Rightarrow> gs_body" where
  "build_report vs gsMax gsMin unchecked =
     \<lparr>gy_Violations = int (length vs), gy_Max = gsMax, gy_Min = gsMin, gy_Unchecked = unchecked,
      gy_Over = List.map_filter (\<lambda>v. case vi_Kind v of
          Violation_max \<Rightarrow> Some (vi_TeamName v, vi_GSUsed v, vi_GSUsed v - gsMax, vi_Deductions v)
        | Violation_min \<Rightarrow> None) vs,
      gy_Under = List.map_filter (\<lambda>v. case vi_Kind v of
          Violation_max \<Rightarrow> None
        | Violation_min \<Rightarrow> Some (vi_TeamName v, vi_GSUsed v, gsMin - vi_GSUsed v)) vs\<rparr>"

record gs_violation_out =
  vo_Team :: string
  vo_Kind :: string
  vo_Used :: int
  vo_Limit :: int
  vo_OverBy :: int

definition to_wire_result :: "violation list \<Rightarrow> int \<Rightarrow> int \<Rightarrow> gs_violation_out list" where
  "to_wire_result vs gsMax gsMin =
     map (\<lambda>v. case vi_Kind v of
         Violation_max \<Rightarrow> \<lparr>vo_Team = vi_TeamName v, vo_Kind = ''over'', vo_Used = vi_GSUsed v, vo_Limit = gsMax,
            vo_OverBy = (if vi_GSUsed v > gsMax then vi_GSUsed v - gsMax else 0)\<rparr>
       | Violation_min \<Rightarrow> \<lparr>vo_Team = vi_TeamName v, vo_Kind = ''under'', vo_Used = vi_GSUsed v, vo_Limit = gsMin,
            vo_OverBy = 0\<rparr>) vs"

section \<open>Reading a team\<close>

record gs_check_client =
  gk_Schedule :: "string + (scoring_period list \<times> (string \<times> string) list)"
  gk_Entries :: "string + matchup_entry list"
  gk_GSLimits :: "int \<Rightarrow> string + (int option \<times> int option)"
  gk_TeamGS :: "nat \<Rightarrow> string \<Rightarrow> scoring_period \<Rightarrow> day \<Rightarrow> day \<Rightarrow> int \<Rightarrow> string + (int \<times> pitcher_start list)"

definition team_fetch_attempts :: nat where
  "team_fetch_attempts = 3"

datatype fetch_error = Fetch_failed string | Retry_abandoned string

text \<open>\<open>cancelled n\<close> is whether the context is done while the run waits after attempt \<open>n\<close>.\<close>

function fetch_from ::
  "gs_check_client \<Rightarrow> (nat \<Rightarrow> bool) \<Rightarrow> string \<Rightarrow> scoring_period \<Rightarrow> day \<Rightarrow> day \<Rightarrow> int \<Rightarrow> nat \<Rightarrow>
   fetch_error + (int \<times> pitcher_start list)" where
  "fetch_from ft cancelled team sp seasonStart today gsMax attempt =
     (case gk_TeamGS ft attempt team sp seasonStart today gsMax of
        Inr r \<Rightarrow> Inr r
      | Inl e \<Rightarrow>
          if attempt \<ge> team_fetch_attempts then Inl (Fetch_failed e)
          else if cancelled attempt then Inl (Retry_abandoned e)
          else fetch_from ft cancelled team sp seasonStart today gsMax (attempt + 1))"
  by auto

termination
  by (relation "measure (\<lambda>(_, _, _, _, _, _, _, n). team_fetch_attempts - n)") auto

declare fetch_from.simps [simp del]

definition fetch_team_gs ::
  "gs_check_client \<Rightarrow> (nat \<Rightarrow> bool) \<Rightarrow> string \<Rightarrow> scoring_period \<Rightarrow> day \<Rightarrow> day \<Rightarrow> int \<Rightarrow>
   fetch_error + (int \<times> pitcher_start list)" where
  "fetch_team_gs ft cancelled team sp seasonStart today gsMax =
     fetch_from ft cancelled team sp seasonStart today gsMax 1"

section \<open>The subject of the check\<close>

datatype check_error =
    Schedule_failed string | No_periods | Unknown_period int | Limits_failed string | No_teams
  | Pairings_failed string | Emit_failed emit_error | Incomplete "string list"

definition select_period :: "scoring_period list \<Rightarrow> day \<Rightarrow> int \<Rightarrow> check_error + scoring_period option" where
  "select_period periods today explicit =
     (if explicit = 0 then Inr (find_just_ended_period periods today)
      else (case find (\<lambda>p. sp_Number p = explicit) periods of
              Some p \<Rightarrow> Inr (Some p) | None \<Rightarrow> Inl (Unknown_period explicit)))"

text \<open>The result map of \<open>pairedTeams\<close>: the entries of \<open>teams\<close> with a pairing that is not a bye.\<close>

definition paired :: "matchup_entry list \<Rightarrow> int \<Rightarrow> string \<Rightarrow> bool" where
  "paired entries period team =
     list_ex (\<lambda>e. \<not> (me_ScoringPeriod e \<noteq> period \<or> me_Bye e) \<and> (me_HomeID e = team \<or> me_AwayID e = team)) entries"

definition paired_teams :: "(string \<times> string) list \<Rightarrow> matchup_entry list \<Rightarrow> int \<Rightarrow> (string \<times> string) list" where
  "paired_teams teams entries period = filter (\<lambda>t. paired entries period (fst t)) teams"

definition earliest_start :: "scoring_period list \<Rightarrow> day" where
  "earliest_start periods =
     foldl (\<lambda>s p. if sp_StartDate p < s then sp_StartDate p else s) (sp_StartDate (hd periods)) periods"

section \<open>The tally\<close>

fun tally_teams ::
  "(string \<Rightarrow> fetch_error + (int \<times> pitcher_start list)) \<Rightarrow> (string \<times> string) list \<Rightarrow>
   team_gs list \<Rightarrow> (string \<times> fetch_error) list \<Rightarrow> team_gs list \<times> (string \<times> fetch_error) list" where
  "tally_teams fetch [] results skipped = (results, skipped)"
| "tally_teams fetch ((i, name) # teams) results skipped =
     (case fetch i of
        Inl e \<Rightarrow> tally_teams fetch teams results (skipped @ [(name, e)])
      | Inr (gs, starts) \<Rightarrow>
          tally_teams fetch teams (results @ [\<lparr>tg_id = i, tg_name = name, tg_gs = gs, tg_starts = starts\<rparr>]) skipped)"

definition skip_less :: "string \<times> fetch_error \<Rightarrow> string \<times> fetch_error \<Rightarrow> bool" where
  "skip_less a b = (fst a < fst b)"

definition start_more :: "pitcher_start \<Rightarrow> pitcher_start \<Rightarrow> bool" where
  "start_more a b = (ps_FPts a > ps_FPts b)"

definition deductions_of :: "int \<Rightarrow> pitcher_start list \<Rightarrow> pitcher_start list" where
  "deductions_of overage starts =
     (if length starts > 0 then
        (let sorted = sort_slice start_more starts;
             n = (if overage > int (length sorted) then int (length sorted) else overage)
         in take (nat n) sorted)
      else [])"

definition team_violations :: "int \<Rightarrow> int \<Rightarrow> bool \<Rightarrow> team_gs \<Rightarrow> violation list" where
  "team_violations gsMax gsMin ended r =
     (if tg_gs r > gsMax
      then [\<lparr>vi_TeamName = tg_name r, vi_GSUsed = tg_gs r, vi_Kind = Violation_max,
             vi_Deductions = deductions_of (tg_gs r - gsMax) (tg_starts r)\<rparr>] else []) @
     (if ended \<and> gsMin > 0 \<and> tg_gs r < gsMin
      then [\<lparr>vi_TeamName = tg_name r, vi_GSUsed = tg_gs r, vi_Kind = Violation_min, vi_Deductions = []\<rparr>] else [])"

definition find_violations :: "int \<Rightarrow> int \<Rightarrow> bool \<Rightarrow> team_gs list \<Rightarrow> violation list" where
  "find_violations gsMax gsMin ended results = concat (map (team_violations gsMax gsMin ended) results)"

section \<open>The run\<close>

record gs_check_env =
  ge_DryRun :: bool
  ge_Pushover :: bool
  ge_BroadcastErr :: "string option"
  ge_FeedErr :: "string option"
  ge_SummaryPath :: string
  ge_Cancelled :: "string \<Rightarrow> nat \<Rightarrow> bool"

datatype gk_event =
    Limits_push int string
  | Job_event "(gs_violation_out list, gs_body) job_event"

definition coverage_err :: "string list \<Rightarrow> check_error option" where
  "coverage_err names = (if names = [] then None else Some (Incomplete names))"

definition report_part ::
  "gs_check_env \<Rightarrow> scoring_period \<Rightarrow> int \<Rightarrow> int \<Rightarrow> day \<Rightarrow> team_gs list \<Rightarrow> (string \<times> fetch_error) list \<Rightarrow>
   check_error option \<times> gk_event list" where
  "report_part env sp gsMax gsMin today results skipped =
     (let names = map fst (sort_slice skip_less skipped);
          vs = find_violations gsMax gsMin (sp_EndDate sp < today) results;
          (err, evs) = emit
            \<lparr>jr_Job = ''gs-check'', jr_Wire = to_wire_result vs gsMax gsMin, jr_Text = True, jr_Summary = False,
             jr_Title = ''Fantrax GS Alert'',
             jr_Body = (if vs \<noteq> [] then Some (build_report vs gsMax gsMin names) else None),
             jr_Before = Some (ge_BroadcastErr env), jr_Effects = []\<rparr>
            \<lparr>eo_DryRun = ge_DryRun env, eo_SummaryPath = ge_SummaryPath env, eo_SendErr = ge_FeedErr env\<rparr>
      in ((case err of Some e \<Rightarrow> Some (Emit_failed e) | None \<Rightarrow> coverage_err names), map Job_event evs))"

definition run_gs_check_period ::
  "gs_check_client \<Rightarrow> gs_check_env \<Rightarrow> day \<Rightarrow> int \<Rightarrow> check_error option \<times> gk_event list" where
  "run_gs_check_period ft env today explicit =
     (case gk_Schedule ft of
        Inl e \<Rightarrow> (Some (Schedule_failed e), [])
      | Inr (periods, teams) \<Rightarrow>
          if periods = [] then (Some No_periods, [])
          else (case select_period periods today explicit of
             Inl e \<Rightarrow> (Some e, [])
           | Inr None \<Rightarrow> (None, [])
           | Inr (Some sp) \<Rightarrow>
              (case gk_GSLimits ft (sp_Number sp) of
                 Inl e \<Rightarrow> (Some (Limits_failed e), if ge_Pushover env then [Limits_push (sp_Number sp) e] else [])
               | Inr (_, None) \<Rightarrow> (None, [])
               | Inr (liveMin, Some gsMax) \<Rightarrow>
                  (let gsMin = (case liveMin of None \<Rightarrow> 0 | Some m \<Rightarrow> m) in
                   if teams = [] then (Some No_teams, [])
                   else (case (if sp_Playoff sp
                               then (case gk_Entries ft of
                                       Inl e \<Rightarrow> Inl e | Inr es \<Rightarrow> Inr (paired_teams teams es (sp_Number sp)))
                               else Inr teams) of
                      Inl e \<Rightarrow> (Some (Pairings_failed e), [])
                    | Inr checked \<Rightarrow>
                       (let (results, skipped) = tally_teams
                              (\<lambda>t. fetch_team_gs ft (ge_Cancelled env t) t sp (earliest_start periods) today gsMax)
                              checked [] []
                        in report_part env sp gsMax gsMin today results skipped))))))"

section \<open>Lemmas\<close>

interpretation start_order: go_order start_more
  by unfold_locales (auto simp: start_more_def)

lemma tally_teams_eq:
  "tally_teams fetch teams results skipped =
     (results @ List.map_filter (\<lambda>(i, name). case fetch i of Inl _ \<Rightarrow> None
         | Inr (gs, starts) \<Rightarrow> Some \<lparr>tg_id = i, tg_name = name, tg_gs = gs, tg_starts = starts\<rparr>) teams,
      skipped @ List.map_filter (\<lambda>(i, name). case fetch i of Inl e \<Rightarrow> Some (name, e) | Inr _ \<Rightarrow> None) teams)"
  by (induction teams arbitrary: results skipped) (auto simp: map_filter_simps split: sum.splits)

lemma tally_none_skipped:
  "snd (tally_teams fetch teams results []) = [] \<longleftrightarrow> list_all (\<lambda>t. \<exists>r. fetch (fst t) = Inr r) teams"
  unfolding tally_teams_eq by (induction teams) (auto simp: map_filter_simps split: sum.splits)

lemma fetch_from_Inr:
  "fetch_from ft cancelled team sp ss today gsMax n = Inr r \<Longrightarrow> 1 \<le> n \<Longrightarrow> n \<le> 3 \<Longrightarrow>
   \<exists>m. 1 \<le> m \<and> m \<le> 3 \<and> gk_TeamGS ft m team sp ss today gsMax = Inr r"
proof (induction ft cancelled team sp ss today gsMax n rule: fetch_from.induct)
  case (1 ft cancelled team sp ss today gsMax n)
  have step: "(case gk_TeamGS ft n team sp ss today gsMax of Inr r \<Rightarrow> Inr r
      | Inl e \<Rightarrow> if n \<ge> team_fetch_attempts then Inl (Fetch_failed e)
          else if cancelled n then Inl (Retry_abandoned e)
          else fetch_from ft cancelled team sp ss today gsMax (n + 1)) = Inr r"
    using "1.prems"(1) by (simp only: fetch_from.simps [of ft cancelled team sp ss today gsMax n])
  show ?case
  proof (cases "gk_TeamGS ft n team sp ss today gsMax")
    case (Inl e)
    with step have "\<not> team_fetch_attempts \<le> n" "\<not> cancelled n"
      "fetch_from ft cancelled team sp ss today gsMax (n + 1) = Inr r" by (auto split: if_splits)
    with "1.IH" [OF Inl this] show ?thesis by (simp add: team_fetch_attempts_def)
  next
    case (Inr x)
    with step "1.prems" show ?thesis by auto
  qed
qed

lemma fetch_team_gs_Inr:
  "fetch_team_gs ft cancelled team sp ss today gsMax = Inr r \<Longrightarrow>
   \<exists>m. 1 \<le> m \<and> m \<le> 3 \<and> gk_TeamGS ft m team sp ss today gsMax = Inr r"
  unfolding fetch_team_gs_def by (erule fetch_from_Inr) simp_all

lemma take_best:
  assumes "x \<in> set (take n (sort_slice start_more xs))" and "y \<in> set (drop n (sort_slice start_more xs))"
  shows "ps_FPts y \<le> ps_FPts x"
proof -
  have "sorted_wrt (\<lambda>a b. \<not> start_more b a) (take n (sort_slice start_more xs) @ drop n (sort_slice start_more xs))"
    using start_order.sorted_sort_slice [of xs] by (simp only: append_take_drop_id)
  then have "\<forall>x \<in> set (take n (sort_slice start_more xs)). \<forall>y \<in> set (drop n (sort_slice start_more xs)). \<not> start_more y x"
    unfolding sorted_wrt_append by blast
  with assms have "\<not> start_more y x" by blast
  then show ?thesis by (simp add: start_more_def)
qed

lemma gs_day_starts:
  assumes "gs_day info w starts = (w', starts')" and "single_day info (gw_prevGS w)"
  shows "gw_prevGS w' = after_day info (gw_prevGS w) \<and> gw_overage w' = gw_overage w \<and>
    gw_total w' - gw_total w = int (length starts') - int (length starts)"
  using assms
proof (induction info arbitrary: w starts)
  case Nil
  then show ?case by (simp add: after_day_def)
next
  case (Cons e info)
  obtain pid s where e: "e = (pid, s)" by (cases e)
  let ?d = "gs_delta (gw_prevGS w) pid s"
  have d: "0 \<le> ?d" "?d \<le> 1"
    using Cons.prems(2) gs_delta_nonneg gs_delta_single [where prev = "gw_prevGS w" and pid = pid and s = s]
    by (simp_all add: e)
  let ?w = "w\<lparr>gw_total := gw_total w + ?d, gw_prevGS := (gw_prevGS w)(pid \<mapsto> gs_GS s),
      gw_prevFPts := (gw_prevFPts w)(pid \<mapsto> gs_FPts s)\<rparr>"
  let ?st = "if ?d > 0 then starts @ [\<lparr>ps_PitcherName = gs_Name s, ps_FPts = gs_FPts s - zero_or (gw_prevFPts w) pid\<rparr>]
      else starts"
  have run: "gs_day info ?w ?st = (w', starts')"
    using Cons.prems(1) by (simp only: e gs_day.simps Let_def)
  have single: "single_day info (gw_prevGS ?w)" using Cons.prems(2) by (simp add: e)
  have after: "after_day (e # info) (gw_prevGS w) = after_day info (gw_prevGS ?w)"
    by (simp add: after_day_def e)
  have len: "int (length ?st) = int (length starts) + ?d" using d by auto
  from Cons.IH [OF run single] show ?case unfolding after using len by (auto simp del: fun_upd_apply)
qed

lemma overage_covers:
  assumes "gs_days fetch gsMax ps w = Inr w'" and "single_starts fetch ps (gw_prevGS w)" and "0 < gsMax"
    and "gw_total w \<le> gsMax \<or> gw_total w - gsMax \<le> int (length (gw_overage w))"
  shows "gw_total w' \<le> gsMax \<or> gw_total w' - gsMax \<le> int (length (gw_overage w'))"
  using assms(1,2,4)
proof (induction ps arbitrary: w)
  case (Cons p ps)
  obtain info where f: "fetch p = Inr info" using Cons.prems(1) by (auto split: sum.splits)
  obtain w1 st where day: "gs_day info w [] = (w1, st)" by fastforce
  have single: "single_day info (gw_prevGS w)" "single_starts fetch ps (after_day info (gw_prevGS w))"
    using Cons.prems(2) f by simp_all
  note d = gs_day_starts [OF day single(1)]
  let ?w = "if gsMax > 0 \<and> gw_total w1 > gsMax then w1\<lparr>gw_overage := gw_overage w1 @ st\<rparr> else w1"
  have run: "gs_days fetch gsMax ps ?w = Inr w'" using Cons.prems(1) f day by simp
  have prev: "single_starts fetch ps (gw_prevGS ?w)" using single(2) d by simp
  have "gw_total ?w \<le> gsMax \<or> gw_total ?w - gsMax \<le> int (length (gw_overage ?w))"
    using Cons.prems(3) d assms(3) by auto
  from Cons.IH [OF run prev this] show ?case .
qed simp

section \<open>Properties\<close>

text \<open>The deductions are the overage. When no pitcher gains two starts a day, the starts that
  \<open>GetTeamGS\<close> hands over for a team above a positive limit are enough, so the check deducts
  exactly as many starts as the team has too many, all of them from the days on which it was
  over; and no start that is spared scored more than one that is deducted.\<close>

theorem deductions_are_the_overage:
  assumes "get_team_gs snap pmap sp seasonStart today gsMax = Inr (used, over)" and "0 < gsMax" and "gsMax < used"
    and "single_starts snap (gs_period_walk pmap sp seasonStart today) (seeded snap pmap seasonStart (sp_StartDate sp))"
  shows "let ds = deductions_of (used - gsMax) over in
    int (length ds) = used - gsMax \<and> mset ds \<subseteq># mset over \<and>
    list_all (\<lambda>d. list_all (\<lambda>s. ps_FPts s \<le> ps_FPts d) (drop (length ds) (sort_slice start_more over))) ds"
proof -
  have walk: "gs_period_walk pmap sp seasonStart today \<noteq> []"
    using assms(1-3) by (auto simp: get_team_gs_def Let_def)
  obtain info where info: "(if \<not> sp_StartDate sp - 1 < seasonStart
      then snap (daily_period_for pmap seasonStart (sp_StartDate sp - 1)) else Inr []) = Inr info"
    using assms(1) walk by (auto simp: get_team_gs_def Let_def split: sum.splits if_splits)
  define g where "g = \<lparr>gw_prevGS = map_of (rev (map (\<lambda>(pid, s). (pid, gs_GS s)) info)),
      gw_prevFPts = map_of (rev (map (\<lambda>(pid, s). (pid, gs_FPts s)) info)), gw_total = 0, gw_overage = []\<rparr>"
  obtain g' where g': "gs_days snap gsMax (gs_period_walk pmap sp seasonStart today) g = Inr g'"
    "used = gw_total g'" "over = gw_overage g'"
    using assms(1) walk info by (auto simp: get_team_gs_def Let_def g_def split: sum.splits)
  have "gw_prevGS g = seeded snap pmap seasonStart (sp_StartDate sp)"
    using info fold_upd_map_of [of gs_GS info Map.empty]
    by (auto simp: g_def seeded_def after_day_def case_prod_unfold split: if_splits)
  with assms(4) have "single_starts snap (gs_period_walk pmap sp seasonStart today) (gw_prevGS g)" by simp
  from overage_covers [OF g'(1) this assms(2)] assms(2,3)
  have len: "used - gsMax \<le> int (length over)" by (simp add: g'(2,3) g_def)
  then have "over \<noteq> []" using assms(3) by auto
  then have ds: "deductions_of (used - gsMax) over = take (nat (used - gsMax)) (sort_slice start_more over)"
    using len by (simp add: deductions_of_def)
  have l: "length (take (nat (used - gsMax)) (sort_slice start_more over)) = nat (used - gsMax)"
    using len by simp
  have "mset (take (nat (used - gsMax)) (sort_slice start_more over)) \<subseteq># mset over"
    by (metis append_take_drop_id mset_append mset_sort_slice mset_subset_eq_add_left)
  then show ?thesis unfolding Let_def ds l list_all_iff using assms(3) take_best by auto
qed

text \<open>C26. A clean exit covers every team. When the run reports no error and produced any output, the
  schedule, the limits and in a playoff round the pairings were read, every team it had to
  check was read within three attempts, and the wire result it recorded first lists exactly the
  violations of those teams.\<close>

theorem clean_exit_covers_all:
  assumes "run_gs_check_period ft env today explicit = (None, evs)" and "evs \<noteq> []"
  shows "\<exists>periods teams sp lmin gsMax checked results rest.
    gk_Schedule ft = Inr (periods, teams) \<and> select_period periods today explicit = Inr (Some sp) \<and>
    gk_GSLimits ft (sp_Number sp) = Inr (lmin, Some gsMax) \<and>
    (if sp_Playoff sp then \<exists>es. gk_Entries ft = Inr es \<and> checked = paired_teams teams es (sp_Number sp)
     else checked = teams) \<and>
    list_all2 (\<lambda>t r. tg_id r = fst t \<and> tg_name r = snd t \<and> (\<exists>m. 1 \<le> m \<and> m \<le> 3 \<and>
      gk_TeamGS ft m (fst t) sp (earliest_start periods) today gsMax = Inr (tg_gs r, tg_starts r))) checked results \<and>
    (let gsMin = (case lmin of None \<Rightarrow> 0 | Some m \<Rightarrow> m) in
     evs = Job_event (Recorded ''gs-check''
       (to_wire_result (find_violations gsMax gsMin (sp_EndDate sp < today) results) gsMax gsMin)) # rest)"
proof -
  obtain periods teams sp lmin gsMax where top: "gk_Schedule ft = Inr (periods, teams)"
    "select_period periods today explicit = Inr (Some sp)" "gk_GSLimits ft (sp_Number sp) = Inr (lmin, Some gsMax)"
    and periods: "periods \<noteq> []" "teams \<noteq> []"
    using assms by (auto simp: run_gs_check_period_def Let_def split: sum.splits option.splits if_splits prod.splits)
  obtain checked where checked: "(if sp_Playoff sp
      then (case gk_Entries ft of Inl e \<Rightarrow> Inl e | Inr es \<Rightarrow> Inr (paired_teams teams es (sp_Number sp)))
      else Inr teams) = Inr checked"
    using assms periods by (auto simp: run_gs_check_period_def top Let_def split: sum.splits if_splits)
  define fetch where "fetch = (\<lambda>t. fetch_team_gs ft (ge_Cancelled env t) t sp (earliest_start periods) today gsMax)"
  obtain results skipped where tally: "tally_teams fetch checked [] [] = (results, skipped)" by fastforce
  let ?min = "case lmin of None \<Rightarrow> 0 | Some m \<Rightarrow> m"
  have run: "report_part env sp gsMax ?min today results skipped = (None, evs)"
    using assms(1) periods checked tally by (simp add: run_gs_check_period_def top Let_def fetch_def)
  then have "skipped = []"
    by (auto simp: report_part_def coverage_err_def Let_def split: prod.splits option.splits if_splits)
  have all: "list_all (\<lambda>t. \<exists>r. fetch (fst t) = Inr r) checked"
    using tally \<open>skipped = []\<close> tally_none_skipped [of fetch checked "[]"] by simp
  have rel: "list_all2 (\<lambda>t r. tg_id r = fst t \<and> tg_name r = snd t \<and> fetch (fst t) = Inr (tg_gs r, tg_starts r)) checked results"
    using tally all unfolding tally_teams_eq
    by (induction checked arbitrary: results) (auto simp: map_filter_simps \<open>skipped = []\<close>)
  have "list_all2 (\<lambda>t r. tg_id r = fst t \<and> tg_name r = snd t \<and> (\<exists>m. 1 \<le> m \<and> m \<le> 3 \<and>
      gk_TeamGS ft m (fst t) sp (earliest_start periods) today gsMax = Inr (tg_gs r, tg_starts r))) checked results"
    using rel by (rule list_all2_mono) (auto simp: fetch_def dest!: fetch_team_gs_Inr)
  moreover have "\<exists>rest. evs = Job_event (Recorded ''gs-check''
       (to_wire_result (find_violations gsMax ?min (sp_EndDate sp < today) results) gsMax ?min)) # rest"
    using run by (auto simp: report_part_def emit_def printed_part_def Let_def split: prod.splits option.splits if_splits)
  moreover have "if sp_Playoff sp then \<exists>es. gk_Entries ft = Inr es \<and> checked = paired_teams teams es (sp_Number sp)
     else checked = teams" using checked by (auto split: sum.splits)
  ultimately show ?thesis using top unfolding Let_def by blast
qed

text \<open>A gap is reported after the findings, never instead of them. Whatever teams could not be
  read: a run that is not dry and found a violation broadcasts to the league before it writes
  the feed, so a failing feed cannot silence the broadcast; it sends the body with the teams it
  could not check; and it ends without an error exactly when every team was read and, if there
  was something to send, both sends worked.\<close>

theorem findings_before_gap:
  "let (err, evs) = report_part env sp gsMax gsMin today results skipped;
       vs = find_violations gsMax gsMin (sp_EndDate sp < today) results;
       names = map fst (sort_slice skip_less skipped);
       send = (vs \<noteq> [] \<and> \<not> ge_DryRun env)
   in (err = None \<longleftrightarrow> skipped = [] \<and> (\<not> send \<or> ge_BroadcastErr env = None \<and> ge_FeedErr env = None)) \<and>
      (Job_event Before_ran \<in> set evs \<longleftrightarrow> send \<and> ge_BroadcastErr env = None) \<and>
      (Job_event (Sent ''gs-check'' ''Fantrax GS Alert'' (build_report vs gsMax gsMin names)) \<in> set evs \<longleftrightarrow>
         send \<and> ge_BroadcastErr env = None \<and> ge_FeedErr env = None) \<and>
      (skipped \<noteq> [] \<and> (\<not> send \<or> ge_BroadcastErr env = None \<and> ge_FeedErr env = None) \<longleftrightarrow> err = Some (Incomplete names))"
  by (auto simp: report_part_def emit_def printed_part_def before_part_def coverage_err_def Let_def
      split: option.splits)

text \<open>The violations come in the order in which the map of teams was walked: the order of the skipped
  teams is fixed by a sort, that of the violations is not.\<close>

theorem report_follows_map_order:
  "\<exists>r1 r2. find_violations 12 0 True [r1, r2] \<noteq> find_violations 12 0 True [r2, r1]"
proof (intro exI)
  let ?r = "\<lambda>n. \<lparr>tg_id = n, tg_name = n, tg_gs = 13, tg_starts = []\<rparr>"
  show "find_violations 12 0 True [?r ''a'', ?r ''b''] \<noteq> find_violations 12 0 True [?r ''b'', ?r ''a'']"
    by (simp add: find_violations_def team_violations_def deductions_of_def)
qed

section \<open>Witnesses\<close>

definition demo_period :: scoring_period where
  "demo_period = \<lparr>sp_Number = 1, sp_Caption = [], sp_StartDate = 101, sp_EndDate = 103, sp_Playoff = False\<rparr>"

lemma demo_over:
  "get_team_gs demo_snaps None demo_period 100 104 2 = Inr (3, [\<lparr>ps_PitcherName = ''Ace'', ps_FPts = 0\<rparr>])"
  by code_simp

lemma demo_over_single:
  "single_starts demo_snaps (gs_period_walk None demo_period 100 104) (seeded demo_snaps None 100 (sp_StartDate demo_period))"
  by code_simp

theorem deductions_are_the_overage_witness:
  "deductions_of (3 - 2) [\<lparr>ps_PitcherName = ''Ace'', ps_FPts = 0\<rparr>] = [\<lparr>ps_PitcherName = ''Ace'', ps_FPts = 0\<rparr>]"
proof -
  let ?over = "[\<lparr>ps_PitcherName = ''Ace'', ps_FPts = 0\<rparr>]"
  have "int (length (deductions_of (3 - 2) ?over)) = 1 \<and> mset (deductions_of (3 - 2) ?over) \<subseteq># mset ?over"
    using deductions_are_the_overage [OF demo_over _ _ demo_over_single] by (simp add: Let_def)
  then show ?thesis by (cases "deductions_of (3 - 2) ?over") (auto simp: Let_def)
qed

definition demo_check_client :: gs_check_client where
  "demo_check_client = \<lparr>gk_Schedule = Inr ([demo_period], [(''t'', ''Team'')]), gk_Entries = Inl ''x'',
     gk_GSLimits = (\<lambda>_. Inr (Some 1, Some 2)),
     gk_TeamGS = (\<lambda>attempt _ _ _ _ _. if attempt = 2 then Inr (3, [\<lparr>ps_PitcherName = ''Ace'', ps_FPts = 0\<rparr>]) else Inl ''timeout'')\<rparr>"

definition demo_check_env :: gs_check_env where
  "demo_check_env = \<lparr>ge_DryRun = False, ge_Pushover = True, ge_BroadcastErr = None, ge_FeedErr = None,
     ge_SummaryPath = [], ge_Cancelled = (\<lambda>_ _. False)\<rparr>"

theorem clean_exit_covers_all_witness:
  "\<exists>rest. snd (run_gs_check_period demo_check_client demo_check_env 104 0) = Job_event (Recorded ''gs-check''
     [\<lparr>vo_Team = ''Team'', vo_Kind = ''over'', vo_Used = 3, vo_Limit = 2, vo_OverBy = 1\<rparr>]) # rest"
proof -
  have run: "run_gs_check_period demo_check_client demo_check_env 104 0 = (None, e)" "e \<noteq> []"
    if "e = snd (run_gs_check_period demo_check_client demo_check_env 104 0)" for e
    unfolding that by code_simp+
  let ?evs = "snd (run_gs_check_period demo_check_client demo_check_env 104 0)"
  obtain periods teams sp lmin gsMax checked results rest where r: "gk_Schedule demo_check_client = Inr (periods, teams)"
    "select_period periods 104 0 = Inr (Some sp)" "gk_GSLimits demo_check_client (sp_Number sp) = Inr (lmin, Some gsMax)"
    "if sp_Playoff sp then \<exists>es. gk_Entries demo_check_client = Inr es \<and> checked = paired_teams teams es (sp_Number sp)
     else checked = teams"
    "list_all2 (\<lambda>t r. tg_id r = fst t \<and> tg_name r = snd t \<and> (\<exists>m. 1 \<le> m \<and> m \<le> 3 \<and>
      gk_TeamGS demo_check_client m (fst t) sp (earliest_start periods) 104 gsMax = Inr (tg_gs r, tg_starts r))) checked results"
    "?evs = Job_event (Recorded ''gs-check'' (to_wire_result (find_violations gsMax (case lmin of None \<Rightarrow> 0 | Some m \<Rightarrow> m)
       (sp_EndDate sp < 104) results) gsMax (case lmin of None \<Rightarrow> 0 | Some m \<Rightarrow> m))) # rest"
    using clean_exit_covers_all [OF run [OF refl]] unfolding Let_def by blast
  have sp: "sp = demo_period" "lmin = Some 1" "gsMax = 2" "checked = [(''t'', ''Team'')]"
    using r(1-4) by (auto simp: demo_check_client_def select_period_def find_just_ended_period_def demo_period_def)
  then obtain x where x: "results = [x]" "tg_gs x = 3" "tg_name x = ''Team''"
    using r(5) by (auto simp: demo_check_client_def list_all2_Cons1 split: if_splits)
  show ?thesis unfolding r(6) by (simp add: sp x find_violations_def team_violations_def to_wire_result_def)
qed

end
