(* ===== verification/State_Layout.thy ===== *)
theory State_Layout
  imports Prelude
begin

text \<open>
  The key layout of the state bucket and the choice of a store in it:
  \<open>internal/statestore/layout/layout.go\<close> (the table of artifacts, \<open>PrefixFor\<close>, \<open>LocalDirFor\<close>) and
  \<open>pick\<close> with its guard \<open>strandedTenants\<close> of \<open>internal/statestore/statestore.go\<close>. The table is
  data; the lemmas evaluate what the rest relies on over the whole table: that two tenants
  never share a key, whatever artifacts they use.
\<close>

record artifact =
  af_Name :: string
  af_S3Prefix :: string
  af_LocalDir :: string
  af_Durable :: bool
  af_MaxAge :: go_duration
  af_Producer :: string
  af_Partitioned :: bool
  af_PerTenant :: bool
  af_RecoveryInput :: string
  af_NoBackfill :: bool

definition day_duration :: go_duration where
  "day_duration = 24 * hour"

section \<open>The table\<close>

definition cache_artifact :: artifact where
  "cache_artifact = \<lparr>af_Name = ''TTL Cache'', af_S3Prefix = ''cache/'', af_LocalDir = ''.cache'',
     af_Durable = False, af_MaxAge = 0, af_Producer = [], af_Partitioned = False,
     af_PerTenant = False, af_RecoveryInput = [], af_NoBackfill = False\<rparr>"

definition analysis_artifact :: artifact where
  "analysis_artifact = \<lparr>af_Name = ''Analysis Store'', af_S3Prefix = ''analysis/grades/'', af_LocalDir = ''.analysis'',
     af_Durable = True, af_MaxAge = 2 * day_duration, af_Producer = ''Grade'', af_Partitioned = True,
     af_PerTenant = True, af_RecoveryInput = ''backtest/'', af_NoBackfill = False\<rparr>"

definition team_values_artifact :: artifact where
  "team_values_artifact = \<lparr>af_Name = ''Team Value Store'', af_S3Prefix = ''analysis/team-values/'', af_LocalDir = ''.teamvalue'',
     af_Durable = True, af_MaxAge = 2 * day_duration, af_Producer = ''TeamValues'', af_Partitioned = True,
     af_PerTenant = False, af_RecoveryInput = [], af_NoBackfill = True\<rparr>"

definition football_values_artifact :: artifact where
  "football_values_artifact = \<lparr>af_Name = ''Dynasty Value Store'', af_S3Prefix = ''analysis/football-values/'', af_LocalDir = ''.footballvalue'',
     af_Durable = True, af_MaxAge = 2 * day_duration, af_Producer = ''FootballValues'', af_Partitioned = True,
     af_PerTenant = False, af_RecoveryInput = [], af_NoBackfill = False\<rparr>"

definition lineup_gaps_artifact :: artifact where
  "lineup_gaps_artifact = \<lparr>af_Name = ''Lineup Gap Store'', af_S3Prefix = ''analysis/lineup-gaps/'', af_LocalDir = ''.lineupgap'',
     af_Durable = True, af_MaxAge = 2 * day_duration, af_Producer = ''Grade'', af_Partitioned = True,
     af_PerTenant = True, af_RecoveryInput = [], af_NoBackfill = False\<rparr>"

definition archive_artifact :: artifact where
  "archive_artifact = \<lparr>af_Name = ''Daily Archive'', af_S3Prefix = ''archive/'', af_LocalDir = ''.archive'',
     af_Durable = True, af_MaxAge = 2 * day_duration, af_Producer = ''Archive'', af_Partitioned = True,
     af_PerTenant = False, af_RecoveryInput = [], af_NoBackfill = True\<rparr>"

definition backtest_artifact :: artifact where
  "backtest_artifact = \<lparr>af_Name = ''Projection Snapshots'', af_S3Prefix = ''backtest/'', af_LocalDir = ''.backtest'',
     af_Durable = True, af_MaxAge = 2 * day_duration, af_Producer = ''Lineup'', af_Partitioned = False,
     af_PerTenant = True, af_RecoveryInput = [], af_NoBackfill = False\<rparr>"

definition run_ledger_artifact :: artifact where
  "run_ledger_artifact = \<lparr>af_Name = ''Run Ledger'', af_S3Prefix = ''runledger/'', af_LocalDir = ''.lineup/runs'',
     af_Durable = True, af_MaxAge = 6 * hour, af_Producer = ''Lineup'', af_Partitioned = False,
     af_PerTenant = True, af_RecoveryInput = [], af_NoBackfill = False\<rparr>"

definition run_output_artifact :: artifact where
  "run_output_artifact = \<lparr>af_Name = ''Run Output'', af_S3Prefix = ''runs/'', af_LocalDir = ''.lineup/outputs'',
     af_Durable = True, af_MaxAge = 6 * hour, af_Producer = ''Lineup'', af_Partitioned = False,
     af_PerTenant = True, af_RecoveryInput = [], af_NoBackfill = False\<rparr>"

definition notification_artifact :: artifact where
  "notification_artifact = \<lparr>af_Name = ''Notifications'', af_S3Prefix = ''notifications/'', af_LocalDir = ''.lineup/notifications'',
     af_Durable = True, af_MaxAge = 7 * day_duration, af_Producer = [], af_Partitioned = False,
     af_PerTenant = True, af_RecoveryInput = [], af_NoBackfill = False\<rparr>"

definition lineup_artifact :: artifact where
  "lineup_artifact = \<lparr>af_Name = ''Published Lineup'', af_S3Prefix = ''lineup/'', af_LocalDir = ''.lineup'',
     af_Durable = True, af_MaxAge = 6 * hour, af_Producer = ''Lineup'', af_Partitioned = False,
     af_PerTenant = True, af_RecoveryInput = [], af_NoBackfill = False\<rparr>"

definition claims_artifact :: artifact where
  "claims_artifact = \<lparr>af_Name = ''Claims Ledger'', af_S3Prefix = ''claims/'', af_LocalDir = ''.waivers'',
     af_Durable = True, af_MaxAge = 3 * day_duration, af_Producer = ''Claims'', af_Partitioned = False,
     af_PerTenant = False, af_RecoveryInput = [], af_NoBackfill = False\<rparr>"

definition trades_artifact :: artifact where
  "trades_artifact = \<lparr>af_Name = ''Pending Offers'', af_S3Prefix = ''trades/'', af_LocalDir = ''.trades'',
     af_Durable = True, af_MaxAge = 14 * hour, af_Producer = ''Lineup'', af_Partitioned = False,
     af_PerTenant = True, af_RecoveryInput = [], af_NoBackfill = False\<rparr>"

definition trade_values_artifact :: artifact where
  "trade_values_artifact = \<lparr>af_Name = ''Trade Values Table'', af_S3Prefix = ''tradevalues/'', af_LocalDir = ''.tradevalues'',
     af_Durable = True, af_MaxAge = 26 * hour, af_Producer = ''TeamValues'', af_Partitioned = False,
     af_PerTenant = False, af_RecoveryInput = [], af_NoBackfill = False\<rparr>"

definition available_pool_artifact :: artifact where
  "available_pool_artifact = \<lparr>af_Name = ''Available Player Pool'', af_S3Prefix = ''pool/'', af_LocalDir = ''.pool'',
     af_Durable = True, af_MaxAge = 26 * hour, af_Producer = ''TeamValues'', af_Partitioned = False,
     af_PerTenant = False, af_RecoveryInput = [], af_NoBackfill = False\<rparr>"

definition roster_values_artifact :: artifact where
  "roster_values_artifact = \<lparr>af_Name = ''Roster Values'', af_S3Prefix = ''roster/'', af_LocalDir = ''.roster'',
     af_Durable = True, af_MaxAge = 26 * hour, af_Producer = ''TeamValues'', af_Partitioned = False,
     af_PerTenant = False, af_RecoveryInput = [], af_NoBackfill = False\<rparr>"

definition trade_offers_artifact :: artifact where
  "trade_offers_artifact = \<lparr>af_Name = ''Trade Offer Log'', af_S3Prefix = ''analysis/trade-offers/'', af_LocalDir = ''.tradeoffers'',
     af_Durable = True, af_MaxAge = 2 * day_duration, af_Producer = ''Lineup'', af_Partitioned = True,
     af_PerTenant = True, af_RecoveryInput = [], af_NoBackfill = True\<rparr>"

definition reports_artifact :: artifact where
  "reports_artifact = \<lparr>af_Name = ''Private Dashboard Reports'', af_S3Prefix = ''reports/'', af_LocalDir = ''.reports'',
     af_Durable = True, af_MaxAge = 26 * hour, af_Producer = ''ProjectionReports'', af_Partitioned = False,
     af_PerTenant = True, af_RecoveryInput = [], af_NoBackfill = False\<rparr>"

definition session_artifact :: artifact where
  "session_artifact = \<lparr>af_Name = ''Fantrax Session'', af_S3Prefix = ''session/'', af_LocalDir = ''.fantrax-cache'',
     af_Durable = True, af_MaxAge = 7 * day_duration, af_Producer = [], af_Partitioned = False,
     af_PerTenant = True, af_RecoveryInput = [], af_NoBackfill = False\<rparr>"

definition progress_artifact :: artifact where
  "progress_artifact = \<lparr>af_Name = ''Run Progress'', af_S3Prefix = ''runs/'', af_LocalDir = ''.lineup/progress'',
     af_Durable = True, af_MaxAge = 6 * hour, af_Producer = ''Lineup'', af_Partitioned = False,
     af_PerTenant = True, af_RecoveryInput = [], af_NoBackfill = False\<rparr>"

definition tenant_roster_artifact :: artifact where
  "tenant_roster_artifact = \<lparr>af_Name = ''Tenant Roster'', af_S3Prefix = ''tenants/'', af_LocalDir = ''.lineup/tenants'',
     af_Durable = True, af_MaxAge = 26 * hour, af_Producer = ''Lineup'', af_Partitioned = False,
     af_PerTenant = False, af_RecoveryInput = [], af_NoBackfill = False\<rparr>"

definition football_trades_artifact :: artifact where
  "football_trades_artifact = \<lparr>af_Name = ''Football Trade Markers'', af_S3Prefix = ''football/trades/'', af_LocalDir = ''.football/trades'',
     af_Durable = True, af_MaxAge = 0, af_Producer = ''FootballTrades'', af_Partitioned = False,
     af_PerTenant = False, af_RecoveryInput = [], af_NoBackfill = False\<rparr>"

definition football_trade_log_artifact :: artifact where
  "football_trade_log_artifact = \<lparr>af_Name = ''Football Trade Log'', af_S3Prefix = ''football/trades/log/'', af_LocalDir = ''.football/trades/log'',
     af_Durable = True, af_MaxAge = 0, af_Producer = ''FootballTrades'', af_Partitioned = True,
     af_PerTenant = False, af_RecoveryInput = [], af_NoBackfill = False\<rparr>"

definition football_offers_artifact :: artifact where
  "football_offers_artifact = \<lparr>af_Name = ''Football Offer Markers'', af_S3Prefix = ''football/offers/'', af_LocalDir = ''.football/offers'',
     af_Durable = True, af_MaxAge = 0, af_Producer = ''FootballOffers'', af_Partitioned = False,
     af_PerTenant = False, af_RecoveryInput = [], af_NoBackfill = False\<rparr>"

definition football_pickups_artifact :: artifact where
  "football_pickups_artifact = \<lparr>af_Name = ''Football Pickup Markers'', af_S3Prefix = ''football/pickups/'', af_LocalDir = ''.football/pickups'',
     af_Durable = True, af_MaxAge = 0, af_Producer = ''FootballPickups'', af_Partitioned = False,
     af_PerTenant = False, af_RecoveryInput = [], af_NoBackfill = False\<rparr>"

definition football_pickup_snapshot_artifact :: artifact where
  "football_pickup_snapshot_artifact = \<lparr>af_Name = ''Football Pickup Snapshot'', af_S3Prefix = ''football/pickups-snapshot/'', af_LocalDir = ''.football/pickups-snapshot'',
     af_Durable = True, af_MaxAge = 2 * day_duration, af_Producer = ''FootballPickups'', af_Partitioned = False,
     af_PerTenant = False, af_RecoveryInput = [], af_NoBackfill = False\<rparr>"

definition il_starts_artifact :: artifact where
  "il_starts_artifact = \<lparr>af_Name = ''IL Start Markers'', af_S3Prefix = ''alerts/il-starts/'', af_LocalDir = ''.alerts/il-starts'',
     af_Durable = True, af_MaxAge = 0, af_Producer = ''Lineup'', af_Partitioned = False,
     af_PerTenant = True, af_RecoveryInput = [], af_NoBackfill = False\<rparr>"

definition gs_floor_alerts_artifact :: artifact where
  "gs_floor_alerts_artifact = \<lparr>af_Name = ''GS Floor Markers'', af_S3Prefix = ''alerts/gs-floor/'', af_LocalDir = ''.alerts/gs-floor'',
     af_Durable = True, af_MaxAge = 0, af_Producer = ''Lineup'', af_Partitioned = False,
     af_PerTenant = True, af_RecoveryInput = [], af_NoBackfill = False\<rparr>"

definition lineup_apply_alerts_artifact :: artifact where
  "lineup_apply_alerts_artifact = \<lparr>af_Name = ''Lineup Apply Markers'', af_S3Prefix = ''alerts/lineup-apply/'', af_LocalDir = ''.alerts/lineup-apply'',
     af_Durable = True, af_MaxAge = 0, af_Producer = ''Lineup'', af_Partitioned = False,
     af_PerTenant = True, af_RecoveryInput = [], af_NoBackfill = False\<rparr>"

definition stale_cache_alerts_artifact :: artifact where
  "stale_cache_alerts_artifact = \<lparr>af_Name = ''Stale Cache Markers'', af_S3Prefix = ''alerts/stale-cache/'', af_LocalDir = ''.alerts/stale-cache'',
     af_Durable = True, af_MaxAge = 0, af_Producer = [], af_Partitioned = False,
     af_PerTenant = False, af_RecoveryInput = [], af_NoBackfill = False\<rparr>"

definition ops_alert_markers_artifact :: artifact where
  "ops_alert_markers_artifact = \<lparr>af_Name = ''Ops-Alert Markers'', af_S3Prefix = ''opsalert/'', af_LocalDir = [],
     af_Durable = True, af_MaxAge = 0, af_Producer = ''opsnotify'', af_Partitioned = False,
     af_PerTenant = False, af_RecoveryInput = [], af_NoBackfill = False\<rparr>"

definition all_artifacts :: "artifact list" where
  "all_artifacts = [team_values_artifact, trade_offers_artifact, analysis_artifact, lineup_gaps_artifact,
     football_values_artifact, football_pickup_snapshot_artifact, archive_artifact, backtest_artifact,
     lineup_artifact, trades_artifact, trade_values_artifact, available_pool_artifact,
     roster_values_artifact, reports_artifact, run_ledger_artifact, run_output_artifact,
     notification_artifact, claims_artifact, session_artifact, cache_artifact,
     tenant_roster_artifact]"

text \<open>Every artifact of the table, with those the status page does not list.\<close>

definition declared_artifacts :: "artifact list" where
  "declared_artifacts = [cache_artifact, analysis_artifact, team_values_artifact, football_values_artifact,
     lineup_gaps_artifact, archive_artifact, backtest_artifact, run_ledger_artifact,
     run_output_artifact, notification_artifact, lineup_artifact, claims_artifact,
     trades_artifact, trade_values_artifact, available_pool_artifact, roster_values_artifact,
     trade_offers_artifact, reports_artifact, session_artifact, progress_artifact,
     tenant_roster_artifact, football_trades_artifact, football_trade_log_artifact, football_offers_artifact,
     football_pickups_artifact, football_pickup_snapshot_artifact, il_starts_artifact, gs_floor_alerts_artifact,
     lineup_apply_alerts_artifact, stale_cache_alerts_artifact, ops_alert_markers_artifact]"

section \<open>Prefixes and directories\<close>

definition user_segment :: string where
  "user_segment = ''user=''"

definition prefix_for :: "artifact \<Rightarrow> string \<Rightarrow> string" where
  "prefix_for a tenant =
     (if \<not> af_PerTenant a \<or> tenant = [] then af_S3Prefix a
      else af_S3Prefix a @ user_segment @ tenant @ ''/'')"

definition local_dir_for :: "artifact \<Rightarrow> string \<Rightarrow> string" where
  "local_dir_for a tenant =
     (if \<not> af_PerTenant a \<or> tenant = [] \<or> af_LocalDir a = [] then af_LocalDir a
      else af_LocalDir a @ ''/'' @ user_segment @ tenant)"

section \<open>Choosing a store\<close>

record selector =
  se_bucket :: string
  se_tenant :: string

datatype store_place = In_bucket string string | In_dir string

text \<open>\<open>read_dir\<close> lists a directory: the names, each with whether it is a directory; \<open>None\<close> when it
  cannot be read.\<close>

definition stranded_tenants :: "(string \<Rightarrow> (string \<times> bool) list option) \<Rightarrow> artifact \<Rightarrow> string \<Rightarrow> string \<Rightarrow> string list" where
  "stranded_tenants read_dir a tenant dir =
     (if \<not> af_PerTenant a \<or> tenant \<noteq> [] \<or> dir = [] then []
      else (case read_dir dir of
              None \<Rightarrow> []
            | Some ents \<Rightarrow> sort_slice (<)
                (map (\<lambda>e. drop (length user_segment) (fst e))
                  (filter (\<lambda>e. snd e \<and> has_prefix (fst e) user_segment) ents))))"

datatype pick_error = Stranded string "string list"

definition pick :: "(string \<Rightarrow> (string \<times> bool) list option) \<Rightarrow> selector \<Rightarrow> artifact \<Rightarrow> pick_error + store_place" where
  "pick read_dir s a =
     (if se_bucket s \<noteq> [] then Inr (In_bucket (se_bucket s) (prefix_for a (se_tenant s)))
      else
        (let dir = local_dir_for a (se_tenant s);
             segs = stranded_tenants read_dir a (se_tenant s) dir
         in if length segs > 0 then Inl (Stranded dir segs) else Inr (In_dir dir)))"

section \<open>Lemmas\<close>

text \<open>
  The facts about the table that keep tenants apart: every prefix ends in a slash, and no prefix
  continues another one with the tenant segment.
\<close>

lemma table_slash: "list_all (\<lambda>a. has_suffix (af_S3Prefix a) ''/'') declared_artifacts"
  by code_simp

lemma table_nested:
  "list_all (\<lambda>a. list_all (\<lambda>b. \<not> has_prefix (af_S3Prefix b) (af_S3Prefix a @ user_segment)) declared_artifacts) declared_artifacts"
  by code_simp

lemma segment_eq:
  assumes "t @ c # x = t' @ c # y" and "c \<notin> set t" and "c \<notin> set t'"
  shows "t = t'"
  using assms
proof (induction t arbitrary: t')
  case Nil
  then show ?case by (cases t') auto
next
  case (Cons d t)
  then show ?case by (cases t') auto
qed

text \<open>A prefix that ends in a slash and is followed by the tag is determined by the key, unless it
  contains the tag.\<close>

lemma tagged_prefix:
  assumes "p @ tag @ x = (p @ r) @ tag @ y" and "CHR ''/'' \<notin> set tag" and "r \<noteq> [] \<Longrightarrow> last r = CHR ''/''"
    and "\<not> has_prefix (p @ r) (p @ tag)"
  shows "r = []"
proof (rule ccontr)
  assume r: "r \<noteq> []"
  have "tag @ x = r @ tag @ y" using assms(1) by simp
  then consider u where "tag = r @ u" | u where "r = tag @ u" by (auto simp: append_eq_append_conv2)
  then show False
  proof cases
    case 1
    then have "last r \<in> set tag" using r by simp
    with assms(2,3) r show False by simp
  next
    case 2
    with assms(4) show False by (simp add: has_prefix_iff)
  qed
qed

lemma prefix_suffix_last: "has_suffix s ''/'' \<Longrightarrow> s = p @ r \<Longrightarrow> r \<noteq> [] \<Longrightarrow> last r = CHR ''/''"
proof -
  assume "has_suffix s ''/''" "s = p @ r" "r \<noteq> []"
  then obtain u where "rev s = CHR ''/'' # u" by (auto simp: has_suffix_def has_prefix_iff)
  then have "last s = CHR ''/''" by (metis last_snoc rev.simps(2) rev_rev_ident)
  with \<open>s = p @ r\<close> \<open>r \<noteq> []\<close> show "last r = CHR ''/''" by simp
qed

lemma same_prefix:
  assumes a: "a \<in> set declared_artifacts" and b: "b \<in> set declared_artifacts"
    and k: "af_S3Prefix a @ user_segment @ x = af_S3Prefix b @ user_segment @ y"
  shows "af_S3Prefix a = af_S3Prefix b"
proof -
  have slash: "has_suffix (af_S3Prefix c) ''/''" if "c \<in> set declared_artifacts" for c
    using table_slash that by (simp only: list_all_iff)
  have nest: "\<not> has_prefix (af_S3Prefix d) (af_S3Prefix c @ user_segment)"
    if "c \<in> set declared_artifacts" "d \<in> set declared_artifacts" for c d
    using table_nested [unfolded list_all_iff] that by blast
  have tag: "CHR ''/'' \<notin> set user_segment" by (simp add: user_segment_def)
  consider r where "af_S3Prefix b = af_S3Prefix a @ r" | r where "af_S3Prefix a = af_S3Prefix b @ r"
    using k unfolding append_eq_append_conv2 [of "af_S3Prefix a"] by metis
  then show ?thesis
  proof cases
    case 1
    with tagged_prefix [OF k [unfolded 1] tag prefix_suffix_last [OF slash [OF b] 1]] nest [OF a b]
    show ?thesis by simp
  next
    case 2
    with tagged_prefix [OF k [symmetric, unfolded 2] tag prefix_suffix_last [OF slash [OF a] 2]] nest [OF b a]
    show ?thesis by simp
  qed
qed

lemma stranded_set:
  "set (stranded_tenants read_dir a [] d) =
     (if af_PerTenant a \<and> d \<noteq> []
      then {t. (user_segment @ t, True) \<in> set (case read_dir d of None \<Rightarrow> [] | Some es \<Rightarrow> es)} else {})"
proof -
  have seg: "has_prefix x user_segment \<Longrightarrow> user_segment @ drop (length user_segment) x = x" for x
    unfolding has_prefix_iff by auto
  have "t \<in> (\<lambda>e. drop (length user_segment) (fst e)) ` {e \<in> set es. snd e \<and> has_prefix (fst e) user_segment} \<longleftrightarrow>
      (user_segment @ t, True) \<in> set es" for t es
  proof
    assume "(user_segment @ t, True) \<in> set es"
    then show "t \<in> (\<lambda>e. drop (length user_segment) (fst e)) ` {e \<in> set es. snd e \<and> has_prefix (fst e) user_segment}"
      by (intro image_eqI [of _ _ "(user_segment @ t, True)"]) simp_all
  qed (auto simp: seg)
  then show ?thesis by (auto simp: stranded_tenants_def simp del: drop_append split: option.splits)
qed

lemma stranded_Nil:
  "stranded_tenants read_dir a [] d = [] \<longleftrightarrow> \<not> (af_PerTenant a \<and> d \<noteq> [] \<and>
     list_ex (\<lambda>e. snd e \<and> has_prefix (fst e) user_segment) (case read_dir d of None \<Rightarrow> [] | Some es \<Rightarrow> es))"
  by (auto simp: stranded_tenants_def list_ex_iff filter_empty_conv split: option.splits)

lemma stranded_with_tenant: "t \<noteq> [] \<Longrightarrow> stranded_tenants read_dir a t d = []"
  by (simp add: stranded_tenants_def)

lemma pick_place:
  "pick read_dir s a =
     (if se_bucket s = [] \<and> se_tenant s = [] \<and> af_PerTenant a \<and> af_LocalDir a \<noteq> [] \<and>
         list_ex (\<lambda>e. snd e \<and> has_prefix (fst e) user_segment) (case read_dir (af_LocalDir a) of None \<Rightarrow> [] | Some es \<Rightarrow> es)
      then Inl (Stranded (af_LocalDir a) (stranded_tenants read_dir a [] (af_LocalDir a)))
      else Inr (if se_bucket s \<noteq> [] then In_bucket (se_bucket s) (prefix_for a (se_tenant s))
                else In_dir (local_dir_for a (se_tenant s))))"
proof (cases "se_tenant s = []")
  case True
  define L where "L = stranded_tenants read_dir a [] (af_LocalDir a)"
  define E where "E = list_ex (\<lambda>e. snd e \<and> has_prefix (fst e) user_segment)
      (case read_dir (af_LocalDir a) of None \<Rightarrow> [] | Some es \<Rightarrow> es)"
  have L: "L = [] \<longleftrightarrow> \<not> (af_PerTenant a \<and> af_LocalDir a \<noteq> [] \<and> E)" unfolding L_def E_def by (rule stranded_Nil)
  have dir: "local_dir_for a [] = af_LocalDir a" by (simp add: local_dir_for_def)
  show ?thesis unfolding pick_def Let_def True dir L_def [symmetric] E_def [symmetric] using L by auto
next
  case False
  then show ?thesis by (simp add: pick_def Let_def stranded_with_tenant)
qed

lemma tenant_prefix:
  "af_PerTenant a \<Longrightarrow> t \<noteq> [] \<Longrightarrow> prefix_for a t @ x = af_S3Prefix a @ user_segment @ (t @ CHR ''/'' # x)"
  by (simp add: prefix_for_def)

lemma tenants_apart:
  assumes "a \<in> set declared_artifacts" and "b \<in> set declared_artifacts" and "af_PerTenant a" and "af_PerTenant b"
    and "t \<noteq> []" and "t' \<noteq> []" and "CHR ''/'' \<notin> set t" and "CHR ''/'' \<notin> set t'" and "t \<noteq> t'"
  shows "\<not> (has_prefix k (prefix_for a t) \<and> has_prefix k (prefix_for b t'))"
proof
  assume "has_prefix k (prefix_for a t) \<and> has_prefix k (prefix_for b t')"
  then obtain x y where "k = prefix_for a t @ x" "k = prefix_for b t' @ y" unfolding has_prefix_iff by blast
  then have "prefix_for a t @ x = prefix_for b t' @ y" by (rule trans [OF sym])
  then have k: "af_S3Prefix a @ user_segment @ (t @ CHR ''/'' # x) = af_S3Prefix b @ user_segment @ (t' @ CHR ''/'' # y)"
    by (simp only: tenant_prefix [OF assms(3,5)] tenant_prefix [OF assms(4,6)])
  with same_prefix [OF assms(1,2) k] have "t @ CHR ''/'' # x = t' @ CHR ''/'' # y"
    by (simp only: same_append_eq)
  from segment_eq [OF this assms(7,8)] assms(9) show False by simp
qed

section \<open>Properties\<close>

text \<open>Two tenants never share a key. For any two artifacts of the table that belong to a tenant,
  and any two different tenants whose ids are not empty and hold no slash, no key lies under
  both their prefixes.\<close>

theorem tenants_never_share_keys:
  assumes "a \<in> set declared_artifacts" and "b \<in> set declared_artifacts" and "af_PerTenant a" and "af_PerTenant b"
    and "t \<noteq> []" and "t' \<noteq> []" and "CHR ''/'' \<notin> set t" and "CHR ''/'' \<notin> set t'" and "t \<noteq> t'"
  shows "\<not> (has_prefix k (prefix_for a t) \<and> has_prefix k (prefix_for b t'))"
  using assms by (rule tenants_apart)

theorem tenants_never_share_keys_witness:
  "\<forall>k. \<not> (has_prefix k (prefix_for session_artifact ''ann'') \<and> has_prefix k (prefix_for session_artifact ''bob''))"
proof
  fix k
  have "session_artifact \<in> set declared_artifacts" by (simp add: declared_artifacts_def)
  moreover have "af_PerTenant session_artifact" by (simp add: session_artifact_def)
  ultimately show "\<not> (has_prefix k (prefix_for session_artifact ''ann'') \<and> has_prefix k (prefix_for session_artifact ''bob''))"
    by (intro tenants_never_share_keys) simp_all
qed

text \<open>A read without a tenant never takes the frozen copy. Without a bucket and without a tenant, an
  artifact that belongs to tenants is refused exactly when its directory holds a tenant's
  segment, and the refusal names every such tenant; with a tenant, or with a bucket, or for a
  shared artifact, the choice never fails, and it is the tenant's own place.\<close>

theorem stranded_read_refused:
  "pick read_dir s a =
     (if se_bucket s = [] \<and> se_tenant s = [] \<and> af_PerTenant a \<and> af_LocalDir a \<noteq> [] \<and>
         list_ex (\<lambda>e. snd e \<and> has_prefix (fst e) user_segment) (case read_dir (af_LocalDir a) of None \<Rightarrow> [] | Some es \<Rightarrow> es)
      then Inl (Stranded (af_LocalDir a) (stranded_tenants read_dir a [] (af_LocalDir a)))
      else Inr (if se_bucket s \<noteq> [] then In_bucket (se_bucket s) (prefix_for a (se_tenant s))
                else In_dir (local_dir_for a (se_tenant s)))) \<and>
   set (stranded_tenants read_dir a [] (af_LocalDir a)) =
     (if af_PerTenant a \<and> af_LocalDir a \<noteq> []
      then {t. (user_segment @ t, True) \<in> set (case read_dir (af_LocalDir a) of None \<Rightarrow> [] | Some es \<Rightarrow> es)} else {})"
  unfolding pick_place by (intro conjI stranded_set refl)

end
