(* ===== verification/State_Sync.thy ===== *)
theory State_Sync
  imports State_Layout "HOL-Library.AList"
begin

text \<open>Copying a run's directories from and to the state bucket: \<open>internal/statesync/statesync.go\<close>
  (\<open>Down\<close>, \<open>Up\<close> with its mirror mode) and the two commands of \<open>src/cmd/sync.go\<close>.

  A bucket is the list of its objects in the order of its listing; the pages of a listing are
  concatenated. A local directory tree is the list of its files in the order of the walk, each
  with its path as a list of components; the file system as a whole is a partial function from
  absolute paths. \<open>filepath.Clean\<close>, \<open>Join\<close> and \<open>Abs\<close> of a Unix system are modelled on the
  components of a path. Which requests fail is given by predicates; directories are not files
  here, so that \<open>MkdirAll\<close> leaves no trace.
\<close>

type_synonym bucket = "(string \<times> string) list"
type_synonym path = "string list"
type_synonym file_system = "path \<rightharpoonup> string"

section \<open>Paths\<close>

fun split_slash :: "string \<Rightarrow> string list" where
  "split_slash [] = [[]]"
| "split_slash (c # s) =
     (if c = CHR ''/'' then [] # split_slash s
      else (case split_slash s of [] \<Rightarrow> [[c]] | w # ws \<Rightarrow> (c # w) # ws))"

text \<open>One component of \<open>filepath.Clean\<close>, on the components so far, the last one first.\<close>

definition clean_step :: "bool \<Rightarrow> string \<Rightarrow> path \<Rightarrow> path" where
  "clean_step rooted c done =
     (if c = [] \<or> c = ''.'' then done
      else if c = ''..'' then
        (case done of
           [] \<Rightarrow> if rooted then [] else [''..'']
         | d # ds \<Rightarrow> if d = ''..'' then ''..'' # done else ds)
      else c # done)"

definition clean_comps :: "bool \<Rightarrow> path \<Rightarrow> path" where
  "clean_comps rooted cs = rev (fold (clean_step rooted) cs [])"

definition is_rooted :: "string \<Rightarrow> bool" where
  "is_rooted p = has_prefix p ''/''"

text \<open>\<open>filepath.Abs\<close> of \<open>Join dir rel\<close> and of \<open>dir\<close>, in the working directory \<open>cwd\<close>.\<close>

definition abs_comps :: "path \<Rightarrow> bool \<Rightarrow> path \<Rightarrow> path" where
  "abs_comps cwd rooted cs =
     (if rooted then clean_comps True cs else clean_comps True (cwd @ clean_comps False cs))"

definition abs_dir :: "path \<Rightarrow> string \<Rightarrow> path" where
  "abs_dir cwd dir = abs_comps cwd (is_rooted dir) (split_slash dir)"

definition abs_join :: "path \<Rightarrow> string \<Rightarrow> string \<Rightarrow> path" where
  "abs_join cwd dir rel = abs_comps cwd (is_rooted dir) (split_slash dir @ split_slash rel)"

definition render :: "path \<Rightarrow> string" where
  "render cs = (if cs = [] then ''/'' else concat (map (\<lambda>c. CHR ''/'' # c) cs))"

fun join_slash :: "path \<Rightarrow> string" where
  "join_slash [] = []"
| "join_slash [c] = c"
| "join_slash (c # cs) = c @ CHR ''/'' # join_slash cs"

section \<open>The bucket\<close>

record s3_faults =
  sf_List :: bool
  sf_Get :: "string \<Rightarrow> bool"
  sf_Copy :: "string \<Rightarrow> nat option"
  sf_Put :: "string \<Rightarrow> bool"
  sf_Delete :: "string \<Rightarrow> bool"

datatype sync_error =
    List_failed | Escapes string | Download_failed string | Upload_failed string
  | Refused_empty | Delete_failed string

definition list_keys :: "s3_faults \<Rightarrow> bucket \<Rightarrow> string \<Rightarrow> sync_error + string list" where
  "list_keys flt b prefix =
     (if sf_List flt then Inl List_failed else Inr (filter (\<lambda>k. has_prefix k prefix) (map fst b)))"

definition trim_prefix :: "string \<Rightarrow> string \<Rightarrow> string" where
  "trim_prefix s p = (if has_prefix s p then drop (length p) s else s)"

section \<open>Down\<close>

definition inside :: "path \<Rightarrow> path \<Rightarrow> bool" where
  "inside base dst \<longleftrightarrow> \<not> (dst \<noteq> base \<and> \<not> has_prefix (render dst) (render base @ ''/''))"

fun down_keys ::
  "s3_faults \<Rightarrow> path \<Rightarrow> bucket \<Rightarrow> string \<Rightarrow> string \<Rightarrow> string list \<Rightarrow> file_system \<Rightarrow> sync_error option \<times> file_system" where
  "down_keys flt cwd b prefix dir [] fs = (None, fs)"
| "down_keys flt cwd b prefix dir (key # keys) fs =
     (let rel = trim_prefix key prefix in
      if rel = [] \<or> has_suffix rel ''/'' then down_keys flt cwd b prefix dir keys fs
      else
        (let dst = abs_join cwd dir rel; base = abs_dir cwd dir in
         if \<not> inside base dst then (Some (Escapes key), fs)
         else if sf_Get flt key \<or> dst = base then (Some (Download_failed key), fs)
         else (case map_of b key of
                 None \<Rightarrow> (Some (Download_failed key), fs)
               | Some body \<Rightarrow>
                  (case sf_Copy flt key of
                     Some n \<Rightarrow> (Some (Download_failed key), fs(dst \<mapsto> take n body))
                   | None \<Rightarrow> down_keys flt cwd b prefix dir keys (fs(dst \<mapsto> body))))))"

text \<open>
  Writing to the base itself fails: it is a directory. \<open>sf_Get\<close> covers what fails before the file is
  written, \<open>sf_Copy\<close> a copy that breaks off after some bytes and leaves a truncated file.
\<close>

definition sync_down ::
  "s3_faults \<Rightarrow> path \<Rightarrow> bucket \<Rightarrow> string \<Rightarrow> string \<Rightarrow> file_system \<Rightarrow> sync_error option \<times> file_system" where
  "sync_down flt cwd b prefix dir fs =
     (case list_keys flt b prefix of
        Inl e \<Rightarrow> (Some e, fs)
      | Inr keys \<Rightarrow> down_keys flt cwd b prefix dir keys fs)"

section \<open>Up\<close>

type_synonym tree = "(path \<times> string) list"

fun up_files :: "s3_faults \<Rightarrow> string \<Rightarrow> tree \<Rightarrow> bucket \<Rightarrow> string list \<Rightarrow> (sync_error + string list) \<times> bucket" where
  "up_files flt prefix [] b uploaded = (Inr uploaded, b)"
| "up_files flt prefix ((rel, body) # files) b uploaded =
     (let key = prefix @ join_slash rel in
      if sf_Put flt key then (Inl (Upload_failed key), b)
      else up_files flt prefix files (AList.update key body b) (key # uploaded))"

fun delete_keys :: "s3_faults \<Rightarrow> string list \<Rightarrow> string list \<Rightarrow> bucket \<Rightarrow> sync_error option \<times> bucket" where
  "delete_keys flt keep [] b = (None, b)"
| "delete_keys flt keep (key # keys) b =
     (if key \<in> set keep then delete_keys flt keep keys b
      else if sf_Delete flt key then (Some (Delete_failed key), b)
      else delete_keys flt keep keys (AList.delete key b))"

text \<open>\<open>None\<close> is a directory that does not exist; \<open>del\<close> is \<open>UpOptions.Delete\<close>.\<close>

definition sync_up :: "s3_faults \<Rightarrow> string \<Rightarrow> tree option \<Rightarrow> bool \<Rightarrow> bucket \<Rightarrow> sync_error option \<times> bucket" where
  "sync_up flt prefix local del b =
     (case local of
        None \<Rightarrow> (None, b)
      | Some files \<Rightarrow>
         (case up_files flt prefix files b [] of
            (Inl e, b') \<Rightarrow> (Some e, b')
          | (Inr uploaded, b') \<Rightarrow>
             if \<not> del then (None, b')
             else if length uploaded = 0 then (Some Refused_empty, b')
             else (case list_keys flt b' prefix of
                     Inl e \<Rightarrow> (Some e, b')
                   | Inr remote \<Rightarrow> delete_keys flt uploaded remote b')))"

section \<open>The commands\<close>

definition state_pairs_for :: "string \<Rightarrow> (string \<times> string) list" where
  "state_pairs_for tenant =
     [(''.fantrax-cache/'', prefix_for session_artifact tenant), (''.waivers/'', prefix_for claims_artifact tenant)]"

text \<open>A failing pair is a warning; the next pair is still synced. Without a bucket nothing is.\<close>

definition run_sync_down :: "s3_faults \<Rightarrow> path \<Rightarrow> string \<Rightarrow> bucket option \<Rightarrow> file_system \<Rightarrow> file_system" where
  "run_sync_down flt cwd tenant bkt fs =
     (case bkt of None \<Rightarrow> fs
      | Some b \<Rightarrow> fold (\<lambda>(dir, prefix) fs. snd (sync_down flt cwd b prefix dir fs)) (state_pairs_for tenant) fs)"

definition sync_up_pairs :: "s3_faults \<Rightarrow> (string \<Rightarrow> tree option) \<Rightarrow> string \<Rightarrow> bucket \<Rightarrow> bucket" where
  "sync_up_pairs flt local tenant b =
     fold (\<lambda>(dir, prefix) b. snd (sync_up flt prefix (local dir) False b)) (state_pairs_for tenant) b"

text \<open>\<open>publishSite\<close>: the bucket afterwards and whether the distribution is invalidated.\<close>

definition publish_site ::
  "s3_faults \<Rightarrow> tree option \<Rightarrow> bucket option \<Rightarrow> string \<Rightarrow> string \<Rightarrow> bucket option \<times> bool" where
  "publish_site flt local bkt distID prefix =
     (case bkt of
        None \<Rightarrow> (None, False)
      | Some b \<Rightarrow>
         if local = None then (Some b, False)
         else (case sync_up flt prefix local True b of
                 (Some e, b') \<Rightarrow> (Some b', False)
               | (None, b') \<Rightarrow> (Some b', distID \<noteq> [])))"

text \<open>\<open>runSyncUp\<close>: the state bucket, then the two sites.\<close>

definition run_sync_up ::
  "s3_faults \<Rightarrow> (string \<Rightarrow> tree option) \<Rightarrow> string \<Rightarrow> bucket option \<Rightarrow>
   bucket option \<times> string \<Rightarrow> bucket option \<times> string \<Rightarrow>
   bucket option \<times> (bucket option \<times> bool) \<times> (bucket option \<times> bool)" where
  "run_sync_up flt local tenant bkt site dashboard =
     (map_option (sync_up_pairs flt local tenant) bkt,
      publish_site flt (local ''./dist'') (fst site) (snd site) [],
      publish_site flt (local ''./report'') (fst dashboard) (snd dashboard) ''report/'')"

section \<open>Lemmas on paths\<close>

definition good_comp :: "string \<Rightarrow> bool" where
  "good_comp c \<longleftrightarrow> c \<noteq> [] \<and> c \<noteq> ''.'' \<and> c \<noteq> ''..'' \<and> CHR ''/'' \<notin> set c"

definition slash_free :: "string \<Rightarrow> bool" where
  "slash_free c \<longleftrightarrow> c \<noteq> [] \<and> CHR ''/'' \<notin> set c"

lemma split_slash_nonempty [simp]: "split_slash s \<noteq> []"
  by (cases s) (auto split: list.splits)

lemma split_slash_free: "w \<in> set (split_slash s) \<Longrightarrow> CHR ''/'' \<notin> set w"
proof (induction s arbitrary: w)
  case (Cons c s)
  obtain v vs where "split_slash s = v # vs" by (cases "split_slash s") simp_all
  with Cons show ?case by (auto split: if_splits)
qed simp

lemma split_slash_append: "CHR ''/'' \<notin> set w \<Longrightarrow> split_slash (w @ CHR ''/'' # s) = w # split_slash s"
  by (induction w) auto

lemma split_slash_word: "CHR ''/'' \<notin> set w \<Longrightarrow> split_slash w = [w]"
  by (induction w) auto

lemma split_join: "cs \<noteq> [] \<Longrightarrow> list_all good_comp cs \<Longrightarrow> split_slash (join_slash cs) = cs"
  by (induction cs rule: join_slash.induct) (auto simp: split_slash_append split_slash_word good_comp_def)

lemma join_slash_inj:
  "cs \<noteq> [] \<Longrightarrow> ds \<noteq> [] \<Longrightarrow> list_all good_comp cs \<Longrightarrow> list_all good_comp ds \<Longrightarrow>
   join_slash cs = join_slash ds \<Longrightarrow> cs = ds"
  by (metis split_join)

lemma join_slash_end: "cs \<noteq> [] \<Longrightarrow> list_all good_comp cs \<Longrightarrow> join_slash cs \<noteq> [] \<and> last (join_slash cs) \<noteq> CHR ''/''"
proof (induction cs rule: join_slash.induct)
  case (2 c)
  then have "c \<noteq> []" "CHR ''/'' \<notin> set c" by (simp_all add: good_comp_def)
  then have "last c \<noteq> CHR ''/''" by (metis last_in_set)
  with \<open>c \<noteq> []\<close> show ?case by simp
qed auto

lemma has_suffix_slash: "has_suffix s ''/'' \<Longrightarrow> last s = CHR ''/''"
proof -
  assume "has_suffix s ''/''"
  then obtain u where "rev s = CHR ''/'' # u" by (auto simp: has_suffix_def has_prefix_iff)
  then show "last s = CHR ''/''" by (metis last_snoc rev.simps(2) rev_rev_ident)
qed

lemma clean_step_good: "good_comp c \<Longrightarrow> clean_step r c ds = c # ds"
  by (simp add: clean_step_def good_comp_def)

lemma clean_fold_good: "list_all good_comp cs \<Longrightarrow> fold (clean_step r) cs ds = rev cs @ ds"
  by (induction cs arbitrary: ds) (auto simp: clean_step_good)

lemma clean_comps_append: "list_all good_comp cs \<Longrightarrow> clean_comps r (ds @ cs) = clean_comps r ds @ cs"
  by (simp add: clean_comps_def clean_fold_good)

lemma abs_join_good:
  "cs \<noteq> [] \<Longrightarrow> list_all good_comp cs \<Longrightarrow> abs_join cwd dir (join_slash cs) = abs_dir cwd dir @ cs"
  by (simp add: abs_join_def abs_dir_def abs_comps_def split_join clean_comps_append flip: append_assoc)

lemma clean_fold_rooted:
  "list_all (\<lambda>c. CHR ''/'' \<notin> set c) cs \<Longrightarrow> list_all good_comp ds \<Longrightarrow> list_all good_comp (fold (clean_step True) cs ds)"
proof (induction cs arbitrary: ds)
  case (Cons c cs)
  have "list_all good_comp (clean_step True c ds)"
    using Cons.prems by (auto simp: clean_step_def good_comp_def list_all_iff split: list.splits)
  with Cons show ?case by simp
qed simp

lemma clean_fold_free:
  "list_all (\<lambda>c. CHR ''/'' \<notin> set c) cs \<Longrightarrow> list_all (\<lambda>c. CHR ''/'' \<notin> set c) ds \<Longrightarrow>
   list_all (\<lambda>c. CHR ''/'' \<notin> set c) (fold (clean_step r) cs ds)"
proof (induction cs arbitrary: ds)
  case (Cons c cs)
  have "list_all (\<lambda>c. CHR ''/'' \<notin> set c) (clean_step r c ds)"
    using Cons.prems by (auto simp: clean_step_def split: list.splits)
  with Cons show ?case by simp
qed simp

lemma abs_comps_good:
  assumes "list_all (\<lambda>c. CHR ''/'' \<notin> set c) cwd" and "list_all (\<lambda>c. CHR ''/'' \<notin> set c) cs"
  shows "list_all good_comp (abs_comps cwd rooted cs)"
proof -
  have "list_all good_comp (clean_comps True ds)" if "list_all (\<lambda>c. CHR ''/'' \<notin> set c) ds" for ds
    using clean_fold_rooted [OF that, of "[]"] by (simp add: clean_comps_def list_all_iff)
  moreover have "list_all (\<lambda>c. CHR ''/'' \<notin> set c) (clean_comps False cs)"
    using clean_fold_free [OF assms(2), of "[]" False] by (simp add: clean_comps_def list_all_iff)
  ultimately show ?thesis using assms by (simp add: abs_comps_def)
qed

lemma render_below:
  assumes "list_all slash_free cs" and "list_all slash_free ds"
    and "concat (map (\<lambda>c. CHR ''/'' # c) cs) = concat (map (\<lambda>c. CHR ''/'' # c) ds) @ CHR ''/'' # x"
  shows "\<exists>es. cs = ds @ es \<and> es \<noteq> []"
  using assms
proof (induction ds arbitrary: cs)
  case Nil
  then show ?case by (cases cs) auto
next
  case (Cons d ds)
  obtain c cs' where cs: "cs = c # cs'" using Cons.prems(3) by (cases cs) auto
  let ?tail = "\<lambda>xs. concat (map (\<lambda>c. CHR ''/'' # c) xs)"
  have eq: "c @ ?tail cs' = d @ ?tail ds @ CHR ''/'' # x" using Cons.prems(3) by (simp add: cs)
  have free: "CHR ''/'' \<notin> set c" "CHR ''/'' \<notin> set d" using Cons.prems(1,2) by (simp_all add: cs slash_free_def)
  obtain y where y: "?tail ds @ CHR ''/'' # x = CHR ''/'' # y" by (cases ds) auto
  have "cs' \<noteq> []"
  proof
    assume "cs' = []"
    with eq have "c = d @ ?tail ds @ CHR ''/'' # x" by simp
    with free(1) show False by simp
  qed
  then obtain z where z: "?tail cs' = CHR ''/'' # z" by (cases cs') auto
  have "c = d" using segment_eq [of c "CHR ''/''" z d y] eq free unfolding y z by simp
  with eq have "?tail cs' = ?tail ds @ CHR ''/'' # x" by simp
  with Cons.IH [of cs'] Cons.prems(1,2) \<open>c = d\<close> show ?case by (auto simp: cs)
qed

lemma good_slash_free: "list_all good_comp cs \<Longrightarrow> list_all slash_free cs"
  by (auto simp: list_all_iff good_comp_def slash_free_def)

lemma inside_below:
  assumes "list_all good_comp dst" and "list_all good_comp base" and "inside base dst" and "dst \<noteq> base"
  shows "\<exists>es. dst = base @ es \<and> es \<noteq> [] \<and> base \<noteq> []"
proof -
  have p: "has_prefix (render dst) (render base @ ''/'')" using assms(3,4) by (simp add: inside_def)
  then obtain x where x: "render dst = render base @ CHR ''/'' # x" by (auto simp: has_prefix_iff)
  have "base \<noteq> []"
  proof
    assume "base = []"
    with x have "dst \<noteq> []" "concat (map (\<lambda>c. CHR ''/'' # c) dst) = CHR ''/'' # CHR ''/'' # x"
      by (auto simp: render_def split: if_splits)
    then obtain c ds where "dst = c # ds" "c @ concat (map (\<lambda>c. CHR ''/'' # c) ds) = CHR ''/'' # x"
      by (cases dst) auto
    with assms(1) show False by (cases c) (auto simp: good_comp_def)
  qed
  moreover have "dst \<noteq> []" using x \<open>base \<noteq> []\<close> by (cases base) (auto simp: render_def)
  ultimately show ?thesis
    using render_below [OF good_slash_free [OF assms(1)] good_slash_free [OF assms(2)]] x
    by (simp add: render_def)
qed

section \<open>Lemmas on the bucket\<close>

lemma down_keys_inside:
  assumes "list_all (\<lambda>c. CHR ''/'' \<notin> set c) cwd"
  shows "snd (down_keys flt cwd b prefix dir keys fs) p \<noteq> fs p \<Longrightarrow>
    \<exists>es. p = abs_dir cwd dir @ es \<and> es \<noteq> [] \<and> abs_dir cwd dir \<noteq> []"
proof (induction keys arbitrary: fs)
  case (Cons key keys)
  let ?rel = "trim_prefix key prefix" and ?base = "abs_dir cwd dir"
  let ?dst = "abs_join cwd dir ?rel"
  have free: "list_all (\<lambda>c. CHR ''/'' \<notin> set c) (split_slash x)" for x
    by (simp add: list_all_iff split_slash_free)
  have good: "list_all good_comp ?dst" "list_all good_comp ?base"
    unfolding abs_join_def abs_dir_def using free by (intro abs_comps_good assms; simp)+
  show ?case
  proof (cases "?rel = [] \<or> has_suffix ?rel ''/''")
    case True
    with Cons show ?thesis by simp
  next
    case False
    with Cons.prems have c: "inside ?base ?dst" "?dst \<noteq> ?base"
      "snd (case map_of b key of None \<Rightarrow> (Some (Download_failed key), fs)
         | Some body \<Rightarrow> (case sf_Copy flt key of
             Some n \<Rightarrow> (Some (Download_failed key), fs(?dst \<mapsto> take n body))
           | None \<Rightarrow> down_keys flt cwd b prefix dir keys (fs(?dst \<mapsto> body)))) p \<noteq> fs p"
      by (auto simp: Let_def split: if_splits)
    then consider "p = ?dst"
      | body where "snd (down_keys flt cwd b prefix dir keys (fs(?dst \<mapsto> body))) p \<noteq> (fs(?dst \<mapsto> body)) p"
      by (cases "p = ?dst") (auto split: option.splits)
    then show ?thesis
    proof cases
      case 1
      with inside_below [OF good c(1,2)] show ?thesis by blast
    qed (rule Cons.IH)
  qed
qed simp

definition tree_ok :: "tree \<Rightarrow> bool" where
  "tree_ok files \<longleftrightarrow> distinct (map fst files) \<and> list_all (\<lambda>f. fst f \<noteq> [] \<and> list_all good_comp (fst f)) files"

definition tree_objects :: "string \<Rightarrow> tree \<Rightarrow> bucket" where
  "tree_objects prefix files = map (\<lambda>(rel, body). (prefix @ join_slash rel, body)) files"

lemma tree_objects_distinct: "tree_ok files \<Longrightarrow> distinct (map fst (tree_objects prefix files))"
proof -
  assume ok: "tree_ok files"
  have eq: "map fst (tree_objects prefix files) = map (\<lambda>rel. prefix @ join_slash rel) (map fst files)"
    by (simp add: tree_objects_def case_prod_beta o_def)
  have "inj_on (\<lambda>rel. prefix @ join_slash rel) (set (map fst files))"
  proof (rule inj_onI)
    fix x y
    assume "x \<in> set (map fst files)" "y \<in> set (map fst files)" "prefix @ join_slash x = prefix @ join_slash y"
    with ok show "x = y" by (intro join_slash_inj) (auto simp: tree_ok_def list_all_iff)
  qed
  with ok show ?thesis unfolding eq distinct_map [of _ "map fst files"] by (simp add: tree_ok_def)
qed

lemma tree_objects_prefix [simp]: "has_prefix (fst e) prefix" if "e \<in> set (tree_objects prefix files)"
  using that by (auto simp: tree_objects_def)

lemma update_keys_other:
  "\<not> P k \<Longrightarrow> filter (\<lambda>e. P (fst e)) (AList.update k v b) = filter (\<lambda>e. P (fst e)) b"
  by (induction b) auto

lemma delete_keys_other:
  "(\<And>k. k \<in> set keys \<Longrightarrow> \<not> P k) \<Longrightarrow>
   filter (\<lambda>e. P (fst e)) (snd (delete_keys flt keep keys b)) = filter (\<lambda>e. P (fst e)) b"
proof (induction keys arbitrary: b)
  case (Cons k keys)
  have "filter (\<lambda>e. P (fst e)) (AList.delete k b) = filter (\<lambda>e. P (fst e)) b"
    using Cons.prems [of k] by (induction b) auto
  with Cons show ?case by simp
qed simp

lemma up_files_other:
  "(\<And>k. P k \<Longrightarrow> \<not> has_prefix k prefix) \<Longrightarrow>
   filter (\<lambda>e. P (fst e)) (snd (up_files flt prefix files b up)) = filter (\<lambda>e. P (fst e)) b"
proof (induction files arbitrary: b up)
  case (Cons f files)
  obtain rel body where f: "f = (rel, body)" by (cases f)
  have "\<not> P (prefix @ join_slash rel)" using Cons.prems [of "prefix @ join_slash rel"] by auto
  with Cons show ?case by (simp add: f Let_def update_keys_other)
qed simp

text \<open>An upload changes nothing outside its prefix, whatever fails.\<close>

lemma sync_up_other:
  assumes "\<And>k. P k \<Longrightarrow> \<not> has_prefix k prefix"
  shows "filter (\<lambda>e. P (fst e)) (snd (sync_up flt prefix local del b)) = filter (\<lambda>e. P (fst e)) b"
proof (cases local)
  case (Some files)
  obtain r b' where u: "up_files flt prefix files b [] = (r, b')" by fastforce
  have b': "filter (\<lambda>e. P (fst e)) b' = filter (\<lambda>e. P (fst e)) b"
    using up_files_other [of P prefix flt files b "[]", OF assms] u by simp
  have "filter (\<lambda>e. P (fst e)) (snd (delete_keys flt up remote b')) = filter (\<lambda>e. P (fst e)) b'"
    if "list_keys flt b' prefix = Inr remote" for up remote
    using that assms by (intro delete_keys_other) (auto simp: list_keys_def split: if_splits)
  with b' show ?thesis by (auto simp: sync_up_def Some u split: sum.splits)
qed (simp add: sync_up_def)

lemma down_keys_cong:
  "(\<And>k. k \<in> set keys \<Longrightarrow> map_of b k = map_of b' k) \<Longrightarrow>
   down_keys flt cwd b prefix dir keys fs = down_keys flt cwd b' prefix dir keys fs"
  by (induction keys arbitrary: fs) (auto simp: Let_def split: option.split)

lemma filter_keys: "filter (\<lambda>k. P k) (map fst b) = map fst (filter (\<lambda>e. P (fst e)) b)"
  by (simp add: filter_map o_def)

lemma map_of_filter_key: "P k \<Longrightarrow> map_of (filter (\<lambda>e. P (fst e)) b) k = map_of b k"
  by (induction b) auto

text \<open>A download depends on nothing but the objects under its prefix.\<close>

lemma sync_down_own:
  assumes "filter (\<lambda>e. has_prefix (fst e) prefix) b = filter (\<lambda>e. has_prefix (fst e) prefix) b'"
  shows "sync_down flt cwd b prefix dir fs = sync_down flt cwd b' prefix dir fs"
proof -
  have l: "list_keys flt b prefix = list_keys flt b' prefix" unfolding list_keys_def filter_keys assms ..
  have m: "map_of b k = map_of b' k" if "has_prefix k prefix" for k
    using map_of_filter_key [of "\<lambda>k. has_prefix k prefix" k, OF that] assms by metis
  have "down_keys flt cwd b prefix dir keys fs = down_keys flt cwd b' prefix dir keys fs"
    if "list_keys flt b' prefix = Inr keys" for keys
    using that m by (intro down_keys_cong) (auto simp: list_keys_def split: if_splits)
  then show ?thesis by (auto simp: sync_down_def l split: sum.split)
qed

section \<open>An upload read back\<close>

definition all_well :: s3_faults where
  "all_well = \<lparr>sf_List = False, sf_Get = (\<lambda>_. False), sf_Copy = (\<lambda>_. None), sf_Put = (\<lambda>_. False), sf_Delete = (\<lambda>_. False)\<rparr>"

lemma all_well_simps [simp]:
  "\<not> sf_List all_well" "\<not> sf_Get all_well k" "sf_Copy all_well k = None" "\<not> sf_Put all_well k" "\<not> sf_Delete all_well k"
  by (simp_all add: all_well_def)

definition placed :: "path \<Rightarrow> tree \<Rightarrow> file_system" where
  "placed base files = map_of (map (\<lambda>(rel, body). (base @ rel, body)) files)"

lemma up_files_well:
  "up_files all_well prefix files b up =
     (Inr (rev (map fst (tree_objects prefix files)) @ up),
      fold (\<lambda>(k, v). AList.update k v) (tree_objects prefix files) b)"
  by (induction files arbitrary: b up) (auto simp: tree_objects_def Let_def)

lemma fold_update_map_of:
  "distinct (map fst os) \<Longrightarrow> map_of (fold (\<lambda>(k, v). AList.update k v) os b) = map_of b ++ map_of os"
proof (induction os arbitrary: b)
  case (Cons o' os)
  obtain k v where o': "o' = (k, v)" by (cases o')
  with Cons.prems have "map_of os k = None" by (simp add: map_of_eq_None_iff)
  with Cons show ?case by (auto simp: o' update_conv' fun_eq_iff map_add_def split: option.split)
qed simp

lemma delete_keys_well:
  "delete_keys all_well keep keys b =
     (None, filter (\<lambda>e. fst e \<in> set keep \<or> fst e \<notin> set keys) b)"
proof (induction keys arbitrary: b)
  case (Cons k keys)
  have "filter (\<lambda>e. fst e \<in> set keep \<or> fst e \<notin> set keys) (AList.delete k b) =
    filter (\<lambda>e. fst e \<in> set keep \<or> fst e \<notin> set (k # keys)) b" if "k \<notin> set keep"
    using that by (induction b) auto
  moreover have "filter (\<lambda>e. fst e \<in> set keep \<or> fst e \<notin> set keys) b =
    filter (\<lambda>e. fst e \<in> set keep \<or> fst e \<notin> set (k # keys)) b" if "k \<in> set keep"
    using that by (intro filter_cong) auto
  ultimately show ?case using Cons by simp
qed (simp add: filter_id_conv)

text \<open>After a mirroring upload the objects under the prefix are those of the tree.\<close>

lemma mirror_exact:
  assumes "tree_ok files" and "files \<noteq> []"
  shows "\<exists>b'. sync_up all_well prefix (Some files) True b = (None, b') \<and>
    set (filter (\<lambda>k. has_prefix k prefix) (map fst b')) = fst ` set (tree_objects prefix files) \<and>
    (\<forall>k \<in> fst ` set (tree_objects prefix files). map_of b' k = map_of (tree_objects prefix files) k)"
proof -
  let ?os = "tree_objects prefix files"
  let ?b = "fold (\<lambda>(k, v). AList.update k v) ?os b"
  let ?keep = "rev (map fst ?os)"
  let ?keys = "filter (\<lambda>k. has_prefix k prefix) (map fst ?b)"
  let ?b' = "filter (\<lambda>e. fst e \<in> set ?keep \<or> fst e \<notin> set ?keys) ?b"
  have ne: "?os \<noteq> []" using assms(2) by (simp add: tree_objects_def)
  have up: "sync_up all_well prefix (Some files) True b = (None, ?b')"
    using ne by (simp add: sync_up_def up_files_well list_keys_def delete_keys_well)
  have m: "map_of ?b = map_of b ++ map_of ?os" using fold_update_map_of tree_objects_distinct assms(1) by blast
  have k: "fst ` set ?b = fst ` set b \<union> fst ` set ?os"
    using arg_cong [OF m, of dom] by (simp add: dom_map_of_conv_image_fst Un_commute)
  have set: "set (filter (\<lambda>k. has_prefix k prefix) (map fst ?b')) = fst ` set ?os" (is "?l = ?r")
  proof (intro subset_antisym subsetI)
    fix x assume "x \<in> ?r"
    with k have "x \<in> fst ` set ?b" by blast
    moreover have "has_prefix x prefix" using \<open>x \<in> ?r\<close> tree_objects_prefix by blast
    ultimately show "x \<in> ?l" using \<open>x \<in> ?r\<close> by auto
  qed auto
  have "map_of ?b' x = map_of ?os x" if "x \<in> fst ` set ?os" for x
  proof -
    have "map_of ?b' x = map_of ?b x"
      using that by (intro map_of_filter_key [of "\<lambda>k. k \<in> set ?keep \<or> k \<notin> set ?keys"]) simp
    moreover have "map_of ?os x \<noteq> None" using that by (simp add: map_of_eq_None_iff)
    then have "(map_of b ++ map_of ?os) x = map_of ?os x" by (auto simp: map_add_def)
    ultimately show ?thesis unfolding m by (rule trans)
  qed
  with up set show ?thesis by blast
qed

lemma down_keys_tree:
  assumes ok: "tree_ok files" and base: "abs_dir cwd dir \<noteq> []"
    and b: "\<And>k. k \<in> fst ` set (tree_objects prefix files) \<Longrightarrow> map_of b k = map_of (tree_objects prefix files) k"
  shows "set keys \<subseteq> fst ` set (tree_objects prefix files) \<Longrightarrow>
    down_keys all_well cwd b prefix dir keys fs =
      (None, \<lambda>p. if \<exists>rel. p = abs_dir cwd dir @ rel \<and> rel \<in> fst ` set files \<and> prefix @ join_slash rel \<in> set keys
                 then placed (abs_dir cwd dir) files p else fs p)"
proof (induction keys arbitrary: fs)
  case (Cons key keys)
  let ?base = "abs_dir cwd dir"
  obtain rel body where f: "(rel, body) \<in> set files" and key: "key = prefix @ join_slash rel"
    using Cons.prems by (auto simp: tree_objects_def)
  have rel: "rel \<noteq> []" "list_all good_comp rel" using ok f by (auto simp: tree_ok_def list_all_iff)
  have trim: "trim_prefix key prefix = join_slash rel" by (simp add: key trim_prefix_def)
  have skip: "\<not> (join_slash rel = [] \<or> has_suffix (join_slash rel) ''/'')"
    using join_slash_end [OF rel] has_suffix_slash by blast
  have dst: "abs_join cwd dir (join_slash rel) = ?base @ rel" using rel by (rule abs_join_good)
  have ins: "inside ?base (?base @ rel)"
    using rel base by (cases rel) (simp_all add: inside_def render_def has_prefix_iff)
  have "(key, body) \<in> set (tree_objects prefix files)" using f by (force simp: tree_objects_def key)
  then have "map_of (tree_objects prefix files) key = Some body"
    using tree_objects_distinct [OF ok] by (simp add: map_of_eq_Some_iff)
  then have get: "map_of b key = Some body" using b [of key] Cons.prems by simp
  have "distinct (map fst (map (\<lambda>(rel, body). (?base @ rel, body)) files))"
    using ok by (simp add: tree_ok_def distinct_map inj_on_def case_prod_beta o_def)
  then have F: "placed ?base files (?base @ rel) = Some body"
    using f by (force simp: placed_def map_of_eq_Some_iff)
  have inj: "rel' = rel" if "rel' \<in> fst ` set files" "prefix @ join_slash rel' = key" for rel'
    using that ok rel by (intro join_slash_inj) (auto simp: tree_ok_def list_all_iff key)
  have "down_keys all_well cwd b prefix dir (key # keys) fs =
    down_keys all_well cwd b prefix dir keys (fs(?base @ rel \<mapsto> body))"
    using skip ins rel(1) by (simp add: trim dst get)
  also have "\<dots> = (None, \<lambda>p. if \<exists>rel. p = ?base @ rel \<and> rel \<in> fst ` set files \<and> prefix @ join_slash rel \<in> set keys
      then placed ?base files p else (fs(?base @ rel \<mapsto> body)) p)"
    using Cons by simp
  finally show ?case
    using F f inj by (auto simp: fun_eq_iff key image_iff)
qed simp

lemma sync_down_below:
  "list_all (\<lambda>c. CHR ''/'' \<notin> set c) cwd \<Longrightarrow> snd (sync_down flt cwd b prefix dir fs) p \<noteq> fs p \<Longrightarrow>
   \<exists>es. p = abs_dir cwd dir @ es \<and> es \<noteq> []"
  using down_keys_inside [of cwd flt b prefix dir _ fs p] unfolding sync_down_def by (cases "list_keys flt b prefix") auto

lemma pair_dirs_apart: "abs_dir cwd ''.fantrax-cache/'' @ rel \<noteq> abs_dir cwd ''.waivers/'' @ es"
proof -
  have dir: "abs_dir cwd (c @ ''/'') = clean_comps True cwd @ [c]"
    if "good_comp c" "\<not> is_rooted (c @ ''/'')" for c
  proof -
    have "split_slash (c @ ''/'') = [c, []]"
      using that(1) split_slash_append [of c "[]"] by (simp add: good_comp_def)
    moreover have "clean_comps False [c, []] = [c]"
      using that(1) by (simp add: clean_comps_def clean_step_good) (simp add: clean_step_def)
    ultimately show ?thesis
      using that clean_comps_append [of "[c]" True cwd] by (simp add: abs_dir_def abs_comps_def)
  qed
  have "abs_dir cwd ''.fantrax-cache/'' = clean_comps True cwd @ [''.fantrax-cache'']"
    using dir [of "''.fantrax-cache''"] by (simp add: good_comp_def is_rooted_def has_prefix_iff)
  moreover have "abs_dir cwd ''.waivers/'' = clean_comps True cwd @ [''.waivers'']"
    using dir [of "''.waivers''"] by (simp add: good_comp_def is_rooted_def has_prefix_iff)
  ultimately show ?thesis by simp
qed

lemma session_apart:
  assumes "t \<noteq> u" and "t \<noteq> []" and "u \<noteq> []" and "CHR ''/'' \<notin> set t" and "CHR ''/'' \<notin> set u"
    and "a \<in> {session_artifact, claims_artifact}" and "has_prefix k (prefix_for session_artifact u)"
  shows "\<not> has_prefix k (prefix_for a t)"
proof -
  have s: "session_artifact \<in> set declared_artifacts" "af_PerTenant session_artifact"
    by (simp_all only: declared_artifacts_def list.set insert_iff simp_thms) (simp add: session_artifact_def)
  have "\<not> has_prefix k (prefix_for claims_artifact t)"
  proof -
    have "prefix_for claims_artifact t = ''claims/''" by (simp add: prefix_for_def claims_artifact_def)
    moreover obtain x where "k = ''session/'' @ x"
      using assms(3,7) by (auto simp: prefix_for_def session_artifact_def has_prefix_iff)
    ultimately show ?thesis by (simp add: has_prefix_iff)
  qed
  then show ?thesis using tenants_apart [OF s(1,1,2,2)] assms by blast
qed

section \<open>Properties\<close>

text \<open>C28. What a mirroring upload published comes back as it was: with no request failing, uploading a
  non-empty directory tree in mirror mode succeeds over whatever the bucket held before, and a
  download of the prefix into any directory other than the file system's root then leaves, under
  that directory, each file of the tree at its place with its contents, and every other file of
  the file system as it was.
\<close>

theorem up_down_roundtrip:
  assumes "tree_ok files" and "files \<noteq> []" and "abs_dir cwd dir \<noteq> []"
  shows "\<exists>b'. sync_up all_well prefix (Some files) True b = (None, b') \<and>
    sync_down all_well cwd b' prefix dir fs = (None, fs ++ placed (abs_dir cwd dir) files)"
proof -
  let ?os = "tree_objects prefix files" and ?base = "abs_dir cwd dir"
  from mirror_exact [OF assms(1,2), of prefix b]
  obtain b' where up: "sync_up all_well prefix (Some files) True b = (None, b')"
    and keys: "set (filter (\<lambda>k. has_prefix k prefix) (map fst b')) = fst ` set ?os"
    and "\<forall>k \<in> fst ` set ?os. map_of b' k = map_of ?os k"
    by (elim exE conjE)
  then have body: "\<And>k. k \<in> fst ` set ?os \<Longrightarrow> map_of b' k = map_of ?os k" by (elim bspec)
  have all: "prefix @ join_slash rel \<in> fst ` set ?os" if "rel \<in> fst ` set files" for rel
    using that by (force simp: tree_objects_def)
  have "sync_down all_well cwd b' prefix dir fs =
    (None, \<lambda>p. if \<exists>rel. p = ?base @ rel \<and> rel \<in> fst ` set files then placed ?base files p else fs p)"
  proof -
    let ?keys = "filter (\<lambda>k. has_prefix k prefix) (map fst b')"
    have "down_keys all_well cwd b' prefix dir ?keys fs =
      (None, \<lambda>p. if \<exists>rel. p = ?base @ rel \<and> rel \<in> fst ` set files \<and> prefix @ join_slash rel \<in> set ?keys
        then placed ?base files p else fs p)"
      by (rule down_keys_tree [OF assms(1,3) body]) (simp_all only: keys subset_refl)
    then show ?thesis unfolding keys sync_down_def list_keys_def using all by (simp cong: conj_cong)
  qed
  also have "(\<lambda>p. if \<exists>rel. p = ?base @ rel \<and> rel \<in> fst ` set files then placed ?base files p else fs p) =
    fs ++ placed ?base files"
  proof
    fix p
    have "placed ?base files p = None \<longleftrightarrow> \<not> (\<exists>rel. p = ?base @ rel \<and> rel \<in> fst ` set files)"
      by (force simp: placed_def map_of_eq_None_iff)
    then show "(if \<exists>rel. p = ?base @ rel \<and> rel \<in> fst ` set files then placed ?base files p else fs p) =
      (fs ++ placed ?base files) p"
      by (auto simp: map_add_def split: option.split)
  qed
  finally show ?thesis using up by blast
qed

theorem up_down_roundtrip_witness:
  "\<exists>b'. sync_up all_well ''recap/'' (Some [([''a'', ''i.html''], ''x''), ([''b''], ''y'')]) True
      [(''recap/old'', ''z''), (''jobs/1'', ''w'')] = (None, b') \<and>
    sync_down all_well [''app''] b' ''recap/'' ''dist'' (\<lambda>_. None) =
      (None, (\<lambda>_. None) ++ placed (abs_dir [''app''] ''dist'') [([''a'', ''i.html''], ''x''), ([''b''], ''y'')])"
proof (rule up_down_roundtrip)
  show "tree_ok [([''a'', ''i.html''], ''x''), ([''b''], ''y'')]" by code_simp
  have "split_slash ''dist'' = [''dist'']" by (simp add: split_slash_word)
  then show "abs_dir [''app''] ''dist'' \<noteq> []"
    by (simp add: abs_dir_def abs_comps_def is_rooted_def has_prefix_iff clean_comps_def clean_step_def)
qed simp

text \<open>A download stays below the directory it was given: whatever keys the bucket holds, whichever
  requests fail, every file that differs afterwards lies strictly below the directory. A key such
  as \<open>../../etc/passwd\<close> is refused.
\<close>

theorem down_stays_inside:
  assumes "list_all (\<lambda>c. CHR ''/'' \<notin> set c) cwd"
    and "snd (sync_down flt cwd b prefix dir fs) p \<noteq> fs p"
  shows "\<exists>es. p = abs_dir cwd dir @ es \<and> es \<noteq> []"
  using sync_down_below [OF assms] .

theorem down_stays_inside_witness:
  "\<exists>es. [''app'', ''d'', ''b''] = abs_dir [''app''] ''./d'' @ es \<and> es \<noteq> []"
proof (rule down_stays_inside)
  show "list_all (\<lambda>c. CHR ''/'' \<notin> set c) [''app'']" by simp
  show "snd (sync_down all_well [''app''] [(''p/a/../b'', ''x''), (''p/../../etc'', ''y'')] ''p/'' ''./d'' (\<lambda>_. None))
      [''app'', ''d'', ''b''] \<noteq> None" by code_simp
qed

text \<open>C27. No run restores another tenant's session: whatever a run of tenant \<open>t\<close> uploads, and whichever
  of its requests fail, a later run of a tenant \<open>u\<close> finds in its session directory, which
  \<open>sync-down\<close> fills from the bucket, exactly what it would have found without that run, even
  where the shared claims ledger holds crafted keys. The tenant ids are different, not empty, and hold no slash.
\<close>

theorem tenant_session_isolated:
  assumes "t \<noteq> u" and "t \<noteq> []" and "u \<noteq> []" and "CHR ''/'' \<notin> set t" and "CHR ''/'' \<notin> set u"
    and "list_all (\<lambda>c. CHR ''/'' \<notin> set c) cwd"
  shows "run_sync_down flt cwd u (Some (sync_up_pairs flt' local t b)) fs (abs_dir cwd ''.fantrax-cache/'' @ rel) =
    run_sync_down flt cwd u (Some b) fs (abs_dir cwd ''.fantrax-cache/'' @ rel)"
proof -
  let ?p = "abs_dir cwd ''.fantrax-cache/'' @ rel"
  have ledger: "snd (sync_down flt cwd b' prefix ''.waivers/'' fs') ?p = fs' ?p" for b' prefix fs'
    using sync_down_below [OF assms(6), of flt b' prefix "''.waivers/''" fs' ?p] pair_dirs_apart by blast
  have apart: "\<not> has_prefix k (prefix_for a t)"
    if "a \<in> {session_artifact, claims_artifact}" "has_prefix k (prefix_for session_artifact u)" for a k
    using session_apart [OF assms(1-5) that] .
  have same: "filter (\<lambda>e. has_prefix (fst e) (prefix_for session_artifact u)) (sync_up_pairs flt' local t b) =
    filter (\<lambda>e. has_prefix (fst e) (prefix_for session_artifact u)) b"
    using apart by (simp add: sync_up_pairs_def state_pairs_for_def
        sync_up_other [where P = "\<lambda>k. has_prefix k (prefix_for session_artifact u)"])
  show ?thesis
    by (simp add: run_sync_down_def state_pairs_for_def ledger sync_down_own [OF same])
qed

theorem tenant_session_isolated_witness:
  "run_sync_down all_well [''app''] ''bob'' (Some (sync_up_pairs all_well
      (\<lambda>d. if d = ''.fantrax-cache/'' then Some [([''cookie''], ''1'')] else None) ''ann'' [])) (\<lambda>_. None)
      (abs_dir [''app''] ''.fantrax-cache/'' @ [''cookie'']) =
    run_sync_down all_well [''app''] ''bob'' (Some []) (\<lambda>_. None) (abs_dir [''app''] ''.fantrax-cache/'' @ [''cookie''])"
  by (rule tenant_session_isolated) simp_all

text \<open>A render that produced no file unpublishes nothing, and publishing a site touches nothing beside
  it: the bucket is exactly what it was when the local tree is empty or absent, and when it is
  not, every object outside the site's prefix is what it was, whichever requests fail. The
  distribution is invalidated only after the whole mirror went through.
\<close>

theorem publish_site_contained:
  "(local = None \<or> local = Some [] \<longrightarrow> publish_site flt local (Some b) distID prefix = (Some b, False)) \<and>
   (\<exists>b'. fst (publish_site flt local (Some b) distID prefix) = Some b' \<and>
      filter (\<lambda>e. \<not> has_prefix (fst e) prefix) b' = filter (\<lambda>e. \<not> has_prefix (fst e) prefix) b) \<and>
   (snd (publish_site flt local (Some b) distID prefix) \<longrightarrow>
      local \<noteq> None \<and> fst (sync_up flt prefix local True b) = None)"
proof (intro conjI)
  show "local = None \<or> local = Some [] \<longrightarrow> publish_site flt local (Some b) distID prefix = (Some b, False)"
    by (auto simp: publish_site_def sync_up_def)
  have "filter (\<lambda>e. \<not> has_prefix (fst e) prefix) (snd (sync_up flt prefix local True b)) =
      filter (\<lambda>e. \<not> has_prefix (fst e) prefix) b"
    by (rule sync_up_other [where P = "\<lambda>k. \<not> has_prefix k prefix"]) simp
  then show "\<exists>b'. fst (publish_site flt local (Some b) distID prefix) = Some b' \<and>
      filter (\<lambda>e. \<not> has_prefix (fst e) prefix) b' = filter (\<lambda>e. \<not> has_prefix (fst e) prefix) b"
    by (auto simp: publish_site_def split: prod.split option.split)
  show "snd (publish_site flt local (Some b) distID prefix) \<longrightarrow>
      local \<noteq> None \<and> fst (sync_up flt prefix local True b) = None"
    by (auto simp: publish_site_def split: prod.split option.split if_splits)
qed

theorem publish_site_contained_witness:
  "publish_site all_well (Some []) (Some [(''report/a'', ''x'')]) ''E1'' ''report/'' = (Some [(''report/a'', ''x'')], False)"
  using publish_site_contained [of "Some []" all_well "[(''report/a'', ''x'')]" "''E1''" "''report/''"] by simp

end
