(* ===== verification/DDB_Table.thy ===== *)
theory DDB_Table
  imports Tenant_Store Connections Decimal
begin

text \<open>
  One DynamoDB table and the programs that run against it. A program is a sequence of requests,
  each of whose responses decides the rest, so that programs of several callers can be
  interleaved request by request. The requests are the methods of the interface \<open>API\<close> of
  \<open>internal/lineupapi/ddbuser/ddbuser.go\<close>; what they do is the documented behaviour of the
  service: a conditional write, and a transaction, is atomic; a query returns the rows of one
  partition key in the order of their sort keys, in pages, and names the last key of a page that
  is not the last one. A request that fails may have been carried out or not.

  A scan is one request here, its pages concatenated. An item is what its attributes decode to.
\<close>

section \<open>Items, keys and conditions\<close>

type_synonym ddb_key = "string \<times> string"

datatype ddb_item =
    Profile user int
  | Cred_row string
  | Cred_meta string go_time
  | Pointer string
  | Device push_device
  | Token_pointer string string
  | Enroll_row enrollment
  | Fantrax_row conn_item

type_synonym ddb_table = "(ddb_key \<times> ddb_item) list"

text \<open>\<open>attribute_not_exists(pk)\<close>, \<open>ver = :v\<close>, \<open>attribute_not_exists(pk) OR uid = :uid\<close>,
  \<open>attribute_not_exists(UsedAt)\<close> and \<open>attribute_exists(pk) AND attribute_not_exists(ver)\<close>.\<close>

datatype ddb_cond = Always | Absent | Ver_is int | Absent_or_uid string | Unused | Unversioned

fun cond_holds :: "ddb_cond \<Rightarrow> ddb_item option \<Rightarrow> bool" where
  "cond_holds Always i = True"
| "cond_holds Absent i = (i = None)"
| "cond_holds (Ver_is v) i =
     (case i of Some (Profile _ w) \<Rightarrow> w = v | Some (Fantrax_row c) \<Rightarrow> ci_Ver c = Some v | _ \<Rightarrow> False)"
| "cond_holds (Absent_or_uid uid) i =
     (case i of None \<Rightarrow> True | Some (Pointer u) \<Rightarrow> u = uid | Some (Token_pointer u _) \<Rightarrow> u = uid | _ \<Rightarrow> False)"
| "cond_holds Unused i = (case i of Some (Enroll_row e) \<Rightarrow> \<not> redeemed e | _ \<Rightarrow> True)"
| "cond_holds Unversioned i =
     (case i of None \<Rightarrow> False | Some (Profile _ _) \<Rightarrow> False | Some (Fantrax_row c) \<Rightarrow> ci_Ver c = None | _ \<Rightarrow> True)"

section \<open>Requests\<close>

datatype request =
    Get_item ddb_key
  | Query string string "string option"
  | Scan_profiles "string option"
  | Put_item ddb_key ddb_item ddb_cond
  | Delete_item ddb_key
  | Transact "(ddb_key \<times> ddb_item \<times> ddb_cond) list"

datatype response =
    Failed
  | Found "ddb_item option"
  | Rows "(string \<times> ddb_item) list" "string option"
  | Profiles "(user \<times> int) list"
  | Carried_out
  | Refused
  | Cancelled "bool list"

definition query_rows :: "ddb_table \<Rightarrow> string \<Rightarrow> string \<Rightarrow> string option \<Rightarrow> (string \<times> ddb_item) list" where
  "query_rows T pk pre start =
     sort_key fst (map (\<lambda>((_, sk), i). (sk, i))
       (filter (\<lambda>((p, sk), _). p = pk \<and> has_prefix sk pre \<and> (case start of None \<Rightarrow> True | Some x \<Rightarrow> x < sk)) T))"

text \<open>A page of a query holds at most \<open>pg\<close> rows.\<close>

fun exec :: "nat \<Rightarrow> request \<Rightarrow> ddb_table \<Rightarrow> response \<times> ddb_table" where
  "exec pg (Get_item k) T = (Found (map_of T k), T)"
| "exec pg (Query pk pre start) T =
     (let rows = query_rows T pk pre start; page = take pg rows
      in (Rows page (if length rows > pg then Some (fst (last page)) else None), T))"
| "exec pg (Scan_profiles status) T =
     (Profiles (List.map_filter (\<lambda>((_, sk), i). case i of
        Profile u v \<Rightarrow>
          if sk = ''PROFILE'' \<and> (case status of None \<Rightarrow> True | Some st \<Rightarrow> us_Status u = st) then Some (u, v) else None
      | _ \<Rightarrow> None) T), T)"
| "exec pg (Put_item k i c) T =
     (if cond_holds c (map_of T k) then (Carried_out, AList.update k i T) else (Refused, T))"
| "exec pg (Delete_item k) T = (Carried_out, AList.delete k T)"
| "exec pg (Transact ws) T =
     (let bad = map (\<lambda>(k, _, c). \<not> cond_holds c (map_of T k)) ws
      in if list_ex id bad then (Cancelled bad, T)
         else (Carried_out, fold (\<lambda>(k, i, _). AList.update k i) ws T))"

text \<open>What may come of a request: it is carried out, it fails, or it is carried out and the
  answer is lost.\<close>

definition outcomes :: "nat \<Rightarrow> request \<Rightarrow> ddb_table \<Rightarrow> (response \<times> ddb_table) list" where
  "outcomes pg rq T = [exec pg rq T, (Failed, T), (Failed, snd (exec pg rq T))]"

section \<open>Programs\<close>

datatype 'r prog = Return 'r | Call request "response \<Rightarrow> 'r prog"

primrec and_then :: "'a prog \<Rightarrow> ('a \<Rightarrow> 'b prog) \<Rightarrow> 'b prog" where
  "and_then (Return r) f = f r"
| "and_then (Call rq k) f = Call rq (\<lambda>x. and_then (k x) f)"

text \<open>Go on with the value unless there was an error.\<close>

definition on_ok :: "('e + 'a) prog \<Rightarrow> ('a \<Rightarrow> ('e + 'b) prog) \<Rightarrow> ('e + 'b) prog" where
  "on_ok p f = and_then p (\<lambda>r. case r of Inl e \<Rightarrow> Return (Inl e) | Inr a \<Rightarrow> f a)"

text \<open>A run that nothing interferes with and in which no request fails.\<close>

primrec run_prog :: "nat \<Rightarrow> 'r prog \<Rightarrow> ddb_table \<Rightarrow> 'r \<times> ddb_table" where
  "run_prog pg (Return r) T = (r, T)"
| "run_prog pg (Call rq k) T = (case exec pg rq T of (x, T') \<Rightarrow> run_prog pg (k x) T')"

lemma run_and_then: "run_prog pg (and_then p f) T = (case run_prog pg p T of (r, T') \<Rightarrow> run_prog pg (f r) T')"
  by (induction p arbitrary: T) (auto split: prod.split)

lemma run_on_ok:
  "run_prog pg (on_ok p f) T =
     (case run_prog pg p T of (Inl e, T') \<Rightarrow> (Inl e, T') | (Inr a, T') \<Rightarrow> run_prog pg (f a) T')"
  by (auto simp: on_ok_def run_and_then split: prod.split sum.split)

lemma on_ok_simps [simp]:
  "on_ok (Return (Inl e)) f = Return (Inl e)" "on_ok (Return (Inr a)) f = f a"
  "on_ok (Call rq k) f = Call rq (\<lambda>x. on_ok (k x) f)"
  by (simp_all add: on_ok_def)

section \<open>Interference\<close>

text \<open>
  A program is safe in a state when, whatever others do between its requests within \<open>rely\<close>, each of
  its requests keeps the invariant \<open>good\<close> and stays within \<open>guar\<close>, whatever comes of it.
\<close>

primrec safe ::
  "(request \<Rightarrow> 's \<Rightarrow> (response \<times> 's) list) \<Rightarrow> ('s \<Rightarrow> bool) \<Rightarrow> ('s \<Rightarrow> 's \<Rightarrow> bool) \<Rightarrow> ('s \<Rightarrow> 's \<Rightarrow> bool) \<Rightarrow>
   'r prog \<Rightarrow> 's \<Rightarrow> bool" where
  "safe out good rely guar (Return r) s \<longleftrightarrow> True"
| "safe out good rely guar (Call rq k) s \<longleftrightarrow>
     (\<forall>s1. rely s s1 \<longrightarrow> good s1 \<longrightarrow>
       (\<forall>(x, s2) \<in> set (out rq s1). good s2 \<and> guar s1 s2 \<and> safe out good rely guar (k x) s2))"

text \<open>
  Callers at work on one store. \<open>rely c\<close> is what caller \<open>c\<close> may expect of the others, \<open>guar c\<close> what it
  promises them, \<open>overlap\<close> tells which two callers may be at work at once. What one promises is what
  the others expect.
\<close>

locale interference =
  fixes out :: "request \<Rightarrow> 's \<Rightarrow> (response \<times> 's) list"
    and good :: "'s \<Rightarrow> bool"
    and rely guar :: "'c \<Rightarrow> 's \<Rightarrow> 's \<Rightarrow> bool"
    and overlap :: "'c \<Rightarrow> 'c \<Rightarrow> bool"
  assumes rely_refl: "rely c s s"
    and rely_trans: "rely c s t \<Longrightarrow> rely c t u \<Longrightarrow> rely c s u"
    and promised: "overlap c d \<Longrightarrow> guar c s t \<Longrightarrow> rely d s t"
    and overlap_sym: "overlap c d \<Longrightarrow> overlap d c"
begin

lemma safe_stable:
  assumes "safe out good (rely c) (guar c) p s" and "rely c s t"
  shows "safe out good (rely c) (guar c) p t"
proof (cases p)
  case (Call rq k)
  show ?thesis unfolding Call safe.simps
  proof (intro allI impI)
    fix s1 assume "rely c t s1" "good s1"
    then show "\<forall>(x, s2) \<in> set (out rq s1). good s2 \<and> guar c s1 s2 \<and> safe out good (rely c) (guar c) (k x) s2"
      using assms(1) rely_trans [OF assms(2)] unfolding Call safe.simps by blast
  qed
qed simp

lemma safe_and_then:
  "safe out good (rely c) (guar c) p s \<Longrightarrow>
   (\<And>r t. good t \<Longrightarrow> safe out good (rely c) (guar c) (f r) t) \<Longrightarrow> good s \<Longrightarrow>
   safe out good (rely c) (guar c) (and_then p f) s"
proof (induction p arbitrary: s)
  case (Call rq k)
  show ?case unfolding and_then.simps safe.simps
  proof (intro allI impI ballI, clarify)
    fix s1 x s2
    assume *: "rely c s s1" "good s1" "(x, s2) \<in> set (out rq s1)"
    then have "good s2 \<and> guar c s1 s2 \<and> safe out good (rely c) (guar c) (k x) s2"
      using Call.prems(1) by fastforce
    then show "good s2 \<and> guar c s1 s2 \<and> safe out good (rely c) (guar c) (and_then (k x) f) s2"
      using Call.IH [of "k x"] Call.prems(2) by blast
  qed
qed simp

text \<open>One request of one caller leaves every program safe.\<close>

lemma step_keeps_safe:
  assumes "i < length ops" and "ops ! i = (c, Call rq k)" and "(x, t) \<in> set (out rq s)" and "good s"
    and safe: "\<And>j d p. j < length ops \<Longrightarrow> ops ! j = (d, p) \<Longrightarrow> safe out good (rely d) (guar d) p s"
    and apart: "\<And>j d p. j < length ops \<Longrightarrow> j \<noteq> i \<Longrightarrow> ops ! j = (d, p) \<Longrightarrow> (\<exists>r. p = Return r) \<or> overlap c d"
  shows "good t \<and> (\<forall>j d p. j < length ops \<longrightarrow> ops[i := (c, k x)] ! j = (d, p) \<longrightarrow> safe out good (rely d) (guar d) p t)"
proof -
  have "safe out good (rely c) (guar c) (Call rq k) s" using safe assms(1,2) by blast
  then have own: "good t" "guar c s t" "safe out good (rely c) (guar c) (k x) t"
    using rely_refl assms(3,4) by fastforce+
  have "safe out good (rely d) (guar d) p t" if j: "j < length ops" "ops[i := (c, k x)] ! j = (d, p)" for j d p
  proof (cases "j = i")
    case True
    with j own(3) show ?thesis by simp
  next
    case False
    with j have *: "ops ! j = (d, p)" by simp
    with apart [OF j(1) False] consider r where "p = Return r" | "overlap c d" by blast
    then show ?thesis
    proof cases
      case 2
      then show ?thesis using safe_stable [OF safe [OF j(1) *]] promised own(2) by blast
    qed simp
  qed
  with own(1) show ?thesis by blast
qed

end

end
