(* ===== verification/DDB_Users.thy ===== *)
theory DDB_Users
  imports DDB_Table
begin

text \<open>
  The operations of the DynamoDB user store as programs of requests: \<open>ddbuser.go\<close> and
  \<open>pushdevice.go\<close> of \<open>internal/lineupapi/ddbuser\<close>, with two clients that read and write a profile in
  several requests, \<open>mutateUser\<close> and \<open>SetTeam\<close> of \<open>internal/lineupapi/tenants_admin.go\<close>. A loop over
  the pages of a query takes a bound on their number, and gives up beyond it; passkeys are
  the text they are encoded to.
\<close>

section \<open>Keys\<close>

definition user_pk :: "string \<Rightarrow> string" where "user_pk uid = ''USER#'' @ uid"
definition cred_prefix :: string where "cred_prefix = ''CRED#''"
definition cred_key :: "string \<Rightarrow> string" where "cred_key cid = cred_prefix @ b64_encode cid"
definition email_pk :: "string \<Rightarrow> string" where "email_pk email = ''EMAIL#'' @ to_lower email"
definition team_pk :: "string \<Rightarrow> string" where "team_pk team = ''TEAM#'' @ team"
definition profile_sk :: string where "profile_sk = ''PROFILE''"
definition pointer_sk :: string where "pointer_sk = ''USER''"
definition cred_meta_prefix :: string where "cred_meta_prefix = ''CREDMETA#''"
definition cred_meta_sk :: "string \<Rightarrow> string" where "cred_meta_sk cid = cred_meta_prefix @ b64_encode cid"
definition enroll_pk :: "string \<Rightarrow> string" where "enroll_pk h = ''ENROLL#'' @ h"
definition enroll_sk :: string where "enroll_sk = ''TOKEN''"
definition conn_sk :: string where "conn_sk = ''FANTRAX''"
definition push_device_prefix :: string where "push_device_prefix = ''PUSHDEVICE#''"
definition push_device_sk :: "string \<Rightarrow> string" where "push_device_sk dev = push_device_prefix @ dev"
definition push_token_pk :: "string \<Rightarrow> string" where "push_token_pk tok = ''PUSHTOKEN#'' @ tok"

section \<open>Single requests\<close>

datatype ddb_error =
    Store_refused store_error | Request_failed | Bad_version string | Bad_item | Credential_without_uid
  | Too_many_pages | Conflict_on_connection | No_connection_user | No_such_user | Mutation_refused string
  | Team_is_required | Team_reassignment string | Crashed

definition get_item :: "ddb_key \<Rightarrow> (ddb_error + ddb_item option) prog" where
  "get_item k = Call (Get_item k) (\<lambda>x. case x of Found i \<Rightarrow> Return (Inr i) | _ \<Rightarrow> Return (Inl Request_failed))"

text \<open>\<open>e\<close> is what a failed condition is reported as.\<close>

definition put_item :: "ddb_key \<Rightarrow> ddb_item \<Rightarrow> ddb_cond \<Rightarrow> ddb_error \<Rightarrow> (ddb_error + unit) prog" where
  "put_item k i c e = Call (Put_item k i c) (\<lambda>x. case x of
       Carried_out \<Rightarrow> Return (Inr ()) | Refused \<Rightarrow> Return (Inl e) | _ \<Rightarrow> Return (Inl Request_failed))"

definition delete_item :: "ddb_key \<Rightarrow> (ddb_error + unit) prog" where
  "delete_item k = Call (Delete_item k) (\<lambda>x. case x of Carried_out \<Rightarrow> Return (Inr ()) | _ \<Rightarrow> Return (Inl Request_failed))"

text \<open>The \<open>uid\<close> attribute, empty when there is none.\<close>

definition uid_attr :: "ddb_item \<Rightarrow> string" where
  "uid_attr i = (case i of Pointer u \<Rightarrow> u | Token_pointer u _ \<Rightarrow> u | _ \<Rightarrow> [])"

section \<open>Profiles and claims\<close>

definition ddb_get_user :: "string \<Rightarrow> (ddb_error + user option) prog" where
  "ddb_get_user uid = on_ok (get_item (user_pk uid, profile_sk)) (\<lambda>i. case i of
       None \<Rightarrow> Return (Inr None)
     | Some (Profile u v) \<Rightarrow> Return (Inr (Some (u\<lparr>us_Version := fmt_int v\<rparr>)))
     | Some _ \<Rightarrow> Return (Inl Bad_item))"

definition user_item :: "user \<Rightarrow> int \<Rightarrow> ddb_item" where
  "user_item u v = Profile (u\<lparr>us_Version := []\<rparr>) v"

definition map_cancellation :: "bool list \<Rightarrow> store_error list \<Rightarrow> ddb_error" where
  "map_cancellation bad kinds =
     (case find fst (zip bad kinds) of Some (_, e) \<Rightarrow> Store_refused e | None \<Rightarrow> Request_failed)"

definition create_writes :: "user \<Rightarrow> (ddb_key \<times> ddb_item \<times> ddb_cond) list" where
  "create_writes u =
     ((user_pk (us_ID u), profile_sk), user_item u 1, Absent) #
     (if us_Email u \<noteq> [] then [((email_pk (us_Email u), pointer_sk), Pointer (us_ID u), Absent)] else []) @
     (if us_TeamID u \<noteq> [] then [((team_pk (us_TeamID u), pointer_sk), Pointer (us_ID u), Absent)] else [])"

definition create_kinds :: "user \<Rightarrow> store_error list" where
  "create_kinds u =
     User_conflict # (if us_Email u \<noteq> [] then [Email_taken] else []) @ (if us_TeamID u \<noteq> [] then [Team_taken] else [])"

definition ddb_create_user :: "user \<Rightarrow> (ddb_error + user) prog" where
  "ddb_create_user u = Call (Transact (create_writes u)) (\<lambda>x. case x of
       Carried_out \<Rightarrow> Return (Inr (u\<lparr>us_Version := ''1''\<rparr>))
     | Cancelled bad \<Rightarrow> Return (Inl (map_cancellation bad (create_kinds u)))
     | _ \<Rightarrow> Return (Inl Request_failed))"

definition ddb_put_user :: "user \<Rightarrow> (ddb_error + user) prog" where
  "ddb_put_user u =
     (if us_Version u = [] then Return (Inl (Store_refused User_conflict))
      else (case parse_int (us_Version u) of
              None \<Rightarrow> Return (Inl (Bad_version (us_Version u)))
            | Some cur \<Rightarrow>
                on_ok (put_item (user_pk (us_ID u), profile_sk) (user_item u (cur + 1)) (Ver_is cur) (Store_refused User_conflict))
                  (\<lambda>_. Return (Inr (u\<lparr>us_Version := fmt_int (cur + 1)\<rparr>)))))"

text \<open>The attempts of a change to a profile: read, change, write back, and again when the write
  lost a race. \<open>missing\<close> is the error when there is no profile.\<close>

primrec mutate_loop :: "nat \<Rightarrow> ddb_error \<Rightarrow> string \<Rightarrow> (user \<Rightarrow> ddb_error + user) \<Rightarrow> (ddb_error + user) prog" where
  "mutate_loop 0 missing uid f = Return (Inl (Store_refused User_conflict))"
| "mutate_loop (Suc n) missing uid f =
     on_ok (ddb_get_user uid) (\<lambda>found. case found of
         None \<Rightarrow> Return (Inl missing)
       | Some u \<Rightarrow> (case f u of
           Inl e \<Rightarrow> Return (Inl e)
         | Inr u' \<Rightarrow> and_then (ddb_put_user u') (\<lambda>r. case r of
               Inr w \<Rightarrow> Return (Inr w)
             | Inl e \<Rightarrow> if e = Store_refused User_conflict then mutate_loop n missing uid f else Return (Inl e))))"

definition ddb_claim_team :: "string \<Rightarrow> string \<Rightarrow> (ddb_error + unit) prog" where
  "ddb_claim_team uid team =
     on_ok (put_item (team_pk team, pointer_sk) (Pointer uid) (Absent_or_uid uid) (Store_refused Team_taken)) (\<lambda>_.
     on_ok (mutate_loop 5 (Store_refused User_conflict) uid (\<lambda>u. Inr (u\<lparr>us_TeamID := team\<rparr>))) (\<lambda>_. Return (Inr ())))"

definition ddb_mutate_user :: "string \<Rightarrow> (user \<Rightarrow> ddb_error + user) \<Rightarrow> (ddb_error + user) prog" where
  "ddb_mutate_user uid f = mutate_loop 5 No_such_user uid f"

definition ddb_set_team :: "string \<Rightarrow> string \<Rightarrow> (ddb_error + unit) prog" where
  "ddb_set_team uid team =
     (if team = [] then Return (Inl Team_is_required)
      else on_ok (ddb_get_user uid) (\<lambda>found. case found of
          None \<Rightarrow> Return (Inl No_such_user)
        | Some u \<Rightarrow>
            if us_TeamID u \<noteq> [] \<and> us_TeamID u \<noteq> team then Return (Inl (Team_reassignment (us_TeamID u)))
            else ddb_claim_team uid team))"

definition scan_profiles :: "string option \<Rightarrow> (ddb_error + user list) prog" where
  "scan_profiles status = Call (Scan_profiles status) (\<lambda>x. case x of
       Profiles us \<Rightarrow> Return (Inr (map (\<lambda>(u, v). u\<lparr>us_Version := fmt_int v\<rparr>) us))
     | _ \<Rightarrow> Return (Inl Request_failed))"

definition ddb_list_active :: "(ddb_error + user list) prog" where
  "ddb_list_active = scan_profiles (Some user_active)"

definition ddb_list_users :: "(ddb_error + user list) prog" where
  "ddb_list_users = scan_profiles None"

section \<open>Passkeys\<close>

text \<open>All pages of a query, at most so many.\<close>

primrec query_all ::
  "nat \<Rightarrow> string \<Rightarrow> string \<Rightarrow> string option \<Rightarrow> (string \<times> ddb_item) list \<Rightarrow> (ddb_error + (string \<times> ddb_item) list) prog" where
  "query_all 0 pk pre start acc = Return (Inl Too_many_pages)"
| "query_all (Suc n) pk pre start acc = Call (Query pk pre start) (\<lambda>x. case x of
       Rows rows None \<Rightarrow> Return (Inr (acc @ rows))
     | Rows rows (Some lk) \<Rightarrow> query_all n pk pre (Some lk) (acc @ rows)
     | _ \<Rightarrow> Return (Inl Request_failed))"

text \<open>\<open>Credentials\<close> reads one page only.\<close>

definition ddb_credentials :: "string \<Rightarrow> (ddb_error + string list) prog" where
  "ddb_credentials uid = Call (Query (user_pk uid) cred_prefix None) (\<lambda>x. case x of
       Rows rows _ \<Rightarrow> Return (Inr (List.map_filter (\<lambda>(_, i). case i of Cred_row c \<Rightarrow> Some c | _ \<Rightarrow> None) rows))
     | _ \<Rightarrow> Return (Inl Request_failed))"

definition ddb_put_credential :: "string \<Rightarrow> string \<Rightarrow> string \<Rightarrow> (ddb_error + unit) prog" where
  "ddb_put_credential uid cid c =
     on_ok (put_item (user_pk uid, cred_key cid) (Cred_row c) Always Request_failed) (\<lambda>_.
     put_item (cred_key cid, pointer_sk) (Pointer uid) Always Request_failed)"

definition ddb_delete_credential :: "string \<Rightarrow> string \<Rightarrow> (ddb_error + unit) prog" where
  "ddb_delete_credential uid cid =
     on_ok (delete_item (cred_key cid, pointer_sk)) (\<lambda>_.
     on_ok (delete_item (user_pk uid, cred_key cid)) (\<lambda>_.
     delete_item (user_pk uid, cred_meta_sk cid)))"

definition ddb_user_by_credential :: "string \<Rightarrow> (ddb_error + string option) prog" where
  "ddb_user_by_credential cid = on_ok (get_item (cred_key cid, pointer_sk)) (\<lambda>i. case i of
       None \<Rightarrow> Return (Inr None)
     | Some (Pointer u) \<Rightarrow> Return (Inr (Some u))
     | Some _ \<Rightarrow> Return (Inl Credential_without_uid))"

definition ddb_put_credential_meta :: "string \<Rightarrow> string \<Rightarrow> string \<Rightarrow> go_time \<Rightarrow> (ddb_error + unit) prog" where
  "ddb_put_credential_meta uid cid name created =
     put_item (user_pk uid, cred_meta_sk cid) (Cred_meta name created) Always Request_failed"

definition ddb_credential_metas :: "nat \<Rightarrow> string \<Rightarrow> (ddb_error + (string \<times> string \<times> go_time) list) prog" where
  "ddb_credential_metas pages uid = on_ok (query_all pages (user_pk uid) cred_meta_prefix None []) (\<lambda>rows.
     Return (Inr (List.map_filter (\<lambda>(sk, i). case i of
       Cred_meta name created \<Rightarrow> Some (drop (length cred_meta_prefix) sk, name, created) | _ \<Rightarrow> None) rows)))"

section \<open>Push devices\<close>

definition ddb_push_devices :: "nat \<Rightarrow> string \<Rightarrow> (ddb_error + push_device list) prog" where
  "ddb_push_devices pages uid = on_ok (query_all pages (user_pk uid) push_device_prefix None []) (\<lambda>rows.
     Return (Inr (List.map_filter (\<lambda>(_, i). case i of Device d \<Rightarrow> Some d | _ \<Rightarrow> None) rows)))"

text \<open>The caller's own devices with the token: the first lends its id, the others are deleted.\<close>

fun heal_devices :: "string \<Rightarrow> push_device list \<Rightarrow> push_device \<Rightarrow> (ddb_error + push_device) prog" where
  "heal_devices uid [] d = Return (Inr d)"
| "heal_devices uid (e # es) d =
     (if pd_Token e \<noteq> pd_Token d then heal_devices uid es d
      else if pd_ID d = [] then heal_devices uid es (d\<lparr>pd_ID := pd_ID e, pd_CreatedAt := pd_CreatedAt e\<rparr>)
      else on_ok (delete_item (user_pk uid, push_device_sk (pd_ID e))) (\<lambda>_. heal_devices uid es d))"

definition steal_token :: "string \<Rightarrow> ddb_item option \<Rightarrow> (ddb_error + unit) prog" where
  "steal_token uid got =
     (case got of
        None \<Rightarrow> Return (Inr ())
      | Some i \<Rightarrow>
          if uid_attr i \<noteq> [] \<and> uid_attr i \<noteq> uid
          then delete_item (user_pk (uid_attr i), push_device_sk (case i of Token_pointer _ dev \<Rightarrow> dev | _ \<Rightarrow> []))
          else Return (Inr ()))"

definition ddb_put_push_device ::
  "nat \<Rightarrow> string \<Rightarrow> string \<Rightarrow> push_device \<Rightarrow> (ddb_error + push_device) prog" where
  "ddb_put_push_device pages newID uid d =
     on_ok (ddb_push_devices pages uid) (\<lambda>existing.
     on_ok (heal_devices uid existing d) (\<lambda>d1.
     on_ok (get_item (push_token_pk (pd_Token d1), pointer_sk)) (\<lambda>got.
     on_ok (steal_token uid got) (\<lambda>_.
     let d2 = (if pd_ID d1 = [] then d1\<lparr>pd_ID := newID\<rparr> else d1) in
     on_ok (put_item (user_pk uid, push_device_sk (pd_ID d2)) (Device d2) Always Request_failed) (\<lambda>_.
     on_ok (put_item (push_token_pk (pd_Token d2), pointer_sk) (Token_pointer uid (pd_ID d2)) Always Request_failed) (\<lambda>_.
     Return (Inr d2)))))))"

definition release_push_token :: "string \<Rightarrow> string \<Rightarrow> (ddb_error + unit) prog" where
  "release_push_token tok uid =
     (if tok = [] then Return (Inr ())
      else on_ok (get_item (push_token_pk tok, pointer_sk)) (\<lambda>got. case got of
          None \<Rightarrow> Return (Inr ())
        | Some i \<Rightarrow> if uid_attr i \<noteq> uid then Return (Inr ()) else delete_item (push_token_pk tok, pointer_sk)))"

definition token_attr :: "ddb_item \<Rightarrow> string" where
  "token_attr i = (case i of Device d \<Rightarrow> pd_Token d | _ \<Rightarrow> [])"

definition ddb_delete_push_device :: "string \<Rightarrow> string \<Rightarrow> (ddb_error + unit) prog" where
  "ddb_delete_push_device uid dev =
     on_ok (get_item (user_pk uid, push_device_sk dev)) (\<lambda>got. case got of
       None \<Rightarrow> Return (Inr ())
     | Some i \<Rightarrow> on_ok (delete_item (user_pk uid, push_device_sk dev)) (\<lambda>_. release_push_token (token_attr i) uid))"

section \<open>Deleting a user\<close>

fun sweep_rows :: "string \<Rightarrow> (string \<times> ddb_item) list \<Rightarrow> (ddb_error + unit) prog" where
  "sweep_rows uid [] = Return (Inr ())"
| "sweep_rows uid ((sk, i) # rows) =
     on_ok (if has_prefix sk cred_prefix then delete_item (sk, pointer_sk) else Return (Inr ())) (\<lambda>_.
     on_ok (if has_prefix sk push_device_prefix then release_push_token (token_attr i) uid else Return (Inr ())) (\<lambda>_.
     on_ok (delete_item (user_pk uid, sk)) (\<lambda>_. sweep_rows uid rows)))"

primrec sweep_pages :: "nat \<Rightarrow> string \<Rightarrow> string option \<Rightarrow> (ddb_error + unit) prog" where
  "sweep_pages 0 uid start = Return (Inl Too_many_pages)"
| "sweep_pages (Suc n) uid start = Call (Query (user_pk uid) [] start) (\<lambda>x. case x of
       Rows rows lk \<Rightarrow> on_ok (sweep_rows uid rows) (\<lambda>_. case lk of
           None \<Rightarrow> Return (Inr ()) | Some _ \<Rightarrow> sweep_pages n uid lk)
     | _ \<Rightarrow> Return (Inl Request_failed))"

definition release_claim :: "string \<Rightarrow> string \<Rightarrow> (ddb_error + unit) prog" where
  "release_claim uid pk = on_ok (get_item (pk, pointer_sk)) (\<lambda>got. case got of
       None \<Rightarrow> Return (Inr ())
     | Some i \<Rightarrow> if uid_attr i \<noteq> uid then Return (Inr ()) else delete_item (pk, pointer_sk))"

definition ddb_delete_user :: "nat \<Rightarrow> string \<Rightarrow> (ddb_error + unit) prog" where
  "ddb_delete_user pages uid =
     on_ok (ddb_get_user uid) (\<lambda>found.
     on_ok (sweep_pages pages uid None) (\<lambda>_. case found of
       None \<Rightarrow> Return (Inr ())
     | Some u \<Rightarrow>
         on_ok (if us_Email u = [] then Return (Inr ()) else release_claim uid (email_pk (us_Email u))) (\<lambda>_.
         if us_TeamID u = [] then Return (Inr ()) else release_claim uid (team_pk (us_TeamID u)))))"

section \<open>Enrollment links\<close>

definition ddb_create_enrollment :: "string \<Rightarrow> enrollment \<Rightarrow> (ddb_error + unit) prog" where
  "ddb_create_enrollment h e =
     put_item (enroll_pk h, enroll_sk) (Enroll_row e) Absent (Store_refused User_conflict)"

definition ddb_get_enrollment :: "string \<Rightarrow> (ddb_error + enrollment option) prog" where
  "ddb_get_enrollment h = on_ok (get_item (enroll_pk h, enroll_sk)) (\<lambda>i. case i of
       None \<Rightarrow> Return (Inr None) | Some (Enroll_row e) \<Rightarrow> Return (Inr (Some e)) | Some _ \<Rightarrow> Return (Inl Bad_item))"

definition ddb_redeem_enrollment :: "string \<Rightarrow> go_time \<Rightarrow> (ddb_error + enrollment) prog" where
  "ddb_redeem_enrollment h now = on_ok (ddb_get_enrollment h) (\<lambda>found. case found of
       None \<Rightarrow> Return (Inl (Store_refused Enrollment_invalid))
     | Some e \<Rightarrow>
         if redeemed e \<or> expired e now then Return (Inl (Store_refused Enrollment_invalid))
         else on_ok (put_item (enroll_pk h, enroll_sk) (Enroll_row (e\<lparr>en_UsedAt := now\<rparr>)) Unused
                (Store_refused Enrollment_invalid)) (\<lambda>_. Return (Inr (e\<lparr>en_UsedAt := now\<rparr>))))"

section \<open>Connections\<close>

definition ddb_get_connection :: "string \<Rightarrow> (ddb_error + fantrax_connection option) prog" where
  "ddb_get_connection uid = on_ok (get_item (user_pk uid, conn_sk)) (\<lambda>i. case i of
       None \<Rightarrow> Return (Inr None)
     | Some (Fantrax_row c) \<Rightarrow> Return (Inr (Some ((ci_Conn c)\<lparr>fc_Version := conn_version_of c\<rparr>)))
     | Some _ \<Rightarrow> Return (Inl Bad_item))"

definition conn_cond :: "conn_version \<Rightarrow> ddb_cond" where
  "conn_cond v = (case v of V_none \<Rightarrow> Absent | V_num cur \<Rightarrow> if v = conn_unversioned then Unversioned else Ver_is cur)"

definition ddb_put_connection :: "go_time \<Rightarrow> fantrax_connection \<Rightarrow> (ddb_error + fantrax_connection) prog" where
  "ddb_put_connection now c =
     (if fc_UserID c = [] then Return (Inl No_connection_user)
      else (let c1 = c\<lparr>fc_UpdatedAt := now\<rparr>; nxt = next_version (fc_Version c) in
        on_ok (put_item (user_pk (fc_UserID c), conn_sk)
                 (Fantrax_row \<lparr>ci_Conn = c1\<lparr>fc_Version := V_none\<rparr>, ci_Ver = Some nxt\<rparr>)
                 (conn_cond (fc_Version c)) Conflict_on_connection)
          (\<lambda>_. Return (Inr (c1\<lparr>fc_Version := V_num nxt\<rparr>)))))"

end
