(* ===== verification/DDB_Races.thy ===== *)
theory DDB_Races
  imports DDB_Users
begin

text \<open>
  All operations of the DynamoDB user store at once, interleaved request by request, with requests
  that fail, answers that get lost and callers that die between two requests. The state is the
  table and the programs at work. The lemmas use the locale \<open>interference\<close> twice: with the
  profiles and claims as the shared part, which gives one manager for a team and one user for an
  email address, and with the enrollment rows, which gives single use of a link. A deletion of a
  user is taken to run while nobody else writes that user's profile; the code accepts that window.
\<close>

section \<open>Operations\<close>

text \<open>The changes that handlers make to a profile: \<open>handleSetTenantStatus\<close>,
  \<open>handleSetTenantAutoApply\<close>, \<open>handleSetPreferences\<close>, the revocation of a passkey, and the closures of
  \<open>handleAddMembership\<close> and \<open>handleDeleteMembership\<close>.\<close>

datatype mutation =
    Set_status string
  | Set_auto_apply bool
  | Set_preferences "bool option" "string option" "string option"
  | Bump_token_version
  | Add_membership string string string go_time
  | Remove_membership string string

definition max_memberships :: nat where "max_memberships = 50"
definition platform_sleeper :: string where "platform_sleeper = ''sleeper''"

definition or_keep :: "'a option \<Rightarrow> 'a \<Rightarrow> 'a" where
  "or_keep new old = (case new of None \<Rightarrow> old | Some x \<Rightarrow> x)"

definition same_league :: "string \<Rightarrow> string \<Rightarrow> membership \<Rightarrow> bool" where
  "same_league platform league m \<longleftrightarrow> mb_Platform m = platform \<and> mb_LeagueID m = league"

definition set_preferences :: "bool option \<Rightarrow> string option \<Rightarrow> string option \<Rightarrow> user \<Rightarrow> user" where
  "set_preferences auto hit pit u =
     u\<lparr>us_AutoApply := or_keep auto (us_AutoApply u),
       us_HitterProjection := or_keep hit (us_HitterProjection u),
       us_PitcherProjection := or_keep pit (us_PitcherProjection u)\<rparr>"

definition add_membership :: "string \<Rightarrow> string \<Rightarrow> string \<Rightarrow> go_time \<Rightarrow> user \<Rightarrow> ddb_error + user" where
  "add_membership league team name now u =
     (if list_ex (same_league platform_sleeper league) (us_Memberships u) then Inl (Mutation_refused ''duplicate'')
      else if length (us_Memberships u) \<ge> max_memberships then Inl (Mutation_refused ''too many'')
      else Inr (u\<lparr>us_Memberships := us_Memberships u @
             [\<lparr>mb_Platform = platform_sleeper, mb_LeagueID = league, mb_TeamID = team, mb_DisplayName = name,
               mb_Writable = False, mb_AddedAt = now\<rparr>]\<rparr>))"

definition remove_membership :: "string \<Rightarrow> string \<Rightarrow> user \<Rightarrow> ddb_error + user" where
  "remove_membership platform league u =
     (if \<not> list_ex (same_league platform league) (us_Memberships u) then Inl (Mutation_refused ''nothing removed'')
      else Inr (u\<lparr>us_Memberships := filter (\<lambda>m. \<not> same_league platform league m) (us_Memberships u)\<rparr>))"

fun apply_mutation :: "mutation \<Rightarrow> user \<Rightarrow> ddb_error + user" where
  "apply_mutation (Set_status st) u = Inr (u\<lparr>us_Status := st\<rparr>)"
| "apply_mutation (Set_auto_apply b) u = Inr (u\<lparr>us_AutoApply := b\<rparr>)"
| "apply_mutation (Set_preferences auto hit pit) u = Inr (set_preferences auto hit pit u)"
| "apply_mutation Bump_token_version u = Inr (u\<lparr>us_TokenVersion := us_TokenVersion u + 1\<rparr>)"
| "apply_mutation (Add_membership league team name now) u = add_membership league team name now u"
| "apply_mutation (Remove_membership platform league) u = remove_membership platform league u"

lemmas mutation_defs = set_preferences_def add_membership_def remove_membership_def

text \<open>The handlers that do not retry write once.\<close>

definition mutation_attempts :: "mutation \<Rightarrow> nat" where
  "mutation_attempts m = (case m of Set_preferences _ _ _ \<Rightarrow> 1 | Bump_token_version \<Rightarrow> 1 | _ \<Rightarrow> 5)"

datatype operation =
    Op_create user
  | Op_mutate string mutation
  | Op_claim string string
  | Op_set_team string string
  | Op_delete string
  | Op_put_credential string string string
  | Op_delete_credential string string
  | Op_put_meta string string string go_time
  | Op_register string string push_device
  | Op_revoke string string
  | Op_mint string enrollment
  | Op_redeem string go_time
  | Op_put_connection go_time fantrax_connection

definition no_value :: "('e + 'a) prog \<Rightarrow> ('e + unit) prog" where
  "no_value p = on_ok p (\<lambda>_. Return (Inr ()))"

fun program :: "nat \<Rightarrow> operation \<Rightarrow> (ddb_error + unit) prog" where
  "program pages (Op_create u) = no_value (ddb_create_user u)"
| "program pages (Op_mutate uid m) = no_value (mutate_loop (mutation_attempts m) No_such_user uid (apply_mutation m))"
| "program pages (Op_claim uid team) = ddb_claim_team uid team"
| "program pages (Op_set_team uid team) = ddb_set_team uid team"
| "program pages (Op_delete uid) = ddb_delete_user pages uid"
| "program pages (Op_put_credential uid cid c) = ddb_put_credential uid cid c"
| "program pages (Op_delete_credential uid cid) = ddb_delete_credential uid cid"
| "program pages (Op_put_meta uid cid name created) = ddb_put_credential_meta uid cid name created"
| "program pages (Op_register newID uid d) = no_value (ddb_put_push_device pages newID uid d)"
| "program pages (Op_revoke uid dev) = ddb_delete_push_device uid dev"
| "program pages (Op_mint h e) = ddb_create_enrollment h e"
| "program pages (Op_redeem h now) = no_value (ddb_redeem_enrollment h now)"
| "program pages (Op_put_connection now c) = no_value (ddb_put_connection now c)"

text \<open>Whose profile and claims an operation may write.\<close>

fun writes_profile_of :: "operation \<Rightarrow> string option" where
  "writes_profile_of (Op_create u) = Some (us_ID u)"
| "writes_profile_of (Op_mutate uid _) = Some uid"
| "writes_profile_of (Op_claim uid _) = Some uid"
| "writes_profile_of (Op_set_team uid _) = Some uid"
| "writes_profile_of (Op_delete uid) = Some uid"
| "writes_profile_of _ = None"

fun exclusive :: "operation \<Rightarrow> bool" where
  "exclusive (Op_delete _) = True"
| "exclusive _ = False"

definition may_overlap :: "operation \<Rightarrow> operation \<Rightarrow> bool" where
  "may_overlap o1 o2 \<longleftrightarrow>
     writes_profile_of o1 = None \<or> writes_profile_of o1 \<noteq> writes_profile_of o2 \<or> \<not> exclusive o1 \<and> \<not> exclusive o2"

section \<open>The system\<close>

record directory =
  dy_table :: ddb_table
  dy_ops :: "(operation \<times> (ddb_error + unit) prog) list"

definition ended :: "'r prog \<Rightarrow> bool" where
  "ended p = (case p of Return _ \<Rightarrow> True | Call _ _ \<Rightarrow> False)"

text \<open>The clock never reads the zero time.\<close>

fun clock_ok :: "operation \<Rightarrow> bool" where
  "clock_ok (Op_redeem _ now) = (now \<noteq> 0)"
| "clock_ok _ = True"

inductive directory_step :: "nat \<Rightarrow> nat \<Rightarrow> directory \<Rightarrow> directory \<Rightarrow> bool" for pg pages where
  launch: "clock_ok oper \<Longrightarrow> list_all (\<lambda>(other, p). ended p \<or> may_overlap oper other) ops \<Longrightarrow>
    directory_step pg pages \<lparr>dy_table = T, dy_ops = ops\<rparr> \<lparr>dy_table = T, dy_ops = ops @ [(oper, program pages oper)]\<rparr>"
| request: "i < length ops \<Longrightarrow> ops ! i = (oper, Call rq k) \<Longrightarrow> (x, T') \<in> set (outcomes (Suc pg) rq T) \<Longrightarrow>
    directory_step pg pages \<lparr>dy_table = T, dy_ops = ops\<rparr> \<lparr>dy_table = T', dy_ops = ops[i := (oper, k x)]\<rparr>"
| crash: "i < length ops \<Longrightarrow> ops ! i = (oper, Call rq k) \<Longrightarrow>
    directory_step pg pages \<lparr>dy_table = T, dy_ops = ops\<rparr> \<lparr>dy_table = T, dy_ops = ops[i := (oper, Return (Inl Crashed))]\<rparr>"

inductive directory_reachable :: "nat \<Rightarrow> nat \<Rightarrow> directory \<Rightarrow> bool" for pg pages where
  start: "directory_reachable pg pages \<lparr>dy_table = [], dy_ops = []\<rparr>"
| step: "directory_reachable pg pages S \<Longrightarrow> directory_step pg pages S S' \<Longrightarrow> directory_reachable pg pages S'"

inductive_cases directory_stepE: "directory_step pg pages S S'"

section \<open>Keys do not collide\<close>

lemma user_pk_inj [simp]: "user_pk u = user_pk w \<longleftrightarrow> u = w"
  by (simp add: user_pk_def)

lemma team_pk_inj [simp]: "team_pk u = team_pk w \<longleftrightarrow> u = w"
  by (simp add: team_pk_def)

lemma email_pk_eq [simp]: "email_pk u = email_pk w \<longleftrightarrow> to_lower u = to_lower w"
  by (simp add: email_pk_def)

lemma enroll_pk_inj [simp]: "enroll_pk u = enroll_pk w \<longleftrightarrow> u = w"
  by (simp add: enroll_pk_def)

lemma pk_distinct [simp]:
  "user_pk a \<noteq> email_pk b" "email_pk b \<noteq> user_pk a" "user_pk a \<noteq> team_pk b" "team_pk b \<noteq> user_pk a"
  "user_pk a \<noteq> cred_key b" "cred_key b \<noteq> user_pk a" "user_pk a \<noteq> enroll_pk b" "enroll_pk b \<noteq> user_pk a"
  "user_pk a \<noteq> push_token_pk b" "push_token_pk b \<noteq> user_pk a" "email_pk a \<noteq> team_pk b" "team_pk b \<noteq> email_pk a"
  "email_pk a \<noteq> cred_key b" "cred_key b \<noteq> email_pk a" "email_pk a \<noteq> enroll_pk b" "enroll_pk b \<noteq> email_pk a"
  "email_pk a \<noteq> push_token_pk b" "push_token_pk b \<noteq> email_pk a" "team_pk a \<noteq> cred_key b" "cred_key b \<noteq> team_pk a"
  "team_pk a \<noteq> enroll_pk b" "enroll_pk b \<noteq> team_pk a" "team_pk a \<noteq> push_token_pk b" "push_token_pk b \<noteq> team_pk a"
  "enroll_pk a \<noteq> cred_key b" "cred_key b \<noteq> enroll_pk a" "enroll_pk a \<noteq> push_token_pk b" "push_token_pk b \<noteq> enroll_pk a"
  by (simp_all add: user_pk_def email_pk_def team_pk_def cred_key_def cred_prefix_def enroll_pk_def push_token_pk_def)

lemma sk_distinct [simp]:
  "profile_sk \<noteq> pointer_sk" "pointer_sk \<noteq> profile_sk" "profile_sk \<noteq> enroll_sk" "enroll_sk \<noteq> profile_sk"
  "pointer_sk \<noteq> enroll_sk" "enroll_sk \<noteq> pointer_sk" "profile_sk \<noteq> conn_sk" "conn_sk \<noteq> profile_sk"
  "profile_sk \<noteq> cred_key a" "cred_key a \<noteq> profile_sk" "profile_sk \<noteq> cred_meta_sk a" "cred_meta_sk a \<noteq> profile_sk"
  "profile_sk \<noteq> push_device_sk a" "push_device_sk a \<noteq> profile_sk"
  by (simp_all add: profile_sk_def pointer_sk_def enroll_sk_def conn_sk_def cred_key_def cred_prefix_def
      cred_meta_sk_def cred_meta_prefix_def push_device_sk_def push_device_prefix_def)

lemma prefix_no_claim: "has_prefix sk cred_prefix \<Longrightarrow> sk \<noteq> email_pk e \<and> sk \<noteq> team_pk t \<and> sk \<noteq> user_pk u"
  by (auto simp: has_prefix_iff cred_prefix_def email_pk_def team_pk_def user_pk_def)

section \<open>Safety of single requests\<close>

lemma safe_request:
  assumes "\<And>s. guar s s"
    and "\<And>s1. rely s s1 \<Longrightarrow> good s1 \<Longrightarrow> good (snd (exec pg rq s1)) \<and> guar s1 (snd (exec pg rq s1)) \<and>
      safe (outcomes pg) good rely guar (k (fst (exec pg rq s1))) (snd (exec pg rq s1)) \<and>
      safe (outcomes pg) good rely guar (k Failed) s1 \<and>
      safe (outcomes pg) good rely guar (k Failed) (snd (exec pg rq s1))"
  shows "safe (outcomes pg) good rely guar (Call rq k) s"
proof (unfold safe.simps, intro allI impI)
  fix s1 assume "rely s s1" "good s1"
  with assms(2) [OF this] show "\<forall>(x, s2) \<in> set (outcomes pg rq s1). good s2 \<and> guar s1 s2 \<and>
      safe (outcomes pg) good rely guar (k x) s2"
    using assms(1) by (simp add: outcomes_def prod.case_eq_if)
qed

lemma safe_get:
  assumes "\<And>s. guar s s"
    and "\<And>s1. rely s s1 \<Longrightarrow> good s1 \<Longrightarrow> safe (outcomes pg) good rely guar (f (Inr (map_of s1 k))) s1"
    and "\<And>s1. safe (outcomes pg) good rely guar (f (Inl Request_failed)) s1"
  shows "safe (outcomes pg) good rely guar (and_then (get_item k) f) s"
  unfolding get_item_def and_then.simps using assms by (intro safe_request) simp_all

lemma safe_put:
  assumes "\<And>s. guar s s"
    and "\<And>s1. rely s s1 \<Longrightarrow> good s1 \<Longrightarrow> cond_holds c (map_of s1 k) \<Longrightarrow>
      good (AList.update k i s1) \<and> guar s1 (AList.update k i s1) \<and>
      safe (outcomes pg) good rely guar (f (Inr ())) (AList.update k i s1)"
    and "\<And>s1. rely s s1 \<Longrightarrow> good s1 \<Longrightarrow> safe (outcomes pg) good rely guar (f (Inl e)) s1"
    and "\<And>s1. safe (outcomes pg) good rely guar (f (Inl Request_failed)) s1"
  shows "safe (outcomes pg) good rely guar (and_then (put_item k i c e) f) s"
  unfolding put_item_def and_then.simps using assms by (intro safe_request) simp_all

lemma safe_delete:
  assumes "\<And>s. guar s s"
    and "\<And>s1. rely s s1 \<Longrightarrow> good s1 \<Longrightarrow> good (AList.delete k s1) \<and> guar s1 (AList.delete k s1) \<and>
      safe (outcomes pg) good rely guar (f (Inr ())) (AList.delete k s1)"
    and "\<And>s1. safe (outcomes pg) good rely guar (f (Inl Request_failed)) s1"
  shows "safe (outcomes pg) good rely guar (and_then (delete_item k) f) s"
  unfolding delete_item_def and_then.simps using assms by (intro safe_request) simp_all

lemma and_then_assoc: "and_then (and_then p f) g = and_then p (\<lambda>x. and_then (f x) g)"
  by (induction p) simp_all

lemma on_ok_as_then: "on_ok p f = and_then p (\<lambda>r. case r of Inr a \<Rightarrow> f a | Inl e \<Rightarrow> Return (Inl e))"
  by (simp add: on_ok_def)

lemma on_ok_then:
  "and_then (on_ok p f) g = and_then p (\<lambda>r. case r of Inl e \<Rightarrow> g (Inl e) | Inr a \<Rightarrow> and_then (f a) g)"
  unfolding on_ok_def and_then_assoc by (intro arg_cong [where f = "and_then p"] ext) (simp split: sum.split)

lemma on_ok_assoc: "on_ok (on_ok p f) g = on_ok p (\<lambda>a. on_ok (f a) g)"
proof (induction p)
  case (Return r)
  then show ?case by (cases r) simp_all
qed simp

section \<open>Programs that leave some keys alone\<close>

fun quiet_request :: "(ddb_key \<Rightarrow> bool) \<Rightarrow> request \<Rightarrow> bool" where
  "quiet_request P (Put_item k _ _) = (\<not> P k)"
| "quiet_request P (Delete_item k) = (\<not> P k)"
| "quiet_request P (Transact ws) = list_all (\<lambda>(k, _). \<not> P k) ws"
| "quiet_request P _ = True"

primrec quiet :: "(ddb_key \<Rightarrow> bool) \<Rightarrow> 'r prog \<Rightarrow> bool" where
  "quiet P (Return r) = True"
| "quiet P (Call rq k) = (quiet_request P rq \<and> (\<forall>x. quiet P (k x)))"

lemma quiet_and_then: "quiet P p \<Longrightarrow> (\<And>r. quiet P (f r)) \<Longrightarrow> quiet P (and_then p f)"
  by (induction p) auto

lemma quiet_on_ok [intro]: "quiet P p \<Longrightarrow> (\<And>r. quiet P (f r)) \<Longrightarrow> quiet P (on_ok p f)"
  unfolding on_ok_def by (rule quiet_and_then) (auto split: sum.split)

lemma quiet_items [simp]:
  "quiet P (get_item k)" "quiet P (put_item k i c e) = (\<not> P k)" "quiet P (delete_item k) = (\<not> P k)"
  by (auto simp: get_item_def put_item_def delete_item_def split: response.split)

lemma quiet_exec: "quiet_request P rq \<Longrightarrow> P k \<Longrightarrow> map_of (snd (exec pg rq T)) k = map_of T k"
proof (cases rq)
  case (Transact ws)
  assume q: "quiet_request P rq" "P k"
  have "map_of (fold (\<lambda>(k, i, _). AList.update k i) ws T) k = map_of T k" if "list_all (\<lambda>(k, _). \<not> P k) ws" for ws
    using that q(2) by (induction ws arbitrary: T) (auto simp: update_conv')
  with q show ?thesis by (auto simp: Transact Let_def)
qed (auto simp: update_conv' delete_conv' Let_def)

lemma exec_distinct: "distinct (map fst T) \<Longrightarrow> distinct (map fst (snd (exec pg rq T)))"
proof (cases rq)
  case (Transact ws)
  assume d: "distinct (map fst T)"
  have "distinct (map fst (fold (\<lambda>(k, i, _). AList.update k i) ws T))"
    using d by (induction ws arbitrary: T) (auto simp: distinct_update)
  with d show ?thesis by (auto simp: Transact Let_def)
qed (auto simp: distinct_update distinct_delete Let_def)

text \<open>A program that leaves the keys \<open>P\<close> alone is safe wherever both the invariant and the guarantee
  only speak of those keys.\<close>

lemma quiet_safe:
  assumes "\<And>T T'. good T \<Longrightarrow> (\<And>k. P k \<Longrightarrow> map_of T' k = map_of T k) \<Longrightarrow> good T'"
    and "\<And>T T'. (\<And>k. P k \<Longrightarrow> map_of T' k = map_of T k) \<Longrightarrow> guar T T'"
  shows "quiet P p \<Longrightarrow> safe (outcomes pg) good rely guar p T"
proof (induction p arbitrary: T)
  case (Call rq k)
  have "good (snd (exec pg rq s)) \<and> guar s (snd (exec pg rq s))" if "good s" for s
    using assms quiet_exec [of P rq] Call.prems that by fastforce
  with Call show ?case by (intro safe_request) (auto intro: assms(2))
qed simp

section \<open>Profiles and claims under interference\<close>

definition profile_key :: "string \<Rightarrow> ddb_key" where
  "profile_key uid = (user_pk uid, profile_sk)"

definition claim_key :: "ddb_key \<Rightarrow> bool" where
  "claim_key k \<longleftrightarrow> (\<exists>e. k = (email_pk e, pointer_sk)) \<or> (\<exists>t. k = (team_pk t, pointer_sk))"

definition directory_key :: "ddb_key \<Rightarrow> bool" where
  "directory_key k \<longleftrightarrow> claim_key k \<or> (\<exists>uid. k = profile_key uid)"

definition claims_held :: "ddb_table \<Rightarrow> string \<Rightarrow> user \<Rightarrow> bool" where
  "claims_held T uid u \<longleftrightarrow>
     (us_Email u \<noteq> [] \<longrightarrow> map_of T (email_pk (us_Email u), pointer_sk) = Some (Pointer uid)) \<and>
     (us_TeamID u \<noteq> [] \<longrightarrow> map_of T (team_pk (us_TeamID u), pointer_sk) = Some (Pointer uid))"

text \<open>Every profile lies under its id and holds the claims to its email address and its team; a
  claim names a user.\<close>

definition profiles_hold :: "ddb_table \<Rightarrow> bool" where
  "profiles_hold T \<longleftrightarrow>
     (\<forall>uid i. map_of T (profile_key uid) = Some i \<longrightarrow>
        (\<exists>u v. i = Profile u v \<and> us_ID u = uid \<and> claims_held T uid u))"

definition claims_typed :: "ddb_table \<Rightarrow> bool" where
  "claims_typed T \<longleftrightarrow> (\<forall>k i. claim_key k \<longrightarrow> map_of T k = Some i \<longrightarrow> (\<exists>uid. i = Pointer uid))"

definition directory_good :: "ddb_table \<Rightarrow> bool" where
  "directory_good T \<longleftrightarrow> profiles_hold T \<and> claims_typed T"

text \<open>Nothing of this user changed; or only upwards: claims kept, a changed profile at a higher version.\<close>

definition untouched :: "string \<Rightarrow> ddb_table \<Rightarrow> ddb_table \<Rightarrow> bool" where
  "untouched uid T T' \<longleftrightarrow>
     map_of T' (profile_key uid) = map_of T (profile_key uid) \<and>
     (\<forall>k. claim_key k \<longrightarrow> (map_of T' k = Some (Pointer uid) \<longleftrightarrow> map_of T k = Some (Pointer uid)))"

definition advanced :: "string \<Rightarrow> ddb_table \<Rightarrow> ddb_table \<Rightarrow> bool" where
  "advanced uid T T' \<longleftrightarrow>
     (\<forall>k. claim_key k \<longrightarrow> map_of T k = Some (Pointer uid) \<longrightarrow> map_of T' k = Some (Pointer uid)) \<and>
     (\<forall>u v. map_of T (profile_key uid) = Some (Profile u v) \<longrightarrow>
        (\<exists>u' v'. map_of T' (profile_key uid) = Some (Profile u' v') \<and> (v < v' \<or> u' = u \<and> v' = v)))"

definition directory_rely :: "operation \<Rightarrow> ddb_table \<Rightarrow> ddb_table \<Rightarrow> bool" where
  "directory_rely oper T T' =
     (case writes_profile_of oper of
        None \<Rightarrow> True
      | Some uid \<Rightarrow> if exclusive oper then untouched uid T T' else advanced uid T T')"

definition directory_guar :: "operation \<Rightarrow> ddb_table \<Rightarrow> ddb_table \<Rightarrow> bool" where
  "directory_guar oper T T' \<longleftrightarrow>
     (\<forall>w. writes_profile_of oper \<noteq> Some w \<longrightarrow> untouched w T T') \<and>
     (\<forall>w. writes_profile_of oper = Some w \<longrightarrow> \<not> exclusive oper \<longrightarrow> advanced w T T')"

lemma untouched_refl [simp]: "untouched uid T T"
  by (simp add: untouched_def)

lemma untouched_trans: "untouched uid T T' \<Longrightarrow> untouched uid T' T'' \<Longrightarrow> untouched uid T T''"
  by (simp add: untouched_def)

lemma advanced_refl [simp]: "advanced uid T T"
  by (simp add: advanced_def)

lemma advanced_trans:
  assumes "advanced uid T T'" and "advanced uid T' T''"
  shows "advanced uid T T''"
proof -
  have "\<exists>u' v'. map_of T'' (profile_key uid) = Some (Profile u' v') \<and> (v < v' \<or> u' = u \<and> v' = v)"
    if p: "map_of T (profile_key uid) = Some (Profile u v)" for u v
  proof -
    obtain u1 v1 where 1: "map_of T' (profile_key uid) = Some (Profile u1 v1)" "v < v1 \<or> u1 = u \<and> v1 = v"
      using assms(1) p by (auto simp: advanced_def)
    then obtain u2 v2 where "map_of T'' (profile_key uid) = Some (Profile u2 v2)" "v1 < v2 \<or> u2 = u1 \<and> v2 = v1"
      using assms(2) by (auto simp: advanced_def)
    with 1(2) show ?thesis by force
  qed
  with assms show ?thesis by (simp add: advanced_def)
qed

lemma untouched_advanced: "untouched uid T T' \<Longrightarrow> advanced uid T T'"
  by (simp add: untouched_def advanced_def)

lemma directory_guar_refl [simp]: "directory_guar oper T T"
  by (simp add: directory_guar_def)

interpretation profiles: interference "outcomes pg" directory_good directory_rely directory_guar may_overlap for pg
proof
  show "directory_rely c s s" for c s by (simp add: directory_rely_def split: option.split)
  show "directory_rely c s u" if "directory_rely c s t" "directory_rely c t u" for c s t u
    using that untouched_trans [of _ s t u] advanced_trans [of _ s t u]
    by (auto simp: directory_rely_def split: option.splits if_splits)
  show "directory_rely d s t" if "may_overlap c d" "directory_guar c s t" for c d s t
  proof (cases "writes_profile_of d")
    case (Some uid)
    show ?thesis
    proof (cases "writes_profile_of c = Some uid")
      case True
      with Some that(1) have "\<not> exclusive c" "\<not> exclusive d" by (auto simp: may_overlap_def)
      with True Some that(2) show ?thesis by (simp add: directory_rely_def directory_guar_def)
    next
      case False
      then have "untouched uid s t" using that(2) by (simp add: directory_guar_def)
      then show ?thesis using untouched_advanced by (simp add: directory_rely_def Some)
    qed
  qed (simp add: directory_rely_def)
  show "may_overlap d c" if "may_overlap c d" for c d
    using that by (cases "writes_profile_of d") (auto simp: may_overlap_def)
qed

lemma directory_keyI [simp]: "directory_key (profile_key uid)" "claim_key k \<Longrightarrow> directory_key k"
  by (auto simp: directory_key_def)

lemma claim_keyI [simp]: "claim_key (email_pk e, pointer_sk)" "claim_key (team_pk e, pointer_sk)"
  by (auto simp: claim_key_def)

lemma directory_good_cong:
  assumes "directory_good T" and "\<And>k. directory_key k \<Longrightarrow> map_of T' k = map_of T k"
  shows "directory_good T'"
proof -
  have "map_of T' (profile_key uid) = map_of T (profile_key uid)" for uid
    by (intro assms(2)) simp
  moreover have "map_of T' (email_pk e, pointer_sk) = map_of T (email_pk e, pointer_sk)"
    "map_of T' (team_pk e, pointer_sk) = map_of T (team_pk e, pointer_sk)" for e
    by (intro assms(2); simp)+
  ultimately have "profiles_hold T'" using assms(1) unfolding directory_good_def profiles_hold_def claims_held_def by simp
  moreover have "claims_typed T'" using assms unfolding directory_good_def claims_typed_def by (metis directory_keyI(2))
  ultimately show ?thesis by (simp add: directory_good_def)
qed

lemma directory_quiet_safe:
  assumes "quiet directory_key p"
  shows "safe (outcomes pg) directory_good (directory_rely oper) (directory_guar oper) p T"
proof (rule quiet_safe [OF _ _ assms])
  fix T T' :: ddb_table
  assume "directory_good T" "\<And>k. directory_key k \<Longrightarrow> map_of T' k = map_of T k"
  then show "directory_good T'" by (rule directory_good_cong)
next
  fix T T' :: ddb_table
  assume *: "\<And>k. directory_key k \<Longrightarrow> map_of T' k = map_of T k"
  have "untouched w T T'" for w unfolding untouched_def using * directory_keyI by metis
  then show "directory_guar oper T T'" using untouched_advanced by (simp add: directory_guar_def)
qed

lemma profile_key_apart [simp]:
  "\<not> claim_key (profile_key uid)" "profile_key u = profile_key w \<longleftrightarrow> u = w"
  by (auto simp: claim_key_def profile_key_def)

lemma claims_held_mono: "claims_held T uid u \<Longrightarrow> (\<And>k. claim_key k \<Longrightarrow> map_of T k = Some (Pointer uid) \<Longrightarrow> map_of T' k = Some (Pointer uid)) \<Longrightarrow> claims_held T' uid u"
  by (simp add: claims_held_def)

lemma claims_held_version [simp]: "claims_held T uid (u\<lparr>us_Version := v\<rparr>) = claims_held T uid u"
  by (simp add: claims_held_def)

lemma directory_goodD:
  assumes "directory_good T" and "map_of T (profile_key uid) = Some (Profile u v)"
  shows "us_ID u = uid" "claims_held T uid u"
  using assms by (auto simp: directory_good_def profiles_hold_def)

text \<open>Three kinds of write: a claim nobody else holds, a profile whose claims are held, and both at once.\<close>

lemma write_claim:
  assumes "directory_good T" and "claim_key k" and "\<And>w. map_of T k = Some (Pointer w) \<Longrightarrow> w = uid"
  shows "directory_good (AList.update k (Pointer uid) T)"
    and "w \<noteq> uid \<Longrightarrow> untouched w T (AList.update k (Pointer uid) T)"
    and "advanced uid T (AList.update k (Pointer uid) T)"
proof -
  have ne: "k \<noteq> profile_key w" for w using assms(2) profile_key_apart by blast
  have keep: "map_of (AList.update k (Pointer uid) T) c = Some (Pointer w)" if "map_of T c = Some (Pointer w)" for c w
    using that assms(3) by (auto simp: update_conv')
  show "directory_good (AList.update k (Pointer uid) T)"
    unfolding directory_good_def
  proof
    show "profiles_hold (AList.update k (Pointer uid) T)"
      using assms(1) ne [symmetric] claims_held_mono [OF _ keep] unfolding directory_good_def profiles_hold_def
      by (simp add: update_conv') blast
    show "claims_typed (AList.update k (Pointer uid) T)"
      using assms(1) unfolding directory_good_def claims_typed_def by (simp add: update_conv')
  qed
  show "untouched w T (AList.update k (Pointer uid) T)" if "w \<noteq> uid"
    using that assms(3) ne [symmetric] by (auto simp: untouched_def update_conv')
  show "advanced uid T (AList.update k (Pointer uid) T)"
    using keep ne [symmetric] by (auto simp: advanced_def update_conv')
qed

lemma write_profile_row:
  assumes "directory_good T" and "us_ID u = uid" and "claims_held T uid u"
  shows "directory_good (AList.update (profile_key uid) (user_item u v) T)"
    and "w \<noteq> uid \<Longrightarrow> untouched w T (AList.update (profile_key uid) (user_item u v) T)"
proof -
  let ?T' = "AList.update (profile_key uid) (user_item u v) T"
  have keep: "map_of ?T' c = map_of T c" if "claim_key c" for c using that by (auto simp: update_conv')
  have "profiles_hold ?T'" unfolding profiles_hold_def
  proof (intro allI impI)
    fix x i assume x: "map_of ?T' (profile_key x) = Some i"
    show "\<exists>u v. i = Profile u v \<and> us_ID u = x \<and> claims_held ?T' x u"
    proof (cases "x = uid")
      case True
      with x have "i = Profile (u\<lparr>us_Version := []\<rparr>) v" by (simp add: update_conv' user_item_def)
      moreover have "claims_held ?T' x u" using assms(3) keep True by (auto intro: claims_held_mono)
      ultimately show ?thesis using assms(2) True by simp
    next
      case False
      with x have "map_of T (profile_key x) = Some i" by (simp add: update_conv')
      with assms(1) obtain p n where "i = Profile p n" "us_ID p = x" "claims_held T x p"
        unfolding directory_good_def profiles_hold_def by blast
      then show ?thesis using keep by (auto intro: claims_held_mono)
    qed
  qed
  moreover have "claims_typed ?T'" using assms(1) keep by (simp add: directory_good_def claims_typed_def)
  ultimately show "directory_good ?T'" by (simp add: directory_good_def)
  show "untouched w T ?T'" if "w \<noteq> uid" using that keep by (auto simp: untouched_def update_conv')
qed

lemma create_effect:
  "map_of (fold (\<lambda>(k, i, _). AList.update k i) (create_writes u) T) =
     (\<lambda>k. if k = profile_key (us_ID u) then Some (user_item u 1)
          else if us_Email u \<noteq> [] \<and> k = (email_pk (us_Email u), pointer_sk) \<or>
            us_TeamID u \<noteq> [] \<and> k = (team_pk (us_TeamID u), pointer_sk) then Some (Pointer (us_ID u))
          else map_of T k)"
  by (auto simp: create_writes_def update_conv' profile_key_def fun_eq_iff)

lemma create_free:
  assumes "\<not> list_ex id (map (\<lambda>(k, _, c). \<not> cond_holds c (map_of T k)) (create_writes u))"
  shows "map_of T (profile_key (us_ID u)) = None"
    "us_Email u \<noteq> [] \<Longrightarrow> map_of T (email_pk (us_Email u), pointer_sk) = None"
    "us_TeamID u \<noteq> [] \<Longrightarrow> map_of T (team_pk (us_TeamID u), pointer_sk) = None"
  using assms by (auto simp: create_writes_def profile_key_def)

lemma create_good:
  assumes "directory_good T" and "\<not> list_ex id (map (\<lambda>(k, _, c). \<not> cond_holds c (map_of T k)) (create_writes u))"
  shows "directory_good (fold (\<lambda>(k, i, _). AList.update k i) (create_writes u) T)"
    and "w \<noteq> us_ID u \<Longrightarrow> untouched w T (fold (\<lambda>(k, i, _). AList.update k i) (create_writes u) T)"
    and "advanced (us_ID u) T (fold (\<lambda>(k, i, _). AList.update k i) (create_writes u) T)"
proof -
  let ?T' = "fold (\<lambda>(k, i, _). AList.update k i) (create_writes u) T"
  note free = create_free [OF assms(2)]
  have keep: "map_of ?T' c = Some (Pointer w)" if "map_of T c = Some (Pointer w)" "claim_key c" for c w
    using that free by (auto simp: create_effect)
  have "profiles_hold ?T'" unfolding profiles_hold_def
  proof (intro allI impI)
    fix x i assume x: "map_of ?T' (profile_key x) = Some i"
    show "\<exists>u v. i = Profile u v \<and> us_ID u = x \<and> claims_held ?T' x u"
    proof (cases "x = us_ID u")
      case True
      with x have "i = Profile (u\<lparr>us_Version := []\<rparr>) 1" by (simp add: create_effect user_item_def)
      moreover have "claims_held ?T' x u" using True by (auto simp: claims_held_def create_effect profile_key_def)
      ultimately show ?thesis using True by simp
    next
      case False
      with x have "map_of T (profile_key x) = Some i" by (auto simp: create_effect profile_key_def split: if_splits)
      with assms(1) obtain p n where "i = Profile p n" "us_ID p = x" "claims_held T x p"
        unfolding directory_good_def profiles_hold_def by blast
      then show ?thesis using keep by (auto intro: claims_held_mono)
    qed
  qed
  moreover have "claims_typed ?T'" using assms(1) profile_key_apart(1)
    by (auto simp: directory_good_def claims_typed_def create_effect split: if_splits)
  ultimately show "directory_good ?T'" by (simp add: directory_good_def)
  have "k \<noteq> profile_key x" if "claim_key k" for k x using that profile_key_apart by blast
  then show "untouched w T ?T'" if "w \<noteq> us_ID u"
    using that free by (auto simp: untouched_def create_effect) (auto simp: profile_key_def)
  show "advanced (us_ID u) T ?T'" using keep free(1) by (auto simp: advanced_def)
qed

section \<open>Every operation is safe\<close>

lemma safe_single:
  assumes "\<And>s. guar s s" and "\<And>s1. good s1 \<Longrightarrow> good (snd (exec pg rq s1)) \<and> guar s1 (snd (exec pg rq s1))"
    and "\<And>x. ended (k x)"
  shows "safe (outcomes pg) good rely guar (Call rq k) s"
proof -
  have "safe (outcomes pg) good rely guar (k x) s" for x s
    using assms(3) [of x] by (cases "k x") (simp_all add: ended_def)
  then show ?thesis using assms(1,2) by (intro safe_request) blast+
qed

lemma create_safe:
  "safe (outcomes pg) directory_good (directory_rely (Op_create u)) (directory_guar (Op_create u)) (program pages (Op_create u)) T"
  unfolding program.simps no_value_def ddb_create_user_def on_ok_simps
proof (rule safe_single)
  fix s assume good: "directory_good s"
  show "directory_good (snd (exec pg (Transact (create_writes u)) s)) \<and>
      directory_guar (Op_create u) s (snd (exec pg (Transact (create_writes u)) s))"
    using create_good [OF good] good
    by (cases "list_ex id (map (\<lambda>(k, _, c). \<not> cond_holds c (map_of s k)) (create_writes u))")
      (simp_all only: exec.simps Let_def if_True if_False snd_conv directory_guar_refl, auto simp: directory_guar_def)
qed (auto simp: ended_def split: response.split)

lemma ended_safe: "ended p \<Longrightarrow> safe out good rely guar p s"
  by (cases p) (simp_all add: ended_def)

text \<open>An accepted write of a profile was made on the profile that was read.\<close>

lemma profile_put_ok:
  assumes "map_of s1 (profile_key uid) = Some (Profile u v)" and "advanced uid s1 s2" and "directory_good s2"
    and "cond_holds (Ver_is v) (map_of s2 (profile_key uid))" and "us_ID u' = uid" and "us_Email u' = us_Email u"
    and "us_TeamID u' = us_TeamID u \<or> us_TeamID u' = [] \<or>
      map_of s2 (team_pk (us_TeamID u'), pointer_sk) = Some (Pointer uid)"
  shows "directory_good (AList.update (profile_key uid) (user_item u' (v + 1)) s2)"
    and "w \<noteq> uid \<Longrightarrow> untouched w s2 (AList.update (profile_key uid) (user_item u' (v + 1)) s2)"
    and "advanced uid s2 (AList.update (profile_key uid) (user_item u' (v + 1)) s2)"
proof -
  obtain u2 v2 where p2: "map_of s2 (profile_key uid) = Some (Profile u2 v2)" "v < v2 \<or> u2 = u \<and> v2 = v"
    using assms(1,2) by (auto simp: advanced_def)
  with assms(4) have same: "map_of s2 (profile_key uid) = Some (Profile u v)" by auto
  then have "claims_held s2 uid u" using assms(3) directory_goodD by blast
  then have held: "claims_held s2 uid u'" using assms(6,7) by (auto simp: claims_held_def)
  show "directory_good (AList.update (profile_key uid) (user_item u' (v + 1)) s2)"
    using write_profile_row(1) [OF assms(3,5) held] .
  show "untouched w s2 (AList.update (profile_key uid) (user_item u' (v + 1)) s2)" if "w \<noteq> uid"
    using write_profile_row(2) [OF assms(3,5) held that] .
  have "map_of (AList.update (profile_key uid) (user_item u' (v + 1)) s2) k = map_of s2 k" if "claim_key k" for k
    using that by (auto simp: update_conv')
  then show "advanced uid s2 (AList.update (profile_key uid) (user_item u' (v + 1)) s2)"
    using same by (simp add: advanced_def update_conv' user_item_def)
qed

lemma mutate_loop_safe:
  assumes oper: "writes_profile_of oper = Some uid" "\<not> exclusive oper"
    and f: "\<And>u u'. f u = Inr u' \<Longrightarrow> us_ID u' = us_ID u \<and> us_Email u' = us_Email u \<and> us_Version u' = us_Version u \<and>
      (us_TeamID u' = us_TeamID u \<or> us_TeamID u' = team)"
    and h: "\<And>r. ended (h r)"
  shows "team = [] \<or> map_of T (team_pk team, pointer_sk) = Some (Pointer uid) \<Longrightarrow>
    safe (outcomes pg) directory_good (directory_rely oper) (directory_guar oper)
      (and_then (mutate_loop n missing uid f) h) T"
proof (induction n arbitrary: T)
  case 0
  then show ?case using h by (simp add: ended_safe)
next
  case (Suc n)
  have rely: "directory_rely oper = advanced uid"
    using oper by (auto simp: directory_rely_def fun_eq_iff)
  have guar: "directory_guar oper s t \<longleftrightarrow> (\<forall>w. w \<noteq> uid \<longrightarrow> untouched w s t) \<and> advanced uid s t" for s t
    using oper by (auto simp: directory_guar_def)
  have claim: "team = [] \<or> map_of t (team_pk team, pointer_sk) = Some (Pointer uid)"
    if "team = [] \<or> map_of s (team_pk team, pointer_sk) = Some (Pointer uid)" "advanced uid s t" for s t
    using that by (auto simp: advanced_def)
  let ?safe = "safe (outcomes pg) directory_good (directory_rely oper) (directory_guar oper)"
  let ?kept_row = "\<lambda>r. case r of Inr w \<Rightarrow> Return (Inr w)
    | Inl e \<Rightarrow> if e = Store_refused User_conflict then mutate_loop n missing uid f else Return (Inl e)"
  have wr: "?safe (and_then (and_then (ddb_put_user u') ?kept_row) h) s1"
    if s1: "advanced uid T s1" "directory_good s1" "map_of s1 (profile_key uid) = Some (Profile u v)"
      and u': "f (u\<lparr>us_Version := fmt_int v\<rparr>) = Inr u'" for s1 u v u'
  proof -
    have fields: "us_ID u' = uid" "us_Email u' = us_Email u" "us_Version u' = fmt_int v"
      "us_TeamID u' = us_TeamID u \<or> us_TeamID u' = team"
      using f [OF u'] directory_goodD(1) [OF s1(2,3)] by auto
    have put: "ddb_put_user u' = and_then
        (put_item (profile_key uid) (user_item u' (v + 1)) (Ver_is v) (Store_refused User_conflict))
        (\<lambda>r. case r of Inl e \<Rightarrow> Return (Inl e) | Inr _ \<Rightarrow> Return (Inr (u'\<lparr>us_Version := fmt_int (v + 1)\<rparr>)))"
      by (simp add: ddb_put_user_def fields profile_key_def on_ok_def)
    define C where "C = (\<lambda>r :: ddb_error + unit. case r of Inr _ \<Rightarrow> h (Inr (u'\<lparr>us_Version := fmt_int (v + 1)\<rparr>))
      | Inl e \<Rightarrow> if e = Store_refused User_conflict then and_then (mutate_loop n missing uid f) h else h (Inl e))"
    have "and_then (and_then (ddb_put_user u') ?kept_row) h =
        and_then (put_item (profile_key uid) (user_item u' (v + 1)) (Ver_is v) (Store_refused User_conflict)) C"
      unfolding put and_then_assoc C_def
      by (intro arg_cong [where f = "and_then _"] ext) (simp split: sum.split)
    then show ?thesis
    proof (simp only:, intro safe_put)
      fix s2 assume s2: "directory_rely oper s1 s2" "directory_good s2"
      then have adv: "advanced uid s1 s2" by (simp add: rely)
      have team: "team = [] \<or> map_of s2 (team_pk team, pointer_sk) = Some (Pointer uid)"
        using claim [OF claim [OF Suc.prems s1(1)] adv] .
      then show "?safe (C (Inl (Store_refused User_conflict))) s2" using Suc.IH by (simp add: C_def)
      assume cond: "cond_holds (Ver_is v) (map_of s2 (profile_key uid))"
      have K: "us_TeamID u' = us_TeamID u \<or> us_TeamID u' = [] \<or>
          map_of s2 (team_pk (us_TeamID u'), pointer_sk) = Some (Pointer uid)"
        using fields(4) team by auto
      show "directory_good (AList.update (profile_key uid) (user_item u' (v + 1)) s2) \<and>
        directory_guar oper s2 (AList.update (profile_key uid) (user_item u' (v + 1)) s2) \<and>
        ?safe (C (Inr ())) (AList.update (profile_key uid) (user_item u' (v + 1)) s2)"
        using profile_put_ok [OF s1(3) adv s2(2) cond fields(1,2) K] ended_safe [OF h] by (simp add: guar C_def)
    qed (simp_all add: C_def ended_safe [OF h])
  qed
  define D where "D = (\<lambda>r :: ddb_error + ddb_item option. case r of
      Inl e \<Rightarrow> h (Inl e) | Inr None \<Rightarrow> h (Inl missing)
    | Inr (Some (Profile u v)) \<Rightarrow> (case f (u\<lparr>us_Version := fmt_int v\<rparr>) of
        Inl e \<Rightarrow> h (Inl e) | Inr u' \<Rightarrow> and_then (and_then (ddb_put_user u') ?kept_row) h)
    | Inr (Some _) \<Rightarrow> h (Inl Bad_item))"
  have "and_then (mutate_loop (Suc n) missing uid f) h = and_then (get_item (profile_key uid)) D"
    unfolding mutate_loop.simps ddb_get_user_def on_ok_def and_then_assoc profile_key_def D_def
    by (intro arg_cong [where f = "and_then _"] ext) (simp add: and_then_assoc split: sum.split option.split ddb_item.split)
  then show ?case
  proof (simp only:, intro safe_get)
    fix s1 assume s1: "directory_rely oper T s1" "directory_good s1"
    show "?safe (D (Inr (map_of s1 (profile_key uid)))) s1"
    proof (cases "map_of s1 (profile_key uid)")
      case (Some i)
      with s1(2) obtain u v where "i = Profile u v" unfolding directory_good_def profiles_hold_def by blast
      with Some s1 wr show ?thesis by (auto simp: D_def rely ended_safe [OF h] split: sum.split)
    qed (simp add: D_def ended_safe [OF h])
  qed (simp_all add: D_def ended_safe [OF h])
qed

lemma mutate_safe:
  "safe (outcomes pg) directory_good (directory_rely (Op_mutate uid m)) (directory_guar (Op_mutate uid m))
     (program pages (Op_mutate uid m)) T"
proof -
  have "us_ID u' = us_ID u \<and> us_Email u' = us_Email u \<and> us_Version u' = us_Version u \<and> us_TeamID u' = us_TeamID u"
    if "apply_mutation m u = Inr u'" for u u'
    using that by (cases m) (auto simp: mutation_defs split: if_splits)
  then show ?thesis unfolding program.simps no_value_def on_ok_def
    by (intro mutate_loop_safe [where team = "[]"]) (auto simp: ended_def split: sum.split)
qed

lemma claim_safe:
  assumes "writes_profile_of oper = Some uid" and "\<not> exclusive oper"
  shows "safe (outcomes pg) directory_good (directory_rely oper) (directory_guar oper) (ddb_claim_team uid team) T"
  unfolding ddb_claim_team_def on_ok_def
proof (rule safe_put)
  let ?k = "(team_pk team, pointer_sk)" and ?i = "Pointer uid"
  fix s1 assume s1: "directory_rely oper T s1" "directory_good s1" "cond_holds (Absent_or_uid uid) (map_of s1 ?k)"
  then have free: "w = uid" if "map_of s1 ?k = Some (Pointer w)" for w using that by simp
  note put = write_claim [OF s1(2) claim_keyI(2) free]
  have "safe (outcomes pg) directory_good (directory_rely oper) (directory_guar oper)
      (and_then (mutate_loop 5 (Store_refused User_conflict) uid (\<lambda>u. Inr (u\<lparr>us_TeamID := team\<rparr>)))
        (\<lambda>r. case r of Inl e \<Rightarrow> Return (Inl e) | Inr _ \<Rightarrow> Return (Inr ()))) (AList.update ?k ?i s1)"
    by (rule mutate_loop_safe [OF assms, where team = team]) (auto simp: ended_def update_conv' split: sum.split)
  then show "directory_good (AList.update ?k ?i s1) \<and> directory_guar oper s1 (AList.update ?k ?i s1) \<and>
    safe (outcomes pg) directory_good (directory_rely oper) (directory_guar oper)
      (case Inr () of Inl e \<Rightarrow> Return (Inl e) | Inr _ \<Rightarrow> and_then
        (mutate_loop 5 (Store_refused User_conflict) uid (\<lambda>u. Inr (u\<lparr>us_TeamID := team\<rparr>)))
        (\<lambda>r. case r of Inl e \<Rightarrow> Return (Inl e) | Inr _ \<Rightarrow> Return (Inr ()))) (AList.update ?k ?i s1)"
    using put assms by (auto simp: directory_guar_def)
qed (simp_all add: ended_safe ended_def)

lemma set_team_safe:
  "safe (outcomes pg) directory_good (directory_rely (Op_set_team uid team)) (directory_guar (Op_set_team uid team))
     (program pages (Op_set_team uid team)) T"
proof (cases "team = []")
  case False
  let ?S = "safe (outcomes pg) directory_good (directory_rely (Op_set_team uid team)) (directory_guar (Op_set_team uid team))"
  define D where "D = (\<lambda>r :: ddb_error + ddb_item option. case r of
      Inl e \<Rightarrow> Return (Inl e) | Inr None \<Rightarrow> Return (Inl No_such_user)
    | Inr (Some (Profile u v)) \<Rightarrow>
        if us_TeamID u \<noteq> [] \<and> us_TeamID u \<noteq> team then Return (Inl (Team_reassignment (us_TeamID u)))
        else ddb_claim_team uid team
    | Inr (Some _) \<Rightarrow> Return (Inl Bad_item))"
  have claim: "?S (ddb_claim_team uid team) t" for t by (rule claim_safe) simp_all
  have "program pages (Op_set_team uid team) = and_then (get_item (profile_key uid)) D"
    using False unfolding program.simps ddb_set_team_def ddb_get_user_def on_ok_def and_then_assoc profile_key_def D_def
    by (simp, intro arg_cong [where f = "and_then _"] ext) (simp split: sum.split option.split ddb_item.split)
  then show ?thesis
    by (simp only:, intro safe_get) (auto simp: D_def claim split: option.split ddb_item.split)
qed (simp add: ddb_set_team_def)

section \<open>Deleting a user is safe\<close>

lemma delete_row:
  assumes "directory_good T" and "\<not> claim_key k"
    and "\<And>w. w \<noteq> uid \<Longrightarrow> k \<noteq> profile_key w"
  shows "directory_good (AList.delete k T)" and "w \<noteq> uid \<Longrightarrow> untouched w T (AList.delete k T)"
proof -
  have keep: "map_of (AList.delete k T) c = map_of T c" if "claim_key c" for c
    using that assms(2) by (auto simp: delete_conv')
  have "profiles_hold (AList.delete k T)" unfolding profiles_hold_def
  proof (intro allI impI)
    fix x i assume "map_of (AList.delete k T) (profile_key x) = Some i"
    then have "map_of T (profile_key x) = Some i" by (auto simp: delete_conv' split: if_splits)
    with assms(1) obtain u v where "i = Profile u v" "us_ID u = x" "claims_held T x u"
      unfolding directory_good_def profiles_hold_def by blast
    then show "\<exists>u v. i = Profile u v \<and> us_ID u = x \<and> claims_held (AList.delete k T) x u"
      using keep by (auto intro: claims_held_mono)
  qed
  moreover have "claims_typed (AList.delete k T)" using assms(1) keep by (simp add: directory_good_def claims_typed_def)
  ultimately show "directory_good (AList.delete k T)" by (simp add: directory_good_def)
  show "untouched w T (AList.delete k T)" if "w \<noteq> uid"
    using that assms(3) [of w] keep by (auto simp: untouched_def delete_conv')
qed

text \<open>A claim may go once its holder's profile has gone.\<close>

lemma delete_claim:
  assumes "directory_good T" and "claim_key k" and "map_of T k = Some (Pointer uid)"
    and "map_of T (profile_key uid) = None"
  shows "directory_good (AList.delete k T)" and "w \<noteq> uid \<Longrightarrow> untouched w T (AList.delete k T)"
    and "map_of (AList.delete k T) (profile_key uid) = None"
proof -
  have ne: "k \<noteq> profile_key x" for x using assms(2) profile_key_apart by blast
  have keep: "map_of (AList.delete k T) c = Some (Pointer w)" if "map_of T c = Some (Pointer w)" "w \<noteq> uid" for c w
    using that assms(3) by (auto simp: delete_conv')
  have "profiles_hold (AList.delete k T)" unfolding profiles_hold_def
  proof (intro allI impI)
    fix x i assume "map_of (AList.delete k T) (profile_key x) = Some i"
    then have x: "map_of T (profile_key x) = Some i" using ne by (auto simp: delete_conv' split: if_splits)
    with assms(4) have "x \<noteq> uid" by auto
    with x assms(1) obtain u v where "i = Profile u v" "us_ID u = x" "claims_held T x u"
      unfolding directory_good_def profiles_hold_def by blast
    then show "\<exists>u v. i = Profile u v \<and> us_ID u = x \<and> claims_held (AList.delete k T) x u"
      using keep \<open>x \<noteq> uid\<close> by (auto intro: claims_held_mono)
  qed
  moreover have "claims_typed (AList.delete k T)"
    using assms(1) by (auto simp: directory_good_def claims_typed_def delete_conv' split: if_splits)
  ultimately show "directory_good (AList.delete k T)" by (simp add: directory_good_def)
  show "untouched w T (AList.delete k T)" if "w \<noteq> uid"
    using that assms(3) ne [symmetric] by (auto simp: untouched_def delete_conv')
  show "map_of (AList.delete k T) (profile_key uid) = None" using assms(4) by (simp add: delete_conv')
qed

abbreviation delete_safe :: "nat \<Rightarrow> string \<Rightarrow> 'r prog \<Rightarrow> ddb_table \<Rightarrow> bool" where
  "delete_safe pg uid \<equiv> safe (outcomes pg) directory_good (directory_rely (Op_delete uid)) (directory_guar (Op_delete uid))"

lemma delete_rely: "directory_rely (Op_delete uid) T T' = untouched uid T T'"
  by (simp add: directory_rely_def)

lemma delete_guar: "directory_guar (Op_delete uid) T T' \<longleftrightarrow> (\<forall>w. w \<noteq> uid \<longrightarrow> untouched w T T')"
  by (auto simp: directory_guar_def)

lemma no_profile_stays: "map_of T (profile_key uid) = None \<or> Q \<Longrightarrow> untouched uid T T' \<Longrightarrow> map_of T' (profile_key uid) = None \<or> Q"
  by (auto simp: untouched_def)

text \<open>A part that leaves profiles and claims alone, whatever its result.\<close>

lemma delete_safe_quiet:
  assumes "\<And>r T. directory_good T \<Longrightarrow> map_of T (profile_key uid) = None \<or> Q \<Longrightarrow> delete_safe pg uid (g r) T"
  shows "quiet directory_key q \<Longrightarrow> directory_good T \<Longrightarrow> map_of T (profile_key uid) = None \<or> Q \<Longrightarrow>
    delete_safe pg uid (and_then q g) T"
proof (induction q arbitrary: T)
  case (Call rq k)
  show ?case unfolding and_then.simps
  proof (rule safe_request)
    fix s1 assume s1: "directory_rely (Op_delete uid) T s1" "directory_good s1"
    let ?s2 = "snd (exec pg rq s1)"
    have same: "map_of ?s2 c = map_of s1 c" if "directory_key c" for c
      using quiet_exec [where P = directory_key, OF _ that] Call.prems(1) by simp
    then have "directory_good ?s2" using directory_good_cong [OF s1(2)] by blast
    moreover have "untouched w s1 ?s2" for w using same by (simp add: untouched_def)
    moreover have "map_of s1 (profile_key uid) = None \<or> Q"
      using no_profile_stays [OF Call.prems(3)] s1(1) by (simp add: delete_rely)
    moreover have "map_of ?s2 (profile_key uid) = None \<or> Q" using calculation(3) same by simp
    moreover have "delete_safe pg uid (and_then (k x) g) t"
      if "directory_good t" "map_of t (profile_key uid) = None \<or> Q" for x t
      using Call.IH [OF rangeI] Call.prems(1) that by simp
    moreover have "directory_guar (Op_delete uid) s1 ?s2" using calculation(2) by (simp add: delete_guar)
    ultimately show "directory_good ?s2 \<and> directory_guar (Op_delete uid) s1 ?s2 \<and>
        delete_safe pg uid (and_then (k (fst (exec pg rq s1))) g) ?s2 \<and>
        delete_safe pg uid (and_then (k Failed) g) s1 \<and> delete_safe pg uid (and_then (k Failed) g) ?s2"
      using s1(2) by blast
  qed (simp add: delete_guar)
qed (use assms in simp)

lemma release_token_quiet: "quiet directory_key (release_push_token tok uid)"
proof -
  have "\<not> directory_key (push_token_pk tok, pointer_sk)"
    by (auto simp: directory_key_def claim_key_def profile_key_def)
  then show ?thesis by (auto simp: release_push_token_def split: option.split)
qed

lemma sweep_rows_safe:
  assumes ok: "\<And>T. directory_good T \<Longrightarrow> map_of T (profile_key uid) = None \<or> C \<Longrightarrow> delete_safe pg uid (f (Inr ())) T"
    and err: "\<And>e T. delete_safe pg uid (f (Inl e)) T"
  shows "directory_good T \<Longrightarrow> map_of T (profile_key uid) = None \<or> profile_sk \<in> fst ` set rows \<or> C \<Longrightarrow>
    delete_safe pg uid (and_then (sweep_rows uid rows) f) T"
proof (induction rows arbitrary: T)
  case (Cons row rows)
  obtain sk i where row: "row = (sk, i)" by (cases row)
  let ?Q = "profile_sk = sk \<or> profile_sk \<in> fst ` set rows \<or> C"
  have last: "delete_safe pg uid (and_then (delete_item (user_pk uid, sk))
      (\<lambda>r. case r of Inl e \<Rightarrow> f (Inl e) | Inr _ \<Rightarrow> and_then (sweep_rows uid rows) f)) T"
    if T: "directory_good T" "map_of T (profile_key uid) = None \<or> ?Q" for T
  proof (rule safe_delete)
    fix s1 assume s1: "directory_rely (Op_delete uid) T s1" "directory_good s1"
    let ?k = "(user_pk uid, sk)"
    have k: "\<not> claim_key ?k" "\<And>w. w \<noteq> uid \<Longrightarrow> ?k \<noteq> profile_key w" by (auto simp: claim_key_def profile_key_def)
    have "map_of s1 (profile_key uid) = None \<or> ?Q" using no_profile_stays [OF T(2)] s1(1) by (simp add: delete_rely)
    then have "map_of (AList.delete ?k s1) (profile_key uid) = None \<or> profile_sk \<in> fst ` set rows \<or> C"
      by (auto simp: delete_conv' profile_key_def)
    then have "delete_safe pg uid (and_then (sweep_rows uid rows) f) (AList.delete ?k s1)"
      using delete_row(1) [OF s1(2) k] Cons.IH by blast
    then show "directory_good (AList.delete ?k s1) \<and> directory_guar (Op_delete uid) s1 (AList.delete ?k s1) \<and>
      delete_safe pg uid (case Inr () of Inl e \<Rightarrow> f (Inl e) | Inr _ \<Rightarrow> and_then (sweep_rows uid rows) f) (AList.delete ?k s1)"
      unfolding delete_guar using delete_row [OF s1(2) k] by (simp only: sum.case) blast
  qed (simp_all add: err delete_guar)
  define A where "A = (if has_prefix sk cred_prefix then delete_item (sk, pointer_sk) else Return (Inr ()))"
  define B where "B = (if has_prefix sk push_device_prefix then release_push_token (token_attr i) uid else Return (Inr ()))"
  have "quiet directory_key A"
    using prefix_no_claim [of sk] by (auto simp: A_def directory_key_def claim_key_def profile_key_def)
  moreover have "quiet directory_key B" using release_token_quiet by (simp add: B_def)
  moreover have "and_then (sweep_rows uid (row # rows)) f =
      and_then A (\<lambda>r. case r of Inl e \<Rightarrow> f (Inl e) | Inr _ \<Rightarrow> and_then B (\<lambda>r. case r of Inl e \<Rightarrow> f (Inl e)
        | Inr _ \<Rightarrow> and_then (delete_item (user_pk uid, sk))
            (\<lambda>r. case r of Inl e \<Rightarrow> f (Inl e) | Inr _ \<Rightarrow> and_then (sweep_rows uid rows) f)))"
    unfolding row sweep_rows.simps A_def [symmetric] B_def [symmetric] on_ok_then ..
  moreover have "delete_safe pg uid (case r of Inl e \<Rightarrow> f (Inl e) | Inr _ \<Rightarrow> and_then (delete_item (user_pk uid, sk))
        (\<lambda>r. case r of Inl e \<Rightarrow> f (Inl e) | Inr _ \<Rightarrow> and_then (sweep_rows uid rows) f)) T"
    if "directory_good T" "map_of T (profile_key uid) = None \<or> ?Q" for T and r :: "ddb_error + unit"
    using last [OF that] err by (cases r) simp_all
  note at_B = delete_safe_quiet [where Q = ?Q, OF this calculation(2)]
  have "delete_safe pg uid (case r of Inl e \<Rightarrow> f (Inl e) | Inr _ \<Rightarrow> and_then B (\<lambda>r. case r of Inl e \<Rightarrow> f (Inl e)
        | Inr _ \<Rightarrow> and_then (delete_item (user_pk uid, sk))
            (\<lambda>r. case r of Inl e \<Rightarrow> f (Inl e) | Inr _ \<Rightarrow> and_then (sweep_rows uid rows) f))) T"
    if "directory_good T" "map_of T (profile_key uid) = None \<or> ?Q" for T and r :: "ddb_error + unit"
    using at_B that err by (cases r) simp_all
  note delete_safe_quiet [where Q = ?Q, OF this calculation(1)]
  moreover have "map_of T (profile_key uid) = None \<or> ?Q" using Cons.prems(2) by (auto simp: row)
  ultimately show ?case using Cons.prems(1) by simp
qed (use ok in simp)

text \<open>A page that does not hold the profile ends before it.\<close>

lemma query_page_profile:
  assumes "map_of T (profile_key uid) = Some i" and "case start of None \<Rightarrow> True | Some s \<Rightarrow> s < profile_sk"
    and "profile_sk \<notin> fst ` set (take (Suc pg) (query_rows T (user_pk uid) [] start))"
  shows "length (query_rows T (user_pk uid) [] start) > Suc pg \<and>
    fst (last (take (Suc pg) (query_rows T (user_pk uid) [] start))) < profile_sk"
proof -
  let ?rows = "query_rows T (user_pk uid) [] start"
  have "((user_pk uid, profile_sk), i) \<in> set T" using map_of_SomeD [OF assms(1)] by (simp add: profile_key_def)
  then have "(profile_sk, i) \<in> set ?rows" using assms(2) by (force simp: query_rows_def split: option.splits)
  then have mem: "profile_sk \<in> set (map fst (drop (Suc pg) ?rows))"
    using assms(3) set_append [of "take (Suc pg) ?rows" "drop (Suc pg) ?rows"] by force
  then have long: "length ?rows > Suc pg" by (metis drop_all list.set(1) list.simps(8) not_in_set_insert empty_iff not_le)
  then have ne: "take (Suc pg) ?rows \<noteq> []" by auto
  have "sorted (map fst ?rows)" by (simp add: query_rows_def)
  then have "sorted (map fst (take (Suc pg) ?rows) @ map fst (drop (Suc pg) ?rows))"
    by (metis append_take_drop_id map_append)
  then have "\<forall>x \<in> set (map fst (take (Suc pg) ?rows)). x \<le> profile_sk"
    using mem by (simp only: sorted_append) blast
  moreover have "fst (last (take (Suc pg) ?rows)) \<in> set (map fst (take (Suc pg) ?rows))" using ne by simp
  moreover have "fst (last (take (Suc pg) ?rows)) \<noteq> profile_sk" using calculation(2) assms(3) by (metis list.set_map)
  ultimately show ?thesis using long by force
qed

lemma sweep_pages_safe:
  assumes ok: "\<And>T. directory_good T \<Longrightarrow> map_of T (profile_key uid) = None \<Longrightarrow> delete_safe (Suc pg) uid (f (Inr ())) T"
    and err: "\<And>e T. delete_safe (Suc pg) uid (f (Inl e)) T"
  shows "map_of T (profile_key uid) = None \<or> (case start of None \<Rightarrow> True | Some s \<Rightarrow> s < profile_sk) \<Longrightarrow>
    delete_safe (Suc pg) uid (and_then (sweep_pages n uid start) f) T"
proof (induction n arbitrary: T start)
  case (Suc n)
  define K where "K = (\<lambda>lk. \<lambda>r :: ddb_error + unit. case r of Inl e \<Rightarrow> f (Inl e)
    | Inr _ \<Rightarrow> (case lk of None \<Rightarrow> f (Inr ()) | Some _ \<Rightarrow> and_then (sweep_pages n uid lk) f))"
  define H where "H = (\<lambda>x. case x of Rows rows lk \<Rightarrow> and_then (sweep_rows uid rows) (K lk) | _ \<Rightarrow> f (Inl Request_failed))"
  have "and_then (sweep_pages (Suc n) uid start) f = Call (Query (user_pk uid) [] start) H"
    by (auto simp: H_def K_def fun_eq_iff on_ok_then split: response.split
        intro!: arg_cong [where f = "and_then _"] split: sum.split option.split)
  moreover have "delete_safe (Suc pg) uid (Call (Query (user_pk uid) [] start) H) T"
  proof (rule safe_request)
    fix s1 assume s1: "directory_rely (Op_delete uid) T s1" "directory_good s1"
    let ?rows = "query_rows s1 (user_pk uid) [] start"
    let ?page = "take (Suc pg) ?rows"
    let ?lk = "if length ?rows > Suc pg then Some (fst (last ?page)) else None"
    let ?C = "case ?lk of None \<Rightarrow> False | Some s \<Rightarrow> s < profile_sk"
    have start: "map_of s1 (profile_key uid) = None \<or> (case start of None \<Rightarrow> True | Some s \<Rightarrow> s < profile_sk)"
      using no_profile_stays [OF Suc.prems] s1(1) by (simp add: delete_rely)
    have there: "map_of s1 (profile_key uid) = None \<or> profile_sk \<in> fst ` set ?page \<or> ?C"
    proof (cases "map_of s1 (profile_key uid)")
      case (Some i)
      with start have st: "case start of None \<Rightarrow> True | Some s \<Rightarrow> s < profile_sk" by simp
      show ?thesis using query_page_profile [OF Some st, of pg] by auto
    qed simp
    have "delete_safe (Suc pg) uid (K ?lk (Inr ())) t" if "directory_good t" "map_of t (profile_key uid) = None \<or> ?C" for t
    proof (cases "length ?rows > Suc pg")
      case True
      with that(2) Suc.IH [of t "Some (fst (last ?page))"] show ?thesis by (simp add: K_def)
    next
      case False
      with that ok show ?thesis by (simp add: K_def)
    qed
    moreover have "delete_safe (Suc pg) uid (K ?lk (Inl e)) t" for e t by (simp add: K_def err)
    ultimately have "delete_safe (Suc pg) uid (and_then (sweep_rows uid ?page) (K ?lk)) s1"
      using sweep_rows_safe [where C = ?C and f = "K ?lk"] s1(2) there by blast
    then have "delete_safe (Suc pg) uid (H (fst (exec (Suc pg) (Query (user_pk uid) [] start) s1))) s1"
      by (simp add: H_def Let_def)
    moreover have "delete_safe (Suc pg) uid (H Failed) t" for t by (simp add: H_def err)
    moreover have "snd (exec (Suc pg) (Query (user_pk uid) [] start) s1) = s1" by (simp add: Let_def)
    ultimately show "directory_good (snd (exec (Suc pg) (Query (user_pk uid) [] start) s1)) \<and>
        directory_guar (Op_delete uid) s1 (snd (exec (Suc pg) (Query (user_pk uid) [] start) s1)) \<and>
        delete_safe (Suc pg) uid (H (fst (exec (Suc pg) (Query (user_pk uid) [] start) s1)))
          (snd (exec (Suc pg) (Query (user_pk uid) [] start) s1)) \<and>
        delete_safe (Suc pg) uid (H Failed) s1 \<and>
        delete_safe (Suc pg) uid (H Failed) (snd (exec (Suc pg) (Query (user_pk uid) [] start) s1))"
      using s1(2) by simp
  qed simp
  ultimately show ?case by simp
qed (simp add: err)

lemma release_claim_safe:
  assumes ok: "\<And>T. directory_good T \<Longrightarrow> map_of T (profile_key uid) = None \<Longrightarrow> delete_safe pg uid (f (Inr ())) T"
    and err: "\<And>e T. delete_safe pg uid (f (Inl e)) T" and key: "claim_key (pk, pointer_sk)"
  shows "map_of T (profile_key uid) = None \<Longrightarrow> delete_safe pg uid (and_then (release_claim uid pk) f) T"
  unfolding release_claim_def on_ok_then
proof (rule safe_get)
  let ?k = "(pk, pointer_sk)"
  fix s1 assume T: "map_of T (profile_key uid) = None" and s1: "directory_rely (Op_delete uid) T s1" "directory_good s1"
  have gone: "map_of s1 (profile_key uid) = None" using T s1(1) by (simp add: delete_rely untouched_def)
  have del: "delete_safe pg uid (and_then (delete_item ?k) f) s1" if held: "map_of s1 ?k = Some (Pointer uid)"
  proof (rule safe_delete)
    fix s2 assume s2: "directory_rely (Op_delete uid) s1 s2" "directory_good s2"
    then have "map_of s2 ?k = Some (Pointer uid)" "map_of s2 (profile_key uid) = None"
      using held gone key by (simp_all add: delete_rely untouched_def)
    note d = delete_claim [OF s2(2) key this]
    have "directory_guar (Op_delete uid) s2 (AList.delete ?k s2)" using d(2) by (simp add: delete_guar)
    with d(1,3) ok show "directory_good (AList.delete ?k s2) \<and> directory_guar (Op_delete uid) s2 (AList.delete ?k s2) \<and>
      delete_safe pg uid (f (Inr ())) (AList.delete ?k s2)" by blast
  qed (simp_all add: err)
  show "delete_safe pg uid (case Inr (map_of s1 ?k) of Inl e \<Rightarrow> f (Inl e) | Inr a \<Rightarrow> and_then (case a of None \<Rightarrow> Return (Inr ())
      | Some i \<Rightarrow> if uid_attr i \<noteq> uid then Return (Inr ()) else delete_item ?k) f) s1"
  proof (cases "map_of s1 ?k")
    case None
    with ok s1(2) gone show ?thesis by simp
  next
    case (Some i)
    then obtain w where "i = Pointer w" using s1(2) key unfolding directory_good_def claims_typed_def by blast
    with Some ok s1(2) gone del show ?thesis by (simp add: uid_attr_def)
  qed
qed (simp_all add: err)

lemma delete_user_safe: "delete_safe (Suc pg) uid (program pages (Op_delete uid)) T"
proof -
  define R where "R = (\<lambda>found :: user option. \<lambda>r :: ddb_error + unit. case r of Inl e \<Rightarrow> Return (Inl e) | Inr _ \<Rightarrow>
     (case found of None \<Rightarrow> Return (Inr ())
      | Some u \<Rightarrow> on_ok (if us_Email u = [] then Return (Inr ()) else release_claim uid (email_pk (us_Email u))) (\<lambda>_.
          if us_TeamID u = [] then Return (Inr ()) else release_claim uid (team_pk (us_TeamID u)))))"
  have last: "delete_safe (Suc pg) uid (release_claim uid pk) t"
    if "map_of t (profile_key uid) = None" "claim_key (pk, pointer_sk)" for t pk
  proof -
    have "and_then p Return = p" for p :: "(ddb_error + unit) prog" by (induction p) auto
    with release_claim_safe [OF _ _ that(2,1), of "Suc pg" Return] show ?thesis by simp
  qed
  have "delete_safe (Suc pg) uid (R found (Inr ())) t" if t: "directory_good t" "map_of t (profile_key uid) = None" for found t
  proof (cases found)
    case (Some u)
    have "delete_safe (Suc pg) uid (if us_TeamID u = [] then Return (Inr ()) else release_claim uid (team_pk (us_TeamID u))) t"
      if "map_of t (profile_key uid) = None" for t using last that by simp
    then show ?thesis using t
      by (auto simp: R_def Some on_ok_def intro!: release_claim_safe)
  qed (simp add: R_def)
  moreover have "delete_safe (Suc pg) uid (R found (Inl e)) t" for found e t by (simp add: R_def)
  ultimately have sweep: "delete_safe (Suc pg) uid (and_then (sweep_pages pages uid None) (R found)) t" for found t
    by (intro sweep_pages_safe) simp_all
  have "program pages (Op_delete uid) = and_then (get_item (user_pk uid, profile_sk)) (\<lambda>r. case r of
      Inl e \<Rightarrow> Return (Inl e) | Inr None \<Rightarrow> and_then (sweep_pages pages uid None) (R None)
    | Inr (Some (Profile u v)) \<Rightarrow> and_then (sweep_pages pages uid None) (R (Some (u\<lparr>us_Version := fmt_int v\<rparr>)))
    | Inr (Some _) \<Rightarrow> Return (Inl Bad_item))"
    unfolding program.simps ddb_delete_user_def ddb_get_user_def on_ok_assoc R_def
    unfolding on_ok_def by (intro arg_cong [where f = "and_then _"] ext) (simp split: sum.split option.split ddb_item.split)
  then show ?thesis
    by (simp only:, intro safe_get) (auto simp: sweep delete_guar split: option.split ddb_item.split)
qed

section \<open>The other operations leave these keys alone\<close>

definition enroll_key :: "ddb_key \<Rightarrow> bool" where
  "enroll_key k \<longleftrightarrow> (\<exists>h. k = (enroll_pk h, enroll_sk))"

lemma row_keys [simp]:
  "directory_key (user_pk u, sk) \<longleftrightarrow> sk = profile_sk" "\<not> directory_key (cred_key c, sk)"
  "\<not> directory_key (push_token_pk tok, sk)" "\<not> directory_key (enroll_pk h, sk)"
  "\<not> enroll_key (user_pk u, sk)" "\<not> enroll_key (cred_key c, sk)" "\<not> enroll_key (push_token_pk tok, sk)"
  "\<not> enroll_key (email_pk e, sk)" "\<not> enroll_key (team_pk t, sk)" "\<not> enroll_key (pk, pointer_sk)"
  "enroll_key (enroll_pk h, enroll_sk)"
  by (auto simp: directory_key_def claim_key_def profile_key_def enroll_key_def)

lemma quiet_query_all [simp]: "quiet P (query_all n pk pre start acc)"
  by (induction n arbitrary: start acc) (auto split: response.split option.split)

lemma quiet_get_user [simp]: "quiet P (ddb_get_user uid)"
  unfolding ddb_get_user_def by (rule quiet_on_ok) (auto split: option.split ddb_item.split)

lemma quiet_heal [simp]: "(\<And>sk. \<not> P (user_pk uid, push_device_sk sk)) \<Longrightarrow> quiet P (heal_devices uid es d)"
  by (induction uid es d rule: heal_devices.induct) (auto intro!: quiet_on_ok)

lemma quiet_put_user [simp]: "(\<And>u. \<not> P (profile_key u)) \<Longrightarrow> quiet P (ddb_put_user u)"
  by (auto simp: ddb_put_user_def profile_key_def split: option.split)

lemma quiet_mutate [simp]: "(\<And>u. \<not> P (profile_key u)) \<Longrightarrow> quiet P (mutate_loop n missing uid f)"
  by (induction n) (auto intro!: quiet_on_ok quiet_and_then split: option.split sum.split)

lemma enroll_not_profile [simp]: "\<not> enroll_key (profile_key u)"
  by (simp add: profile_key_def)

lemma quiet_release_claim [simp]: "\<not> P (pk, pointer_sk) \<Longrightarrow> quiet P (release_claim uid pk)"
  by (auto simp: release_claim_def split: option.split)

lemma quiet_release_token [simp]: "\<not> P (push_token_pk tok, pointer_sk) \<Longrightarrow> quiet P (release_push_token tok uid)"
  by (auto simp: release_push_token_def split: option.split)

lemma quiet_sweep_rows: "quiet enroll_key (sweep_rows uid rows)"
  by (induction uid rows rule: sweep_rows.induct) (auto intro!: quiet_on_ok)

lemma quiet_sweep_pages: "quiet enroll_key (sweep_pages n uid start)"
  by (induction n arbitrary: start) (auto intro!: quiet_on_ok quiet_sweep_rows split: response.split option.split)

lemma quiet_claim: "quiet enroll_key (ddb_claim_team uid team)"
  by (auto simp: ddb_claim_team_def intro!: quiet_on_ok)

lemma quiet_register: "quiet directory_key (ddb_put_push_device n newID uid d)" "quiet enroll_key (ddb_put_push_device n newID uid d)"
  by (auto simp: ddb_put_push_device_def ddb_push_devices_def steal_token_def Let_def intro!: quiet_on_ok split: option.split)

lemma quiet_for_directory:
  assumes "writes_profile_of oper = None"
  shows "quiet directory_key (program pages oper)"
  using assms
  by (cases oper) (auto simp: no_value_def ddb_put_credential_def ddb_delete_credential_def ddb_put_credential_meta_def
      ddb_delete_push_device_def ddb_create_enrollment_def ddb_redeem_enrollment_def ddb_get_enrollment_def
      ddb_put_connection_def Let_def quiet_register intro!: quiet_on_ok split: option.split ddb_item.split)

fun is_enrollment :: "operation \<Rightarrow> bool" where
  "is_enrollment (Op_mint _ _) = True"
| "is_enrollment (Op_redeem _ _) = True"
| "is_enrollment _ = False"

lemma quiet_for_enrollment:
  assumes "\<not> is_enrollment oper"
  shows "quiet enroll_key (program pages oper)"
proof (cases oper)
  case (Op_create u)
  then show ?thesis
    by (auto simp: no_value_def ddb_create_user_def create_writes_def split: response.split)
next
  case (Op_set_team uid team)
  then show ?thesis by (auto simp: ddb_set_team_def intro!: quiet_on_ok quiet_claim split: option.split)
next
  case (Op_delete uid)
  then show ?thesis by (auto simp: ddb_delete_user_def intro!: quiet_on_ok quiet_sweep_pages split: option.split)
qed (use assms in \<open>auto simp: no_value_def ddb_put_credential_def ddb_delete_credential_def ddb_put_credential_meta_def
      ddb_delete_push_device_def ddb_put_connection_def Let_def quiet_register quiet_claim
      intro!: quiet_on_ok split: option.split ddb_item.split\<close>)

section \<open>Reachable states\<close>

lemma program_safe:
  "safe (outcomes (Suc pg)) directory_good (directory_rely oper) (directory_guar oper) (program pages oper) T"
proof (cases oper)
  case (Op_create u)
  show ?thesis unfolding Op_create by (rule create_safe)
next
  case (Op_mutate uid m)
  show ?thesis unfolding Op_mutate by (rule mutate_safe)
next
  case (Op_claim uid team)
  show ?thesis unfolding Op_claim program.simps by (rule claim_safe) simp_all
next
  case (Op_set_team uid team)
  show ?thesis unfolding Op_set_team by (rule set_team_safe)
next
  case (Op_delete uid)
  show ?thesis unfolding Op_delete by (rule delete_user_safe)
qed (auto intro!: directory_quiet_safe quiet_for_directory simp del: program.simps)

definition ops_apart :: "(operation \<times> (ddb_error + unit) prog) list \<Rightarrow> bool" where
  "ops_apart ops \<longleftrightarrow> (\<forall>i j c p d q. i < length ops \<longrightarrow> j < length ops \<longrightarrow> i \<noteq> j \<longrightarrow> ops ! i = (c, p) \<longrightarrow> ops ! j = (d, q) \<longrightarrow>
     ended p \<or> ended q \<or> may_overlap c d)"

lemma may_overlap_sym: "may_overlap c d \<Longrightarrow> may_overlap d c"
  by (cases "writes_profile_of d") (auto simp: may_overlap_def)

lemma ops_apart_launch:
  assumes "ops_apart ops" and "list_all (\<lambda>(other, p). ended p \<or> may_overlap oper other) ops"
  shows "ops_apart (ops @ [(oper, p)])"
proof -
  have new: "ended q \<or> may_overlap oper c" if "i < length ops" "ops ! i = (c, q)" for i c q
    using assms(2) that by (fastforce simp: list_all_length)
  show ?thesis unfolding ops_apart_def
  proof (intro allI impI)
    fix i j c q d r
    assume ij: "i < length (ops @ [(oper, p)])" "j < length (ops @ [(oper, p)])" "i \<noteq> j"
      "(ops @ [(oper, p)]) ! i = (c, q)" "(ops @ [(oper, p)]) ! j = (d, r)"
    then consider "i < length ops" "j < length ops" | "i = length ops" "j < length ops" | "i < length ops" "j = length ops"
      by force
    then show "ended q \<or> ended r \<or> may_overlap c d"
    proof cases
      case 1
      with ij assms(1) show ?thesis unfolding ops_apart_def nth_append by auto
    next
      case 2
      with ij new show ?thesis by (auto simp: nth_append)
    next
      case 3
      with ij have "oper = d" "ops ! i = (c, q)" by (auto simp: nth_append)
      with 3 new may_overlap_sym show ?thesis by blast
    qed
  qed
qed

lemma ops_apart_update:
  assumes "ops_apart ops" and "i < length ops" and "ops ! i = (c, p)" and "\<not> ended p"
  shows "ops_apart (ops[i := (c, q)])"
  unfolding ops_apart_def
proof (intro allI impI)
  fix a b e r d s
  assume ab: "a < length (ops[i := (c, q)])" "b < length (ops[i := (c, q)])" "a \<noteq> b"
    "ops[i := (c, q)] ! a = (e, r)" "ops[i := (c, q)] ! b = (d, s)"
  then consider "a = i" "b \<noteq> i" "e = c" "ops ! b = (d, s)" | "b = i" "a \<noteq> i" "d = c" "ops ! a = (e, r)"
    | "ops ! a = (e, r)" "ops ! b = (d, s)"
    by (cases "a = i"; cases "b = i") auto
  then show "ended r \<or> ended s \<or> may_overlap e d"
  proof cases
    case 1
    with assms ab have "ended p \<or> ended s \<or> may_overlap c d" unfolding ops_apart_def by (metis length_list_update)
    with 1 assms(4) show ?thesis by simp
  next
    case 2
    with assms ab have "ended r \<or> ended p \<or> may_overlap e c" unfolding ops_apart_def by (metis length_list_update)
    with 2 assms(4) show ?thesis by blast
  next
    case 3
    with assms(1) ab show ?thesis unfolding ops_apart_def by (metis length_list_update)
  qed
qed

text \<open>Whatever discipline holds for the programs one by one holds for the whole system.\<close>

lemma reachable_safe:
  assumes disc: "interference rely guar overlap"
    and "good []" and prog: "\<And>oper T. clock_ok oper \<Longrightarrow> safe (outcomes (Suc pg)) good (rely oper) (guar oper) (program pages oper) T"
    and over: "\<And>c d. may_overlap c d \<Longrightarrow> overlap c d"
  shows "directory_reachable pg pages S \<Longrightarrow> good (dy_table S) \<and> ops_apart (dy_ops S) \<and>
    (\<forall>j d p. j < length (dy_ops S) \<longrightarrow> dy_ops S ! j = (d, p) \<longrightarrow> safe (outcomes (Suc pg)) good (rely d) (guar d) p (dy_table S))"
proof (induction rule: directory_reachable.induct)
  case start
  then show ?case using assms(2) by (simp add: ops_apart_def)
next
  case (step S S')
  from step.hyps(2) show ?case
  proof cases
    case (launch oper ops T)
    with step.IH ops_apart_launch [of ops oper] prog show ?thesis
      by (auto simp: nth_append less_Suc_eq split: if_splits)
  next
    case (request i ops oper rq k x T' T)
    have apart: "(\<exists>r. p = Return r) \<or> overlap oper d" if "j < length ops" "j \<noteq> i" "ops ! j = (d, p)" for j d p
    proof -
      have "ended (Call rq k) \<or> ended p \<or> may_overlap oper d"
        using step.IH that request unfolding ops_apart_def by auto
      then show ?thesis using over by (cases p) (auto simp: ended_def)
    qed
    have "ops_apart (ops[i := (oper, k x)])"
      using step.IH request by (intro ops_apart_update) (auto simp: ended_def)
    moreover have "good T' \<and> (\<forall>j d p. j < length ops \<longrightarrow> ops[i := (oper, k x)] ! j = (d, p) \<longrightarrow>
        safe (outcomes (Suc pg)) good (rely d) (guar d) p T')"
      using step.IH request apart
      by (intro interference.step_keeps_safe [OF disc, where s = T]) auto
    ultimately show ?thesis using request by auto
  next
    case (crash i ops oper rq k T)
    have "ops_apart (ops[i := (oper, Return (Inl Crashed))])"
      using step.IH crash by (intro ops_apart_update) (auto simp: ended_def)
    with step.IH crash show ?thesis by (auto simp: nth_list_update)
  qed
qed

lemma reachable_directory_good: "directory_reachable pg pages S \<Longrightarrow> directory_good (dy_table S)"
  using reachable_safe [OF profiles.interference_axioms _ program_safe]
  by (simp add: directory_good_def profiles_hold_def claims_typed_def)

section \<open>Enrollment links under interference\<close>

definition used_link :: "ddb_table \<Rightarrow> string \<Rightarrow> enrollment \<Rightarrow> bool" where
  "used_link T h e \<longleftrightarrow> map_of T (enroll_pk h, enroll_sk) = Some (Enroll_row e) \<and> redeemed e"

definition links_typed :: "ddb_table \<Rightarrow> bool" where
  "links_typed T \<longleftrightarrow> (\<forall>h i. map_of T (enroll_pk h, enroll_sk) = Some i \<longrightarrow> (\<exists>e. i = Enroll_row e))"

definition links_kept :: "operation \<Rightarrow> ddb_table \<Rightarrow> ddb_table \<Rightarrow> bool" where
  "links_kept oper T T' \<longleftrightarrow> (\<forall>h e. used_link T h e \<longrightarrow> used_link T' h e)"

interpretation links: interference "outcomes pg" links_typed links_kept links_kept "\<lambda>_ _. True" for pg
  by unfold_locales (auto simp: links_kept_def)

definition redeem_key :: "string \<Rightarrow> ddb_key" where
  "redeem_key h = (enroll_pk h, enroll_sk)"

definition redeem_put :: "string \<Rightarrow> go_time \<Rightarrow> enrollment \<Rightarrow> (ddb_error + unit) prog" where
  "redeem_put h now e = Call (Put_item (redeem_key h) (Enroll_row (e\<lparr>en_UsedAt := now\<rparr>)) Unused) (\<lambda>x. case x of
     Carried_out \<Rightarrow> Return (Inr ()) | Refused \<Rightarrow> Return (Inl (Store_refused Enrollment_invalid))
   | _ \<Rightarrow> Return (Inl Request_failed))"

definition redeem_next :: "string \<Rightarrow> go_time \<Rightarrow> response \<Rightarrow> (ddb_error + unit) prog" where
  "redeem_next h now x = (case x of
       Found None \<Rightarrow> Return (Inl (Store_refused Enrollment_invalid))
     | Found (Some (Enroll_row e)) \<Rightarrow>
         if redeemed e \<or> expired e now then Return (Inl (Store_refused Enrollment_invalid)) else redeem_put h now e
     | Found (Some _) \<Rightarrow> Return (Inl Bad_item)
     | _ \<Rightarrow> Return (Inl Request_failed))"

lemma redeem_program: "program pages (Op_redeem h now) = Call (Get_item (redeem_key h)) (redeem_next h now)"
  by (simp add: no_value_def ddb_redeem_enrollment_def ddb_get_enrollment_def get_item_def redeem_key_def fun_eq_iff
      redeem_put_def put_item_def redeem_next_def split: response.split option.split ddb_item.split)

lemma link_put:
  assumes "links_typed T" and "cond_holds c (map_of T (redeem_key h))" and "c = Absent \<or> c = Unused"
  shows "links_typed (AList.update (redeem_key h) (Enroll_row e) T)"
    and "links_kept oper T (AList.update (redeem_key h) (Enroll_row e) T)" and "\<not> used_link T h e'"
proof -
  show u: "\<not> used_link T h e'" for e' using assms(2,3) by (auto simp: used_link_def redeem_key_def)
  show "links_typed (AList.update (redeem_key h) (Enroll_row e) T)"
    using assms(1) by (auto simp: links_typed_def update_conv' redeem_key_def)
  show "links_kept oper T (AList.update (redeem_key h) (Enroll_row e) T)"
    using u by (auto simp: links_kept_def used_link_def update_conv' redeem_key_def)
qed

lemma links_program_safe:
  "safe (outcomes pg) links_typed (links_kept oper) (links_kept oper) (program pages oper) T"
proof (cases "is_enrollment oper")
  case False
  show ?thesis
  proof (rule quiet_safe [OF _ _ quiet_for_enrollment [OF False]])
    fix T T' :: ddb_table
    assume same: "\<And>k. enroll_key k \<Longrightarrow> map_of T' k = map_of T k" and "links_typed T"
    then show "links_typed T'" by (simp add: links_typed_def)
  next
    fix T T' :: ddb_table
    assume "\<And>k. enroll_key k \<Longrightarrow> map_of T' k = map_of T k"
    then show "links_kept oper T T'" by (simp add: links_kept_def used_link_def)
  qed
next
  case True
  have refl: "links_kept oper s s" for s by (simp add: links_kept_def)
  show ?thesis
  proof (cases oper)
    case (Op_mint h e)
    have "safe (outcomes pg) links_typed (links_kept oper) (links_kept oper)
        (and_then (put_item (redeem_key h) (Enroll_row e) Absent (Store_refused User_conflict)) Return) T"
      using refl link_put(1,2) by (intro safe_put) (simp_all del: cond_holds.simps)
    moreover have "and_then p Return = p" for p :: "(ddb_error + unit) prog" by (induction p) auto
    ultimately show ?thesis by (simp add: Op_mint ddb_create_enrollment_def redeem_key_def)
  next
    case (Op_redeem h now)
    have put: "safe (outcomes pg) links_typed (links_kept oper) (links_kept oper) (redeem_put h now e) s" for e s
      unfolding redeem_put_def
    proof (rule safe_single)
      fix s1 assume "links_typed s1"
      then show "links_typed (snd (exec pg (Put_item (redeem_key h) (Enroll_row (e\<lparr>en_UsedAt := now\<rparr>)) Unused) s1)) \<and>
          links_kept oper s1 (snd (exec pg (Put_item (redeem_key h) (Enroll_row (e\<lparr>en_UsedAt := now\<rparr>)) Unused) s1))"
        using link_put(1,2) refl by (simp del: cond_holds.simps)
    qed (auto simp: refl ended_def split: response.split)
    show ?thesis unfolding Op_redeem redeem_program
    proof (rule safe_request)
      fix s1 assume s1: "links_typed s1"
      have "safe (outcomes pg) links_typed (links_kept (Op_redeem h now)) (links_kept (Op_redeem h now)) (redeem_next h now x) s" for x s
        using put by (simp add: redeem_next_def Op_redeem split: response.split option.split ddb_item.split)
      then show "links_typed (snd (exec pg (Get_item (redeem_key h)) s1)) \<and>
        links_kept (Op_redeem h now) s1 (snd (exec pg (Get_item (redeem_key h)) s1)) \<and>
        safe (outcomes pg) links_typed (links_kept (Op_redeem h now)) (links_kept (Op_redeem h now))
          (redeem_next h now (fst (exec pg (Get_item (redeem_key h)) s1))) (snd (exec pg (Get_item (redeem_key h)) s1)) \<and>
        safe (outcomes pg) links_typed (links_kept (Op_redeem h now)) (links_kept (Op_redeem h now)) (redeem_next h now Failed) s1 \<and>
        safe (outcomes pg) links_typed (links_kept (Op_redeem h now)) (links_kept (Op_redeem h now)) (redeem_next h now Failed)
          (snd (exec pg (Get_item (redeem_key h)) s1))"
        using s1 refl by (simp add: Op_redeem)
    qed (use refl in \<open>simp add: Op_redeem\<close>)
  qed (use True in simp_all)
qed

text \<open>Who won a link, and the stages of a redemption.\<close>

definition won :: "string \<Rightarrow> operation \<times> (ddb_error + unit) prog \<Rightarrow> bool" where
  "won h run \<longleftrightarrow> (\<exists>now. run = (Op_redeem h now, Return (Inr ())))"

definition redeem_stage :: "string \<Rightarrow> go_time \<Rightarrow> (ddb_error + unit) prog \<Rightarrow> bool" where
  "redeem_stage h now p \<longleftrightarrow>
     p = Call (Get_item (redeem_key h)) (redeem_next h now) \<or> (\<exists>e. p = redeem_put h now e) \<or> ended p"

definition links_system :: "directory \<Rightarrow> bool" where
  "links_system S \<longleftrightarrow>
     list_all (\<lambda>(oper, p). case oper of Op_redeem h now \<Rightarrow> now \<noteq> 0 \<and> redeem_stage h now p | _ \<Rightarrow> True) (dy_ops S) \<and>
     (\<forall>h i j. i < length (dy_ops S) \<longrightarrow> j < length (dy_ops S) \<longrightarrow> won h (dy_ops S ! i) \<longrightarrow> won h (dy_ops S ! j) \<longrightarrow> i = j) \<and>
     (\<forall>h i. i < length (dy_ops S) \<longrightarrow> won h (dy_ops S ! i) \<longrightarrow> (\<exists>e. used_link (dy_table S) h e))"

lemma redeem_stage_next:
  assumes "redeem_stage h now (Call rq k)" and "(x, T') \<in> set (outcomes pg rq T)" and "now \<noteq> 0"
  shows "redeem_stage h now (k x)"
    and "k x = Return (Inr ()) \<Longrightarrow> (\<forall>e. \<not> used_link T h e) \<and> (\<exists>e. used_link T' h e)"
proof -
  from assms(1) consider "rq = Get_item (redeem_key h)" "k = redeem_next h now"
    | e where "Call rq k = redeem_put h now e"
    by (auto simp: redeem_stage_def ended_def)
  then have "redeem_stage h now (k x) \<and> (k x = Return (Inr ()) \<longrightarrow> (\<forall>e. \<not> used_link T h e) \<and> (\<exists>e. used_link T' h e))"
  proof cases
    case 1
    have "k x \<noteq> Return (Inr ())"
      by (simp add: 1 redeem_next_def redeem_put_def split: response.split option.split ddb_item.split)
    moreover have "redeem_stage h now (k x)"
      by (auto simp: 1 redeem_next_def redeem_stage_def ended_def split: response.split option.split ddb_item.split)
    ultimately show ?thesis by simp
  next
    case 2
    have "ended (k x)" using 2 by (auto simp: redeem_put_def ended_def split: response.split)
    moreover have "x = Carried_out" if "k x = Return (Inr ())"
      using that 2 by (auto simp: redeem_put_def split: response.splits)
    moreover have "(\<forall>e. \<not> used_link T h e) \<and> (\<exists>e. used_link T' h e)" if "x = Carried_out"
      using that assms(2,3) 2
      by (auto simp: redeem_put_def outcomes_def used_link_def redeem_key_def update_conv' redeemed_def is_zero_time_def
          split: if_splits option.splits ddb_item.splits)
    ultimately show ?thesis by (auto simp: redeem_stage_def)
  qed
  then show "redeem_stage h now (k x)"
    "k x = Return (Inr ()) \<Longrightarrow> (\<forall>e. \<not> used_link T h e) \<and> (\<exists>e. used_link T' h e)" by blast+
qed

lemma links_system_request:
  assumes S: "links_system \<lparr>dy_table = T, dy_ops = ops\<rparr>" and i: "i < length ops" "ops ! i = (oper, Call rq k)"
    and x: "(x, T') \<in> set (outcomes pg rq T)" and kept: "links_kept oper T T'"
  shows "links_system \<lparr>dy_table = T', dy_ops = ops[i := (oper, k x)]\<rparr>"
proof -
  let ?ops' = "ops[i := (oper, k x)]"
  have stage: "case oper of Op_redeem h now \<Rightarrow> now \<noteq> 0 \<and> redeem_stage h now (Call rq k) | _ \<Rightarrow> True"
    using S i by (auto simp: links_system_def list_all_length)
  have stages: "list_all (\<lambda>(oper, p). case oper of Op_redeem h now \<Rightarrow> now \<noteq> 0 \<and> redeem_stage h now p | _ \<Rightarrow> True) ?ops'"
  proof -
    have "case oper of Op_redeem h now \<Rightarrow> now \<noteq> 0 \<and> redeem_stage h now (k x) | _ \<Rightarrow> True"
      using stage redeem_stage_next(1) x by (auto split: operation.splits)
    then show ?thesis using S set_update_subset_insert [of ops i "(oper, k x)"]
      by (fastforce simp: links_system_def list_all_iff)
  qed
  have old: "won h (ops ! j)" if "j < length ?ops'" "j \<noteq> i" "won h (?ops' ! j)" for h j using that by simp
  have new: "(\<forall>e. \<not> used_link T h e) \<and> (\<exists>e. used_link T' h e)" if "won h (?ops' ! i)" for h
  proof -
    have "won h (oper, k x)" using that i(1) by simp
    then obtain now where "oper = Op_redeem h now" "k x = Return (Inr ())" by (auto simp: won_def)
    then show ?thesis using redeem_stage_next(2) x stage by auto
  qed
  have used: "\<exists>e. used_link T h e" if "j < length ops" "won h (ops ! j)" for h j
    using S that by (auto simp: links_system_def)
  have "j = j'" if "j < length ?ops'" "j' < length ?ops'" "won h (?ops' ! j)" "won h (?ops' ! j')" for h j j'
  proof (cases "j = i \<or> j' = i")
    case True
    then show ?thesis using that old new used by (metis length_list_update)
  next
    case False
    then show ?thesis using that old S by (auto simp: links_system_def)
  qed
  moreover have "\<exists>e. used_link T' h e" if "j < length ?ops'" "won h (?ops' ! j)" for h j
    using that old new used kept unfolding links_kept_def by (metis length_list_update)
  ultimately show ?thesis using stages unfolding links_system_def by simp
qed

lemma reachable_links_system: "directory_reachable pg pages S \<Longrightarrow> links_system S"
proof (induction rule: directory_reachable.induct)
  case start
  then show ?case by (simp add: links_system_def)
next
  case (step S S')
  have safe: "links_typed (dy_table S) \<and> ops_apart (dy_ops S) \<and> (\<forall>j d p. j < length (dy_ops S) \<longrightarrow> dy_ops S ! j = (d, p) \<longrightarrow>
      safe (outcomes (Suc pg)) links_typed (links_kept d) (links_kept d) p (dy_table S))"
    using reachable_safe [OF links.interference_axioms _ links_program_safe TrueI step.hyps(1)]
    by (simp add: links_typed_def [of "[]"])
  from step.hyps(2) show ?case
  proof cases
    case (launch oper ops T)
    have "\<not> won h (oper, program pages oper)" for h
      unfolding won_def using redeem_program by (auto simp del: program.simps)
    moreover have "case oper of Op_redeem h now \<Rightarrow> now \<noteq> 0 \<and> redeem_stage h now (program pages oper) | _ \<Rightarrow> True"
      using launch redeem_program by (auto simp: redeem_stage_def simp del: program.simps split: operation.split)
    ultimately show ?thesis using step.IH launch
      by (auto simp: links_system_def nth_append less_Suc_eq)
  next
    case (request i ops oper rq k x T' T)
    have "\<forall>j d p. j < length ops \<longrightarrow> ops ! j = (d, p) \<longrightarrow>
        safe (outcomes (Suc pg)) links_typed (links_kept d) (links_kept d) p T" and typed: "links_typed T"
      using safe request(1) by simp_all
    then have "safe (outcomes (Suc pg)) links_typed (links_kept oper) (links_kept oper) (Call rq k) T"
      using request(3,4) by blast
    moreover have "links_kept oper T T" by (simp add: links_kept_def)
    ultimately have "links_kept oper T T'" using typed request(5) unfolding safe.simps by blast
    then show ?thesis using request step.IH links_system_request by auto
  next
    case (crash i ops oper rq k T)
    have "list_all (\<lambda>(oper, p). case oper of Op_redeem h now \<Rightarrow> now \<noteq> 0 \<and> redeem_stage h now p | _ \<Rightarrow> True)
        (ops[i := (oper, Return (Inl Crashed))])"
    proof -
      have "case oper of Op_redeem h now \<Rightarrow> now \<noteq> 0 \<and> redeem_stage h now (Return (Inl Crashed)) | _ \<Rightarrow> True"
        using step.IH crash by (auto simp: links_system_def list_all_length redeem_stage_def ended_def split: operation.splits)
      then show ?thesis using step.IH crash set_update_subset_insert [of ops i "(oper, Return (Inl Crashed))"]
        by (fastforce simp: links_system_def list_all_iff)
    qed
    moreover have "won h (ops ! j)" if "j < length ops" "won h (ops[i := (oper, Return (Inl Crashed))] ! j)" for h j
      using that crash by (cases "j = i") (auto simp: won_def)
    note was = this
    have "a = b" if "a < length ops" "b < length ops" "won h (ops[i := (oper, Return (Inl Crashed))] ! a)"
      "won h (ops[i := (oper, Return (Inl Crashed))] ! b)" for h a b
      using step.IH crash was [OF that(1,3)] was [OF that(2,4)] that(1,2) by (auto simp: links_system_def)
    moreover have "\<exists>e. used_link T h e" if "a < length ops" "won h (ops[i := (oper, Return (Inl Crashed))] ! a)" for h a
      using step.IH crash was [OF that] that(1) by (auto simp: links_system_def)
    ultimately show ?thesis unfolding links_system_def crash by simp
  qed
qed

section \<open>One operation after another\<close>

lemma run_prog_reachable:
  "directory_reachable pg pages \<lparr>dy_table = T, dy_ops = ops @ [(oper, p)]\<rparr> \<Longrightarrow>
   directory_reachable pg pages \<lparr>dy_table = snd (run_prog (Suc pg) p T), dy_ops = ops @ [(oper, Return (fst (run_prog (Suc pg) p T)))]\<rparr>"
proof (induction p arbitrary: T)
  case (Call rq k)
  obtain x T' where e: "exec (Suc pg) rq T = (x, T')" by fastforce
  have "directory_step pg pages \<lparr>dy_table = T, dy_ops = ops @ [(oper, Call rq k)]\<rparr>
      \<lparr>dy_table = T', dy_ops = (ops @ [(oper, Call rq k)])[length ops := (oper, k x)]\<rparr>"
    by (rule directory_step.request) (auto simp: outcomes_def e)
  then have "directory_reachable pg pages \<lparr>dy_table = T', dy_ops = ops @ [(oper, k x)]\<rparr>"
    using Call.prems by (auto intro: directory_reachable.step)
  from Call.IH [OF rangeI this] show ?case by (simp add: e)
qed simp

lemma run_alone:
  assumes "directory_reachable pg pages \<lparr>dy_table = T, dy_ops = ops\<rparr>" and "clock_ok oper"
    and "list_all (\<lambda>(_, p). ended p) ops" and "run_prog (Suc pg) (program pages oper) T = (r, T')"
  shows "directory_reachable pg pages \<lparr>dy_table = T', dy_ops = ops @ [(oper, Return r)]\<rparr>"
proof -
  have "list_all (\<lambda>(other, p). ended p \<or> may_overlap oper other) ops"
    using assms(3) by (auto simp: list_all_iff)
  then have "directory_reachable pg pages \<lparr>dy_table = T, dy_ops = ops @ [(oper, program pages oper)]\<rparr>"
    by (intro directory_reachable.step [OF assms(1)] directory_step.launch assms(2))
  from run_prog_reachable [OF this] show ?thesis by (simp add: assms(4))
qed

section \<open>Properties\<close>

text \<open>C29. A team has one manager and an email address one user, at every moment of any interleaving of
  the store's operations: with every order of their single requests, with requests that fail or
  whose answers are lost, and with callers that die half-way, as long as nobody writes a profile
  while its user is being deleted. Two stored profiles with the same team, or with the same address up to case, are one.\<close>

theorem one_manager_per_team:
  assumes "directory_reachable pg pages S"
    and "map_of (dy_table S) (profile_key u) = Some (Profile p v)"
    and "map_of (dy_table S) (profile_key w) = Some (Profile q x)"
    and "us_TeamID p \<noteq> [] \<and> us_TeamID p = us_TeamID q \<or> us_Email p \<noteq> [] \<and> us_Email q \<noteq> [] \<and> to_lower (us_Email p) = to_lower (us_Email q)"
  shows "u = w"
proof -
  have good: "directory_good (dy_table S)" using assms(1) by (rule reachable_directory_good)
  have "claims_held (dy_table S) u p" "claims_held (dy_table S) w q"
    using directory_goodD(2) [OF good] assms(2,3) by blast+
  moreover have "email_pk (us_Email p) = email_pk (us_Email q)" if "to_lower (us_Email p) = to_lower (us_Email q)"
    using that by simp
  ultimately show ?thesis using assms(4) unfolding claims_held_def by (metis ddb_item.inject(4) option.inject)
qed

definition demo_user :: user where
  "demo_user = \<lparr>us_ID = ''ann'', us_DisplayName = [], us_Email = ''a@x'', us_Role = role_member, us_Status = user_active,
     us_AutoApply = False, us_HitterProjection = [], us_PitcherProjection = [], us_TeamID = ''t1'', us_Memberships = [],
     us_TokenVersion = 0, us_EmailAttestedBy = [], us_EmailAttestedAt = 0, us_CreatedAt = 1, us_Version = []\<rparr>"

definition demo_link :: enrollment where
  "demo_link = \<lparr>en_UserID = ''ann'', en_TeamID = [], en_Email = [], en_ExpiresAt = 100, en_UsedAt = 0\<rparr>"

lemma demo_created:
  "\<exists>T ops. directory_reachable 9 3 \<lparr>dy_table = T, dy_ops = ops\<rparr> \<and>
     map_of T (profile_key ''ann'') = Some (Profile demo_user 1)"
proof -
  have "run_prog (Suc 9) (program 3 (Op_create demo_user)) [] =
      (Inr (), [(profile_key ''ann'', Profile demo_user 1), ((email_pk ''a@x'', pointer_sk), Pointer ''ann''),
        ((team_pk ''t1'', pointer_sk), Pointer ''ann'')])"
    by code_simp
  from run_alone [OF directory_reachable.start _ _ this] show ?thesis by (auto intro!: exI)
qed

theorem one_manager_per_team_witness:
  "\<exists>S. directory_reachable 9 3 S \<and> map_of (dy_table S) (profile_key ''ann'') = Some (Profile demo_user 1) \<and>
     map_of (dy_table S) (profile_key ''bob'') \<noteq> Some (Profile (demo_user\<lparr>us_ID := ''bob''\<rparr>) 1)"
proof -
  obtain T ops where S: "directory_reachable 9 3 \<lparr>dy_table = T, dy_ops = ops\<rparr>"
    "map_of T (profile_key ''ann'') = Some (Profile demo_user 1)"
    using demo_created by blast
  have team: "us_TeamID demo_user = ''t1''" by (simp only: demo_user_def user.simps)
  have "map_of T (profile_key ''bob'') \<noteq> Some (Profile (demo_user\<lparr>us_ID := ''bob''\<rparr>) 1)"
  proof
    assume b: "map_of T (profile_key ''bob'') = Some (Profile (demo_user\<lparr>us_ID := ''bob''\<rparr>) 1)"
    have "''ann'' = ''bob''"
      by (rule one_manager_per_team [OF S(1), where p = demo_user and q = "demo_user\<lparr>us_ID := ''bob''\<rparr>"])
        (simp_all add: S(2) b team)
    then show False by simp
  qed
  with S show ?thesis by (intro exI [where x = "\<lparr>dy_table = T, dy_ops = ops\<rparr>"]) simp
qed

text \<open>C30. A link is redeemed at most once, however many redemptions race: in every reachable state
  of the interleaved store at most one redemption of the link has reported success.\<close>

theorem link_redeemed_once:
  assumes "directory_reachable pg pages S" and "i < length (dy_ops S)" and "j < length (dy_ops S)"
    and "dy_ops S ! i = (Op_redeem h t1, Return (Inr ()))" and "dy_ops S ! j = (Op_redeem h t2, Return (Inr ()))"
  shows "i = j"
proof -
  have "won h (dy_ops S ! i)" "won h (dy_ops S ! j)" using assms(4,5) by (simp_all add: won_def)
  moreover have "\<forall>h i j. i < length (dy_ops S) \<longrightarrow> j < length (dy_ops S) \<longrightarrow> won h (dy_ops S ! i) \<longrightarrow> won h (dy_ops S ! j) \<longrightarrow> i = j"
    using reachable_links_system [OF assms(1)] by (simp add: links_system_def)
  ultimately show ?thesis using assms(2,3) by blast
qed

theorem link_redeemed_once_witness:
  "\<exists>T r. directory_reachable 9 3 \<lparr>dy_table = T, dy_ops = [(Op_mint ''h'' demo_link, Return (Inr ())),
       (Op_redeem ''h'' 5, Return (Inr ())), (Op_redeem ''h'' 6, Return r)]\<rparr> \<and> r \<noteq> Inr ()"
proof -
  let ?mint = "Op_mint ''h'' demo_link" and ?redeem = "\<lambda>now. Op_redeem ''h'' now"
  let ?T1 = "[(redeem_key ''h'', Enroll_row demo_link)]"
  let ?T2 = "[(redeem_key ''h'', Enroll_row (demo_link\<lparr>en_UsedAt := 5\<rparr>))]"
  have "run_prog (Suc 9) (program 3 ?mint) [] = (Inr (), ?T1)" by code_simp
  from run_alone [OF directory_reachable.start _ _ this]
  have 1: "directory_reachable 9 3 \<lparr>dy_table = ?T1, dy_ops = [(?mint, Return (Inr ()))]\<rparr>" by simp
  have "run_prog (Suc 9) (program 3 (?redeem 5)) ?T1 = (Inr (), ?T2)" by code_simp
  from run_alone [OF 1 _ _ this]
  have 2: "directory_reachable 9 3 \<lparr>dy_table = ?T2, dy_ops = [(?mint, Return (Inr ())), (?redeem 5, Return (Inr ()))]\<rparr>"
    by (simp add: ended_def)
  obtain r T where "run_prog (Suc 9) (program 3 (?redeem 6)) ?T2 = (r, T)" by fastforce
  from run_alone [OF 2 _ _ this]
  have 3: "directory_reachable 9 3 \<lparr>dy_table = T, dy_ops = [(?mint, Return (Inr ())), (?redeem 5, Return (Inr ())), (?redeem 6, Return r)]\<rparr>"
    by (simp add: ended_def)
  have "r \<noteq> Inr ()"
  proof
    assume r: "r = Inr ()"
    have "(1 :: nat) = 2" by (rule link_redeemed_once [OF 3]) (simp_all add: r)
    then show False by simp
  qed
  with 3 show ?thesis by blast
qed

end
