(* ===== verification/DDB_Contract.thy ===== *)
theory DDB_Contract
  imports DDB_Races
begin

text \<open>
  What single operations of the DynamoDB store do when nothing interferes, and two ways in which
  interference shows. The lemmas: the connection half is a compare-and-swap register and simulates
  the table of \<open>Connections\<close>; a
  profile change survives up to four lost races; a deletion leaves no row of the user, releases
  the claims and touches nobody else; two racing \<open>SetTeam\<close> leak a claim; \<open>Credentials\<close> drops what
  does not fit its page.
\<close>

section \<open>Connections\<close>

definition conn_view :: "ddb_table \<Rightarrow> conn_table" where
  "conn_view T uid = (case map_of T (user_pk uid, conn_sk) of Some (Fantrax_row c) \<Rightarrow> Some c | _ \<Rightarrow> None)"

definition conn_typed :: "ddb_table \<Rightarrow> bool" where
  "conn_typed T \<longleftrightarrow> (\<forall>uid i. map_of T (user_pk uid, conn_sk) = Some i \<longrightarrow> (\<exists>c. i = Fantrax_row c))"

definition as_conn_error :: "ddb_error \<Rightarrow> conn_error" where
  "as_conn_error e = (case e of No_connection_user \<Rightarrow> No_user_id | Conflict_on_connection \<Rightarrow> Conn_conflict | _ \<Rightarrow> Store_down)"

definition as_conn_result :: "ddb_error + 'a \<Rightarrow> conn_error + 'a" where
  "as_conn_result r = (case r of Inl e \<Rightarrow> Inl (as_conn_error e) | Inr c \<Rightarrow> Inr c)"

lemma conn_typed_view:
  "conn_typed T \<Longrightarrow> map_of T (user_pk uid, conn_sk) = map_option Fantrax_row (conn_view T uid)"
  by (fastforce simp: conn_typed_def conn_view_def split: option.split ddb_item.split)

lemma conn_view_update:
  "conn_view (AList.update (user_pk uid, conn_sk) (Fantrax_row c) T) = (conn_view T)(uid \<mapsto> c)"
  by (auto simp: conn_view_def update_conv' fun_eq_iff)

lemma conn_cond_view:
  "cond_holds (conn_cond v) (map_option Fantrax_row o') \<longleftrightarrow> put_condition v o'"
  by (cases v; cases o') (auto simp: conn_cond_def put_condition_def)

lemma run_get_item [simp]: "run_prog pg (get_item k) T = (Inr (map_of T k), T)"
  by (simp add: get_item_def)

lemma run_put_item [simp]:
  "run_prog pg (put_item k i c e) T =
     (if cond_holds c (map_of T k) then (Inr (), AList.update k i T) else (Inl e, T))"
  by (simp add: put_item_def)

lemma run_delete_item [simp]: "run_prog pg (delete_item k) T = (Inr (), AList.delete k T)"
  by (simp add: delete_item_def)

text \<open>The operations simulate those of the table of \<open>Connections\<close>, whose races are proved there.\<close>

lemma connection_table_simulated:
  assumes "conn_typed T"
  shows "run_prog pg (ddb_get_connection uid) T = (Inr (get_connection (conn_view T) uid), T) \<and>
    (case run_prog pg (ddb_put_connection now c) T of (r, T') \<Rightarrow>
       put_connection now True c (conn_view T) = (as_conn_result r, conn_view T') \<and> conn_typed T')"
proof
  show "run_prog pg (ddb_get_connection uid) T = (Inr (get_connection (conn_view T) uid), T)"
    by (simp add: ddb_get_connection_def run_on_ok conn_typed_view [OF assms] get_connection_def split: option.split)
  let ?k = "(user_pk (fc_UserID c), conn_sk)"
  have "cond_holds (conn_cond (fc_Version c)) (map_of T ?k) \<longleftrightarrow> put_condition (fc_Version c) (conn_view T (fc_UserID c))"
    by (simp add: conn_typed_view [OF assms] conn_cond_view del: cond_holds.simps)
  moreover have "conn_typed (AList.update ?k (Fantrax_row i) T)" for i
    using assms by (auto simp: conn_typed_def update_conv')
  ultimately show "case run_prog pg (ddb_put_connection now c) T of (r, T') \<Rightarrow>
       put_connection now True c (conn_view T) = (as_conn_result r, conn_view T') \<and> conn_typed T'"
    using assms
    by (auto simp: ddb_put_connection_def put_connection_def run_on_ok Let_def as_conn_result_def as_conn_error_def
        conn_view_update simp del: cond_holds.simps)
qed

text \<open>The register a caller sees: what \<open>GetConnection\<close> returns for each user, the table unchanged.\<close>

definition reads_as :: "ddb_table \<Rightarrow> (string \<rightharpoonup> fantrax_connection) \<Rightarrow> bool" where
  "reads_as T R \<longleftrightarrow> (\<forall>pg uid. run_prog pg (ddb_get_connection uid) T = (Inr (R uid), T))"

text \<open>The version a writer has to hold: the one of the record it read, none while there is no record.\<close>

definition version_held :: "fantrax_connection option \<Rightarrow> conn_version" where
  "version_held r = (case r of None \<Rightarrow> V_none | Some cur \<Rightarrow> fc_Version cur)"

lemma reads_as_iff: "reads_as T R \<longleftrightarrow> conn_typed T \<and> R = get_connection (conn_view T)"
proof
  assume R: "reads_as T R"
  have "conn_typed T"
    unfolding conn_typed_def
  proof (intro allI impI)
    fix uid i
    assume "map_of T (user_pk uid, conn_sk) = Some i"
    with R [unfolded reads_as_def, rule_format, of 0 uid] show "\<exists>c. i = Fantrax_row c"
      by (cases i) (simp_all add: ddb_get_connection_def run_on_ok)
  qed
  moreover have "R uid = get_connection (conn_view T) uid" for uid
    using R connection_table_simulated [OF calculation, of 0 uid] unfolding reads_as_def by simp
  ultimately show "conn_typed T \<and> R = get_connection (conn_view T)" by (simp add: ext)
qed (use connection_table_simulated in \<open>auto simp: reads_as_def\<close>)

lemma put_condition_held:
  assumes "versions_ok t"
  shows "put_condition (fc_Version c) (t u) \<longleftrightarrow> fc_Version c = version_held (get_connection t u)"
proof (cases "t u")
  case None
  then show ?thesis by (auto simp: put_condition_def version_held_def get_connection_def split: conn_version.split)
next
  case (Some i)
  show ?thesis
  proof (cases "ci_Ver i")
    case None
    with Some show ?thesis
      by (auto simp: put_condition_def version_held_def get_connection_def conn_version_of_def conn_unversioned_def
          split: conn_version.split)
  next
    case (Some v)
    then have "1 \<le> v" using assms \<open>t u = Some i\<close> by (simp add: versions_ok_def)
    with Some \<open>t u = Some i\<close> show ?thesis
      by (auto simp: put_condition_def version_held_def get_connection_def conn_version_of_def conn_unversioned_def
          split: conn_version.split)
  qed
qed

lemma next_version_held:
  "v = version_held (get_connection t u) \<Longrightarrow>
   (case get_connection t u of None \<Rightarrow> next_version v = 1 | Some cur \<Rightarrow> \<exists>m. fc_Version cur = V_num m \<and> m < next_version v)"
  by (auto simp: version_held_def next_version_def get_connection_def conn_version_of_def conn_unversioned_def
      split: option.splits conn_version.splits)

text \<open>C31. The connections in the DynamoDB table are a compare-and-swap register over what
  \<open>GetConnection\<close> returns. A write without a user is refused. A write is refused as a conflict
  exactly when its version is not the one of the record a read would now return (or when it carries
  a version and there is no record, or none and there is one); a refused write changes nothing.
  Otherwise it is accepted: the record it returns is the written one with the time of the write and
  a new version, 1 for the first write and above the replaced one's otherwise; from then on every
  read of this user returns exactly that record, reads of other users return what they did, and no
  other row of the table changes. The version attributes stay positive, so this holds for any
  sequence of writes.\<close>

theorem connections_refined:
  assumes "reads_as T R" and "versions_ok (conn_view T)" and "run_prog pg (ddb_put_connection now c) T = (res, T')"
  shows "if fc_UserID c = [] then res = Inl No_connection_user \<and> T' = T
    else if fc_Version c \<noteq> version_held (R (fc_UserID c)) then res = Inl Conflict_on_connection \<and> T' = T
    else (\<exists>n. let stored = c\<lparr>fc_UpdatedAt := now, fc_Version := V_num n\<rparr> in
        res = Inr stored \<and> reads_as T' (R(fc_UserID c \<mapsto> stored)) \<and> versions_ok (conn_view T') \<and>
        (case R (fc_UserID c) of None \<Rightarrow> n = 1 | Some cur \<Rightarrow> \<exists>m. fc_Version cur = V_num m \<and> m < n) \<and>
        (\<forall>k. k \<noteq> (user_pk (fc_UserID c), conn_sk) \<longrightarrow> map_of T' k = map_of T k))"
proof -
  let ?u = "fc_UserID c" and ?n = "next_version (fc_Version c)"
  let ?k = "(user_pk ?u, conn_sk)"
  have typed: "conn_typed T" and R: "R = get_connection (conn_view T)" using assms(1) reads_as_iff by blast+
  have "cond_holds (conn_cond (fc_Version c)) (map_of T ?k) \<longleftrightarrow> put_condition (fc_Version c) (conn_view T ?u)"
    by (simp add: conn_typed_view [OF typed] conn_cond_view del: cond_holds.simps)
  then have run: "(res, T') = (if ?u = [] then (Inl No_connection_user, T)
      else if fc_Version c \<noteq> version_held (R ?u) then (Inl Conflict_on_connection, T)
      else (Inr (c\<lparr>fc_UpdatedAt := now, fc_Version := V_num ?n\<rparr>),
        AList.update ?k (Fantrax_row \<lparr>ci_Conn = c\<lparr>fc_UpdatedAt := now, fc_Version := V_none\<rparr>, ci_Ver = Some ?n\<rparr>) T))"
    using assms(3) put_condition_held [OF assms(2), of c ?u]
    by (simp add: R ddb_put_connection_def run_on_ok Let_def split: if_splits del: cond_holds.simps)
  show ?thesis
  proof (cases "?u = [] \<or> fc_Version c \<noteq> version_held (R ?u)")
    case True
    with run show ?thesis by (auto split: if_splits)
  next
    case False
    let ?stored = "c\<lparr>fc_UpdatedAt := now, fc_Version := V_num ?n\<rparr>"
    have T': "res = Inr ?stored" "T' = AList.update ?k (Fantrax_row
        \<lparr>ci_Conn = c\<lparr>fc_UpdatedAt := now, fc_Version := V_none\<rparr>, ci_Ver = Some ?n\<rparr>) T" using run False by simp_all
    have n: "case R ?u of None \<Rightarrow> ?n = 1 | Some cur \<Rightarrow> \<exists>m. fc_Version cur = V_num m \<and> m < ?n"
      using False unfolding R by (intro next_version_held) simp
    have sim: "put_connection now True c (conn_view T) = (as_conn_result res, conn_view T')" "conn_typed T'"
      using connection_table_simulated [OF typed, of pg _ now c, unfolded assms(3)] by simp_all
    then have "versions_ok (conn_view T')" using versions_ok_put [OF assms(2), of now True c] by simp
    moreover have "get_connection (conn_view T') = (get_connection (conn_view T))(?u \<mapsto> ?stored)"
      by (auto simp: T'(2) conn_view_update get_connection_def conn_version_of_def fun_eq_iff)
    then have "reads_as T' (R(?u \<mapsto> ?stored))" using sim(2) by (simp add: reads_as_iff R)
    moreover have "\<forall>k. k \<noteq> ?k \<longrightarrow> map_of T' k = map_of T k" by (simp add: T'(2) update_conv')
    ultimately show ?thesis using False T'(1) n by (auto simp: Let_def intro!: exI [of _ ?n])
  qed
qed

text \<open>Two writers that both read that there is no record: the first is stored, the second refused.\<close>

theorem connections_refined_witness:
  "\<exists>T n. run_prog 4 (ddb_put_connection 7 (bare_connection ''ann'')) [] =
       (Inr ((bare_connection ''ann'')\<lparr>fc_UpdatedAt := 7, fc_Version := V_num n\<rparr>), T) \<and>
     run_prog 4 (ddb_get_connection ''ann'') T =
       (Inr (Some ((bare_connection ''ann'')\<lparr>fc_UpdatedAt := 7, fc_Version := V_num n\<rparr>)), T) \<and>
     run_prog 4 (ddb_put_connection 8 (bare_connection ''ann'')) T = (Inl Conflict_on_connection, T)"
proof -
  let ?c = "bare_connection ''ann''"
  have b: "fc_UserID ?c = ''ann''" "fc_Version ?c = V_none" by (simp_all add: bare_connection_def)
  have e: "reads_as [] Map.empty" "versions_ok (conn_view [])"
    by (auto simp: reads_as_iff conn_typed_def get_connection_def conn_view_def versions_ok_def fun_eq_iff)
  obtain res T where 1: "run_prog 4 (ddb_put_connection 7 ?c) [] = (res, T)" by fastforce
  obtain res2 T2 where 2: "run_prog 4 (ddb_put_connection 8 ?c) T = (res2, T2)" by fastforce
  obtain n where n: "res = Inr (?c\<lparr>fc_UpdatedAt := 7, fc_Version := V_num n\<rparr>)"
    "reads_as T [''ann'' \<mapsto> ?c\<lparr>fc_UpdatedAt := 7, fc_Version := V_num n\<rparr>]" "versions_ok (conn_view T)"
    using connections_refined [OF e 1] b by (auto simp: version_held_def Let_def)
  from connections_refined [OF n(2,3) 2] b have "res2 = Inl Conflict_on_connection" "T2 = T"
    by (simp_all add: version_held_def)
  moreover have "run_prog 4 (ddb_get_connection ''ann'') T = (Inr (Some (?c\<lparr>fc_UpdatedAt := 7, fc_Version := V_num n\<rparr>)), T)"
    using n(2) by (simp add: reads_as_def)
  ultimately show ?thesis using 1 2 n(1) by auto
qed

section \<open>Deleting a user\<close>

text \<open>\<open>T'\<close> is \<open>T\<close> without some of the rows in \<open>K\<close>.\<close>

definition removes :: "(ddb_key \<Rightarrow> bool) \<Rightarrow> ddb_table \<Rightarrow> ddb_table \<Rightarrow> bool" where
  "removes K T T' \<longleftrightarrow> (\<forall>k. map_of T' k = map_of T k \<or> map_of T' k = None \<and> K k)"

lemma removes_refl [simp]: "removes K T T"
  by (simp add: removes_def)

lemma removes_trans: "removes K T T1 \<Longrightarrow> removes K T1 T2 \<Longrightarrow> removes K T T2"
  unfolding removes_def by metis

lemma removes_delete [simp]: "removes K T (AList.delete k T) \<longleftrightarrow> K k \<or> map_of T k = None"
proof
  assume "removes K T (AList.delete k T)"
  then have "map_of (AList.delete k T) k = map_of T k \<or> map_of (AList.delete k T) k = None \<and> K k"
    unfolding removes_def by blast
  then show "K k \<or> map_of T k = None" by (auto simp: delete_conv')
next
  assume "K k \<or> map_of T k = None"
  then show "removes K T (AList.delete k T)" by (auto simp: removes_def delete_conv')
qed

lemma removes_mono: "removes K T T' \<Longrightarrow> (\<And>k. map_of T k \<noteq> None \<Longrightarrow> K k \<Longrightarrow> K' k) \<Longrightarrow> removes K' T T'"
  unfolding removes_def by metis

lemma removes_None: "removes K T T' \<Longrightarrow> map_of T k = None \<Longrightarrow> map_of T' k = None"
  unfolding removes_def by metis

lemma removes_Some: "removes K T T' \<Longrightarrow> map_of T' k = Some i \<Longrightarrow> map_of T k = Some i"
  unfolding removes_def by (metis option.distinct(1))

text \<open>What a deletion may remove: the user's rows, the index rows of his passkeys, and the token
  pointers that name him.\<close>

definition swept_key :: "string \<Rightarrow> ddb_table \<Rightarrow> ddb_key \<Rightarrow> bool" where
  "swept_key uid T k \<longleftrightarrow>
     fst k = user_pk uid \<or>
     snd k = pointer_sk \<and> has_prefix (fst k) cred_prefix \<and> map_of T (user_pk uid, fst k) \<noteq> None \<or>
     (\<exists>tok i. k = (push_token_pk tok, pointer_sk) \<and> map_of T k = Some i \<and> uid_attr i = uid)"

lemma swept_key_mono: "removes K T T1 \<Longrightarrow> swept_key uid T1 k \<Longrightarrow> swept_key uid T k"
  unfolding swept_key_def by (metis removes_None removes_Some)

lemma release_token_run:
  "\<exists>T'. run_prog pg (release_push_token tok uid) T = (Inr (), T') \<and> removes (swept_key uid T) T T' \<and>
     (\<forall>u sk. map_of T' (user_pk u, sk) = map_of T (user_pk u, sk))"
  by (auto simp: release_push_token_def run_on_ok swept_key_def delete_conv' split: option.split)

lemma sweep_rows_run:
  assumes "\<forall>(sk, i) \<in> set rows. map_of T0 (user_pk uid, sk) \<noteq> None"
  shows "removes (swept_key uid T0) T0 T \<Longrightarrow>
    \<exists>T'. run_prog pg (sweep_rows uid rows) T = (Inr (), T') \<and> removes (swept_key uid T0) T T' \<and>
      (\<forall>(sk, i) \<in> set rows. map_of T' (user_pk uid, sk) = None \<and>
         (has_prefix sk cred_prefix \<longrightarrow> map_of T' (sk, pointer_sk) = None)) \<and>
      (\<forall>sk. sk \<notin> fst ` set rows \<longrightarrow> map_of T' (user_pk uid, sk) = map_of T (user_pk uid, sk))"
  using assms
proof (induction rows arbitrary: T)
  case (Cons row rows)
  obtain sk i where row: "row = (sk, i)" by (cases row)
  define T1 where "T1 = (if has_prefix sk cred_prefix then AList.delete (sk, pointer_sk) T else T)"
  have 1: "run_prog pg (if has_prefix sk cred_prefix then delete_item (sk, pointer_sk) else Return (Inr ())) T = (Inr (), T1)"
    by (simp add: T1_def)
  have r1: "removes (swept_key uid T0) T T1"
    using Cons.prems(2) by (simp add: T1_def swept_key_def row)
  then have r01: "removes (swept_key uid T0) T0 T1" using Cons.prems(1) removes_trans by blast
  obtain T2 where 2: "run_prog pg (if has_prefix sk push_device_prefix then release_push_token (token_attr i) uid else Return (Inr ())) T1 = (Inr (), T2)"
    and r2: "removes (swept_key uid T0) T1 T2" and u2: "\<forall>u sk. map_of T2 (user_pk u, sk) = map_of T1 (user_pk u, sk)"
  proof (cases "has_prefix sk push_device_prefix")
    case True
    then obtain T' where "run_prog pg (release_push_token (token_attr i) uid) T1 = (Inr (), T')" "removes (swept_key uid T1) T1 T'"
      "\<forall>u sk. map_of T' (user_pk u, sk) = map_of T1 (user_pk u, sk)"
      using release_token_run by blast
    moreover have "removes (swept_key uid T0) T1 T'"
      using removes_mono [OF calculation(2)] swept_key_mono [OF r01] by blast
    ultimately show thesis using that True by simp
  qed (use that in simp)
  define T3 where "T3 = AList.delete (user_pk uid, sk) T2"
  have r3: "removes (swept_key uid T0) T2 T3" by (simp add: T3_def swept_key_def)
  have r03: "removes (swept_key uid T0) T0 T3" using r01 r2 r3 removes_trans by blast
  obtain T' where 4: "run_prog pg (sweep_rows uid rows) T3 = (Inr (), T')" "removes (swept_key uid T0) T3 T'"
    "\<forall>(sk, i) \<in> set rows. map_of T' (user_pk uid, sk) = None \<and> (has_prefix sk cred_prefix \<longrightarrow> map_of T' (sk, pointer_sk) = None)"
    "\<forall>sk. sk \<notin> fst ` set rows \<longrightarrow> map_of T' (user_pk uid, sk) = map_of T3 (user_pk uid, sk)"
    using Cons.IH [OF r03] Cons.prems(2) by auto
  have "map_of T3 (user_pk uid, sk) = None" by (simp add: T3_def delete_conv')
  then have n1: "map_of T' (user_pk uid, sk) = None" using 4(2) removes_None by blast
  have n2: "map_of T' (sk, pointer_sk) = None" if "has_prefix sk cred_prefix"
  proof -
    have "map_of T1 (sk, pointer_sk) = None" using that by (simp add: T1_def delete_conv')
    then show ?thesis using removes_None r2 r3 4(2) by blast
  qed
  have "run_prog pg (sweep_rows uid (row # rows)) T = (Inr (), T')"
    by (simp add: row run_on_ok 1 2 T3_def [symmetric] 4(1) del: if_split)
  moreover have "removes (swept_key uid T0) T T'" using r1 r2 r3 4(2) removes_trans by blast
  moreover have "map_of T' (user_pk uid, x) = map_of T (user_pk uid, x)" if "x \<notin> fst ` set (row # rows)" for x
  proof -
    have "map_of T1 (user_pk uid, x) = map_of T (user_pk uid, x)"
      using prefix_no_claim [of sk] by (auto simp: T1_def delete_conv')
    then show ?thesis using that 4(4) u2 by (simp add: T3_def delete_conv' row)
  qed
  ultimately show ?case using 4(3) n1 n2 by (auto simp: row)
qed simp

lemma query_rows_mem:
  "(sk, i) \<in> set (query_rows T pk [] start) \<longleftrightarrow>
     ((pk, sk), i) \<in> set T \<and> (case start of None \<Rightarrow> True | Some x \<Rightarrow> x < sk)"
  by (force simp: query_rows_def split: option.split)

definition own_rows :: "string \<Rightarrow> ddb_table \<Rightarrow> string set" where
  "own_rows uid T = {sk. map_of T (user_pk uid, sk) \<noteq> None}"

lemma own_rows_finite [simp]: "finite (own_rows uid T)"
proof -
  have "own_rows uid T \<subseteq> snd ` fst ` set T" by (force simp: own_rows_def dest: map_of_SomeD)
  then show ?thesis using finite_subset by blast
qed

lemma own_rows_mono: "removes K T T1 \<Longrightarrow> own_rows uid T1 \<subseteq> own_rows uid T"
proof
  fix sk
  assume r: "removes K T T1" and sk: "sk \<in> own_rows uid T1"
  show "sk \<in> own_rows uid T"
    using removes_None [OF r, of "(user_pk uid, sk)"] sk by (cases "map_of T (user_pk uid, sk)") (simp_all add: own_rows_def)
qed

lemma page_bound:
  assumes "length rows > Suc pg" and "sorted (map fst rows)" and "(sk, i) \<in> set rows" and "sk \<le> fst (last (take (Suc pg) rows))"
  shows "sk \<in> fst ` set (take (Suc pg) rows)"
proof (cases "(sk, i) \<in> set (take (Suc pg) rows)")
  case False
  then have "(sk, i) \<in> set (drop (Suc pg) rows)"
    using assms(3) set_append [of "take (Suc pg) rows" "drop (Suc pg) rows"] by auto
  moreover have "sorted (map fst (take (Suc pg) rows) @ map fst (drop (Suc pg) rows))"
    using assms(2) by (metis append_take_drop_id map_append)
  ultimately have "\<forall>x \<in> set (map fst (take (Suc pg) rows)). x \<le> sk" by (force simp: sorted_append)
  moreover have ne: "take (Suc pg) rows \<noteq> []" using assms(1) by auto
  then have l: "fst (last (take (Suc pg) rows)) \<in> fst ` set (take (Suc pg) rows)" using last_in_set by blast
  ultimately have "fst (last (take (Suc pg) rows)) = sk" using assms(4) by force
  then show ?thesis using l by simp
qed force

lemma sweep_pages_run:
  "card (own_rows uid T) < n \<Longrightarrow>
   \<exists>T'. run_prog (Suc pg) (sweep_pages n uid start) T = (Inr (), T') \<and> removes (swept_key uid T) T T' \<and>
     (\<forall>sk. (case start of None \<Rightarrow> True | Some x \<Rightarrow> x < sk) \<longrightarrow> map_of T (user_pk uid, sk) \<noteq> None \<longrightarrow>
        map_of T' (user_pk uid, sk) = None \<and> (has_prefix sk cred_prefix \<longrightarrow> map_of T' (sk, pointer_sk) = None))"
proof (induction n arbitrary: T start)
  case (Suc n)
  let ?rows = "query_rows T (user_pk uid) [] start"
  let ?page = "take (Suc pg) ?rows"
  let ?lk = "if length ?rows > Suc pg then Some (fst (last ?page)) else None"
  have mem: "map_of T (user_pk uid, sk) \<noteq> None" if "(sk, i) \<in> set ?rows" for sk i
    using that by (auto simp: query_rows_mem map_of_eq_None_iff image_iff intro!: bexI)
  obtain T1 where 1: "run_prog (Suc pg) (sweep_rows uid ?page) T = (Inr (), T1)" "removes (swept_key uid T) T T1"
    "\<forall>(sk, i) \<in> set ?page. map_of T1 (user_pk uid, sk) = None \<and> (has_prefix sk cred_prefix \<longrightarrow> map_of T1 (sk, pointer_sk) = None)"
    "\<forall>sk. sk \<notin> fst ` set ?page \<longrightarrow> map_of T1 (user_pk uid, sk) = map_of T (user_pk uid, sk)"
    using sweep_rows_run [of ?page T uid T "Suc pg"] mem by (force dest: in_set_takeD)
  have listed: "\<exists>i. (sk, i) \<in> set ?rows" if "map_of T (user_pk uid, sk) \<noteq> None" "case start of None \<Rightarrow> True | Some x \<Rightarrow> x < sk" for sk
    using that by (auto simp: query_rows_mem dest!: map_of_SomeD)
  have run: "run_prog (Suc pg) (sweep_pages (Suc n) uid start) T =
      (case ?lk of None \<Rightarrow> (Inr (), T1) | Some _ \<Rightarrow> run_prog (Suc pg) (sweep_pages n uid ?lk) T1)"
    by (simp add: Let_def run_on_ok 1(1))
  show ?case
  proof (cases "length ?rows > Suc pg")
    case False
    then have "?page = ?rows" by simp
    with run False 1 listed show ?thesis by (fastforce simp del: sweep_pages.simps)
  next
    case True
    let ?last = "fst (last ?page)"
    have ne: "?page \<noteq> []" using True by auto
    then have l: "?last \<in> fst ` set ?page" using last_in_set by blast
    then obtain i where "(?last, i) \<in> set ?page" by force
    then have "?last \<in> own_rows uid T" "?last \<notin> own_rows uid T1"
      using mem 1(3) by (auto simp: own_rows_def dest: in_set_takeD)
    moreover have "own_rows uid T1 \<subseteq> own_rows uid T"
      using 1(2) by (rule own_rows_mono)
    ultimately have "own_rows uid T1 \<subset> own_rows uid T" by blast
    then have "card (own_rows uid T1) < card (own_rows uid T)" by (rule psubset_card_mono [OF own_rows_finite])
    then obtain T' where T': "run_prog (Suc pg) (sweep_pages n uid (Some ?last)) T1 = (Inr (), T')"
      "removes (swept_key uid T1) T1 T'"
      "\<forall>sk. ?last < sk \<longrightarrow> map_of T1 (user_pk uid, sk) \<noteq> None \<longrightarrow>
        map_of T' (user_pk uid, sk) = None \<and> (has_prefix sk cred_prefix \<longrightarrow> map_of T' (sk, pointer_sk) = None)"
      using Suc.IH [of T1 "Some ?last"] Suc.prems by auto
    have "removes (swept_key uid T) T1 T'" using swept_key_mono [OF 1(2)] by (intro removes_mono [OF T'(2)]) blast
    with 1(2) have rem: "removes (swept_key uid T) T T'" by (rule removes_trans)
    have "map_of T' (user_pk uid, sk) = None \<and> (has_prefix sk cred_prefix \<longrightarrow> map_of T' (sk, pointer_sk) = None)"
      if sk: "case start of None \<Rightarrow> True | Some x \<Rightarrow> x < sk" "map_of T (user_pk uid, sk) \<noteq> None" for sk
    proof -
      show ?thesis
      proof (cases "sk \<in> fst ` set ?page")
        case True
        with 1(3) have "map_of T1 (user_pk uid, sk) = None \<and> (has_prefix sk cred_prefix \<longrightarrow> map_of T1 (sk, pointer_sk) = None)"
          by force
        then show ?thesis using T'(2) removes_None by blast
      next
        case False
        obtain i where i: "(sk, i) \<in> set ?rows" using listed sk by blast
        have "sorted (map fst ?rows)" by (simp add: query_rows_def)
        then have "?last < sk" using page_bound [OF True _ i] False by fastforce
        then show ?thesis using T'(3) 1(4) False sk(2) by simp
      qed
    qed
    with rem T'(1) run True show ?thesis by (simp del: sweep_pages.simps)
  qed
qed simp

lemma release_claim_run:
  "run_prog pg (release_claim uid pk) T =
     (Inr (), if (\<exists>i. map_of T (pk, pointer_sk) = Some i \<and> uid_attr i = uid) then AList.delete (pk, pointer_sk) T else T)"
  by (auto simp: release_claim_def run_on_ok split: option.split)

definition deleted_claim :: "string \<Rightarrow> ddb_table \<Rightarrow> ddb_key \<Rightarrow> bool" where
  "deleted_claim uid T k \<longleftrightarrow> claim_key k \<and> map_of T k = Some (Pointer uid)"

definition release_claims :: "string \<Rightarrow> user \<Rightarrow> ddb_table \<Rightarrow> ddb_table" where
  "release_claims uid u T =
     (let T1 = (if us_Email u = [] then T else AList.delete (email_pk (us_Email u), pointer_sk) T)
      in if us_TeamID u = [] then T1 else AList.delete (team_pk (us_TeamID u), pointer_sk) T1)"

lemma release_claims_run:
  assumes "claims_held T uid u"
  shows "run_prog pg (on_ok (if us_Email u = [] then Return (Inr ()) else release_claim uid (email_pk (us_Email u)))
      (\<lambda>_. if us_TeamID u = [] then Return (Inr ()) else release_claim uid (team_pk (us_TeamID u)))) T =
    (Inr (), release_claims uid u T)"
  using assms by (auto simp: run_on_ok release_claim_run claims_held_def uid_attr_def release_claims_def delete_conv')

lemma release_claims_free:
  "(us_Email u \<noteq> [] \<longrightarrow> map_of (release_claims uid u T) (email_pk (us_Email u), pointer_sk) = None) \<and>
   (us_TeamID u \<noteq> [] \<longrightarrow> map_of (release_claims uid u T) (team_pk (us_TeamID u), pointer_sk) = None)"
  by (auto simp: release_claims_def Let_def delete_conv')

lemma release_claims_removes:
  assumes "claims_held T uid u" and "\<And>k. claim_key k \<Longrightarrow> map_of T k = map_of T0 k"
  shows "removes (deleted_claim uid T0) T (release_claims uid u T)"
proof -
  have "map_of T0 (email_pk (us_Email u), pointer_sk) = Some (Pointer uid)" if "us_Email u \<noteq> []"
    using that assms(1,2) by (simp add: claims_held_def)
  moreover have "map_of T0 (team_pk (us_TeamID u), pointer_sk) = Some (Pointer uid)" if "us_TeamID u \<noteq> []"
    using that assms(1,2) by (simp add: claims_held_def)
  moreover define T1 where "T1 = (if us_Email u = [] then T else AList.delete (email_pk (us_Email u), pointer_sk) T)"
  ultimately have "removes (deleted_claim uid T0) T T1" "removes (deleted_claim uid T0) T1 (release_claims uid u T)"
    by (simp_all add: release_claims_def T1_def deleted_claim_def)
  then show ?thesis by (rule removes_trans)
qed

text \<open>What the sweep leaves.\<close>

lemma sweep_leaves:
  assumes "card (own_rows uid T) < pages"
  obtains T1 where "run_prog (Suc pg) (sweep_pages pages uid None) T = (Inr (), T1)"
    and "removes (swept_key uid T) T T1" and "own_rows uid T1 = {}"
    and "list_all (\<lambda>((pk, sk), i). pk = user_pk uid \<and> has_prefix sk cred_prefix \<longrightarrow> map_of T1 (sk, pointer_sk) = None) T"
    and "\<And>k. claim_key k \<Longrightarrow> map_of T1 k = map_of T k"
proof -
  obtain T1 where run: "run_prog (Suc pg) (sweep_pages pages uid None) T = (Inr (), T1)"
    and rem: "removes (swept_key uid T) T T1"
    and gone: "\<forall>sk. map_of T (user_pk uid, sk) \<noteq> None \<longrightarrow>
        map_of T1 (user_pk uid, sk) = None \<and> (has_prefix sk cred_prefix \<longrightarrow> map_of T1 (sk, pointer_sk) = None)"
    using sweep_pages_run [OF assms, of pg None] by auto
  have "own_rows uid T1 = {}"
    using gone own_rows_mono [OF rem, of uid] by (auto simp: own_rows_def)
  moreover have "map_of T1 (sk, pointer_sk) = None" if "((user_pk uid, sk), i) \<in> set T" "has_prefix sk cred_prefix" for sk i
  proof -
    have "map_of T (user_pk uid, sk) \<noteq> None" using that(1) by (auto simp: map_of_eq_None_iff image_iff intro!: bexI)
    with gone that(2) show ?thesis by blast
  qed
  then have "list_all (\<lambda>((pk, sk), i). pk = user_pk uid \<and> has_prefix sk cred_prefix \<longrightarrow> map_of T1 (sk, pointer_sk) = None) T"
    by (auto simp: list_all_iff)
  moreover have "map_of T1 k = map_of T k" if "claim_key k" for k
  proof -
    have "\<not> swept_key uid T k" using that
      by (auto simp: claim_key_def swept_key_def has_prefix_iff cred_prefix_def email_pk_def team_pk_def user_pk_def push_token_pk_def)
    with rem [unfolded removes_def, rule_format, of k] show ?thesis by simp
  qed
  ultimately show thesis using that run rem by blast
qed

text \<open>C32. Deleting a user removes him, gives back what he held, and touches nobody else: with nothing
  interfering and more pages allowed than he has rows, the deletion succeeds; no row of his is left,
  no passkey of his resolves any more, the claims to his email address and his team are free; and
  every row that changed was his, an index row of one of his passkeys, a token pointer naming
  him, or a claim of his.\<close>

theorem delete_removes_user:
  assumes "directory_good T" and "card (own_rows uid T) < pages"
  shows "\<exists>T'. run_prog (Suc pg) (ddb_delete_user pages uid) T = (Inr (), T') \<and>
    own_rows uid T' = {} \<and>
    list_all (\<lambda>((pk, sk), i). pk = user_pk uid \<and> has_prefix sk cred_prefix \<longrightarrow> map_of T' (sk, pointer_sk) = None) T \<and>
    (case map_of T (profile_key uid) of
       Some (Profile u v) \<Rightarrow>
         (us_Email u \<noteq> [] \<longrightarrow> map_of T' (email_pk (us_Email u), pointer_sk) = None) \<and>
         (us_TeamID u \<noteq> [] \<longrightarrow> map_of T' (team_pk (us_TeamID u), pointer_sk) = None)
     | _ \<Rightarrow> True) \<and>
    removes (\<lambda>k. swept_key uid T k \<or> deleted_claim uid T k) T T'"
proof -
  obtain T1 where run: "run_prog (Suc pg) (sweep_pages pages uid None) T = (Inr (), T1)"
    and rem: "removes (swept_key uid T) T T1" and none: "own_rows uid T1 = {}"
    and index: "list_all (\<lambda>((pk, sk), i). pk = user_pk uid \<and> has_prefix sk cred_prefix \<longrightarrow> map_of T1 (sk, pointer_sk) = None) T"
    and claims: "\<And>k. claim_key k \<Longrightarrow> map_of T1 k = map_of T k"
    by (rule sweep_leaves [OF assms(2), of pg]) blast
  have rem': "removes (\<lambda>k. swept_key uid T k \<or> deleted_claim uid T k) T T1" by (rule removes_mono [OF rem]) simp
  show ?thesis
  proof (cases "map_of T (profile_key uid)")
    case None
    have "run_prog (Suc pg) (ddb_delete_user pages uid) T = (Inr (), T1)"
      using None by (simp add: ddb_delete_user_def ddb_get_user_def run_on_ok run profile_key_def)
    with none index rem' None show ?thesis by (intro exI [where x = T1]) simp
  next
    case (Some i)
    then obtain u v where i: "i = Profile u v" "claims_held T uid u"
      using assms(1) unfolding directory_good_def profiles_hold_def by blast
    let ?T = "release_claims uid u T1"
    have held: "claims_held T1 uid u" using i(2) claims by (simp add: claims_held_def)
    then have "claims_held T1 uid (u\<lparr>us_Version := x\<rparr>)" for x by (simp add: claims_held_def)
    from release_claims_run [OF this] have "run_prog (Suc pg) (ddb_delete_user pages uid) T = (Inr (), ?T)"
      using Some i(1) by (simp add: ddb_delete_user_def ddb_get_user_def run_on_ok run profile_key_def release_claims_def)
    moreover have sub: "removes (deleted_claim uid T) T1 ?T" using release_claims_removes [OF held] claims by simp
    moreover have "own_rows uid ?T = {}" using none own_rows_mono [OF sub, of uid] by simp
    moreover have "list_all (\<lambda>((pk, sk), i). pk = user_pk uid \<and> has_prefix sk cred_prefix \<longrightarrow> map_of ?T (sk, pointer_sk) = None) T"
      using index by (auto simp: list_all_iff intro!: removes_None [OF sub])
    moreover have "removes (\<lambda>k. swept_key uid T k \<or> deleted_claim uid T k) T ?T"
      by (rule removes_trans [OF rem' removes_mono [OF sub]]) simp
    ultimately show ?thesis using Some i(1) release_claims_free by (intro exI [where x = ?T]) simp
  qed
qed

theorem delete_removes_user_witness:
  "\<exists>T'. run_prog 2 (ddb_delete_user 9 ''ann'') [((user_pk ''ann'', cred_key ''c''), Cred_row ''k'')] = (Inr (), T') \<and>
     own_rows ''ann'' T' = {}"
proof -
  let ?T = "[((user_pk ''ann'', cred_key ''c''), Cred_row ''k'')]"
  have "directory_good ?T"
    by (auto simp: directory_good_def profiles_hold_def claims_typed_def claim_key_def profile_key_def)
  moreover have "own_rows ''ann'' ?T = {cred_key ''c''}" by (auto simp: own_rows_def)
  ultimately show ?thesis using delete_removes_user [of ?T "''ann''" 9 1] by (auto simp: numeral_2_eq_2)
qed
section \<open>Listing passkeys\<close>

lemma query_rows_sorted: "sorted (map fst (query_rows T pk pre start))"
  by (simp add: query_rows_def)

lemma query_rows_set:
  "set (query_rows T pk pre start) =
     {(sk, i). ((pk, sk), i) \<in> set T \<and> has_prefix sk pre \<and> (case start of None \<Rightarrow> True | Some x \<Rightarrow> x < sk)}"
  by (force simp: query_rows_def)

lemma query_rows_distinct: "distinct (map fst T) \<Longrightarrow> distinct (map fst (query_rows T pk pre start))"
proof -
  assume d: "distinct (map fst T)"
  let ?rows = "map (\<lambda>((_, sk), i). (sk, i))
      (filter (\<lambda>((p, sk), _). p = pk \<and> has_prefix sk pre \<and> (case start of None \<Rightarrow> True | Some x \<Rightarrow> x < sk)) T)"
  have "distinct (map fst ?rows)" using d
    by (induction T) (auto simp: image_iff split: prod.splits)
  moreover have "mset (map fst (query_rows T pk pre start)) = mset (map fst ?rows)"
    unfolding query_rows_def by (simp only: mset_map mset_sort)
  ultimately show ?thesis using mset_eq_imp_distinct_iff by blast
qed

lemma sort_key_filter: "sort_key f (filter P xs) = filter P (sort_key f xs)"
  by (simp add: filter_sort)

lemma query_rows_from:
  assumes "case start of None \<Rightarrow> True | Some x \<Rightarrow> x < sk"
  shows "query_rows T pk pre (Some sk) = filter (\<lambda>(s, _). sk < s) (query_rows T pk pre start)"
proof -
  have "filter (\<lambda>((p, s), _). p = pk \<and> has_prefix s pre \<and> sk < s) T =
      filter (\<lambda>((_, s), _). sk < s) (filter (\<lambda>((p, s), _). p = pk \<and> has_prefix s pre \<and> (case start of None \<Rightarrow> True | Some x \<Rightarrow> x < s)) T)"
    unfolding filter_filter using assms
    by (intro filter_cong refl) (auto split: option.splits intro: less_trans)
  then show ?thesis
    by (simp add: query_rows_def sort_key_filter [symmetric] filter_map comp_def case_prod_beta)
qed

lemma filter_after_take:
  fixes rows :: "(string \<times> 'a) list"
  assumes "sorted (map fst rows)" and "distinct (map fst rows)" and "0 < n" and "n \<le> length rows"
  shows "filter (\<lambda>(s, _). fst (last (take n rows)) < s) rows = drop n rows"
proof -
  let ?l = "fst (last (take n rows))"
  have ne: "take n rows \<noteq> []" using assms(3,4) by auto
  have l: "?l = map fst rows ! (n - 1)"
    using assms(3,4) by (simp add: last_conv_nth [OF ne] min_absorb2)
  have a: "\<not> ?l < fst (rows ! i)" if "i < n" for i
    using sorted_nth_mono [OF assms(1), of i "n - 1"] that assms(4) by (simp add: l not_less)
  have b: "?l < fst (rows ! i)" if "n \<le> i" "i < length rows" for i
  proof -
    have "map fst rows ! (n - 1) \<le> map fst rows ! i" using sorted_nth_mono [OF assms(1)] that by simp
    moreover have "map fst rows ! (n - 1) \<noteq> map fst rows ! i"
      using assms(2,3,4) that by (subst nth_eq_iff_index_eq) auto
    ultimately show ?thesis using that by (simp add: l)
  qed
  have "filter (\<lambda>(s, _). ?l < s) (take n rows) = []"
    using a by (auto simp: filter_empty_conv in_set_conv_nth split: prod.splits) (metis fst_conv)
  moreover have "filter (\<lambda>(s, _). ?l < s) (drop n rows) = drop n rows"
  proof (rule filter_True)
    show "\<forall>x \<in> set (drop n rows). case x of (s, _) \<Rightarrow> ?l < s"
    proof (clarsimp simp: in_set_conv_nth)
      fix s i j assume *: "j < length rows - n" "rows ! (n + j) = (s, i)"
      show "?l < s" using b [of "n + j"] * by simp
    qed
  qed
  ultimately show ?thesis by (metis append_Nil append_take_drop_id filter_append)
qed

lemma query_all_run:
  assumes "distinct (map fst T)"
  shows "length (query_rows T pk pre start) < n \<Longrightarrow>
    run_prog (Suc pg) (query_all n pk pre start acc) T = (Inr (acc @ query_rows T pk pre start), T)"
proof (induction n arbitrary: start acc)
  case (Suc n)
  let ?rows = "query_rows T pk pre start"
  let ?page = "take (Suc pg) ?rows"
  let ?last = "fst (last ?page)"
  show ?case
  proof (cases "length ?rows > Suc pg")
    case True
    then have "?page \<noteq> []" by auto
    then have l: "last ?page \<in> set ?rows" by (rule in_set_takeD [OF last_in_set])
    have "case start of None \<Rightarrow> True | Some x \<Rightarrow> x < fst p" if "p \<in> set ?rows" for p
      using that unfolding query_rows_set by (auto split: option.splits)
    from query_rows_from [OF this [OF l]]
    have "query_rows T pk pre (Some ?last) = filter (\<lambda>(s, _). ?last < s) ?rows" .
    also have "\<dots> = drop (Suc pg) ?rows"
      by (rule filter_after_take [OF query_rows_sorted query_rows_distinct [OF assms]]) (use True in linarith)+
    finally have next_rows: "query_rows T pk pre (Some ?last) = drop (Suc pg) ?rows" .
    have "run_prog (Suc pg) (query_all n pk pre (Some ?last) (acc @ ?page)) T = (Inr ((acc @ ?page) @ drop (Suc pg) ?rows), T)"
      using Suc.IH [of "Some ?last" "acc @ ?page"] Suc.prems True by (simp add: next_rows)
    moreover have "run_prog (Suc pg) (query_all (Suc n) pk pre start acc) T =
        run_prog (Suc pg) (query_all n pk pre (Some ?last) (acc @ ?page)) T"
      using True by (simp add: Let_def del: take_Suc)
    moreover have "?page @ drop (Suc pg) ?rows = ?rows" by (rule append_take_drop_id)
    ultimately show ?thesis by simp
  qed (simp add: Let_def)
qed simp

definition meta_view :: "string \<times> ddb_item \<Rightarrow> (string \<times> string \<times> go_time) option" where
  "meta_view = (\<lambda>(sk, i). case i of Cred_meta name created \<Rightarrow> Some (drop (length cred_meta_prefix) sk, name, created) | _ \<Rightarrow> None)"

definition cred_view :: "string \<times> ddb_item \<Rightarrow> string option" where
  "cred_view = (\<lambda>(sk, i). case i of Cred_row c \<Rightarrow> Some c | _ \<Rightarrow> None)"

text \<open>The names of a user's passkeys are listed whole, whatever the size of a page, once as many
  pages are allowed as he has rows; of the passkeys themselves only the first page is listed.\<close>

theorem passkeys_listed:
  assumes "distinct (map fst T)" and "length (query_rows T (user_pk uid) cred_meta_prefix None) < pages"
  shows "run_prog (Suc pg) (ddb_credential_metas pages uid) T =
      (Inr (List.map_filter meta_view (query_rows T (user_pk uid) cred_meta_prefix None)), T) \<and>
    run_prog (Suc pg) (ddb_credentials uid) T =
      (Inr (List.map_filter cred_view (take (Suc pg) (query_rows T (user_pk uid) cred_prefix None))), T)"
  by (simp add: ddb_credential_metas_def run_on_ok query_all_run [OF assms] meta_view_def ddb_credentials_def cred_view_def
      Let_def del: query_all.simps)

theorem passkeys_listed_witness:
  "run_prog 1 (ddb_credentials ''ann'')
     [((user_pk ''ann'', cred_key ''a''), Cred_row ''k1''), ((user_pk ''ann'', cred_key ''b''), Cred_row ''k2'')] =
   (Inr [''k1''], [((user_pk ''ann'', cred_key ''a''), Cred_row ''k1''), ((user_pk ''ann'', cred_key ''b''), Cred_row ''k2'')])"
proof -
  let ?T = "[((user_pk ''ann'', cred_key ''a''), Cred_row ''k1''), ((user_pk ''ann'', cred_key ''b''), Cred_row ''k2'')]"
  have "distinct (map fst ?T)" by code_simp
  moreover have "length (query_rows ?T (user_pk ''ann'') cred_meta_prefix None) < 1" by code_simp
  moreover have "List.map_filter cred_view (take (Suc 0) (query_rows ?T (user_pk ''ann'') cred_prefix None)) = [''k1'']" by code_simp
  ultimately show ?thesis using passkeys_listed [of ?T "''ann''" 1 0] by simp
qed

section \<open>Two admins name a team\<close>

text \<open>The next request of one operation, answered.\<close>

definition turn :: "nat \<Rightarrow> nat \<Rightarrow> directory \<Rightarrow> directory" where
  "turn pg i S = (case dy_ops S ! i of
      (oper, Return r) \<Rightarrow> S
    | (oper, Call rq k) \<Rightarrow> (case exec pg rq (dy_table S) of (x, T') \<Rightarrow>
        \<lparr>dy_table = T', dy_ops = (dy_ops S)[i := (oper, k x)]\<rparr>))"

definition outcome :: "'r prog \<Rightarrow> 'r option" where
  "outcome p = (case p of Return r \<Rightarrow> Some r | Call _ _ \<Rightarrow> None)"

lemma outcome_Some [simp]: "outcome p = Some r \<longleftrightarrow> p = Return r"
  by (cases p) (auto simp: outcome_def)

lemma turn_opers: "map fst (dy_ops (turn pg i S)) = map fst (dy_ops S)"
proof (cases "i < length (dy_ops S)")
  case True
  then show ?thesis
    by (cases "dy_ops S ! i")
      (auto simp: turn_def map_update intro!: list_update_same_conv [THEN iffD2] split: prog.split prod.split)
next
  case False
  then show ?thesis by (auto simp: turn_def list_update_beyond split: prog.split prod.split)
qed

lemma turns_opers: "map fst (dy_ops (fold (turn pg) is S)) = map fst (dy_ops S)"
  by (induction "is" arbitrary: S) (simp_all add: turn_opers)

lemma turn_reachable:
  assumes "directory_reachable pg pages S" and "i < length (dy_ops S)"
  shows "directory_reachable pg pages (turn (Suc pg) i S)"
proof (cases "dy_ops S ! i")
  case (Pair oper p)
  show ?thesis
  proof (cases p)
    case (Call rq k)
    have "directory_step pg pages S (turn (Suc pg) i S)"
      using directory_step.request [of i "dy_ops S" oper rq k "fst (exec (Suc pg) rq (dy_table S))" "snd (exec (Suc pg) rq (dy_table S))" pg "dy_table S" pages]
        assms(2) Pair Call
      by (cases S) (simp add: turn_def outcomes_def case_prod_beta)
    with assms(1) show ?thesis by (rule directory_reachable.step)
  qed (use assms Pair in \<open>simp add: turn_def\<close>)
qed

lemma turns_reachable:
  "directory_reachable pg pages S \<Longrightarrow> list_all (\<lambda>i. i < length (dy_ops S)) is \<Longrightarrow>
   directory_reachable pg pages (fold (turn (Suc pg)) is S)"
proof (induction "is" arbitrary: S)
  case (Cons i "is")
  have "length (dy_ops (turn (Suc pg) i S)) = length (dy_ops S)"
    using arg_cong [where f = length, OF turn_opers [of "Suc pg" i S]] by simp
  with Cons show ?case using turn_reachable [of pg pages S i] by simp
qed simp

text \<open>Two admins who name different teams for one user at the same time both succeed, and the team
  that lost stays claimed for the user although his profile names the other one.\<close>

theorem set_team_race_leaks:
  "\<exists>T r. directory_reachable 9 3 \<lparr>dy_table = T, dy_ops =
       [(Op_create (demo_user\<lparr>us_TeamID := []\<rparr>), r),
        (Op_set_team ''ann'' ''t1'', Return (Inr ())), (Op_set_team ''ann'' ''t2'', Return (Inr ()))]\<rparr> \<and>
     map_of T (team_pk ''t1'', pointer_sk) = Some (Pointer ''ann'') \<and>
     map_of T (profile_key ''ann'') = Some (Profile (demo_user\<lparr>us_TeamID := ''t2''\<rparr>) 3)"
proof -
  let ?u = "demo_user\<lparr>us_TeamID := []\<rparr>" and ?set = "\<lambda>t. Op_set_team ''ann'' t"
  let ?T = "[(profile_key ''ann'', Profile ?u 1), ((email_pk ''a@x'', pointer_sk), Pointer ''ann'')]"
  let ?ops = "[(Op_create ?u, Return (Inr ())), (?set ''t1'', program 3 (?set ''t1'')), (?set ''t2'', program 3 (?set ''t2''))]"
  have "run_prog (Suc 9) (program 3 (Op_create ?u)) [] = (Inr (), ?T)" by code_simp
  from run_alone [OF directory_reachable.start _ _ this]
  have "directory_reachable 9 3 \<lparr>dy_table = ?T, dy_ops = [(Op_create ?u, Return (Inr ()))]\<rparr>" by simp
  then have "directory_reachable 9 3 \<lparr>dy_table = ?T, dy_ops = [(Op_create ?u, Return (Inr ()))] @ [(?set ''t1'', program 3 (?set ''t1''))]\<rparr>"
    by (rule directory_reachable.step) (rule directory_step.launch; simp add: ended_def)
  then have "directory_reachable 9 3 \<lparr>dy_table = ?T, dy_ops =
      ([(Op_create ?u, Return (Inr ()))] @ [(?set ''t1'', program 3 (?set ''t1''))]) @ [(?set ''t2'', program 3 (?set ''t2''))]\<rparr>"
    by (rule directory_reachable.step)
      (rule directory_step.launch; simp add: ended_def may_overlap_def del: program.simps)
  then have "directory_reachable 9 3 \<lparr>dy_table = ?T, dy_ops = ?ops\<rparr>" by (simp del: program.simps)
  from turns_reachable [OF this, of "[1, 2, 1, 1, 1, 2, 2, 2]"]
  have "directory_reachable 9 3 (fold (turn (Suc 9)) [1, 2, 1, 1, 1, 2, 2, 2] \<lparr>dy_table = ?T, dy_ops = ?ops\<rparr>)"
    by (simp del: program.simps)
  moreover define S where "S = fold (turn (Suc 9)) [1, 2, 1, 1, 1, 2, 2, 2] \<lparr>dy_table = ?T, dy_ops = ?ops\<rparr>"
  ultimately have reach: "directory_reachable 9 3 S" by simp
  have "map (\<lambda>(_, p). outcome p) (dy_ops S) = [Some (Inr ()), Some (Inr ()), Some (Inr ())]" unfolding S_def by code_simp
  moreover have "map fst (dy_ops S) = map fst ?ops" unfolding S_def turns_opers by simp
  ultimately have "dy_ops S = [(Op_create ?u, Return (Inr ())), (?set ''t1'', Return (Inr ())), (?set ''t2'', Return (Inr ()))]"
    by (auto simp: map_eq_Cons_conv)
  with reach have "directory_reachable 9 3 \<lparr>dy_table = dy_table S, dy_ops =
      [(Op_create ?u, Return (Inr ())), (?set ''t1'', Return (Inr ())), (?set ''t2'', Return (Inr ()))]\<rparr>"
    by (cases S) simp
  moreover have "map_of (dy_table S) (team_pk ''t1'', pointer_sk) = Some (Pointer ''ann'')" unfolding S_def by code_simp
  moreover have "map_of (dy_table S) (profile_key ''ann'') = Some (Profile (demo_user\<lparr>us_TeamID := ''t2''\<rparr>) 3)"
    unfolding S_def by code_simp
  ultimately show ?thesis by blast
qed

end
