(* ===== verification/DDB_Typing.thy ===== *)
theory DDB_Typing
  imports DDB_Contract
begin

text \<open>
  The table holds under each key the kind of item the key is for, and every program of the store
  keeps it so; therefore the decoding errors of the reads never happen. Well-typed programs over
  well-typed answers, with progress and preservation per request.
\<close>

section \<open>Types\<close>

definition item_typed :: "ddb_key \<Rightarrow> ddb_item \<Rightarrow> bool" where
  "item_typed k i = (case k of (pk, sk) \<Rightarrow> (case i of
       Profile u _ \<Rightarrow> sk = profile_sk \<and> pk = user_pk (us_ID u)
     | Cred_row _ \<Rightarrow> has_prefix sk cred_prefix
     | Cred_meta _ _ \<Rightarrow> has_prefix sk cred_meta_prefix
     | Pointer _ \<Rightarrow> sk = pointer_sk \<and> \<not> has_prefix pk ''PUSHTOKEN#''
     | Token_pointer _ _ \<Rightarrow> sk = pointer_sk \<and> has_prefix pk ''PUSHTOKEN#''
     | Device d \<Rightarrow> sk = push_device_sk (pd_ID d)
     | Enroll_row _ \<Rightarrow> sk = enroll_sk
     | Fantrax_row c \<Rightarrow> sk = conn_sk \<and> pk = user_pk (fc_UserID (ci_Conn c))))"

definition table_typed :: "ddb_table \<Rightarrow> bool" where
  "table_typed T \<longleftrightarrow> list_all (\<lambda>(k, i). item_typed k i) T"

fun request_typed :: "request \<Rightarrow> bool" where
  "request_typed (Put_item k i _) = item_typed k i"
| "request_typed (Transact ws) = list_all (\<lambda>(k, i, _). item_typed k i) ws"
| "request_typed _ = True"

fun response_typed :: "request \<Rightarrow> response \<Rightarrow> bool" where
  "response_typed (Get_item k) (Found (Some i)) = item_typed k i"
| "response_typed (Query pk pre _) (Rows rows _) = list_all (\<lambda>(sk, i). item_typed (pk, sk) i \<and> has_prefix sk pre) rows"
| "response_typed _ _ = True"

text \<open>A program that only writes typed items and, given typed answers, ends in \<open>Q\<close>.\<close>

primrec well_typed :: "('r \<Rightarrow> bool) \<Rightarrow> 'r prog \<Rightarrow> bool" where
  "well_typed Q (Return r) = Q r"
| "well_typed Q (Call rq k) = (request_typed rq \<and> (\<forall>x. response_typed rq x \<longrightarrow> well_typed Q (k x)))"

lemma set_update_sub: "set (AList.update k i T) \<subseteq> insert (k, i) (set T)"
  by (induction T) auto

lemma update_typed: "table_typed T \<Longrightarrow> item_typed k i \<Longrightarrow> table_typed (AList.update k i T)"
  unfolding table_typed_def list_all_iff using set_update_sub [of k i T] by blast

lemma fold_update_typed:
  "table_typed T \<Longrightarrow> list_all (\<lambda>(k, i, _). item_typed k i) ws \<Longrightarrow>
   table_typed (fold (\<lambda>(k, i, _). AList.update k i) ws T)"
  by (induction ws arbitrary: T) (auto simp: update_typed)

lemma exec_typed:
  assumes "table_typed T" and "request_typed rq"
  shows "response_typed rq (fst (exec pg rq T)) \<and> table_typed (snd (exec pg rq T))"
proof (cases rq)
  case (Get_item k)
  then show ?thesis using assms by (cases "map_of T k") (auto simp: table_typed_def list_all_iff dest!: map_of_SomeD)
next
  case (Query pk pre start)
  have "item_typed (pk, sk) i \<and> has_prefix sk pre" if "(sk, i) \<in> set (query_rows T pk pre start)" for sk i
    using that assms(1) by (auto simp: query_rows_set table_typed_def list_all_iff)
  then show ?thesis using assms(1) by (auto simp: Query Let_def list_all_iff dest!: in_set_takeD)
next
  case (Put_item k i c)
  then show ?thesis using assms by (simp add: update_typed)
next
  case (Delete_item k)
  then show ?thesis using assms(1) by (auto simp: table_typed_def list_all_iff set_alist_delete)
next
  case (Transact ws)
  have "list_all (\<lambda>(k, i, _). item_typed k i) ws" using assms(2) by (simp add: Transact)
  from fold_update_typed [OF assms(1) this] show ?thesis using assms(1) by (simp add: Transact Let_def)
qed (use assms in simp)

lemma failed_typed: "response_typed rq Failed"
  by (cases rq) simp_all

lemma outcome_typed:
  "table_typed T \<Longrightarrow> request_typed rq \<Longrightarrow> (x, T') \<in> set (outcomes pg rq T) \<Longrightarrow> response_typed rq x \<and> table_typed T'"
  using exec_typed [of T rq pg] failed_typed [of rq] by (auto simp: outcomes_def simp del: exec.simps response_typed.simps dest: sym)

lemma run_typed:
  "well_typed Q p \<Longrightarrow> table_typed T \<Longrightarrow> Q (fst (run_prog pg p T)) \<and> table_typed (snd (run_prog pg p T))"
proof (induction p arbitrary: T)
  case (Call rq k)
  then show ?case using exec_typed [of T rq pg] by (auto simp: split: prod.split)
qed simp

lemma typed_mono: "well_typed Q p \<Longrightarrow> (\<And>r. Q r \<Longrightarrow> R r) \<Longrightarrow> well_typed R p"
  by (induction p) auto

lemma typed_and_then: "well_typed Q p \<Longrightarrow> (\<And>r. Q r \<Longrightarrow> well_typed R (f r)) \<Longrightarrow> well_typed R (and_then p f)"
  by (induction p) auto

section \<open>The errors that do not happen\<close>

definition decoded :: "ddb_error + 'a \<Rightarrow> bool" where
  "decoded r \<longleftrightarrow> (case r of Inl e \<Rightarrow> e \<noteq> Bad_item \<and> e \<noteq> Credential_without_uid | Inr _ \<Rightarrow> True)"

lemma decoded_simps [simp]: "decoded (Inr a)" "decoded (Inl e) \<longleftrightarrow> e \<noteq> Bad_item \<and> e \<noteq> Credential_without_uid"
  by (simp_all add: decoded_def)

definition decoded_to :: "('a \<Rightarrow> bool) \<Rightarrow> ddb_error + 'a \<Rightarrow> bool" where
  "decoded_to Q r \<longleftrightarrow> decoded r \<and> (\<forall>a. r = Inr a \<longrightarrow> Q a)"

lemma decoded_to_True [simp]: "decoded_to (\<lambda>_. True) r = decoded r"
  by (simp add: decoded_to_def)

lemma typed_on_ok:
  "well_typed (decoded_to Q) p \<Longrightarrow> (\<And>a. Q a \<Longrightarrow> well_typed decoded (f a)) \<Longrightarrow> well_typed decoded (on_ok p f)"
  unfolding on_ok_def by (erule typed_and_then) (auto simp: decoded_to_def split: sum.split)

lemma typed_on_ok' [intro]:
  "well_typed decoded p \<Longrightarrow> (\<And>a. well_typed decoded (f a)) \<Longrightarrow> well_typed decoded (on_ok p f)"
  by (rule typed_on_ok [of "\<lambda>_. True"]) (auto intro: typed_mono simp: decoded_to_def)

lemma typed_get: "well_typed (decoded_to (\<lambda>found. \<forall>i. found = Some i \<longrightarrow> item_typed k i)) (get_item k)"
  by (auto simp: get_item_def decoded_to_def split: response.split option.split)

lemma typed_get' [simp]: "well_typed decoded (get_item k)"
  by (rule typed_mono [OF typed_get]) (simp add: decoded_to_def)

lemma typed_put [simp]:
  "e \<noteq> Bad_item \<Longrightarrow> e \<noteq> Credential_without_uid \<Longrightarrow> well_typed decoded (put_item k i c e) \<longleftrightarrow> item_typed k i"
  by (auto simp: put_item_def split: response.split)

lemma typed_delete [simp]: "well_typed decoded (delete_item k)"
  by (auto simp: delete_item_def split: response.split)
lemmas key_defs = user_pk_def cred_prefix_def cred_key_def email_pk_def team_pk_def profile_sk_def pointer_sk_def
  cred_meta_prefix_def cred_meta_sk_def enroll_pk_def enroll_sk_def conn_sk_def push_device_prefix_def
  push_device_sk_def push_token_pk_def

lemma item_kinds:
  "item_typed (pk, profile_sk) i \<Longrightarrow> \<exists>u v. i = Profile u v \<and> pk = user_pk (us_ID u)"
  "item_typed (pk, enroll_sk) i \<Longrightarrow> \<exists>e. i = Enroll_row e"
  "item_typed (pk, conn_sk) i \<Longrightarrow> \<exists>c. i = Fantrax_row c \<and> pk = user_pk (fc_UserID (ci_Conn c))"
  "item_typed (cred_key c, pointer_sk) i \<Longrightarrow> \<exists>u. i = Pointer u"
  by (cases i; auto simp: item_typed_def key_defs has_prefix_iff)+

lemma keys_typed [simp]:
  "item_typed (user_pk uid, profile_sk) (Profile u v) \<longleftrightarrow> uid = us_ID u"
  "item_typed (user_pk uid, profile_sk) (user_item u v) \<longleftrightarrow> uid = us_ID u"
  "item_typed (email_pk e, pointer_sk) (Pointer uid)" "item_typed (team_pk t, pointer_sk) (Pointer uid)"
  "item_typed (cred_key cid, pointer_sk) (Pointer uid)" "item_typed (push_token_pk tok, pointer_sk) (Token_pointer uid dev)"
  "item_typed (pk, cred_key cid) (Cred_row cr)" "item_typed (pk, cred_meta_sk cid) (Cred_meta n created)"
  "item_typed (pk, push_device_sk dev) (Device d) \<longleftrightarrow> dev = pd_ID d"
  "item_typed (pk, enroll_sk) (Enroll_row en)"
  "item_typed (user_pk uid, conn_sk) (Fantrax_row c) \<longleftrightarrow> uid = fc_UserID (ci_Conn c)"
  by (auto simp: item_typed_def user_item_def key_defs has_prefix_iff)

section \<open>Every operation is well-typed\<close>

lemma typed_get_on:
  "(\<And>found. (\<And>i. found = Some i \<Longrightarrow> item_typed k i) \<Longrightarrow> well_typed decoded (f found)) \<Longrightarrow>
   well_typed decoded (on_ok (get_item k) f)"
  by (rule typed_on_ok [OF typed_get]) simp

lemma typed_get_user: "well_typed decoded (ddb_get_user uid)"
  unfolding ddb_get_user_def by (rule typed_get_on) (force dest: item_kinds(1) split: option.split)

lemma typed_get_enrollment: "well_typed decoded (ddb_get_enrollment h)"
  unfolding ddb_get_enrollment_def by (rule typed_get_on) (force dest: item_kinds(2) split: option.split)

lemma typed_get_connection: "well_typed decoded (ddb_get_connection uid)"
  unfolding ddb_get_connection_def by (rule typed_get_on) (force dest: item_kinds(3) split: option.split)

lemma typed_user_by_credential: "well_typed decoded (ddb_user_by_credential cid)"
  unfolding ddb_user_by_credential_def by (rule typed_get_on) (force dest: item_kinds(4) split: option.split)

lemma typed_put_user: "well_typed decoded (ddb_put_user u)"
  by (auto simp: ddb_put_user_def split: option.split)

lemma typed_mutate:
  assumes "decoded (Inl missing :: ddb_error + unit)" and "\<And>u. decoded (f u)"
  shows "well_typed decoded (mutate_loop n missing uid f)"
proof (induction n)
  case (Suc n)
  have "well_typed decoded (case found of None \<Rightarrow> Return (Inl missing) | Some u \<Rightarrow> (case f u of
           Inl e \<Rightarrow> Return (Inl e)
         | Inr u' \<Rightarrow> and_then (ddb_put_user u') (\<lambda>r. case r of
               Inr w \<Rightarrow> Return (Inr w)
             | Inl e \<Rightarrow> if e = Store_refused User_conflict then mutate_loop n missing uid f else Return (Inl e))))" for found
    using assms(1) assms(2) [of "the found"] Suc.IH typed_and_then [OF typed_put_user]
    by (auto split: option.split sum.split intro!: typed_and_then [OF typed_put_user])
  then show ?case by (simp add: typed_on_ok' [OF typed_get_user])
qed simp

lemma typed_claim: "well_typed decoded (ddb_claim_team uid team)"
  unfolding ddb_claim_team_def by (intro typed_on_ok' typed_mutate) simp_all

lemma typed_query_all:
  "well_typed decoded (query_all n pk pre start acc)"
  by (induction n arbitrary: start acc) (auto split: response.split option.split)

lemma typed_devices: "well_typed decoded (ddb_push_devices pages uid)"
  unfolding ddb_push_devices_def by (rule typed_on_ok' [OF typed_query_all]) simp

lemma typed_heal: "well_typed decoded (heal_devices uid es d)"
  by (induction uid es d rule: heal_devices.induct) auto

lemma typed_register: "well_typed decoded (ddb_put_push_device pages newID uid d)"
  unfolding ddb_put_push_device_def steal_token_def Let_def
  by (intro typed_on_ok' typed_devices typed_heal) (simp_all split: option.split)

lemma typed_release: "well_typed decoded (release_push_token tok uid)" "well_typed decoded (release_claim uid pk)"
  by (auto simp: release_push_token_def release_claim_def split: option.split)

lemma typed_sweep_rows: "well_typed decoded (sweep_rows uid rows)"
  by (induction uid rows rule: sweep_rows.induct) (auto intro!: typed_on_ok' typed_release)

lemma typed_sweep: "well_typed decoded (sweep_pages n uid start)"
  by (induction n arbitrary: start) (auto intro!: typed_on_ok' typed_sweep_rows split: response.split option.split)

lemma typed_delete_user: "well_typed decoded (ddb_delete_user pages uid)"
  unfolding ddb_delete_user_def
  by (intro typed_on_ok' typed_get_user typed_sweep) (auto intro!: typed_on_ok' typed_release split: option.split)

lemma typed_create: "well_typed decoded (ddb_create_user u)"
  by (auto simp: ddb_create_user_def create_writes_def map_cancellation_def split: response.split option.split)

lemma typed_redeem: "well_typed decoded (ddb_redeem_enrollment h now)"
  unfolding ddb_redeem_enrollment_def by (rule typed_on_ok' [OF typed_get_enrollment]) (auto split: option.split)

lemma typed_connection: "well_typed decoded (ddb_put_connection now c)"
  by (auto simp: ddb_put_connection_def Let_def)

lemma program_typed: "well_typed decoded (program pages oper)"
proof (cases oper)
  case (Op_mutate uid m)
  have "decoded (apply_mutation m u)" for u by (cases m) (simp_all add: mutation_defs)
  then show ?thesis by (auto simp: Op_mutate no_value_def intro!: typed_on_ok' typed_mutate)
next
  case (Op_set_team uid team)
  then show ?thesis
    by (auto simp: ddb_set_team_def intro!: typed_on_ok' [OF typed_get_user] typed_claim split: option.split)
next
  case (Op_revoke uid dev)
  then show ?thesis by (auto simp: ddb_delete_push_device_def intro!: typed_on_ok' typed_release split: option.split)
qed (auto simp: no_value_def ddb_put_credential_def ddb_delete_credential_def ddb_put_credential_meta_def ddb_create_enrollment_def
    intro!: typed_on_ok' typed_create typed_claim typed_delete_user typed_register typed_redeem typed_connection)

section \<open>Progress and preservation\<close>

lemma step_typed:
  assumes "directory_step pg pages S S'" and "table_typed (dy_table S)" and "list_all (\<lambda>(_, p). well_typed decoded p) (dy_ops S)"
  shows "table_typed (dy_table S') \<and> list_all (\<lambda>(_, p). well_typed decoded p) (dy_ops S')"
  using assms(1)
proof cases
  case (launch oper ops T)
  then show ?thesis using assms(2,3) program_typed by simp
next
  case (request i ops oper rq k x T' T)
  have all: "list_all (\<lambda>(_, p). well_typed decoded p) ops" using assms(3) request(1) by simp
  then have "well_typed decoded (Call rq k)"
    using request(3,4) by (metis (mono_tags, lifting) case_prod_conv list_all_length)
  then have "well_typed decoded (k x)" "table_typed T'"
    using outcome_typed [OF _ _ request(5)] assms(2) request(1) by auto
  then show ?thesis using all request(2) set_update_subset_insert [of ops i "(oper, k x)"]
    by (fastforce simp: list_all_iff)
next
  case (crash i ops oper rq k T)
  then show ?thesis using assms(2,3) set_update_subset_insert [of ops i "(oper, Return (Inl Crashed))"]
    by (fastforce simp: list_all_iff)
qed

lemma reachable_typed:
  "directory_reachable pg pages S \<Longrightarrow> table_typed (dy_table S) \<and> list_all (\<lambda>(_, p). well_typed decoded p) (dy_ops S)"
proof (induction rule: directory_reachable.induct)
  case start
  then show ?case by (simp add: table_typed_def)
next
  case (step S S')
  then show ?case using step_typed by blast
qed

text \<open>C33. The store is type safe: in every reachable state each row is an item of the kind its key is
  for, no operation has ended because an item could not be decoded, and no read that starts now
  will.\<close>

theorem directory_type_safe:
  assumes "directory_reachable pg pages S"
  shows "list_all (\<lambda>(k, i). item_typed k i) (dy_table S) \<and>
    list_all (\<lambda>(_, p). p \<noteq> Return (Inl Bad_item) \<and> p \<noteq> Return (Inl Credential_without_uid)) (dy_ops S) \<and>
    decoded (fst (run_prog pg (ddb_get_user uid) (dy_table S))) \<and>
    decoded (fst (run_prog pg (ddb_user_by_credential cid) (dy_table S))) \<and>
    decoded (fst (run_prog pg (ddb_get_enrollment h) (dy_table S))) \<and>
    decoded (fst (run_prog pg (ddb_get_connection uid) (dy_table S)))"
proof -
  note typed = reachable_typed [OF assms]
  moreover have "list_all (\<lambda>(k, i). item_typed k i) (dy_table S)" using typed by (simp add: table_typed_def)
  moreover have "list_all (\<lambda>(_, p). p \<noteq> Return (Inl Bad_item) \<and> p \<noteq> Return (Inl Credential_without_uid)) (dy_ops S)"
    using typed by (auto simp: list_all_iff)
  ultimately show ?thesis
    using run_typed [OF typed_get_user] run_typed [OF typed_user_by_credential] run_typed [OF typed_get_enrollment]
      run_typed [OF typed_get_connection] by simp
qed

theorem directory_type_safe_witness:
  "\<exists>S. directory_reachable 9 3 S \<and> map_of (dy_table S) (profile_key ''ann'') = Some (Profile demo_user 1) \<and>
     decoded (fst (run_prog 9 (ddb_get_user ''ann'') (dy_table S)))"
proof -
  obtain T ops where S: "directory_reachable 9 3 \<lparr>dy_table = T, dy_ops = ops\<rparr>"
    "map_of T (profile_key ''ann'') = Some (Profile demo_user 1)"
    using demo_created by blast
  have "decoded (fst (run_prog 9 (ddb_get_user ''ann'') T))" using directory_type_safe [OF S(1), of "''ann''"] by simp
  with S show ?thesis by (intro exI [where x = "\<lparr>dy_table = T, dy_ops = ops\<rparr>"]) simp
qed

end
