(* ===== verification/Matchup.thy ===== *)
theory Matchup
  imports Pitcher_Optimizer
begin

text \<open>
  Who faces whom and what it is worth: \<open>projections/matchup_adjusted.go\<close>, the breakdowns of the
  blended sources (\<open>projections/blended.go\<close>, \<open>pitcher_blended.go\<close>), chained sources
  (\<open>projections/rolling.go\<close>), and \<open>buildOpposingPitchers\<close> with the pipeline tables of
  \<open>lineuprun/optimize_dates.go\<close>. The lemmas show that the adjustment is the one its detail
  explains and stays within its bounds, that each team is given the pitcher it meets whatever the order
  of the maps, and that the table's last column is the value the optimiser used.
\<close>

section \<open>Sources\<close>

text \<open>\<open>NewChainedSource\<close>: the first source that knows the player. It has no \<open>GetPtsPerGame\<close>.\<close>

fun chained_projection :: "'p source list \<Rightarrow> string \<Rightarrow> string \<Rightarrow> 'p option" where
  "chained_projection [] name team = None"
| "chained_projection (s # ss) name team =
     (case src_projection s name team of Some p \<Rightarrow> Some p | None \<Rightarrow> chained_projection ss name team)"

definition chained_source :: "'p source list \<Rightarrow> 'p source" where
  "chained_source ss = \<lparr>src_projection = chained_projection ss, src_pts_per_game = None\<rparr>"

text \<open>A base source, or one blended with recent scoring; a type assertion tells them apart.\<close>

datatype 'p run_source = Base_source "'p source" | Blended_source "'p blended_source"

definition as_hitter_source :: "(string \<Rightarrow> string) \<Rightarrow> projection run_source \<Rightarrow> projection source" where
  "as_hitter_source nrm rs = (case rs of Base_source s \<Rightarrow> s | Blended_source b \<Rightarrow> hitter_blended_as_source nrm b)"

definition as_pitcher_source :: "(string \<Rightarrow> string) \<Rightarrow> pitcher_projection run_source \<Rightarrow> pitcher_projection source" where
  "as_pitcher_source nrm rs = (case rs of Base_source s \<Rightarrow> s
     | Blended_source b \<Rightarrow> \<lparr>src_projection = src_projection (bs_inner b), src_pts_per_game = Some (get_pitcher_pts_per_game nrm b)\<rparr>)"

record breakdown =
  bd_BasePts :: real
  bd_RecentFPG :: real
  bd_BaseWt :: real
  bd_RecentWt :: real
  bd_BlendedPts :: real
  bd_GamesPlayed :: int
  bd_HasRecent :: bool

definition plain_breakdown :: "real \<Rightarrow> breakdown" where
  "plain_breakdown basePts = \<lparr>bd_BasePts = basePts, bd_RecentFPG = 0, bd_BaseWt = 1, bd_RecentWt = 0,
     bd_BlendedPts = basePts, bd_GamesPlayed = 0, bd_HasRecent = False\<rparr>"

definition recent_breakdown :: "real \<Rightarrow> recent_stat \<Rightarrow> real \<times> real \<Rightarrow> breakdown" where
  "recent_breakdown basePts r wts = (case wts of (bw, rw) \<Rightarrow>
     \<lparr>bd_BasePts = basePts, bd_RecentFPG = rs_FPtsPerGame r, bd_BaseWt = bw, bd_RecentWt = rw,
      bd_BlendedPts = bw * basePts + rw * rs_FPtsPerGame r, bd_GamesPlayed = rs_GamesPlayed r, bd_HasRecent = True\<rparr>)"

definition get_hitter_breakdown ::
  "(string \<Rightarrow> string) \<Rightarrow> projection blended_source \<Rightarrow> string \<Rightarrow> string \<Rightarrow> weights \<Rightarrow> breakdown option" where
  "get_hitter_breakdown nrm b name team w =
     (case src_projection (bs_inner b) name team of
        None \<Rightarrow> None
      | Some proj \<Rightarrow> if pj_G proj \<le> 0 then None
          else let basePts = expected_pts_from_proj proj w in
            (case bs_nameToID b (nrm name) of
               None \<Rightarrow> Some (plain_breakdown basePts)
             | Some pid \<Rightarrow> (case bs_recent b pid of
                 None \<Rightarrow> Some (plain_breakdown basePts)
               | Some r \<Rightarrow> if rs_GamesPlayed r < bs_minGP b then Some (plain_breakdown basePts)
                   else Some (recent_breakdown basePts r (hitter_blend_weights (rs_GamesPlayed r))))))"

definition get_pitcher_breakdown ::
  "(string \<Rightarrow> string) \<Rightarrow> pitcher_projection blended_source \<Rightarrow> string \<Rightarrow> string \<Rightarrow> weights \<Rightarrow> breakdown option" where
  "get_pitcher_breakdown nrm b name team w =
     (case src_projection (bs_inner b) name team of
        None \<Rightarrow> None
      | Some proj \<Rightarrow> if pp_G proj \<le> 0 then None
          else let basePts = pitcher_expected_pts_from_proj proj w in
            (case bs_nameToID b (nrm name) of
               None \<Rightarrow> Some (plain_breakdown basePts)
             | Some pid \<Rightarrow> (case bs_recent b pid of
                 None \<Rightarrow> Some (plain_breakdown basePts)
               | Some r \<Rightarrow> if rs_GamesPlayed r < bs_minGP b then Some (plain_breakdown basePts)
                   else Some (recent_breakdown basePts r (pitcher_blend_weights (rs_GamesPlayed r)
                     (is_SP_eligible (case bs_playerPos b pid of None \<Rightarrow> [] | Some ps \<Rightarrow> ps)))))))"

section \<open>The matchup adjustment\<close>

record opposing_pitcher =
  op_Name :: string
  op_Team :: string
  op_Throws :: string
  op_FIP :: real

record matchup_source =
  ma_inner :: "projection source"
  ma_opposing :: "string \<rightharpoonup> opposing_pitcher"
  ma_bats :: "string \<rightharpoonup> string"
  ma_avgFIP :: real

record matchup_detail =
  md_PlatoonMult :: real
  md_QualityMult :: real
  md_CombinedMult :: real
  md_Favorable :: "bool option"
  md_OpposingPitcher :: string
  md_OpposingFIP :: real
  md_LeagueAvgFIP :: real

definition clamp :: "real \<Rightarrow> real \<Rightarrow> real \<Rightarrow> real" where
  "clamp lo hi x = max lo (min hi x)"

definition quality_mult :: "real \<Rightarrow> real \<Rightarrow> real" where
  "quality_mult avg fip = (if avg > 0 \<and> fip > 0 then clamp (85/100) (115/100) (fip / avg) else 1)"

definition get_matchup_detail ::
  "(string \<Rightarrow> string) \<Rightarrow> matchup_source \<Rightarrow> string \<Rightarrow> string \<Rightarrow> matchup_detail" where
  "get_matchup_detail nrm m name team =
     (case ma_opposing m team of
        None \<Rightarrow> \<lparr>md_PlatoonMult = 1, md_QualityMult = 1, md_CombinedMult = 1, md_Favorable = None,
                  md_OpposingPitcher = [], md_OpposingFIP = 0, md_LeagueAvgFIP = ma_avgFIP m\<rparr>
      | Some opp \<Rightarrow>
         (let favorable = (case ma_bats m (nrm name) of
                None \<Rightarrow> None
              | Some bats \<Rightarrow> if op_Throws opp \<noteq> [] then Some (bats = ''S'' \<or> bats \<noteq> op_Throws opp) else None);
              platoon = (if favorable = Some False then 93/100 else 1);
              quality = quality_mult (ma_avgFIP m) (op_FIP opp)
          in \<lparr>md_PlatoonMult = platoon, md_QualityMult = quality,
              md_CombinedMult = clamp (80/100) (115/100) (platoon * quality), md_Favorable = favorable,
              md_OpposingPitcher = op_Name opp, md_OpposingFIP = op_FIP opp, md_LeagueAvgFIP = ma_avgFIP m\<rparr>))"

text \<open>\<open>GetPtsPerGame\<close>, which computes the factors a second time.\<close>

definition matchup_pts_per_game ::
  "(string \<Rightarrow> string) \<Rightarrow> matchup_source \<Rightarrow> string \<Rightarrow> string \<Rightarrow> weights \<Rightarrow> real option" where
  "matchup_pts_per_game nrm m name team w =
     (case points_per_game (ma_inner m) name team w of
        (_, False) \<Rightarrow> None
      | (basePts, True) \<Rightarrow> (case ma_opposing m team of
            None \<Rightarrow> Some basePts
          | Some opp \<Rightarrow>
             (let platoon = (case ma_bats m (nrm name) of
                    None \<Rightarrow> 1
                  | Some bats \<Rightarrow> if op_Throws opp \<noteq> [] then (if bats \<noteq> ''S'' \<and> bats = op_Throws opp then 93/100 else 1) else 1);
                  quality = quality_mult (ma_avgFIP m) (op_FIP opp)
              in Some (basePts * clamp (80/100) (115/100) (platoon * quality)))))"

definition matchup_as_source :: "(string \<Rightarrow> string) \<Rightarrow> matchup_source \<Rightarrow> projection source" where
  "matchup_as_source nrm m =
     \<lparr>src_projection = src_projection (ma_inner m), src_pts_per_game = Some (matchup_pts_per_game nrm m)\<rparr>"

section \<open>Opposing pitchers\<close>

definition home_of :: "(string \<times> string) list \<Rightarrow> string \<Rightarrow> string" where
  "home_of venues team = (case map_of venues team of None \<Rightarrow> [] | Some h \<Rightarrow> h)"

text \<open>\<open>probables\<close> is the map from pitcher to team in the order of the outer loop; \<open>vs name\<close> is the map
  from team to home team in the order in which the inner loop for that pitcher meets it. \<open>None\<close> is a
  nil map of venues.\<close>

definition opponent_of :: "(string \<times> string) list \<Rightarrow> string \<Rightarrow> string option" where
  "opponent_of venues pitcherTeam =
     map_option fst (find (\<lambda>(team, home). team \<noteq> pitcherTeam \<and> home = home_of venues pitcherTeam) venues)"

definition opposing_step ::
  "(string \<Rightarrow> (string \<times> string) list) \<Rightarrow> (string \<rightharpoonup> string) \<Rightarrow> (string \<rightharpoonup> real) \<Rightarrow>
   string \<times> string \<Rightarrow> (string \<rightharpoonup> opposing_pitcher) \<Rightarrow> (string \<rightharpoonup> opposing_pitcher)" where
  "opposing_step vs handedness fip entry m = (case entry of (name, pitcherTeam) \<Rightarrow>
     (case opponent_of (vs name) pitcherTeam of
        None \<Rightarrow> m
      | Some team \<Rightarrow> m(team \<mapsto> \<lparr>op_Name = name, op_Team = pitcherTeam,
          op_Throws = (case handedness name of None \<Rightarrow> [] | Some h \<Rightarrow> h),
          op_FIP = (case fip name of None \<Rightarrow> 0 | Some f \<Rightarrow> f)\<rparr>)))"

definition build_opposing_pitchers ::
  "(string \<times> string) list \<Rightarrow> (string \<Rightarrow> (string \<times> string) list) option \<Rightarrow> (string \<rightharpoonup> string) \<Rightarrow>
   (string \<rightharpoonup> real) \<Rightarrow> real \<Rightarrow> (string \<rightharpoonup> opposing_pitcher)" where
  "build_opposing_pitchers probables venues handedness fip avg =
     (if probables = [] \<or> avg \<le> 0 then Map.empty
      else (case venues of None \<Rightarrow> Map.empty
            | Some vs \<Rightarrow> fold (opposing_step vs handedness fip) probables Map.empty))"

section \<open>The pipeline tables\<close>

record hitter_detail =
  hd_BasePtsPerGame :: real
  hd_BlendedPtsPerGame :: real
  hd_BlendDelta :: real
  hd_HasRecent :: bool
  hd_PlatoonMult :: real
  hd_QualityMult :: real
  hd_FinalPtsPerGame :: real
  hd_PlatoonDelta :: real
  hd_QualityDelta :: real

definition hitter_breakdowns_for ::
  "(string \<Rightarrow> string) \<Rightarrow> scored_player list \<Rightarrow> projection run_source \<Rightarrow> weights \<Rightarrow> (string \<rightharpoonup> breakdown)" where
  "hitter_breakdowns_for nrm scored rs w =
     (case rs of Base_source _ \<Rightarrow> Map.empty
      | Blended_source b \<Rightarrow> fold (\<lambda>sp m. case get_hitter_breakdown nrm b (p_Name (sp_Player sp)) (p_MLBTeam (sp_Player sp)) w of
            None \<Rightarrow> m | Some bd \<Rightarrow> m(p_ID (sp_Player sp) \<mapsto> bd)) scored Map.empty)"

definition hitter_detail_of ::
  "(string \<Rightarrow> string) \<Rightarrow> projection run_source \<Rightarrow> weights \<Rightarrow> (string \<rightharpoonup> breakdown) \<Rightarrow> matchup_source option \<Rightarrow>
   scored_player \<Rightarrow> hitter_detail option" where
  "hitter_detail_of nrm rs w breakdowns matchup sp =
     (if \<not> sp_HasGame sp then None
      else (case src_projection (as_hitter_source nrm rs) (p_Name (sp_Player sp)) (p_MLBTeam (sp_Player sp)) of
          None \<Rightarrow> None
        | Some proj \<Rightarrow> if pj_G proj \<le> 0 then None
            else let base = expected_pts_from_proj proj w;
                     blended = (case breakdowns (p_ID (sp_Player sp)) of Some bd \<Rightarrow> bd_BlendedPts bd | None \<Rightarrow> base);
                     hasRecent = (case breakdowns (p_ID (sp_Player sp)) of Some bd \<Rightarrow> bd_HasRecent bd | None \<Rightarrow> False);
                     (platoon, quality, combined) = (case matchup of
                        None \<Rightarrow> (1, 1, 1)
                      | Some m \<Rightarrow> let md = get_matchup_detail nrm m (p_Name (sp_Player sp)) (p_MLBTeam (sp_Player sp))
                                  in (md_PlatoonMult md, md_QualityMult md, md_CombinedMult md));
                     final = (case matchup of None \<Rightarrow> blended | Some _ \<Rightarrow> blended * combined);
                     afterPlatoon = (case matchup of None \<Rightarrow> blended | Some _ \<Rightarrow> blended * platoon)
                 in Some \<lparr>hd_BasePtsPerGame = base, hd_BlendedPtsPerGame = blended, hd_BlendDelta = blended - base,
                      hd_HasRecent = hasRecent, hd_PlatoonMult = platoon, hd_QualityMult = quality,
                      hd_FinalPtsPerGame = final, hd_PlatoonDelta = afterPlatoon - blended,
                      hd_QualityDelta = final - afterPlatoon\<rparr>))"

definition hitter_pipelines_for ::
  "(string \<Rightarrow> string) \<Rightarrow> scored_player list \<Rightarrow> projection run_source \<Rightarrow> weights \<Rightarrow> matchup_source option \<Rightarrow>
   (string \<rightharpoonup> hitter_detail)" where
  "hitter_pipelines_for nrm scored rs w matchup =
     fold (\<lambda>sp m. case hitter_detail_of nrm rs w (hitter_breakdowns_for nrm scored rs w) matchup sp of
        None \<Rightarrow> m | Some d \<Rightarrow> m(p_ID (sp_Player sp) \<mapsto> d)) scored Map.empty"

record pitcher_detail =
  pd_Role :: string
  pd_BasePtsPerGame :: real
  pd_BlendedPtsPerGame :: real
  pd_BlendDelta :: real
  pd_HasRecent :: bool
  pd_WasGated :: bool
  pd_GateDelta :: real
  pd_FinalPtsPerGame :: real

definition pitcher_breakdowns_for ::
  "(string \<Rightarrow> string) \<Rightarrow> scored_pitcher list \<Rightarrow> pitcher_projection run_source \<Rightarrow> weights \<Rightarrow> (string \<rightharpoonup> breakdown)" where
  "pitcher_breakdowns_for nrm scored rs w =
     (case rs of Base_source _ \<Rightarrow> Map.empty
      | Blended_source b \<Rightarrow> fold (\<lambda>sp m. case get_pitcher_breakdown nrm b (p_Name (sc_Player sp)) (p_MLBTeam (sc_Player sp)) w of
            None \<Rightarrow> m | Some bd \<Rightarrow> m(p_ID (sc_Player sp) \<mapsto> bd)) scored Map.empty)"

text \<open>The base points: from the breakdown, or from the projection; without either there is no row.\<close>

definition pitcher_base_pts ::
  "(string \<Rightarrow> string) \<Rightarrow> pitcher_projection run_source \<Rightarrow> weights \<Rightarrow> (string \<rightharpoonup> breakdown) \<Rightarrow> player \<Rightarrow> real option" where
  "pitcher_base_pts nrm rs w breakdowns p =
     (case breakdowns (p_ID p) of
        Some bd \<Rightarrow> Some (bd_BasePts bd)
      | None \<Rightarrow> (case src_projection (as_pitcher_source nrm rs) (p_Name p) (p_MLBTeam p) of
            None \<Rightarrow> None
          | Some proj \<Rightarrow> if pp_G proj > 0 then Some (pitcher_expected_pts_from_proj proj w) else None))"

definition pitcher_detail_of ::
  "(string \<Rightarrow> string) \<Rightarrow> pitcher_projection run_source \<Rightarrow> weights \<Rightarrow> (string \<rightharpoonup> breakdown) \<Rightarrow> (string \<Rightarrow> bool) \<Rightarrow>
   scored_pitcher \<Rightarrow> pitcher_detail option" where
  "pitcher_detail_of nrm rs w breakdowns suppressed sp =
     (if \<not> sc_HasGame sp then None
      else (case pitcher_base_pts nrm rs w breakdowns (sc_Player sp) of
          None \<Rightarrow> None
        | Some base \<Rightarrow>
           (let blended = (case breakdowns (p_ID (sc_Player sp)) of Some bd \<Rightarrow> bd_BlendedPts bd | None \<Rightarrow> base);
                gated = suppressed (p_ID (sc_Player sp));
                final = (if gated then blended * non_starter_discount else blended)
            in Some \<lparr>pd_Role = (if str_contains (p_PosShortNames (sc_Player sp)) ''SP'' then ''SP'' else ''RP''),
                 pd_BasePtsPerGame = base, pd_BlendedPtsPerGame = blended, pd_BlendDelta = blended - base,
                 pd_HasRecent = (case breakdowns (p_ID (sc_Player sp)) of Some bd \<Rightarrow> bd_HasRecent bd | None \<Rightarrow> False),
                 pd_WasGated = gated, pd_GateDelta = (if gated then final - blended else 0), pd_FinalPtsPerGame = final\<rparr>)))"

definition pitcher_pipelines_for ::
  "(string \<Rightarrow> string) \<Rightarrow> pitcher_result \<Rightarrow> pitcher_projection run_source \<Rightarrow> weights \<Rightarrow> (string \<rightharpoonup> pitcher_detail)" where
  "pitcher_pipelines_for nrm res rs w =
     (let breakdowns = pitcher_breakdowns_for nrm (pr_Scored res) rs w;
          suppressed = (\<lambda>pid. pid \<in> ss_PlayerID ` set (gr_Suppressed (pr_GateReport res)))
      in fold (\<lambda>sp m. case pitcher_detail_of nrm rs w breakdowns suppressed sp of
            None \<Rightarrow> m | Some d \<Rightarrow> m(p_ID (sc_Player sp) \<mapsto> d)) (pr_Scored res) Map.empty)"
section \<open>The detail and the value agree\<close>

lemma clamp_bounds: "lo \<le> hi \<Longrightarrow> lo \<le> clamp lo hi x \<and> clamp lo hi x \<le> hi"
  by (auto simp: clamp_def)

lemma clamp_fix [simp]: "lo \<le> x \<Longrightarrow> x \<le> hi \<Longrightarrow> clamp lo hi x = x"
  by (simp add: clamp_def)

lemma matchup_value:
  "matchup_pts_per_game nrm m name team w =
     (case points_per_game (ma_inner m) name team w of
        (basePts, ok) \<Rightarrow> if ok then Some (basePts * md_CombinedMult (get_matchup_detail nrm m name team)) else None)"
  by (auto simp: matchup_pts_per_game_def get_matchup_detail_def Let_def split: prod.split option.split bool.split)

lemma matchup_source_value:
  "matchup_pts_per_game nrm m name team w = Some x \<Longrightarrow> points_per_game (matchup_as_source nrm m) name team w = (x, True)"
  by (simp add: points_per_game_def optional_pts_def matchup_as_source_def)

text \<open>C40. The adjusted value of a hitter is his value times the factor that \<open>GetMatchupDetail\<close> explains,
  although \<open>GetPtsPerGame\<close> computes it a second time; the factor lies between 0.80 and 1.15, and without
  a known opponent it is one.\<close>

theorem adjustment_explained:
  "matchup_pts_per_game nrm m name team w =
     (case points_per_game (ma_inner m) name team w of
        (basePts, ok) \<Rightarrow> if ok then Some (basePts * md_CombinedMult (get_matchup_detail nrm m name team)) else None) \<and>
   80/100 \<le> md_CombinedMult (get_matchup_detail nrm m name team) \<and>
   md_CombinedMult (get_matchup_detail nrm m name team) \<le> 115/100 \<and>
   (ma_opposing m team = None \<longrightarrow> md_CombinedMult (get_matchup_detail nrm m name team) = 1)"
proof -
  have "md_CombinedMult (get_matchup_detail nrm m name team) \<in> {80/100 .. 115/100}"
  proof (cases "ma_opposing m team")
    case (Some opp)
    then have "md_CombinedMult (get_matchup_detail nrm m name team) = clamp (80/100) (115/100)
        (md_PlatoonMult (get_matchup_detail nrm m name team) * md_QualityMult (get_matchup_detail nrm m name team))"
      by (simp add: get_matchup_detail_def Let_def)
    then show ?thesis using clamp_bounds [of "80/100" "115/100"] by auto
  qed (simp add: get_matchup_detail_def)
  then show ?thesis by (simp add: matchup_value) (simp add: get_matchup_detail_def)
qed

theorem adjustment_explained_witness:
  "md_CombinedMult (get_matchup_detail (\<lambda>s. s) \<lparr>ma_inner = chained_source [], ma_opposing = Map.empty,
     ma_bats = Map.empty, ma_avgFIP = 4\<rparr> ''x'' ''NYY'') = 1"
  using adjustment_explained [of "\<lambda>s. s" "\<lparr>ma_inner = chained_source [], ma_opposing = Map.empty,
     ma_bats = Map.empty, ma_avgFIP = 4\<rparr>" "''x''" "''NYY''" Map.empty] by simp

section \<open>Tables\<close>

lemma fold_rows_other:
  "k \<notin> key ` set xs \<Longrightarrow> fold (\<lambda>x m. case f x of None \<Rightarrow> m | Some v \<Rightarrow> m(key x \<mapsto> v)) xs m0 k = m0 k"
  by (induction xs arbitrary: m0) (auto split: option.split)

lemma fold_rows:
  "distinct (map key xs) \<Longrightarrow> x \<in> set xs \<Longrightarrow> m0 (key x) = None \<Longrightarrow>
   fold (\<lambda>x m. case f x of None \<Rightarrow> m | Some v \<Rightarrow> m(key x \<mapsto> v)) xs m0 (key x) = f x"
proof (induction xs arbitrary: m0)
  case (Cons y xs)
  let ?m = "case f y of None \<Rightarrow> m0 | Some v \<Rightarrow> m0(key y \<mapsto> v)"
  show ?case
  proof (cases "x = y")
    case True
    then have "key x \<notin> key ` set xs" using Cons.prems(1) by simp
    from fold_rows_other [OF this, of f ?m] show ?thesis using True Cons.prems(3) by (simp split: option.split)
  next
    case False
    then have x: "x \<in> set xs" using Cons.prems(2) by simp
    then have "key x \<noteq> key y" using Cons.prems(1) by (metis distinct.simps(2) imageI list.map(2) set_map)
    then have "?m (key x) = None" using Cons.prems(3) by (simp split: option.split)
    then show ?thesis using Cons.IH [of ?m] Cons.prems(1) x by simp
  qed
qed simp

lemma breakdown_value:
  "get_hitter_breakdown nrm b name team w = Some bd \<Longrightarrow> get_pts_per_game nrm b name team w = Some (bd_BlendedPts bd)"
  by (auto simp: get_hitter_breakdown_def get_pts_per_game_def recent_of_def blend_result_def Let_def
      plain_breakdown_def recent_breakdown_def case_prod_beta split: option.splits if_splits)

lemma breakdown_base:
  "src_projection (bs_inner b) name team = Some p \<Longrightarrow> pj_G p > 0 \<Longrightarrow> get_hitter_breakdown nrm b name team w \<noteq> None"
  by (auto simp: get_hitter_breakdown_def Let_def split: option.split)

lemma scored_value:
  assumes "sp \<in> set (or_Scored (optimize_lineup nrm roster pt src w slots bt))"
  shows "sp_ExpectedPts sp = fst (points_per_game src (p_Name (sp_Player sp)) (p_MLBTeam (sp_Player sp)) w)"
  using assms by (auto simp: optimize_lineup_def Let_def score_roster_def score_player_def)

lemma scored_ids:
  assumes "distinct (map p_ID roster)"
  shows "distinct (map (\<lambda>sp. p_ID (sp_Player sp)) (or_Scored (optimize_lineup nrm roster pt src w slots bt)))"
proof -
  have "mset (or_Scored (optimize_lineup nrm roster pt src w slots bt)) = mset (score_roster nrm roster pt src w bt)"
    by (simp add: optimize_lineup_def Let_def)
  from arg_cong [where f = "image_mset (\<lambda>sp. p_ID (sp_Player sp))", OF this]
  have "mset (map (\<lambda>sp. p_ID (sp_Player sp)) (or_Scored (optimize_lineup nrm roster pt src w slots bt))) = mset (map p_ID roster)"
    by (simp add: score_roster_def score_player_def image_mset.compositionality comp_def)
  then show ?thesis using assms mset_eq_imp_distinct_iff by metis
qed

text \<open>The value of a hitter before the adjustment.\<close>

definition unadjusted :: "(string \<Rightarrow> string) \<Rightarrow> projection run_source \<Rightarrow> weights \<Rightarrow> (string \<rightharpoonup> breakdown) \<Rightarrow> projection \<Rightarrow> player \<Rightarrow> real" where
  "unadjusted nrm rs w breakdowns proj p =
     (case breakdowns (p_ID p) of Some bd \<Rightarrow> bd_BlendedPts bd | None \<Rightarrow> expected_pts_from_proj proj w)"

lemma unadjusted_value:
  assumes "distinct (map (\<lambda>sp. p_ID (sp_Player sp)) scored)" and "sp \<in> set scored" and "p = sp_Player sp"
    and "case rs of Base_source s \<Rightarrow> src_pts_per_game s = None | Blended_source _ \<Rightarrow> True"
    and "src_projection (as_hitter_source nrm rs) (p_Name p) (p_MLBTeam p) = Some proj" and "0 < pj_G proj"
  shows "points_per_game (as_hitter_source nrm rs) (p_Name p) (p_MLBTeam p) w =
    (unadjusted nrm rs w (hitter_breakdowns_for nrm scored rs w) proj p, True)"
proof (cases rs)
  case (Base_source s)
  then show ?thesis using assms(4-6)
    by (simp add: as_hitter_source_def points_per_game_def optional_pts_def unadjusted_def hitter_breakdowns_for_def)
next
  case (Blended_source b)
  let ?bd = "\<lambda>sp. get_hitter_breakdown nrm b (p_Name (sp_Player sp)) (p_MLBTeam (sp_Player sp)) w"
  have "hitter_breakdowns_for nrm scored rs w (p_ID p) = ?bd sp"
    using fold_rows [OF assms(1,2), of Map.empty ?bd] by (simp add: hitter_breakdowns_for_def Blended_source assms(3))
  moreover obtain bd where bd: "?bd sp = Some bd"
    using breakdown_base [of b "p_Name p" "p_MLBTeam p" proj nrm w] assms(3,5,6)
    by (auto simp: Blended_source as_hitter_source_def hitter_blended_as_source_def)
  ultimately show ?thesis using breakdown_value [OF bd] assms(3)
    by (simp add: Blended_source as_hitter_source_def hitter_blended_as_source_def points_per_game_def optional_pts_def unadjusted_def)
qed

text \<open>The pipeline table explains the decision: the last column of a hitter's row is the number of
  points the optimiser ranked him by, and the base value and the three differences add up to it.\<close>

theorem pipeline_explains:
  assumes "distinct (map p_ID roster)"
    and "case rs of Base_source s \<Rightarrow> src_pts_per_game s = None | Blended_source _ \<Rightarrow> True"
    and "src = (case matchup of None \<Rightarrow> as_hitter_source nrm rs | Some m \<Rightarrow> matchup_as_source nrm m)"
    and "case matchup of None \<Rightarrow> True | Some m \<Rightarrow> ma_inner m = as_hitter_source nrm rs"
    and "scored = or_Scored (optimize_lineup nrm roster pt src w slots bt)" and "sp \<in> set scored"
    and "hitter_pipelines_for nrm scored rs w matchup (p_ID (sp_Player sp)) = Some d"
  shows "hd_FinalPtsPerGame d = sp_ExpectedPts sp \<and>
    hd_BasePtsPerGame d + hd_BlendDelta d + hd_PlatoonDelta d + hd_QualityDelta d = hd_FinalPtsPerGame d"
proof -
  let ?p = "sp_Player sp" and ?bds = "hitter_breakdowns_for nrm scored rs w"
  have dist: "distinct (map (\<lambda>sp. p_ID (sp_Player sp)) scored)" using scored_ids [OF assms(1)] assms(5) by simp
  have d: "hitter_detail_of nrm rs w ?bds matchup sp = Some d"
    using fold_rows [OF dist assms(6), of Map.empty "hitter_detail_of nrm rs w ?bds matchup"] assms(7)
    by (simp add: hitter_pipelines_for_def)
  then obtain proj where proj: "src_projection (as_hitter_source nrm rs) (p_Name ?p) (p_MLBTeam ?p) = Some proj" "0 < pj_G proj"
    by (auto simp: hitter_detail_of_def split: if_splits option.splits)
  note base = unadjusted_value [OF dist assms(6) refl assms(2) proj, of w]
  have val: "sp_ExpectedPts sp = fst (points_per_game src (p_Name ?p) (p_MLBTeam ?p) w)"
    using scored_value assms(5,6) by blast
  show ?thesis
  proof (cases matchup)
    case None
    then show ?thesis using d proj base val assms(3)
      by (auto simp: hitter_detail_of_def unadjusted_def Let_def split: if_splits)
  next
    case (Some m)
    have "points_per_game src (p_Name ?p) (p_MLBTeam ?p) w =
        (unadjusted nrm rs w ?bds proj ?p * md_CombinedMult (get_matchup_detail nrm m (p_Name ?p) (p_MLBTeam ?p)), True)"
      using base assms(4) matchup_value [of nrm m "p_Name ?p" "p_MLBTeam ?p" w] assms(3)
      by (simp add: Some matchup_source_value)
    then show ?thesis using d proj val
      by (auto simp: hitter_detail_of_def unadjusted_def Let_def Some split: if_splits)
  qed
qed
section \<open>Who faces whom\<close>

lemma fold_keyed:
  assumes "\<forall>e \<in> set es. \<forall>e' \<in> set es. key e = key e' \<longrightarrow> key e \<noteq> None \<longrightarrow> e = e'"
  shows "fold (\<lambda>e m. case key e of None \<Rightarrow> m | Some k \<Rightarrow> m(k \<mapsto> v e)) es Map.empty k = Some x \<longleftrightarrow>
    (\<exists>e \<in> set es. key e = Some k \<and> v e = x)"
  using assms
proof (induction es rule: rev_induct)
  case (snoc e es)
  then show ?case by (cases "key e") (auto split: option.splits)
qed simp

definition plays_at :: "(string \<times> string) list \<Rightarrow> string \<Rightarrow> string \<Rightarrow> bool" where
  "plays_at venues team home \<longleftrightarrow> (team, home) \<in> set venues"

lemma opponent_of_iff:
  assumes "distinct (map fst vs)" and "set vs = set venues" and "distinct (map fst venues)"
    and "\<forall>(t, h) \<in> set venues. h \<noteq> []"
    and pair: "\<And>a b c h. plays_at venues a h \<Longrightarrow> plays_at venues b h \<Longrightarrow> plays_at venues c h \<Longrightarrow> a = b \<or> b = c \<or> a = c"
  shows "opponent_of vs pteam = Some t \<longleftrightarrow> t \<noteq> pteam \<and> (\<exists>h. plays_at venues t h \<and> plays_at venues pteam h)"
proof -
  let ?P = "\<lambda>(team, home). team \<noteq> pteam \<and> home = home_of vs pteam"
  have home: "plays_at venues a (home_of vs pteam) \<Longrightarrow> plays_at venues pteam (home_of vs pteam)" for a
    using assms(2,4) by (auto simp: home_of_def plays_at_def split: option.splits dest: map_of_SomeD)
  have home': "plays_at venues pteam h \<Longrightarrow> home_of vs pteam = h" for h
    using assms(1,2) by (simp add: home_of_def plays_at_def)
  show ?thesis
  proof
    assume "opponent_of vs pteam = Some t"
    then have "t \<noteq> pteam" "plays_at venues t (home_of vs pteam)"
      using assms(2) by (auto simp: opponent_of_def plays_at_def dest!: find_mem)
    then show "t \<noteq> pteam \<and> (\<exists>h. plays_at venues t h \<and> plays_at venues pteam h)" using home by blast
  next
    assume "t \<noteq> pteam \<and> (\<exists>h. plays_at venues t h \<and> plays_at venues pteam h)"
    then obtain h where t: "t \<noteq> pteam" "plays_at venues t h" "plays_at venues pteam h" by blast
    then have "(t, h) \<in> set vs" "?P (t, h)" using assms(2) home' by (auto simp: plays_at_def)
    then obtain t' h' where f: "find ?P vs = Some (t', h')" by (cases "find ?P vs") (auto simp: find_None_iff)
    then have "(t', h') \<in> set vs" "?P (t', h')" by (auto dest: find_mem)
    then have "plays_at venues t' h" "t' \<noteq> pteam" using assms(2) home' [OF t(3)] by (auto simp: plays_at_def)
    with pair [OF t(2,3)] t(1) have "t' = t" by blast
    with f show "opponent_of vs pteam = Some t" by (simp add: opponent_of_def)
  qed
qed

definition facing :: "(string \<rightharpoonup> string) \<Rightarrow> (string \<rightharpoonup> real) \<Rightarrow> string \<Rightarrow> string \<Rightarrow> opposing_pitcher" where
  "facing handedness fip name pteam = \<lparr>op_Name = name, op_Team = pteam,
     op_Throws = (case handedness name of None \<Rightarrow> [] | Some h \<Rightarrow> h), op_FIP = (case fip name of None \<Rightarrow> 0 | Some f \<Rightarrow> f)\<rparr>"

text \<open>Every team is given the pitcher it meets: when at most two teams play at one place and no team
  has two announced pitchers, a team faces exactly the announced pitcher of the other team at its
  place, in whatever order the two maps are walked.\<close>

theorem opposing_faces:
  assumes "\<And>name. distinct (map fst (vs name)) \<and> set (vs name) = set venues" and "distinct (map fst venues)"
    and "\<forall>(t, h) \<in> set venues. h \<noteq> []"
    and "\<And>a b c h. plays_at venues a h \<Longrightarrow> plays_at venues b h \<Longrightarrow> plays_at venues c h \<Longrightarrow> a = b \<or> b = c \<or> a = c"
    and "distinct (map snd probables)" and "0 < avg"
  shows "build_opposing_pitchers probables (Some vs) handedness fip avg team = Some opp \<longleftrightarrow>
    (\<exists>name pteam h. (name, pteam) \<in> set probables \<and> pteam \<noteq> team \<and> plays_at venues team h \<and> plays_at venues pteam h \<and>
       opp = facing handedness fip name pteam)"
proof -
  let ?key = "\<lambda>(name, pteam). opponent_of (vs name) pteam" and ?v = "\<lambda>(name, pteam). facing handedness fip name pteam"
  have opp: "opponent_of (vs name) pteam = Some t \<longleftrightarrow> t \<noteq> pteam \<and> (\<exists>h. plays_at venues t h \<and> plays_at venues pteam h)" for name pteam t
    by (rule opponent_of_iff [OF _ _ assms(2,3,4)]) (use assms(1) in auto)
  have one: "plays_at venues a h \<Longrightarrow> plays_at venues a h' \<Longrightarrow> h = h'" for a h h'
    using assms(2) by (auto simp: plays_at_def dest: eq_key_imp_eq_value)
  have "e = e'" if e: "e \<in> set probables" "e' \<in> set probables" "?key e = ?key e'" "?key e \<noteq> None" for e e'
  proof -
    obtain t where t: "?key e = Some t" "?key e' = Some t" using e(3,4) by fastforce
    from t(1) obtain h where h: "t \<noteq> snd e" "plays_at venues t h" "plays_at venues (snd e) h"
      by (auto simp: opp case_prod_beta)
    from t(2) obtain h' where h': "t \<noteq> snd e'" "plays_at venues t h'" "plays_at venues (snd e') h'"
      by (auto simp: opp case_prod_beta)
    have "h = h'" using one h(2) h'(2) by blast
    then have "snd e = snd e'" using assms(4) [OF h(2,3)] h(1) h' by blast
    with e(1,2) assms(5) show ?thesis by (metis distinct_map inj_onD)
  qed
  then have "fold (\<lambda>e m. case ?key e of None \<Rightarrow> m | Some k \<Rightarrow> m(k \<mapsto> ?v e)) probables Map.empty team = Some opp \<longleftrightarrow>
      (\<exists>e \<in> set probables. ?key e = Some team \<and> ?v e = opp)"
    by (intro fold_keyed) blast
  moreover have "opposing_step vs handedness fip = (\<lambda>e m. case ?key e of None \<Rightarrow> m | Some k \<Rightarrow> m(k \<mapsto> ?v e))"
    unfolding opposing_step_def facing_def case_prod_beta by (intro ext) simp
  ultimately have "build_opposing_pitchers probables (Some vs) handedness fip avg team = Some opp \<longleftrightarrow>
      (\<exists>e \<in> set probables. ?key e = Some team \<and> ?v e = opp)"
    using assms(6) by (cases "probables = []") (simp_all add: build_opposing_pitchers_def)
  also have "\<dots> \<longleftrightarrow> (\<exists>name pteam h. (name, pteam) \<in> set probables \<and> pteam \<noteq> team \<and> plays_at venues team h \<and>
      plays_at venues pteam h \<and> opp = facing handedness fip name pteam)"
    unfolding Bex_def split_paired_Ex prod.case opp by blast
  finally show ?thesis .
qed

theorem opposing_faces_witness:
  "build_opposing_pitchers [(''ace'', ''BOS'')] (Some (\<lambda>_. [(''BOS'', ''BOS''), (''NYY'', ''BOS'')])) Map.empty Map.empty 4 ''NYY'' =
     Some (facing Map.empty Map.empty ''ace'' ''BOS'')"
proof (rule opposing_faces [of "\<lambda>_. [(''BOS'', ''BOS''), (''NYY'', ''BOS'')]" "[(''BOS'', ''BOS''), (''NYY'', ''BOS'')]", THEN iffD2])
  show "\<exists>name pteam h. (name, pteam) \<in> set [(''ace'', ''BOS'')] \<and> pteam \<noteq> ''NYY'' \<and>
      plays_at [(''BOS'', ''BOS''), (''NYY'', ''BOS'')] ''NYY'' h \<and> plays_at [(''BOS'', ''BOS''), (''NYY'', ''BOS'')] pteam h \<and>
      facing Map.empty Map.empty ''ace'' ''BOS'' = facing Map.empty Map.empty name pteam"
    by (simp add: plays_at_def)
qed (auto simp: plays_at_def)

text \<open>A league with one hitter, who is worth six points in two games.\<close>

definition one_hitter :: projection where
  "one_hitter = \<lparr>pj_G = 2, pj_PA = 0, pj_H = 0, pj_Singles = 0, pj_Doubles = 0, pj_Triples = 0, pj_HR = 0, pj_RBI = 6,
     pj_R = 0, pj_BB = 0, pj_SB = 0, pj_CS = 0, pj_HBP = 0, pj_SO = 0, pj_GIDP = 0\<rparr>"

definition one_source :: "projection source" where
  "one_source = \<lparr>src_projection = (\<lambda>_ _. Some one_hitter), src_pts_per_game = None\<rparr>"

abbreviation one_run :: opt_result where
  "one_run \<equiv> optimize_lineup (\<lambda>s. s) [demo_player ''x'' [pos_SS]] (\<lambda>_. True) one_source [''RBI'' \<mapsto> 1] demo_slots (\<lambda>_. False)"

theorem pipeline_explains_witness:
  "\<exists>sp d. sp \<in> set (or_Scored one_run) \<and>
     hitter_pipelines_for (\<lambda>s. s) (or_Scored one_run) (Base_source one_source) [''RBI'' \<mapsto> 1] None ''x'' = Some d \<and>
     hd_FinalPtsPerGame d = sp_ExpectedPts sp"
proof -
  let ?sp = "score_player (\<lambda>s. s) (\<lambda>_. True) one_source [''RBI'' \<mapsto> 1] (\<lambda>_. False) (demo_player ''x'' [pos_SS])"
  have sc: "or_Scored one_run = [?sp]"
    by (simp add: optimize_lineup_def Let_def score_roster_def sort_slice_def)
  have id: "p_ID (sp_Player ?sp) = ''x''" by (simp add: score_player_def demo_player_def)
  have game: "sp_HasGame ?sp" by (simp add: score_player_def demo_player_def)
  have "hitter_detail_of (\<lambda>s. s) (Base_source one_source) [''RBI'' \<mapsto> 1] b None ?sp \<noteq> None" for b
    using game by (simp add: hitter_detail_of_def as_hitter_source_def one_source_def one_hitter_def Let_def)
  then obtain d where d: "hitter_pipelines_for (\<lambda>s. s) (or_Scored one_run) (Base_source one_source) [''RBI'' \<mapsto> 1] None ''x'' = Some d"
    using fold_rows [of "\<lambda>sp. p_ID (sp_Player sp)" "[?sp]" ?sp Map.empty "hitter_detail_of (\<lambda>s. s) (Base_source one_source) [''RBI'' \<mapsto> 1]
        (hitter_breakdowns_for (\<lambda>s. s) [?sp] (Base_source one_source) [''RBI'' \<mapsto> 1]) None"]
    unfolding hitter_pipelines_for_def sc id by force
  have "hd_FinalPtsPerGame d = sp_ExpectedPts ?sp"
  proof (rule conjunct1 [OF pipeline_explains [of "[demo_player ''x'' [pos_SS]]" "Base_source one_source" one_source "\<lambda>s. s" None "or_Scored one_run"]])
    show "or_Scored one_run = or_Scored one_run" ..
  qed (use d in \<open>simp_all add: sc as_hitter_source_def\<close>, simp_all add: one_source_def demo_player_def)
  with d show ?thesis by (auto simp: sc)
qed

end
