(* ===== verification/Date_Run.thy ===== *)
theory Date_Run
  imports Matchup Playoffs
begin

text \<open>
  The pass over the dates of a run: \<open>internal/lineuprun/optimize_dates.go\<close>. One date reads its rosters
  and the facts of the schedule, falls back with a warning where a read fails, and runs both
  optimisers. The dates run in parallel and share the rosters of the run: \<open>markLocked\<close> writes
  into them. The model takes one date as one step on the shared rosters, in the order in which the
  dates get to them. The lemmas show that a player whose game has started is never moved, what each
  failed read costs, and when the results do not depend on the order.
\<close>

section \<open>One date\<close>

definition mark_player :: "(string \<Rightarrow> bool) \<Rightarrow> player \<Rightarrow> player" where
  "mark_player lockedTeams p =
     (if \<not> lockedTeams (p_MLBTeam p) then p
      else if p_Status p = ''Active'' \<or> \<not> p_InMinors p \<and> \<not> p_IsInjured p then p\<lparr>p_Locked := True\<rparr>
      else p)"

definition mark_locked :: "player list \<Rightarrow> (string \<Rightarrow> bool) \<Rightarrow> player list" where
  "mark_locked roster lockedTeams = map (mark_player lockedTeams) roster"

definition all_teams_playing :: "player list \<Rightarrow> string \<Rightarrow> bool" where
  "all_teams_playing players team \<longleftrightarrow> list_ex (\<lambda>p. p_MLBTeam p = team) players"

text \<open>The two clients; a failed read is \<open>None\<close>. \<open>dc_PeriodMap\<close> is what \<open>periodDateMap\<close> answers when the
  period of a date is asked for. The venues of a date come with the order in which a
  map iteration meets them.\<close>

record date_clients =
  dc_PeriodMap :: "day \<Rightarrow> day \<Rightarrow> (day \<rightharpoonup> int) option"
  dc_HitterRosterForPeriod :: "int \<Rightarrow> player list option"
  dc_PitcherRosterForPeriod :: "int \<Rightarrow> player list option"
  dc_TeamsPlayingOn :: "day \<Rightarrow> (string \<Rightarrow> bool) option"
  dc_LockedTeams :: "day \<Rightarrow> (string \<Rightarrow> bool) option"
  dc_ProbableStarters :: "day \<Rightarrow> (string \<times> string) list option"
  dc_GameVenues :: "day \<Rightarrow> (string \<Rightarrow> (string \<times> string) list) option"
  dc_BenchedPlayers :: "day \<Rightarrow> (string \<rightharpoonup> string) \<Rightarrow> (string \<Rightarrow> bool) option"

definition date_period :: "date_clients \<Rightarrow> day \<Rightarrow> day \<Rightarrow> int" where
  "date_period c seasonStart date = daily_period_for (dc_PeriodMap c seasonStart date) seasonStart date"

record optimize_inputs =
  oi_Today :: day
  oi_SeasonStart :: day
  oi_HitterSlots :: "slot list"
  oi_PitcherSlots :: "slot list"
  oi_HitterScoring :: weights
  oi_PitcherScoring :: weights
  oi_HitterSrc :: "projection run_source"
  oi_PitcherSrc :: "pitcher_projection run_source"
  oi_HitterBats :: "string \<rightharpoonup> string"
  oi_PitcherHandedness :: "string \<rightharpoonup> string"
  oi_PitcherFIP :: "string \<rightharpoonup> real"
  oi_LeagueAvgFIP :: real
  oi_GSBudget :: "gs_budget option"
  oi_ShowPipeline :: bool

datatype date_warning =
    Hitter_roster_unavailable int | Pitcher_roster_unavailable int | Schedule_unknown day | Locks_unknown
  | Probables_unknown day | Venues_unknown day | Lineups_unknown

text \<open>The tables of the \<open>--pipeline\<close> view.\<close>

record date_tables =
  dt_Breakdowns :: "string \<rightharpoonup> breakdown"
  dt_Hitters :: "string \<rightharpoonup> hitter_detail"
  dt_Pitchers :: "string \<rightharpoonup> pitcher_detail"

record date_result =
  dr_Date :: day
  dr_Period :: int
  dr_IsToday :: bool
  dr_Hitters :: opt_result
  dr_Pitchers :: pitcher_result
  dr_Warnings :: "date_warning list"
  dr_Venues :: "(string \<Rightarrow> (string \<times> string) list) option"
  dr_BenchedToday :: "string \<Rightarrow> bool"
  dr_Budget :: "gs_budget option"
  dr_Tables :: "date_tables option"

definition warn_unless :: "'a option \<Rightarrow> date_warning \<Rightarrow> date_warning list" where
  "warn_unless got w = (if got = None then [w] else [])"

text \<open>The rosters of a date: those of its period when it is not today and has one, else the shared ones.\<close>

definition date_rosters ::
  "date_clients \<Rightarrow> bool \<Rightarrow> int \<Rightarrow> player list \<times> player list \<Rightarrow> (player list \<times> player list) \<times> date_warning list" where
  "date_rosters c isToday period shared =
     (if \<not> isToday \<and> period > 0
      then (let h = dc_HitterRosterForPeriod c period; p = dc_PitcherRosterForPeriod c period
            in ((case h of Some r \<Rightarrow> r | None \<Rightarrow> fst shared, case p of Some r \<Rightarrow> r | None \<Rightarrow> snd shared),
                warn_unless h (Hitter_roster_unavailable period) @ warn_unless p (Pitcher_roster_unavailable period)))
      else (shared, []))"

definition roster_names :: "(string \<Rightarrow> string) \<Rightarrow> player list \<Rightarrow> (string \<rightharpoonup> string)" where
  "roster_names nrm roster =
     fold (\<lambda>p m. if \<not> p_InMinors p \<and> \<not> p_IsInjured p then m(nrm (p_Name p) \<mapsto> p_MLBTeam p) else m) roster Map.empty"

text \<open>\<open>len(opposing) > 0\<close>: some announced pitcher has an opponent.\<close>

definition has_opposing ::
  "(string \<times> string) list \<Rightarrow> (string \<Rightarrow> (string \<times> string) list) option \<Rightarrow> real \<Rightarrow> bool" where
  "has_opposing probables venues avg \<longleftrightarrow> avg > 0 \<and> (case venues of None \<Rightarrow> False
     | Some vs \<Rightarrow> list_ex (\<lambda>(name, team). opponent_of (vs name) team \<noteq> None) probables)"

definition matchup_for ::
  "(string \<Rightarrow> string) \<Rightarrow> optimize_inputs \<Rightarrow> (string \<times> string) list \<Rightarrow> (string \<Rightarrow> (string \<times> string) list) option \<Rightarrow>
   matchup_source option" where
  "matchup_for nrm inp probables venues =
     (if \<not> has_opposing probables venues (oi_LeagueAvgFIP inp) then None
      else Some \<lparr>ma_inner = as_hitter_source nrm (oi_HitterSrc inp),
                 ma_opposing = build_opposing_pitchers probables venues (oi_PitcherHandedness inp) (oi_PitcherFIP inp) (oi_LeagueAvgFIP inp),
                 ma_bats = oi_HitterBats inp, ma_avgFIP = oi_LeagueAvgFIP inp\<rparr>)"

text \<open>What the reads of a date give once the rosters are known, with the warnings in their order.\<close>

record date_facts =
  df_Playing :: "string \<Rightarrow> bool"
  df_Locks :: "(string \<Rightarrow> bool) option"
  df_Probables :: "(string \<times> string) list"
  df_Venues :: "(string \<Rightarrow> (string \<times> string) list) option"
  df_Benched :: "string \<Rightarrow> bool"
  df_Warnings :: "date_warning list"

definition date_facts ::
  "(string \<Rightarrow> string) \<Rightarrow> date_clients \<Rightarrow> bool \<Rightarrow> day \<Rightarrow> player list \<times> player list \<Rightarrow> date_facts" where
  "date_facts nrm c isToday date rosters =
     (let playing = dc_TeamsPlayingOn c date;
          locks = (if isToday then dc_LockedTeams c date else None);
          probables = dc_ProbableStarters c date;
          venues = dc_GameVenues c date;
          benched = (if isToday then dc_BenchedPlayers c date (roster_names nrm (fst rosters)) else None)
      in \<lparr>df_Playing = (case playing of Some f \<Rightarrow> f | None \<Rightarrow> all_teams_playing (fst rosters @ snd rosters)),
          df_Locks = locks,
          df_Probables = (case probables of Some ps \<Rightarrow> ps | None \<Rightarrow> []),
          df_Venues = venues,
          df_Benched = (case benched of Some b \<Rightarrow> b | None \<Rightarrow> (\<lambda>_. False)),
          df_Warnings = warn_unless playing (Schedule_unknown date) @
            (if isToday then warn_unless locks Locks_unknown else []) @
            warn_unless probables (Probables_unknown date) @ warn_unless venues (Venues_unknown date) @
            (if isToday then warn_unless benched Lineups_unknown else [])\<rparr>)"

definition with_locks :: "(string \<Rightarrow> bool) option \<Rightarrow> player list \<times> player list \<Rightarrow> player list \<times> player list" where
  "with_locks locks rosters = (case locks of None \<Rightarrow> rosters
     | Some l \<Rightarrow> (mark_locked (fst rosters) l, mark_locked (snd rosters) l))"

definition run_optimizers ::
  "(string \<Rightarrow> string) \<Rightarrow> optimize_inputs \<Rightarrow> bool \<Rightarrow> date_facts \<Rightarrow> player list \<times> player list \<Rightarrow> opt_result \<times> pitcher_result" where
  "run_optimizers nrm inp isToday f rosters =
     (let src = (case matchup_for nrm inp (df_Probables f) (df_Venues f) of None \<Rightarrow> as_hitter_source nrm (oi_HitterSrc inp)
                 | Some m \<Rightarrow> matchup_as_source nrm m)
      in (optimize_lineup nrm (fst rosters) (df_Playing f) src (oi_HitterScoring inp) (oi_HitterSlots inp) (df_Benched f),
          optimize_pitcher_lineup nrm (snd rosters) (df_Playing f) (map_of (df_Probables f)) (df_Probables f \<noteq> [])
            (as_pitcher_source nrm (oi_PitcherSrc inp)) (oi_PitcherScoring inp) (oi_PitcherSlots inp)
            (if isToday then oi_GSBudget inp else None)))"

definition pipeline_tables ::
  "(string \<Rightarrow> string) \<Rightarrow> optimize_inputs \<Rightarrow> date_facts \<Rightarrow> opt_result \<Rightarrow> pitcher_result \<Rightarrow> date_tables" where
  "pipeline_tables nrm inp f h p =
     \<lparr>dt_Breakdowns = hitter_breakdowns_for nrm (or_Scored h) (oi_HitterSrc inp) (oi_HitterScoring inp),
      dt_Hitters = hitter_pipelines_for nrm (or_Scored h) (oi_HitterSrc inp) (oi_HitterScoring inp)
        (matchup_for nrm inp (df_Probables f) (df_Venues f)),
      dt_Pitchers = pitcher_pipelines_for nrm p (oi_PitcherSrc inp) (oi_PitcherScoring inp)\<rparr>"

text \<open>\<open>optimizeOneDate\<close>: the result, and the shared rosters afterwards. Today's locks are marked in
  them, because today's rosters are the shared ones.\<close>

definition optimize_one_date ::
  "(string \<Rightarrow> string) \<Rightarrow> date_clients \<Rightarrow> optimize_inputs \<Rightarrow> day \<Rightarrow> player list \<times> player list \<Rightarrow>
   date_result \<times> (player list \<times> player list)" where
  "optimize_one_date nrm c inp date shared =
     (let isToday = (date = oi_Today inp);
          period = date_period c (oi_SeasonStart inp) date;
          (rosters0, warnings0) = date_rosters c isToday period shared;
          f = date_facts nrm c isToday date rosters0;
          rosters = with_locks (df_Locks f) rosters0;
          (h, p) = run_optimizers nrm inp isToday f rosters
      in (\<lparr>dr_Date = date, dr_Period = period, dr_IsToday = isToday, dr_Hitters = h, dr_Pitchers = p,
           dr_Warnings = warnings0 @ df_Warnings f,
           dr_Venues = df_Venues f, dr_BenchedToday = df_Benched f,
           dr_Budget = (if isToday then oi_GSBudget inp else None),
           dr_Tables = (if oi_ShowPipeline inp then Some (pipeline_tables nrm inp f h p) else None)\<rparr>,
          if isToday then rosters else shared))"

section \<open>All dates\<close>

text \<open>\<open>order\<close> lists the indices of the dates as they get to the shared rosters; every result is stored
  at its own index.\<close>

fun dates_in_order ::
  "(day \<Rightarrow> player list \<times> player list \<Rightarrow> 'r \<times> (player list \<times> player list)) \<Rightarrow> day list \<Rightarrow> nat list \<Rightarrow>
   player list \<times> player list \<Rightarrow> (nat \<rightharpoonup> 'r) \<Rightarrow> (nat \<rightharpoonup> 'r)" where
  "dates_in_order step dates [] shared results = results"
| "dates_in_order step dates (i # order) shared results =
     (case step (dates ! i) shared of (r, shared') \<Rightarrow> dates_in_order step dates order shared' (results(i \<mapsto> r)))"

definition optimize_dates ::
  "(string \<Rightarrow> string) \<Rightarrow> date_clients \<Rightarrow> optimize_inputs \<Rightarrow> day list \<Rightarrow> nat list \<Rightarrow>
   player list \<times> player list \<Rightarrow> date_result option list" where
  "optimize_dates nrm c inp dates order shared =
     map (dates_in_order (optimize_one_date nrm c inp) dates order shared Map.empty) [0..<length dates]"

section \<open>Players whose game has started\<close>

lemma mark_player_simps [simp]:
  "p_ID (mark_player l p) = p_ID p" "p_MLBTeam (mark_player l p) = p_MLBTeam p" "p_Status (mark_player l p) = p_Status p"
  by (simp_all add: mark_player_def)

lemma mark_locked_ids [simp]: "map p_ID (mark_locked roster l) = map p_ID roster"
  by (simp add: mark_locked_def comp_def)

lemma marked_active: "p_Status p = ''Active'' \<Longrightarrow> l (p_MLBTeam p) \<Longrightarrow> p_Locked (mark_player l p)"
  by (simp add: mark_player_def)

lemma opposing_step_dom: "dom (opposing_step vs hand fip e m) = dom m \<union> set_option (opponent_of (vs (fst e)) (snd e))"
  by (auto simp: opposing_step_def split: prod.split option.split)

lemma has_opposing_iff:
  "has_opposing probables venues avg \<longleftrightarrow> build_opposing_pitchers probables venues hand fip avg \<noteq> Map.empty"
proof -
  have dom: "dom (fold (opposing_step vs hand fip) es m) = dom m \<union> (\<Union>e \<in> set es. set_option (opponent_of (vs (fst e)) (snd e)))" for vs es m
    by (induction es arbitrary: m) (auto simp: opposing_step_dom)
  show ?thesis
  proof (cases venues)
    case (Some vs)
    have "fold (opposing_step vs hand fip) probables Map.empty \<noteq> Map.empty \<longleftrightarrow>
        (\<exists>e \<in> set probables. opponent_of (vs (fst e)) (snd e) \<noteq> None)"
      using dom [of vs probables Map.empty] by (auto simp: set_eq_iff simp flip: dom_eq_empty_conv)
    then show ?thesis
      by (auto simp: Some has_opposing_def build_opposing_pitchers_def list_ex_iff case_prod_beta)
  qed (simp add: has_opposing_def build_opposing_pitchers_def)
qed

lemma date_rosters_today [simp]: "date_rosters c True period shared = (shared, [])"
  by (simp add: date_rosters_def)

lemma today_result:
  assumes "date = oi_Today inp" and "optimize_one_date nrm c inp date shared = (r, shared')"
  shows "shared' = with_locks (dc_LockedTeams c date) shared \<and>
    (dr_Hitters r, dr_Pitchers r) = run_optimizers nrm inp True (date_facts nrm c True date shared) shared'"
proof -
  have "df_Locks (date_facts nrm c True date shared) = dc_LockedTeams c date" by (simp add: date_facts_def Let_def)
  then show ?thesis using assms by (auto simp: optimize_one_date_def Let_def case_prod_beta)
qed

lemma started_stays:
  assumes "optimize_one_date nrm c inp (oi_Today inp) (hs, ps) = (r, shared')"
    and "dc_LockedTeams c (oi_Today inp) = Some l"
    and "distinct (map p_ID hs)" and "distinct (map p_ID ps)"
    and "p_Status p = ''Active''" and "l (p_MLBTeam p)"
  shows "(p \<in> set hs \<longrightarrow> p_ID p \<notin> set (or_ToBench (dr_Hitters r)) \<and> p_ID p \<notin> ps_PlayerID ` set (or_ToActivate (dr_Hitters r))) \<and>
    (p \<in> set ps \<longrightarrow> p_ID p \<notin> set (pr_ToBench (dr_Pitchers r)) \<and> p_ID p \<notin> ps_PlayerID ` set (pr_ToActivate (dr_Pitchers r)))"
proof -
  obtain f where f: "shared' = with_locks (Some l) (hs, ps)"
    "(dr_Hitters r, dr_Pitchers r) = run_optimizers nrm inp True f shared'"
    using today_result [OF refl assms(1)] assms(2) by auto
  let ?q = "mark_player l p"
  have q: "p_Locked ?q" "p_ID ?q = p_ID p" using marked_active assms(5,6) by simp_all
  have "p \<in> set hs \<Longrightarrow> ?q \<in> set (mark_locked hs l)" "p \<in> set ps \<Longrightarrow> ?q \<in> set (mark_locked ps l)"
    by (auto simp: mark_locked_def)
  then show ?thesis
    using f(2) q assms(3,4) locked_never_moved_aux [of "mark_locked hs l" ?q] pitcher_locked_never_moved [of "mark_locked ps l" ?q]
    by (auto simp: run_optimizers_def Let_def f(1) with_locks_def)
qed

text \<open>A player whose game has started stays where he is: when the locks of today could be read, an
  active player of a locked team is neither benched nor moved nor activated, as a hitter or as a
  pitcher, whatever his health.\<close>

theorem started_never_moved:
  assumes "optimize_one_date nrm c inp (oi_Today inp) (hs, ps) = (r, shared')"
    and "dc_LockedTeams c (oi_Today inp) = Some l"
    and "distinct (map p_ID hs)" and "distinct (map p_ID ps)"
    and "p_Status p = ''Active''" and "l (p_MLBTeam p)"
  shows "(p \<in> set hs \<longrightarrow> p_ID p \<notin> set (or_ToBench (dr_Hitters r)) \<and> p_ID p \<notin> ps_PlayerID ` set (or_ToActivate (dr_Hitters r))) \<and>
    (p \<in> set ps \<longrightarrow> p_ID p \<notin> set (pr_ToBench (dr_Pitchers r)) \<and> p_ID p \<notin> ps_PlayerID ` set (pr_ToActivate (dr_Pitchers r)))"
  using assms by (rule started_stays)

section \<open>The order of the dates\<close>

text \<open>A date that does not touch the shared rosters: it is not today, has a period, and both of its
  rosters could be read.\<close>

definition own_rosters :: "date_clients \<Rightarrow> optimize_inputs \<Rightarrow> day \<Rightarrow> bool" where
  "own_rosters c inp date \<longleftrightarrow>
     (let period = date_period c (oi_SeasonStart inp) date
      in date \<noteq> oi_Today inp \<and> period > 0 \<and> dc_HitterRosterForPeriod c period \<noteq> None \<and> dc_PitcherRosterForPeriod c period \<noteq> None)"

lemma own_rosters_step:
  "own_rosters c inp date \<Longrightarrow> optimize_one_date nrm c inp date shared = (fst (optimize_one_date nrm c inp date shared0), shared)"
  by (auto simp: own_rosters_def optimize_one_date_def date_rosters_def Let_def case_prod_beta split: option.splits)

lemma dates_in_order_step:
  assumes "distinct order" and "\<And>i. i \<in> set order \<Longrightarrow> today i \<or> (\<forall>sh. step (dates ! i) sh = (fst (step (dates ! i) sh0), sh))"
    and "\<And>i j. i \<in> set order \<Longrightarrow> j \<in> set order \<Longrightarrow> today i \<Longrightarrow> today j \<Longrightarrow> i = j"
    and "(\<exists>i \<in> set order. today i) \<longrightarrow> shared = sh0"
  shows "dates_in_order step dates order shared results i =
    (if i \<in> set order then Some (fst (step (dates ! i) sh0)) else results i)"
  using assms
proof (induction order arbitrary: shared results)
  case (Cons j order)
  obtain r shared' where st: "step (dates ! j) shared = (r, shared')" by (rule prod.exhaust)
  have r: "r = fst (step (dates ! j) sh0) \<and> ((\<exists>i \<in> set order. today i) \<longrightarrow> shared' = sh0)"
  proof (cases "today j")
    case True
    then have "\<not> (\<exists>i \<in> set order. today i)" using Cons.prems(1,3) by force
    moreover have "shared = sh0" using True Cons.prems(4) by simp
    ultimately show ?thesis using st by auto
  next
    case False
    have "\<forall>sh. step (dates ! j) sh = (fst (step (dates ! j) sh0), sh)"
      by (rule disj_imp [THEN iffD1, THEN mp, OF Cons.prems(2) [OF list.set_intros(1)] False])
    then have "step (dates ! j) shared = (fst (step (dates ! j) sh0), shared)" by (rule spec)
    then have "(r, shared') = (fst (step (dates ! j) sh0), shared)" using st by simp
    then show ?thesis using Cons.prems(4) by auto
  qed
  from r have "dates_in_order step dates order shared' (results(j \<mapsto> r)) i =
      (if i \<in> set order then Some (fst (step (dates ! i) sh0)) else (results(j \<mapsto> r)) i)"
    by (intro Cons.IH) (use Cons.prems(1-3) in \<open>auto\<close>)
  then show ?case using Cons.prems(1) st r by auto
qed simp

text \<open>C36. The dates do not disturb each other as long as none falls back: when every date but today has
  its own rosters, each date's result is the one it gets alone, stored in the order of the input,
  whatever the order in which the dates run.\<close>

theorem dates_independent:
  assumes "distinct dates" and "mset order = mset [0..<length dates]"
    and "\<forall>date \<in> set dates. date = oi_Today inp \<or> own_rosters c inp date"
  shows "optimize_dates nrm c inp dates order shared = map (\<lambda>date. Some (fst (optimize_one_date nrm c inp date shared))) dates"
proof -
  have set: "set order = {..<length dates}" by (simp add: mset_eq_setD [OF assms(2)] atLeast0LessThan)
  have dist: "distinct order" by (simp add: mset_eq_imp_distinct_iff [OF assms(2)])
  have "dates_in_order (optimize_one_date nrm c inp) dates order shared Map.empty i =
      (if i \<in> set order then Some (fst (optimize_one_date nrm c inp (dates ! i) shared)) else None)" for i
  proof (rule dates_in_order_step [OF dist, of "\<lambda>i. dates ! i = oi_Today inp"])
    show "i = j" if "i \<in> set order" "j \<in> set order" "dates ! i = oi_Today inp" "dates ! j = oi_Today inp" for i j
      using that assms(1) set nth_eq_iff_index_eq by fastforce
    show "dates ! i = oi_Today inp \<or> (\<forall>sh. optimize_one_date nrm c inp (dates ! i) sh =
        (fst (optimize_one_date nrm c inp (dates ! i) shared), sh))" if "i \<in> set order" for i
    proof -
      have "dates ! i \<in> set dates" using that set by simp
      with assms(3) have "dates ! i = oi_Today inp \<or> own_rosters c inp (dates ! i)" by (rule bspec)
      then show ?thesis
      proof
        assume "own_rosters c inp (dates ! i)"
        then show ?thesis by (intro disjI2 allI own_rosters_step)
      qed (rule disjI1)
    qed
  qed simp
  then have "map (dates_in_order (optimize_one_date nrm c inp) dates order shared Map.empty) [0..<length dates] =
      map (\<lambda>i. Some (fst (optimize_one_date nrm c inp (dates ! i) shared))) [0..<length dates]"
    unfolding map_eq_conv set by (intro ballI) (simp only: set_upt atLeastLessThan_iff lessThan_iff if_True)
  also have "\<dots> = map (\<lambda>date. Some (fst (optimize_one_date nrm c inp date shared))) (map ((!) dates) [0..<length dates])"
    unfolding map_map comp_def ..
  finally show ?thesis unfolding optimize_dates_def map_nth .
qed

section \<open>Concrete runs\<close>

text \<open>Day 0 is today; the game of the one outfielder's team has started. The reads of tomorrow's
  rosters succeed or fail with the parameter.\<close>

definition run_hitter :: player where
  "run_hitter = (demo_player ''x'' [pos_OF])\<lparr>p_MLBTeam := ''NYY'', p_Status := ''Active'', p_RosterPosition := pos_OF\<rparr>"

definition run_clients :: "player list option \<Rightarrow> date_clients" where
  "run_clients tomorrow = \<lparr>dc_PeriodMap = (\<lambda>_ _. None), dc_HitterRosterForPeriod = (\<lambda>_. tomorrow),
     dc_PitcherRosterForPeriod = (\<lambda>_. tomorrow), dc_TeamsPlayingOn = (\<lambda>_. Some (\<lambda>_. True)),
     dc_LockedTeams = (\<lambda>_. Some (\<lambda>t. t = ''NYY'')), dc_ProbableStarters = (\<lambda>_. Some []),
     dc_GameVenues = (\<lambda>_. None), dc_BenchedPlayers = (\<lambda>_ _. None)\<rparr>"

definition run_inputs :: optimize_inputs where
  "run_inputs = \<lparr>oi_Today = 0, oi_SeasonStart = 0, oi_HitterSlots = [], oi_PitcherSlots = [],
     oi_HitterScoring = Map.empty, oi_PitcherScoring = Map.empty, oi_HitterSrc = Base_source one_source,
     oi_PitcherSrc = Base_source (chained_source []), oi_HitterBats = Map.empty, oi_PitcherHandedness = Map.empty,
     oi_PitcherFIP = Map.empty, oi_LeagueAvgFIP = 4, oi_GSBudget = None, oi_ShowPipeline = False\<rparr>"

theorem started_never_moved_witness:
  "''x'' \<notin> set (or_ToBench (dr_Hitters (fst (optimize_one_date (\<lambda>s. s) (run_clients None) run_inputs 0 ([run_hitter], [])))))"
proof -
  have "p_ID run_hitter = ''x''" by (simp add: run_hitter_def demo_player_def)
  then show ?thesis
    using started_never_moved [of "\<lambda>s. s" "run_clients None" run_inputs "[run_hitter]" "[]" _ _ "\<lambda>t. t = ''NYY''" run_hitter, OF prod.collapse [symmetric]]
    by (simp add: run_inputs_def run_clients_def) (simp add: run_hitter_def demo_player_def)
qed

theorem dates_independent_witness:
  "optimize_dates (\<lambda>s. s) (run_clients (Some [])) run_inputs [0, 1] [1, 0] ([run_hitter], []) =
   [Some (fst (optimize_one_date (\<lambda>s. s) (run_clients (Some [])) run_inputs 0 ([run_hitter], []))),
    Some (fst (optimize_one_date (\<lambda>s. s) (run_clients (Some [])) run_inputs 1 ([run_hitter], [])))]"
  using dates_independent [of "[0, 1]" "[1, 0]" run_inputs "run_clients (Some [])"]
  by (simp add: own_rosters_def run_inputs_def run_clients_def date_period_def daily_period_for_def period_for_date_def sub_days_def)

text \<open>When tomorrow falls back to the shared rosters, the order decides: after today's pass the hitter
  is locked for tomorrow as well and stays; before it he is benched.\<close>

lemma no_slots: "set (hitter_plan nrm [h] pt src w [] bt) \<subseteq>
    set (locked_slots [score_player nrm pt src w bt h] (current_assign [h]))"
  by (simp add: hitter_plan_def hitter_scored_def score_roster_def sort_slice_def full_assignment_def
      partition_locked_slots_def Let_def optimal_assignment_def record_leaf_def)

lemma no_slots_bench:
  "or_ToBench (optimize_lineup nrm [h] pt src w [] bt) = (if p_Status h = ''Active'' \<and> \<not> p_Locked h then [p_ID h] else [])"
proof -
  have "\<not> assigned_in (hitter_plan nrm [h] pt src w [] bt) (p_ID h)" if "\<not> p_Locked h"
    using no_slots [of nrm h pt src w bt] that by (auto simp: assigned_in_def locked_slots_def List.map_filter_simps)
  then show ?thesis by (simp add: optimize_lineup_moves to_bench_def)
qed

lemma run_bench:
  "or_ToBench (dr_Hitters (fst (optimize_one_date nrm (run_clients None) run_inputs date ([h], ps)))) =
     or_ToBench (optimize_lineup nrm [if date = 0 then mark_player (\<lambda>t. t = ''NYY'') h else h] (\<lambda>_. True) one_source
       Map.empty [] (\<lambda>_. False))"
  "snd (optimize_one_date nrm (run_clients None) run_inputs date ([h], [])) =
     ([if date = 0 then mark_player (\<lambda>t. t = ''NYY'') h else h], [])"
  by (simp_all add: optimize_one_date_def run_optimizers_def Let_def case_prod_beta run_inputs_def run_clients_def
      date_rosters_def date_facts_def with_locks_def mark_locked_def matchup_for_def has_opposing_def as_hitter_source_def)

lemma fallback_order_matters:
  "map (map_option (\<lambda>r. or_ToBench (dr_Hitters r)))
     (optimize_dates nrm (run_clients None) run_inputs [0, 1] [0, 1] ([run_hitter], [])) = [Some [], Some []] \<and>
   map (map_option (\<lambda>r. or_ToBench (dr_Hitters r)))
     (optimize_dates nrm (run_clients None) run_inputs [0, 1] [1, 0] ([run_hitter], [])) = [Some [], Some [''x'']]"
proof -
  have h: "p_ID run_hitter = ''x''" "p_Status run_hitter = ''Active''" "\<not> p_Locked run_hitter" "p_MLBTeam run_hitter = ''NYY''"
    by (simp_all add: run_hitter_def demo_player_def)
  show ?thesis
    using h by (simp add: optimize_dates_def case_prod_beta run_bench no_slots_bench marked_active)
qed

end
