(* ===== verification/Date_Format.thy ===== *)
theory Date_Format
  imports Decimal
begin

text \<open>
  Calendar dates as the code writes and reads them, \<open>Format("2006-01-02")\<close> and
  \<open>time.Parse("2006-01-02", s)\<close>, for the years with four digits. A date is the number of its day, counted
  from 1 January of year 1. The lemmas: reading undoes writing, so two dates never share a text.
\<close>

fun month_from :: "int \<Rightarrow> int list \<Rightarrow> int \<Rightarrow> int \<times> int" where
  "month_from y [] r = (0, 0)"
| "month_from y (m # ms) r = (if r < days_in m y then (m, r + 1) else month_from y ms (r - days_in m y))"

definition civil_of_day :: "int \<Rightarrow> int \<times> int \<times> int" where
  "civil_of_day d = (let y = year_of d in (y, month_from y [1..12] (d - days_before_year y)))"

definition pad2 :: "int \<Rightarrow> string" where
  "pad2 n = [digit_char (nat (n div 10 mod 10)), digit_char (nat (n mod 10))]"

definition format_date :: "int \<Rightarrow> string" where
  "format_date d = (case civil_of_day d of (y, m, dd) \<Rightarrow>
     pad2 (y div 100) @ pad2 (y mod 100) @ ''-'' @ pad2 m @ ''-'' @ pad2 dd)"

definition parse_date :: "string \<Rightarrow> int option" where
  "parse_date s =
     (if length s \<noteq> 10 \<or> s ! 4 \<noteq> CHR ''-'' \<or> s ! 7 \<noteq> CHR ''-'' then None
      else (case (parse_uint (sub_str s 0 4) 0 9999, parse_uint (sub_str s 5 7) 1 12) of
              (Some y, Some m) \<Rightarrow> (case parse_uint (sub_str s 8 10) 1 (days_in m y) of
                 Some dd \<Rightarrow> Some (days_of_civil y m dd) | None \<Rightarrow> None)
            | _ \<Rightarrow> None))"

section \<open>Reading undoes writing\<close>

lemma digit_char_digit [simp]: "n < 10 \<Longrightarrow> is_digit (digit_char n)" "n < 10 \<Longrightarrow> digit_val (digit_char n) = int n"
proof -
  have "(of_char c :: int) = int (of_char c)" for c :: char by (rule of_nat_of_char [symmetric])
  then show "n < 10 \<Longrightarrow> is_digit (digit_char n)" "n < 10 \<Longrightarrow> digit_val (digit_char n) = int n"
    by (simp_all add: is_digit_def digit_char_def digit_val_def Let_def)
qed

lemma month_from_sound:
  assumes "distinct ms" "0 \<le> r" "r < sum_list (map (\<lambda>k. days_in k y) ms)" "month_from y ms r = (m, d)"
  shows "m \<in> set ms \<and> 1 \<le> d \<and> d \<le> days_in m y \<and> r = sum_list (map (\<lambda>k. days_in k y) (takeWhile (\<lambda>k. k \<noteq> m) ms)) + d - 1"
  using assms
proof (induction ms arbitrary: r)
  case (Cons k ms)
  show ?case
  proof (cases "r < days_in k y")
    case True
    then show ?thesis using Cons.prems by auto
  next
    case False
    then have rec: "m \<in> set ms \<and> 1 \<le> d \<and> d \<le> days_in m y \<and>
        r - days_in k y = sum_list (map (\<lambda>k. days_in k y) (takeWhile (\<lambda>k. k \<noteq> m) ms)) + d - 1"
      using Cons.IH [of "r - days_in k y"] Cons.prems by simp
    moreover have "k \<noteq> m" using rec Cons.prems(1) by auto
    ultimately show ?thesis by simp
  qed
qed simp

lemma upto_takeWhile: "1 \<le> m \<Longrightarrow> m \<le> n \<Longrightarrow> takeWhile (\<lambda>k. k \<noteq> m) [1..n] = [1..m - 1]" for m n :: int
proof -
  assume m: "1 \<le> m" "m \<le> n"
  then have "[1..n] = [1..m - 1] @ m # [m + 1..n]" by (rule upto_split3)
  moreover have "takeWhile (\<lambda>k. k \<noteq> m) ([1..m - 1] @ m # [m + 1..n]) = [1..m - 1] @ takeWhile (\<lambda>k. k \<noteq> m) (m # [m + 1..n])"
    by (rule takeWhile_append2) simp
  ultimately show ?thesis by simp
qed

lemma civil_of_day_sound:
  assumes "civil_of_day n = (y, m, d)"
  shows "y = year_of n \<and> 1 \<le> m \<and> m \<le> 12 \<and> 1 \<le> d \<and> d \<le> days_in m y \<and> days_of_civil y m d = n"
proof -
  have y: "y = year_of n" using assms by (simp add: civil_of_day_def Let_def)
  have mf: "month_from y [1..12] (n - days_before_year y) = (m, d)"
    using assms unfolding y by (simp add: civil_of_day_def Let_def)
  have "0 \<le> n - days_before_year y" "n - days_before_year y < sum_list (map (\<lambda>k. days_in k y) [1..12])"
    using year_of_bounds [of n] unfolding y by (simp_all only: month_lengths year_length) linarith+
  from month_from_sound [OF _ this mf] have "m \<in> {1..12} \<and> 1 \<le> d \<and> d \<le> days_in m y \<and>
      n - days_before_year y = sum_list (map (\<lambda>k. days_in k y) (takeWhile (\<lambda>k. k \<noteq> m) [1..12])) + d - 1"
    by simp
  then show ?thesis by (auto simp: y days_of_civil_def upto_takeWhile)
qed

lemma pad2_length [simp]: "length (pad2 n) = 2"
  by (simp add: pad2_def)

lemma nat_digit: "0 \<le> k \<Longrightarrow> k < 10 \<Longrightarrow> nat k < 10" for k :: int
  by simp

lemma mod10: "nat (k mod 10) < 10" "0 \<le> k mod 10" for k :: int
  by (simp_all add: nat_less_iff)

lemma pad2_digits: "list_all is_digit (pad2 n)"
  by (simp only: pad2_def list.pred_inject digit_char_digit(1) [OF mod10(1)] simp_thms)

lemma two_digits: "10 * (n div 10 mod 10) + n mod 10 = n mod 100" for n :: int
  using zmod_zmult2_eq [of 10 n 10] by simp

lemma pad2_value: "foldl (\<lambda>a c. a * 10 + digit_val c) v (pad2 n) = 100 * v + n mod 100"
  by (simp only: pad2_def foldl.simps digit_char_digit(2) [OF mod10(1)] int_nat_eq mod10(2) if_True)
     (simp only: two_digits [of n, symmetric] distrib_right mult.assoc mult.commute add.assoc, simp)

lemma four_digits: "0 \<le> y \<Longrightarrow> y \<le> 9999 \<Longrightarrow> 100 * (y div 100 mod 100) + y mod 100 = y" for y :: int
proof -
  assume "0 \<le> y" "y \<le> 9999"
  then have "y div 100 mod 100 = y div 100" by (intro mod_pos_pos_trivial) simp_all
  then show ?thesis by simp
qed

text \<open>A date survives writing and reading.\<close>

lemma date_roundtrip:
  assumes "0 \<le> year_of n" "year_of n \<le> 9999"
  shows "parse_date (format_date n) = Some n"
proof -
  obtain y m d where c: "civil_of_day n = (y, m, d)" by (rule prod_cases3)
  have s: "y = year_of n" "1 \<le> m" "m \<le> 12" "1 \<le> d" "d \<le> days_in m y" "days_of_civil y m d = n"
    using civil_of_day_sound [OF c] by blast+
  have f: "format_date n = pad2 (y div 100) @ pad2 (y mod 100) @ ''-'' @ pad2 m @ ''-'' @ pad2 d"
    by (simp add: format_date_def c)
  have d31: "d \<le> 31" using s by (auto simp: days_in_def split: if_splits)
  have y: "0 \<le> y" "y \<le> 9999" using s assms by simp_all
  have m: "m mod 100 = m" "d mod 100 = d" using s d31 by (intro mod_pos_pos_trivial; simp)+
  have parts: "sub_str (format_date n) 0 4 = pad2 (y div 100) @ pad2 (y mod 100)"
    "sub_str (format_date n) 5 7 = pad2 m" "sub_str (format_date n) 8 10 = pad2 d"
    "format_date n ! 4 = CHR ''-''" "format_date n ! 7 = CHR ''-''" "length (format_date n) = 10"
    by (simp_all add: f sub_str_def pad2_def)
  have "parse_uint (pad2 (y div 100) @ pad2 (y mod 100)) 0 9999 = Some y"
    unfolding parse_uint_def list_all_append foldl_append pad2_value
    using y four_digits [OF y] by (simp add: pad2_digits)
  moreover have "parse_uint (pad2 m) 1 12 = Some m" "parse_uint (pad2 d) 1 (days_in m y) = Some d"
    unfolding parse_uint_def pad2_value m using s by (simp_all only: pad2_digits) auto
  ultimately show ?thesis using s by (simp add: parse_date_def parts)
qed

lemma format_date_inj:
  assumes "0 \<le> year_of a" "year_of a \<le> 9999" "0 \<le> year_of b" "year_of b \<le> 9999" "format_date a = format_date b"
  shows "a = b"
  using date_roundtrip [OF assms(1,2)] date_roundtrip [OF assms(3,4)] unfolding assms(5) by simp

lemma format_date_length [simp]: "length (format_date n) = 10"
  by (simp add: format_date_def pad2_def split: prod.split)

end
