(* ===== verification/Snapshot_Archive.thy ===== *)
theory Snapshot_Archive
  imports Date_Run Date_Format Alert_Marker
begin

text \<open>
  The projection archive of a run: \<open>internal/lineuprun/snapshot.go\<close> with the record, the key and
  \<open>WriteSnapshot\<close> of \<open>internal/backtest/backtest.go\<close>. Every run of a day rewrites the day's file; rows
  of players whose game has started are kept. The JSON codec is a parameter. The lemmas say which
  row of a player the file holds after a rewrite, and that a frozen row stays for good.
\<close>

section \<open>Records\<close>

record snapshot_player =
  sn_PlayerID :: string
  sn_Name :: string
  sn_MLBTeam :: string
  sn_ProjPtsPerGame :: real
  sn_HasGame :: bool
  sn_IsPitcher :: bool
  sn_IsStarter :: bool
  sn_Role :: string
  sn_Slot :: string
  sn_Locked :: bool
  sn_GSSuppressed :: bool
  sn_GSFloorProtected :: bool
  sn_Eligibility :: "string list"
  sn_Status :: string

record forecast_row =
  fr_Date :: string
  fr_ConfirmedCount :: nat
  fr_Estimated :: real

record snapshot =
  sh_Date :: string
  sh_ProjectionSystem :: string
  sh_HitterSystem :: string
  sh_PitcherSystem :: string
  sh_GeneratedAt :: go_time
  sh_Hitters :: "snapshot_player list"
  sh_Pitchers :: "snapshot_player list"
  sh_HittersNoData :: bool
  sh_PitchersNoData :: bool
  sh_GSLimit :: int
  sh_GSFloor :: int
  sh_GSForecast :: "forecast_row list"
  sh_HitterProjFetchedAt :: go_time
  sh_PitcherProjFetchedAt :: go_time

record proj_inputs =
  pi_HitterSystem :: string
  pi_PitcherSystem :: string
  pi_HittersNoData :: bool
  pi_PitchersNoData :: bool
  pi_HitterFetchedAt :: go_time
  pi_PitcherFetchedAt :: go_time

section \<open>The snapshot of a result\<close>

definition forecast_rows :: "gs_budget option \<Rightarrow> forecast_row list" where
  "forecast_rows b = (case b of None \<Rightarrow> []
     | Some g \<Rightarrow> map (\<lambda>f. \<lparr>fr_Date = format_date (df_Date f),
            fr_ConfirmedCount = length (df_ConfirmedStarters f), fr_Estimated = df_Estimated f\<rparr>)
          (filter (\<lambda>f. df_Date f > gb_Today g) (gb_Forecast g)))"

definition hitter_row :: "(string \<rightharpoonup> string) \<Rightarrow> scored_player \<Rightarrow> snapshot_player" where
  "hitter_row slotName sp = (let p = sp_Player sp in
     \<lparr>sn_PlayerID = p_ID p, sn_Name = p_Name p, sn_MLBTeam = p_MLBTeam p, sn_ProjPtsPerGame = sp_ExpectedPts sp,
      sn_HasGame = sp_HasGame sp, sn_IsPitcher = False, sn_IsStarter = False, sn_Role = [],
      sn_Slot = lookup_str slotName (p_RosterPosition p), sn_Locked = p_Locked p, sn_GSSuppressed = False,
      sn_GSFloorProtected = False, sn_Eligibility = p_Positions p, sn_Status = p_Status p\<rparr>)"

definition listed :: "suppressed_start list \<Rightarrow> string \<Rightarrow> bool" where
  "listed ss pid \<longleftrightarrow> pid \<in> ss_PlayerID ` set ss"

definition pitcher_row :: "(string \<rightharpoonup> string) \<Rightarrow> gate_report \<Rightarrow> scored_pitcher \<Rightarrow> snapshot_player" where
  "pitcher_row slotName gr sp = (let p = sc_Player sp in
     \<lparr>sn_PlayerID = p_ID p, sn_Name = p_Name p, sn_MLBTeam = p_MLBTeam p, sn_ProjPtsPerGame = sc_ExpectedPts sp,
      sn_HasGame = sc_HasGame sp, sn_IsPitcher = True, sn_IsStarter = sc_IsStarter sp,
      sn_Role = (if str_contains (p_PosShortNames p) ''SP'' then ''SP'' else ''RP''),
      sn_Slot = lookup_str slotName (p_RosterPosition p), sn_Locked = p_Locked p,
      sn_GSSuppressed = listed (gr_Suppressed gr) (p_ID p),
      sn_GSFloorProtected = listed (gr_Protected gr) (p_ID p), sn_Eligibility = p_Positions p, sn_Status = p_Status p\<rparr>)"

definition build_snapshot :: "date_result \<Rightarrow> proj_inputs \<Rightarrow> (string \<rightharpoonup> string) \<Rightarrow> go_time \<Rightarrow> snapshot" where
  "build_snapshot dr prj slotName now =
     \<lparr>sh_Date = format_date (dr_Date dr),
      sh_ProjectionSystem = (if pi_HitterSystem prj = pi_PitcherSystem prj then pi_HitterSystem prj else []),
      sh_HitterSystem = pi_HitterSystem prj, sh_PitcherSystem = pi_PitcherSystem prj, sh_GeneratedAt = now,
      sh_Hitters = map (hitter_row slotName) (or_Scored (dr_Hitters dr)),
      sh_Pitchers = map (pitcher_row slotName (pr_GateReport (dr_Pitchers dr))) (pr_Scored (dr_Pitchers dr)),
      sh_HittersNoData = pi_HittersNoData prj, sh_PitchersNoData = pi_PitchersNoData prj,
      sh_GSLimit = gr_Limit (pr_GateReport (dr_Pitchers dr)), sh_GSFloor = gr_Floor (pr_GateReport (dr_Pitchers dr)),
      sh_GSForecast = forecast_rows (dr_Budget dr),
      sh_HitterProjFetchedAt = pi_HitterFetchedAt prj, sh_PitcherProjFetchedAt = pi_PitcherFetchedAt prj\<rparr>"

section \<open>The rewrite\<close>

text \<open>\<open>existingByID\<close>: the last row with an ID wins.\<close>

definition row_by_id :: "snapshot_player list \<Rightarrow> (string \<rightharpoonup> snapshot_player)" where
  "row_by_id rows = fold (\<lambda>p m. m(sn_PlayerID p \<mapsto> p)) rows Map.empty"

definition keep_locked :: "(string \<rightharpoonup> snapshot_player) \<Rightarrow> snapshot_player \<Rightarrow> snapshot_player" where
  "keep_locked m p = (case m (sn_PlayerID p) of Some old \<Rightarrow> if sn_Locked old then old else p | None \<Rightarrow> p)"

definition merge_locked_players :: "snapshot_player list \<Rightarrow> snapshot_player list \<Rightarrow> snapshot_player list" where
  "merge_locked_players fresh existing =
     (if existing = [] then fresh
      else map (keep_locked (row_by_id existing)) fresh @
           filter (\<lambda>old. sn_PlayerID old \<notin> sn_PlayerID ` set fresh \<and> sn_Locked old) existing)"

definition snapshot_key :: "string \<Rightarrow> string \<Rightarrow> string" where
  "snapshot_key dir date = (if dir = [] then date @ ''.json'' else dir @ ''/'' @ date @ ''.json'')"

record 'doc snapshot_codec =
  cd_marshal :: "snapshot \<Rightarrow> 'doc"
  cd_unmarshal :: "'doc \<Rightarrow> snapshot option"

datatype snapshot_warning = Unreadable string | Corrupt string

definition merge_snapshot :: "snapshot \<Rightarrow> snapshot \<Rightarrow> snapshot" where
  "merge_snapshot fresh existing =
     fresh\<lparr>sh_Hitters := merge_locked_players (sh_Hitters fresh) (sh_Hitters existing),
           sh_Pitchers := merge_locked_players (sh_Pitchers fresh) (sh_Pitchers existing)\<rparr>"

text \<open>What is written, after the read of the archived file, with the warnings.\<close>

definition merged_with_store ::
  "'doc snapshot_codec \<Rightarrow> faults \<Rightarrow> (string \<rightharpoonup> 'doc) \<Rightarrow> string \<Rightarrow> snapshot \<Rightarrow> snapshot \<times> snapshot_warning list" where
  "merged_with_store cd flt store key fresh =
     (if get_fails flt key then (fresh, [Unreadable (sh_Date fresh)])
      else (case store key of None \<Rightarrow> (fresh, [])
            | Some data \<Rightarrow> (case cd_unmarshal cd data of None \<Rightarrow> (fresh, [Corrupt (sh_Date fresh)])
                | Some existing \<Rightarrow> (merge_snapshot fresh existing, []))))"

text \<open>Whether the write failed, the warnings and the store afterwards.\<close>

definition write_projection_snapshot ::
  "'doc snapshot_codec \<Rightarrow> faults \<Rightarrow> string \<Rightarrow> date_result \<Rightarrow> proj_inputs \<Rightarrow> (string \<rightharpoonup> string) \<Rightarrow> go_time \<Rightarrow>
   (string \<rightharpoonup> 'doc) \<Rightarrow> bool \<times> snapshot_warning list \<times> (string \<rightharpoonup> 'doc)" where
  "write_projection_snapshot cd flt dir dr prj slotName now store =
     (let fresh = build_snapshot dr prj slotName now;
          key = snapshot_key dir (sh_Date fresh);
          (snap, warns) = merged_with_store cd flt store key fresh
      in if put_fails flt key then (True, warns, store)
         else (False, warns, store(key \<mapsto> cd_marshal cd snap)))"

text \<open>\<open>LoadSnapshot\<close>, the reader of the archive.\<close>

definition load_snapshot :: "'doc snapshot_codec \<Rightarrow> faults \<Rightarrow> (string \<rightharpoonup> 'doc) \<Rightarrow> string \<Rightarrow> day \<Rightarrow> snapshot option" where
  "load_snapshot cd flt store dir date =
     (let key = snapshot_key dir (format_date date) in
      if get_fails flt key then None
      else (case store key of None \<Rightarrow> None | Some data \<Rightarrow> cd_unmarshal cd data))"

section \<open>What a rewrite keeps\<close>

lemma row_by_id_eq: "row_by_id rows = map_of (map (\<lambda>p. (sn_PlayerID p, p)) (rev rows))"
proof -
  have "fold (\<lambda>p m. m(sn_PlayerID p \<mapsto> p)) rows m = m ++ map_of (map (\<lambda>p. (sn_PlayerID p, p)) (rev rows))" for m
    by (induction rows arbitrary: m) (auto simp: fun_eq_iff map_add_def split: option.split)
  then show ?thesis by (simp add: row_by_id_def)
qed

lemma row_by_id_Some: "row_by_id rows i = Some p \<Longrightarrow> p \<in> set rows \<and> sn_PlayerID p = i"
  by (auto simp: row_by_id_eq dest!: map_of_SomeD)

lemma row_by_id_mem: "distinct (map sn_PlayerID rows) \<Longrightarrow> p \<in> set rows \<Longrightarrow> row_by_id rows (sn_PlayerID p) = Some p"
  unfolding row_by_id_eq by (rule map_of_is_SomeI) (auto simp: comp_def rev_map [symmetric])

lemma row_by_id_None: "row_by_id rows i = None \<longleftrightarrow> i \<notin> sn_PlayerID ` set rows"
  by (simp add: row_by_id_eq map_of_eq_None_iff image_image)

lemma keep_locked_id: "sn_PlayerID (keep_locked (row_by_id rows) p) = sn_PlayerID p"
  by (auto simp: keep_locked_def dest: row_by_id_Some split: option.split)

lemma merge_distinct:
  assumes "distinct (map sn_PlayerID fresh)" "distinct (map sn_PlayerID existing)"
  shows "distinct (map sn_PlayerID (merge_locked_players fresh existing))"
proof -
  have "map sn_PlayerID (map (keep_locked (row_by_id existing)) fresh) = map sn_PlayerID fresh"
    by (simp add: keep_locked_id)
  then show ?thesis
    using assms unfolding merge_locked_players_def
    by (auto simp: distinct_map_filter simp del: map_map) (metis imageI)+
qed

lemma merge_exact:
  assumes "distinct (map sn_PlayerID existing)"
  shows "p \<in> set (merge_locked_players fresh existing) \<longleftrightarrow>
    p \<in> set existing \<and> sn_Locked p \<or>
    p \<in> set fresh \<and> (\<forall>old \<in> set existing. sn_PlayerID old = sn_PlayerID p \<longrightarrow> \<not> sn_Locked old)"
proof (cases "existing = []")
  case False
  have "p \<in> keep_locked (row_by_id existing) ` set fresh \<longleftrightarrow>
      p \<in> set existing \<and> sn_Locked p \<and> sn_PlayerID p \<in> sn_PlayerID ` set fresh \<or>
      p \<in> set fresh \<and> (\<forall>old \<in> set existing. sn_PlayerID old = sn_PlayerID p \<longrightarrow> \<not> sn_Locked old)" (is "?l = (?a \<or> ?b)")
  proof
    assume ?l
    then obtain q where q: "q \<in> set fresh" "p = keep_locked (row_by_id existing) q" by blast
    show "?a \<or> ?b"
    proof (cases "row_by_id existing (sn_PlayerID q)")
      case None
      then have "p = q" using q(2) by (simp add: keep_locked_def)
      moreover have "\<forall>old \<in> set existing. sn_PlayerID old \<noteq> sn_PlayerID q"
        using None unfolding row_by_id_None by (metis imageI)
      ultimately show ?thesis using q(1) by auto
    next
      case (Some old)
      have "old' = old" if "old' \<in> set existing" "sn_PlayerID old' = sn_PlayerID q" for old'
        using row_by_id_mem [OF assms that(1)] that(2) Some by simp
      moreover have "p = (if sn_Locked old then old else q)" using q(2) Some by (simp add: keep_locked_def)
      ultimately show ?thesis
      proof (cases "sn_Locked old")
        case True
        then have "p = old" using \<open>p = (if sn_Locked old then old else q)\<close> by simp
        then show ?thesis using True q(1) row_by_id_Some [OF Some] by (metis imageI)
      next
        case False
        then have "p = q" using \<open>p = (if sn_Locked old then old else q)\<close> by simp
        then show ?thesis using False q(1) \<open>\<And>old'. old' \<in> set existing \<Longrightarrow> sn_PlayerID old' = sn_PlayerID q \<Longrightarrow> old' = old\<close> by blast
      qed
    qed
  next
    assume "?a \<or> ?b"
    then show ?l
    proof
      assume a: ?a
      then obtain q where q: "q \<in> set fresh" "sn_PlayerID q = sn_PlayerID p" by force
      then have "keep_locked (row_by_id existing) q = p"
        using a row_by_id_mem [OF assms, of p] by (simp add: keep_locked_def)
      then show ?l using q by blast
    next
      assume b: ?b
      then have "keep_locked (row_by_id existing) p = p"
        by (auto simp: keep_locked_def dest: row_by_id_Some split: option.split)
      then show ?l using b by (metis imageI)
    qed
  qed
  then show ?thesis using False by (auto simp: merge_locked_players_def)
qed (simp add: merge_locked_players_def)

section \<open>Many runs\<close>

record capture =
  ca_Faults :: faults
  ca_Result :: date_result
  ca_Projections :: proj_inputs
  ca_SlotName :: "string \<rightharpoonup> string"
  ca_Now :: go_time

definition capture_store :: "'doc snapshot_codec \<Rightarrow> string \<Rightarrow> capture \<Rightarrow> (string \<rightharpoonup> 'doc) \<Rightarrow> (string \<rightharpoonup> 'doc)" where
  "capture_store cd dir c store = snd (snd (write_projection_snapshot cd (ca_Faults c) dir (ca_Result c)
     (ca_Projections c) (ca_SlotName c) (ca_Now c) store))"

text \<open>The rows of a result have distinct IDs, as those of a roster do.\<close>

definition distinct_rows :: "date_result \<Rightarrow> bool" where
  "distinct_rows dr \<longleftrightarrow> distinct (map (\<lambda>sp. p_ID (sp_Player sp)) (or_Scored (dr_Hitters dr))) \<and>
     distinct (map (\<lambda>sp. p_ID (sc_Player sp)) (pr_Scored (dr_Pitchers dr)))"

definition distinct_snapshot :: "snapshot \<Rightarrow> bool" where
  "distinct_snapshot s \<longleftrightarrow> distinct (map sn_PlayerID (sh_Hitters s)) \<and> distinct (map sn_PlayerID (sh_Pitchers s))"

definition locked_rows :: "snapshot_player list \<Rightarrow> snapshot_player set" where
  "locked_rows rows = {p \<in> set rows. sn_Locked p}"

text \<open>The file of a day holds at least these locked rows.\<close>

definition holds :: "'doc snapshot_codec \<Rightarrow> (string \<rightharpoonup> 'doc) \<Rightarrow> string \<Rightarrow> snapshot_player set \<Rightarrow> snapshot_player set \<Rightarrow> bool" where
  "holds cd store key hs ps \<longleftrightarrow> (\<exists>data s. store key = Some data \<and> cd_unmarshal cd data = Some s \<and>
     distinct_snapshot s \<and> hs \<subseteq> locked_rows (sh_Hitters s) \<and> ps \<subseteq> locked_rows (sh_Pitchers s))"

lemma build_snapshot_distinct: "distinct_rows dr \<Longrightarrow> distinct_snapshot (build_snapshot dr prj sl now)"
  by (simp add: distinct_rows_def distinct_snapshot_def build_snapshot_def hitter_row_def pitcher_row_def Let_def comp_def)

lemma merge_locked: "distinct (map sn_PlayerID existing) \<Longrightarrow> locked_rows existing \<subseteq> locked_rows (merge_locked_players fresh existing)"
  by (auto simp: locked_rows_def merge_exact)

lemma snapshot_key_inj: "snapshot_key dir a = snapshot_key dir b \<Longrightarrow> a = b"
  by (auto simp: snapshot_key_def split: if_splits)

lemma capture_other:
  assumes "key \<noteq> snapshot_key dir (format_date (dr_Date (ca_Result c)))"
  shows "capture_store cd dir c store key = store key"
  using assms by (auto simp: capture_store_def write_projection_snapshot_def build_snapshot_def Let_def split: prod.split)

lemma capture_holds:
  assumes codec: "\<And>s. cd_unmarshal cd (cd_marshal cd s) = Some s"
    and c: "\<not> get_fails (ca_Faults c) (snapshot_key dir (format_date (dr_Date (ca_Result c))))" "distinct_rows (ca_Result c)"
    and h: "holds cd store (snapshot_key dir (format_date (dr_Date (ca_Result c)))) hs ps"
  shows "holds cd (capture_store cd dir c store) (snapshot_key dir (format_date (dr_Date (ca_Result c)))) hs ps"
proof -
  let ?key = "snapshot_key dir (format_date (dr_Date (ca_Result c)))"
  let ?fresh = "build_snapshot (ca_Result c) (ca_Projections c) (ca_SlotName c) (ca_Now c)"
  obtain data s where s: "store ?key = Some data" "cd_unmarshal cd data = Some s" "distinct_snapshot s"
    "hs \<subseteq> locked_rows (sh_Hitters s)" "ps \<subseteq> locked_rows (sh_Pitchers s)" using h by (auto simp: holds_def)
  have date: "sh_Date ?fresh = format_date (dr_Date (ca_Result c))" by (simp add: build_snapshot_def)
  have eq: "capture_store cd dir c store = (if put_fails (ca_Faults c) ?key then store
      else store(?key \<mapsto> cd_marshal cd (merge_snapshot ?fresh s)))"
    using c(1) s(1,2) by (simp add: capture_store_def write_projection_snapshot_def Let_def date merged_with_store_def)
  have "distinct_snapshot (merge_snapshot ?fresh s)"
    using s(3) build_snapshot_distinct [OF c(2)] by (simp add: distinct_snapshot_def merge_snapshot_def merge_distinct)
  moreover have "hs \<subseteq> locked_rows (sh_Hitters (merge_snapshot ?fresh s))" "ps \<subseteq> locked_rows (sh_Pitchers (merge_snapshot ?fresh s))"
    using s(3-5) by (auto simp: merge_snapshot_def distinct_snapshot_def intro: subsetD [OF merge_locked])
  ultimately have "holds cd (store(?key \<mapsto> cd_marshal cd (merge_snapshot ?fresh s))) ?key hs ps"
    by (simp add: holds_def codec)
  then show ?thesis using h by (simp add: eq)
qed

text \<open>C12. A frozen projection is never rewritten. Once the archive of a day holds the row of a player
  whose game had started, every later sequence of runs leaves that very row in the day's file,
  whatever those runs computed and whichever of their writes fail, as long as their reads of the file succeed.\<close>

theorem frozen_row_stays:
  assumes codec: "\<forall>s. cd_unmarshal cd (cd_marshal cd s) = Some s"
    and runs: "\<forall>c \<in> set cs. \<not> get_fails (ca_Faults c) (snapshot_key dir (format_date date)) \<and> distinct_rows (ca_Result c) \<and>
      0 \<le> year_of (dr_Date (ca_Result c)) \<and> year_of (dr_Date (ca_Result c)) \<le> 9999"
    and date: "0 \<le> year_of date" "year_of date \<le> 9999"
    and archived: "load_snapshot cd healthy store dir date = Some s" "distinct_snapshot s"
    and locked: "sn_Locked p" "sn_Locked q"
  shows "\<exists>s'. load_snapshot cd healthy (fold (capture_store cd dir) cs store) dir date = Some s' \<and>
    (p \<in> set (sh_Hitters s) \<longrightarrow> p \<in> set (sh_Hitters s')) \<and> (q \<in> set (sh_Pitchers s) \<longrightarrow> q \<in> set (sh_Pitchers s'))"
proof -
  let ?key = "snapshot_key dir (format_date date)"
  let ?holds = "\<lambda>st. holds cd st ?key (locked_rows (sh_Hitters s)) (locked_rows (sh_Pitchers s))"
  have "?holds store" using archived by (auto simp: holds_def load_snapshot_def healthy_def Let_def split: option.splits)
  then have "?holds (fold (capture_store cd dir) cs store)"
    using runs
  proof (induction cs arbitrary: store)
    case (Cons c cs)
    have "?holds (capture_store cd dir c store)"
    proof (cases "dr_Date (ca_Result c) = date")
      case True
      then show ?thesis using capture_holds [of cd c dir store] Cons.prems codec by simp
    next
      case False
      then have "?key \<noteq> snapshot_key dir (format_date (dr_Date (ca_Result c)))"
        using Cons.prems(2) date format_date_inj [of date "dr_Date (ca_Result c)"] snapshot_key_inj by auto
      then show ?thesis using Cons.prems(1) by (simp add: holds_def capture_other)
    qed
    then show ?case using Cons.IH Cons.prems(2) by simp
  qed simp
  then show ?thesis using locked
    by (auto simp: holds_def load_snapshot_def healthy_def Let_def locked_rows_def)
qed

lemma pitcher_scored_ids:
  assumes "distinct (map p_ID roster)"
  shows "distinct (map (\<lambda>sp. p_ID (sc_Player sp)) (pr_Scored (optimize_pitcher_lineup nrm roster pt pr has src w slots b)))"
proof -
  let ?scored = "score_pitcher_roster nrm roster pt pr has src w"
  have "mset (pr_Scored (optimize_pitcher_lineup nrm roster pt pr has src w slots b)) = mset (fst (apply_gs_gate ?scored b))"
    by (simp add: optimize_pitcher_lineup_def Let_def case_prod_beta)
  from arg_cong [where f = "image_mset (\<lambda>sp. p_ID (sc_Player sp))", OF this]
  have "mset (map (\<lambda>sp. p_ID (sc_Player sp)) (pr_Scored (optimize_pitcher_lineup nrm roster pt pr has src w slots b))) =
      mset (map p_ID (map sc_Player (fst (apply_gs_gate ?scored b))))"
    by (simp add: comp_def)
  also have "map p_ID (map sc_Player (fst (apply_gs_gate ?scored b))) = map p_ID roster"
    by (simp only: gate_players) (simp add: score_pitcher_roster_def comp_def)
  finally show ?thesis using assms mset_eq_imp_distinct_iff by blast
qed

text \<open>Every result of the optimisers on rosters with distinct IDs has distinct rows.\<close>

lemma one_date_distinct_rows:
  assumes "distinct (map p_ID (fst shared))" "distinct (map p_ID (snd shared))"
    and "\<And>n r. dc_HitterRosterForPeriod c n = Some r \<Longrightarrow> distinct (map p_ID r)"
    and "\<And>n r. dc_PitcherRosterForPeriod c n = Some r \<Longrightarrow> distinct (map p_ID r)"
  shows "distinct_rows (fst (optimize_one_date nrm c inp date shared))"
proof -
  let ?today = "date = oi_Today inp" and ?n = "date_period c (oi_SeasonStart inp) date"
  let ?rs = "fst (date_rosters c ?today ?n shared)"
  let ?f = "date_facts nrm c ?today date ?rs"
  have "distinct (map p_ID (fst ?rs)) \<and> distinct (map p_ID (snd ?rs))"
    using assms by (auto simp: date_rosters_def Let_def split: option.split)
  then have d: "distinct (map p_ID (fst (with_locks (df_Locks ?f) ?rs)))" "distinct (map p_ID (snd (with_locks (df_Locks ?f) ?rs)))"
    by (auto simp: with_locks_def split: option.split)
  show ?thesis
    using scored_ids [OF d(1)] pitcher_scored_ids [OF d(2)]
    by (simp add: optimize_one_date_def Let_def case_prod_beta run_optimizers_def distinct_rows_def)
qed

section \<open>A concrete archive\<close>

text \<open>The documents of this example are the snapshots themselves. The first run of the day sees that
  the hitter's game has started, the second cannot read which games have.\<close>

definition plain_codec :: "snapshot snapshot_codec" where
  "plain_codec = \<lparr>cd_marshal = (\<lambda>s. s), cd_unmarshal = Some\<rparr>"

definition demo_projections :: proj_inputs where
  "demo_projections = \<lparr>pi_HitterSystem = ''atc'', pi_PitcherSystem = ''atc'', pi_HittersNoData = False,
     pi_PitchersNoData = False, pi_HitterFetchedAt = 0, pi_PitcherFetchedAt = 0\<rparr>"

definition demo_capture :: "date_clients \<Rightarrow> capture" where
  "demo_capture c = \<lparr>ca_Faults = healthy,
     ca_Result = fst (optimize_one_date (\<lambda>s. s) c run_inputs 0 ([run_hitter], [])),
     ca_Projections = demo_projections, ca_SlotName = Map.empty, ca_Now = 0\<rparr>"

abbreviation blind_clients :: date_clients where
  "blind_clients \<equiv> (run_clients None)\<lparr>dc_LockedTeams := \<lambda>_. None\<rparr>"

lemma demo_row:
  "or_Scored (dr_Hitters (ca_Result (demo_capture (run_clients None)))) =
     [score_player (\<lambda>s. s) (\<lambda>_. True) one_source Map.empty (\<lambda>_. False) (mark_player (\<lambda>t. t = ''NYY'') run_hitter)]"
  by (simp add: demo_capture_def optimize_one_date_def run_optimizers_def Let_def case_prod_beta run_inputs_def run_clients_def
      date_rosters_def date_facts_def with_locks_def mark_locked_def matchup_for_def has_opposing_def as_hitter_source_def
      optimize_lineup_def score_roster_def sort_slice_def)

theorem frozen_row_stays_witness:
  "\<exists>s'. load_snapshot plain_codec healthy
      (fold (capture_store plain_codec ''snapshots'') [demo_capture (run_clients None), demo_capture blind_clients] Map.empty) ''snapshots'' 0 = Some s' \<and>
    (\<exists>p \<in> set (sh_Hitters s'). sn_PlayerID p = ''x'' \<and> sn_Locked p)"
proof -
  let ?store = "capture_store plain_codec ''snapshots'' (demo_capture (run_clients None)) Map.empty"
  let ?s = "build_snapshot (ca_Result (demo_capture (run_clients None))) demo_projections Map.empty 0"
  let ?p = "hitter_row Map.empty (score_player (\<lambda>s. s) (\<lambda>_. True) one_source Map.empty (\<lambda>_. False) (mark_player (\<lambda>t. t = ''NYY'') run_hitter))"
  have date: "dr_Date (ca_Result (demo_capture c)) = 0" for c
    by (simp add: demo_capture_def optimize_one_date_def Let_def case_prod_beta)
  have rows: "distinct_rows (ca_Result (demo_capture c))"
    if "dc_HitterRosterForPeriod c = (\<lambda>_. None)" "dc_PitcherRosterForPeriod c = (\<lambda>_. None)" for c
    unfolding demo_capture_def capture.simps by (rule one_date_distinct_rows) (simp_all add: that)
  have p: "?p \<in> set (sh_Hitters ?s)" "sn_Locked ?p" "sn_PlayerID ?p = ''x''"
    by (simp_all add: build_snapshot_def demo_row hitter_row_def score_player_def mark_player_def run_hitter_def demo_player_def Let_def)
  have year: "year_of 0 = 1" by code_simp
  have "load_snapshot plain_codec healthy ?store ''snapshots'' 0 = Some ?s"
    by (simp add: load_snapshot_def capture_store_def write_projection_snapshot_def Let_def merged_with_store_def plain_codec_def
        healthy_def build_snapshot_def date) (simp add: demo_capture_def healthy_def)
  then have "\<exists>s'. load_snapshot plain_codec healthy (fold (capture_store plain_codec ''snapshots'') [demo_capture blind_clients] ?store)
      ''snapshots'' 0 = Some s' \<and> (?p \<in> set (sh_Hitters ?s) \<longrightarrow> ?p \<in> set (sh_Hitters s')) \<and>
      (?p \<in> set (sh_Pitchers ?s) \<longrightarrow> ?p \<in> set (sh_Pitchers s'))"
  proof (rule frozen_row_stays [rotated 4])
    show "distinct_snapshot ?s" by (rule build_snapshot_distinct [OF rows]) (simp_all add: run_clients_def)
    show "\<forall>c \<in> set [demo_capture blind_clients]. \<not> get_fails (ca_Faults c) (snapshot_key ''snapshots'' (format_date 0)) \<and>
        distinct_rows (ca_Result c) \<and> 0 \<le> year_of (dr_Date (ca_Result c)) \<and> year_of (dr_Date (ca_Result c)) \<le> 9999"
      using rows [of blind_clients] by (simp add: date year) (simp add: demo_capture_def healthy_def run_clients_def)
  qed (simp_all add: p(2) year plain_codec_def)
  then show ?thesis using p by auto
qed

end
