(* ===== verification/Lineup_Emit.thy ===== *)
theory Lineup_Emit
  imports Snapshot_Archive
begin

text \<open>
  The end of a run: \<open>internal/lineuprun/emit.go\<close>, \<open>publish.go\<close> and the value of a set of moves in
  \<open>display.go\<close>. A run archives its projections, publishes today's lineup, and then plans, shows and
  applies the moves of each date. Fantrax, the stores and the channels are parameters that may fail at
  any call; the rendering of the published document and of the messages is left out. The lemmas say
  which moves reach the roster, what a dry run may touch, and when a failure pages.
\<close>

section \<open>The plan of a date\<close>

definition zero_gain_eps :: real where
  "zero_gain_eps = 1 / 1000000000"

text \<open>Indexing a \<open>map[string]float64\<close>.\<close>

definition points_of :: "(string \<rightharpoonup> real) \<Rightarrow> string \<Rightarrow> real" where
  "points_of m i = (case m i of Some x \<Rightarrow> x | None \<Rightarrow> 0)"

definition combined_moves_delta ::
  "player_slot list \<Rightarrow> string list \<Rightarrow> (string \<rightharpoonup> real) \<Rightarrow> (string \<Rightarrow> bool) \<Rightarrow> real" where
  "combined_moves_delta acts bench pts slotOnly =
     foldl (\<lambda>d i. d - points_of pts i)
       (foldl (\<lambda>d ps. if slotOnly (ps_PlayerID ps) then d else d + points_of pts (ps_PlayerID ps)) 0 acts) bench"

definition is_zero_gain_delta :: "real \<Rightarrow> bool" where
  "is_zero_gain_delta d \<longleftrightarrow> \<bar>d\<bar> < zero_gain_eps"

datatype disposition = Moves_none | Moves_zero_gain | Moves_worth_applying

record date_plan =
  dp_Disposition :: disposition
  dp_Delta :: real
  dp_Activate :: "player_slot list"
  dp_Bench :: "string list"
  dp_Names :: "string \<rightharpoonup> string"
  dp_Pts :: "string \<rightharpoonup> real"
  dp_SlotOnly :: "string \<Rightarrow> bool"
  dp_Required :: bool
  dp_RequiredPlayerIDs :: "string list"

definition plan_names :: "date_result \<Rightarrow> (string \<rightharpoonup> string) \<Rightarrow> (string \<rightharpoonup> string)" where
  "plan_names dr base =
     fold (\<lambda>sp m. m(p_ID (sc_Player sp) \<mapsto> p_Name (sc_Player sp))) (pr_Scored (dr_Pitchers dr))
       (fold (\<lambda>sp m. m(p_ID (sp_Player sp) \<mapsto> p_Name (sp_Player sp))) (or_Scored (dr_Hitters dr)) base)"

definition pitcher_pts :: "scored_pitcher \<Rightarrow> real" where
  "pitcher_pts sp = (if sc_IsStarter sp \<or> \<not> SP_eligible_player (sc_Player sp) then sc_ExpectedPts sp
     else sc_ExpectedPts sp * non_starter_discount)"

definition plan_pts :: "date_result \<Rightarrow> (string \<rightharpoonup> real)" where
  "plan_pts dr =
     fold (\<lambda>sp m. if sc_HasGame sp then m(p_ID (sc_Player sp) \<mapsto> pitcher_pts sp) else m) (pr_Scored (dr_Pitchers dr))
       (fold (\<lambda>sp m. if sp_HasGame sp then m(p_ID (sp_Player sp) \<mapsto> sp_ExpectedPts sp) else m) (or_Scored (dr_Hitters dr)) Map.empty)"

definition plan_slot_only :: "date_result \<Rightarrow> player_slot list \<Rightarrow> string \<Rightarrow> bool" where
  "plan_slot_only dr acts i \<longleftrightarrow> i \<in> ps_PlayerID ` set acts \<and>
     (or_ActiveBefore (dr_Hitters dr) i \<noteq> None \<or> pr_ActiveBefore (dr_Pitchers dr) i \<noteq> None)"

definition empty_plan :: date_plan where
  "empty_plan = \<lparr>dp_Disposition = Moves_none, dp_Delta = 0, dp_Activate = [], dp_Bench = [], dp_Names = Map.empty,
     dp_Pts = Map.empty, dp_SlotOnly = (\<lambda>_. False), dp_Required = False, dp_RequiredPlayerIDs = []\<rparr>"

definition plan_date :: "date_result \<Rightarrow> (string \<rightharpoonup> string) \<Rightarrow> date_plan" where
  "plan_date dr playerName =
     (let acts = or_ToActivate (dr_Hitters dr) @ pr_ToActivate (dr_Pitchers dr);
          bench = or_ToBench (dr_Hitters dr) @ pr_ToBench (dr_Pitchers dr);
          pts = plan_pts dr;
          slotOnly = plan_slot_only dr acts;
          required = or_IneligibleBefore (dr_Hitters dr) @ pr_IneligibleBefore (dr_Pitchers dr);
          delta = combined_moves_delta acts bench pts slotOnly
      in if acts = [] \<and> bench = [] then empty_plan
         else \<lparr>dp_Disposition = (if is_zero_gain_delta delta \<and> required = [] then Moves_zero_gain else Moves_worth_applying),
               dp_Delta = delta, dp_Activate = acts, dp_Bench = bench, dp_Names = plan_names dr playerName, dp_Pts = pts,
               dp_SlotOnly = slotOnly, dp_Required = required \<noteq> [], dp_RequiredPlayerIDs = required\<rparr>)"

text \<open>An authorization is the plan it was issued for; the inert one is \<open>None\<close>.\<close>

definition authorize :: "date_plan \<Rightarrow> bool \<Rightarrow> date_plan option" where
  "authorize p autoApply =
     (if dp_Disposition p \<noteq> Moves_worth_applying then None else if \<not> autoApply then None else Some p)"

section \<open>The world of a run\<close>

type_synonym apply_call = "int \<times> player_slot list \<times> string list"

datatype emit_event =
    Snapshots_skipped | Snapshot_failed day | Snapshot_warned snapshot_warning | Publish_failed
  | Warned date_warning | Board day | No_changes | Planned_moves | Required_fix "string list"
  | Zero_gain | Dry_run | Proposed_only | Unauthorized day | No_period day | Applying day int
  | Apply_error day string | Applied_ok | Cache_not_invalidated day | Alert_failed day | Alert_standing day

record emit_inputs =
  ei_Results :: "date_result list"
  ei_SlotName :: "string \<rightharpoonup> string"
  ei_PlayerName :: "string \<rightharpoonup> string"
  ei_WriteSnapshots :: bool
  ei_HasSnapshotStore :: bool
  ei_SnapshotRoot :: string
  ei_Projections :: proj_inputs
  ei_PublishLineup :: bool
  ei_HasPublisher :: bool
  ei_DryRun :: bool
  ei_AutoApply :: bool
  ei_HasNotifyAlert :: bool
  ei_HasMarkers :: bool

text \<open>What answers the calls: the apply of the lineup sees the calls before it and returns the text of
  its error, if any.\<close>

record 'doc emit_env =
  ev_Codec :: "'doc snapshot_codec"
  ev_SnapshotFaults :: faults
  ev_Now :: go_time
  ev_Lineup :: "date_result \<Rightarrow> string option"
  ev_PublishFails :: "string \<Rightarrow> bool"
  ev_Apply :: "apply_call list \<Rightarrow> apply_call \<Rightarrow> string option"
  ev_InvalidateFails :: "int \<Rightarrow> bool"
  ev_MarkerFaults :: faults
  ev_SendOk :: "string \<Rightarrow> bool"
  ev_FailText :: "day \<Rightarrow> string \<Rightarrow> string"
  ev_Summary :: "date_result \<Rightarrow> date_plan \<Rightarrow> string"

record 'doc emit_world =
  ew_Snapshots :: "string \<rightharpoonup> 'doc"
  ew_Published :: "string \<rightharpoonup> string"
  ew_Marker :: marker_world
  ew_Calls :: "apply_call list"
  ew_Invalidated :: "int list"
  ew_Notified :: "string list"
  ew_Out :: "emit_event list"

definition say :: "emit_event list \<Rightarrow> 'doc emit_world \<Rightarrow> 'doc emit_world" where
  "say es w = w\<lparr>ew_Out := ew_Out w @ es\<rparr>"

section \<open>Archive and publication\<close>

text \<open>\<open>Capture\<close>: the dates archived, and the world.\<close>

definition capture_date :: "'doc emit_env \<Rightarrow> emit_inputs \<Rightarrow> date_result \<Rightarrow> day list \<times> 'doc emit_world \<Rightarrow> day list \<times> 'doc emit_world" where
  "capture_date env inp dr acc = (case acc of (archived, w) \<Rightarrow>
     (case write_projection_snapshot (ev_Codec env) (ev_SnapshotFaults env) (ei_SnapshotRoot inp) dr (ei_Projections inp)
             (ei_SlotName inp) (ev_Now env) (ew_Snapshots w) of
        (failed, warns, store) \<Rightarrow>
          (let w' = say (map Snapshot_warned warns) (w\<lparr>ew_Snapshots := store\<rparr>)
           in if failed then (archived, say [Snapshot_failed (dr_Date dr)] w') else (archived @ [dr_Date dr], w'))))"

definition capture_all :: "'doc emit_env \<Rightarrow> emit_inputs \<Rightarrow> 'doc emit_world \<Rightarrow> day list \<times> 'doc emit_world" where
  "capture_all env inp w =
     (if \<not> ei_WriteSnapshots inp then ([], w)
      else if \<not> ei_HasSnapshotStore inp then ([], say [Snapshots_skipped] w)
      else fold (capture_date env inp) (ei_Results inp) ([], w))"

abbreviation today_key :: string where "today_key \<equiv> ''today''"
abbreviation preview_key :: string where "preview_key \<equiv> ''preview''"

definition put_published :: "'doc emit_env \<Rightarrow> string \<Rightarrow> string \<Rightarrow> 'doc emit_world \<Rightarrow> bool \<times> 'doc emit_world" where
  "put_published env key data w =
     (if ev_PublishFails env key then (False, w) else (True, w\<lparr>ew_Published := (ew_Published w)(key \<mapsto> data)\<rparr>))"

text \<open>\<open>publishLineup\<close>: whether it succeeded. \<open>ev_Lineup\<close> builds and encodes the document.\<close>

definition publish_lineup :: "'doc emit_env \<Rightarrow> emit_inputs \<Rightarrow> date_result \<Rightarrow> bool \<Rightarrow> 'doc emit_world \<Rightarrow> bool \<times> 'doc emit_world" where
  "publish_lineup env inp dr preview w =
     (if \<not> ei_HasPublisher inp then (True, w)
      else (case ev_Lineup env dr of None \<Rightarrow> (False, w)
            | Some data \<Rightarrow>
                if preview then put_published env preview_key data w
                else (case put_published env today_key data w of
                        (False, w') \<Rightarrow> (False, w')
                      | (True, w') \<Rightarrow> put_published env (format_date (dr_Date dr)) data w')))"

definition publish_today :: "'doc emit_env \<Rightarrow> emit_inputs \<Rightarrow> 'doc emit_world \<Rightarrow> 'doc emit_world" where
  "publish_today env inp w =
     (case find dr_IsToday (ei_Results inp) of None \<Rightarrow> w
      | Some dr \<Rightarrow> (case publish_lineup env inp dr (ei_DryRun inp \<and> \<not> ei_PublishLineup inp) w of
            (True, w') \<Rightarrow> w' | (False, w') \<Rightarrow> say [Publish_failed] w'))"

section \<open>Applying\<close>

definition notify_apply_failure :: "'doc emit_env \<Rightarrow> emit_inputs \<Rightarrow> day \<Rightarrow> string \<Rightarrow> 'doc emit_world \<Rightarrow> 'doc emit_world" where
  "notify_apply_failure env inp date err w =
     (let msg = ev_FailText env date err;
          send_ok = (if ei_HasNotifyAlert inp then ev_SendOk env msg else True);
          ((alerted, failed), m) = send_on_change (ei_HasMarkers inp) (ev_MarkerFaults env) (ew_Marker w) (format_date date) msg send_ok;
          w' = w\<lparr>ew_Marker := m, ew_Notified := ew_Notified w @ (if alerted \<and> \<not> ei_HasNotifyAlert inp then [msg] else [])\<rparr>
      in if failed then say [Alert_failed date] w' else if \<not> alerted then say [Alert_standing date] w' else w')"

definition clear_apply_failure :: "'doc emit_env \<Rightarrow> emit_inputs \<Rightarrow> day \<Rightarrow> 'doc emit_world \<Rightarrow> 'doc emit_world" where
  "clear_apply_failure env inp date w =
     (let (tok, found) = token (ei_HasMarkers inp) (ev_MarkerFaults env) (ew_Marker w) (format_date date)
      in if found \<and> tok \<noteq> []
         then w\<lparr>ew_Marker := record_mark (ei_HasMarkers inp) (ev_MarkerFaults env) (ew_Marker w) (format_date date) []\<rparr> else w)"

definition invalidate_cache :: "'doc emit_env \<Rightarrow> date_result \<Rightarrow> 'doc emit_world \<Rightarrow> 'doc emit_world" where
  "invalidate_cache env dr w =
     (if ev_InvalidateFails env (dr_Period dr) then say [Cache_not_invalidated (dr_Date dr)] w
      else w\<lparr>ew_Invalidated := ew_Invalidated w @ [dr_Period dr]\<rparr>)"

definition apply_lineup_for :: "'doc emit_env \<Rightarrow> emit_inputs \<Rightarrow> date_result \<Rightarrow> date_plan option \<Rightarrow> 'doc emit_world \<Rightarrow> 'doc emit_world" where
  "apply_lineup_for env inp dr auth w =
     (case auth of None \<Rightarrow> say [Unauthorized (dr_Date dr)] w
      | Some plan \<Rightarrow>
          if dr_Period dr = 0 \<and> \<not> dr_IsToday dr then say [No_period (dr_Date dr)] w
          else
            (let call = (dr_Period dr, dp_Activate plan, dp_Bench plan);
                 outcome = ev_Apply env (ew_Calls w) call;
                 w' = say [Applying (dr_Date dr) (dr_Period dr)] (w\<lparr>ew_Calls := ew_Calls w @ [call]\<rparr>)
             in case outcome of
                  Some err \<Rightarrow> notify_apply_failure env inp (dr_Date dr) err (say [Apply_error (dr_Date dr) err] w')
                | None \<Rightarrow>
                    (let w2 = invalidate_cache env dr (clear_apply_failure env inp (dr_Date dr) (say [Applied_ok] w'))
                     in w2\<lparr>ew_Notified := ew_Notified w2 @ [ev_Summary env dr plan]\<rparr>)))"

definition required_names :: "date_plan \<Rightarrow> string list" where
  "required_names plan = map (\<lambda>i. if lookup_str (dp_Names plan) i \<noteq> [] then lookup_str (dp_Names plan) i else i) (dp_RequiredPlayerIDs plan)"

definition emit_date :: "'doc emit_env \<Rightarrow> emit_inputs \<Rightarrow> date_result \<Rightarrow> 'doc emit_world \<Rightarrow> 'doc emit_world" where
  "emit_date env inp dr w =
     (let w1 = say (map Warned (dr_Warnings dr) @ [Board (dr_Date dr)]) w;
          plan = plan_date dr (ei_PlayerName inp)
      in if dp_Disposition plan = Moves_none then say [No_changes] w1
         else
           (let w2 = say ([Planned_moves] @ (if dp_Required plan then [Required_fix (required_names plan)] else [])) w1
            in if dp_Disposition plan = Moves_zero_gain then say [Zero_gain] w2
               else if ei_DryRun inp then say [Dry_run] w2
               else (case authorize plan (ei_AutoApply inp) of
                       None \<Rightarrow> if \<not> ei_AutoApply inp then say [Proposed_only] w2 else w2
                     | Some a \<Rightarrow> apply_lineup_for env inp dr (Some a) w2)))"

definition emit :: "'doc emit_env \<Rightarrow> emit_inputs \<Rightarrow> 'doc emit_world \<Rightarrow> 'doc emit_world" where
  "emit env inp w = fold (emit_date env inp) (ei_Results inp) (publish_today env inp (snd (capture_all env inp w)))"

section \<open>What each step leaves alone\<close>

lemma say_simps [simp]:
  "ew_Snapshots (say es w) = ew_Snapshots w" "ew_Published (say es w) = ew_Published w" "ew_Marker (say es w) = ew_Marker w"
  "ew_Calls (say es w) = ew_Calls w" "ew_Invalidated (say es w) = ew_Invalidated w" "ew_Notified (say es w) = ew_Notified w"
  by (simp_all add: say_def)

lemma capture_date_frame:
  "ew_Published (snd (capture_date env inp dr acc)) = ew_Published (snd acc)"
  "ew_Marker (snd (capture_date env inp dr acc)) = ew_Marker (snd acc)"
  "ew_Calls (snd (capture_date env inp dr acc)) = ew_Calls (snd acc)"
  "ew_Invalidated (snd (capture_date env inp dr acc)) = ew_Invalidated (snd acc)"
  "ew_Notified (snd (capture_date env inp dr acc)) = ew_Notified (snd acc)"
  by (simp_all add: capture_date_def Let_def split: prod.split)

lemma fold_frame: "(\<And>x acc. f (g x acc) = f acc) \<Longrightarrow> f (fold g xs acc) = f acc"
  by (induction xs arbitrary: acc) simp_all

lemma capture_frame [simp]:
  "ew_Published (snd (capture_all env inp w)) = ew_Published w" "ew_Marker (snd (capture_all env inp w)) = ew_Marker w"
  "ew_Calls (snd (capture_all env inp w)) = ew_Calls w" "ew_Invalidated (snd (capture_all env inp w)) = ew_Invalidated w"
  "ew_Notified (snd (capture_all env inp w)) = ew_Notified w"
  using fold_frame [where f = "\<lambda>a. ew_Published (snd a)" and g = "capture_date env inp" and acc = "([], w)"]
    fold_frame [where f = "\<lambda>a. ew_Marker (snd a)" and g = "capture_date env inp" and acc = "([], w)"]
    fold_frame [where f = "\<lambda>a. ew_Calls (snd a)" and g = "capture_date env inp" and acc = "([], w)"]
    fold_frame [where f = "\<lambda>a. ew_Invalidated (snd a)" and g = "capture_date env inp" and acc = "([], w)"]
    fold_frame [where f = "\<lambda>a. ew_Notified (snd a)" and g = "capture_date env inp" and acc = "([], w)"]
  by (simp_all add: capture_all_def capture_date_frame)

lemma put_published_frame:
  "put_published env key data w = (ok, w') \<Longrightarrow> ew_Marker w' = ew_Marker w \<and> ew_Calls w' = ew_Calls w \<and>
     ew_Invalidated w' = ew_Invalidated w \<and> ew_Notified w' = ew_Notified w \<and> ew_Snapshots w' = ew_Snapshots w"
  by (auto simp: put_published_def split: if_splits)

lemma publish_lineup_frame:
  "publish_lineup env inp dr preview w = (ok, w') \<Longrightarrow> ew_Marker w' = ew_Marker w \<and> ew_Calls w' = ew_Calls w \<and>
     ew_Invalidated w' = ew_Invalidated w \<and> ew_Notified w' = ew_Notified w \<and> ew_Snapshots w' = ew_Snapshots w"
  by (auto simp: publish_lineup_def split: if_splits option.splits prod.splits bool.splits dest!: put_published_frame)

lemma publish_frame [simp]:
  "ew_Marker (publish_today env inp w) = ew_Marker w" "ew_Calls (publish_today env inp w) = ew_Calls w"
  "ew_Invalidated (publish_today env inp w) = ew_Invalidated w" "ew_Notified (publish_today env inp w) = ew_Notified w"
  "ew_Snapshots (publish_today env inp w) = ew_Snapshots w"
  by (auto simp: publish_today_def split: option.split prod.split bool.split dest!: publish_lineup_frame)

lemma notify_frame [simp]:
  "ew_Calls (notify_apply_failure env inp date err w) = ew_Calls w"
  "ew_Published (notify_apply_failure env inp date err w) = ew_Published w"
  by (simp_all add: notify_apply_failure_def Let_def split: prod.split)

lemma clear_frame [simp]:
  "ew_Calls (clear_apply_failure env inp date w) = ew_Calls w"
  "ew_Published (clear_apply_failure env inp date w) = ew_Published w"
  by (simp_all add: clear_apply_failure_def Let_def split: prod.split)

lemma invalidate_frame [simp]:
  "ew_Calls (invalidate_cache env dr w) = ew_Calls w" "ew_Published (invalidate_cache env dr w) = ew_Published w"
  "ew_Marker (invalidate_cache env dr w) = ew_Marker w"
  by (simp_all add: invalidate_cache_def)

section \<open>Which moves reach the roster\<close>

text \<open>The moves of a date that are to be written: they are worth applying, this is not a dry run, the
  tenant has consented, and the date has a period or is today.\<close>

definition to_apply :: "emit_inputs \<Rightarrow> date_result \<Rightarrow> bool" where
  "to_apply inp dr \<longleftrightarrow> dp_Disposition (plan_date dr (ei_PlayerName inp)) = Moves_worth_applying \<and>
     \<not> ei_DryRun inp \<and> ei_AutoApply inp \<and> (dr_Period dr \<noteq> 0 \<or> dr_IsToday dr)"

definition call_of :: "emit_inputs \<Rightarrow> date_result \<Rightarrow> apply_call" where
  "call_of inp dr = (let p = plan_date dr (ei_PlayerName inp) in (dr_Period dr, dp_Activate p, dp_Bench p))"

lemma apply_calls:
  "ew_Calls (apply_lineup_for env inp dr (Some plan) w) =
     ew_Calls w @ (if dr_Period dr \<noteq> 0 \<or> dr_IsToday dr then [(dr_Period dr, dp_Activate plan, dp_Bench plan)] else [])"
  by (simp add: apply_lineup_for_def Let_def split: option.split)

lemma emit_date_calls:
  "ew_Calls (emit_date env inp dr w) = ew_Calls w @ (if to_apply inp dr then [call_of inp dr] else [])"
proof (cases "dp_Disposition (plan_date dr (ei_PlayerName inp))")
  case Moves_worth_applying
  then show ?thesis by (simp add: emit_date_def Let_def authorize_def to_apply_def call_of_def apply_calls)
qed (simp_all add: emit_date_def Let_def to_apply_def)

lemma emit_calls:
  "ew_Calls (emit env inp w) = ew_Calls w @ map (call_of inp) (filter (to_apply inp) (ei_Results inp))"
proof -
  have "ew_Calls (fold (emit_date env inp) drs v) = ew_Calls v @ map (call_of inp) (filter (to_apply inp) drs)" for drs v
    by (induction drs arbitrary: v) (simp_all add: emit_date_calls)
  then show ?thesis by (simp add: emit_def)
qed

text \<open>C6. The roster is written exactly as planned. The calls that the emission of a run makes to the client's
  apply are, in the order of the dates, those of the dates whose moves are worth applying and which have a scoring
  period or are today, when the run is not a dry run and the tenant has consented to automatic changes; a
  failing apply, archive, publication or alert neither drops nor repeats the call of another date.\<close>

theorem applies_exactly:
  "ew_Calls (emit env inp w) = ew_Calls w @ map (call_of inp) (filter (to_apply inp) (ei_Results inp))"
  by (rule emit_calls)

section \<open>Dry runs\<close>

lemma emit_date_dry:
  assumes "ei_DryRun inp"
  shows "ew_Calls (emit_date env inp dr w) = ew_Calls w \<and> ew_Marker (emit_date env inp dr w) = ew_Marker w \<and>
    ew_Invalidated (emit_date env inp dr w) = ew_Invalidated w \<and> ew_Notified (emit_date env inp dr w) = ew_Notified w \<and>
    ew_Published (emit_date env inp dr w) = ew_Published w"
  using assms by (simp add: emit_date_def Let_def)

lemma preview_only:
  assumes "publish_lineup env inp dr True w = (ok, w')" and "key \<noteq> preview_key"
  shows "ew_Published w' key = ew_Published w key"
  using assms by (auto simp: publish_lineup_def put_published_def split: if_splits option.splits)

lemma emit_dry_run:
  assumes "ei_DryRun inp" and "\<not> ei_PublishLineup inp"
  shows "ew_Calls (emit env inp w) = ew_Calls w \<and> ew_Invalidated (emit env inp w) = ew_Invalidated w \<and>
    ew_Notified (emit env inp w) = ew_Notified w \<and> ew_Marker (emit env inp w) = ew_Marker w \<and>
    (key \<noteq> preview_key \<longrightarrow> ew_Published (emit env inp w) key = ew_Published w key)"
proof -
  let ?w = "publish_today env inp (snd (capture_all env inp w))"
  have fold: "ew_Calls (fold (emit_date env inp) drs v) = ew_Calls v \<and> ew_Invalidated (fold (emit_date env inp) drs v) = ew_Invalidated v \<and>
      ew_Notified (fold (emit_date env inp) drs v) = ew_Notified v \<and> ew_Marker (fold (emit_date env inp) drs v) = ew_Marker v \<and>
      ew_Published (fold (emit_date env inp) drs v) = ew_Published v" for drs v
    by (induction drs arbitrary: v) (simp_all add: emit_date_dry [OF assms(1)])
  have "ew_Published ?w key = ew_Published w key" if "key \<noteq> preview_key"
    using assms preview_only [OF _ that, of env inp _ "snd (capture_all env inp w)"]
    by (auto simp: publish_today_def split: option.split prod.split bool.split)
  then show ?thesis using fold by (simp add: emit_def)
qed

section \<open>What a plan is worth\<close>

definition active_ids :: "player list \<Rightarrow> string set" where
  "active_ids roster = p_ID ` {p \<in> set roster. p_Status p = ''Active''}"

text \<open>The points of the players who score: those in the lineup.\<close>

definition active_value :: "(string \<rightharpoonup> real) \<Rightarrow> player list \<Rightarrow> real" where
  "active_value pts roster = sum_list (map (\<lambda>p. points_of pts (p_ID p)) (filter (\<lambda>p. p_Status p = ''Active'') roster))"

lemma active_value_ids: "distinct (map p_ID roster) \<Longrightarrow> active_value pts roster = sum (points_of pts) (active_ids roster)"
proof -
  assume d: "distinct (map p_ID roster)"
  let ?rs = "filter (\<lambda>p. p_Status p = ''Active'') roster"
  have "distinct (map p_ID ?rs)" using d by (simp add: distinct_map_filter)
  then have "sum_list (map (points_of pts) (map p_ID ?rs)) = sum (points_of pts) (set (map p_ID ?rs))"
    by (rule sum_list_distinct_conv_sum_set)
  then show ?thesis by (simp add: active_value_def active_ids_def comp_def)
qed

lemma delta_sums:
  "combined_moves_delta acts bench pts slotOnly =
     sum_list (map (points_of pts) (filter (\<lambda>i. \<not> slotOnly i) (map ps_PlayerID acts))) - sum_list (map (points_of pts) bench)"
proof -
  have a: "foldl (\<lambda>d ps. if slotOnly (ps_PlayerID ps) then d else d + points_of pts (ps_PlayerID ps)) x acts =
      x + sum_list (map (points_of pts) (filter (\<lambda>i. \<not> slotOnly i) (map ps_PlayerID acts)))" for x
    by (induction acts arbitrary: x) simp_all
  have b: "foldl (\<lambda>d i. d - points_of pts i) x bench = x - sum_list (map (points_of pts) bench)" for x
    by (induction bench arbitrary: x) simp_all
  show ?thesis by (simp add: combined_moves_delta_def a b)
qed

text \<open>Moves as the optimisers make them.\<close>

definition proper_moves :: "player list \<Rightarrow> player_slot list \<Rightarrow> string list \<Rightarrow> bool" where
  "proper_moves roster acts bench \<longleftrightarrow> distinct (map ps_PlayerID acts) \<and> ps_PlayerID ` set acts \<subseteq> p_ID ` set roster \<and>
     distinct bench \<and> set bench \<subseteq> active_ids roster \<and> ps_PlayerID ` set acts \<inter> set bench = {}"

lemma image_filter_mem: "f ` {x \<in> R. f x \<in> C} = C \<inter> f ` R"
  by blast

lemma active_ids_after:
  assumes d: "distinct (map p_ID roster)" and m: "proper_moves roster acts bench"
  shows "active_ids (map (apply_player acts bench) roster) = (active_ids roster - set bench) \<union> ps_PlayerID ` set acts"
proof -
  have act: "p_Status (apply_player acts bench p) = ''Active'' \<longleftrightarrow>
      p_ID p \<in> ps_PlayerID ` set acts \<or> p_Status p = ''Active'' \<and> p_ID p \<notin> set bench" for p
  proof (cases "p_ID p \<in> ps_PlayerID ` set acts")
    case True
    then have "map_of (map (\<lambda>ps. (ps_PlayerID ps, ps_PosID ps)) acts) (p_ID p) \<noteq> None"
      by (simp add: map_of_eq_None_iff image_image)
    then obtain s where "map_of (map (\<lambda>ps. (ps_PlayerID ps, ps_PosID ps)) acts) (p_ID p) = Some s" by auto
    then show ?thesis using True by (simp add: apply_player_def)
  next
    case False
    then have "map_of (map (\<lambda>ps. (ps_PlayerID ps, ps_PosID ps)) acts) (p_ID p) = None"
      by (simp add: map_of_eq_None_iff image_image)
    then show ?thesis using False by (simp add: apply_player_def)
  qed
  have inj: "p = q" if "p \<in> set roster" "q \<in> set roster" "p_ID p = p_ID q" for p q
    using d that by (metis distinct_map inj_onD)
  have "active_ids (map (apply_player acts bench) roster) =
      p_ID ` {p \<in> set roster. p_ID p \<in> ps_PlayerID ` set acts \<or> p_Status p = ''Active'' \<and> p_ID p \<notin> set bench}"
    by (simp add: active_ids_def Compr_image_eq image_image act)
  also have "\<dots> = p_ID ` {p \<in> set roster. p_ID p \<in> ps_PlayerID ` set acts} \<union> (active_ids roster - set bench)"
    by (auto simp: active_ids_def)
  also have "p_ID ` {p \<in> set roster. p_ID p \<in> ps_PlayerID ` set acts} = ps_PlayerID ` set acts \<inter> p_ID ` set roster"
    by (rule image_filter_mem)
  also have "\<dots> = ps_PlayerID ` set acts" using m unfolding proper_moves_def by blast
  finally show ?thesis by (simp only: Un_commute)
qed

lemma moves_value:
  assumes d: "distinct (map p_ID roster)" and m: "proper_moves roster acts bench"
    and so: "\<And>i. i \<in> ps_PlayerID ` set acts \<Longrightarrow> slotOnly i \<longleftrightarrow> i \<in> active_ids roster"
  shows "combined_moves_delta acts bench pts slotOnly =
    active_value pts (map (apply_player acts bench) roster) - active_value pts roster"
proof -
  let ?A = "active_ids roster" and ?B = "set bench" and ?C = "ps_PlayerID ` set acts" and ?v = "points_of pts"
  have fin: "finite ?A" by (simp add: active_ids_def)
  have d': "distinct (map p_ID (map (apply_player acts bench) roster))" using d by (simp add: comp_def)
  have sub: "?B \<subseteq> ?A" "?C \<inter> ?B = {}" using m by (auto simp: proper_moves_def)
  have "sum_list (map ?v (filter (\<lambda>i. \<not> slotOnly i) (map ps_PlayerID acts))) = sum ?v (set (filter (\<lambda>i. \<not> slotOnly i) (map ps_PlayerID acts)))"
    using m by (intro sum_list_distinct_conv_sum_set) (simp add: proper_moves_def)
  also have "set (filter (\<lambda>i. \<not> slotOnly i) (map ps_PlayerID acts)) = ?C - ?A" using so by auto
  finally have acts: "sum_list (map ?v (filter (\<lambda>i. \<not> slotOnly i) (map ps_PlayerID acts))) = sum ?v (?C - ?A)" .
  have bench: "sum_list (map ?v bench) = sum ?v ?B"
    using m by (intro sum_list_distinct_conv_sum_set) (simp add: proper_moves_def)
  have "(?A - ?B) \<union> ?C = (?A - ?B) \<union> (?C - ?A)" using sub(2) by blast
  then have "sum ?v ((?A - ?B) \<union> ?C) = sum ?v (?A - ?B) + sum ?v (?C - ?A)"
    using fin by (simp only:) (intro sum.union_disjoint, auto)
  also have "sum ?v (?A - ?B) = sum ?v ?A - sum ?v ?B" using fin sub(1) by (rule sum_diff)
  finally show ?thesis
    by (simp add: delta_sums acts bench active_value_ids [OF d] active_value_ids [OF d'] active_ids_after [OF d m])
qed

lemma disjoint_sub: "A \<inter> B = {} \<Longrightarrow> C \<subseteq> A \<Longrightarrow> D \<subseteq> B \<Longrightarrow> C \<inter> D = {}"
  by blast

lemma proper_moves_append:
  assumes "proper_moves hs a b" "proper_moves ps a' b'" "distinct (map p_ID (hs @ ps))"
  shows "proper_moves (hs @ ps) (a @ a') (b @ b')"
proof -
  have sub: "active_ids hs \<subseteq> p_ID ` set hs" "active_ids ps \<subseteq> p_ID ` set ps" by (auto simp: active_ids_def)
  have un: "active_ids (hs @ ps) = active_ids hs \<union> active_ids ps" by (auto simp: active_ids_def)
  have dis: "p_ID ` set hs \<inter> p_ID ` set ps = {}" using assms(3) by auto
  have in_ids: "ps_PlayerID ` set a \<subseteq> p_ID ` set hs" "set b \<subseteq> active_ids hs" "ps_PlayerID ` set a' \<subseteq> p_ID ` set ps" "set b' \<subseteq> active_ids ps"
    using assms(1,2) by (simp_all add: proper_moves_def)
  have sid: "p_ID ` set ps \<inter> p_ID ` set hs = {}" using dis by (simp only: Int_commute)
  have apart: "ps_PlayerID ` set a \<inter> ps_PlayerID ` set a' = {}" "set b \<inter> set b' = {}"
    "ps_PlayerID ` set a \<inter> set b' = {}" "ps_PlayerID ` set a' \<inter> set b = {}"
    by (rule disjoint_sub [OF dis in_ids(1,3)], rule disjoint_sub [OF dis order_trans [OF in_ids(2) sub(1)] order_trans [OF in_ids(4) sub(2)]],
        rule disjoint_sub [OF dis in_ids(1) order_trans [OF in_ids(4) sub(2)]],
        rule disjoint_sub [OF sid in_ids(3) order_trans [OF in_ids(2) sub(1)]])
  have m: "distinct (map ps_PlayerID (a @ a'))" "distinct (b @ b')"
    using assms(1,2) apart(1,2) by (auto simp: proper_moves_def)
  have ab: "ps_PlayerID ` set a \<inter> set b = {}" "ps_PlayerID ` set a' \<inter> set b' = {}"
    using assms(1,2) by (simp_all add: proper_moves_def)
  have "ps_PlayerID ` set (a @ a') \<inter> set (b @ b') = {}"
    by (simp only: set_append image_Un Int_Un_distrib Int_Un_distrib2 ab apart(3,4) Un_empty_left)
  moreover have "ps_PlayerID ` set (a @ a') \<subseteq> p_ID ` set (hs @ ps)"
    unfolding set_append image_Un by (rule Un_mono [OF in_ids(1,3)])
  moreover have "set (b @ b') \<subseteq> active_ids (hs @ ps)"
    unfolding set_append un by (rule Un_mono [OF in_ids(2,4)])
  ultimately show ?thesis using m by (simp only: proper_moves_def simp_thms)
qed

lemma plan_in_roster:
  assumes "ps \<in> set (full_assignment scored cands slots cur elig)"
    and "\<And>sp. sp \<in> set scored \<Longrightarrow> sp_Player sp \<in> set roster" "\<And>sp. sp \<in> set cands \<Longrightarrow> sp_Player sp \<in> set roster"
  shows "ps_PlayerID ps \<in> p_ID ` set roster"
  using full_assignment_cases [OF assms(1)] assms(2,3) by (auto simp: place_def)

lemma moves_of_plan:
  assumes d: "distinct (map p_ID roster)" "distinct (map ps_PlayerID plan)"
    and r: "\<And>ps. ps \<in> set plan \<Longrightarrow> ps_PlayerID ps \<in> p_ID ` set roster"
    and b: "\<And>ps. ps \<in> set plan \<Longrightarrow> assigned (ps_PlayerID ps)"
  shows "proper_moves roster (changed_activate cur plan) (to_bench roster assigned)"
proof -
  have "distinct (to_bench roster assigned)" using d(1) by (simp add: to_bench_def distinct_map_filter)
  moreover have "set (to_bench roster assigned) \<subseteq> active_ids roster" by (auto simp: to_bench_def active_ids_def)
  moreover have "distinct (map ps_PlayerID (changed_activate cur plan))"
    using d(2) by (simp add: changed_activate_def distinct_map_filter)
  moreover have "ps_PlayerID ` set (changed_activate cur plan) \<inter> set (to_bench roster assigned) = {}"
  proof -
    have "\<not> assigned i \<Longrightarrow> i \<notin> ps_PlayerID ` set plan" for i using b by blast
    then show ?thesis unfolding to_bench_def changed_activate_def by force
  qed
  ultimately show ?thesis using r by (auto simp: proper_moves_def changed_activate_def)
qed

lemma hitter_moves:
  assumes "distinct (map p_ID roster)"
  shows "proper_moves roster (or_ToActivate (optimize_lineup nrm roster pt src w slots bt))
    (or_ToBench (optimize_lineup nrm roster pt src w slots bt))"
  unfolding optimize_lineup_moves
  by (rule moves_of_plan [OF assms hitter_plan_ids [OF assms]])
     (auto simp: hitter_plan_def assigned_in_def intro: plan_in_roster dest: hitter_scored_player)

lemma pitcher_moves:
  assumes "distinct (map p_ID roster)"
  shows "proper_moves roster (pr_ToActivate (optimize_pitcher_lineup nrm roster pt pr has src w slots budget))
    (pr_ToBench (optimize_pitcher_lineup nrm roster pt pr has src w slots budget))"
  unfolding optimize_pitcher_moves
proof (rule moves_of_plan [OF assms pitcher_plan_ids [OF assms]])
  let ?plan = "pitcher_plan nrm roster pt pr has src w slots budget"
  show "ps_PlayerID ps \<in> p_ID ` set roster" if "ps \<in> set ?plan" for ps
    using that unfolding pitcher_plan_def
    by (rule plan_in_roster) (auto dest!: generic_simps(1) for_partition_simps(1) dest: gated_player)
  show "ps_PlayerID ps \<in> set (retained roster (current_assign roster) slots ?plan)" if "ps \<in> set ?plan" for ps
    using that by (rule_tac retained_spec [of roster "current_assign roster" slots ?plan]) auto
qed

text \<open>Every active player of a roster has a position, as on the site.\<close>

definition placed_roster :: "player list \<Rightarrow> bool" where
  "placed_roster roster \<longleftrightarrow> list_all (\<lambda>p. p_Status p = ''Active'' \<longrightarrow> p_RosterPosition p \<noteq> []) roster"

lemma current_active:
  assumes "distinct (map p_ID roster)" "placed_roster roster"
  shows "current_assign roster i \<noteq> None \<longleftrightarrow> i \<in> active_ids roster"
proof (cases "i \<in> p_ID ` set roster")
  case True
  then obtain p where p: "p \<in> set roster" "i = p_ID p" by blast
  have "q = p" if "q \<in> set roster" "p_ID q = p_ID p" for q
    using assms(1) p(1) that by (metis distinct_map inj_onD)
  then have "i \<in> active_ids roster \<longleftrightarrow> p_Status p = ''Active''" using p by (auto simp: active_ids_def)
  then show ?thesis
    using p assms(2) by (simp add: current_assign_Some [OF assms(1) p(1)] placed_roster_def list_all_iff)
next
  case False
  then have "current_assign roster i = None"
    using current_assign_fold [OF assms(1), of Map.empty i] by (auto simp: current_assign_def)
  then show ?thesis using False by (auto simp: active_ids_def)
qed

lemma plan_unfolds:
  "dp_Activate (plan_date dr names) = or_ToActivate (dr_Hitters dr) @ pr_ToActivate (dr_Pitchers dr)"
  "dp_Bench (plan_date dr names) = or_ToBench (dr_Hitters dr) @ pr_ToBench (dr_Pitchers dr)"
  "dp_Delta (plan_date dr names) = combined_moves_delta (dp_Activate (plan_date dr names)) (dp_Bench (plan_date dr names))
     (plan_pts dr) (plan_slot_only dr (dp_Activate (plan_date dr names)))"
  by (simp_all add: plan_date_def empty_plan_def Let_def combined_moves_delta_def)

lemma plan_worth_iff:
  "dp_Disposition (plan_date dr names) = Moves_worth_applying \<longleftrightarrow>
     (dp_Activate (plan_date dr names) \<noteq> [] \<or> dp_Bench (plan_date dr names) \<noteq> []) \<and>
     (\<bar>dp_Delta (plan_date dr names)\<bar> \<ge> zero_gain_eps \<or>
      or_IneligibleBefore (dr_Hitters dr) @ pr_IneligibleBefore (dr_Pitchers dr) \<noteq> [])"
  by (simp add: plan_date_def empty_plan_def Let_def is_zero_gain_delta_def not_less)

text \<open>C9. What a plan claims to be worth is what it changes. For the results of the two optimisers on
  the rosters of a date, the delta of the plan is the projected points of the players in the lineup after
  its moves minus those before, slot changes counting nothing; and the moves are worth applying exactly
  when there are any and that difference is not about zero, or a player stands in a slot he is not eligible for.\<close>

theorem plan_worth_is_gain:
  assumes run: "run_optimizers nrm inp isToday f (hs, ps) = (dr_Hitters dr, dr_Pitchers dr)"
    and d: "distinct (map p_ID (hs @ ps))" and placed: "placed_roster (hs @ ps)"
  shows "let plan = plan_date dr names;
      gain = active_value (plan_pts dr) (map (apply_player (dp_Activate plan) (dp_Bench plan)) (hs @ ps)) - active_value (plan_pts dr) (hs @ ps)
    in dp_Delta plan = gain \<and>
      (dp_Disposition plan = Moves_worth_applying \<longleftrightarrow> (dp_Activate plan \<noteq> [] \<or> dp_Bench plan \<noteq> []) \<and>
        (\<bar>gain\<bar> \<ge> zero_gain_eps \<or> or_IneligibleBefore (dr_Hitters dr) @ pr_IneligibleBefore (dr_Pitchers dr) \<noteq> []))"
proof -
  have dd: "distinct (map p_ID hs)" "distinct (map p_ID ps)" "placed_roster hs" "placed_roster ps"
    using d placed by (auto simp: placed_roster_def)
  define src where "src = (case matchup_for nrm inp (df_Probables f) (df_Venues f) of
     None \<Rightarrow> as_hitter_source nrm (oi_HitterSrc inp) | Some m \<Rightarrow> matchup_as_source nrm m)"
  have r: "dr_Hitters dr = optimize_lineup nrm hs (df_Playing f) src (oi_HitterScoring inp) (oi_HitterSlots inp) (df_Benched f)"
    "dr_Pitchers dr = optimize_pitcher_lineup nrm ps (df_Playing f) (map_of (df_Probables f)) (df_Probables f \<noteq> [])
       (as_pitcher_source nrm (oi_PitcherSrc inp)) (oi_PitcherScoring inp) (oi_PitcherSlots inp)
       (if isToday then oi_GSBudget inp else None)"
    using run by (simp_all add: run_optimizers_def Let_def src_def)
  let ?plan = "plan_date dr names"
  have m: "proper_moves (hs @ ps) (dp_Activate ?plan) (dp_Bench ?plan)"
    unfolding plan_unfolds r by (rule proper_moves_append [OF hitter_moves [OF dd(1)] pitcher_moves [OF dd(2)] d])
  have "or_ActiveBefore (dr_Hitters dr) = current_assign hs" "pr_ActiveBefore (dr_Pitchers dr) = current_assign ps"
    by (simp_all add: r optimize_lineup_def optimize_pitcher_lineup_def Let_def case_prod_beta)
  then have so: "plan_slot_only dr acts i \<longleftrightarrow> i \<in> active_ids (hs @ ps)" if "i \<in> ps_PlayerID ` set acts" for i acts
    using that current_active [OF dd(1,3)] current_active [OF dd(2,4)] by (auto simp: plan_slot_only_def active_ids_def)
  have "dp_Delta ?plan = active_value (plan_pts dr) (map (apply_player (dp_Activate ?plan) (dp_Bench ?plan)) (hs @ ps)) -
      active_value (plan_pts dr) (hs @ ps)"
    unfolding plan_unfolds(3) by (rule moves_value [OF d m so])
  then show ?thesis unfolding Let_def plan_worth_iff by (simp only: simp_thms)
qed

section \<open>Alerts on failing applies\<close>

text \<open>The pages a sequence of outcomes is due, given the text that stands: \<open>None\<close> is a successful
  apply, \<open>Some\<close> the text of a failure.\<close>

fun pages_due :: "(string \<Rightarrow> bool) \<Rightarrow> string \<Rightarrow> string option list \<Rightarrow> string list" where
  "pages_due ok standing [] = []"
| "pages_due ok standing (None # os) = pages_due ok [] os"
| "pages_due ok standing (Some msg # os) =
     (if trim_space msg = standing \<or> \<not> ok msg then pages_due ok standing os
      else msg # pages_due ok (trim_space msg) os)"

definition standing_text :: "marker_world \<Rightarrow> string \<Rightarrow> string" where
  "standing_text m key = (case mw_store m key of None \<Rightarrow> [] | Some b \<Rightarrow> trim_space b)"

text \<open>One run per outcome, all for the same date.\<close>

definition apply_runs :: "'doc emit_env \<Rightarrow> emit_inputs \<Rightarrow> date_result \<Rightarrow> date_plan \<Rightarrow> string option list \<Rightarrow> 'doc emit_world \<Rightarrow> 'doc emit_world" where
  "apply_runs env inp dr plan outs w =
     fold (\<lambda>out. apply_lineup_for (env\<lparr>ev_Apply := \<lambda>_ _. out\<rparr>) inp dr (Some plan)) outs w"

lemma apply_runs_Cons: "apply_runs env inp dr plan (out # outs) w =
    apply_runs env inp dr plan outs (apply_lineup_for (env\<lparr>ev_Apply := \<lambda>_ _. out\<rparr>) inp dr (Some plan) w)"
  by (simp add: apply_runs_def)

lemma trim_empty [simp]: "trim_space [] = []"
  by (simp add: trim_space_def)

lemma failed_run:
  assumes "ei_HasMarkers inp" "ei_HasNotifyAlert inp" "ev_MarkerFaults env = healthy" "dr_Period dr \<noteq> 0 \<or> dr_IsToday dr"
    and "trim_space (ev_FailText env (dr_Date dr) err) \<noteq> []"
  shows "let w' = apply_lineup_for (env\<lparr>ev_Apply := \<lambda>_ _. Some err\<rparr>) inp dr (Some plan) w;
      msg = ev_FailText env (dr_Date dr) err; key = format_date (dr_Date dr);
      quiet = (trim_space msg = standing_text (ew_Marker w) key \<or> \<not> ev_SendOk env msg)
    in map snd (mw_delivered (ew_Marker w')) = map snd (mw_delivered (ew_Marker w)) @ (if quiet then [] else [msg]) \<and>
       standing_text (ew_Marker w') key = (if quiet then standing_text (ew_Marker w) key else trim_space msg)"
  using assms
  by (auto simp: apply_lineup_for_def notify_apply_failure_def send_on_change_def token_def send_mark_def record_mark_def
      healthy_def standing_text_def Let_def say_def split: option.split)

lemma clean_run:
  assumes "ei_HasMarkers inp" "ev_MarkerFaults env = healthy" "dr_Period dr \<noteq> 0 \<or> dr_IsToday dr"
  shows "let w' = apply_lineup_for (env\<lparr>ev_Apply := \<lambda>_ _. None\<rparr>) inp dr (Some plan) w; key = format_date (dr_Date dr)
    in mw_delivered (ew_Marker w') = mw_delivered (ew_Marker w) \<and> standing_text (ew_Marker w') key = []"
  using assms
  by (auto simp: apply_lineup_for_def clear_apply_failure_def token_def record_mark_def healthy_def standing_text_def Let_def
      say_def invalidate_cache_def split: option.split)

text \<open>C35. A failure of the apply pages once per episode. Over any sequence of runs for a date, with a
  working marker store, the messages delivered are exactly those due: the first run of a failure, never the
  following ones with the same text, again after another text or a successful apply in between; and a
  message that could not be sent is tried again.\<close>

theorem failure_pages_once:
  assumes "ei_HasMarkers inp" "ei_HasNotifyAlert inp" "ev_MarkerFaults env = healthy" "dr_Period dr \<noteq> 0 \<or> dr_IsToday dr"
    and "\<forall>err. trim_space (ev_FailText env (dr_Date dr) err) \<noteq> []"
  shows "map snd (mw_delivered (ew_Marker (apply_runs env inp dr plan outs w))) =
    map snd (mw_delivered (ew_Marker w)) @
    pages_due (ev_SendOk env) (standing_text (ew_Marker w) (format_date (dr_Date dr))) (map (map_option (ev_FailText env (dr_Date dr))) outs)"
proof (induction outs arbitrary: w)
  case Nil
  then show ?case by (simp add: apply_runs_def)
next
  case (Cons out outs)
  let ?w = "apply_lineup_for (env\<lparr>ev_Apply := \<lambda>_ _. out\<rparr>) inp dr (Some plan) w"
  show ?case
  proof (cases out)
    case None
    then show ?thesis using clean_run [OF assms(1,3,4), of plan w] Cons.IH [of ?w] by (simp add: apply_runs_Cons None Let_def)
  next
    case (Some err)
    then show ?thesis
      using failed_run [OF assms(1-4) assms(5) [rule_format], of err plan w] Cons.IH [of ?w] by (simp add: apply_runs_Cons Some Let_def)
  qed
qed

section \<open>A concrete run\<close>

definition demo_emit :: "bool \<Rightarrow> emit_inputs" where
  "demo_emit dry = \<lparr>ei_Results = [ca_Result (demo_capture blind_clients)], ei_SlotName = Map.empty, ei_PlayerName = Map.empty,
     ei_WriteSnapshots = True, ei_HasSnapshotStore = True, ei_SnapshotRoot = ''snapshots'', ei_Projections = demo_projections,
     ei_PublishLineup = False, ei_HasPublisher = True, ei_DryRun = dry, ei_AutoApply = True, ei_HasNotifyAlert = True,
     ei_HasMarkers = True\<rparr>"

definition demo_env :: "snapshot emit_env" where
  "demo_env = \<lparr>ev_Codec = plain_codec, ev_SnapshotFaults = healthy, ev_Now = 0, ev_Lineup = (\<lambda>_. Some ''lineup''),
     ev_PublishFails = (\<lambda>_. False), ev_Apply = (\<lambda>_ _. None), ev_InvalidateFails = (\<lambda>_. False), ev_MarkerFaults = healthy,
     ev_SendOk = (\<lambda>_. True), ev_FailText = (\<lambda>_ e. ''x'' @ e), ev_Summary = (\<lambda>_ _. ''applied'')\<rparr>"

definition demo_world :: "snapshot emit_world" where
  "demo_world = \<lparr>ew_Snapshots = Map.empty, ew_Published = [today_key \<mapsto> ''applied lineup''],
     ew_Marker = \<lparr>mw_store = Map.empty, mw_delivered = []\<rparr>, ew_Calls = [], ew_Invalidated = [], ew_Notified = [], ew_Out = []\<rparr>"

theorem failure_pages_once_witness:
  "map snd (mw_delivered (ew_Marker (apply_runs demo_env (demo_emit False) (ca_Result (demo_capture blind_clients)) empty_plan
     [Some ''a'', Some ''a'', None, Some ''a'', Some ''b''] demo_world))) = [''xa'', ''xa'', ''xb'']"
proof -
  let ?dr = "ca_Result (demo_capture blind_clients)"
  have x: "trim_space (''x'' @ e) \<noteq> []" for e by (simp add: trim_space_def is_space_def)
  have t: "trim_space ''xa'' = ''xa''" "trim_space ''xb'' = ''xb''" by (simp_all add: trim_space_def is_space_def)
  have "dr_IsToday ?dr" by (simp add: demo_capture_def optimize_one_date_def Let_def case_prod_beta run_inputs_def)
  then show ?thesis
    using failure_pages_once [of "demo_emit False" demo_env ?dr empty_plan "[Some ''a'', Some ''a'', None, Some ''a'', Some ''b'']" demo_world] x t
    by (simp add: demo_emit_def demo_env_def demo_world_def standing_text_def)
qed

theorem plan_worth_is_gain_witness:
  "dp_Delta (plan_date (ca_Result (demo_capture blind_clients)) Map.empty) =
     active_value (plan_pts (ca_Result (demo_capture blind_clients)))
       (map (apply_player (dp_Activate (plan_date (ca_Result (demo_capture blind_clients)) Map.empty))
          (dp_Bench (plan_date (ca_Result (demo_capture blind_clients)) Map.empty))) [run_hitter]) -
     active_value (plan_pts (ca_Result (demo_capture blind_clients))) [run_hitter]"
proof -
  let ?dr = "ca_Result (demo_capture blind_clients)"
  have "run_optimizers (\<lambda>s. s) run_inputs True (date_facts (\<lambda>s. s) blind_clients True 0 ([run_hitter], [])) ([run_hitter], []) =
      (dr_Hitters ?dr, dr_Pitchers ?dr)"
    using today_result [of 0 run_inputs "\<lambda>s. s" blind_clients "([run_hitter], [])", OF _ prod.collapse [symmetric]]
    by (simp add: demo_capture_def run_inputs_def with_locks_def)
  from plan_worth_is_gain [OF this, of Map.empty] show ?thesis
    by (simp add: Let_def placed_roster_def run_hitter_def)
qed

end
