(* ===== verification/Recent_Blend.thy ===== *)
theory Recent_Blend
  imports Matchup Playoffs "HOL-Library.AList"
begin

text \<open>
  Recent form: \<open>internal/projections/recency.go\<close> (\<open>WindowWeight\<close>, \<open>WindowedRecent\<close>,
  \<open>WeightedRecent\<close>), the window of the hitters in \<open>internal/lineuprun/recent.go\<close> and \<open>BlendSources\<close> in
  \<open>blend.go\<close>. The fetches are parameters that may fail. The lemmas say what the window measures, that no
  game of the day itself or outside the window counts, and that a missing signal leaves the base
  projection untouched.
\<close>

section \<open>The weighted mean\<close>

record day_fp =
  df_Day :: day
  df_FP :: real
  df_Played :: bool

record day_player =
  dy_PlayerID :: string
  dy_Name :: string
  dy_FPts :: real
  dy_HadGame :: bool
  dy_IsPitcher :: bool

record day_roster =
  dy_Date :: day
  dy_Players :: "day_player list"

definition window_weight :: "int \<Rightarrow> int \<Rightarrow> real" where
  "window_weight n age = (if age \<ge> 1 \<and> age \<le> n then 1 else 0)"

definition weigh_day :: "day \<Rightarrow> (int \<Rightarrow> real) \<Rightarrow> day_fp \<Rightarrow> real \<times> real \<times> int \<Rightarrow> real \<times> real \<times> int" where
  "weigh_day evalDate weight d acc = (case acc of (sumW, sumWFP, games) \<Rightarrow>
     if \<not> df_Day d < evalDate then acc
     else if \<not> df_Played d then acc
     else (let w = weight (evalDate - df_Day d)
           in if w = 0 then acc else (sumW + w, sumWFP + w * df_FP d, games + 1)))"

definition weighted_recent :: "day_fp list \<Rightarrow> day \<Rightarrow> (int \<Rightarrow> real) \<Rightarrow> recent_stat" where
  "weighted_recent series evalDate weight =
     (case fold (weigh_day evalDate weight) series (0, 0, 0) of (sumW, sumWFP, games) \<Rightarrow>
        if sumW = 0 then \<lparr>rs_GamesPlayed = 0, rs_FPtsPerGame = 0\<rparr>
        else \<lparr>rs_GamesPlayed = games, rs_FPtsPerGame = sumWFP / sumW\<rparr>)"

text \<open>The maps of this file are measured by their size: they are association lists without duplicate
  keys. The series of each player is in the order of the days.\<close>

type_synonym recency = "(string \<times> recent_stat) list"

definition day_entry :: "day \<Rightarrow> day_player \<Rightarrow> day_fp" where
  "day_entry date p = \<lparr>df_Day = date, df_FP = dy_FPts p, df_Played = dy_HadGame p\<rparr>"

definition add_player_day :: "bool \<Rightarrow> day \<Rightarrow> day_player \<Rightarrow> (string \<times> day_fp list) list \<Rightarrow> (string \<times> day_fp list) list" where
  "add_player_day wantPitchers date p m =
     (if dy_IsPitcher p \<noteq> wantPitchers then m
      else AList.update (dy_PlayerID p)
             ((case map_of m (dy_PlayerID p) of None \<Rightarrow> [] | Some s \<Rightarrow> s) @ [day_entry date p]) m)"

definition player_series :: "bool \<Rightarrow> day_roster list \<Rightarrow> (string \<times> day_fp list) list" where
  "player_series wantPitchers days =
     fold (\<lambda>d. fold (add_player_day wantPitchers (dy_Date d)) (dy_Players d)) days []"

definition windowed_recent :: "day_roster list \<Rightarrow> day \<Rightarrow> (int \<Rightarrow> real) \<Rightarrow> bool \<Rightarrow> recency" where
  "windowed_recent days asOf weight wantPitchers =
     map (\<lambda>(i, s). (i, weighted_recent s asOf weight)) (player_series wantPitchers days)"

section \<open>The window of the hitters\<close>

definition recency_window_days :: int where "recency_window_days = 30"
definition recency_lookback_days :: int where "recency_lookback_days = 35"

definition hitter_window_bounds :: "day \<Rightarrow> day \<Rightarrow> (day \<times> day) option" where
  "hitter_window_bounds today seasonStart =
     (let start = (if today - recency_lookback_days < seasonStart then seasonStart else today - recency_lookback_days);
          stop = today - 1
      in if stop < start then None else Some (start, stop))"

definition collapse_hitter_window :: "day_roster list \<Rightarrow> day \<Rightarrow> recency" where
  "collapse_hitter_window days asOf = windowed_recent days asOf (window_weight recency_window_days) False"

text \<open>\<open>firstSeen\<close> with the name at that day, as a list in the order of the first sight.\<close>

definition see_player :: "day \<Rightarrow> day_player \<Rightarrow> (string \<times> day \<times> string) list \<Rightarrow> (string \<times> day \<times> string) list" where
  "see_player date p seen =
     (if dy_IsPitcher p then seen
      else (case map_of seen (dy_PlayerID p) of
              None \<Rightarrow> seen @ [(dy_PlayerID p, date, dy_Name p)]
            | Some (d, _) \<Rightarrow> if date < d
                then map (\<lambda>e. if fst e = dy_PlayerID p then (dy_PlayerID p, date, dy_Name p) else e) seen else seen))"

definition first_seen :: "day_roster list \<Rightarrow> (string \<times> day \<times> string) list" where
  "first_seen days = fold (\<lambda>d. fold (see_player (dy_Date d)) (dy_Players d)) days []"

record mlb_ref =
  mp_PlayerID :: string
  mp_Name :: string

definition short_coverage_hitters :: "day_roster list \<Rightarrow> day \<Rightarrow> day \<Rightarrow> mlb_ref list" where
  "short_coverage_hitters days fetchStart asOf =
     (let coverage0 = asOf - recency_window_days;
          coverageStart = (if fetchStart > coverage0 then fetchStart else coverage0)
      in sort_slice (\<lambda>a b. mp_PlayerID a < mp_PlayerID b)
           (map (\<lambda>(i, _, name). \<lparr>mp_PlayerID = i, mp_Name = name\<rparr>)
             (filter (\<lambda>(_, first, _). first > coverageStart) (first_seen days))))"

definition cover_ref :: "recency \<Rightarrow> mlb_ref \<Rightarrow> recency \<Rightarrow> recency" where
  "cover_ref fromMLB r recent =
     (case map_of fromMLB (mp_PlayerID r) of None \<Rightarrow> recent | Some rs \<Rightarrow> AList.update (mp_PlayerID r) rs recent)"

text \<open>The coverage line on stderr is left out.\<close>

definition cover_imported_hitters ::
  "(mlb_ref list \<Rightarrow> day \<Rightarrow> day \<Rightarrow> string + day_roster list) \<Rightarrow> day_roster list \<Rightarrow> day \<Rightarrow> day \<Rightarrow> day \<Rightarrow> recency" where
  "cover_imported_hitters mlbDays days start stop asOf =
     (let recent = collapse_hitter_window days asOf;
          refs = short_coverage_hitters days start asOf
      in if refs = [] then recent
         else (case mlbDays refs start stop of
                 Inl _ \<Rightarrow> recent
               | Inr ds \<Rightarrow> fold (cover_ref (collapse_hitter_window ds asOf)) refs recent))"

record recent_client =
  rc_SeasonDateRange :: "string + (day \<times> day)"
  rc_DailyFantasyPoints :: "day \<Rightarrow> day \<Rightarrow> day \<Rightarrow> string + day_roster list"
  rc_MLBDailyFPts :: "mlb_ref list \<Rightarrow> day \<Rightarrow> day \<Rightarrow> string + day_roster list"
  rc_RecentPitcherStats :: "int \<Rightarrow> string + recency"

datatype recent_error = Season_range_error string | No_completed_days day | Daily_points_error string

definition windowed_hitter_recent :: "recent_client \<Rightarrow> day \<Rightarrow> day option \<Rightarrow> recent_error + recency" where
  "windowed_hitter_recent ft today seasonStart =
     (let with_start = (\<lambda>s. case hitter_window_bounds today s of
            None \<Rightarrow> Inl (No_completed_days today)
          | Some (start, stop) \<Rightarrow> (case rc_DailyFantasyPoints ft start stop s of
               Inl e \<Rightarrow> Inl (Daily_points_error e)
             | Inr days \<Rightarrow> Inr (cover_imported_hitters (rc_MLBDailyFPts ft) days start stop today)))
      in case seasonStart of
           Some s \<Rightarrow> with_start s
         | None \<Rightarrow> (case rc_SeasonDateRange ft of Inl e \<Rightarrow> Inl (Season_range_error e) | Inr (s, _) \<Rightarrow> with_start s))"

section \<open>Blending\<close>

record blend_inputs =
  bi_HitterBase :: "projection source"
  bi_PitcherBase :: "pitcher_projection source"
  bi_HitterRoster :: "player list"
  bi_PitcherRoster :: "player list"
  bi_HitterAvgFPG :: real
  bi_PitcherAvgFPG :: real
  bi_Today :: day
  bi_SeasonStart :: "day option"
  bi_CurrentPeriod :: int
  bi_PeriodErr :: bool
  bi_BlendMinGP :: int

datatype blend_line =
    Season_not_started int | Fetching_hitters day | Hitters_unavailable recent_error | Hitters_zero_rows | Hitters_loaded nat
  | Pitchers_unavailable string | Pitchers_zero_rows | Pitchers_loaded nat

record blend_outcome =
  br_Hitters :: "projection run_source"
  br_Pitchers :: "pitcher_projection run_source"
  br_RecentHitterCount :: nat
  br_RecentPitcherCount :: nat
  br_Logs :: "blend_line list"

definition name_to_id :: "(string \<Rightarrow> string) \<Rightarrow> player list \<Rightarrow> (string \<rightharpoonup> string)" where
  "name_to_id nrm roster = fold (\<lambda>p m. m(nrm (p_Name p) \<mapsto> p_ID p)) roster Map.empty"

definition player_positions :: "player list \<Rightarrow> (string \<rightharpoonup> string list)" where
  "player_positions roster = fold (\<lambda>p m. m(p_ID p \<mapsto> p_Positions p)) roster Map.empty"

text \<open>One role of \<open>BlendSources\<close>: the source, the count and the lines.\<close>

definition blend_hitters :: "(string \<Rightarrow> string) \<Rightarrow> recent_client \<Rightarrow> blend_inputs \<Rightarrow> projection run_source \<times> nat \<times> blend_line list" where
  "blend_hitters nrm ft inp =
     (let base = Base_source (bi_HitterBase inp) in
      if bi_PeriodErr inp \<or> \<not> bi_CurrentPeriod inp > 1
      then (base, 0, if bi_CurrentPeriod inp \<le> 1 then [Season_not_started (bi_CurrentPeriod inp)] else [])
      else (case windowed_hitter_recent ft (bi_Today inp) (bi_SeasonStart inp) of
              Inl e \<Rightarrow> (base, 0, [Fetching_hitters (bi_Today inp), Hitters_unavailable e])
            | Inr recent \<Rightarrow>
                if recent = [] then (base, 0, [Fetching_hitters (bi_Today inp), Hitters_zero_rows])
                else (Blended_source \<lparr>bs_inner = bi_HitterBase inp, bs_recent = map_of recent,
                        bs_nameToID = name_to_id nrm (bi_HitterRoster inp), bs_playerPos = Map.empty,
                        bs_minGP = bi_BlendMinGP inp, bs_baselineFPG = bi_HitterAvgFPG inp\<rparr>,
                      length recent, [Fetching_hitters (bi_Today inp), Hitters_loaded (length recent)])))"

definition blend_pitchers :: "(string \<Rightarrow> string) \<Rightarrow> recent_client \<Rightarrow> blend_inputs \<Rightarrow> pitcher_projection run_source \<times> nat \<times> blend_line list" where
  "blend_pitchers nrm ft inp =
     (let base = Base_source (bi_PitcherBase inp) in
      if bi_PeriodErr inp \<or> \<not> bi_CurrentPeriod inp > 1 then (base, 0, [])
      else (case rc_RecentPitcherStats ft (bi_CurrentPeriod inp) of
              Inl e \<Rightarrow> (base, 0, [Pitchers_unavailable e])
            | Inr recent \<Rightarrow>
                if recent = [] then (base, 0, [Pitchers_zero_rows])
                else (Blended_source \<lparr>bs_inner = bi_PitcherBase inp, bs_recent = map_of recent,
                        bs_nameToID = name_to_id nrm (bi_PitcherRoster inp), bs_playerPos = player_positions (bi_PitcherRoster inp),
                        bs_minGP = bi_BlendMinGP inp, bs_baselineFPG = bi_PitcherAvgFPG inp\<rparr>,
                      length recent, [Pitchers_loaded (length recent)])))"

definition blend_sources :: "(string \<Rightarrow> string) \<Rightarrow> recent_client \<Rightarrow> blend_inputs \<Rightarrow> blend_outcome" where
  "blend_sources nrm ft inp =
     (let (h, nh, lh) = blend_hitters nrm ft inp; (p, np, lp) = blend_pitchers nrm ft inp
      in \<lparr>br_Hitters = h, br_Pitchers = p, br_RecentHitterCount = nh, br_RecentPitcherCount = np, br_Logs = lh @ lp\<rparr>)"

section \<open>What the window measures\<close>

text \<open>The games of a series that lie in the window: played, before the day and at most \<open>n\<close> days before it.\<close>

definition window_games :: "day_fp list \<Rightarrow> day \<Rightarrow> int \<Rightarrow> day_fp list" where
  "window_games series asOf n = filter (\<lambda>d. df_Played d \<and> df_Day d < asOf \<and> asOf - df_Day d \<le> n) series"

lemma weigh_window:
  "fold (weigh_day asOf (window_weight n)) series (sw, sf, g) =
     (sw + real (length (window_games series asOf n)), sf + sum_list (map df_FP (window_games series asOf n)),
      g + int (length (window_games series asOf n)))"
  by (induction series arbitrary: sw sf g) (auto simp: weigh_day_def window_weight_def window_games_def Let_def)

lemma weighted_window:
  "weighted_recent series asOf (window_weight n) =
     (let gs = window_games series asOf n
      in \<lparr>rs_GamesPlayed = int (length gs), rs_FPtsPerGame = sum_list (map df_FP gs) / real (length gs)\<rparr>)"
  by (simp add: weighted_recent_def weigh_window Let_def)

text \<open>The days of a player, as a filter of the rosters.\<close>

definition player_days :: "bool \<Rightarrow> string \<Rightarrow> day_roster list \<Rightarrow> day_fp list" where
  "player_days wantPitchers i days = concat (map (\<lambda>d. map (day_entry (dy_Date d))
     (filter (\<lambda>p. dy_IsPitcher p = wantPitchers \<and> dy_PlayerID p = i) (dy_Players d))) days)"

lemma series_day:
  "map_of (fold (add_player_day wp date) ps m) i =
     (let new = map (day_entry date) (filter (\<lambda>p. dy_IsPitcher p = wp \<and> dy_PlayerID p = i) ps)
      in if new = [] then map_of m i else Some ((case map_of m i of None \<Rightarrow> [] | Some s \<Rightarrow> s) @ new))"
  by (induction ps arbitrary: m) (auto simp: add_player_day_def update_conv' Let_def split: option.split)

lemma series_eq:
  "map_of (fold (\<lambda>d. fold (add_player_day wp (dy_Date d)) (dy_Players d)) days m) i =
     (let new = player_days wp i days
      in if new = [] then map_of m i else Some ((case map_of m i of None \<Rightarrow> [] | Some s \<Rightarrow> s) @ new))"
proof (induction days arbitrary: m)
  case (Cons d days)
  show ?case by (simp add: Cons.IH series_day Let_def player_days_def split: option.split)
qed (simp add: player_days_def)

lemma player_series_eq: "map_of (player_series wp days) i = (if player_days wp i days = [] then None else Some (player_days wp i days))"
  by (simp add: player_series_def series_eq Let_def)

lemma map_of_map_snd: "map_of (map (\<lambda>(i, s). (i, f s)) xs) i = map_option f (map_of xs i)"
  by (induction xs) auto

text \<open>C39. The recent form of a hitter is the mean of his last thirty days. For a hitter of the rosters the
  signal is the average of his points over the games he played on the thirty days before the day, with their
  number; no game of the day itself or later counts, so a lineup never learns from what it is to decide.\<close>

theorem window_is_mean:
  "map_of (collapse_hitter_window days asOf) i =
     (let ds = player_days False i days; gs = window_games ds asOf 30
      in if ds = [] then None
         else Some \<lparr>rs_GamesPlayed = int (length gs), rs_FPtsPerGame = sum_list (map df_FP gs) / real (length gs)\<rparr>)"
  by (simp add: collapse_hitter_window_def windowed_recent_def recency_window_days_def map_of_map_snd player_series_eq
      weighted_window Let_def)

section \<open>Newly acquired hitters\<close>

lemma map_of_replace:
  "map_of (map (\<lambda>e. if fst e = k then (k, v) else e) xs) i = (if i = k \<and> map_of xs k \<noteq> None then Some v else map_of xs i)"
  by (induction xs) auto

lemma see_player_map:
  "map_of (see_player date p seen) i =
     (if dy_IsPitcher p \<or> dy_PlayerID p \<noteq> i then map_of seen i
      else (case map_of seen i of None \<Rightarrow> Some (date, dy_Name p)
            | Some (d, n) \<Rightarrow> Some (if date < d then (date, dy_Name p) else (d, n))))"
  by (auto simp: see_player_def map_of_replace map_add_def split: option.split)

lemma replace_keys: "map fst (map (\<lambda>e. if fst e = k then (k, v) else e) xs) = map fst xs"
  by (induction xs) auto

lemma see_player_distinct:
  assumes "distinct (map fst seen)"
  shows "distinct (map fst (see_player date p seen))"
proof (cases "map_of seen (dy_PlayerID p)")
  case None
  then have "dy_PlayerID p \<notin> fst ` set seen" unfolding map_of_eq_None_iff .
  then show ?thesis using assms unfolding see_player_def None option.case by simp
next
  case (Some e)
  obtain d n where e: "e = (d, n)" by (rule prod.exhaust)
  show ?thesis
    unfolding see_player_def Some e option.case prod.case
    by (simp only: replace_keys assms if_distrib [of "map fst"] if_distrib [of distinct] if_cancel simp_thms split: if_split)
qed

definition earlier :: "day option \<Rightarrow> day list \<Rightarrow> day option" where
  "earlier d ds = fold (\<lambda>x m. case m of None \<Rightarrow> Some x | Some y \<Rightarrow> Some (if x < y then x else y)) ds d"

lemma earlier_simps [simp]:
  "earlier m [] = m" "earlier m (x # ds) = earlier (case m of None \<Rightarrow> Some x | Some y \<Rightarrow> Some (if x < y then x else y)) ds"
  "earlier m (xs @ ys) = earlier (earlier m xs) ys"
  by (simp_all add: earlier_def)

lemma earlier_Some: "\<exists>d. earlier (Some y) ds = Some d \<and> (c < d \<longleftrightarrow> c < y \<and> (\<forall>x \<in> set ds. c < x))"
proof (induction ds arbitrary: y)
  case (Cons x ds)
  obtain d where d: "earlier (Some (if x < y then x else y)) ds = Some d"
    "c < d \<longleftrightarrow> c < (if x < y then x else y) \<and> (\<forall>x \<in> set ds. c < x)" using Cons.IH by blast
  have "c < (if x < y then x else y) \<longleftrightarrow> c < x \<and> c < y" by auto
  then show ?case using d by auto
qed simp

lemma earlier_after: "(\<exists>d. earlier None ds = Some d \<and> c < d) \<longleftrightarrow> ds \<noteq> [] \<and> (\<forall>x \<in> set ds. c < x)"
proof (cases ds)
  case (Cons x xs)
  then show ?thesis using earlier_Some [of x xs c] by auto
qed simp

lemma first_seen_day:
  "map_option fst (map_of (first_seen days) i) = earlier None (map df_Day (player_days False i days))"
proof -
  have one: "map_option fst (map_of (fold (see_player date) ps seen) i) =
      earlier (map_option fst (map_of seen i)) (map df_Day (map (day_entry date) (filter (\<lambda>p. dy_IsPitcher p = False \<and> dy_PlayerID p = i) ps)))"
    for date ps seen
    by (induction ps arbitrary: seen) (auto simp: see_player_map day_entry_def split: option.split)
  have "map_option fst (map_of (fold (\<lambda>d. fold (see_player (dy_Date d)) (dy_Players d)) days seen) i) =
      earlier (map_option fst (map_of seen i)) (map df_Day (player_days False i days))" for seen
    by (induction days arbitrary: seen) (simp_all add: one player_days_def)
  then show ?thesis by (simp add: first_seen_def)
qed

lemma first_seen_distinct: "distinct (map fst (first_seen days))"
proof -
  have "distinct (map fst seen) \<Longrightarrow> distinct (map fst (fold (see_player date) ps seen))" for date ps seen
    by (induction ps arbitrary: seen) (simp_all add: see_player_distinct)
  then have "distinct (map fst seen) \<Longrightarrow> distinct (map fst (fold (\<lambda>d. fold (see_player (dy_Date d)) (dy_Players d)) days seen))" for seen
    by (induction days arbitrary: seen) simp_all
  then show ?thesis by (simp add: first_seen_def)
qed

text \<open>A hitter whose rosters start after the window does.\<close>

definition newly_acquired :: "day_roster list \<Rightarrow> day \<Rightarrow> day \<Rightarrow> string \<Rightarrow> bool" where
  "newly_acquired days start asOf i \<longleftrightarrow> player_days False i days \<noteq> [] \<and>
     list_all (\<lambda>d. df_Day d > max start (asOf - 30)) (player_days False i days)"

lemma short_coverage_iff:
  "i \<in> mp_PlayerID ` set (short_coverage_hitters days start asOf) \<longleftrightarrow> newly_acquired days start asOf i"
proof -
  let ?c = "max start (asOf - 30)"
  have c: "(if start > asOf - recency_window_days then start else asOf - recency_window_days) = ?c"
    by (simp add: recency_window_days_def max_def)
  have "set (short_coverage_hitters days start asOf) =
      (\<lambda>(i, _, name). \<lparr>mp_PlayerID = i, mp_Name = name\<rparr>) ` {e \<in> set (first_seen days). fst (snd e) > ?c}"
    by (simp add: short_coverage_hitters_def Let_def c case_prod_beta)
  then have "i \<in> mp_PlayerID ` set (short_coverage_hitters days start asOf) \<longleftrightarrow> (\<exists>d n. (i, d, n) \<in> set (first_seen days) \<and> ?c < d)"
    by (force simp: image_iff)
  also have "\<dots> \<longleftrightarrow> (\<exists>d n. map_of (first_seen days) i = Some (d, n) \<and> ?c < d)"
    by (simp add: map_of_eq_Some_iff [OF first_seen_distinct])
  also have "\<dots> \<longleftrightarrow> (\<exists>d. map_option fst (map_of (first_seen days) i) = Some d \<and> ?c < d)" by auto
  also have "\<dots> \<longleftrightarrow> newly_acquired days start asOf i"
    unfolding first_seen_day earlier_after newly_acquired_def list_all_iff by simp
  finally show ?thesis .
qed

lemma cover_refs:
  "map_of (fold (cover_ref m) refs recent) i =
     (if i \<in> mp_PlayerID ` set refs \<and> map_of m i \<noteq> None then map_of m i else map_of recent i)"
  by (induction refs arbitrary: recent) (auto simp: cover_ref_def update_conv' split: option.split)

text \<open>A newly acquired hitter is judged by what he played, everyone else by the rosters. The signal of a
  hitter is the thirty-day mean of the rosters, except that a hitter who first appears after the window began
  takes that of his own game log when the log could be read and knows him; a failed read costs nothing else.\<close>

theorem coverage_exact:
  "map_of (cover_imported_hitters mlbDays days start stop asOf) i =
     (case mlbDays (short_coverage_hitters days start asOf) start stop of
        Inl _ \<Rightarrow> map_of (collapse_hitter_window days asOf) i
      | Inr ds \<Rightarrow> if newly_acquired days start asOf i \<and> map_of (collapse_hitter_window ds asOf) i \<noteq> None
          then map_of (collapse_hitter_window ds asOf) i else map_of (collapse_hitter_window days asOf) i)"
proof (cases "short_coverage_hitters days start asOf = []")
  case True
  then have "\<not> newly_acquired days start asOf i" by (simp add: short_coverage_iff [symmetric])
  with True show ?thesis by (simp add: cover_imported_hitters_def Let_def split: sum.split)
next
  case False
  then show ?thesis
    by (simp add: cover_imported_hitters_def Let_def cover_refs short_coverage_iff split: sum.split)
qed

text \<open>Missing recency data never moves a number. Unless the season is under way and the fetch gave at
  least one row, each role optimises on its base projections alone.\<close>

theorem no_partial_blend:
  "(br_Hitters (blend_sources nrm ft inp) = Base_source (bi_HitterBase inp) \<longleftrightarrow>
      bi_PeriodErr inp \<or> bi_CurrentPeriod inp \<le> 1 \<or>
      (case windowed_hitter_recent ft (bi_Today inp) (bi_SeasonStart inp) of Inl _ \<Rightarrow> True | Inr recent \<Rightarrow> recent = [])) \<and>
   (br_Pitchers (blend_sources nrm ft inp) = Base_source (bi_PitcherBase inp) \<longleftrightarrow>
      bi_PeriodErr inp \<or> bi_CurrentPeriod inp \<le> 1 \<or>
      (case rc_RecentPitcherStats ft (bi_CurrentPeriod inp) of Inl _ \<Rightarrow> True | Inr recent \<Rightarrow> recent = []))"
  by (auto simp: blend_sources_def blend_hitters_def blend_pitchers_def Let_def split: sum.split)

end
