(* ===== verification/Run_Guards.thy ===== *)
theory Run_Guards
  imports Playoffs
begin

text \<open>
  Which days a run is about and whether there is anything to do on them:
  \<open>internal/lineuprun/dates.go\<close> (\<open>ResolveDates\<close> with its two conditions) and \<open>playoff_idle.go\<close>. The
  lookups are parameters that may fail. The lemmas give the dates a window resolves to, and show that
  an idle verdict rests on evidence: never on a failed lookup, never outside a playoff round.
\<close>

section \<open>Resolving the dates\<close>

datatype date_error =
    Season_range_failed string | Out_of_season day day day | Matchup_week_failed string | No_matchup_week_for day day

definition before_opener :: "day \<Rightarrow> day \<Rightarrow> bool" where
  "before_opener today start \<longleftrightarrow> today < start"

text \<open>The season's bounds come back with the dates; they are unknown when no lookup was asked for.\<close>

definition resolve_dates ::
  "string + (day \<times> day) \<Rightarrow> (day \<Rightarrow> week_bounder) \<Rightarrow> day list \<Rightarrow> day \<Rightarrow> bool \<Rightarrow> bool \<Rightarrow>
   date_error + (day list \<times> (day \<times> day) option)" where
  "resolve_dates season weeks base today needsSeason needsMatchup =
     (if \<not> needsSeason \<and> \<not> needsMatchup then Inr (base, None)
      else (case season of Inl e \<Rightarrow> Inl (Season_range_failed e)
        | Inr (start, stop) \<Rightarrow>
            if needsMatchup
            then (if today < start \<or> today > stop then Inl (Out_of_season today start stop)
                  else (case weeks start today of
                          Inl e \<Rightarrow> Inl (Matchup_week_failed e)
                        | Inr None \<Rightarrow> Inl (No_matchup_week_for today start)
                        | Inr (Some (ws, we)) \<Rightarrow>
                            (let mStart = (if ws < today then today else ws) in Inr (base @ [mStart..we], Some (start, stop)))))
            else (let from_day = (if start < today then today else start) in Inr (base @ [from_day..stop], Some (start, stop)))))"

section \<open>Idle playoff rounds\<close>

record idle_client =
  ic_ScoringPeriods :: "string + scoring_period list"
  ic_MatchupWeekBounds :: "day \<Rightarrow> week_bounder"
  ic_PlayoffBracket :: "string + bracket"

datatype idle_line =
    Idle_generic scoring_period | Idle_eliminated int string real real | Idle_bye scoring_period | Idle_not_seeded string

datatype idle_error = Scoring_periods_failed string | Classify_failed week_error

definition playoff_idle_line :: "idle_client \<Rightarrow> string \<Rightarrow> scoring_period \<Rightarrow> idle_line" where
  "playoff_idle_line ft teamID p =
     (case ic_PlayoffBracket ft of Inl _ \<Rightarrow> Idle_generic p
      | Inr b \<Rightarrow> (let st = playoff_status_for b teamID (sp_Number p) in
          (case st_Standing st of
             Eliminated \<Rightarrow> Idle_eliminated (st_Round st) (st_Opponent st) (st_ScoreFor st) (st_ScoreAgainst st)
           | Bye \<Rightarrow> Idle_bye p
           | NotSeeded \<Rightarrow> if b \<noteq> None \<and> rounds_of b \<noteq> [] then Idle_not_seeded (sp_Caption p) else Idle_generic p
           | Alive \<Rightarrow> Idle_generic p)))"

text \<open>The line when the day is idle.\<close>

definition playoff_idle :: "idle_client \<Rightarrow> string \<Rightarrow> day \<Rightarrow> day \<Rightarrow> idle_error + idle_line option" where
  "playoff_idle ft teamID date seasonStart =
     (case ic_ScoringPeriods ft of Inl e \<Rightarrow> Inl (Scoring_periods_failed e)
      | Inr periods \<Rightarrow>
          (case classify_scoring_day periods (ic_MatchupWeekBounds ft seasonStart) date of
             Inl e \<Rightarrow> Inl (Classify_failed e)
           | Inr sd \<Rightarrow>
               (case sd_Period sd of None \<Rightarrow> Inr None
                | Some p \<Rightarrow> if sd_Scoring sd \<or> \<not> sp_Playoff p then Inr None else Inr (Some (playoff_idle_line ft teamID p)))))"

section \<open>What they decide\<close>

text \<open>The dates of a window are the rest of it. A matchup run that resolves works on the given dates
  followed by the days of the team's week from today on, a season run on those from today or the opener to the
  final day; both only inside the season, and the bounds they return are the season's.\<close>

theorem resolved_window:
  "resolve_dates season weeks base today needsSeason needsMatchup = Inr (dates, bounds) \<longleftrightarrow>
     (if \<not> needsSeason \<and> \<not> needsMatchup then dates = base \<and> bounds = None
      else (\<exists>start stop. season = Inr (start, stop) \<and> bounds = Some (start, stop) \<and>
        (if needsMatchup
         then start \<le> today \<and> today \<le> stop \<and>
           (\<exists>ws we. weeks start today = Inr (Some (ws, we)) \<and> dates = base @ [max ws today..we])
         else dates = base @ [max start today..stop])))"
proof -
  have m: "(if a < b then b else a) = max a b" for a b :: int by (simp add: max_def)
  show ?thesis
    by (auto simp: resolve_dates_def Let_def m not_less split: sum.split option.split)
qed

text \<open>A day is idle only on evidence. The verdict is that the scoring periods could be read, the day lies
  in a playoff round, and the read list of matchups has no week of the team for it; a regular-season day, a day
  outside every period and a lookup that failed never stop a run.\<close>

theorem idle_needs_evidence:
  "(\<exists>line. playoff_idle ft teamID date seasonStart = Inr (Some line)) \<longleftrightarrow>
     (\<exists>periods p. ic_ScoringPeriods ft = Inr periods \<and> find_current_period periods date = Some p \<and> sp_Playoff p \<and>
        ic_MatchupWeekBounds ft seasonStart date = Inr None)"
  by (auto simp: playoff_idle_def classify_scoring_day_def split: sum.split option.split)

end
