(* ===== verification/Roster_Alerts.thy ===== *)
theory Roster_Alerts
  imports Pitcher_Optimizer Alert_Marker Date_Format Playoffs
begin

text \<open>
  The alerts on the roster: \<open>internal/roster/alerts.go\<close>, \<open>internal/roster/il_starts.go\<close> and
  \<open>internal/lineuprun/il_starts.go\<close>. The first names players in the wrong kind of slot; the others
  find players on the injured list whose club has announced them as a starter and push each start once.
  The lines of the report are left out, but for the failures of a send.
\<close>

section \<open>Players in the wrong slot\<close>

datatype alert_type = HealthyInIL | CalledUpInMinors | InjuredInActive | MinorInActive

record slot_counts =
  ct_ILUsed :: int
  ct_ILCapacity :: int
  ct_MinorsUsed :: int
  ct_MinorsCapacity :: int

abbreviation injured_reserve :: string where "injured_reserve \<equiv> ''Injured Reserve''"

definition alerts_for :: "bool \<Rightarrow> bool \<Rightarrow> player \<Rightarrow> alert_type list" where
  "alerts_for ilFull minorsFull p =
     (if p_Status p = injured_reserve then (if \<not> p_IsInjured p then [HealthyInIL] else [])
      else if p_Status p = ''Minors'' then (if \<not> p_InMinors p then [CalledUpInMinors] else [])
      else if p_Status p = ''Active'' \<or> p_Status p = ''Reserve''
        then (if p_IsInjured p \<and> \<not> ilFull then [InjuredInActive] else []) @
             (if p_InMinors p \<and> \<not> minorsFull then [MinorInActive] else [])
      else [])"

definition check_roster :: "player list \<Rightarrow> slot_counts \<Rightarrow> (player \<times> alert_type) list" where
  "check_roster players counts =
     (let ilFull = ct_ILCapacity counts > 0 \<and> ct_ILUsed counts \<ge> ct_ILCapacity counts;
          minorsFull = ct_MinorsCapacity counts > 0 \<and> ct_MinorsUsed counts \<ge> ct_MinorsCapacity counts
      in concat (map (\<lambda>p. map (\<lambda>a. (p, a)) (alerts_for ilFull minorsFull p)) players))"

section \<open>Announced starts on the injured list\<close>

record il_start =
  is_Player :: player
  is_StartDate :: day

text \<open>The starts and the names whose club disagreed.\<close>

definition check_IL_starters ::
  "(string \<Rightarrow> string) \<Rightarrow> player list \<Rightarrow> (string \<rightharpoonup> string) \<Rightarrow> day \<Rightarrow> il_start list \<times> string list" where
  "check_IL_starters nrm players probables date =
     (let il = filter (\<lambda>p. p_Status p = injured_reserve) players;
          verdict = (\<lambda>p. match_probable nrm (p_Name p) (p_MLBTeam p) probables)
      in (map (\<lambda>p. \<lparr>is_Player = p, is_StartDate = date\<rparr>) (filter (\<lambda>p. verdict p = ConfirmedStarter) il),
          map p_Name (filter (\<lambda>p. verdict p = TeamMismatch) il)))"

definition il_start_lookahead :: nat where
  "il_start_lookahead = 1"

definition il_start_marker_key :: "il_start \<Rightarrow> string" where
  "il_start_marker_key s = p_ID (is_Player s) @ ''-'' @ format_date (is_StartDate s)"

type_synonym probables_read = "day \<Rightarrow> string + (string \<times> string) list"

text \<open>The loop over the days: starts, mismatches and the number of probables seen; a day whose probables
  cannot be read is skipped.\<close>

definition scan_day ::
  "(string \<Rightarrow> string) \<Rightarrow> player list \<Rightarrow> probables_read \<Rightarrow> day \<Rightarrow> il_start list \<times> string list \<times> nat \<Rightarrow> il_start list \<times> string list \<times> nat" where
  "scan_day nrm players probables date acc = (case acc of (found, mism, seen) \<Rightarrow>
     (case probables date of Inl _ \<Rightarrow> acc
      | Inr ps \<Rightarrow> (let (starts, m) = check_IL_starters nrm players (map_of ps) date
                  in (found @ starts, mism @ m, seen + length ps))))"

definition scan_starts :: "(string \<Rightarrow> string) \<Rightarrow> player list \<Rightarrow> probables_read \<Rightarrow> day \<Rightarrow> il_start list \<times> string list \<times> nat" where
  "scan_starts nrm players probables today =
     fold (scan_day nrm players probables) (map (\<lambda>i. today + int i) [0..<Suc il_start_lookahead]) ([], [], 0)"

text \<open>One push; \<open>message\<close> renders the text, \<open>notify_ok\<close> is whether its send succeeds. The keys whose send
  failed are collected.\<close>

definition push_start ::
  "(il_start \<Rightarrow> string) \<Rightarrow> bool \<Rightarrow> faults \<Rightarrow> (string \<Rightarrow> bool) \<Rightarrow> il_start \<Rightarrow> marker_world \<times> string list \<Rightarrow> marker_world \<times> string list" where
  "push_start message has_store flt notify_ok s acc = (case acc of (w, failed) \<Rightarrow>
     (let key = il_start_marker_key s; msg = message s;
          ((_, err), w') = send_once has_store flt w key msg (notify_ok msg)
      in (w', failed @ (if err then [key] else []))))"

record il_inputs =
  il_Roster :: "player list"
  il_Probables :: probables_read
  il_Today :: day
  il_DryRun :: bool
  il_HasMarkers :: bool

definition report_il_starts ::
  "(string \<Rightarrow> string) \<Rightarrow> (il_start \<Rightarrow> string) \<Rightarrow> faults \<Rightarrow> (string \<Rightarrow> bool) \<Rightarrow> il_inputs \<Rightarrow> marker_world \<Rightarrow> marker_world \<times> string list" where
  "report_il_starts nrm message flt notify_ok inp w =
     (let (found, _, _) = scan_starts nrm (il_Roster inp) (il_Probables inp) (il_Today inp)
      in if il_DryRun inp then (w, [])
         else fold (push_start message (il_HasMarkers inp) flt notify_ok) found (w, []))"

section \<open>Which starts are found, and how often they push\<close>

definition il_announced :: "(string \<Rightarrow> string) \<Rightarrow> il_inputs \<Rightarrow> player \<Rightarrow> day \<Rightarrow> bool" where
  "il_announced nrm inp p date \<longleftrightarrow> p \<in> set (il_Roster inp) \<and> p_Status p = injured_reserve \<and>
     (date = il_Today inp \<or> date = il_Today inp + 1) \<and>
     (case il_Probables inp date of Inl _ \<Rightarrow> False | Inr ps \<Rightarrow> map_of ps (nrm (p_Name p)) = Some (p_MLBTeam p))"

lemma confirmed_iff: "match_probable nrm name team m = ConfirmedStarter \<longleftrightarrow> m (nrm name) = Some team"
  by (auto simp: match_probable_def split: option.split)

lemma found_iff:
  "s \<in> set (fst (scan_starts nrm (il_Roster inp) (il_Probables inp) (il_Today inp))) \<longleftrightarrow>
     il_announced nrm inp (is_Player s) (is_StartDate s)"
proof -
  have two: "map (\<lambda>i. t + int i) [0..<Suc il_start_lookahead] = [t, t + 1]" for t
    by (simp add: il_start_lookahead_def)
  have day: "set (fst (scan_day nrm ps pr d acc)) = set (fst acc) \<union>
      {s. is_StartDate s = d \<and> is_Player s \<in> set ps \<and> p_Status (is_Player s) = injured_reserve \<and>
         (case pr d of Inl _ \<Rightarrow> False | Inr xs \<Rightarrow> map_of xs (nrm (p_Name (is_Player s))) = Some (p_MLBTeam (is_Player s)))}"
    for ps pr d acc
    by (force simp: scan_day_def check_IL_starters_def confirmed_iff Let_def case_prod_beta image_iff split: sum.split)
  show ?thesis
    by (auto simp: scan_starts_def two day il_announced_def simp del: upt_Suc split: sum.split)
qed

lemma il_marker_key_inj:
  assumes "il_start_marker_key s = il_start_marker_key t"
    and "0 \<le> year_of (is_StartDate s)" "year_of (is_StartDate s) \<le> 9999"
    and "0 \<le> year_of (is_StartDate t)" "year_of (is_StartDate t) \<le> 9999"
  shows "p_ID (is_Player s) = p_ID (is_Player t) \<and> is_StartDate s = is_StartDate t"
proof -
  have "p_ID (is_Player s) @ ''-'' = p_ID (is_Player t) @ ''-'' \<and> format_date (is_StartDate s) = format_date (is_StartDate t)"
    using assms(1) by (simp add: il_start_marker_key_def append_eq_append_conv flip: append.assoc)
  then show ?thesis using format_date_inj assms(2-5) by auto
qed

lemma push_start_healthy:
  "push_start message True healthy (\<lambda>_. True) s (w, failed) =
     (if mw_store w (il_start_marker_key s) = None
      then (w\<lparr>mw_store := (mw_store w)(il_start_marker_key s \<mapsto> message s),
              mw_delivered := mw_delivered w @ [(il_start_marker_key s, message s)]\<rparr>, failed)
      else (w, failed))"
  by (auto simp: push_start_def send_once_def sent_def token_def send_mark_def record_mark_def healthy_def Let_def split: option.split)

lemma push_all:
  assumes "fold (push_start message True healthy (\<lambda>_. True)) found (w, failed) = (w', failed')"
  shows "\<exists>new. mw_delivered w' = mw_delivered w @ new \<and> distinct (map fst new) \<and>
    set (map fst new) = {k \<in> il_start_marker_key ` set found. mw_store w k = None} \<and>
    dom (mw_store w') = dom (mw_store w) \<union> il_start_marker_key ` set found"
  using assms
proof (induction found arbitrary: w failed)
  case (Cons s found)
  let ?k = "il_start_marker_key s"
  show ?case
  proof (cases "mw_store w ?k = None")
    case True
    let ?w = "w\<lparr>mw_store := (mw_store w)(?k \<mapsto> message s), mw_delivered := mw_delivered w @ [(?k, message s)]\<rparr>"
    from Cons.prems have "fold (push_start message True healthy (\<lambda>_. True)) found (?w, failed) = (w', failed')"
      by (simp add: push_start_healthy True)
    from Cons.IH [OF this] obtain new where new: "mw_delivered w' = mw_delivered ?w @ new" "distinct (map fst new)"
      "set (map fst new) = {k \<in> il_start_marker_key ` set found. mw_store ?w k = None}"
      "dom (mw_store w') = dom (mw_store ?w) \<union> il_start_marker_key ` set found" by blast
    show ?thesis using new True
      by (intro exI [of _ "(?k, message s) # new"]) (auto split: if_splits)
  next
    case False
    from Cons.prems have "fold (push_start message True healthy (\<lambda>_. True)) found (w, failed) = (w', failed')"
      by (simp add: push_start_healthy False)
    from Cons.IH [OF this] False show ?thesis by auto
  qed
qed auto

text \<open>C37. A lost start is announced once, and every one is. With a working marker store and channel, a run pushes
  exactly the starts of today and tomorrow that were announced for a player on the injured list by his own club and have
  not been pushed before, each once; afterwards all of them are marked, so that no later run repeats them.\<close>

theorem il_starts_pushed_once:
  assumes "\<not> il_DryRun inp" "il_HasMarkers inp"
    and "report_il_starts nrm message healthy (\<lambda>_. True) inp w = (w', failed)"
  shows "\<exists>new. mw_delivered w' = mw_delivered w @ new \<and> distinct (map fst new) \<and>
    set (map fst new) = {il_start_marker_key s | s. il_announced nrm inp (is_Player s) (is_StartDate s) \<and> mw_store w (il_start_marker_key s) = None} \<and>
    (\<forall>s. il_announced nrm inp (is_Player s) (is_StartDate s) \<longrightarrow> mw_store w' (il_start_marker_key s) \<noteq> None)"
proof -
  let ?found = "fst (scan_starts nrm (il_Roster inp) (il_Probables inp) (il_Today inp))"
  have "fold (push_start message True healthy (\<lambda>_. True)) ?found (w, []) = (w', failed)"
    using assms by (simp add: report_il_starts_def Let_def case_prod_beta)
  from push_all [OF this] obtain new where new: "mw_delivered w' = mw_delivered w @ new" "distinct (map fst new)"
    "set (map fst new) = {k \<in> il_start_marker_key ` set ?found. mw_store w k = None}"
    "dom (mw_store w') = dom (mw_store w) \<union> il_start_marker_key ` set ?found" by blast
  have "il_start_marker_key s \<in> dom (mw_store w')" if "il_announced nrm inp (is_Player s) (is_StartDate s)" for s
    using that new(4) by (simp add: found_iff [symmetric])
  then show ?thesis using new(1-3) by (intro exI [of _ new]) (auto simp: found_iff)
qed

section \<open>A concrete check\<close>

definition demo_il :: il_inputs where
  "demo_il = \<lparr>il_Roster = [\<lparr>p_ID = ''p1'', p_Name = ''jacob degrom'', p_MLBTeam = ''TEX'', p_Positions = [], p_PosShortNames = ''SP'',
       p_RosterPosition = [], p_Status = injured_reserve, p_NextGameDate = [], p_InMinors = False, p_IsInjured = True, p_Locked = False\<rparr>],
     il_Probables = (\<lambda>d. if d = 739850 then Inr [(''jacob degrom'', ''TEX'')] else Inl ''timeout''), il_Today = 739850,
     il_DryRun = False, il_HasMarkers = True\<rparr>"

theorem il_starts_pushed_once_witness:
  "\<exists>s. il_announced (\<lambda>x. x) demo_il (is_Player s) 739850 \<and> is_StartDate s = 739850 \<and>
     mw_store (fst (report_il_starts (\<lambda>x. x) (\<lambda>_. ''start'') healthy (\<lambda>_. True) demo_il \<lparr>mw_store = Map.empty, mw_delivered = []\<rparr>))
       (il_start_marker_key s) \<noteq> None"
proof -
  let ?s = "\<lparr>is_Player = hd (il_Roster demo_il), is_StartDate = 739850\<rparr>"
  have a: "il_announced (\<lambda>x. x) demo_il (is_Player ?s) (is_StartDate ?s)" by (simp add: il_announced_def demo_il_def)
  have "\<not> il_DryRun demo_il" "il_HasMarkers demo_il" by (simp_all add: demo_il_def)
  from il_starts_pushed_once [OF this, of "\<lambda>x. x" "\<lambda>_. ''start''" "\<lparr>mw_store = Map.empty, mw_delivered = []\<rparr>", OF prod.collapse [symmetric]]
  show ?thesis using a by (intro exI [of _ ?s]) auto
qed

end
