(* ===== verification/Projection_Load.thy ===== *)
theory Projection_Load
  imports Scoring "HOL-Library.AList"
begin

text \<open>
  Where the base projections come from: the sources of \<open>internal/projections/fangraphs.go\<close> and
  \<open>pitcher_fangraphs.go\<close> with their lookup, averages and FIP table, the cascade that loads them, and
  \<open>internal/teams\<close>. Fetching, decoding and the CSV file are parameters, as is the normaliser of names. A
  source keeps its map as the list of its entries in the order a range meets them, which varies from run to run. The lemmas
  say which system a load uses, when a projection is found, and what the order of a range can change.
\<close>

section \<open>Team names\<close>

definition ascii_upper :: "char \<Rightarrow> char" where
  "ascii_upper c = (let n = (of_char c :: nat) in if 97 \<le> n \<and> n \<le> 122 then char_of (n - 32) else c)"

definition to_upper :: "string \<Rightarrow> string" where
  "to_upper s = map ascii_upper s"

definition team_aliases :: "(string \<times> string) list" where
  "team_aliases = [(''SDP'', ''SD''), (''SFG'', ''SF''), (''KCR'', ''KC''), (''WSN'', ''WSH''), (''TBR'', ''TB''),
     (''AZ'', ''ARI''), (''CWS'', ''CHW''), (''OAK'', ''ATH'')]"

definition normalize_team :: "string \<Rightarrow> string" where
  "normalize_team team = (let t = to_upper (trim_space team) in case map_of team_aliases t of Some c \<Rightarrow> c | None \<Rightarrow> t)"

section \<open>Sources\<close>

record 'p fg_row =
  fg_PlayerName :: string
  fg_Team :: string
  fg_Projection :: 'p
  fg_MLBAMID :: int

record 'p fg_source =
  fs_projections :: "(string \<times> 'p) list"
  fs_mlbamIDs :: "(string \<times> int) list"

definition proj_key :: "(string \<Rightarrow> string) \<Rightarrow> string \<Rightarrow> string \<Rightarrow> string" where
  "proj_key nrm name team = nrm name @ ''|'' @ normalize_team team"

definition add_row :: "(string \<Rightarrow> string) \<Rightarrow> 'p fg_row \<Rightarrow> 'p fg_source \<Rightarrow> 'p fg_source" where
  "add_row nrm row src =
     (let name = trim_space (fg_PlayerName row); team = to_upper (trim_space (fg_Team row))
      in if name = [] then src
         else \<lparr>fs_projections = AList.update (proj_key nrm name team) (fg_Projection row) (fs_projections src),
               fs_mlbamIDs = (if fg_MLBAMID row > 0 then AList.update (nrm name) (fg_MLBAMID row) (fs_mlbamIDs src) else fs_mlbamIDs src)\<rparr>)"

definition empty_source :: "'p fg_source" where
  "empty_source = \<lparr>fs_projections = [], fs_mlbamIDs = []\<rparr>"

definition build_source :: "(string \<Rightarrow> string) \<Rightarrow> 'p fg_row list \<Rightarrow> 'p fg_source" where
  "build_source nrm rows = fold (add_row nrm) rows empty_source"

text \<open>The exact key, else the only entry of that name.\<close>

definition fg_projection :: "(string \<Rightarrow> string) \<Rightarrow> 'p fg_source \<Rightarrow> string \<Rightarrow> string \<Rightarrow> 'p option" where
  "fg_projection nrm src name team =
     (case map_of (fs_projections src) (proj_key nrm name team) of
        Some p \<Rightarrow> Some p
      | None \<Rightarrow> (case filter (\<lambda>(k, _). has_prefix k (nrm name @ ''|'')) (fs_projections src) of [(_, p)] \<Rightarrow> Some p | _ \<Rightarrow> None))"

definition fg_as_source :: "(string \<Rightarrow> string) \<Rightarrow> 'p fg_source \<Rightarrow> 'p source" where
  "fg_as_source nrm src = \<lparr>src_projection = fg_projection nrm src, src_pts_per_game = None\<rparr>"

definition average :: "real list \<Rightarrow> real" where
  "average xs = (if xs = [] then 0 else foldl (+) 0 xs / real (length xs))"

definition average_FPG :: "projection fg_source \<Rightarrow> weights \<Rightarrow> real" where
  "average_FPG src w = average (map (\<lambda>p. expected_pts_from_proj p w) (filter (\<lambda>p. \<not> pj_G p \<le> 0) (map snd (fs_projections src))))"

definition pitcher_average_FPG :: "pitcher_projection fg_source \<Rightarrow> weights \<Rightarrow> real" where
  "pitcher_average_FPG src w =
     average (map (\<lambda>p. pitcher_expected_pts_from_proj p w) (filter (\<lambda>p. \<not> pp_G p \<le> 0) (map snd (fs_projections src))))"

text \<open>\<open>PitcherInfo\<close>: the FIP by name and the league average weighted by innings.\<close>

definition name_of_key :: "string \<Rightarrow> string" where
  "name_of_key k = takeWhile (\<lambda>c. c \<noteq> CHR 0x7C) k"

definition pitcher_fip :: "pitcher_projection fg_source \<Rightarrow> (string \<rightharpoonup> real)" where
  "pitcher_fip src = fold (\<lambda>(k, p) m. if pp_FIP p > 0 then m(name_of_key k \<mapsto> pp_FIP p) else m) (fs_projections src) Map.empty"

definition league_avg_FIP :: "pitcher_projection fg_source \<Rightarrow> real" where
  "league_avg_FIP src =
     (let ps = filter (\<lambda>p. pp_IP p > 0 \<and> pp_FIP p > 0) (map snd (fs_projections src));
          totalIP = foldl (+) 0 (map pp_IP ps)
      in if totalIP > 0 then foldl (+) 0 (map (\<lambda>p. pp_FIP p * pp_IP p) ps) / totalIP else 0)"

section \<open>The cascade\<close>

definition fg_projection_type :: "(string \<times> string) list" where
  "fg_projection_type = [(''steamer'', ''steamer''), (''depthcharts'', ''fangraphsdc''), (''thebatx'', ''thebatx''), (''atc'', ''atc''),
     (''steamer-ros'', ''steamerr''), (''depthcharts-ros'', ''rfangraphsdc''), (''thebatx-ros'', ''rthebatx''), (''atc-ros'', ''ratcdc'')]"

text \<open>\<open>SetProjectionSystem\<close>: the API type it selects, or \<open>None\<close> for its error.\<close>

definition set_projection_system :: "string \<Rightarrow> string option" where
  "set_projection_system system = map_of fg_projection_type system"

definition ros_variant :: "string \<Rightarrow> string option" where
  "ros_variant = map_of [(''steamer'', ''steamer-ros''), (''depthcharts'', ''depthcharts-ros''), (''thebatx'', ''thebatx-ros''), (''atc'', ''atc-ros'')]"

definition valid_base_system :: "string \<Rightarrow> bool" where
  "valid_base_system system \<longleftrightarrow> system \<in> {''steamer'', ''depthcharts'', ''thebatx'', ''atc''}"

record load_result =
  lr_System :: string
  lr_FellBack :: bool
  lr_FromCSV :: bool
  lr_NoData :: bool
  lr_FetchedAt :: go_time

text \<open>The cached fetch of a type: an error, or the rows and when they were fetched.\<close>

type_synonym 'p fetch = "string \<Rightarrow> string + 'p fg_row list \<times> go_time"

definition systems_to_try :: "string \<Rightarrow> string list" where
  "systems_to_try system = (case ros_variant system of Some ros \<Rightarrow> [ros, system] | None \<Rightarrow> [system])"

text \<open>The loop over the systems: the source it returns, if it does, and the result so far.\<close>

fun try_systems ::
  "(string \<Rightarrow> string) \<Rightarrow> 'p fetch \<Rightarrow> string list \<Rightarrow> load_result \<Rightarrow> 'p fg_source option \<times> load_result" where
  "try_systems nrm fetch [] result = (None, result)"
| "try_systems nrm fetch (sys # rest) result =
     (case set_projection_system sys of
        None \<Rightarrow> try_systems nrm fetch rest result
      | Some apiType \<Rightarrow>
          (case fetch apiType of
             Inl _ \<Rightarrow> if rest \<noteq> [] then try_systems nrm fetch rest result else (None, result)
           | Inr (rows, fetchedAt) \<Rightarrow>
               (let src = build_source nrm rows
                in if fs_projections src = []
                   then (if rest \<noteq> [] then try_systems nrm fetch rest (result\<lparr>lr_FellBack := True\<rparr>) else (None, result))
                   else (Some src, result\<lparr>lr_System := sys, lr_FetchedAt := fetchedAt\<rparr>))))"

text \<open>\<open>LoadBattingProjections\<close> and \<open>LoadPitcherProjections\<close>: both never return an error. \<open>csv\<close> is the
  source of the CSV file, or \<open>None\<close> when it cannot be read.\<close>

definition load_projections ::
  "(string \<Rightarrow> string) \<Rightarrow> 'p fetch \<Rightarrow> 'p fg_source option \<Rightarrow> string \<Rightarrow> 'p fg_source \<times> load_result" where
  "load_projections nrm fetch csv system =
     (let result = \<lparr>lr_System = system, lr_FellBack = False, lr_FromCSV = False, lr_NoData = False, lr_FetchedAt = 0\<rparr>
      in case try_systems nrm fetch (systems_to_try system) result of
           (Some src, r) \<Rightarrow> (src, r)
         | (None, r) \<Rightarrow>
             (case csv of
                Some src \<Rightarrow> if fs_projections src \<noteq> [] then (src, r\<lparr>lr_FromCSV := True\<rparr>) else (empty_source, r\<lparr>lr_NoData := True\<rparr>)
              | None \<Rightarrow> (empty_source, r\<lparr>lr_NoData := True\<rparr>)))"

section \<open>What a load gives\<close>

text \<open>The API serves a system: it is known, the fetch succeeds and names a player.\<close>

definition serves :: "(string \<Rightarrow> string) \<Rightarrow> 'p fetch \<Rightarrow> string \<Rightarrow> bool" where
  "serves nrm fetch sys \<longleftrightarrow> (case set_projection_system sys of None \<Rightarrow> False
     | Some t \<Rightarrow> (case fetch t of Inl _ \<Rightarrow> False | Inr (rows, _) \<Rightarrow> fs_projections (build_source nrm rows) \<noteq> []))"

text \<open>The source and the stamp of a load are those of the system's own rows.\<close>

definition served_rows :: "(string \<Rightarrow> string) \<Rightarrow> 'p fetch \<Rightarrow> string \<Rightarrow> 'p fg_source \<Rightarrow> load_result \<Rightarrow> bool" where
  "served_rows nrm fetch sys src r \<longleftrightarrow>
     (\<exists>t rows. set_projection_system sys = Some t \<and> fetch t = Inr (rows, lr_FetchedAt r) \<and> src = build_source nrm rows)"

text \<open>The order of preference, for the four base systems: the rest of the season, then the preseason.\<close>

definition preferred :: "string \<Rightarrow> string list" where
  "preferred system = (if system \<in> {''steamer'', ''depthcharts'', ''thebatx'', ''atc''} then [system @ ''-ros'', system] else [system])"

lemma systems_preferred: "systems_to_try system = preferred system"
  by (auto simp: systems_to_try_def ros_variant_def preferred_def)

lemma try_systems_spec:
  "try_systems nrm fetch systems result = (src, r) \<Longrightarrow>
     (case find (serves nrm fetch) systems of
        None \<Rightarrow> src = None \<and> lr_System r = lr_System result
      | Some sys \<Rightarrow> lr_System r = sys \<and> (\<exists>s. src = Some s \<and> fs_projections s \<noteq> [] \<and> served_rows nrm fetch sys s r)) \<and>
     lr_FromCSV r = lr_FromCSV result \<and> lr_NoData r = lr_NoData result"
proof (induction systems arbitrary: result)
  case (Cons sys rest)
  show ?case
  proof (cases "set_projection_system sys")
    case None
    then have "\<not> serves nrm fetch sys" "try_systems nrm fetch rest result = (src, r)" using Cons.prems by (simp_all add: serves_def)
    then show ?thesis using Cons.IH by simp
  next
    case (Some t)
    show ?thesis
    proof (cases "fetch t")
      case (Inl e)
      then have "\<not> serves nrm fetch sys" "try_systems nrm fetch rest result = (src, r)"
        using Cons.prems Some by (auto simp: serves_def split: if_splits)
      then show ?thesis using Cons.IH by simp
    next
      case (Inr got)
      obtain rows stamp where got: "got = (rows, stamp)" by (rule prod.exhaust)
      show ?thesis
      proof (cases "fs_projections (build_source nrm rows) = []")
        case True
        then have no: "\<not> serves nrm fetch sys" using Some Inr got by (simp add: serves_def)
        show ?thesis
        proof (cases "rest = []")
          case False
          then have "try_systems nrm fetch rest (result\<lparr>lr_FellBack := True\<rparr>) = (src, r)"
            using Cons.prems Some Inr got True by simp
          from Cons.IH [OF this] show ?thesis using no by (simp split: option.splits)
        qed (use Cons.prems Some Inr got True no in auto)
      next
        case False
        then have "serves nrm fetch sys" using Some Inr got by (simp add: serves_def)
        then show ?thesis using Cons.prems Some Inr got False by (auto simp: Let_def served_rows_def)
      qed
    qed
  qed
qed simp

text \<open>C38. A load uses the best system that has data, and says so. For one of the four base systems it takes the
  rest-of-season variant if the API serves it, else the preseason system; for another system that system only; else the
  CSV file under the name asked for, else nothing, which it reports. The source is built from the rows that were
  fetched for the system it names, with their time of fetching.\<close>

theorem load_best_system:
  assumes "load_projections nrm fetch csv system = (src, r)"
  shows "let base = system \<in> {''steamer'', ''depthcharts'', ''thebatx'', ''atc''};
      used = (if base \<and> serves nrm fetch (system @ ''-ros'') then Some (system @ ''-ros'')
        else if serves nrm fetch system then Some system else None)
    in (case used of
       Some sys \<Rightarrow> lr_System r = sys \<and> \<not> lr_FromCSV r \<and> \<not> lr_NoData r \<and>
         (\<exists>t rows. set_projection_system sys = Some t \<and> fetch t = Inr (rows, lr_FetchedAt r) \<and> src = build_source nrm rows)
     | None \<Rightarrow> lr_System r = system \<and>
         (case csv of Some s \<Rightarrow> if fs_projections s \<noteq> [] then src = s \<and> lr_FromCSV r \<and> \<not> lr_NoData r
                        else src = empty_source \<and> lr_NoData r
          | None \<Rightarrow> src = empty_source \<and> lr_NoData r))"
proof -
  define r0 where "r0 = \<lparr>lr_System = system, lr_FellBack = False, lr_FromCSV = False, lr_NoData = False, lr_FetchedAt = 0\<rparr>"
  obtain got r1 where t: "try_systems nrm fetch (preferred system) r0 = (got, r1)" by (rule prod.exhaust)
  note s = try_systems_spec [OF t]
  have r0: "lr_System r0 = system" "\<not> lr_FromCSV r0" "\<not> lr_NoData r0" by (simp_all add: r0_def)
  have used: "(if system \<in> {''steamer'', ''depthcharts'', ''thebatx'', ''atc''} \<and> serves nrm fetch (system @ ''-ros'') then Some (system @ ''-ros'')
      else if serves nrm fetch system then Some system else None) = find (serves nrm fetch) (preferred system)"
    by (simp add: preferred_def)
  show ?thesis
    unfolding Let_def used
  proof (cases "find (serves nrm fetch) (preferred system)")
    case None
    then have "got = None" "lr_System r1 = system" "\<not> lr_FromCSV r1" "\<not> lr_NoData r1" using s r0 by simp_all
    then show "case find (serves nrm fetch) (preferred system) of
       Some sys \<Rightarrow> lr_System r = sys \<and> \<not> lr_FromCSV r \<and> \<not> lr_NoData r \<and>
         (\<exists>t rows. set_projection_system sys = Some t \<and> fetch t = Inr (rows, lr_FetchedAt r) \<and> src = build_source nrm rows)
     | None \<Rightarrow> lr_System r = system \<and>
         (case csv of Some s \<Rightarrow> if fs_projections s \<noteq> [] then src = s \<and> lr_FromCSV r \<and> \<not> lr_NoData r
                        else src = empty_source \<and> lr_NoData r
          | None \<Rightarrow> src = empty_source \<and> lr_NoData r)"
      using assms None t unfolding load_projections_def r0_def [symmetric] systems_preferred
      by (auto split: option.splits if_splits)
  next
    case (Some sys)
    then obtain s where "got = Some s" "served_rows nrm fetch sys s r1" "lr_System r1 = sys" "\<not> lr_FromCSV r1" "\<not> lr_NoData r1"
      using s r0 by auto
    moreover from this have "src = s" "r = r1"
      using assms t unfolding load_projections_def r0_def [symmetric] systems_preferred by simp_all
    ultimately show "case find (serves nrm fetch) (preferred system) of
       Some sys \<Rightarrow> lr_System r = sys \<and> \<not> lr_FromCSV r \<and> \<not> lr_NoData r \<and>
         (\<exists>t rows. set_projection_system sys = Some t \<and> fetch t = Inr (rows, lr_FetchedAt r) \<and> src = build_source nrm rows)
     | None \<Rightarrow> lr_System r = system \<and>
         (case csv of Some s \<Rightarrow> if fs_projections s \<noteq> [] then src = s \<and> lr_FromCSV r \<and> \<not> lr_NoData r
                        else src = empty_source \<and> lr_NoData r
          | None \<Rightarrow> src = empty_source \<and> lr_NoData r)"
      using Some by (simp add: served_rows_def)
  qed
qed

section \<open>The order of a range\<close>

lemma average_mset: "mset xs = mset ys \<Longrightarrow> average xs = average ys"
proof -
  assume m: "mset xs = mset ys"
  have f: "foldl (+) a xs = a + sum_list xs" for a :: real and xs by (induction xs arbitrary: a) simp_all
  have "sum_list xs = sum_list ys" using m by (metis sum_mset_sum_list)
  moreover have "length xs = length ys" using m by (rule mset_eq_length)
  ultimately show "average xs = average ys" by (auto simp: average_def f)
qed

lemma filter_single_mset: "mset xs = mset ys \<Longrightarrow> filter P xs = [x] \<longleftrightarrow> filter P ys = [x]"
proof -
  assume "mset xs = mset ys"
  then have "mset (filter P xs) = mset (filter P ys)" by simp
  then show ?thesis by (metis mset_single_iff)
qed

text \<open>The random order of a map's range shows in no lookup: two runs that meet the same entries in
  different orders find the same projection for every player.\<close>

theorem range_order_harmless:
  assumes "mset (fs_projections a) = mset (fs_projections b)" and "distinct (map fst (fs_projections a))"
  shows "fg_projection nrm a = fg_projection nrm b"
proof (rule ext, rule ext)
  fix name team
  let ?P = "\<lambda>(k, _). has_prefix k (nrm name @ ''|'')"
  have "distinct (map fst (fs_projections b))"
    using assms mset_eq_imp_distinct_iff [of "map fst (fs_projections a)" "map fst (fs_projections b)"] by simp
  then have m: "map_of (fs_projections a) = map_of (fs_projections b)"
    using assms by (metis map_of_inject_set mset_eq_setD)
  have f: "filter ?P (fs_projections a) = [e] \<longleftrightarrow> filter ?P (fs_projections b) = [e]" for e
    by (rule filter_single_mset [OF assms(1)])
  have other: "(case xs of [(_, p)] \<Rightarrow> Some p | _ \<Rightarrow> None) = None" if "\<nexists>e. xs = [e]" for xs :: "(string \<times> 'a) list"
    using that by (auto split: list.split prod.split)
  have "(case filter ?P (fs_projections a) of [(_, p)] \<Rightarrow> Some p | _ \<Rightarrow> None) =
      (case filter ?P (fs_projections b) of [(_, p)] \<Rightarrow> Some p | _ \<Rightarrow> None)"
  proof (cases "\<exists>e. filter ?P (fs_projections b) = [e]")
    case True
    then obtain e where "filter ?P (fs_projections b) = [e]" by blast
    moreover from this f [of e] have "filter ?P (fs_projections a) = [e]" by blast
    ultimately show ?thesis by (simp only:)
  next
    case False
    then have "\<nexists>e. filter ?P (fs_projections a) = [e]" using f by blast
    then show ?thesis using other [OF False] other [of "filter ?P (fs_projections a)"] by (metis (no_types, lifting))
  qed
  then show "fg_projection nrm a name team = fg_projection nrm b name team"
    unfolding fg_projection_def m by (simp only:)
qed

lemma averages_order_free:
  assumes "mset (fs_projections a) = mset (fs_projections b)"
  shows "average_FPG a w = average_FPG b w"
  unfolding average_FPG_def using assms by (intro average_mset) (simp add: mset_filter)

text \<open>The FIP table is not: of two pitchers of one name the later entry wins.\<close>

definition namesakes :: "bool \<Rightarrow> pitcher_projection \<Rightarrow> pitcher_projection fg_source" where
  "namesakes swapped p =
     (let a = (''luis garcia|HOU'', p\<lparr>pp_FIP := 3\<rparr>); b = (''luis garcia|WSH'', p\<lparr>pp_FIP := 5\<rparr>)
      in \<lparr>fs_projections = (if swapped then [b, a] else [a, b]), fs_mlbamIDs = []\<rparr>)"

lemma fip_depends_on_order:
  "mset (fs_projections (namesakes True p)) = mset (fs_projections (namesakes False p)) \<and>
   pitcher_fip (namesakes True p) ''luis garcia'' = Some 3 \<and> pitcher_fip (namesakes False p) ''luis garcia'' = Some 5"
  by (simp add: namesakes_def pitcher_fip_def name_of_key_def Let_def)

text \<open>A load whose rest-of-season system has no rows falls to the preseason one.\<close>

definition demo_fetch :: "projection fetch" where
  "demo_fetch t = (if t = ''rfangraphsdc'' then Inr ([], 5)
     else if t = ''fangraphsdc'' then Inr ([\<lparr>fg_PlayerName = '' Mookie Betts'', fg_Team = ''lad'',
       fg_Projection = \<lparr>pj_G = 150, pj_PA = 600, pj_H = 150, pj_Singles = 90, pj_Doubles = 30, pj_Triples = 2, pj_HR = 28, pj_RBI = 90,
         pj_R = 100, pj_BB = 60, pj_SB = 10, pj_CS = 2, pj_HBP = 4, pj_SO = 80, pj_GIDP = 9\<rparr>, fg_MLBAMID = 605141\<rparr>], 7)
     else Inl ''500'')"

theorem load_best_system_witness:
  "lr_System (snd (load_projections (\<lambda>s. s) demo_fetch None ''depthcharts'')) = ''depthcharts'' \<and>
   lr_FetchedAt (snd (load_projections (\<lambda>s. s) demo_fetch None ''depthcharts'')) = 7"
proof -
  have s: "set_projection_system ''depthcharts-ros'' = Some ''rfangraphsdc''" "set_projection_system ''depthcharts'' = Some ''fangraphsdc''"
    by (simp_all add: set_projection_system_def fg_projection_type_def)
  have "fs_projections (build_source (\<lambda>s. s) []) = []" by (simp add: build_source_def empty_source_def)
  then have ros: "\<not> serves (\<lambda>s. s) demo_fetch ''depthcharts-ros''" by (simp add: serves_def s) (simp add: demo_fetch_def)
  have "fs_projections (build_source (\<lambda>s. s) (fst (projr (demo_fetch ''fangraphsdc'')))) \<noteq> []"
    by (simp add: build_source_def empty_source_def demo_fetch_def add_row_def Let_def trim_space_def is_space_def)
  then have pre: "serves (\<lambda>s. s) demo_fetch ''depthcharts''" by (simp add: serves_def s) (simp add: demo_fetch_def)
  have seven: "demo_fetch ''fangraphsdc'' = Inr (rows, stamp) \<Longrightarrow> stamp = 7" for rows stamp by (simp add: demo_fetch_def)
  show ?thesis
    using load_best_system [of "\<lambda>s. s" demo_fetch None "''depthcharts''", OF prod.collapse [symmetric]] ros pre seven
    by (auto simp: s Let_def)
qed

theorem range_order_harmless_witness:
  "fg_projection (\<lambda>s. s) (namesakes True p) ''luis garcia'' ''HOU'' = fg_projection (\<lambda>s. s) (namesakes False p) ''luis garcia'' ''HOU''"
proof -
  have "mset (fs_projections (namesakes True p)) = mset (fs_projections (namesakes False p))"
    "distinct (map fst (fs_projections (namesakes True p)))" by (simp_all add: namesakes_def Let_def)
  from range_order_harmless [OF this] show ?thesis by (simp only:)
qed

end
