(* ===== verification/Lineup_Run.thy ===== *)
theory Lineup_Run
  imports Lineup_Emit Recent_Blend Run_Guards Roster_Alerts Projection_Load GS_Floor
begin

text \<open>
  One run of the lineup job: \<open>LoadInputs\<close> of \<open>internal/lineuprun/inputs.go\<close> and \<open>Run\<close> of
  \<open>lineuprun.go\<close>, composed of the phases the other theories model, in the code's order and with its early
  returns. Every client is a parameter whose calls may fail. The progress display is left out. The lemmas
  say which runs may touch the roster and what a failed, idle or off-season run leaves alone.
\<close>

section \<open>Inputs from Fantrax\<close>

record inputs_client =
  xc_HitterRoster :: "string + player list"
  xc_ActiveSlots :: "string + slot list"
  xc_ScoringWeights :: "string + weights"
  xc_PitcherRoster :: "string + player list"
  xc_PitcherSlots :: "string + slot list"
  xc_PitcherScoringWeights :: "string + weights"
  xc_CurrentPeriod :: "string + int"
  xc_ScoringPeriods :: "string + scoring_period list"

record run_loaded =
  xi_HitterRoster :: "player list"
  xi_HitterSlots :: "slot list"
  xi_HitterScoring :: weights
  xi_PitcherRoster :: "player list"
  xi_PitcherSlots :: "slot list"
  xi_PitcherScoring :: weights
  xi_CurrentPeriod :: int
  xi_PeriodErr :: "string option"
  xi_Periods :: "scoring_period list"
  xi_PeriodsErr :: "string option"

datatype input_kind = Hitter_roster | Hitter_slots | Hitter_scoring | Pitcher_roster | Pitcher_slots | Pitcher_scoring

definition err_of :: "'e + 'a \<Rightarrow> 'e option" where
  "err_of r = (case r of Inl e \<Rightarrow> Some e | Inr _ \<Rightarrow> None)"

definition value_or :: "'a \<Rightarrow> 'e + 'a \<Rightarrow> 'a" where
  "value_or d r = (case r of Inl _ \<Rightarrow> d | Inr x \<Rightarrow> x)"

text \<open>The first error in the fixed order of the loop, whichever read came back first.\<close>

definition first_error :: "('k \<times> 'e option) list \<Rightarrow> ('k \<times> 'e) option" where
  "first_error rs = (case filter (\<lambda>(_, e). e \<noteq> None) rs of (k, Some e) # _ \<Rightarrow> Some (k, e) | _ \<Rightarrow> None)"

definition fatal_reads :: "inputs_client \<Rightarrow> (input_kind \<times> string option) list" where
  "fatal_reads ft = [(Hitter_roster, err_of (xc_HitterRoster ft)), (Hitter_slots, err_of (xc_ActiveSlots ft)),
     (Hitter_scoring, err_of (xc_ScoringWeights ft)), (Pitcher_roster, err_of (xc_PitcherRoster ft)),
     (Pitcher_slots, err_of (xc_PitcherSlots ft)), (Pitcher_scoring, err_of (xc_PitcherScoringWeights ft))]"

definition load_inputs :: "inputs_client \<Rightarrow> (input_kind \<times> string) + run_loaded" where
  "load_inputs ft =
     (case first_error (fatal_reads ft) of
        Some e \<Rightarrow> Inl e
      | None \<Rightarrow> Inr
          \<lparr>xi_HitterRoster = value_or [] (xc_HitterRoster ft), xi_HitterSlots = value_or [] (xc_ActiveSlots ft),
           xi_HitterScoring = value_or Map.empty (xc_ScoringWeights ft), xi_PitcherRoster = value_or [] (xc_PitcherRoster ft),
           xi_PitcherSlots = value_or [] (xc_PitcherSlots ft),
           xi_PitcherScoring = value_or Map.empty (xc_PitcherScoringWeights ft),
           xi_CurrentPeriod = value_or 0 (xc_CurrentPeriod ft), xi_PeriodErr = err_of (xc_CurrentPeriod ft),
           xi_Periods = value_or [] (xc_ScoringPeriods ft), xi_PeriodsErr = err_of (xc_ScoringPeriods ft)\<rparr>)"

section \<open>Settings, clients and the world\<close>

record run_config =
  cf_TeamID :: string
  cf_Dates :: "day list"
  cf_DryRun :: bool
  cf_AutoApply :: bool
  cf_ILSlots :: int
  cf_MinorsSlots :: int
  cf_BlendMinGP :: int
  cf_GSTrackingEnabled :: bool

record run_options =
  ro_Today :: day
  ro_NeedsSeasonLookup :: bool
  ro_NeedsMatchupLookup :: bool
  ro_HitterSystem :: string
  ro_PitcherSystem :: string
  ro_CheckRoster :: bool
  ro_ShowPipeline :: bool
  ro_WriteSnapshots :: bool
  ro_HasSnapshotStore :: bool
  ro_SnapshotRoot :: string
  ro_PublishLineupFlag :: bool
  ro_HasPublisher :: bool
  ro_HasILMarkers :: bool
  ro_HasFloorMarkers :: bool
  ro_HasApplyFailMarkers :: bool

text \<open>\<open>rn_Order\<close> is the order in which the dates reach the shared rosters; the two loads may fail in tests only.\<close>

record 'doc run_env =
  rn_Season :: "string + (day \<times> day)"
  rn_Weeks :: "day \<Rightarrow> week_bounder"
  rn_Bracket :: "string + bracket"
  rn_LoadBatting :: "string \<Rightarrow> string + projection fg_source \<times> load_result"
  rn_LoadPitching :: "string \<Rightarrow> string + pitcher_projection fg_source \<times> load_result"
  rn_FullRoster :: "string + player list \<times> slot_counts"
  rn_Inputs :: inputs_client
  rn_Recent :: recent_client
  rn_Handedness :: "(string \<rightharpoonup> int) \<Rightarrow> string + (string \<rightharpoonup> string) \<times> (string \<rightharpoonup> string)"
  rn_GS :: gs_client
  rn_Schedule :: schedule_client
  rn_DateClients :: date_clients
  rn_Order :: "nat list"
  rn_Emit :: "'doc emit_env"
  rn_ILMessage :: "il_start \<Rightarrow> string"
  rn_ILFaults :: faults
  rn_FloorText :: "gs_floor_finding \<Rightarrow> string"
  rn_FloorFaults :: faults
  rn_NotifyOk :: "string \<Rightarrow> bool"

datatype run_event =
    Season_starts_on day | Season_ended_on day | Idle idle_line | Roster_alert player alert_type | Il_send_failed string
  | Gs_notice gs_line | Gs_skipped_idle | Gs_disabled | Gs_floor_line floor_line | Gs_alert_sent gs_alert | Archived_idle day

record 'doc run_world =
  rw_Emit :: "'doc emit_world"
  rw_ILMarker :: marker_world
  rw_FloorMarker :: marker_world
  rw_StartRates :: rate_cache
  rw_Out :: "run_event list"

datatype run_error =
    Unknown_system string | Dates_failed date_error | Batting_unavailable string | Pitching_unavailable string
  | Full_roster_failed string | Inputs_failed input_kind string

record run_result =
  rr_HittersNoData :: bool
  rr_PitchersNoData :: bool

definition no_result :: run_result where
  "no_result = \<lparr>rr_HittersNoData = False, rr_PitchersNoData = False\<rparr>"

definition note_run :: "run_event list \<Rightarrow> 'doc run_world \<Rightarrow> 'doc run_world" where
  "note_run es w = w\<lparr>rw_Out := rw_Out w @ es\<rparr>"

definition idle_client_of :: "'doc run_env \<Rightarrow> idle_client" where
  "idle_client_of env = \<lparr>ic_ScoringPeriods = xc_ScoringPeriods (rn_Inputs env), ic_MatchupWeekBounds = rn_Weeks env,
     ic_PlayoffBracket = rn_Bracket env\<rparr>"

text \<open>One schedule feeds all phases.\<close>

definition right_of :: "'e + 'a \<Rightarrow> 'a option" where
  "right_of r = (case r of Inl _ \<Rightarrow> None | Inr x \<Rightarrow> Some x)"

definition date_clients_of :: "'doc run_env \<Rightarrow> date_clients" where
  "date_clients_of env = (rn_DateClients env)
     \<lparr>dc_TeamsPlayingOn := \<lambda>d. right_of (sd_TeamsPlayingOn (rn_Schedule env) d),
      dc_ProbableStarters := \<lambda>d. right_of (sd_ProbableStarters (rn_Schedule env) d)\<rparr>"

section \<open>The phases\<close>

text \<open>Roster alerts, when asked for.\<close>

definition alert_phase :: "(string \<Rightarrow> string) \<Rightarrow> 'doc run_env \<Rightarrow> run_config \<Rightarrow> run_options \<Rightarrow> 'doc run_world \<Rightarrow> string + 'doc run_world" where
  "alert_phase nrm env cfg opts w =
     (if \<not> ro_CheckRoster opts then Inr w
      else (case rn_FullRoster env of Inl e \<Rightarrow> Inl e
        | Inr (roster, counts) \<Rightarrow>
            (let alerts = check_roster roster (counts\<lparr>ct_ILCapacity := cf_ILSlots cfg, ct_MinorsCapacity := cf_MinorsSlots cfg\<rparr>);
                 w1 = note_run (map (\<lambda>(p, a). Roster_alert p a) alerts) w;
                 (m, failed) = report_il_starts nrm (rn_ILMessage env) (rn_ILFaults env) (rn_NotifyOk env)
                   \<lparr>il_Roster = roster, il_Probables = sd_ProbableStarters (rn_Schedule env), il_Today = ro_Today opts,
                    il_DryRun = cf_DryRun cfg, il_HasMarkers = ro_HasILMarkers opts\<rparr> (rw_ILMarker w1)
             in Inr (note_run (map Il_send_failed failed) (w1\<lparr>rw_ILMarker := m\<rparr>)))))"

text \<open>The game-start budget and the alerts around it.\<close>

definition gs_inputs_of ::
  "run_options \<Rightarrow> (day \<times> day) option \<Rightarrow> run_loaded \<Rightarrow> (player \<Rightarrow> real) \<Rightarrow> rate_cache \<Rightarrow> gs_inputs" where
  "gs_inputs_of opts bounds li projPts rates =
     \<lparr>gi_Today = ro_Today opts, gi_SeasonStart = map_option fst bounds, gi_SeasonEnd = map_option snd bounds,
      gi_Periods = xi_Periods li, gi_PeriodsErr = xi_PeriodsErr li, gi_PitcherRoster = xi_PitcherRoster li,
      gi_NumPitcherSlots = length (xi_PitcherSlots li), gi_ProjPts = projPts, gi_StartRates = rates\<rparr>"

definition gs_phase ::
  "(string \<Rightarrow> string) \<Rightarrow> 'doc run_env \<Rightarrow> run_config \<Rightarrow> run_options \<Rightarrow> bool \<Rightarrow> gs_inputs \<Rightarrow> 'doc run_world \<Rightarrow>
   gs_budget option \<times> 'doc run_world" where
  "gs_phase nrm env cfg opts idle inp w =
     (if idle then (None, note_run [Gs_skipped_idle] w)
      else if cf_GSTrackingEnabled cfg
      then (let (dec, rates) = compute_gs_budget nrm (rn_GS env) (rn_Schedule env) inp;
                w1 = note_run (map Gs_notice (gd_Notices dec) @ (case gd_Alert dec of None \<Rightarrow> [] | Some a \<Rightarrow> [Gs_alert_sent a]))
                  (w\<lparr>rw_StartRates := rates\<rparr>);
                msg = rn_FloorText env (evaluate_gs_floor (gd_Budget dec));
                (lines, m) = report_gs_floor (rn_FloorText env) (ro_HasFloorMarkers opts) (rn_FloorFaults env) (rn_NotifyOk env msg)
                  \<lparr>fi_Budget = gd_Budget dec, fi_Period = gd_Period dec, fi_Season = gd_Season dec, fi_DryRun = cf_DryRun cfg\<rparr>
                  (rw_FloorMarker w1)
            in (gd_Budget dec, note_run (map Gs_floor_line lines) (w1\<lparr>rw_FloorMarker := m\<rparr>)))
      else (None, note_run [Gs_disabled] w))"

definition emit_inputs_of ::
  "run_config \<Rightarrow> run_options \<Rightarrow> run_loaded \<Rightarrow> load_result \<Rightarrow> load_result \<Rightarrow> date_result list \<Rightarrow> emit_inputs" where
  "emit_inputs_of cfg opts li bat pit results =
     \<lparr>ei_Results = results,
      ei_SlotName = fold (\<lambda>s m. m(sl_PosID s \<mapsto> sl_PosName s)) (xi_HitterSlots li @ xi_PitcherSlots li) Map.empty,
      ei_PlayerName = fold (\<lambda>p m. m(p_ID p \<mapsto> p_Name p)) (xi_HitterRoster li @ xi_PitcherRoster li) Map.empty,
      ei_WriteSnapshots = ro_WriteSnapshots opts, ei_HasSnapshotStore = ro_HasSnapshotStore opts, ei_SnapshotRoot = ro_SnapshotRoot opts,
      ei_Projections = \<lparr>pi_HitterSystem = lr_System bat, pi_PitcherSystem = lr_System pit, pi_HittersNoData = lr_NoData bat,
        pi_PitchersNoData = lr_NoData pit, pi_HitterFetchedAt = lr_FetchedAt bat, pi_PitcherFetchedAt = lr_FetchedAt pit\<rparr>,
      ei_PublishLineup = ro_PublishLineupFlag opts, ei_HasPublisher = ro_HasPublisher opts, ei_DryRun = cf_DryRun cfg,
      ei_AutoApply = cf_AutoApply cfg, ei_HasNotifyAlert = True, ei_HasMarkers = ro_HasApplyFailMarkers opts\<rparr>"

text \<open>Where the dates of a run come from; outside the season and in an idle playoff round a lookup of the week
  ends the run cleanly.\<close>

datatype run_start = Stop run_event | Fail date_error | Go "day list" "(day \<times> day) option"

definition resolve_run :: "'doc run_env \<Rightarrow> run_config \<Rightarrow> run_options \<Rightarrow> run_start" where
  "resolve_run env cfg opts =
     (case resolve_dates (rn_Season env) (rn_Weeks env) (cf_Dates cfg) (ro_Today opts) (ro_NeedsSeasonLookup opts) (ro_NeedsMatchupLookup opts) of
        Inr (dates, bounds) \<Rightarrow> Go dates bounds
      | Inl (Out_of_season today start stop) \<Rightarrow> Stop (if before_opener today start then Season_starts_on start else Season_ended_on stop)
      | Inl (No_matchup_week_for today start) \<Rightarrow>
          (case playoff_idle (idle_client_of env) (cf_TeamID cfg) today start of
             Inr (Some line) \<Rightarrow> Stop (Idle line)
           | _ \<Rightarrow> Fail (No_matchup_week_for today start))
      | Inl e \<Rightarrow> Fail e)"

definition unknown_system :: "run_options \<Rightarrow> string option" where
  "unknown_system opts = find (\<lambda>sys. set_projection_system sys = None) [ro_HitterSystem opts, ro_PitcherSystem opts]"

definition unavailable :: "string \<Rightarrow> string \<Rightarrow> string" where
  "unavailable role e = role @ '' projections unavailable: '' @ e"

definition notify_failure :: "string \<Rightarrow> 'doc run_world \<Rightarrow> 'doc run_world" where
  "notify_failure msg w = w\<lparr>rw_Emit := (rw_Emit w)\<lparr>ew_Notified := ew_Notified (rw_Emit w) @ [msg]\<rparr>\<rparr>"

text \<open>The bounds of the season, looked up when the dates did not need them.\<close>

definition season_bounds :: "'doc run_env \<Rightarrow> (day \<times> day) option \<Rightarrow> (day \<times> day) option" where
  "season_bounds env known = (case known of Some b \<Rightarrow> Some b | None \<Rightarrow> right_of (rn_Season env))"

text \<open>What the day of a run that is not a range is.\<close>

datatype day_verdict = Off_season run_event | Idle_day idle_line | Playing_day

definition run_day :: "run_options \<Rightarrow> day list \<Rightarrow> day" where
  "run_day opts dates = (if length dates = 1 then dates ! 0 else ro_Today opts)"

definition judge_day :: "'doc run_env \<Rightarrow> run_config \<Rightarrow> run_options \<Rightarrow> day list \<Rightarrow> (day \<times> day) option \<Rightarrow> day_verdict" where
  "judge_day env cfg opts dates bounds =
     (case bounds of None \<Rightarrow> Playing_day
      | Some (start, stop) \<Rightarrow>
          if length dates > 1 then Playing_day
          else if run_day opts dates < start then Off_season (Season_starts_on start)
          else if run_day opts dates > stop then Off_season (Season_ended_on stop)
          else (case playoff_idle (idle_client_of env) (cf_TeamID cfg) (run_day opts dates) start of
                  Inr (Some line) \<Rightarrow> Idle_day line
                | _ \<Rightarrow> Playing_day))"

section \<open>Projections and the dates\<close>

text \<open>\<open>RollingSource\<close>: its table by normalised name.\<close>

definition rolling_source :: "(string \<Rightarrow> string) \<Rightarrow> (string \<rightharpoonup> 'p) \<Rightarrow> 'p source" where
  "rolling_source nrm stats = \<lparr>src_projection = (\<lambda>name _. stats (nrm name)), src_pts_per_game = None\<rparr>"

text \<open>The base projections blended with recent form; the rolling source of the chain is created empty.\<close>

definition blend_inputs_of ::
  "(string \<Rightarrow> string) \<Rightarrow> run_config \<Rightarrow> run_options \<Rightarrow> (day \<times> day) option \<Rightarrow> projection fg_source \<Rightarrow> pitcher_projection fg_source \<Rightarrow>
   run_loaded \<Rightarrow> blend_inputs" where
  "blend_inputs_of nrm cfg opts known fg fgPit li =
     \<lparr>bi_HitterBase = chained_source [fg_as_source nrm fg, rolling_source nrm Map.empty],
      bi_PitcherBase = chained_source [fg_as_source nrm fgPit, rolling_source nrm Map.empty],
      bi_HitterRoster = xi_HitterRoster li, bi_PitcherRoster = xi_PitcherRoster li,
      bi_HitterAvgFPG = average_FPG fg (xi_HitterScoring li), bi_PitcherAvgFPG = pitcher_average_FPG fgPit (xi_PitcherScoring li),
      bi_Today = ro_Today opts, bi_SeasonStart = map_option fst known, bi_CurrentPeriod = xi_CurrentPeriod li,
      bi_PeriodErr = (xi_PeriodErr li \<noteq> None), bi_BlendMinGP = cf_BlendMinGP cfg\<rparr>"

definition handedness_of ::
  "'doc run_env \<Rightarrow> (string \<times> int) list \<Rightarrow> (string \<times> int) list \<Rightarrow> (string \<rightharpoonup> string) \<times> (string \<rightharpoonup> string)" where
  "handedness_of env hitters pitchers =
     (if hitters = [] \<and> pitchers = [] then (Map.empty, Map.empty)
      else (case rn_Handedness env (map_of hitters ++ map_of pitchers) of Inl _ \<Rightarrow> (Map.empty, Map.empty) | Inr bt \<Rightarrow> bt))"

definition optimize_inputs_of ::
  "'doc run_env \<Rightarrow> run_options \<Rightarrow> (day \<times> day) option \<Rightarrow> projection fg_source \<Rightarrow> pitcher_projection fg_source \<Rightarrow> run_loaded \<Rightarrow>
   blend_outcome \<Rightarrow> gs_budget option \<Rightarrow> optimize_inputs" where
  "optimize_inputs_of env opts bounds fg fgPit li bl budget =
     (let (bats, throws) = handedness_of env (fs_mlbamIDs fg) (fs_mlbamIDs fgPit)
      in \<lparr>oi_Today = ro_Today opts, oi_SeasonStart = (case bounds of Some (s, _) \<Rightarrow> s | None \<Rightarrow> 0),
          oi_HitterSlots = xi_HitterSlots li, oi_PitcherSlots = xi_PitcherSlots li, oi_HitterScoring = xi_HitterScoring li,
          oi_PitcherScoring = xi_PitcherScoring li, oi_HitterSrc = br_Hitters bl, oi_PitcherSrc = br_Pitchers bl,
          oi_HitterBats = bats, oi_PitcherHandedness = throws, oi_PitcherFIP = pitcher_fip fgPit,
          oi_LeagueAvgFIP = league_avg_FIP fgPit, oi_GSBudget = budget, oi_ShowPipeline = ro_ShowPipeline opts\<rparr>)"

definition pitcher_projected_pts :: "(string \<Rightarrow> string) \<Rightarrow> pitcher_projection run_source \<Rightarrow> weights \<Rightarrow> player \<Rightarrow> real" where
  "pitcher_projected_pts nrm src scoring p = fst (pitcher_points_per_game (as_pitcher_source nrm src) (p_Name p) (p_MLBTeam p) scoring)"

text \<open>The budget phase and all dates; \<open>rn_Order\<close> visits every date once, so every result is there.\<close>

definition optimise_phase ::
  "(string \<Rightarrow> string) \<Rightarrow> 'doc run_env \<Rightarrow> run_config \<Rightarrow> run_options \<Rightarrow> day list \<Rightarrow> (day \<times> day) option \<Rightarrow> projection fg_source \<Rightarrow>
   pitcher_projection fg_source \<Rightarrow> run_loaded \<Rightarrow> bool \<Rightarrow> 'doc run_world \<Rightarrow> date_result list \<times> 'doc run_world" where
  "optimise_phase nrm env cfg opts dates known fg fgPit li idle w =
     (let bounds = season_bounds env known;
          bl = blend_sources nrm (rn_Recent env) (blend_inputs_of nrm cfg opts known fg fgPit li);
          (budget, w1) = gs_phase nrm env cfg opts idle
            (gs_inputs_of opts bounds li (pitcher_projected_pts nrm (br_Pitchers bl) (xi_PitcherScoring li)) (rw_StartRates w)) w;
          results = optimize_dates nrm (date_clients_of env) (optimize_inputs_of env opts bounds fg fgPit li bl budget) dates
            (rn_Order env) (xi_HitterRoster li, xi_PitcherRoster li)
      in (List.map_filter id results, w1))"

definition finish_run ::
  "'doc run_env \<Rightarrow> bool \<Rightarrow> emit_inputs \<Rightarrow> 'doc run_world \<Rightarrow> 'doc run_world" where
  "finish_run env idle inp w =
     (if idle
      then (let (dates, e) = capture_all (rn_Emit env) inp (rw_Emit w) in note_run (map Archived_idle dates) (w\<lparr>rw_Emit := e\<rparr>))
      else w\<lparr>rw_Emit := emit (rn_Emit env) inp (rw_Emit w)\<rparr>)"

section \<open>The run\<close>

text \<open>From the loaded projections on.\<close>

definition run_lineups ::
  "(string \<Rightarrow> string) \<Rightarrow> 'doc run_env \<Rightarrow> run_config \<Rightarrow> run_options \<Rightarrow> day list \<Rightarrow> (day \<times> day) option \<Rightarrow>
   projection fg_source \<times> load_result \<Rightarrow> pitcher_projection fg_source \<times> load_result \<Rightarrow> run_loaded \<Rightarrow> 'doc run_world \<Rightarrow> 'doc run_world" where
  "run_lineups nrm env cfg opts dates known batting pitching li w =
     (case judge_day env cfg opts dates (season_bounds env known) of
        Off_season e \<Rightarrow> note_run [e] w
      | verdict \<Rightarrow>
          (let idle = (verdict \<noteq> Playing_day);
               w1 = (case verdict of Idle_day line \<Rightarrow> note_run [Idle line] w | _ \<Rightarrow> w);
               (results, w2) = optimise_phase nrm env cfg opts dates known (fst batting) (fst pitching) li idle w1
           in finish_run env idle (emit_inputs_of cfg opts li (snd batting) (snd pitching) results) w2))"

definition run_loaded_systems ::
  "(string \<Rightarrow> string) \<Rightarrow> 'doc run_env \<Rightarrow> run_config \<Rightarrow> run_options \<Rightarrow> day list \<Rightarrow> (day \<times> day) option \<Rightarrow>
   projection fg_source \<times> load_result \<Rightarrow> pitcher_projection fg_source \<times> load_result \<Rightarrow> 'doc run_world \<Rightarrow>
   (run_result \<times> run_error option) \<times> 'doc run_world" where
  "run_loaded_systems nrm env cfg opts dates known batting pitching w =
     (let res = \<lparr>rr_HittersNoData = lr_NoData (snd batting), rr_PitchersNoData = lr_NoData (snd pitching)\<rparr>
      in (case alert_phase nrm env cfg opts w of Inl e \<Rightarrow> ((res, Some (Full_roster_failed e)), w)
          | Inr w1 \<Rightarrow>
              (case load_inputs (rn_Inputs env) of Inl (k, e) \<Rightarrow> ((res, Some (Inputs_failed k e)), w1)
               | Inr li \<Rightarrow> ((res, None), run_lineups nrm env cfg opts dates known batting pitching li w1))))"

definition run ::
  "(string \<Rightarrow> string) \<Rightarrow> 'doc run_env \<Rightarrow> run_config \<Rightarrow> run_options \<Rightarrow> 'doc run_world \<Rightarrow> (run_result \<times> run_error option) \<times> 'doc run_world" where
  "run nrm env cfg opts w =
     (case unknown_system opts of Some sys \<Rightarrow> ((no_result, Some (Unknown_system sys)), w)
      | None \<Rightarrow>
          (case resolve_run env cfg opts of
             Stop e \<Rightarrow> ((no_result, None), note_run [e] w)
           | Fail e \<Rightarrow> ((no_result, Some (Dates_failed e)), w)
           | Go dates known \<Rightarrow>
               (case rn_LoadBatting env (ro_HitterSystem opts) of
                  Inl e \<Rightarrow> ((no_result, Some (Batting_unavailable e)), notify_failure (unavailable ''batting'' e) w)
                | Inr batting \<Rightarrow>
                    (case rn_LoadPitching env (ro_PitcherSystem opts) of
                       Inl e \<Rightarrow> ((no_result, Some (Pitching_unavailable e)), notify_failure (unavailable ''pitching'' e) w)
                     | Inr pitching \<Rightarrow> run_loaded_systems nrm env cfg opts dates known batting pitching w))))"

section \<open>What a phase leaves alone\<close>

lemma note_run_simps [simp]:
  "rw_Emit (note_run es w) = rw_Emit w" "rw_ILMarker (note_run es w) = rw_ILMarker w" "rw_FloorMarker (note_run es w) = rw_FloorMarker w"
  "rw_StartRates (note_run es w) = rw_StartRates w"
  by (simp_all add: note_run_def)

lemma alert_phase_frame:
  "alert_phase nrm env cfg opts w = Inr w1 \<Longrightarrow> rw_Emit w1 = rw_Emit w \<and> rw_FloorMarker w1 = rw_FloorMarker w"
  by (auto simp: alert_phase_def Let_def split: if_splits sum.splits prod.splits)

lemma il_dry: "il_DryRun inp \<Longrightarrow> report_il_starts nrm msg flt ok inp m = (m, [])"
  by (simp add: report_il_starts_def case_prod_beta)

lemma alert_phase_il:
  "alert_phase nrm env cfg opts w = Inr w1 \<Longrightarrow> \<not> ro_CheckRoster opts \<or> cf_DryRun cfg \<Longrightarrow> rw_ILMarker w1 = rw_ILMarker w"
  by (auto simp: alert_phase_def Let_def il_dry split: if_splits sum.splits prod.splits)

lemma gs_phase_frame: "rw_Emit (snd (gs_phase nrm env cfg opts idle inp w)) = rw_Emit w"
  by (simp add: gs_phase_def Let_def split: prod.split option.split)

lemma gs_phase_idle: "gs_phase nrm env cfg opts True inp w = (None, note_run [Gs_skipped_idle] w)"
  by (simp add: gs_phase_def)

lemma optimise_phase_frame:
  "rw_Emit (snd (optimise_phase nrm env cfg opts dates known fg fgPit li idle w)) = rw_Emit w"
  by (simp add: optimise_phase_def Let_def case_prod_beta gs_phase_frame)

lemma optimise_phase_idle:
  "rw_FloorMarker (snd (optimise_phase nrm env cfg opts dates known fg fgPit li True w)) = rw_FloorMarker w"
  by (simp add: optimise_phase_def Let_def case_prod_beta gs_phase_idle)

text \<open>Everything the outside sees of a run: the roster, the caches, the messages, the published lineups.\<close>

definition outside :: "'doc run_world \<Rightarrow> apply_call list \<times> int list \<times> string list \<times> (string \<rightharpoonup> string) \<times> marker_world" where
  "outside w = (let e = rw_Emit w in (ew_Calls e, ew_Invalidated e, ew_Notified e, ew_Published e, ew_Marker e))"

lemma outside_capture: "outside (finish_run env True inp w) = outside w"
  by (simp add: finish_run_def outside_def case_prod_beta Let_def)

lemma finish_run_floor [simp]: "rw_FloorMarker (finish_run env idle inp w) = rw_FloorMarker w"
  by (simp add: finish_run_def case_prod_beta)

lemma run_lineups_rest:
  assumes "judge_day env cfg opts dates (season_bounds env known) \<noteq> Playing_day"
  shows "outside (run_lineups nrm env cfg opts dates known batting pitching li w) = outside w \<and>
    rw_FloorMarker (run_lineups nrm env cfg opts dates known batting pitching li w) = rw_FloorMarker w"
proof (cases "judge_day env cfg opts dates (season_bounds env known)")
  case (Idle_day line)
  then show ?thesis
    by (simp add: run_lineups_def Let_def case_prod_beta outside_capture optimise_phase_idle)
      (simp add: outside_def optimise_phase_frame)
qed (use assms in \<open>simp_all add: run_lineups_def outside_def\<close>)

lemma run_loaded_cases:
  "run_loaded_systems nrm env cfg opts dates known batting pitching w = ((res, err), w') \<Longrightarrow>
   err \<noteq> None \<and> rw_Emit w' = rw_Emit w \<and> rw_FloorMarker w' = rw_FloorMarker w \<and>
     (\<forall>x. err \<noteq> Some (Batting_unavailable x) \<and> err \<noteq> Some (Pitching_unavailable x)) \<or>
   err = None \<and> (\<exists>li w1. load_inputs (rn_Inputs env) = Inr li \<and> rw_Emit w1 = rw_Emit w \<and> rw_FloorMarker w1 = rw_FloorMarker w \<and>
     w' = run_lineups nrm env cfg opts dates known batting pitching li w1)"
  unfolding run_loaded_systems_def Let_def
  by (cases "alert_phase nrm env cfg opts w"; cases "load_inputs (rn_Inputs env)") (auto dest: alert_phase_frame)

lemma run_go:
  "unknown_system opts = None \<Longrightarrow> resolve_run env cfg opts = Go dates known \<Longrightarrow>
   rn_LoadBatting env (ro_HitterSystem opts) = Inr batting \<Longrightarrow> rn_LoadPitching env (ro_PitcherSystem opts) = Inr pitching \<Longrightarrow>
   run nrm env cfg opts w = run_loaded_systems nrm env cfg opts dates known batting pitching w"
  by (simp add: run_def)

lemma run_cases:
  assumes "run nrm env cfg opts w = ((res, err), w')"
  obtains (quiet) "rw_Emit w' = rw_Emit w" "rw_FloorMarker w' = rw_FloorMarker w"
      "\<forall>x. err \<noteq> Some (Batting_unavailable x) \<and> err \<noteq> Some (Pitching_unavailable x)"
    | (batting) e where "rn_LoadBatting env (ro_HitterSystem opts) = Inl e" "err = Some (Batting_unavailable e)" "w' = notify_failure (unavailable ''batting'' e) w"
    | (pitching) e where "rn_LoadPitching env (ro_PitcherSystem opts) = Inl e" "err = Some (Pitching_unavailable e)" "w' = notify_failure (unavailable ''pitching'' e) w"
    | (lineups) dates known batting pitching li w1 where "err = None" "resolve_run env cfg opts = Go dates known"
      "rn_LoadBatting env (ro_HitterSystem opts) = Inr batting" "rn_LoadPitching env (ro_PitcherSystem opts) = Inr pitching"
      "load_inputs (rn_Inputs env) = Inr li" "rw_Emit w1 = rw_Emit w" "rw_FloorMarker w1 = rw_FloorMarker w"
      "w' = run_lineups nrm env cfg opts dates known batting pitching li w1"
proof (cases "unknown_system opts")
  case (Some sys)
  then show thesis using assms by (intro quiet) (auto simp: run_def)
next
  case None
  show thesis
  proof (cases "resolve_run env cfg opts")
    case (Stop e)
    then show thesis using assms None by (intro quiet) (auto simp: run_def)
  next
    case (Fail e)
    then show thesis using assms None by (intro quiet) (auto simp: run_def)
  next
    case go: (Go dates known)
    show thesis
    proof (cases "rn_LoadBatting env (ro_HitterSystem opts)")
      case (Inl e)
      then show thesis using assms None go by (intro batting) (auto simp: run_def)
    next
      case bat: (Inr bat)
      show thesis
      proof (cases "rn_LoadPitching env (ro_PitcherSystem opts)")
        case (Inl e)
        then show thesis using assms None go bat by (intro pitching) (auto simp: run_def)
      next
        case pit: (Inr pit)
        have "run_loaded_systems nrm env cfg opts dates known bat pit w = ((res, err), w')"
          using assms run_go [OF None go bat pit] by simp
        then show thesis by (rule run_loaded_cases [THEN disjE]) (use quiet lineups [OF _ go bat pit] in \<open>auto\<close>)
      qed
    qed
  qed
qed

lemma failed_run_il:
  assumes "run nrm env cfg opts w = ((res, Some e), w')"
  shows "rw_ILMarker w' = rw_ILMarker w \<or> (\<exists>k x. e = Inputs_failed k x) \<and> ro_CheckRoster opts \<and> \<not> cf_DryRun cfg"
proof -
  have loaded: "rw_ILMarker w' = rw_ILMarker w \<or> (\<exists>k x. e = Inputs_failed k x) \<and> ro_CheckRoster opts \<and> \<not> cf_DryRun cfg"
    if r: "run_loaded_systems nrm env cfg opts dates known batting pitching w = ((res, Some e), w')" for dates known batting pitching
  proof (cases "alert_phase nrm env cfg opts w")
    case (Inr w1)
    then obtain k x where kx: "load_inputs (rn_Inputs env) = Inl (k, x)"
      using r by (cases "load_inputs (rn_Inputs env)") (auto simp: run_loaded_systems_def Let_def)
    then have "w' = w1" "e = Inputs_failed k x" using r Inr by (auto simp: run_loaded_systems_def Let_def)
    then show ?thesis using alert_phase_il [OF Inr] by blast
  qed (use r in \<open>auto simp: run_loaded_systems_def Let_def\<close>)
  then show ?thesis
    using assms by (auto simp: run_def notify_failure_def split: option.splits run_start.splits sum.splits prod.splits)
qed

section \<open>Days without a lineup, and failed runs\<close>

text \<open>The message of a run that ends because projections cannot be loaded.\<close>

definition load_message :: "run_error option \<Rightarrow> string list" where
  "load_message err = (case err of Some (Batting_unavailable x) \<Rightarrow> [''batting projections unavailable: '' @ x]
     | Some (Pitching_unavailable x) \<Rightarrow> [''pitching projections unavailable: '' @ x] | _ \<Rightarrow> [])"




text \<open>C8. A failed run does nothing to the roster. When a run ends with an error it has made no call to the roster,
  archived and published nothing, and left the alerts on applying and on game starts as they were. Its only
  lineup message is that of the projections that could not be loaded; and only when the inputs fail after the
  roster was checked, and not in a dry run, may it have pushed the starts of players on the injured list.\<close>

theorem failed_run_inert:
  assumes "run nrm env cfg opts w = ((res, Some e), w')"
  shows "rw_Emit w' = (rw_Emit w)\<lparr>ew_Notified := ew_Notified (rw_Emit w) @ load_message (Some e)\<rparr> \<and>
    rw_FloorMarker w' = rw_FloorMarker w \<and>
    (rw_ILMarker w' = rw_ILMarker w \<or> (\<exists>k x. e = Inputs_failed k x) \<and> ro_CheckRoster opts \<and> \<not> cf_DryRun cfg)"
proof -
  have il: "rw_ILMarker w' = rw_ILMarker w \<or> (\<exists>k x. e = Inputs_failed k x) \<and> ro_CheckRoster opts \<and> \<not> cf_DryRun cfg"
    using failed_run_il [OF assms] .
  show ?thesis
    using assms
  proof (cases rule: run_cases)
    case quiet
    then have "load_message (Some e) = []" by (auto simp: load_message_def split: run_error.split)
    then show ?thesis using quiet il by simp
  qed (use il in \<open>simp_all add: load_message_def notify_failure_def unavailable_def\<close>)
qed

text \<open>The error of the inputs is the first in the order of the list, whatever came back first.\<close>

lemma first_error_iff:
  "first_error rs = Some (k, e) \<longleftrightarrow> (\<exists>ok rest. rs = ok @ (k, Some e) # rest \<and> (\<forall>r \<in> set ok. snd r = None))"
proof (induction rs)
  case (Cons r rs)
  obtain k' o' where r: "r = (k', o')" by (rule prod.exhaust)
  show ?case
  proof (cases o')
    case None
    have "(\<exists>ok rest. r # rs = ok @ (k, Some e) # rest \<and> (\<forall>r \<in> set ok. snd r = None)) \<longleftrightarrow>
        (\<exists>ok rest. rs = ok @ (k, Some e) # rest \<and> (\<forall>r \<in> set ok. snd r = None))" (is "?l \<longleftrightarrow> ?r")
    proof
      assume ?l
      then obtain ok rest where ok: "r # rs = ok @ (k, Some e) # rest" "\<forall>r \<in> set ok. snd r = None" by blast
      then show ?r by (cases ok) (auto simp: None r)
    next
      assume ?r
      then obtain ok rest where "rs = ok @ (k, Some e) # rest" "\<forall>r \<in> set ok. snd r = None" by blast
      then have "r # rs = (r # ok) @ (k, Some e) # rest \<and> (\<forall>r \<in> set (r # ok). snd r = None)" by (simp add: None r)
      then show ?l by blast
    qed
    moreover have "first_error (r # rs) = first_error rs" by (simp add: first_error_def r None)
    ultimately show ?thesis using Cons.IH by simp
  next
    case (Some x)
    have "first_error (r # rs) = Some (k', x)" by (simp add: first_error_def r Some)
    moreover have "(\<exists>ok rest. r # rs = ok @ (k, Some e) # rest \<and> (\<forall>r \<in> set ok. snd r = None)) \<longleftrightarrow> k' = k \<and> x = e" (is "?l \<longleftrightarrow> ?r")
    proof
      assume ?l
      then obtain ok rest where ok: "r # rs = ok @ (k, Some e) # rest" "\<forall>r \<in> set ok. snd r = None" by blast
      then show ?r by (cases ok) (auto simp: Some r)
    next
      assume ?r
      then have "r # rs = [] @ (k, Some e) # rs" by (simp add: Some r)
      then show ?l by (metis empty_iff list.set(1))
    qed
    ultimately show ?thesis by simp
  qed
qed (simp add: first_error_def)

section \<open>What a run writes to the roster\<close>

lemma run_lineups_calls:
  "\<exists>inp. ei_DryRun inp = cf_DryRun cfg \<and> ei_AutoApply inp = cf_AutoApply cfg \<and>
     set (ei_Results inp) \<subseteq> set (fst (optimise_phase nrm env cfg opts dates known (fst batting) (fst pitching) li False w)) \<and>
     ew_Calls (rw_Emit (run_lineups nrm env cfg opts dates known batting pitching li w)) =
       ew_Calls (rw_Emit w) @ map (call_of inp) (filter (to_apply inp) (ei_Results inp))"
proof (cases "judge_day env cfg opts dates (season_bounds env known)")
  case Playing_day
  let ?p = "optimise_phase nrm env cfg opts dates known (fst batting) (fst pitching) li False w"
  let ?inp = "emit_inputs_of cfg opts li (snd batting) (snd pitching) (fst ?p)"
  have "run_lineups nrm env cfg opts dates known batting pitching li w = finish_run env False ?inp (snd ?p)"
    by (simp add: run_lineups_def Playing_day case_prod_beta)
  then have "ew_Calls (rw_Emit (run_lineups nrm env cfg opts dates known batting pitching li w)) =
      ew_Calls (rw_Emit w) @ map (call_of ?inp) (filter (to_apply ?inp) (ei_Results ?inp))"
    by (simp add: finish_run_def emit_calls optimise_phase_frame)
  then show ?thesis by (intro exI [of _ ?inp]) (simp add: emit_inputs_of_def)
next
  case (Off_season e)
  let ?inp = "emit_inputs_of cfg opts li (snd batting) (snd pitching) []"
  have "outside (run_lineups nrm env cfg opts dates known batting pitching li w) = outside w"
    by (rule run_lineups_rest [THEN conjunct1]) (simp add: Off_season)
  then show ?thesis by (intro exI [of _ ?inp]) (simp add: emit_inputs_of_def outside_def Let_def)
next
  case (Idle_day e)
  let ?inp = "emit_inputs_of cfg opts li (snd batting) (snd pitching) []"
  have "outside (run_lineups nrm env cfg opts dates known batting pitching li w) = outside w"
    by (rule run_lineups_rest [THEN conjunct1]) (simp add: Idle_day)
  then show ?thesis by (intro exI [of _ ?inp]) (simp add: emit_inputs_of_def outside_def Let_def)
qed

text \<open>C7. No lineup is written without consent. A dry run, and a run of a tenant who has not turned on
  automatic changes, makes no call to the roster on any path.\<close>

theorem run_needs_consent:
  assumes "cf_DryRun cfg \<or> \<not> cf_AutoApply cfg"
  shows "ew_Calls (rw_Emit (snd (run nrm env cfg opts w))) = ew_Calls (rw_Emit w)"
proof -
  obtain res err w' where r: "run nrm env cfg opts w = ((res, err), w')" by (metis surj_pair)
  have "ew_Calls (rw_Emit w') = ew_Calls (rw_Emit w)"
    using r
  proof (cases rule: run_cases)
    case (lineups dates known batting pitching li w1)
    obtain inp where "ei_DryRun inp = cf_DryRun cfg" "ei_AutoApply inp = cf_AutoApply cfg"
      "ew_Calls (rw_Emit w') = ew_Calls (rw_Emit w1) @ map (call_of inp) (filter (to_apply inp) (ei_Results inp))"
      using run_lineups_calls [of cfg nrm env opts dates known batting pitching li w1] lineups(8) by blast
    moreover from this have "\<not> to_apply inp dr" for dr using assms by (auto simp: to_apply_def)
    ultimately show ?thesis using lineups(6) by simp
  qed (simp_all add: notify_failure_def)
  then show ?thesis by (simp add: r)
qed

lemma gs_phase_dry: "cf_DryRun cfg \<Longrightarrow> rw_FloorMarker (snd (gs_phase nrm env cfg opts idle inp w)) = rw_FloorMarker w"
  by (simp add: gs_phase_def report_gs_floor_def Let_def split: prod.split option.split)

lemma phases_il [simp]:
  "rw_ILMarker (snd (gs_phase nrm env cfg opts idle inp w)) = rw_ILMarker w"
  "rw_ILMarker (snd (optimise_phase nrm env cfg opts dates known fg fgPit li idle w)) = rw_ILMarker w"
  "rw_ILMarker (finish_run env idle einp w) = rw_ILMarker w"
  by (simp_all add: gs_phase_def optimise_phase_def finish_run_def Let_def case_prod_beta split: prod.split option.split)

lemma run_lineups_il: "rw_ILMarker (run_lineups nrm env cfg opts dates known batting pitching li w) = rw_ILMarker w"
  by (simp add: run_lineups_def Let_def case_prod_beta split: day_verdict.split)

lemma dry_run_il:
  assumes "cf_DryRun cfg" and "run nrm env cfg opts w = ((res, err), w')"
  shows "rw_ILMarker w' = rw_ILMarker w"
proof -
  have "rw_ILMarker w' = rw_ILMarker w"
    if "run_loaded_systems nrm env cfg opts dates known batting pitching w = ((res, err), w')" for dates known batting pitching
    using that alert_phase_il [of nrm env cfg opts w] assms(1)
    by (cases "alert_phase nrm env cfg opts w"; cases "load_inputs (rn_Inputs env)")
       (auto simp: run_loaded_systems_def Let_def run_lineups_il)
  then show ?thesis
    using assms(2) by (auto simp: run_def notify_failure_def split: option.splits run_start.splits sum.splits prod.splits)
qed

lemma run_lineups_dry:
  assumes "cf_DryRun cfg" and "\<not> ro_PublishLineupFlag opts"
  defines "w' nrm env dates known batting pitching li w \<equiv> run_lineups nrm env cfg opts dates known batting pitching li w"
  shows "ew_Calls (rw_Emit (w' nrm env dates known batting pitching li w)) = ew_Calls (rw_Emit w) \<and>
    ew_Invalidated (rw_Emit (w' nrm env dates known batting pitching li w)) = ew_Invalidated (rw_Emit w) \<and>
    ew_Notified (rw_Emit (w' nrm env dates known batting pitching li w)) = ew_Notified (rw_Emit w) \<and>
    ew_Marker (rw_Emit (w' nrm env dates known batting pitching li w)) = ew_Marker (rw_Emit w) \<and>
    (key \<noteq> preview_key \<longrightarrow> ew_Published (rw_Emit (w' nrm env dates known batting pitching li w)) key = ew_Published (rw_Emit w) key) \<and>
    rw_FloorMarker (w' nrm env dates known batting pitching li w) = rw_FloorMarker w"
proof (cases "judge_day env cfg opts dates (season_bounds env known)")
  case Playing_day
  let ?p = "optimise_phase nrm env cfg opts dates known (fst batting) (fst pitching) li False w"
  let ?inp = "emit_inputs_of cfg opts li (snd batting) (snd pitching) (fst ?p)"
  have "ei_DryRun ?inp" "\<not> ei_PublishLineup ?inp" using assms(1,2) by (simp_all add: emit_inputs_of_def)
  note emit = emit_dry_run [OF this, of "rn_Emit env" "rw_Emit w" key]
  have "rw_FloorMarker (snd ?p) = rw_FloorMarker w"
    by (simp add: optimise_phase_def Let_def case_prod_beta gs_phase_dry [OF assms(1)])
  then show ?thesis
    using emit by (simp add: w'_def run_lineups_def Playing_day case_prod_beta finish_run_def optimise_phase_frame)
next
  case (Off_season e)
  then show ?thesis using run_lineups_rest [of env cfg opts dates known] by (simp add: w'_def outside_def Let_def)
next
  case (Idle_day e)
  then show ?thesis using run_lineups_rest [of env cfg opts dates known] by (simp add: w'_def outside_def Let_def)
qed

text \<open>C34. A dry run touches nothing that counts. Without the explicit request to publish, a run with the dry-run
  setting makes no call to the roster, invalidates no cache, leaves every published lineup but the preview and
  all three kinds of alert markers as they were, and sends no lineup message, except that of projections that cannot
  be loaded. That one, and the alert on a limit of game starts that cannot be read, are sent in a dry run too.\<close>

theorem dry_run_inert:
  assumes "cf_DryRun cfg" and "\<not> ro_PublishLineupFlag opts" and "run nrm env cfg opts w = ((res, err), w')"
  shows "ew_Calls (rw_Emit w') = ew_Calls (rw_Emit w) \<and> ew_Invalidated (rw_Emit w') = ew_Invalidated (rw_Emit w) \<and>
    ew_Notified (rw_Emit w') = ew_Notified (rw_Emit w) @ load_message err \<and> ew_Marker (rw_Emit w') = ew_Marker (rw_Emit w) \<and>
    (key \<noteq> preview_key \<longrightarrow> ew_Published (rw_Emit w') key = ew_Published (rw_Emit w) key) \<and>
    rw_FloorMarker w' = rw_FloorMarker w \<and> rw_ILMarker w' = rw_ILMarker w"
proof -
  have il: "rw_ILMarker w' = rw_ILMarker w" using dry_run_il [OF assms(1,3)] .
  show ?thesis
    using assms(3)
  proof (cases rule: run_cases)
    case (lineups dates known batting pitching li w1)
    then show ?thesis
      using run_lineups_dry [OF assms(1,2), of nrm env dates known batting pitching li w1 key] il by (simp add: load_message_def)
  next
    case quiet
    then have "load_message err = []" by (auto simp: load_message_def split: option.split run_error.split)
    then show ?thesis using quiet il by simp
  qed (use il in \<open>simp_all add: load_message_def notify_failure_def unavailable_def\<close>)
qed

text \<open>Every result comes from its date and some state of the shared rosters; today's from their first state.\<close>

lemma dates_in_order_source:
  assumes "dates_in_order step dates order shared results i = Some r"
  shows "results i = Some r \<or> i \<in> set order \<and> (\<exists>sh. r = fst (step (dates ! i) sh))"
  using assms
proof (induction order arbitrary: shared results)
  case (Cons j order)
  obtain q sh' where st: "step (dates ! j) shared = (q, sh')" by (rule prod.exhaust)
  then have q: "q = fst (step (dates ! j) shared)" by simp
  have "dates_in_order step dates order sh' (results(j \<mapsto> q)) i = Some r" using Cons.prems st by simp
  from Cons.IH [OF this] show ?case using q by (auto split: if_splits simp del: split_paired_Ex split_paired_All)
qed simp

lemma dates_in_order_first:
  assumes "distinct order" and "\<And>i sh. i \<in> set order \<Longrightarrow> i \<noteq> k \<Longrightarrow> snd (step (dates ! i) sh) = sh" and "k \<in> set order"
  shows "dates_in_order step dates order shared results k = Some (fst (step (dates ! k) shared))"
  using assms
proof (induction order arbitrary: results)
  case (Cons j order)
  obtain q sh' where st: "step (dates ! j) shared = (q, sh')" by (rule prod.exhaust)
  show ?case
  proof (cases "j = k")
    case True
    have "dates_in_order step dates order sh' results' k = results' k" if "k \<notin> set order" for results'
      using that by (induction order arbitrary: sh' results') (simp_all split: prod.split)
    then show ?thesis using True st Cons.prems(1) by simp
  next
    case False
    have "sh' = shared" using Cons.prems(2) [of j shared] False st by simp
    moreover have "dates_in_order step dates order shared (results(j \<mapsto> q)) k = Some (fst (step (dates ! k) shared))"
      by (rule Cons.IH) (use Cons.prems False in \<open>auto\<close>)
    ultimately show ?thesis using st by simp
  qed
qed simp

lemma one_date_labels:
  "dr_IsToday (fst (optimize_one_date nrm c inp date sh)) \<longleftrightarrow> date = oi_Today inp"
  "dr_Period (fst (optimize_one_date nrm c inp date sh)) = date_period c (oi_SeasonStart inp) date"
  "date \<noteq> oi_Today inp \<Longrightarrow> snd (optimize_one_date nrm c inp date sh) = sh"
  by (simp_all add: optimize_one_date_def Let_def case_prod_beta)

lemma todays_result:
  assumes "Some r \<in> set (optimize_dates nrm c inp dates order shared)" and "distinct dates" and "mset order = mset [0..<length dates]"
  shows "\<exists>date \<in> set dates. dr_Period r = date_period c (oi_SeasonStart inp) date \<and>
    (date = oi_Today inp \<longrightarrow> r = fst (optimize_one_date nrm c inp date shared))"
proof -
  let ?step = "optimize_one_date nrm c inp"
  have set: "set order = {..<length dates}" by (simp add: mset_eq_setD [OF assms(3)] atLeast0LessThan)
  have dist: "distinct order" by (simp add: mset_eq_imp_distinct_iff [OF assms(3)])
  obtain i where i: "i < length dates" "dates_in_order ?step dates order shared Map.empty i = Some r"
    using assms(1) by (auto simp: optimize_dates_def)
  obtain sh where r: "r = fst (?step (dates ! i) sh)" using dates_in_order_source [OF i(2)] by auto
  have "r = fst (?step (dates ! i) shared)" if today: "dates ! i = oi_Today inp"
  proof -
    have "snd (?step (dates ! j) sh) = sh" if "j \<in> set order" "j \<noteq> i" for j sh
      by (rule one_date_labels(3)) (use that set i(1) assms(2) today in \<open>auto simp: nth_eq_iff_index_eq simp flip: today\<close>)
    then have "dates_in_order ?step dates order shared Map.empty i = Some (fst (?step (dates ! i) shared))"
      by (intro dates_in_order_first dist) (use set i(1) in \<open>auto\<close>)
    then show ?thesis using i(2) by simp
  qed
  then show ?thesis using i(1) r by (intro bexI [of _ "dates ! i"]) (auto simp: one_date_labels(2))
qed

lemma todays_moves_in_rosters:
  assumes "optimize_one_date nrm c inp (oi_Today inp) (hs, ps) = (r, shared')" and "distinct (map p_ID hs)" "distinct (map p_ID ps)"
  shows "set (or_ToBench (dr_Hitters r)) \<union> ps_PlayerID ` set (or_ToActivate (dr_Hitters r)) \<subseteq> p_ID ` set hs"
    "set (pr_ToBench (dr_Pitchers r)) \<union> ps_PlayerID ` set (pr_ToActivate (dr_Pitchers r)) \<subseteq> p_ID ` set ps"
proof -
  obtain hs' ps' where w: "with_locks (dc_LockedTeams c (oi_Today inp)) (hs, ps) = (hs', ps')" by (rule prod.exhaust)
  have ids: "map p_ID hs' = map p_ID hs" "map p_ID ps' = map p_ID ps"
    using w by (auto simp: with_locks_def split: option.splits)
  have set_ids: "p_ID ` set hs' = p_ID ` set hs" "p_ID ` set ps' = p_ID ` set ps"
    unfolding set_map [symmetric] by (simp_all only: ids)
  obtain f where run: "(dr_Hitters r, dr_Pitchers r) = run_optimizers nrm inp True f (hs', ps')"
    using today_result [OF refl assms(1)] w by auto
  have d: "distinct (map p_ID hs')" "distinct (map p_ID ps')" using assms(2,3) ids by simp_all
  have sub: "active_ids roster \<subseteq> p_ID ` set roster" for roster by (auto simp: active_ids_def)
  have "proper_moves hs' (or_ToActivate (dr_Hitters r)) (or_ToBench (dr_Hitters r))"
    "proper_moves ps' (pr_ToActivate (dr_Pitchers r)) (pr_ToBench (dr_Pitchers r))"
    using run hitter_moves [OF d(1)] pitcher_moves [OF d(2)] by (auto simp: run_optimizers_def Let_def)
  then show "set (or_ToBench (dr_Hitters r)) \<union> ps_PlayerID ` set (or_ToActivate (dr_Hitters r)) \<subseteq> p_ID ` set hs"
    "set (pr_ToBench (dr_Pitchers r)) \<union> ps_PlayerID ` set (pr_ToActivate (dr_Pitchers r)) \<subseteq> p_ID ` set ps"
    using sub [of hs'] sub [of ps'] by (auto simp: proper_moves_def set_ids)
qed

lemma todays_call_keeps_started:
  assumes "r = fst (optimize_one_date nrm c inp (oi_Today inp) (hs, ps))" and "dc_LockedTeams c (oi_Today inp) = Some l"
    and d: "distinct (map p_ID (hs @ ps))" and p: "p \<in> set (hs @ ps)" "p_Status p = ''Active''" "l (p_MLBTeam p)"
  shows "p_ID p \<notin> ps_PlayerID ` set (dp_Activate (plan_date r names)) \<union> set (dp_Bench (plan_date r names))"
proof -
  obtain sh where r: "optimize_one_date nrm c inp (oi_Today inp) (hs, ps) = (r, sh)" using assms(1) by (metis prod.collapse)
  have dd: "distinct (map p_ID hs)" "distinct (map p_ID ps)" "p_ID ` set hs \<inter> p_ID ` set ps = {}" using d by auto
  have stay: "p \<in> set hs \<longrightarrow> p_ID p \<notin> set (or_ToBench (dr_Hitters r)) \<union> ps_PlayerID ` set (or_ToActivate (dr_Hitters r))"
    "p \<in> set ps \<longrightarrow> p_ID p \<notin> set (pr_ToBench (dr_Pitchers r)) \<union> ps_PlayerID ` set (pr_ToActivate (dr_Pitchers r))"
    using started_stays [OF r assms(2) dd(1,2) p(2,3)] by simp_all
  have other: "p \<in> set hs \<longrightarrow> p_ID p \<notin> p_ID ` set ps" "p \<in> set ps \<longrightarrow> p_ID p \<notin> p_ID ` set hs" using dd(3) by blast+
  have acts: "set (dp_Bench (plan_date r names)) \<union> ps_PlayerID ` set (dp_Activate (plan_date r names)) =
      (set (or_ToBench (dr_Hitters r)) \<union> ps_PlayerID ` set (or_ToActivate (dr_Hitters r))) \<union>
      (set (pr_ToBench (dr_Pitchers r)) \<union> ps_PlayerID ` set (pr_ToActivate (dr_Pitchers r)))"
    by (simp only: plan_unfolds(1,2) set_append image_Un) (simp only: Un_ac)
  show ?thesis
    unfolding Un_commute [of "ps_PlayerID ` _"] acts
    using stay other p(1) subsetD [OF todays_moves_in_rosters(1) [OF r dd(1,2)]] subsetD [OF todays_moves_in_rosters(2) [OF r dd(1,2)]]
    by (simp only: set_append Un_iff) blast
qed

text \<open>The opener as the dates see it: zero when the season is unknown.\<close>

definition opener_of :: "(day \<times> day) option \<Rightarrow> day" where
  "opener_of bounds = (case bounds of Some (s, _) \<Rightarrow> s | None \<Rightarrow> 0)"

lemma phase_results:
  assumes "r \<in> set (fst (optimise_phase nrm env cfg opts dates known fg fgPit li idle w))"
  obtains inp where "oi_Today inp = ro_Today opts" "oi_SeasonStart inp = opener_of (season_bounds env known)"
    "Some r \<in> set (optimize_dates nrm (date_clients_of env) inp dates (rn_Order env) (xi_HitterRoster li, xi_PitcherRoster li))"
proof -
  obtain bl budget where "Some r \<in> set (optimize_dates nrm (date_clients_of env)
      (optimize_inputs_of env opts (season_bounds env known) fg fgPit li bl budget) dates
      (rn_Order env) (xi_HitterRoster li, xi_PitcherRoster li))"
    using assms by (auto simp: optimise_phase_def Let_def case_prod_beta map_filter_def)
  then show thesis by (rule that [rotated 2]) (simp_all add: optimize_inputs_of_def opener_of_def case_prod_beta)
qed

text \<open>The periods count the days from the opener. When the opener is known and the map of the season, where it
  answers, agrees with the count, every date has a period of its own; when the opener is unknown the count
  saturates, and every date has the same period.\<close>

lemma period_counts_days:
  assumes "\<bar>d - start\<bar> \<le> 106751"
    and "case dc_PeriodMap c start d of None \<Rightarrow> True | Some m \<Rightarrow> m d = None \<or> m d = Some (1 + (d - start))"
  shows "date_period c start d = 1 + (d - start)"
  using assms by (auto simp: date_period_def daily_period_for_def period_for_date_def sub_days_def split: option.splits)

lemma unknown_opener_one_period:
  assumes "106751 \<le> d" and "dc_PeriodMap c (opener_of None) d = None"
  shows "date_period c (opener_of None) d = 106752"
  using assms by (simp add: date_period_def daily_period_for_def period_for_date_def sub_days_def opener_of_def)

text \<open>C2. A run never moves a player whose game has started. Whatever the order in which its dates get to the
  shared rosters, a run over different dates that loaded rosters without repeated ids, could read today's locks,
  and in which no other date has today's scoring period, makes no call for that period that activates, moves or
  benches an active player of a team whose game has begun. Other dates have other periods when the opener is known
  and Fantrax's own list of periods, where it has the date, counts the days from it too; when the opener is not
  known they may share one, and a later date's call is not covered.\<close>

theorem run_keeps_started:
  assumes "run nrm env cfg opts w = ((res, err), w')"
    and "resolve_run env cfg opts = Go dates known" and "distinct dates" and "mset (rn_Order env) = mset [0..<length dates]"
    and "\<forall>d \<in> set dates. date_period (rn_DateClients env) (opener_of (season_bounds env known)) d =
      date_period (rn_DateClients env) (opener_of (season_bounds env known)) (ro_Today opts) \<longrightarrow> d = ro_Today opts"
    and "load_inputs (rn_Inputs env) = Inr li" and "distinct (map p_ID (xi_HitterRoster li @ xi_PitcherRoster li))"
    and "dc_LockedTeams (rn_DateClients env) (ro_Today opts) = Some l"
    and "p \<in> set (xi_HitterRoster li @ xi_PitcherRoster li)" and "p_Status p = ''Active''" and "l (p_MLBTeam p)"
  shows "\<exists>calls. ew_Calls (rw_Emit w') = ew_Calls (rw_Emit w) @ calls \<and>
    (\<forall>(period, acts, bench) \<in> set calls.
       period = date_period (rn_DateClients env) (opener_of (season_bounds env known)) (ro_Today opts) \<longrightarrow>
       p_ID p \<notin> ps_PlayerID ` set acts \<union> set bench)"
  using assms(1)
proof (cases rule: run_cases)
  case (lineups dates' known' batting pitching li' w1)
  have same: "dates' = dates" "known' = known" "li' = li" using lineups(2,5) assms(2,6) by simp_all
  let ?per = "date_period (rn_DateClients env) (opener_of (season_bounds env known))"
  obtain inp where inp: "set (ei_Results inp) \<subseteq> set (fst (optimise_phase nrm env cfg opts dates known (fst batting) (fst pitching) li False w1))"
    "ew_Calls (rw_Emit w') = ew_Calls (rw_Emit w) @ map (call_of inp) (filter (to_apply inp) (ei_Results inp))"
    using run_lineups_calls [of cfg nrm env opts dates known batting pitching li w1] lineups(6,8) unfolding same by auto
  have "p_ID p \<notin> ps_PlayerID ` set (dp_Activate (plan_date r names)) \<union> set (dp_Bench (plan_date r names))"
    if r: "r \<in> set (ei_Results inp)" and per: "dr_Period r = ?per (ro_Today opts)" for r names
  proof -
    have "r \<in> set (fst (optimise_phase nrm env cfg opts dates known (fst batting) (fst pitching) li False w1))"
      using r inp(1) by (rule rev_subsetD)
    then obtain oi where oi: "oi_Today oi = ro_Today opts" "oi_SeasonStart oi = opener_of (season_bounds env known)"
      "Some r \<in> set (optimize_dates nrm (date_clients_of env) oi dates (rn_Order env) (xi_HitterRoster li, xi_PitcherRoster li))"
      by (rule phase_results)
    obtain date where date: "date \<in> set dates" "dr_Period r = ?per date"
      "date = oi_Today oi \<longrightarrow> r = fst (optimize_one_date nrm (date_clients_of env) oi date (xi_HitterRoster li, xi_PitcherRoster li))"
      using todays_result [OF oi(3) assms(3,4)] oi(2) by (auto simp: date_clients_of_def date_period_def)
    have "date = ro_Today opts" using assms(5) date(1,2) per by simp
    then have "r = fst (optimize_one_date nrm (date_clients_of env) oi (oi_Today oi) (xi_HitterRoster li, xi_PitcherRoster li))"
      using date(3) oi(1) by simp
    then show ?thesis
      by (rule todays_call_keeps_started [where l = l, OF _ _ assms(7,9,10,11)]) (simp add: date_clients_of_def oi(1) assms(8))
  qed
  then show ?thesis
    by (intro exI [of _ "map (call_of inp) (filter (to_apply inp) (ei_Results inp))"] conjI inp(2))
       (auto simp: call_of_def Let_def)
qed (simp_all add: notify_failure_def)

section \<open>Concrete runs\<close>

text \<open>The run of day 0 for the roster of the one outfielder whose game has started. The season is days 0 to
  100, the hitters' projections load or not, and every other read fails.\<close>

definition demo_recent :: recent_client where
  "demo_recent = \<lparr>rc_SeasonDateRange = Inl ''down'', rc_DailyFantasyPoints = (\<lambda>_ _ _. Inl ''down''),
     rc_MLBDailyFPts = (\<lambda>_ _ _. Inl ''down''), rc_RecentPitcherStats = (\<lambda>_. Inl ''down'')\<rparr>"

definition demo_gs :: gs_client where
  "demo_gs = \<lparr>gc_MatchupWeekBounds = (\<lambda>_ _. Inl ''down''), gc_TeamGS = (\<lambda>_ _ _. Inl ''down''), gc_GSLimits = (\<lambda>_. Inl ''down''),
     gc_PitcherDaysWithStatus = (\<lambda>_ _ _. Inl ''down'')\<rparr>"

definition demo_inputs :: inputs_client where
  "demo_inputs = \<lparr>xc_HitterRoster = Inr [run_hitter], xc_ActiveSlots = Inr [], xc_ScoringWeights = Inr Map.empty,
     xc_PitcherRoster = Inr [], xc_PitcherSlots = Inr [], xc_PitcherScoringWeights = Inr Map.empty,
     xc_CurrentPeriod = Inl ''down'', xc_ScoringPeriods = Inl ''down''\<rparr>"

definition demo_load :: load_result where
  "demo_load = \<lparr>lr_System = ''steamer'', lr_FellBack = False, lr_FromCSV = False, lr_NoData = False, lr_FetchedAt = 0\<rparr>"

definition demo_run_env :: "bool \<Rightarrow> snapshot run_env" where
  "demo_run_env loads = \<lparr>rn_Season = Inr (0, 100), rn_Weeks = (\<lambda>_ _. Inl ''down''), rn_Bracket = Inl ''down'',
     rn_LoadBatting = (\<lambda>_. if loads then Inr (empty_source, demo_load) else Inl ''down''),
     rn_LoadPitching = (\<lambda>_. Inr (empty_source, demo_load)), rn_FullRoster = Inl ''down'', rn_Inputs = demo_inputs,
     rn_Recent = demo_recent, rn_Handedness = (\<lambda>_. Inl ''down''), rn_GS = demo_gs,
     rn_Schedule = \<lparr>sd_TeamsPlayingOn = (\<lambda>_. Inl ''down''), sd_ProbableStarters = (\<lambda>_. Inl ''down'')\<rparr>,
     rn_DateClients = run_clients None, rn_Order = [0], rn_Emit = demo_env, rn_ILMessage = (\<lambda>_. ''il''), rn_ILFaults = healthy,
     rn_FloorText = (\<lambda>_. ''floor''), rn_FloorFaults = healthy, rn_NotifyOk = (\<lambda>_. True)\<rparr>"

definition demo_config :: "day \<Rightarrow> bool \<Rightarrow> run_config" where
  "demo_config day dry = \<lparr>cf_TeamID = ''t'', cf_Dates = [day], cf_DryRun = dry, cf_AutoApply = True, cf_ILSlots = 0, cf_MinorsSlots = 0,
     cf_BlendMinGP = 5, cf_GSTrackingEnabled = False\<rparr>"

definition demo_options :: run_options where
  "demo_options = \<lparr>ro_Today = 0, ro_NeedsSeasonLookup = False, ro_NeedsMatchupLookup = False, ro_HitterSystem = ''steamer'',
     ro_PitcherSystem = ''steamer'', ro_CheckRoster = False, ro_ShowPipeline = False, ro_WriteSnapshots = True, ro_HasSnapshotStore = True,
     ro_SnapshotRoot = ''snapshots'', ro_PublishLineupFlag = False, ro_HasPublisher = True, ro_HasILMarkers = True,
     ro_HasFloorMarkers = True, ro_HasApplyFailMarkers = True\<rparr>"

definition demo_run_world :: "snapshot run_world" where
  "demo_run_world = \<lparr>rw_Emit = demo_world, rw_ILMarker = ew_Marker demo_world, rw_FloorMarker = ew_Marker demo_world,
     rw_StartRates = None, rw_Out = []\<rparr>"

lemma demo_resolves: "resolve_run (demo_run_env loads) (demo_config day dry) demo_options = Go [day] None"
  by (simp add: resolve_run_def resolve_dates_def demo_options_def demo_config_def)


lemma demo_systems: "unknown_system demo_options = None"
  by (simp add: unknown_system_def demo_options_def set_projection_system_def fg_projection_type_def)


theorem failed_run_inert_witness:
  "ew_Notified (rw_Emit (snd (run (\<lambda>s. s) (demo_run_env False) (demo_config 0 False) demo_options demo_run_world))) =
     [''batting projections unavailable: down'']"
proof -
  let ?r = "run (\<lambda>s. s) (demo_run_env False) (demo_config 0 False) demo_options demo_run_world"
  have "?r = ((no_result, Some (Batting_unavailable ''down'')), snd ?r)"
    by (simp add: run_def demo_systems demo_resolves) (simp add: demo_run_env_def)
  from failed_run_inert [OF this] show ?thesis by (simp add: demo_run_world_def demo_world_def load_message_def)
qed

theorem dry_run_inert_witness:
  "ew_Published (rw_Emit (snd (run (\<lambda>s. s) (demo_run_env True) (demo_config 0 True) demo_options demo_run_world))) today_key =
     Some ''applied lineup''"
proof -
  let ?r = "run (\<lambda>s. s) (demo_run_env True) (demo_config 0 True) demo_options demo_run_world"
  have "?r = ((fst (fst ?r), snd (fst ?r)), snd ?r)" by simp
  from dry_run_inert [OF _ _ this, of today_key] show ?thesis
    by (simp add: demo_config_def demo_options_def) (simp add: demo_run_world_def demo_world_def)
qed

theorem run_needs_consent_witness:
  "ew_Calls (rw_Emit (snd (run (\<lambda>s. s) (demo_run_env True) (demo_config 0 True) demo_options demo_run_world))) = []"
  using run_needs_consent [of "demo_config 0 True" "\<lambda>s. s" "demo_run_env True" demo_options demo_run_world]
  by (simp add: demo_config_def demo_run_world_def demo_world_def)

text \<open>Today and tomorrow, tomorrow first.\<close>

definition two_dates :: "snapshot run_env" where
  "two_dates = (demo_run_env True)\<lparr>rn_Order := [1, 0]\<rparr>"

definition two_dates_config :: run_config where
  "two_dates_config = (demo_config 0 False)\<lparr>cf_Dates := [0, 1]\<rparr>"

theorem run_keeps_started_witness:
  "\<not> (\<exists>(period, acts, bench) \<in> set (ew_Calls (rw_Emit (snd (run (\<lambda>s. s) two_dates two_dates_config demo_options
     demo_run_world)))). period = 1 \<and> ''x'' \<in> set bench)"
proof -
  obtain li where li: "load_inputs (rn_Inputs two_dates) = Inr li" "xi_HitterRoster li = [run_hitter]" "xi_PitcherRoster li = []"
    by (simp add: load_inputs_def first_error_def fatal_reads_def err_of_def value_or_def two_dates_def demo_run_env_def demo_inputs_def)
  have p: "p_ID run_hitter = ''x''" "p_Status run_hitter = ''Active''" "p_MLBTeam run_hitter = ''NYY''"
    by (simp_all add: run_hitter_def demo_player_def)
  have dates: "resolve_run two_dates two_dates_config demo_options = Go [0, 1] None"
    by (simp add: resolve_run_def resolve_dates_def demo_options_def two_dates_config_def)
  have "season_bounds two_dates None = Some (0, 100)"
    by (simp add: season_bounds_def right_of_def two_dates_def demo_run_env_def)
  then have opener: "opener_of (season_bounds two_dates None) = 0" by (simp add: opener_of_def)
  have per: "date_period (rn_DateClients two_dates) 0 0 = 1" "date_period (rn_DateClients two_dates) 0 1 = 2"
    by (simp_all add: period_counts_days two_dates_def demo_run_env_def run_clients_def)
  have locks: "dc_LockedTeams (rn_DateClients two_dates) 0 = Some (\<lambda>t. t = ''NYY'')"
    by (simp add: two_dates_def demo_run_env_def run_clients_def)
  have order: "mset (rn_Order two_dates) = mset [0..<length [0, 1 :: day]]" by (simp add: two_dates_def)
  have today: "ro_Today demo_options = 0" by (simp add: demo_options_def)
  obtain res err w' where r: "run (\<lambda>s. s) two_dates two_dates_config demo_options demo_run_world = ((res, err), w')" by (metis surj_pair)
  have "\<exists>calls. ew_Calls (rw_Emit w') = ew_Calls (rw_Emit demo_run_world) @ calls \<and>
    (\<forall>(period, acts, bench) \<in> set calls. period = 1 \<longrightarrow> p_ID run_hitter \<notin> ps_PlayerID ` set acts \<union> set bench)"
    using run_keeps_started [OF r dates _ order _ li(1), of "\<lambda>t. t = ''NYY''" run_hitter]
    unfolding today opener locks li(2,3) per using p by (simp add: per)
  moreover have "ew_Calls (rw_Emit demo_run_world) = []" by (simp add: demo_run_world_def demo_world_def)
  ultimately have "\<forall>(period, acts, bench) \<in> set (ew_Calls (rw_Emit w')). period = 1 \<longrightarrow> ''x'' \<notin> set bench"
    by (auto simp: p(1))
  then show ?thesis unfolding r by auto
qed

end
