(* ===== verification/Spec2Isabelle.thy ===== *)
theory Spec2Isabelle
  imports Scoring Pitcher_Optimizer Apply_Lineup Playoffs Ops_Notify Session_Auth Connection_Races GS_Floor GS_Check State_Sync DDB_Typing Lineup_Run
begin

text \<open>
  A verification library for rosterbot, a bot that runs a fantasy-baseball team: it sets the daily
  lineup, watches the league's weekly limit of game starts, keeps several tenants and their
  Fantrax credentials apart, and tells its operators when a job stops working.

  \<^bold>\<open>The program and its parts.\<close> One container image runs one command per task (\<open>src/cmd\<close>). A
  scheduled lineup run first gets its tenant's credentials and session (\<open>tenantcreds.go\<close>,
  \<open>session_ladder.go\<close>), restores its directories from the state bucket (\<open>sync.go\<close>,
  \<open>internal/statesync\<close>), reads roster, schedule and projections, computes the game-start budget of
  the week (\<open>internal/lineuprun\<close>), asks the optimiser for the moves (\<open>internal/optimizer\<close>), applies
  them (\<open>internal/fantrax/apply_lineup.go\<close>) and reports. The lineup API (\<open>internal/lineupapi\<close>) serves
  the web client: sessions, tenants, and the submission of credentials, which a connect task
  (\<open>cmd/connect.go\<close>) verifies. The notifier (\<open>opsnotify\<close>, \<open>internal/opsalert\<close>) reads the ledger of
  runs. All of them share the layout of the state bucket (\<open>internal/statestore/layout\<close>).

  \<^bold>\<open>The theories\<close>, in the order of their imports, with the code each models:

  \<^item> \<open>Prelude\<close>: the functions of Go's \<open>strings\<close>, \<open>strconv\<close> and \<open>sort\<close> that the code calls, and the lemmas
    on lists and maps the components share. \<open>Civil_Time\<close>: dates and RFC 3339. \<open>Base64\<close>.
  \<^item> \<open>Positions\<close> (\<open>internal/positions\<close>), \<open>Scoring\<close> (\<open>internal/scoring\<close>, \<open>internal/projections\<close>): what a
    player may play and what he is worth.
  \<^item> \<open>Lineup_Search\<close>, \<open>Lineup_Optimizer\<close>, \<open>GS_Gate\<close>, \<open>Pitcher_Optimizer\<close> (\<open>internal/optimizer\<close>): the
    pruned search equals the best of all assignments; locked players stay; no slot is over-filled;
    the gate keeps the week within its budget and at its floor.
  \<^item> \<open>Apply_Lineup\<close> (\<open>internal/fantrax/apply_lineup.go\<close>): the retry without locked players, its bound
    and its verification.
  \<^item> \<open>Playoffs\<close>, \<open>Pitcher_Days\<close> (\<open>internal/fantrax\<close>): weeks, bracket, and the counting of game starts, with
    the equality of the two ways of counting.
  \<^item> \<open>GS_Forecast\<close>, \<open>GS_Floor\<close> (\<open>internal/lineuprun\<close>): the budget cascade and the alert on the weekly
    minimum, over \<open>Alert_Marker\<close> (\<open>internal/alertmarker\<close>): when there is a budget, when the alert fires, and that a
    week pages at most twice while its marker store works; a run without one repeats the alert.
  \<^item> \<open>Job_Report\<close> (\<open>internal/jobreport\<close>) and \<open>GS_Check\<close> (\<open>internal/gscheck\<close>): the weekly check of every team.
  \<^item> \<open>Ops_Alert\<close> (\<open>internal/opsalert\<close>) and \<open>Ops_Notify\<close> (\<open>opsnotify\<close>): streaks, heartbeat, drift, and the
    handlers with their markers.
  \<^item> \<open>Tenant_Store\<close>, \<open>Session_Auth\<close> (\<open>internal/lineupapi\<close>): users, claims, devices, enrollments, cookies
    and the gate in front of the handlers. Teams are assigned by an
    admin and claimed by the connect task.
  \<^item> \<open>DDB_Table\<close>, \<open>DDB_Users\<close>, \<open>DDB_Races\<close>, \<open>DDB_Contract\<close>, \<open>DDB_Typing\<close> (\<open>internal/lineupapi/ddbuser\<close>, the loops of
    \<open>tenants_admin.go\<close> and \<open>memberships.go\<close>): a table of items and its single requests, each operation of
    the store as a program of them, all programs interleaved as a step relation whose requests may
    fail or lose their answer, and rely-guarantee proofs in the locale \<open>interference\<close>, interpreted
    once for profiles with their claims and once for enrollment links; what single operations promise, with the
    connections as a compare-and-swap register over what is read; and type safety of the table.
  \<^item> \<open>Connections\<close>, \<open>Connect_Flow\<close>, \<open>Session_Ladder\<close>, \<open>Connection_Races\<close>: the versioned connection record,
    its three writers, and their interleaving as a step relation over one table.
  \<^item> \<open>State_Layout\<close>, \<open>State_Sync\<close> (\<open>internal/statestore\<close>, \<open>internal/statesync\<close>, \<open>cmd/sync.go\<close>): who owns
    which keys, and that no download leaves its directory or crosses tenants.
  \<^item> \<open>Projection_Load\<close>, \<open>Matchup\<close>, \<open>Recent_Blend\<close> (\<open>internal/projections\<close>, \<open>internal/teams\<close>, \<open>lineuprun/recent.go\<close>,
    \<open>blend.go\<close>): which system a load uses, how a projection is found, adjusted to the pitcher it faces and
    blended with recent form; the windowed mean, the bounds of the adjustment and its explanation in the tables.
  \<^item> \<open>Run_Guards\<close>, \<open>Roster_Alerts\<close> (\<open>lineuprun/dates.go\<close>, \<open>playoff_idle.go\<close>, \<open>il_starts.go\<close>, \<open>internal/roster\<close>):
    the dates of a run, the idle playoff rounds, and the alerts on the injured list.
  \<^item> \<open>Date_Run\<close> (\<open>lineuprun/optimize_dates.go\<close>), \<open>Date_Format\<close>, \<open>Snapshot_Archive\<close> (\<open>snapshot.go\<close>, \<open>internal/backtest\<close>),
    \<open>Lineup_Emit\<close> (\<open>emit.go\<close>, \<open>publish.go\<close>): one date and all dates of a run over the rosters they share, the
    archive whose locked rows never change, and the plan, publication and application of the moves.
  \<^item> \<open>Lineup_Run\<close> (\<open>lineuprun.go\<close>, \<open>inputs.go\<close>): the whole run, composed of the phases above. Its theorems say which
    runs touch the roster: never without consent, in a dry run, on a day that does not count or after an input that
    failed; when a started player is kept; and what a dry run still sends.

  \<^bold>\<open>How state and operations correspond.\<close> A Go struct is a record with the fields the code reads,
  prefixed with a short tag; an enumeration of string constants is a datatype; a handler is one
  definition that takes what it reads and returns its error and the state it leaves. A read or
  write that may fail is governed by a predicate on its key, a parameter of the definition, so
  that every error branch is in the model. Code outside the repository is a parameter: the Fantrax
  client, the normaliser of player names, HMAC, JSON, KMS, the browser, S3 and DynamoDB. What a
  property relies on there is a hypothesis of it or a law of a locale: a conditional put is atomic, decoding
  inverts encoding. Interfaces are locales, interpreted on the code's own definitions: the
  connection store, the marker, the comparison functions of a sort.

  \<^bold>\<open>Choices.\<close> \<open>float64\<close> is an exact real, without rounding, NaN and infinities. \<open>int\<close> is unbounded: the
  numbers are counts of games, days and players. Strings are byte strings. An instant is a
  number of nanoseconds, a date the number of its day; the subtraction of two instants saturates in the
  numbering of daily periods (\<open>Playoffs.sub_days\<close>), where the start may be the zero time, and nowhere else.
  A Go map that is only looked up is a partial function; one that is ranged over is the
  list of its entries in the order of the loop, and the properties hold for every such list.
  \<open>sort.Slice\<close> is an insertion sort; where the comparison is not a strict weak order the
  development says so instead of assuming it. The file operations of \<open>Tenant_Store\<close> succeed. Wording
  of messages and lines on the console are left out, unless code reads them back; events of the
  output are constructors in their order. The scan for profiles is one request. Versions in DynamoDB
  are unbounded integers. The dates of a run are parallel in the code; in \<open>Date_Run\<close> each is one step on the
  shared rosters, in any order. In \<open>DDB_Races\<close> nobody writes a profile while its user is being deleted.

  \<^bold>\<open>Bounds.\<close> The only fuel is the number of pages a query over one user's rows may take, which the
  code does not bound: \<open>delete_removes_user\<close> and \<open>passkeys_listed\<close> need one page more than there are
  rows, which always suffices. All other loops are structural recursions or functions with a proved measure;
  the retries carry the code's own limits: five attempts of a submission, three of a team's
  fetch, one retry of a lineup, and one login per break of a session.

  \<^bold>\<open>Not modelled.\<close> HTTP decoding and rendering of the API's routes and of the Fantrax client; the HTML
  sites, the board, the progress display and the published document; downloads and CSV parsing of projections; the trade, waiver, backtest and dynasty reports,
  which compute tables over downloaded data; AWS CDK declarations and the lambda entry points,
  which wire the handlers; the web client, which is JavaScript. Deleting a connection
  (\<open>DeleteConnection\<close>) is not a step of \<open>Connection_Races\<close>.
\<close>

end
